(* ===== verification/Prelude.thy ===== *)
theory Prelude
  imports Main "HOL-Library.Word"
begin

text \<open>
  Shared vocabulary of the development: bytes and byte strings, the fixed-width
  arithmetic the Rust sources write out (saturating, checked), the big- and
  little-endian integer encodings of the wire and of the history banks, the suffix
  of a list (the model of a bounded ring), and the sum type that stands for
  \<open>anyhow::Result\<close>.
\<close>

section \<open>Collections of facts\<close>

named_theorems arith_defs \<open>definitions of the fixed-width operations\<close>
named_theorems ring_simps \<open>laws of bounded suffixes\<close>
named_theorems size_consts \<open>the byte and count limits of the sources\<close>

section \<open>Types\<close>

type_synonym byte = "8 word"
type_synonym bytes = "8 word list"

text \<open>\<open>'e + 'a\<close> is \<open>Result<'a, 'e>\<close>: \<open>Inl\<close> is \<open>Err\<close>, \<open>Inr\<close> is \<open>Ok\<close>.\<close>

definition res_bind :: "'e + 'a \<Rightarrow> ('a \<Rightarrow> 'e + 'b) \<Rightarrow> 'e + 'b" where
  "res_bind r f = (case r of Inl e \<Rightarrow> Inl e | Inr a \<Rightarrow> f a)"

lemma res_bind_simps [simp]:
  "res_bind (Inl e) f = Inl e"
  "res_bind (Inr a) f = f a"
  by (simp_all add: res_bind_def)

lemma res_bind_eq_Inr:
  "res_bind r f = Inr b \<longleftrightarrow> (\<exists>a. r = Inr a \<and> f a = Inr b)"
  by (cases r) auto

lemma res_bind_eq_Inl:
  "res_bind r f = Inl e \<longleftrightarrow> r = Inl e \<or> (\<exists>a. r = Inr a \<and> f a = Inl e)"
  by (cases r) auto

section \<open>Fixed-width arithmetic\<close>

text \<open>
  Unsigned machine integers are kept as \<open>nat\<close> with the width written out where the
  sources saturate, check or bound them.
\<close>

definition U16_MAX :: nat where [size_consts]: "U16_MAX = 65535"
definition U32_MAX :: nat where [size_consts]: "U32_MAX = 4294967295"
definition U64_MAX :: nat where [size_consts]: "U64_MAX = 18446744073709551615"

definition sat_add :: "nat \<Rightarrow> nat \<Rightarrow> nat \<Rightarrow> nat" where
  [arith_defs]: "sat_add hi a b = min hi (a + b)"

definition sat_mul :: "nat \<Rightarrow> nat \<Rightarrow> nat \<Rightarrow> nat" where
  [arith_defs]: "sat_mul hi a b = min hi (a * b)"

definition checked_add :: "nat \<Rightarrow> nat \<Rightarrow> nat \<Rightarrow> nat option" where
  [arith_defs]: "checked_add hi a b = (if a + b \<le> hi then Some (a + b) else None)"

definition checked_mul :: "nat \<Rightarrow> nat \<Rightarrow> nat \<Rightarrow> nat option" where
  [arith_defs]: "checked_mul hi a b = (if a * b \<le> hi then Some (a * b) else None)"

definition checked_sub :: "nat \<Rightarrow> nat \<Rightarrow> nat option" where
  [arith_defs]: "checked_sub a b = (if b \<le> a then Some (a - b) else None)"

lemma sat_add_le [simp]: "sat_add hi a b \<le> hi"
  by (simp add: sat_add_def)

lemma sat_mul_le [simp]: "sat_mul hi a b \<le> hi"
  by (simp add: sat_mul_def)

lemma checked_add_Some [simp]:
  "checked_add hi a b = Some c \<longleftrightarrow> a + b \<le> hi \<and> c = a + b"
  by (auto simp: checked_add_def)

lemma checked_mul_Some [simp]:
  "checked_mul hi a b = Some c \<longleftrightarrow> a * b \<le> hi \<and> c = a * b"
  by (auto simp: checked_mul_def)

lemma checked_sub_Some [simp]:
  "checked_sub a b = Some c \<longleftrightarrow> b \<le> a \<and> c = a - b"
  by (auto simp: checked_sub_def)

section \<open>Integer encodings\<close>

fun le_bytes :: "nat \<Rightarrow> nat \<Rightarrow> bytes" where
  "le_bytes 0 n = []"
| "le_bytes (Suc k) n = word_of_nat (n mod 256) # le_bytes k (n div 256)"

fun le_value :: "bytes \<Rightarrow> nat" where
  "le_value [] = 0"
| "le_value (b # bs) = unat b + 256 * le_value bs"

definition be_bytes :: "nat \<Rightarrow> nat \<Rightarrow> bytes" where
  "be_bytes k n = rev (le_bytes k n)"

definition be_value :: "bytes \<Rightarrow> nat" where
  "be_value bs = le_value (rev bs)"

lemma unat_byte_lt [simp]: "unat (b :: byte) < 256"
  using unsigned_less [of b, where 'a = nat] by simp

lemma unat_byte_of_nat [simp]: "unat (word_of_nat (n mod 256) :: byte) = n mod 256"
  by (simp add: unat_of_nat)

lemma length_le_bytes [simp]: "length (le_bytes k n) = k"
  by (induction k arbitrary: n) auto

lemma length_be_bytes [simp]: "length (be_bytes k n) = k"
  by (simp add: be_bytes_def)

lemma le_value_le_bytes: "le_value (le_bytes k n) = n mod 256 ^ k"
proof (induction k arbitrary: n)
  case 0
  then show ?case by simp
next
  case (Suc k)
  have "n mod 256 ^ Suc k = n mod 256 + 256 * (n div 256 mod 256 ^ k)"
    by (simp add: mod_mult2_eq)
  then show ?case
    by (simp add: Suc)
qed

lemma le_bytes_le_value: "le_bytes (length bs) (le_value bs) = bs"
proof (induction bs)
  case Nil
  then show ?case by simp
next
  case (Cons b bs)
  have "(unat b + 256 * le_value bs) mod 256 = unat b"
    by simp
  moreover have "(unat b + 256 * le_value bs) div 256 = le_value bs"
    by simp
  ultimately show ?case
    using Cons by simp
qed

lemma be_value_be_bytes: "be_value (be_bytes k n) = n mod 256 ^ k"
  by (simp add: be_value_def be_bytes_def le_value_le_bytes)

text \<open>The unfolded encodings of the widths in use.\<close>

lemma be_bytes_4:
  "be_bytes 4 n = [word_of_nat (n div 16777216 mod 256), word_of_nat (n div 65536 mod 256),
     word_of_nat (n div 256 mod 256), word_of_nat (n mod 256)]"
proof -
  have "(4 :: nat) = Suc (Suc (Suc (Suc 0)))" by simp
  then have "be_bytes 4 n = be_bytes (Suc (Suc (Suc (Suc 0)))) n" by (rule arg_cong)
  then show ?thesis by (simp add: be_bytes_def div_mult2_eq [symmetric])
qed

lemma le_value_bound: "le_value bs < 256 ^ length bs"
proof (induction bs)
  case Nil
  then show ?case by simp
next
  case (Cons b bs)
  have "unat b < 256" by simp
  with Cons have "unat b + 256 * le_value bs < 256 * 256 ^ length bs"
    by linarith
  then show ?case by simp
qed

section \<open>Bounded suffixes\<close>

text \<open>\<open>lastn n xs\<close> is what a ring of capacity \<open>n\<close> holds after the stream \<open>xs\<close>.\<close>

definition lastn :: "nat \<Rightarrow> 'a list \<Rightarrow> 'a list" where
  "lastn n xs = drop (length xs - n) xs"

lemma length_lastn [simp]: "length (lastn n xs) = min n (length xs)"
  by (auto simp: lastn_def)

lemma lastn_0 [simp]: "lastn 0 xs = []"
  by (simp add: lastn_def)

lemma lastn_Nil [simp]: "lastn n [] = []"
  by (simp add: lastn_def)

lemma lastn_all [simp]: "length xs \<le> n \<Longrightarrow> lastn n xs = xs"
  by (simp add: lastn_def)

lemma lastn_append_long [ring_simps]: "n \<le> length ys \<Longrightarrow> lastn n (xs @ ys) = lastn n ys"
  by (simp add: lastn_def)

lemma lastn_append_short [ring_simps]:
  "length ys \<le> n \<Longrightarrow> lastn n (xs @ ys) = lastn (n - length ys) xs @ ys"
  by (simp add: lastn_def)

lemma lastn_lastn [simp]: "lastn m (lastn n xs) = lastn (min m n) xs"
proof (cases "m \<le> n")
  case True
  then have "length xs - (length xs - n + m) + (length xs - n) = length xs - m \<or>
      length xs \<le> m"
    by arith
  with True show ?thesis
    by (auto simp: lastn_def min_def)
qed (auto simp: lastn_def min_def)

lemma lastn_append_lastn [ring_simps]: "lastn n (lastn n xs @ ys) = lastn n (xs @ ys)"
proof (cases "n \<le> length ys")
  case True
  then show ?thesis by (simp add: lastn_append_long)
next
  case False
  then have "length ys \<le> n" by simp
  then show ?thesis by (simp add: lastn_append_short)
qed

lemma lastn_append_lastn_ge: "n \<le> m \<Longrightarrow> lastn n (lastn m xs @ ys) = lastn n (xs @ ys)"
  by (metis lastn_append_lastn lastn_lastn min.absorb1)

lemma lastn_suffix: "\<exists>us. xs = us @ lastn n xs"
  unfolding lastn_def by (metis append_take_drop_id)

lemma lastn_eq_length: "lastn (length ys) (xs @ ys) = ys"
  by (simp add: lastn_def)

section \<open>Lists of bytes\<close>

fun split_on :: "'a \<Rightarrow> 'a list \<Rightarrow> 'a list list" where
  "split_on s [] = [[]]"
| "split_on s (x # xs) =
     (if x = s then [] # split_on s xs
      else (case split_on s xs of [] \<Rightarrow> [[x]] | p # ps \<Rightarrow> (x # p) # ps))"

lemma split_on_nonempty [simp]: "split_on s xs \<noteq> []"
  by (induction xs) (auto split: list.splits)

lemma split_on_no_sep: "s \<notin> set xs \<Longrightarrow> split_on s xs = [xs]"
  by (induction xs) auto

lemma split_on_sep: "s \<notin> set xs \<Longrightarrow> split_on s (xs @ s # ys) = xs # split_on s ys"
  by (induction xs) auto

lemma split_on_parts: "p \<in> set (split_on s xs) \<Longrightarrow> s \<notin> set p \<and> set p \<subseteq> set xs"
proof (induction xs arbitrary: p)
  case Nil
  then show ?case by simp
next
  case (Cons x xs)
  obtain q qs where q: "split_on s xs = q # qs"
    using split_on_nonempty by (meson neq_Nil_conv)
  from Cons.IH q have parts: "\<forall>p \<in> set (q # qs). s \<notin> set p \<and> set p \<subseteq> set xs"
    by auto
  have "p = [] \<or> p = x # q \<and> x \<noteq> s \<or> p \<in> set (q # qs)"
    using Cons.prems q by (auto split: if_splits)
  with parts show ?case
    by fastforce
qed

text \<open>\<open>join_on\<close> puts the separator back: the inverse of \<open>split_on\<close>.\<close>

fun join_on :: "'a \<Rightarrow> 'a list list \<Rightarrow> 'a list" where
  "join_on s [] = []"
| "join_on s [p] = p"
| "join_on s (p # ps) = p @ s # join_on s ps"

lemma join_on_Cons: "ps \<noteq> [] \<Longrightarrow> join_on s (p # ps) = p @ s # join_on s ps"
  by (cases ps) auto

lemma join_split_on: "join_on s (split_on s xs) = xs"
proof (induction xs)
  case Nil
  then show ?case by simp
next
  case (Cons x xs)
  obtain q qs where q: "split_on s xs = q # qs"
    using split_on_nonempty by (meson neq_Nil_conv)
  with Cons show ?case
    by (cases qs) auto
qed

lemma split_join_on:
  "ps \<noteq> [] \<Longrightarrow> \<forall>p \<in> set ps. s \<notin> set p \<Longrightarrow> split_on s (join_on s ps) = ps"
proof (induction ps)
  case Nil
  then show ?case by simp
next
  case (Cons p ps)
  then show ?case
    by (cases ps) (auto simp: split_on_no_sep split_on_sep)
qed

section \<open>Decimal numbers\<close>

definition is_digit :: "byte \<Rightarrow> bool" where
  "is_digit b \<longleftrightarrow> 0x30 \<le> b \<and> b \<le> 0x39"

text \<open>
  \<^verbatim>\<open>fold(0, |n, d| n.saturating_mul(10).saturating_add(d - b'0'))\<close>, the accumulator two
  recognizers share, and the value it approximates.
\<close>

definition dec_sat :: "nat \<Rightarrow> bytes \<Rightarrow> nat" where
  "dec_sat hi bs = foldl (\<lambda>n d. sat_add hi (sat_mul hi n 10) (unat d - 48)) 0 bs"

definition dec_value :: "bytes \<Rightarrow> nat" where
  "dec_value bs = foldl (\<lambda>n d. n * 10 + (unat d - 48)) 0 bs"

definition digit :: "nat \<Rightarrow> byte" where
  "digit n = word_of_nat (48 + n)"

fun dec_bytes :: "nat \<Rightarrow> bytes" where
  "dec_bytes n = (if n < 10 then [digit n]
     else dec_bytes (n div 10) @ [digit (n mod 10)])"

declare dec_bytes.simps [simp del]

lemma sat_digit: "sat_add hi (sat_mul hi (min hi n) 10) d = min hi (n * 10 + d)"
  by (auto simp: arith_defs min_def)

lemma dec_sat_value: "dec_sat hi bs = min hi (dec_value bs)"
proof -
  have "foldl (\<lambda>n d. sat_add hi (sat_mul hi n 10) (unat d - 48)) (min hi n) bs =
      min hi (foldl (\<lambda>n d. n * 10 + (unat d - 48)) n bs)" for n
    by (induction bs arbitrary: n) (simp_all add: sat_digit)
  from this [of 0] show ?thesis by (simp add: dec_sat_def dec_value_def)
qed

lemma dec_value_snoc [simp]: "dec_value (bs @ [b]) = dec_value bs * 10 + (unat b - 48)"
  by (simp add: dec_value_def)

lemma unat_digit [simp]: "n < 10 \<Longrightarrow> unat (digit n) = 48 + n"
  by (simp only: digit_def unat_of_nat) simp

lemma is_digit_digit [simp]: "n < 10 \<Longrightarrow> is_digit (digit n)"
  by (simp add: is_digit_def word_le_nat_alt)

lemma dec_bytes_digits: "\<forall>b \<in> set (dec_bytes n). is_digit b"
proof (induction n rule: dec_bytes.induct)
  case (1 n)
  then show ?case
    by (subst dec_bytes.simps) auto
qed

lemma dec_value_dec_bytes [simp]: "dec_value (dec_bytes n) = n"
proof (induction n rule: dec_bytes.induct)
  case (1 n)
  then show ?case
  proof (cases "n < 10")
    case True
    then show ?thesis by (subst dec_bytes.simps) (simp add: dec_value_def)
  next
    case False
    with 1 show ?thesis by (subst dec_bytes.simps) simp
  qed
qed

lemma length_dec_bytes: "n < 10 ^ Suc k \<Longrightarrow> length (dec_bytes n) \<le> Suc k"
proof (induction k arbitrary: n)
  case 0
  then show ?case by (subst dec_bytes.simps) simp
next
  case (Suc k)
  then have "n div 10 < 10 ^ Suc k" by (simp add: div_less_iff_less_mult)
  from Suc.IH [OF this] show ?case by (subst dec_bytes.simps) simp
qed

lemma dec_bytes_nonempty [simp]: "dec_bytes n \<noteq> []"
  by (subst dec_bytes.simps) simp

section \<open>Byte machines\<close>

text \<open>
  Several components are fed a byte stream in arbitrary pieces and must not care where
  the pieces end. \<open>chunked\<close> feeds the pieces one after the other; a byte machine is a
  pair of a one-byte step and a whole-buffer run related by the loop every source has.
\<close>

fun chunked :: "('s \<Rightarrow> bytes \<Rightarrow> 's \<times> 'o list) \<Rightarrow> 's \<Rightarrow> bytes list \<Rightarrow> 's \<times> 'o list" where
  "chunked run s [] = (s, [])"
| "chunked run s (c # cs) =
     (let (s', os) = run s c; (s'', os') = chunked run s' cs in (s'', os @ os'))"

fun opt_list :: "'a option \<Rightarrow> 'a list" where
  "opt_list None = []"
| "opt_list (Some x) = [x]"

locale byte_machine =
  fixes step :: "'s \<Rightarrow> byte \<Rightarrow> 's \<times> 'o list"
    and run :: "'s \<Rightarrow> bytes \<Rightarrow> 's \<times> 'o list"
  assumes run_Nil: "run s [] = (s, [])"
    and run_Cons: "run s (b # bs) =
      (let (s', os) = step s b; (s'', os') = run s' bs in (s'', os @ os'))"
begin

lemma run_append:
  "run s (xs @ ys) = (let (s', os) = run s xs; (s'', os') = run s' ys in (s'', os @ os'))"
proof (induction xs arbitrary: s)
  case Nil
  then show ?case by (simp add: run_Nil split: prod.splits)
next
  case (Cons x xs)
  then show ?case by (simp add: run_Cons split: prod.splits)
qed

lemma run_appendI:
  "run s xs = (s1, os1) \<Longrightarrow> run s1 ys = (s2, os2) \<Longrightarrow> run s (xs @ ys) = (s2, os1 @ os2)"
  by (simp add: run_append)

lemma run_single: "step s b = (s1, os) \<Longrightarrow> run s [b] = (s1, os)"
  by (simp add: run_Cons run_Nil)

lemma run_chunked: "chunked run s cs = run s (concat cs)"
  by (induction cs arbitrary: s) (auto simp: run_Nil run_append split: prod.splits)

lemma run_invariant:
  assumes "\<And>s b. I s \<Longrightarrow> I (fst (step s b))"
  shows "I s \<Longrightarrow> I (fst (run s bs))"
proof (induction bs arbitrary: s)
  case Nil
  then show ?case by (simp add: run_Nil)
next
  case (Cons b bs)
  then show ?case using assms [of s b] Cons.IH [of "fst (step s b)"]
    by (simp add: run_Cons Let_def case_prod_beta)
qed

lemma run_outputs:
  assumes "\<And>s b. I s \<Longrightarrow> I (fst (step s b)) \<and> (\<forall>x \<in> set (snd (step s b)). P x)"
  shows "I s \<Longrightarrow> \<forall>x \<in> set (snd (run s bs)). P x"
proof (induction bs arbitrary: s)
  case Nil
  then show ?case by (simp add: run_Nil)
next
  case (Cons b bs)
  then show ?case using assms [of s b] Cons.IH [of "fst (step s b)"]
    by (auto simp: run_Cons Let_def case_prod_beta)
qed

end

end
