(* ===== verification/Wire_Protocol.thy ===== *)
theory Wire_Protocol
  imports Prelude
begin

text \<open>
  \<open>src/protocol.rs\<close>: the length-prefixed frame codec and the request and response
  messages. A \<open>Read\<close> end is the list of results its successive \<open>read\<close> calls give
  (a chunk of bytes, \<open>Interrupted\<close>, another error; the end of the list is end of
  file), so the codec is exercised under every segmentation of the byte stream. A
  \<open>Write\<close> end is the list of outcomes of its successive \<open>write\<close> calls together with
  the bytes accepted so far. JSON values are the parameter \<open>'v\<close>; \<open>serde_json\<close> is a
  parsing function passed to the operations that use it.
\<close>

section \<open>Frames\<close>

definition PROTOCOL_VERSION :: nat where [size_consts]: "PROTOCOL_VERSION = 1"

definition MAX_FRAME_BYTES :: nat where [size_consts]: "MAX_FRAME_BYTES = 16 * 1024 * 1024"

datatype frame_kind = Json | Data | End

record frame =
  f_kind :: frame_kind
  f_payload :: bytes

datatype wire_error =
    FrameTooLarge nat
  | InvalidMagic
  | UnsupportedFlags
  | UnknownFrameType byte
  | FrameExceedsMaximum
  | UnexpectedEof
  | ReadFailed
  | WriteFailed
  | WriteZero
  | WriteBlocked
  | ExpectedJson
  | JsonInvalid
  | UnsupportedVersion
  | RequestIdMismatch
  | RequestFailed string
  | WorkerClosed

fun kind_byte :: "frame_kind \<Rightarrow> byte" where
  "kind_byte Json = 1"
| "kind_byte Data = 2"
| "kind_byte End = 3"

definition kind_of_byte :: "byte \<Rightarrow> frame_kind option" where
  "kind_of_byte b = (if b = 1 then Some Json else if b = 2 then Some Data
     else if b = 3 then Some End else None)"

text \<open>The four bytes of \<^verbatim>\<open>b"APX1"\<close>.\<close>

definition frame_magic :: bytes where "frame_magic = [0x41, 0x50, 0x58, 0x31]"

text \<open>\<open>payload.len() as u32\<close> truncates; the length is big-endian.\<close>

definition frame_header :: "frame_kind \<Rightarrow> nat \<Rightarrow> bytes" where
  "frame_header k n = frame_magic @ [kind_byte k, 0, 0, 0] @ be_bytes 4 (n mod 2 ^ 32)"

definition encode_frame :: "frame_kind \<Rightarrow> bytes \<Rightarrow> bytes" where
  "encode_frame k p = frame_header k (length p) @ p"

section \<open>The write end\<close>

datatype wr_event = Accept nat | WrInterrupted | WrWouldBlock | WrFail

record writer =
  wr_script :: "wr_event list"
  wr_out :: bytes

text \<open>One \<open>write\<close> call; a writer with no scripted outcome left accepts everything.\<close>

fun wr_write :: "bytes \<Rightarrow> writer \<Rightarrow> (wr_event + nat) \<times> writer" where
  "wr_write buf w =
     (case wr_script w of
        [] \<Rightarrow> (Inr (length buf), w\<lparr>wr_out := wr_out w @ buf\<rparr>)
      | Accept n # s \<Rightarrow>
          (Inr (min n (length buf)), w\<lparr>wr_script := s, wr_out := wr_out w @ take n buf\<rparr>)
      | e # s \<Rightarrow> (Inl e, w\<lparr>wr_script := s\<rparr>))"

declare wr_write.simps [simp del]

text \<open>
  A call either accepts a prefix, or consumes one scripted outcome; both shorten what is
  left to do.
\<close>

lemma wr_write_Inr:
  "wr_write buf w = (Inr n, w') \<Longrightarrow>
     n \<le> length buf \<and> wr_out w' = wr_out w @ take n buf \<and>
     (n = length buf \<or> length (wr_script w') < length (wr_script w)) \<and>
     length (wr_script w') \<le> length (wr_script w)"
  by (auto simp: wr_write.simps min_def split: list.splits wr_event.splits if_splits)

lemma wr_write_Inl:
  "wr_write buf w = (Inl e, w') \<Longrightarrow>
     wr_out w' = wr_out w \<and> length (wr_script w') < length (wr_script w) \<and>
     wr_script w = e # wr_script w'"
  by (auto simp: wr_write.simps split: list.splits wr_event.splits)

text \<open>\<open>std::io::Write::write_all\<close>.\<close>

function write_all :: "bytes \<Rightarrow> writer \<Rightarrow> (wire_error + unit) \<times> writer" where
  "write_all buf w =
     (if buf = [] then (Inr (), w)
      else case wr_write buf w of
        (Inr n, w') \<Rightarrow>
          (if n = 0 then (Inl WriteZero, w') else write_all (drop n buf) w')
      | (Inl e, w') \<Rightarrow>
          (case e of
             WrInterrupted \<Rightarrow> write_all buf w'
           | WrWouldBlock \<Rightarrow> (Inl WriteBlocked, w')
           | _ \<Rightarrow> (Inl WriteFailed, w')))"
  by pat_completeness auto
termination
proof (relation "measure (\<lambda>(buf, w). length buf + length (wr_script w))", goal_cases)
  case 1
  show ?case by simp
next
  case (2 buf w x w' e)
  then have "wr_write buf w = (Inl e, w')" by simp
  from wr_write_Inl [OF this] show ?case by simp
next
  case (3 buf w x w' n)
  then have "wr_write buf w = (Inr n, w')" by simp
  from wr_write_Inr [OF this] have "length (wr_script w') \<le> length (wr_script w)" by simp
  with 3 show ?case by (cases buf) auto
qed

declare write_all.simps [simp del]

lemma write_all_ok:
  "write_all buf w = (Inr u, w') \<Longrightarrow> wr_out w' = wr_out w @ buf"
proof (induction buf w arbitrary: w' rule: write_all.induct)
  case (1 buf w)
  show ?case
  proof (cases "buf = []")
    case True
    with "1.prems" show ?thesis by (simp add: write_all.simps)
  next
    case ne: False
    obtain r v where rv: "wr_write buf w = (r, v)" by force
    show ?thesis
    proof (cases r)
      case (Inl e)
      with rv have e: "wr_write buf w = (Inl e, v)" by simp
      have "wr_out v = wr_out w" using wr_write_Inl [OF e] by simp
      moreover have "wr_out w' = wr_out v @ buf"
        using "1.prems" ne e "1.IH"(1) [OF ne e [symmetric] refl]
        by (cases e) (auto simp: write_all.simps [of buf w])
      ultimately show ?thesis by simp
    next
      case (Inr n)
      with rv have n: "wr_write buf w = (Inr n, v)" by simp
      have out: "wr_out v = wr_out w @ take n buf" using wr_write_Inr [OF n] by simp
      have "n \<noteq> 0"
        using "1.prems" ne n by (auto simp: write_all.simps [of buf w] split: if_splits)
      with "1.prems" ne n have "write_all (drop n buf) v = (Inr u, w')"
        by (simp add: write_all.simps [of buf w])
      then have "wr_out w' = wr_out v @ drop n buf"
        using "1.IH"(2) [OF ne n [symmetric] refl \<open>n \<noteq> 0\<close>] by blast
      with out show ?thesis by simp
    qed
  qed
qed

text \<open>\<open>flush_ok\<close> is the answer of the final \<open>flush\<close>.\<close>

definition write_frame :: "bool \<Rightarrow> frame_kind \<Rightarrow> bytes \<Rightarrow> writer \<Rightarrow> (wire_error + unit) \<times> writer" where
  "write_frame flush_ok k payload w =
     (if MAX_FRAME_BYTES < length payload then (Inl (FrameTooLarge (length payload)), w)
      else case write_all (frame_header k (length payload)) w of
        (Inl e, w') \<Rightarrow> (Inl e, w')
      | (Inr _, w') \<Rightarrow>
          (case write_all payload w' of
             (Inl e, w'') \<Rightarrow> (Inl e, w'')
           | (Inr _, w'') \<Rightarrow> (if flush_ok then Inr () else Inl WriteFailed, w'')))"

text \<open>A frame reported as sent has left whole, within the size limit and flushed.\<close>

lemma write_frame_ok:
  assumes "write_frame flush_ok k p w = (Inr u, w')"
  shows "wr_out w' = wr_out w @ encode_frame k p \<and> length p \<le> MAX_FRAME_BYTES \<and> flush_ok"
  using assms write_all_ok
  by (fastforce simp: write_frame_def encode_frame_def split: if_splits prod.splits sum.splits)

section \<open>The read end\<close>

datatype rd_event = Got bytes | RdInterrupted | RdFail

type_synonym reader = "rd_event list"

fun rd_read :: "nat \<Rightarrow> reader \<Rightarrow> (rd_event + bytes) \<times> reader" where
  "rd_read n [] = (Inr [], [])"
| "rd_read n (Got bs # r) =
     (Inr (take n bs), if length bs \<le> n then r else Got (drop n bs) # r)"
| "rd_read n (e # r) = (Inl e, r)"

fun rd_bytes :: "reader \<Rightarrow> bytes" where
  "rd_bytes [] = []"
| "rd_bytes (Got bs # r) = bs @ rd_bytes r"
| "rd_bytes (e # r) = rd_bytes r"

text \<open>A reader on which no \<open>read\<close> fails or reports a premature end of file.\<close>

fun rd_live :: "reader \<Rightarrow> bool" where
  "rd_live [] = True"
| "rd_live (Got bs # r) = (bs \<noteq> [] \<and> rd_live r)"
| "rd_live (RdInterrupted # r) = rd_live r"
| "rd_live (RdFail # r) = False"

lemma rd_read_Inr:
  "rd_read n r = (Inr bs, r') \<Longrightarrow>
     length bs \<le> n \<and> rd_bytes r = bs @ rd_bytes r' \<and> length r' \<le> length r \<and>
     (rd_live r \<longrightarrow> rd_live r')"
  by (induction n r rule: rd_read.induct) (auto split: if_splits)

lemma rd_read_Inl:
  "rd_read n r = (Inl e, r') \<Longrightarrow> r = e # r' \<and> rd_bytes r' = rd_bytes r \<and>
     (rd_live r \<longrightarrow> e = RdInterrupted \<and> rd_live r')"
  by (induction n r rule: rd_read.induct) auto

lemma rd_read_live_Nil:
  "rd_read n r = (Inr [], r') \<Longrightarrow> 0 < n \<Longrightarrow> rd_live r \<Longrightarrow> rd_bytes r = []"
  by (induction n r rule: rd_read.induct) (auto split: if_splits)

text \<open>\<open>std::io::Read::read_exact\<close>.\<close>

function read_exact :: "nat \<Rightarrow> reader \<Rightarrow> (wire_error + bytes) \<times> reader" where
  "read_exact n r =
     (if n = 0 then (Inr [], r)
      else case rd_read n r of
        (Inl e, r') \<Rightarrow> (if e = RdInterrupted then read_exact n r' else (Inl ReadFailed, r'))
      | (Inr bs, r') \<Rightarrow>
          (if bs = [] then (Inl UnexpectedEof, r')
           else case read_exact (n - length bs) r' of
             (Inl e, r'') \<Rightarrow> (Inl e, r'')
           | (Inr cs, r'') \<Rightarrow> (Inr (bs @ cs), r'')))"
  by pat_completeness auto
termination
proof (relation "measure (\<lambda>(n, r). n + length r)", goal_cases)
  case 1
  show ?case by simp
next
  case (2 n r x r' e)
  then have "rd_read n r = (Inl e, r')" by simp
  then have "r = e # r'" using rd_read_Inl by blast
  then show ?case by simp
next
  case (3 n r x r' bs)
  then have "rd_read n r = (Inr bs, r')" by simp
  then have "length bs \<le> n \<and> length r' \<le> length r" using rd_read_Inr by blast
  with 3 show ?case by (cases bs) auto
qed

declare read_exact.simps [simp del]

lemma read_exact_sound:
  "read_exact n r = (Inr bs, r') \<Longrightarrow>
     length bs = n \<and> rd_bytes r = bs @ rd_bytes r' \<and> (rd_live r \<longrightarrow> rd_live r')"
proof (induction n r arbitrary: bs r' rule: read_exact.induct)
  case (1 n r)
  show ?case
  proof (cases "n = 0")
    case True
    with "1.prems" show ?thesis by (simp add: read_exact.simps)
  next
    case n: False
    obtain x v where xv: "rd_read n r = (x, v)" by force
    show ?thesis
    proof (cases x)
      case (Inl e)
      with xv have e: "rd_read n r = (Inl e, v)" by simp
      have i: "e = RdInterrupted"
        using "1.prems" n e by (auto simp: read_exact.simps [of n r] split: if_splits)
      with "1.prems" n e have "read_exact n v = (Inr bs, r')"
        by (simp add: read_exact.simps [of n r])
      from "1.IH"(1) [OF n e [symmetric] refl i this] rd_read_Inl [OF e] show ?thesis
        by metis
    next
      case (Inr cs)
      with xv have c: "rd_read n r = (Inr cs, v)" by simp
      have ne: "cs \<noteq> []"
        using "1.prems" n c by (auto simp: read_exact.simps [of n r])
      with "1.prems" n c obtain ds where ds: "read_exact (n - length cs) v = (Inr ds, r')"
          and bs: "bs = cs @ ds"
        by (auto simp: read_exact.simps [of n r] split: prod.splits sum.splits)
      from "1.IH"(2) [OF n c [symmetric] refl ne ds] rd_read_Inr [OF c] bs show ?thesis
        by auto
    qed
  qed
qed

lemma read_exact_complete:
  "rd_live r \<Longrightarrow> n \<le> length (rd_bytes r) \<Longrightarrow> \<exists>bs r'. read_exact n r = (Inr bs, r')"
proof (induction n r rule: read_exact.induct)
  case (1 n r)
  show ?case
  proof (cases "n = 0")
    case True
    then show ?thesis by (simp add: read_exact.simps)
  next
    case n: False
    obtain x v where xv: "rd_read n r = (x, v)" by force
    show ?thesis
    proof (cases x)
      case (Inl e)
      with xv have e: "rd_read n r = (Inl e, v)" by simp
      then have i: "e = RdInterrupted" and "rd_live v" "rd_bytes v = rd_bytes r"
        using rd_read_Inl "1.prems" by blast+
      with "1.IH"(1) [OF n e [symmetric] refl i] "1.prems" n e show ?thesis
        by (auto simp: read_exact.simps [of n r])
    next
      case (Inr cs)
      with xv have c: "rd_read n r = (Inr cs, v)" by simp
      have f: "length cs \<le> n" "rd_bytes r = cs @ rd_bytes v" "rd_live v"
        using rd_read_Inr [OF c] "1.prems" by auto
      have ne: "cs \<noteq> []"
        using rd_read_live_Nil [of n r v] c n "1.prems" by auto
      have "n - length cs \<le> length (rd_bytes v)" using f "1.prems" by auto
      with "1.IH"(2) [OF n c [symmetric] refl ne] f obtain ds r'
        where "read_exact (n - length cs) v = (Inr ds, r')" by blast
      with n c ne show ?thesis by (auto simp: read_exact.simps [of n r])
    qed
  qed
qed


text \<open>The checks on a complete header, in the order of the source, and the payload read.\<close>

definition read_frame_body :: "bytes \<Rightarrow> reader \<Rightarrow> (wire_error + frame option) \<times> reader" where
  "read_frame_body header r =
     (let len = be_value (take 4 (drop 8 header)) in
      if take 4 header \<noteq> frame_magic then (Inl InvalidMagic, r)
      else if take 3 (drop 5 header) \<noteq> [0, 0, 0] then (Inl UnsupportedFlags, r)
      else case kind_of_byte (header ! 4) of
        None \<Rightarrow> (Inl (UnknownFrameType (header ! 4)), r)
      | Some k \<Rightarrow>
          (if MAX_FRAME_BYTES < len then (Inl FrameExceedsMaximum, r)
           else case read_exact len r of
             (Inl e, r') \<Rightarrow> (Inl e, r')
           | (Inr p, r') \<Rightarrow> (Inr (Some \<lparr>f_kind = k, f_payload = p\<rparr>), r')))"

function read_frame :: "reader \<Rightarrow> (wire_error + frame option) \<times> reader" where
  "read_frame r =
     (case rd_read 1 r of
        (Inl e, r') \<Rightarrow> (if e = RdInterrupted then read_frame r' else (Inl ReadFailed, r'))
      | (Inr first, r1) \<Rightarrow>
          (if first = [] then (Inr None, r1)
           else case read_exact 11 r1 of
             (Inl e, r2) \<Rightarrow> (Inl e, r2)
           | (Inr others, r2) \<Rightarrow> read_frame_body (first @ others) r2))"
  by pat_completeness auto
termination
proof (relation "measure length", goal_cases)
  case (2 r x r' e)
  then have "rd_read 1 r = (Inl e, r')" by simp
  then show ?case using rd_read_Inl by fastforce
qed simp

declare read_frame.simps [simp del]

section \<open>Requests and responses\<close>

type_synonym uuid = nat

text \<open>
  The operations of \<open>Operation\<close>. A \<open>PathBuf\<close> or \<open>String\<close> field is a \<open>string\<close>, a
  \<open>Uuid\<close> its 128-bit value.
\<close>

datatype operation =
    Ping
  | Status
  | Send nat
  | Capture "nat option"
  | Attach "nat option" bool "nat option" "nat option" bool
  | Resize nat nat
  | Kill int nat
  | Rename string string
  | CaptureScreen bool
  | ReportState string "nat option" "string option" "string option"
  | SetAgent "string option"

record request =
  rq_version :: nat
  rq_request_id :: string
  rq_session_id :: "uuid option"
  rq_operation :: operation

definition request_new :: "uuid \<Rightarrow> string \<Rightarrow> operation \<Rightarrow> request" where
  "request_new sid fresh_id op =
     \<lparr>rq_version = PROTOCOL_VERSION, rq_request_id = fresh_id,
      rq_session_id = Some sid, rq_operation = op\<rparr>"

record 'v response =
  rs_version :: nat
  rs_request_id :: string
  rs_ok :: bool
  rs_result :: "'v option"
  rs_error :: "string option"

definition response_ok :: "string \<Rightarrow> 'v \<Rightarrow> 'v response" where
  "response_ok i v = \<lparr>rs_version = PROTOCOL_VERSION, rs_request_id = i, rs_ok = True,
     rs_result = Some v, rs_error = None\<rparr>"

definition response_error :: "string \<Rightarrow> string \<Rightarrow> 'v response" where
  "response_error i e = \<lparr>rs_version = PROTOCOL_VERSION, rs_request_id = i, rs_ok = False,
     rs_result = None, rs_error = Some e\<rparr>"

definition into_result :: "'v \<Rightarrow> 'v response \<Rightarrow> wire_error + 'v" where
  "into_result null r =
     (if rs_ok r then Inr (case rs_result r of None \<Rightarrow> null | Some v \<Rightarrow> v)
      else Inl (RequestFailed
        (case rs_error r of None \<Rightarrow> ''request failed'' | Some e \<Rightarrow> e)))"

definition frame_json :: "(bytes \<Rightarrow> 'a option) \<Rightarrow> frame \<Rightarrow> wire_error + 'a" where
  "frame_json parse f =
     (if f_kind f \<noteq> Json then Inl ExpectedJson
      else case parse (f_payload f) of None \<Rightarrow> Inl JsonInvalid | Some v \<Rightarrow> Inr v)"

definition response_result ::
    "(bytes \<Rightarrow> 'v response option) \<Rightarrow> 'v \<Rightarrow> frame \<Rightarrow> string \<Rightarrow> wire_error + 'v" where
  "response_result parse null f request_id =
     res_bind (frame_json parse f) (\<lambda>r.
       if rs_version r \<noteq> PROTOCOL_VERSION then Inl UnsupportedVersion
       else if rs_request_id r \<noteq> request_id then Inl RequestIdMismatch
       else into_result null r)"

definition read_response ::
    "(bytes \<Rightarrow> 'v response option) \<Rightarrow> 'v \<Rightarrow> reader \<Rightarrow> string \<Rightarrow> (wire_error + 'v) \<times> reader" where
  "read_response parse null r request_id =
     (case read_frame r of
        (Inl e, r') \<Rightarrow> (Inl e, r')
      | (Inr None, r') \<Rightarrow> (Inl WorkerClosed, r')
      | (Inr (Some f), r') \<Rightarrow> (response_result parse null f request_id, r'))"

section \<open>Frame laws\<close>

lemma kind_of_byte_kind_byte [simp]: "kind_of_byte (kind_byte k) = Some k"
  by (cases k) (simp_all add: kind_of_byte_def)

lemma kind_of_byte_Some: "kind_of_byte b = Some k \<Longrightarrow> b = kind_byte k"
  by (auto simp: kind_of_byte_def split: if_splits)

lemma length_frame_header [simp]: "length (frame_header k n) = 12"
  by (simp add: frame_header_def frame_magic_def)

lemma frame_header_parts:
  "take 4 (frame_header k n) = frame_magic"
  "take 3 (drop 5 (frame_header k n)) = [0, 0, 0]"
  "frame_header k n ! 4 = kind_byte k"
  "n \<le> MAX_FRAME_BYTES \<Longrightarrow> be_value (take 4 (drop 8 (frame_header k n))) = n"
  "n \<le> MAX_FRAME_BYTES \<Longrightarrow> be_value (drop 8 (frame_header k n)) = n"
  by (simp_all add: frame_header_def frame_magic_def be_value_be_bytes size_consts)

lemma header_unique:
  assumes "length h = 12" "take 4 h = frame_magic" "take 3 (drop 5 h) = [0, 0, 0]"
    and "h ! 4 = kind_byte k" "be_value (take 4 (drop 8 h)) = n" "n \<le> MAX_FRAME_BYTES"
  shows "h = frame_header k n"
proof -
  have l8: "length (drop 8 h) = 4" using assms(1) by simp
  have "take 4 (drop 8 h) = drop 8 h" using l8 by simp
  then have v: "be_value (drop 8 h) = n" using assms(5) by simp
  have "n mod 2 ^ 32 = n" using assms(6) by (simp add: size_consts)
  then have t: "be_bytes 4 (n mod 2 ^ 32) = drop 8 h"
    using le_bytes_le_value [of "rev (drop 8 h)"] v l8
    by (simp add: be_bytes_def be_value_def)
  have "h = take 4 h @ [h ! 4] @ take 3 (drop 5 h) @ drop 8 h"
  proof -
    have "h = take 4 h @ drop 4 h" by simp
    also have "drop 4 h = h ! 4 # drop 5 h"
      using assms(1) Cons_nth_drop_Suc [of 4 h] by simp
    also have "drop 5 h = take 3 (drop 5 h) @ drop 8 h"
      using append_take_drop_id [of 3 "drop 5 h"] by simp
    finally show ?thesis by simp
  qed
  also have "\<dots> = frame_header k n"
    using assms t by (simp add: frame_header_def)
  finally show ?thesis .
qed

text \<open>
  On a live reader with a byte left, the first \<open>read\<close> calls (interrupted ones are
  retried) give that byte.
\<close>

lemma read_frame_first:
  assumes "rd_live r" "rd_bytes r \<noteq> []"
  shows "\<exists>b r1. rd_live r1 \<and> rd_bytes r = b # rd_bytes r1 \<and>
     read_frame r = (case read_exact 11 r1 of
        (Inl e, r2) \<Rightarrow> (Inl e, r2)
      | (Inr others, r2) \<Rightarrow> read_frame_body (b # others) r2)"
  using assms
proof (induction r)
  case Nil
  then show ?case by simp
next
  case (Cons e r)
  show ?case
  proof (cases e)
    case (Got bs)
    with Cons.prems obtain b cs where bs: "bs = b # cs" by (cases bs) auto
    let ?r1 = "if cs = [] then r else Got cs # r"
    have "rd_live ?r1" "rd_bytes (e # r) = b # rd_bytes ?r1"
      using Cons.prems Got bs by auto
    moreover have "rd_read 1 (e # r) = (Inr [b], ?r1)" using Got bs by simp
    ultimately show ?thesis
      by (intro exI [of _ b] exI [of _ ?r1])
        (auto simp: read_frame.simps [of "e # r"] split: prod.splits sum.splits)
  next
    case RdInterrupted
    then have "read_frame (e # r) = read_frame r" by (subst read_frame.simps) simp
    with Cons RdInterrupted show ?thesis by auto
  next
    case RdFail
    with Cons.prems show ?thesis by simp
  qed
qed

lemma read_frame_SomeE:
  assumes "read_frame r = (Inr (Some f), r')"
  obtains h r2 where "length h = 12" "rd_bytes r = h @ rd_bytes r2"
    "read_frame_body h r2 = (Inr (Some f), r')"
  using assms
proof (induction r arbitrary: thesis rule: read_frame.induct)
  case (1 r)
  obtain x v where xv: "rd_read 1 r = (x, v)" by force
  show ?case
  proof (cases x)
    case (Inl e)
    with xv have e: "rd_read 1 r = (Inl e, v)" by simp
    with "1.prems"(2) have "e = RdInterrupted" "read_frame v = (Inr (Some f), r')"
      by (auto simp: read_frame.simps [of r] split: if_splits)
    with "1.IH" [OF e [symmetric] refl] "1.prems"(1) rd_read_Inl [OF e] show ?thesis by metis
  next
    case (Inr first)
    with xv have c: "rd_read 1 r = (Inr first, v)" by simp
    have ne: "first \<noteq> []"
      using "1.prems"(2) c by (auto simp: read_frame.simps [of r])
    with rd_read_Inr [OF c] have l1: "length first = 1" by (cases first) auto
    from "1.prems"(2) c ne obtain others r2
      where o: "read_exact 11 v = (Inr others, r2)"
        and body: "read_frame_body (first @ others) r2 = (Inr (Some f), r')"
      by (auto simp: read_frame.simps [of r] split: prod.splits sum.splits)
    show ?thesis
      by (rule "1.prems"(1) [OF _ _ body])
        (use l1 read_exact_sound [OF o] rd_read_Inr [OF c] in auto)
  qed
qed

lemma read_encoded:
  assumes "rd_live r" and "length p \<le> MAX_FRAME_BYTES"
    and "rd_bytes r = encode_frame k p @ rest"
  shows "\<exists>r'. read_frame r = (Inr (Some \<lparr>f_kind = k, f_payload = p\<rparr>), r') \<and>
     rd_live r' \<and> rd_bytes r' = rest"
proof -
  let ?h = "frame_header k (length p)"
  have ne: "rd_bytes r \<noteq> []"
    using assms(3) length_frame_header [of k "length p"]
    by (auto simp: encode_frame_def simp del: length_frame_header)
  obtain b r1 where b: "rd_live r1" "rd_bytes r = b # rd_bytes r1"
      and rf: "read_frame r = (case read_exact 11 r1 of
        (Inl e, r2) \<Rightarrow> (Inl e, r2)
      | (Inr others, r2) \<Rightarrow> read_frame_body (b # others) r2)"
    using read_frame_first [OF assms(1) ne] by blast
  have "length (b # rd_bytes r1) = 12 + length p + length rest"
    using b(2) assms(3) by (metis encode_frame_def length_append length_frame_header)
  then have "11 \<le> length (rd_bytes r1)" by simp
  then obtain others r2 where m: "read_exact 11 r1 = (Inr others, r2)"
    using read_exact_complete b(1) by blast
  then have ms: "length others = 11" "rd_bytes r1 = others @ rd_bytes r2" "rd_live r2"
    using read_exact_sound b(1) by blast+
  have "(b # others) @ rd_bytes r2 = ?h @ p @ rest"
    using b(2) ms assms(3) by (simp add: encode_frame_def)
  then have h: "b # others = ?h" and rest: "rd_bytes r2 = p @ rest"
    using ms(1) append_eq_append_conv [of "b # others" ?h "rd_bytes r2" "p @ rest"] by simp_all
  then obtain q r3 where q: "read_exact (length p) r2 = (Inr q, r3)"
    using read_exact_complete ms(3) by (metis length_append le_add1)
  then have qs: "length q = length p" "rd_bytes r2 = q @ rd_bytes r3" "rd_live r3"
    using read_exact_sound ms(3) by blast+
  then have "q = p" "rd_bytes r3 = rest" using rest by simp_all
  moreover have "read_frame r = (Inr (Some \<lparr>f_kind = k, f_payload = q\<rparr>), r3)"
    using m q assms(2) by (simp add: rf h frame_header_parts Let_def read_frame_body_def)
  ultimately show ?thesis using qs(3) by simp
qed

text \<open>
  C1: round trip. Whatever way the transport cuts and interrupts the byte stream, a
  frame that \<open>write_frame\<close> emits is read back as the same frame, and the reader is
  left exactly behind it.
\<close>

theorem read_frame_encode:
  assumes "rd_live r" and "length p \<le> MAX_FRAME_BYTES"
    and "rd_bytes r = encode_frame k p @ rest"
  shows "\<exists>r'. read_frame r = (Inr (Some \<lparr>f_kind = k, f_payload = p\<rparr>), r') \<and>
     rd_live r' \<and> rd_bytes r' = rest"
  using assms by (rule read_encoded)

text \<open>A two-byte frame cut after three bytes, interrupted, with one more byte behind it.\<close>

theorem read_frame_encode_witness:
  "\<exists>r'. read_frame [Got [0x41, 0x50, 0x58], RdInterrupted,
        Got [0x31, 2, 0, 0, 0, 0, 0, 0, 2, 7, 9, 1]]
      = (Inr (Some \<lparr>f_kind = Data, f_payload = [7, 9]\<rparr>), r') \<and> rd_live r' \<and> rd_bytes r' = [1]"
  by (rule read_frame_encode)
    (simp_all add: encode_frame_def frame_header_def frame_magic_def be_bytes_4 size_consts)

text \<open>
  C2: nothing but an encoded frame is ever accepted: if \<open>read_frame\<close> returns a frame,
  the bytes it consumed are exactly that frame's encoding, and its payload is within the
  protocol's bound.
\<close>

theorem read_frame_sound:
  assumes "read_frame r = (Inr (Some f), r')"
  shows "rd_bytes r = encode_frame (f_kind f) (f_payload f) @ rd_bytes r' \<and>
     length (f_payload f) \<le> MAX_FRAME_BYTES"
proof -
  obtain h r2 where h: "length h = 12" "rd_bytes r = h @ rd_bytes r2"
      "read_frame_body h r2 = (Inr (Some f), r')"
    using read_frame_SomeE [OF assms] by blast
  let ?n = "be_value (take 4 (drop 8 h))"
  obtain k p where c: "take 4 h = frame_magic" "take 3 (drop 5 h) = [0, 0, 0]"
      "kind_of_byte (h ! 4) = Some k" "?n \<le> MAX_FRAME_BYTES" "read_exact ?n r2 = (Inr p, r')"
      and f: "f = \<lparr>f_kind = k, f_payload = p\<rparr>"
    using h(3) by (auto simp: read_frame_body_def Let_def
        split: if_splits option.splits prod.splits sum.splits)
  have p: "length p = ?n" "rd_bytes r2 = p @ rd_bytes r'" using read_exact_sound [OF c(5)] by auto
  have "h = frame_header k ?n"
    using header_unique h(1) c kind_of_byte_Some [OF c(3)] by blast
  then show ?thesis
    using h(2) p f c(4) by (simp add: encode_frame_def)
qed

theorem read_frame_sound_witness:
  "rd_bytes [Got [0x41, 0x50, 0x58, 0x31, 3, 0, 0, 0, 0, 0, 0, 0]] =
     encode_frame End [] @ rd_bytes [] \<and> length ([] :: bytes) \<le> MAX_FRAME_BYTES"
  using read_frame_sound [of "[Got [0x41, 0x50, 0x58, 0x31, 3, 0, 0, 0, 0, 0, 0, 0]]"
      "\<lparr>f_kind = End, f_payload = []\<rparr>" "[]"]
  by (simp add: read_frame.simps read_exact.simps read_frame_body_def frame_magic_def
      kind_of_byte_def be_value_def Let_def)

end
