(* ===== verification/History_Format.thy ===== *)
theory History_Format
  imports Wire_Protocol
begin

text \<open>
  \<open>src/history/layout.rs\<close> and \<open>src/history/records.rs\<close>: the on-disk format of a session's
  durable history. Two data banks hold the bytes behind a checksummed binary header, two
  commit files (JSON, checksummed) say which bank and how much of it is committed, and a
  marker says that the store exists. SHA-256 and the JSON codec are third-party code: they
  are the fields of \<open>hist_codec\<close>, an argument of every definition that uses them.
\<close>

section \<open>Constants\<close>

definition MAX_HISTORY_BYTES :: nat where [size_consts]: "MAX_HISTORY_BYTES = MAX_FRAME_BYTES"
definition HISTORY_FORMAT_VERSION :: nat where [size_consts]: "HISTORY_FORMAT_VERSION = 2"
definition HISTORY_BANK_HEADER_PREFIX_BYTES :: nat where
  [size_consts]: "HISTORY_BANK_HEADER_PREFIX_BYTES = 72"
definition HISTORY_BANK_HEADER_BYTES :: nat where
  [size_consts]: "HISTORY_BANK_HEADER_BYTES = HISTORY_BANK_HEADER_PREFIX_BYTES + 32"
definition HISTORY_COMMIT_MAX_BYTES :: nat where [size_consts]: "HISTORY_COMMIT_MAX_BYTES = 4096"
definition HISTORY_MARKER_MAX_BYTES :: nat where [size_consts]: "HISTORY_MARKER_MAX_BYTES = 4096"
definition HISTORY_BANK_COUNT :: nat where [size_consts]: "HISTORY_BANK_COUNT = 2"
definition HISTORY_COMMIT_COUNT :: nat where [size_consts]: "HISTORY_COMMIT_COUNT = 2"
definition HISTORY_HASH_CHUNK_BYTES :: nat where
  [size_consts]: "HISTORY_HASH_CHUNK_BYTES = 64 * 1024"

text \<open>\<^verbatim>\<open>b"APLXH2D\0"\<close>.\<close>

definition HISTORY_BANK_MAGIC :: bytes where
  "HISTORY_BANK_MAGIC = [0x41, 0x50, 0x4C, 0x58, 0x48, 0x32, 0x44, 0x00]"

text \<open>A failed I/O call, or a \<open>bail!\<close> with its message.\<close>

datatype hist_error = IoError | Bail string

definition validate_history_bytes :: "nat \<Rightarrow> hist_error + nat" where
  "validate_history_bytes v = (if MAX_HISTORY_BYTES < v then Inl (Bail ''history_bytes exceeds the maximum'') else Inr v)"

section \<open>Checksums in hex\<close>

definition hex_digit :: "nat \<Rightarrow> byte" where
  "hex_digit n = (if n < 10 then word_of_nat (0x30 + n) else word_of_nat (0x57 + n))"

fun hex_encode :: "bytes \<Rightarrow> bytes" where
  "hex_encode [] = []"
| "hex_encode (b # bs) = hex_digit (unat b div 16) # hex_digit (unat b mod 16) # hex_encode bs"

definition lower_hex :: "byte \<Rightarrow> bool" where
  "lower_hex b \<longleftrightarrow> 0x30 \<le> b \<and> b \<le> 0x39 \<or> 0x61 \<le> b \<and> b \<le> 0x66"

lemma length_hex_encode [simp]: "length (hex_encode bs) = 2 * length bs"
  by (induction bs) auto

lemma hex_digit_lower: "n < 16 \<Longrightarrow> lower_hex (hex_digit n)"
  by (auto simp: hex_digit_def lower_hex_def word_le_nat_alt unat_of_nat simp del: of_nat_add)

lemma hex_encode_lower: "list_all lower_hex (hex_encode bs)"
proof (induction bs)
  case (Cons b bs)
  have "unat b div 16 < 16" "unat b mod 16 < 16"
    using unat_byte_lt [of b] by (auto simp: div_less_iff_less_mult)
  with Cons show ?case by (simp add: hex_digit_lower)
qed simp

lemma hex_digit_inj:
  assumes "m < 16" "n < 16" "hex_digit m = hex_digit n"
  shows "m = n"
proof -
  have "unat (hex_digit m) = unat (hex_digit n)" using assms(3) by simp
  with assms(1,2) show ?thesis
    by (auto simp: hex_digit_def unat_of_nat simp del: of_nat_add split: if_splits)
qed

lemma hex_encode_inj: "hex_encode xs = hex_encode ys \<Longrightarrow> xs = ys"
proof (induction xs arbitrary: ys)
  case Nil
  then show ?case by (cases ys) auto
next
  case (Cons x xs)
  then obtain y ys' where ys: "ys = y # ys'" by (cases ys) auto
  have d: "unat z div 16 < 16" "unat z mod 16 < 16" for z :: byte
    using unat_byte_lt [of z] by (auto simp: div_less_iff_less_mult)
  from Cons.prems ys have "unat x div 16 = unat y div 16" "unat x mod 16 = unat y mod 16"
    using hex_digit_inj [OF d(1) d(1)] hex_digit_inj [OF d(2) d(2)] by auto
  then have "unat x = unat y" by (metis div_mult_mod_eq)
  then have "x = y" by (simp only: unsigned_word_eqI)
  with Cons ys show ?case by simp
qed

section \<open>Records and the codec\<close>

record history_marker =
  hm_format_version :: nat
  hm_store_id :: uuid
  hm_session_id :: uuid
  hm_metadata_sha256 :: bytes

record history_commit =
  hc_format_version :: nat
  hc_store_id :: uuid
  hc_session_id :: uuid
  commit_generation :: nat
  bank_generation :: nat
  data_slot :: nat
  hc_capacity :: nat
  committed_len :: nat
  stream_end :: nat
  data_sha256 :: bytes
  metadata_sha256 :: bytes

text \<open>
  Third-party code the store calls: the SHA-256 digest, and \<open>serde_json\<close> on the two record
  types (compact and pretty printing, parsing). \<open>session_id\<close> is \<open>history_session_id\<close> of the
  store's path: the UUID that names its directory.
\<close>

record hist_codec =
  sha256 :: "bytes \<Rightarrow> bytes"
  commit_json :: "history_commit \<Rightarrow> bytes"
  commit_pretty :: "history_commit \<Rightarrow> bytes"
  commit_parse :: "bytes \<Rightarrow> history_commit option"
  marker_json :: "history_marker \<Rightarrow> bytes"
  marker_pretty :: "history_marker \<Rightarrow> bytes"
  marker_parse :: "bytes \<Rightarrow> history_marker option"
  session_id :: uuid

definition sha256_hex :: "hist_codec \<Rightarrow> bytes \<Rightarrow> bytes" where
  "sha256_hex K bs = hex_encode (sha256 K bs)"

definition marker_seal :: "hist_codec \<Rightarrow> history_marker \<Rightarrow> history_marker" where
  "marker_seal K m =
     (let m = m\<lparr>hm_metadata_sha256 := []\<rparr> in m\<lparr>hm_metadata_sha256 := sha256_hex K (marker_json K m)\<rparr>)"

definition marker_validate :: "hist_codec \<Rightarrow> history_marker \<Rightarrow> hist_error + unit" where
  "marker_validate K m =
     (if hm_format_version m \<noteq> HISTORY_FORMAT_VERSION then Inl (Bail ''unsupported history marker format'')
      else if hm_store_id m = 0 then Inl (Bail ''history marker has a nil store id'')
      else if hm_session_id m \<noteq> session_id K then Inl (Bail ''history marker belongs to a different session'')
      else if hm_metadata_sha256 m \<noteq> sha256_hex K (marker_json K (m\<lparr>hm_metadata_sha256 := []\<rparr>))
        then Inl (Bail ''history marker metadata checksum mismatch'')
      else Inr ())"

definition commit_seal :: "hist_codec \<Rightarrow> history_commit \<Rightarrow> history_commit" where
  "commit_seal K c =
     (let c = c\<lparr>metadata_sha256 := []\<rparr> in c\<lparr>metadata_sha256 := sha256_hex K (commit_json K c)\<rparr>)"

definition commit_validate :: "hist_codec \<Rightarrow> nat \<Rightarrow> history_commit \<Rightarrow> hist_error + unit" where
  "commit_validate K metadata_slot c =
     (if hc_format_version c \<noteq> HISTORY_FORMAT_VERSION then Inl (Bail ''unsupported history format'')
      else if HISTORY_BANK_COUNT \<le> data_slot c then Inl (Bail ''history commit names invalid data slot'')
      else if commit_generation c mod HISTORY_COMMIT_COUNT \<noteq> metadata_slot then Inl (Bail ''history commit is stored in the wrong metadata slot'')
      else if hc_session_id c \<noteq> session_id K then Inl (Bail ''history commit belongs to a different session'')
      else if commit_generation c = 0 \<or> bank_generation c = 0 then Inl (Bail ''history generation counters must be positive'')
      else res_bind (validate_history_bytes (hc_capacity c)) (\<lambda>_.
       case checked_mul U64_MAX (hc_capacity c) 2 of
         None \<Rightarrow> Inl (Bail ''history bank size overflow'')
       | Some max_payload \<Rightarrow>
           if max_payload < committed_len c then Inl (Bail ''history committed length exceeds its bounded bank size'')
           else if stream_end c < committed_len c then Inl (Bail ''history committed length exceeds its logical stream position'')
           else if length (data_sha256 c) \<noteq> 64 \<or> \<not> list_all lower_hex (data_sha256 c)
             then Inl (Bail ''history commit has an invalid data checksum'')
           else if metadata_sha256 c \<noteq> sha256_hex K (commit_json K (c\<lparr>metadata_sha256 := []\<rparr>))
             then Inl (Bail ''history commit metadata checksum mismatch'')
           else Inr ()))"

section \<open>Bank headers\<close>

record bank_header =
  bh_store_id :: uuid
  bh_session_id :: uuid
  bh_bank_generation :: nat
  bh_data_slot :: nat
  bh_capacity :: nat

definition header_prefix :: "bank_header \<Rightarrow> bytes" where
  "header_prefix h =
     HISTORY_BANK_MAGIC @ le_bytes 4 HISTORY_FORMAT_VERSION @ le_bytes 4 HISTORY_BANK_HEADER_BYTES @
     be_bytes 16 (bh_store_id h) @ be_bytes 16 (bh_session_id h) @
     le_bytes 8 (bh_bank_generation h) @ [word_of_nat (bh_data_slot h)] @ replicate 7 0 @
     le_bytes 8 (bh_capacity h)"

definition header_encode :: "hist_codec \<Rightarrow> bank_header \<Rightarrow> bytes" where
  "header_encode K h = header_prefix h @ sha256 K (header_prefix h)"

text \<open>\<open>slice i j bs\<close> is \<^verbatim>\<open>&bytes[i..j]\<close>.\<close>

definition slice :: "nat \<Rightarrow> nat \<Rightarrow> 'a list \<Rightarrow> 'a list" where
  "slice i j bs = take (j - i) (drop i bs)"

definition header_decode :: "hist_codec \<Rightarrow> bytes \<Rightarrow> hist_error + bank_header" where
  "header_decode K bs =
     (if length bs \<noteq> HISTORY_BANK_HEADER_BYTES then Inl (Bail ''history bank header has the wrong length'')
      else if slice 0 8 bs \<noteq> HISTORY_BANK_MAGIC then Inl (Bail ''history bank magic mismatch'')
      else if le_value (slice 8 12 bs) \<noteq> HISTORY_FORMAT_VERSION then Inl (Bail ''unsupported history bank format'')
      else if le_value (slice 12 16 bs) \<noteq> HISTORY_BANK_HEADER_BYTES then Inl (Bail ''history bank header length is invalid'')
      else if sha256 K (slice 0 HISTORY_BANK_HEADER_PREFIX_BYTES bs) \<noteq>
              drop HISTORY_BANK_HEADER_PREFIX_BYTES bs then Inl (Bail ''history bank header checksum mismatch'')
      else if list_ex (\<lambda>b. b \<noteq> 0) (slice 57 64 bs) then Inl (Bail ''history bank reserved header bytes are nonzero'')
      else Inr \<lparr>bh_store_id = be_value (slice 16 32 bs), bh_session_id = be_value (slice 32 48 bs),
        bh_bank_generation = le_value (slice 48 56 bs), bh_data_slot = unat (bs ! 56),
        bh_capacity = le_value (slice 64 72 bs)\<rparr>)"

definition header_wf :: "bank_header \<Rightarrow> bool" where
  "header_wf h \<longleftrightarrow> bh_store_id h < 256 ^ 16 \<and> bh_session_id h < 256 ^ 16 \<and>
     bh_bank_generation h \<le> U64_MAX \<and> bh_data_slot h < 256 \<and> bh_capacity h \<le> U64_MAX"

lemma length_header_prefix [simp]: "length (header_prefix h) = 72"
  by (simp add: header_prefix_def HISTORY_BANK_MAGIC_def)

lemma slice_append:
  "slice i j (xs @ ys) =
     (if length xs \<le> i then slice (i - length xs) (j - length xs) ys
      else if j \<le> length xs then slice i j xs
      else drop i xs @ take (j - length xs) ys)"
  by (auto simp: slice_def)

lemma slice_full [simp]: "slice 0 (length xs) xs = xs"
  by (simp add: slice_def)

lemma header_fields:
  "slice 0 8 (header_prefix h) = HISTORY_BANK_MAGIC"
  "slice 8 12 (header_prefix h) = le_bytes 4 HISTORY_FORMAT_VERSION"
  "slice 12 16 (header_prefix h) = le_bytes 4 HISTORY_BANK_HEADER_BYTES"
  "slice 16 32 (header_prefix h) = be_bytes 16 (bh_store_id h)"
  "slice 32 48 (header_prefix h) = be_bytes 16 (bh_session_id h)"
  "slice 48 56 (header_prefix h) = le_bytes 8 (bh_bank_generation h)"
  "header_prefix h ! 56 = word_of_nat (bh_data_slot h)"
  "slice 57 64 (header_prefix h) = replicate 7 0"
  "slice 64 72 (header_prefix h) = le_bytes 8 (bh_capacity h)"
  by (simp_all add: header_prefix_def HISTORY_BANK_MAGIC_def slice_def nth_append)

lemma u64_lt: "n \<le> U64_MAX \<Longrightarrow> n < 256 ^ 8"
  by (simp add: size_consts)

lemma slice_prefix: "j \<le> length xs \<Longrightarrow> slice i j (xs @ ys) = slice i j xs"
  by (auto simp: slice_def)

lemma slice_take: "i + n = j \<Longrightarrow> take n (drop i xs) = slice i j xs"
  by (auto simp: slice_def)

lemma header_nth_56 [simp]: "(header_prefix h @ xs) ! 56 = header_prefix h ! 56"
  by (simp add: nth_append)

lemma header_roundtrip:
  assumes "header_wf h" and "length (sha256 K (header_prefix h)) = 32"
  shows "header_decode K (header_encode K h) = Inr h"
proof -
  have sl: "slice i j (header_encode K h) = slice i j (header_prefix h)" if "j \<le> 72" for i j
    using that by (simp add: header_encode_def slice_prefix)
  have whole: "slice 0 72 (header_prefix h) = header_prefix h"
    using slice_full [of "header_prefix h"] by simp
  have fields: "le_value (le_bytes 4 HISTORY_FORMAT_VERSION) = HISTORY_FORMAT_VERSION"
      "le_value (le_bytes 4 HISTORY_BANK_HEADER_BYTES) = HISTORY_BANK_HEADER_BYTES"
      "be_value (be_bytes 16 (bh_store_id h)) = bh_store_id h"
      "be_value (be_bytes 16 (bh_session_id h)) = bh_session_id h"
      "le_value (le_bytes 8 (bh_bank_generation h)) = bh_bank_generation h"
      "le_value (le_bytes 8 (bh_capacity h)) = bh_capacity h"
      "unat (word_of_nat (bh_data_slot h) :: byte) = bh_data_slot h"
    using assms(1) u64_lt
    by (simp_all only: le_value_le_bytes be_value_be_bytes unat_of_nat header_wf_def)
      (simp_all add: size_consts)
  have "header_encode K h ! 56 = word_of_nat (bh_data_slot h)"
    by (simp only: header_encode_def header_nth_56 header_fields)
  then show ?thesis
    unfolding header_decode_def
    by (simp add: sl whole header_fields fields assms(2) HISTORY_BANK_HEADER_BYTES_def
        HISTORY_BANK_HEADER_PREFIX_BYTES_def)
      (simp add: header_encode_def assms(2) list_ex_iff le_value_le_bytes)
qed

text \<open>
  a bank header written by \<open>encode\<close> decodes to the same header, for every header whose
  fields fit their widths.
\<close>

theorem header_decode_encode:
  assumes "header_wf h" and "length (sha256 K (header_prefix h)) = 32"
  shows "header_decode K (header_encode K h) = Inr h"
  using assms by (rule header_roundtrip)

theorem header_decode_encode_witness:
  "header_decode \<lparr>sha256 = \<lambda>_. replicate 32 0, commit_json = \<lambda>_. [], commit_pretty = \<lambda>_. [],
      commit_parse = \<lambda>_. None, marker_json = \<lambda>_. [], marker_pretty = \<lambda>_. [], marker_parse = \<lambda>_. None,
      session_id = 5\<rparr>
    (header_encode \<lparr>sha256 = \<lambda>_. replicate 32 0, commit_json = \<lambda>_. [], commit_pretty = \<lambda>_. [],
      commit_parse = \<lambda>_. None, marker_json = \<lambda>_. [], marker_pretty = \<lambda>_. [], marker_parse = \<lambda>_. None,
      session_id = 5\<rparr> \<lparr>bh_store_id = 9, bh_session_id = 5, bh_bank_generation = 1, bh_data_slot = 0,
      bh_capacity = 4\<rparr>) =
    Inr \<lparr>bh_store_id = 9, bh_session_id = 5, bh_bank_generation = 1, bh_data_slot = 0, bh_capacity = 4\<rparr>"
  by (rule header_decode_encode) (simp_all add: header_wf_def size_consts)

end
