(* ===== verification/History_Store.thy ===== *)
theory History_Store
  imports History_Format
begin

text \<open>
  \<open>src/history.rs\<close>, \<open>src/history/recovery.rs\<close> and the atomic writes of \<open>src/persist.rs\<close>: the
  in-memory ring of a session's output, its two-bank durable store, and recovery. A disk is
  a map from the store's files to nodes; every write takes the next entry of a fault script,
  so that each interleaving of successes, torn appends and failures before or after the
  rename is a run of the model. Errors return at once, as the \<open>?\<close> operator does.
\<close>

section \<open>Disk\<close>

text \<open>
  The files of a store, beside its raw \<open>history.bin\<close>: \<open>history_data_path\<close>,
  \<open>history_commit_path\<close> and \<open>history_marker_path\<close>.
\<close>

datatype hfile = Legacy | DataBank nat | CommitFile nat | MarkerFile

datatype node = Absent | Regular bytes | Irregular

text \<open>
  What a write does: succeed, fail before it has any effect, fail after a prefix reached
  the file, or fail after it took effect (the directory sync failed, or the crash came then).
\<close>

datatype fault = NoFault | FailBefore | Torn nat | FailAfter

record world =
  disk :: "hfile \<Rightarrow> node"
  faults :: "fault list"

definition next_fault :: "world \<Rightarrow> fault \<times> world" where
  "next_fault w = (case faults w of [] \<Rightarrow> (NoFault, w) | f # fs \<Rightarrow> (f, w\<lparr>faults := fs\<rparr>))"

definition validate_optional_history_node :: "node \<Rightarrow> hist_error + bool" where
  "validate_optional_history_node n = (case n of
       Regular _ \<Rightarrow> Inr True | Absent \<Rightarrow> Inr False | Irregular \<Rightarrow> Inl (Bail ''not a regular file''))"

definition open_optional_history_file :: "node \<Rightarrow> hist_error + bytes option" where
  "open_optional_history_file n = (case n of
       Regular bs \<Rightarrow> Inr (Some bs) | Absent \<Rightarrow> Inr None
     | Irregular \<Rightarrow> Inl (Bail ''not a trusted regular file''))"

definition bank_len_ok :: "node \<Rightarrow> hist_error + unit" where
  "bank_len_ok n = res_bind (validate_optional_history_node n) (\<lambda>present.
     case n of
       Regular bs \<Rightarrow> (if HISTORY_BANK_HEADER_BYTES + 2 * MAX_HISTORY_BYTES < length bs
         then Inl (Bail ''history data bank exceeds the hard cap'') else Inr ())
     | _ \<Rightarrow> Inr ())"

definition validate_history_artifacts :: "(hfile \<Rightarrow> node) \<Rightarrow> hist_error + unit" where
  "validate_history_artifacts d =
     res_bind (validate_optional_history_node (d Legacy)) (\<lambda>_.
     res_bind (validate_optional_history_node (d MarkerFile)) (\<lambda>_.
     res_bind (bank_len_ok (d (DataBank 0))) (\<lambda>_.
     res_bind (bank_len_ok (d (DataBank 1))) (\<lambda>_.
     res_bind (validate_optional_history_node (d (CommitFile 0))) (\<lambda>_.
     res_bind (validate_optional_history_node (d (CommitFile 1))) (\<lambda>_. Inr ()))))))"

section \<open>Recovery\<close>

record recovered =
  rc_commit :: history_commit
  rc_tail :: bytes
  rc_hasher :: bytes

definition read_bounded_json :: "(bytes \<Rightarrow> 'a option) \<Rightarrow> nat \<Rightarrow> bytes \<Rightarrow> hist_error + 'a" where
  "read_bounded_json parse limit bs =
     (if limit < length bs then Inl (Bail ''exceeds the cap'')
      else case parse bs of None \<Rightarrow> Inl (Bail ''parse'') | Some v \<Rightarrow> Inr v)"

definition read_history_commit ::
    "hist_codec \<Rightarrow> (hfile \<Rightarrow> node) \<Rightarrow> nat \<Rightarrow> hist_error + history_commit option" where
  "read_history_commit K d slot =
     res_bind (open_optional_history_file (d (CommitFile slot))) (\<lambda>f.
       case f of
         None \<Rightarrow> Inr None
       | Some bs \<Rightarrow>
           res_bind (read_bounded_json (commit_parse K) HISTORY_COMMIT_MAX_BYTES bs) (\<lambda>c.
           res_bind (commit_validate K slot c) (\<lambda>_. Inr (Some c))))"

definition read_history_marker ::
    "hist_codec \<Rightarrow> (hfile \<Rightarrow> node) \<Rightarrow> hist_error + history_marker option" where
  "read_history_marker K d =
     res_bind (open_optional_history_file (d MarkerFile)) (\<lambda>f.
       case f of
         None \<Rightarrow> Inr None
       | Some bs \<Rightarrow>
           res_bind (read_bounded_json (marker_parse K) HISTORY_MARKER_MAX_BYTES bs) (\<lambda>m.
           res_bind (marker_validate K m) (\<lambda>_. Inr (Some m))))"

text \<open>
  The read loop of \<open>recover_history_candidate\<close>: \<open>data\<close> is what the file has left, \<open>hashed\<close>
  what the hasher was fed, and \<open>tail\<close> the last \<open>count\<close> bytes so far.
\<close>

function read_payload ::
    "nat \<Rightarrow> nat \<Rightarrow> nat \<Rightarrow> bytes \<Rightarrow> bytes \<Rightarrow> bytes \<Rightarrow> hist_error + bytes \<times> bytes" where
  "read_payload chunk count remaining data hashed tail =
     (if remaining = 0 then Inr (hashed, tail)
      else let bs = take (min chunk remaining) data in
        if bs = [] then Inl (Bail ''history data bank ended inside its committed prefix'')
        else read_payload chunk count (remaining - length bs) (drop (length bs) data) (hashed @ bs)
          (if count \<le> length bs then drop (length bs - count) bs
           else let t = tail @ bs in drop (length t - count) t))"
  by auto

termination
  by (relation "measure (\<lambda>(c, n, remaining, d, h, t). remaining)") auto

declare read_payload.simps [simp del]

definition recover_history_candidate ::
    "hist_codec \<Rightarrow> (hfile \<Rightarrow> node) \<Rightarrow> history_commit \<Rightarrow> nat \<Rightarrow> hist_error + recovered" where
  "recover_history_candidate K d c tail_limit =
     res_bind (open_optional_history_file (d (DataBank (data_slot c)))) (\<lambda>f.
       case f of
         None \<Rightarrow> Inl (Bail ''history data bank is missing'')
       | Some bs \<Rightarrow>
           (case checked_mul U64_MAX (hc_capacity c) 2 of
              None \<Rightarrow> Inl (Bail ''history bank size overflow'')
            | Some max_payload \<Rightarrow>
                (case checked_add U64_MAX HISTORY_BANK_HEADER_BYTES max_payload of
                   None \<Rightarrow> Inl (Bail ''history physical size overflow'')
                 | Some max_physical \<Rightarrow>
                     (case checked_add U64_MAX HISTORY_BANK_HEADER_BYTES (committed_len c) of
                        None \<Rightarrow> Inl (Bail ''history committed size overflow'')
                      | Some committed_physical \<Rightarrow>
                          if length bs < committed_physical
                            then Inl (Bail ''history data bank is shorter than its committed prefix'')
                          else if max_physical < length bs
                            then Inl (Bail ''history data bank exceeds its bounded physical size'')
                          else
                            res_bind (header_decode K (take HISTORY_BANK_HEADER_BYTES bs)) (\<lambda>h.
                            if bh_store_id h \<noteq> hc_store_id c \<or> bh_session_id h \<noteq> hc_session_id c \<or>
                               bh_bank_generation h \<noteq> bank_generation c \<or>
                               bh_data_slot h \<noteq> data_slot c \<or> bh_capacity h \<noteq> hc_capacity c
                            then Inl (Bail ''history data bank does not match its commit metadata'')
                            else
                              let count = min (min tail_limit (hc_capacity c)) (committed_len c);
                                  chunk = min HISTORY_HASH_CHUNK_BYTES (max (committed_len c) 1)
                              in res_bind (read_payload chunk count (committed_len c)
                                     (drop HISTORY_BANK_HEADER_BYTES bs) [] []) (\<lambda>(hashed, tail).
                                   if sha256_hex K hashed \<noteq> data_sha256 c
                                   then Inl (Bail ''history data checksum mismatch'')
                                   else Inr \<lparr>rc_commit = c, rc_tail = tail, rc_hasher = hashed\<rparr>))))))"

text \<open>One turn of the loop over the commit slots, on \<open>(metadata_seen, valid)\<close>.\<close>

definition scan_commit_slot ::
    "hist_codec \<Rightarrow> (hfile \<Rightarrow> node) \<Rightarrow> history_marker option \<Rightarrow> nat \<Rightarrow> nat \<Rightarrow>
     bool \<times> recovered list \<Rightarrow> bool \<times> recovered list" where
  "scan_commit_slot K d marker tail_limit slot acc =
     (case read_history_commit K d slot of
        Inr None \<Rightarrow> acc
      | Inl _ \<Rightarrow> (True, snd acc)
      | Inr (Some c) \<Rightarrow>
          (if (case marker of None \<Rightarrow> False
               | Some m \<Rightarrow> hm_store_id m \<noteq> hc_store_id c \<or> hm_session_id m \<noteq> hc_session_id c)
           then (True, snd acc)
           else (case recover_history_candidate K d c tail_limit of
                   Inl _ \<Rightarrow> (True, snd acc)
                 | Inr r \<Rightarrow> (True, snd acc @ [r]))))"

definition recover_v2_history ::
    "hist_codec \<Rightarrow> (hfile \<Rightarrow> node) \<Rightarrow> nat \<Rightarrow> hist_error + recovered option \<times> bool" where
  "recover_v2_history K d tail_limit =
     res_bind (validate_history_artifacts d) (\<lambda>_.
     res_bind (read_history_marker K d) (\<lambda>marker.
       let (metadata_seen, valid) =
             fold (scan_commit_slot K d marker tail_limit) [0 ..< HISTORY_COMMIT_COUNT] (False, [])
       in if valid = [] then
            (if metadata_seen \<or> marker \<noteq> None
             then Inl (Bail ''no valid committed history generation remains'')
             else Inr (None, False))
          else if marker = None \<and>
              list_ex (\<lambda>r. hc_store_id (rc_commit r) \<noteq> hc_store_id (rc_commit (hd valid))) valid
            then Inl (Bail ''valid history commits belong to different stores'')
          else
            let sorted = sort_key (\<lambda>r. commit_generation (rc_commit r)) valid;
                newest = last sorted in
            if 2 \<le> length sorted \<and>
               commit_generation (rc_commit newest) =
                 commit_generation (rc_commit (last (butlast sorted))) \<and>
               rc_commit newest \<noteq> rc_commit (last (butlast sorted))
            then Inl (Bail ''conflicting history commits have the same generation'')
            else Inr (Some newest, marker \<noteq> None)))"

record legacy_history =
  lg_tail :: bytes
  lg_total_len :: nat
  lg_present :: bool

definition legacy_absent :: legacy_history where
  "legacy_absent = \<lparr>lg_tail = [], lg_total_len = 0, lg_present = False\<rparr>"

definition read_legacy_history_tail :: "(hfile \<Rightarrow> node) \<Rightarrow> nat \<Rightarrow> hist_error + legacy_history" where
  "read_legacy_history_tail d limit =
     res_bind (open_optional_history_file (d Legacy)) (\<lambda>f.
       case f of
         None \<Rightarrow> Inr legacy_absent
       | Some bs \<Rightarrow> (let count = min (length bs) limit in
           Inr \<lparr>lg_tail = take count (drop (length bs - count) bs),
                lg_total_len = length bs, lg_present = True\<rparr>))"

definition read_persisted_history_tail ::
    "hist_codec \<Rightarrow> (hfile \<Rightarrow> node) \<Rightarrow> nat option \<Rightarrow> hist_error + bytes" where
  "read_persisted_history_tail K d requested =
     (let limit = min (case requested of None \<Rightarrow> MAX_FRAME_BYTES | Some n \<Rightarrow> n) MAX_FRAME_BYTES in
      res_bind (recover_v2_history K d limit) (\<lambda>(r, _).
        case r of
          Some r \<Rightarrow> Inr (rc_tail r)
        | None \<Rightarrow> res_bind (read_legacy_history_tail d limit) (\<lambda>l. Inr (lg_tail l))))"

section \<open>The in-memory history and its writes\<close>

record history =
  h_cap :: nat
  h_bytes :: bytes
  h_pending :: bytes
  h_dirty :: bool
  observed_end :: nat
  durable_end :: nat
  compatibility_end :: nat
  compatibility_len :: nat
  compatibility_known :: bool
  persisted :: "recovered option"
  marker_published :: bool

text \<open>A method on the history: state in, result and state out; an error keeps the effects.\<close>

type_synonym 'a hm = "history \<times> world \<Rightarrow> (hist_error + 'a) \<times> history \<times> world"

definition hbind :: "'a hm \<Rightarrow> ('a \<Rightarrow> 'b hm) \<Rightarrow> 'b hm" where
  "hbind m f s = (case m s of (Inl e, s') \<Rightarrow> (Inl e, s') | (Inr x, s') \<Rightarrow> f x s')"

definition hlift :: "hist_error + 'a \<Rightarrow> 'a hm" where
  "hlift r s = (r, s)"

definition hmodify :: "(history \<Rightarrow> history) \<Rightarrow> unit hm" where
  "hmodify f s = (Inr (), f (fst s), snd s)"

text \<open>
  \<open>write_atomically\<close> through a temporary file and a rename: the target is the old file or
  the complete new one, whatever happens.
\<close>

definition atomic_write_bytes :: "hfile \<Rightarrow> bytes \<Rightarrow> unit hm" where
  "atomic_write_bytes f bs s =
     (let (h, w) = s; (flt, w1) = next_fault w; w2 = w1\<lparr>disk := (disk w1)(f := Regular bs)\<rparr> in
      case flt of
        NoFault \<Rightarrow> (Inr (), h, w2)
      | FailAfter \<Rightarrow> (Inl IoError, h, w2)
      | _ \<Rightarrow> (Inl IoError, h, w1))"

text \<open>\<open>write_all\<close> at the end of \<open>base\<close> and \<open>sync_data\<close>, in place.\<close>

definition append_file :: "hfile \<Rightarrow> bytes \<Rightarrow> bytes \<Rightarrow> unit hm" where
  "append_file f base bs s =
     (let (h, w) = s; (flt, w1) = next_fault w;
          put = (\<lambda>xs. w1\<lparr>disk := (disk w1)(f := Regular (base @ xs))\<rparr>) in
      case flt of
        NoFault \<Rightarrow> (Inr (), h, put bs)
      | FailAfter \<Rightarrow> (Inl IoError, h, put bs)
      | Torn n \<Rightarrow> (Inl IoError, h, put (take n bs))
      | FailBefore \<Rightarrow> (Inl IoError, h, w1))"

definition set_len :: "hfile \<Rightarrow> bytes \<Rightarrow> nat \<Rightarrow> unit hm" where
  "set_len f content n s =
     (let (h, w) = s; (flt, w1) = next_fault w;
          w2 = w1\<lparr>disk := (disk w1)(f := Regular (take n content))\<rparr> in
      case flt of
        NoFault \<Rightarrow> (Inr (), h, w2)
      | FailAfter \<Rightarrow> (Inl IoError, h, w2)
      | _ \<Rightarrow> (Inl IoError, h, w1))"

definition remove_file :: "hfile \<Rightarrow> unit hm" where
  "remove_file f s =
     (let (h, w) = s; (flt, w1) = next_fault w; w2 = w1\<lparr>disk := (disk w1)(f := Absent)\<rparr> in
      case flt of
        NoFault \<Rightarrow> (Inr (), h, w2)
      | FailAfter \<Rightarrow> (Inl IoError, h, w2)
      | _ \<Rightarrow> (Inl IoError, h, w1))"

definition hist_append :: "bytes \<Rightarrow> history \<Rightarrow> (hist_error + unit) \<times> history" where
  "hist_append data h =
     (case checked_add U64_MAX (observed_end h) (length data) of
        None \<Rightarrow> (Inl (Bail ''history stream position overflow''), h)
      | Some next_end \<Rightarrow>
          (let h = (if 0 < h_cap h then
                      (if h_cap h \<le> length data then
                         h\<lparr>h_bytes := drop (length data - h_cap h) data,
                           h_pending := drop (length data - h_cap h) data\<rparr>
                       else
                         (let b = h_bytes h @ data; p = h_pending h @ data in
                          h\<lparr>h_bytes := drop (length b - h_cap h) b,
                            h_pending := drop (length p - h_cap h) p\<rparr>))
                    else h)
           in (Inr (), h\<lparr>observed_end := next_end, h_dirty := True\<rparr>)))"

definition hist_snapshot :: "nat option \<Rightarrow> history \<Rightarrow> bytes" where
  "hist_snapshot max_bytes h =
     (let count = min (case max_bytes of None \<Rightarrow> length (h_bytes h) | Some n \<Rightarrow> n) (length (h_bytes h))
      in drop (length (h_bytes h) - count) (h_bytes h))"

section \<open>The old clients' raw view\<close>

definition compat_done :: "nat \<Rightarrow> history \<Rightarrow> history" where
  "compat_done n h = h\<lparr>compatibility_end := observed_end h, compatibility_len := n,
     compatibility_known := True\<rparr>"

definition repair_legacy_compatibility :: "unit hm" where
  "repair_legacy_compatibility s =
     (case validate_optional_history_node (disk (snd s) Legacy) of
        Inl e \<Rightarrow> (Inl e, s)
      | Inr present \<Rightarrow>
          (if h_cap (fst s) = 0 then
             hbind (if present then remove_file Legacy else hlift (Inr ())) (\<lambda>_.
               hmodify (compat_done 0)) s
           else
             (case atomic_write_bytes Legacy (h_bytes (fst s)) s of
                (Inr u, h, w) \<Rightarrow> (Inr (), compat_done (length (h_bytes h)) h, w)
              | (Inl e, h, w) \<Rightarrow> (Inl e, h\<lparr>compatibility_known := False\<rparr>, w))))"

definition flush_legacy_compatibility :: "unit hm" where
  "flush_legacy_compatibility s =
     (let h = fst s; d = disk (snd s) in
      case checked_sub (observed_end h) (compatibility_end h) of
        None \<Rightarrow> (Inl (Bail ''legacy history position exceeds observed history''), s)
      | Some delta \<Rightarrow>
          if delta = 0 \<and> compatibility_known h then (Inr (), s)
          else if h_cap h = 0 then repair_legacy_compatibility s
          else if \<not> compatibility_known h \<or> length (h_bytes h) < delta \<or>
              (case checked_add U64_MAX (compatibility_len h) delta of
                 None \<Rightarrow> True | Some n \<Rightarrow> sat_mul U64_MAX (h_cap h) 2 < n)
            then repair_legacy_compatibility s
          else (case validate_optional_history_node (d Legacy) of
              Inl e \<Rightarrow> (Inl e, s)
            | Inr present \<Rightarrow>
                if \<not> present then repair_legacy_compatibility s
                else (case open_optional_history_file (d Legacy) of
                    Inl e \<Rightarrow> (Inl e, s)
                  | Inr None \<Rightarrow> (Inl (Bail ''legacy history disappeared''), s)
                  | Inr (Some bs) \<Rightarrow>
                      if length bs \<noteq> compatibility_len h then repair_legacy_compatibility s
                      else
                        (case append_file Legacy bs (drop (length (h_bytes h) - delta) (h_bytes h)) s of
                           (Inr u, h, w) \<Rightarrow>
                             (Inr (), h\<lparr>compatibility_end := observed_end h,
                                compatibility_len := compatibility_len h + delta\<rparr>, w)
                         | (Inl e, h, w) \<Rightarrow> (Inl e, h\<lparr>compatibility_known := False\<rparr>, w)))))"

section \<open>Commits\<close>

definition publish_history_marker :: "hist_codec \<Rightarrow> history_commit \<Rightarrow> bool hm" where
  "publish_history_marker K c s =
     (case read_history_marker K (disk (snd s)) of
        Inl e \<Rightarrow> (Inl e, s)
      | Inr (Some m) \<Rightarrow>
          (if hm_store_id m \<noteq> hc_store_id c \<or> hm_session_id m \<noteq> hc_session_id c
           then (Inl (Bail ''history marker does not match the committed history store''), s)
           else (Inr True, s))
      | Inr None \<Rightarrow>
          (let m = marker_seal K \<lparr>hm_format_version = HISTORY_FORMAT_VERSION,
                     hm_store_id = hc_store_id c, hm_session_id = hc_session_id c,
                     hm_metadata_sha256 = []\<rparr> in
           if HISTORY_MARKER_MAX_BYTES < length (marker_json K m)
           then (Inl (Bail ''history marker exceeds its bounded metadata size''), s)
           else hbind (atomic_write_bytes MarkerFile (marker_pretty K m @ [0x0A])) (\<lambda>_.
             hlift (Inr True)) s))"

definition ensure_marker_published :: "hist_codec \<Rightarrow> history_commit \<Rightarrow> unit hm" where
  "ensure_marker_published K c s =
     (if \<not> marker_published (fst s)
      then hbind (publish_history_marker K c) (\<lambda>b. hmodify (\<lambda>h. h\<lparr>marker_published := b\<rparr>)) s
      else (Inr (), s))"

definition next_commit_generation :: "history \<Rightarrow> hist_error + nat" where
  "next_commit_generation h =
     (case persisted h of
        None \<Rightarrow> Inr 1
      | Some r \<Rightarrow> (case checked_add U64_MAX (commit_generation (rc_commit r)) 1 of
          None \<Rightarrow> Inl (Bail ''history commit generation overflow'') | Some g \<Rightarrow> Inr g))"

definition publish_commit :: "hist_codec \<Rightarrow> history_commit \<Rightarrow> history_commit hm" where
  "publish_commit K c0 s =
     (let c = commit_seal K c0; f = CommitFile (commit_generation c mod HISTORY_COMMIT_COUNT) in
      case validate_optional_history_node (disk (snd s) f) of
        Inl e \<Rightarrow> (Inl e, s)
      | Inr _ \<Rightarrow>
          if HISTORY_COMMIT_MAX_BYTES < length (commit_json K c)
          then (Inl (Bail ''history commit exceeds its bounded metadata size''), s)
          else hbind (atomic_write_bytes f (commit_pretty K c @ [0x0A])) (\<lambda>_. hlift (Inr c)) s)"

definition commit_done :: "history_commit \<Rightarrow> bytes \<Rightarrow> history \<Rightarrow> history" where
  "commit_done c hashed h = h\<lparr>persisted := Some \<lparr>rc_commit = c, rc_tail = [], rc_hasher = hashed\<rparr>,
     durable_end := observed_end h, h_pending := [], h_dirty := False\<rparr>"

definition publish_append :: "hist_codec \<Rightarrow> unit hm" where
  "publish_append K s =
     (let h = fst s in
      case persisted h of
        None \<Rightarrow> (Inl (Bail ''history append has no committed bank''), s)
      | Some r \<Rightarrow>
        (let c = rc_commit r; bank = DataBank (data_slot c) in
         case open_optional_history_file (disk (snd s) bank) of
           Inl e \<Rightarrow> (Inl e, s)
         | Inr None \<Rightarrow> (Inl (Bail ''history data bank disappeared''), s)
         | Inr (Some bs) \<Rightarrow>
           (case checked_add U64_MAX HISTORY_BANK_HEADER_BYTES (committed_len c) of
              None \<Rightarrow> (Inl (Bail ''history append offset overflow''), s)
            | Some committed_physical \<Rightarrow>
              if length bs < committed_physical
              then (Inl (Bail ''history data bank is shorter than its committed prefix''), s)
              else (case checked_add U64_MAX HISTORY_BANK_HEADER_BYTES (sat_mul U64_MAX (h_cap h) 2) of
                  None \<Rightarrow> (Inl (Bail ''history bank bound overflow''), s)
                | Some max_physical \<Rightarrow>
                  if max_physical < length bs
                  then (Inl (Bail ''history data bank exceeds its bounded physical size''), s)
                  else
                    hbind (if length bs \<noteq> committed_physical then set_len bank bs committed_physical
                           else hlift (Inr ())) (\<lambda>_.
                    hbind (append_file bank (take committed_physical bs) (h_pending h)) (\<lambda>_.
                    let hashed = rc_hasher r @ h_pending h in
                    hbind (hlift (case checked_add U64_MAX (committed_len c) (length (h_pending h)) of
                         None \<Rightarrow> Inl (Bail ''history committed length overflow'') | Some n \<Rightarrow> Inr n)) (\<lambda>n.
                    hbind (hlift (next_commit_generation h)) (\<lambda>g.
                    hbind (publish_commit K
                       \<lparr>hc_format_version = HISTORY_FORMAT_VERSION, hc_store_id = hc_store_id c,
                        hc_session_id = hc_session_id c, commit_generation = g,
                        bank_generation = bank_generation c, data_slot = data_slot c,
                        hc_capacity = h_cap h, committed_len = n, stream_end = observed_end h,
                        data_sha256 = sha256_hex K hashed, metadata_sha256 = []\<rparr>) (\<lambda>c'.
                    hbind (ensure_marker_published K c') (\<lambda>_.
                    hmodify (commit_done c' hashed))))))) s))))"

text \<open>\<open>fresh\<close> is the value of \<open>Uuid::new_v4\<close> for a store that has none yet.\<close>

definition publish_compaction :: "hist_codec \<Rightarrow> uuid \<Rightarrow> unit hm" where
  "publish_compaction K fresh s =
     (let h = fst s;
          store = (case persisted h of None \<Rightarrow> fresh | Some r \<Rightarrow> hc_store_id (rc_commit r));
          slot = (case persisted h of None \<Rightarrow> 0
                  | Some r \<Rightarrow> (data_slot (rc_commit r) + 1) mod HISTORY_BANK_COUNT)
      in hbind (hlift (case persisted h of
              None \<Rightarrow> Inr 1
            | Some r \<Rightarrow> (case checked_add U64_MAX (bank_generation (rc_commit r)) 1 of
                None \<Rightarrow> Inl (Bail ''history bank generation overflow'') | Some g \<Rightarrow> Inr g))) (\<lambda>bg.
         let header = \<lparr>bh_store_id = store, bh_session_id = session_id K, bh_bank_generation = bg,
               bh_data_slot = slot, bh_capacity = h_cap h\<rparr> in
         hbind (hlift (validate_optional_history_node (disk (snd s) (DataBank slot)))) (\<lambda>_.
         hbind (atomic_write_bytes (DataBank slot) (header_encode K header @ h_bytes h)) (\<lambda>_.
         hbind (hlift (next_commit_generation h)) (\<lambda>g.
         hbind (publish_commit K
            \<lparr>hc_format_version = HISTORY_FORMAT_VERSION, hc_store_id = store,
             hc_session_id = session_id K, commit_generation = g, bank_generation = bg,
             data_slot = slot, hc_capacity = h_cap h, committed_len = length (h_bytes h),
             stream_end = observed_end h, data_sha256 = sha256_hex K (h_bytes h),
             metadata_sha256 = []\<rparr>) (\<lambda>c.
         hbind (ensure_marker_published K c) (\<lambda>_.
         hmodify (commit_done c (h_bytes h)))))))) s)"

definition hist_flush :: "hist_codec \<Rightarrow> uuid \<Rightarrow> unit hm" where
  "hist_flush K fresh s =
     (if \<not> h_dirty (fst s) then (Inr (), s)
      else hbind flush_legacy_compatibility (\<lambda>_ s.
        let h = fst s in
        case persisted h of
          None \<Rightarrow> publish_compaction K fresh s
        | Some r \<Rightarrow>
            (case checked_sub (observed_end h) (durable_end h) of
               None \<Rightarrow> (Inl (Bail ''history durable position exceeds observed position''), s)
             | Some pending_span \<Rightarrow>
                 (case checked_add U64_MAX (committed_len (rc_commit r)) (length (h_pending h)) of
                    None \<Rightarrow> (Inl (Bail ''history committed length overflow''), s)
                  | Some resulting_len \<Rightarrow>
                      if \<not> (h_cap h = 0 \<or> pending_span = length (h_pending h)) \<or>
                         sat_mul U64_MAX (h_cap h) 2 < resulting_len
                      then publish_compaction K fresh s
                      else publish_append K s))) s)"

definition hist_flush_final :: "hist_codec \<Rightarrow> uuid \<Rightarrow> unit hm" where
  "hist_flush_final K fresh = hbind (hist_flush K fresh) (\<lambda>_. repair_legacy_compatibility)"

text \<open>\<open>dir_ok\<close> is whether \<open>ensure_private_dir\<close> prepares the directory of the store.\<close>

definition hist_open ::
    "hist_codec \<Rightarrow> uuid \<Rightarrow> bool \<Rightarrow> nat \<Rightarrow> world \<Rightarrow> (hist_error + history) \<times> world" where
  "hist_open K fresh dir_ok cap w =
     (case res_bind (validate_history_bytes cap) (\<lambda>_.
           res_bind (if dir_ok then Inr () else Inl IoError) (\<lambda>_.
           res_bind (recover_v2_history K (disk w) cap) (\<lambda>(rec, marker_present).
           res_bind (case rec of Some _ \<Rightarrow> Inr legacy_absent
                     | None \<Rightarrow> read_legacy_history_tail (disk w) cap) (\<lambda>legacy.
             Inr (rec, marker_present, legacy))))) of
        Inl e \<Rightarrow> (Inl e, w)
      | Inr (rec, marker_present, legacy) \<Rightarrow>
          (let (tail, pos) = (case rec of
                 Some r \<Rightarrow> (rc_tail r, stream_end (rc_commit r))
               | None \<Rightarrow> (lg_tail legacy, lg_total_len legacy));
               h = \<lparr>h_cap = cap, h_bytes = tail, h_pending = [], h_dirty = False,
                 observed_end = pos, durable_end = pos,
                 compatibility_end = (if lg_present legacy then pos else 0),
                 compatibility_len = lg_total_len legacy, compatibility_known = (rec = None),
                 persisted = rec, marker_published = marker_present\<rparr>;
               migrate = (case rec of None \<Rightarrow> False | Some r \<Rightarrow> hc_capacity (rc_commit r) \<noteq> cap);
               (r, h', w') =
                 hbind (case rec of
                     Some r \<Rightarrow> (if \<not> marker_present
                       then hbind (publish_history_marker K (rc_commit r)) (\<lambda>b.
                              hmodify (\<lambda>h. h\<lparr>marker_published := b\<rparr>))
                       else hlift (Inr ()))
                   | None \<Rightarrow> hlift (Inr ())) (\<lambda>_.
                 hbind (if lg_present legacy \<and> cap < lg_total_len legacy
                        then repair_legacy_compatibility else hlift (Inr ())) (\<lambda>_.
                 hbind (if lg_present legacy \<or> migrate
                        then publish_compaction K fresh else hlift (Inr ())) (\<lambda>_.
                 if rec \<noteq> None then repair_legacy_compatibility else hlift (Inr ())))) (h, w)
           in (case r of Inl e \<Rightarrow> (Inl e, w') | Inr _ \<Rightarrow> (Inr h', w'))))"

end
