(* ===== verification/History_Durability.thy ===== *)
theory History_Durability
  imports History_Store
begin

text \<open>
  What the durable history promises: the ring holds the last bytes of the stream, recovery
  after a successful flush returns them, and a flush interrupted at any write leaves the
  store at the previous or at the new commit.
\<close>

section \<open>The ring\<close>

text \<open>\<open>S\<close> is the whole stream the history has observed; only its end is kept.\<close>

definition ring_inv :: "bytes \<Rightarrow> history \<Rightarrow> bool" where
  "ring_inv S h \<longleftrightarrow> h_cap h \<le> MAX_HISTORY_BYTES \<and> observed_end h = length S \<and> length S \<le> U64_MAX \<and>
     h_bytes h = lastn (h_cap h) S \<and> durable_end h \<le> length S \<and>
     h_pending h = lastn (h_cap h) (drop (durable_end h) S) \<and>
     compatibility_end h \<le> length S"

lemma drop_as_lastn: "drop (length xs - n) xs = lastn n xs"
  by (simp add: lastn_def)

text \<open>
  \<open>append\<close> keeps the ring equal to the last \<open>cap\<close> bytes of everything appended, and the
  pending bytes equal to the last \<open>cap\<close> bytes since the durable position; it fails only when
  the 64-bit stream position would overflow, and then changes nothing.
\<close>

theorem hist_append_ring:
  assumes "ring_inv S h"
  shows "if length S + length data \<le> U64_MAX
     then fst (hist_append data h) = Inr () \<and> ring_inv (S @ data) (snd (hist_append data h)) \<and>
       h_dirty (snd (hist_append data h))
     else (\<exists>e. fst (hist_append data h) = Inl e) \<and> snd (hist_append data h) = h"
proof (cases "length S + length data \<le> U64_MAX")
  case False
  then show ?thesis using assms by (simp add: hist_append_def ring_inv_def checked_add_def)
next
  case True
  then have ca: "checked_add U64_MAX (length S) (length data) = Some (length S + length data)"
    by simp
  have dr: "drop (durable_end h) (S @ data) = drop (durable_end h) S @ data"
    using assms by (simp add: ring_inv_def)
  show ?thesis
    using assms True
    by (auto simp: hist_append_def ca ring_inv_def Let_def dr drop_as_lastn ring_simps)
qed

theorem hist_append_ring_witness:
  "ring_inv ([1, 2, 3] @ [4]) (snd (hist_append [4]
     \<lparr>h_cap = 2, h_bytes = [2, 3], h_pending = [3], h_dirty = True, observed_end = 3, durable_end = 2,
      compatibility_end = 0, compatibility_len = 0, compatibility_known = False, persisted = None,
      marker_published = False\<rparr>))"
  using hist_append_ring [of "[1, 2, 3]" "\<lparr>h_cap = 2, h_bytes = [2, 3], h_pending = [3],
      h_dirty = True, observed_end = 3, durable_end = 2, compatibility_end = 0,
      compatibility_len = 0, compatibility_known = False, persisted = None,
      marker_published = False\<rparr>" "[4]"]
  by (simp add: ring_inv_def size_consts lastn_def)

section \<open>What the codec promises\<close>

definition is_checksum :: "bytes \<Rightarrow> bool" where
  "is_checksum bs \<longleftrightarrow> length bs = 64 \<and> list_all lower_hex bs"

definition commit_wf :: "history_commit \<Rightarrow> bool" where
  "commit_wf c \<longleftrightarrow> hc_format_version c \<le> U32_MAX \<and> hc_store_id c < 256 ^ 16 \<and>
     hc_session_id c < 256 ^ 16 \<and> commit_generation c \<le> U64_MAX \<and> bank_generation c \<le> U64_MAX \<and>
     data_slot c < 256 \<and> hc_capacity c \<le> U64_MAX \<and> committed_len c \<le> U64_MAX \<and>
     stream_end c \<le> U64_MAX \<and> is_checksum (data_sha256 c) \<and> is_checksum (metadata_sha256 c)"

definition marker_wf :: "history_marker \<Rightarrow> bool" where
  "marker_wf m \<longleftrightarrow> hm_format_version m \<le> U32_MAX \<and> hm_store_id m < 256 ^ 16 \<and>
     hm_session_id m < 256 ^ 16 \<and> is_checksum (hm_metadata_sha256 m)"

text \<open>
  The hypotheses on the third-party code: a digest has 32 bytes; the JSON of a record whose
  fields fit their types parses back to it, also with the trailing newline, and stays within
  the metadata bounds.
\<close>

definition codec_ok :: "hist_codec \<Rightarrow> bool" where
  "codec_ok K \<longleftrightarrow> (\<forall>bs. length (sha256 K bs) = 32) \<and> session_id K < 256 ^ 16 \<and>
     (\<forall>c. commit_wf c \<longrightarrow> commit_parse K (commit_pretty K c @ [0x0A]) = Some c \<and>
        length (commit_json K c) \<le> HISTORY_COMMIT_MAX_BYTES \<and>
        length (commit_pretty K c) < HISTORY_COMMIT_MAX_BYTES) \<and>
     (\<forall>m. marker_wf m \<longrightarrow> marker_parse K (marker_pretty K m @ [0x0A]) = Some m \<and>
        length (marker_json K m) \<le> HISTORY_MARKER_MAX_BYTES \<and>
        length (marker_pretty K m) < HISTORY_MARKER_MAX_BYTES)"

lemma sha256_hex_checksum: "codec_ok K \<Longrightarrow> is_checksum (sha256_hex K bs)"
  by (simp add: codec_ok_def is_checksum_def sha256_hex_def hex_encode_lower)

section \<open>Recovery of a stored generation\<close>

lemma read_payload_spec:
  assumes "0 < chunk" "remaining \<le> length data" "tail = lastn count hashed"
  shows "read_payload chunk count remaining data hashed tail =
     Inr (hashed @ take remaining data, lastn count (hashed @ take remaining data))"
  using assms
proof (induction chunk count remaining data hashed tail rule: read_payload.induct)
  case (1 chunk count remaining data hashed tail)
  show ?case
  proof (cases "remaining = 0")
    case True
    with 1 show ?thesis by (simp add: read_payload.simps)
  next
    case False
    let ?bs = "take (min chunk remaining) data"
    let ?tail = "if count \<le> length ?bs then drop (length ?bs - count) ?bs
      else let t = tail @ ?bs in drop (length t - count) t"
    have len: "length ?bs = min chunk remaining" and ne: "?bs \<noteq> []"
      using "1.prems" False by auto
    have tail: "?tail = lastn count (hashed @ ?bs)"
      using "1.prems"(3) lastn_append_long [of count ?bs hashed] unfolding Let_def drop_as_lastn
      by (simp only: lastn_append_lastn split: if_split) simp
    have split: "take remaining data = ?bs @ take (remaining - length ?bs) (drop (length ?bs) data)"
      unfolding len by (simp add: take_drop [symmetric] flip: take_add)
    have step: "read_payload chunk count remaining data hashed tail =
        read_payload chunk count (remaining - length ?bs) (drop (length ?bs) data) (hashed @ ?bs) ?tail"
      using False ne by (subst read_payload.simps) (simp only: Let_def if_False)
    have "read_payload chunk count (remaining - length ?bs) (drop (length ?bs) data) (hashed @ ?bs) ?tail =
        Inr ((hashed @ ?bs) @ take (remaining - length ?bs) (drop (length ?bs) data),
          lastn count ((hashed @ ?bs) @ take (remaining - length ?bs) (drop (length ?bs) data)))"
      using "1.prems" by (intro "1.IH" [OF False refl ne] tail) auto
    then show ?thesis unfolding step by (subst (1 2) split) simp
  qed
qed

definition hdr_of :: "history_commit \<Rightarrow> bank_header" where
  "hdr_of c = \<lparr>bh_store_id = hc_store_id c, bh_session_id = hc_session_id c,
     bh_bank_generation = bank_generation c, bh_data_slot = data_slot c, bh_capacity = hc_capacity c\<rparr>"

lemma hdr_of_simps [simp]:
  "bh_store_id (hdr_of c) = hc_store_id c" "bh_session_id (hdr_of c) = hc_session_id c"
  "bh_bank_generation (hdr_of c) = bank_generation c" "bh_data_slot (hdr_of c) = data_slot c"
  "bh_capacity (hdr_of c) = hc_capacity c"
  by (simp_all add: hdr_of_def)

definition commit_good :: "hist_codec \<Rightarrow> history_commit \<Rightarrow> bool" where
  "commit_good K c \<longleftrightarrow> commit_wf c \<and> commit_validate K (commit_generation c mod HISTORY_COMMIT_COUNT) c = Inr ()"

text \<open>
  \<open>stored K d c P\<close>: the disk holds the commit \<open>c\<close> in its slot, and its bank starts with the
  header and the committed bytes \<open>P\<close>; an uncommitted suffix may follow.
\<close>

definition bank_holds :: "hist_codec \<Rightarrow> (hfile \<Rightarrow> node) \<Rightarrow> history_commit \<Rightarrow> bytes \<Rightarrow> bool" where
  "bank_holds K d c P \<longleftrightarrow> length P = committed_len c \<and> sha256_hex K P = data_sha256 c \<and>
     (\<exists>junk. d (DataBank (data_slot c)) = Regular (header_encode K (hdr_of c) @ P @ junk) \<and>
        length P + length junk \<le> 2 * hc_capacity c)"

definition stored :: "hist_codec \<Rightarrow> (hfile \<Rightarrow> node) \<Rightarrow> history_commit \<Rightarrow> bytes \<Rightarrow> bool" where
  "stored K d c P \<longleftrightarrow> commit_good K c \<and> bank_holds K d c P \<and>
     d (CommitFile (commit_generation c mod HISTORY_COMMIT_COUNT)) = Regular (commit_pretty K c @ [0x0A])"

lemma commit_goodD:
  assumes "commit_good K c"
  shows "data_slot c < 2" "hc_capacity c \<le> MAX_HISTORY_BYTES" "committed_len c \<le> 2 * hc_capacity c"
    "committed_len c \<le> stream_end c" "hc_session_id c = session_id K" "0 < commit_generation c"
    "0 < bank_generation c" "commit_wf c"
  using assms
  by (auto simp: commit_good_def commit_validate_def res_bind_eq_Inr validate_history_bytes_def
      HISTORY_BANK_COUNT_def split: if_splits option.splits)

lemma length_header_encode:
  "codec_ok K \<Longrightarrow> length (header_encode K h) = HISTORY_BANK_HEADER_BYTES"
  by (simp add: codec_ok_def header_encode_def size_consts)

lemma header_decode_hdr_of:
  assumes "codec_ok K" "commit_wf c"
  shows "header_decode K (header_encode K (hdr_of c)) = Inr (hdr_of c)"
  using assms
  by (intro header_roundtrip) (auto simp: codec_ok_def commit_wf_def header_wf_def)

lemma candidate_stored:
  assumes K: "codec_ok K" and good: "commit_good K c" and bank: "bank_holds K d c P"
  shows "recover_history_candidate K d c limit =
     Inr \<lparr>rc_commit = c, rc_tail = lastn (min limit (hc_capacity c)) P, rc_hasher = P\<rparr>"
proof -
  obtain junk where junk: "d (DataBank (data_slot c)) = Regular (header_encode K (hdr_of c) @ P @ junk)"
      "length P + length junk \<le> 2 * hc_capacity c"
    using bank by (auto simp: bank_holds_def)
  have P: "length P = committed_len c" "sha256_hex K P = data_sha256 c"
    using bank by (simp_all add: bank_holds_def)
  note good = commit_goodD [OF good]
  note hl = length_header_encode [OF K, of "hdr_of c"]
  have bounds: "hc_capacity c * 2 \<le> U64_MAX" "HISTORY_BANK_HEADER_BYTES + hc_capacity c * 2 \<le> U64_MAX"
      "HISTORY_BANK_HEADER_BYTES + committed_len c \<le> U64_MAX"
    using good(2,3) by (simp_all add: size_consts)
  have checks:
    "checked_mul U64_MAX (hc_capacity c) 2 = Some (hc_capacity c * 2)"
    "checked_add U64_MAX HISTORY_BANK_HEADER_BYTES (hc_capacity c * 2) =
       Some (HISTORY_BANK_HEADER_BYTES + hc_capacity c * 2)"
    "checked_add U64_MAX HISTORY_BANK_HEADER_BYTES (committed_len c) =
       Some (HISTORY_BANK_HEADER_BYTES + committed_len c)"
    using bounds by simp_all
  let ?count = "min (min limit (hc_capacity c)) (committed_len c)"
  have rd: "read_payload (min HISTORY_HASH_CHUNK_BYTES (max (committed_len c) (Suc 0))) ?count
       (committed_len c) (P @ junk) [] [] = Inr (P, lastn ?count P)"
    using read_payload_spec [of "min HISTORY_HASH_CHUNK_BYTES (max (committed_len c) (Suc 0))"
        "committed_len c" "P @ junk" "[]" ?count "[]"] P(1) by (simp add: size_consts)
  have cnt: "lastn ?count P = lastn (min limit (hc_capacity c)) P"
    using lastn_lastn [of "min limit (hc_capacity c)" "length P" P] P(1) by simp
  show ?thesis
    unfolding recover_history_candidate_def
    using junk(2) P
    by (simp add: open_optional_history_file_def junk(1) checks hl header_decode_hdr_of [OF K good(8)]
        rd cnt del: checked_add_Some checked_mul_Some)
qed

section \<open>Choosing the newest generation\<close>

definition slot_result ::
    "hist_codec \<Rightarrow> (hfile \<Rightarrow> node) \<Rightarrow> history_marker option \<Rightarrow> nat \<Rightarrow> nat \<Rightarrow> recovered option" where
  "slot_result K d marker limit slot =
     (case snd (scan_commit_slot K d marker limit slot (False, [])) of [] \<Rightarrow> None | r # _ \<Rightarrow> Some r)"

lemma scan_commit_slot_result:
  "snd (scan_commit_slot K d marker limit slot acc) =
     snd acc @ opt_list (slot_result K d marker limit slot)"
  by (auto simp: scan_commit_slot_def slot_result_def split: sum.splits option.splits)

definition marker_fits :: "history_marker option \<Rightarrow> history_commit \<Rightarrow> bool" where
  "marker_fits marker c = (case marker of None \<Rightarrow> True
     | Some m \<Rightarrow> hm_store_id m = hc_store_id c \<and> hm_session_id m = hc_session_id c)"

lemma read_commit_file:
  assumes K: "codec_ok K" and good: "commit_good K c"
    and cf: "d (CommitFile (commit_generation c mod HISTORY_COMMIT_COUNT)) = Regular (commit_pretty K c @ [0x0A])"
  shows "read_history_commit K d (commit_generation c mod HISTORY_COMMIT_COUNT) = Inr (Some c)"
  using K good cf commit_goodD(8) [OF good]
  by (simp add: read_history_commit_def open_optional_history_file_def codec_ok_def
      read_bounded_json_def commit_good_def not_less Suc_le_eq)

lemma read_stored:
  assumes "codec_ok K" and "stored K d c P"
  shows "read_history_commit K d (commit_generation c mod HISTORY_COMMIT_COUNT) = Inr (Some c)"
  using assms by (intro read_commit_file) (simp_all add: stored_def)

lemma slot_result_stored:
  assumes K: "codec_ok K" and st: "stored K d c P" and m: "marker_fits marker c"
  shows "slot_result K d marker limit (commit_generation c mod HISTORY_COMMIT_COUNT) =
     Some \<lparr>rc_commit = c, rc_tail = lastn (min limit (hc_capacity c)) P, rc_hasher = P\<rparr>"
proof -
  note read_stored [OF K st]
  moreover have "recover_history_candidate K d c limit =
      Inr \<lparr>rc_commit = c, rc_tail = lastn (min limit (hc_capacity c)) P, rc_hasher = P\<rparr>"
    using candidate_stored K st by (simp add: stored_def)
  ultimately show ?thesis
    using m by (simp add: slot_result_def scan_commit_slot_def marker_fits_def split: option.splits)
qed

lemma slot_result_commit:
  "slot_result K d marker limit slot = Some r \<Longrightarrow> read_history_commit K d slot = Inr (Some (rc_commit r))"
  by (auto simp: slot_result_def scan_commit_slot_def recover_history_candidate_def res_bind_eq_Inr
      Let_def split: sum.splits option.splits if_splits)

text \<open>The other commit slot is unreadable, empty, or holds an older commit of the same store.\<close>

definition superseded :: "hist_codec \<Rightarrow> (hfile \<Rightarrow> node) \<Rightarrow> history_commit \<Rightarrow> bool" where
  "superseded K d c = (case read_history_commit K d ((commit_generation c + 1) mod HISTORY_COMMIT_COUNT) of
       Inr (Some c') \<Rightarrow> commit_generation c' < commit_generation c \<and> hc_store_id c' = hc_store_id c
     | _ \<Rightarrow> True)"

lemma slots: "fold f [0 ..< HISTORY_COMMIT_COUNT] acc = f 1 (f 0 acc)"
  by (simp add: HISTORY_COMMIT_COUNT_def numeral_2_eq_2)

lemma sort_two: "sort_key k [a, b] = (if k a \<le> k b then [a, b] else [b, a])"
  by simp

lemma recover_stored:
  assumes K: "codec_ok K" and files: "validate_history_artifacts d = Inr ()"
    and marker: "read_history_marker K d = Inr marker" "marker_fits marker c"
    and st: "stored K d c P" and older: "superseded K d c"
  shows "recover_v2_history K d limit =
     Inr (Some \<lparr>rc_commit = c, rc_tail = lastn (min limit (hc_capacity c)) P, rc_hasher = P\<rparr>,
       marker \<noteq> None)"
proof -
  let ?r = "\<lparr>rc_commit = c, rc_tail = lastn (min limit (hc_capacity c)) P, rc_hasher = P\<rparr>"
  let ?s = "commit_generation c mod HISTORY_COMMIT_COUNT"
  let ?o = "slot_result K d marker limit ((commit_generation c + 1) mod HISTORY_COMMIT_COUNT)"
  have r: "slot_result K d marker limit ?s = Some ?r"
    by (rule slot_result_stored [OF K st marker(2)])
  have o: "commit_generation (rc_commit r') < commit_generation c \<and> hc_store_id (rc_commit r') = hc_store_id c"
    if "?o = Some r'" for r'
    using older slot_result_commit [OF that] by (simp add: superseded_def)
  have ms: "?s = 0 \<and> (commit_generation c + 1) mod HISTORY_COMMIT_COUNT = 1 \<or>
      ?s = 1 \<and> (commit_generation c + 1) mod HISTORY_COMMIT_COUNT = 0"
    unfolding HISTORY_COMMIT_COUNT_def by presburger
  define res where "res = fold (scan_commit_slot K d marker limit) [0 ..< HISTORY_COMMIT_COUNT] (False, [])"
  have "snd res = opt_list (slot_result K d marker limit 0) @ opt_list (slot_result K d marker limit 1)"
    unfolding res_def slots by (simp add: scan_commit_slot_result)
  moreover have "opt_list (slot_result K d marker limit ?s) = [?r]" by (simp only: r opt_list.simps)
  ultimately have "snd res = [?r] @ opt_list ?o \<or> snd res = opt_list ?o @ [?r]"
    using ms by (elim disjE conjE) (simp_all only: simp_thms)
  moreover have "opt_list ?o = [] \<or> (\<exists>r'. opt_list ?o = [r'] \<and>
      commit_generation (rc_commit r') < commit_generation c \<and> hc_store_id (rc_commit r') = hc_store_id c)"
    using o by (cases ?o) simp_all
  ultimately have "snd res = [?r] \<or> (\<exists>r'. (snd res = [?r, r'] \<or> snd res = [r', ?r]) \<and>
      commit_generation (rc_commit r') < commit_generation c \<and> hc_store_id (rc_commit r') = hc_store_id c)"
    by (elim disjE exE conjE; simp; blast)
  then show ?thesis
    unfolding recover_v2_history_def files marker res_bind_simps res_def [symmetric]
    by (elim disjE exE conjE) (simp_all add: case_prod_beta Let_def)
qed

section \<open>Disk updates\<close>

definition bank_fits :: "node \<Rightarrow> bool" where
  "bank_fits n = (case n of Regular bs \<Rightarrow> length bs \<le> HISTORY_BANK_HEADER_BYTES + 2 * MAX_HISTORY_BYTES
     | Absent \<Rightarrow> True | Irregular \<Rightarrow> False)"

lemma bank_len_ok_iff: "bank_len_ok n = Inr () \<longleftrightarrow> bank_fits n"
  by (cases n) (auto simp: bank_len_ok_def bank_fits_def validate_optional_history_node_def)

lemma validate_node_iff: "(\<exists>b. validate_optional_history_node n = Inr b) \<longleftrightarrow> n \<noteq> Irregular"
  by (cases n) (auto simp: validate_optional_history_node_def)

lemma artifacts_iff:
  "validate_history_artifacts d = Inr () \<longleftrightarrow>
     d Legacy \<noteq> Irregular \<and> d MarkerFile \<noteq> Irregular \<and> bank_fits (d (DataBank 0)) \<and>
     bank_fits (d (DataBank 1)) \<and> d (CommitFile 0) \<noteq> Irregular \<and> d (CommitFile 1) \<noteq> Irregular"
  unfolding validate_history_artifacts_def res_bind_eq_Inr bank_len_ok_iff [symmetric]
    validate_node_iff [symmetric] by auto

lemma artifacts_upd:
  assumes "validate_history_artifacts d = Inr ()"
    and "\<And>i. f = DataBank i \<Longrightarrow> length bs \<le> HISTORY_BANK_HEADER_BYTES + 2 * MAX_HISTORY_BYTES"
  shows "validate_history_artifacts (d(f := Regular bs)) = Inr ()"
  using assms by (auto simp: artifacts_iff bank_fits_def)

lemma read_history_commit_cong:
  "d' (CommitFile s) = d (CommitFile s) \<Longrightarrow> read_history_commit K d' s = read_history_commit K d s"
  by (simp add: read_history_commit_def)

lemma read_history_marker_cong:
  "d' MarkerFile = d MarkerFile \<Longrightarrow> read_history_marker K d' = read_history_marker K d"
  by (simp add: read_history_marker_def)

lemma stored_cong:
  assumes "d' (CommitFile (commit_generation c mod HISTORY_COMMIT_COUNT)) =
      d (CommitFile (commit_generation c mod HISTORY_COMMIT_COUNT))"
    and "d' (DataBank (data_slot c)) = d (DataBank (data_slot c))"
  shows "stored K d' c P = stored K d c P"
  using assms by (simp add: stored_def bank_holds_def)

section \<open>New commits and markers\<close>

lemma commit_seal_fields [simp]:
  "hc_format_version (commit_seal K c) = hc_format_version c"
  "hc_store_id (commit_seal K c) = hc_store_id c" "hc_session_id (commit_seal K c) = hc_session_id c"
  "commit_generation (commit_seal K c) = commit_generation c"
  "bank_generation (commit_seal K c) = bank_generation c" "data_slot (commit_seal K c) = data_slot c"
  "hc_capacity (commit_seal K c) = hc_capacity c" "committed_len (commit_seal K c) = committed_len c"
  "stream_end (commit_seal K c) = stream_end c" "data_sha256 (commit_seal K c) = data_sha256 c"
  by (simp_all add: commit_seal_def Let_def)

definition commit_fields_ok :: "hist_codec \<Rightarrow> history_commit \<Rightarrow> bool" where
  "commit_fields_ok K c \<longleftrightarrow> hc_format_version c = HISTORY_FORMAT_VERSION \<and> hc_store_id c < 256 ^ 16 \<and>
     hc_session_id c = session_id K \<and> 0 < commit_generation c \<and> commit_generation c \<le> U64_MAX \<and>
     0 < bank_generation c \<and> bank_generation c \<le> U64_MAX \<and> data_slot c < HISTORY_BANK_COUNT \<and>
     hc_capacity c \<le> MAX_HISTORY_BYTES \<and> committed_len c \<le> 2 * hc_capacity c \<and>
     committed_len c \<le> stream_end c \<and> stream_end c \<le> U64_MAX \<and> is_checksum (data_sha256 c)"

lemma commit_seal_good:
  assumes K: "codec_ok K" and c: "commit_fields_ok K c"
  shows "commit_good K (commit_seal K c)"
proof -
  have cap: "hc_capacity c * 2 \<le> U64_MAX" "hc_capacity c \<le> U64_MAX"
    using c by (simp_all add: commit_fields_ok_def size_consts)
  have sum: "is_checksum (metadata_sha256 (commit_seal K c))"
    using sha256_hex_checksum [OF K] by (simp add: commit_seal_def Let_def)
  have "commit_wf (commit_seal K c)"
    using c K cap sum
    by (simp add: commit_wf_def commit_fields_ok_def codec_ok_def size_consts)
  moreover have "checked_mul U64_MAX (hc_capacity c) 2 = Some (hc_capacity c * 2)" using cap by simp
  then have "commit_validate K (commit_generation c mod HISTORY_COMMIT_COUNT) (commit_seal K c) = Inr ()"
    using c unfolding commit_fields_ok_def commit_validate_def is_checksum_def
    by (simp add: validate_history_bytes_def del: checked_mul_Some)
      (simp add: commit_seal_def Let_def)
  ultimately show ?thesis by (simp add: commit_good_def)
qed

definition new_marker :: "hist_codec \<Rightarrow> history_commit \<Rightarrow> history_marker" where
  "new_marker K c = marker_seal K \<lparr>hm_format_version = HISTORY_FORMAT_VERSION,
     hm_store_id = hc_store_id c, hm_session_id = hc_session_id c, hm_metadata_sha256 = []\<rparr>"

lemma new_marker_wf:
  "codec_ok K \<Longrightarrow> hc_store_id c < 256 ^ 16 \<Longrightarrow> hc_session_id c = session_id K \<Longrightarrow> marker_wf (new_marker K c)"
  using sha256_hex_checksum [of K]
  by (simp add: new_marker_def marker_seal_def marker_wf_def Let_def codec_ok_def size_consts)

lemma read_new_marker:
  assumes K: "codec_ok K" and c: "hc_store_id c < 256 ^ 16" "hc_store_id c \<noteq> 0" "hc_session_id c = session_id K"
    and d: "d MarkerFile = Regular (marker_pretty K (new_marker K c) @ [0x0A])"
  shows "read_history_marker K d = Inr (Some (new_marker K c)) \<and> marker_fits (Some (new_marker K c)) c"
proof -
  have "marker_validate K (new_marker K c) = Inr ()"
    using c by (simp add: new_marker_def marker_validate_def marker_seal_def Let_def)
  then show ?thesis
    using K new_marker_wf [OF K c(1,3)] d
    by (simp add: read_history_marker_def open_optional_history_file_def read_bounded_json_def
        codec_ok_def not_less Suc_le_eq marker_fits_def)
      (simp add: new_marker_def marker_seal_def Let_def)
qed

section \<open>Writes\<close>

lemma next_fault_spec:
  "\<exists>flt w1. next_fault w = (flt, w1) \<and> disk w1 = disk w \<and>
     (faults w = [] \<longrightarrow> flt = NoFault \<and> faults w1 = [])"
  by (cases "faults w") (auto simp: next_fault_def)

lemma atomic_write_cases:
  assumes "atomic_write_bytes f bs (h, w) = (r, h', w')"
  shows "h' = h \<and> (r = Inr () \<and> disk w' = (disk w)(f := Regular bs) \<or>
       r = Inl IoError \<and> (disk w' = disk w \<or> disk w' = (disk w)(f := Regular bs))) \<and>
     (faults w = [] \<longrightarrow> r = Inr () \<and> faults w' = [])"
proof -
  obtain flt w1 where "next_fault w = (flt, w1)" "disk w1 = disk w"
      "faults w = [] \<Longrightarrow> flt = NoFault \<and> faults w1 = []" using next_fault_spec [of w] by blast
  with assms show ?thesis
    by (cases flt) (auto simp: atomic_write_bytes_def)
qed

lemma set_len_cases:
  assumes "set_len f content n (h, w) = (r, h', w')"
  shows "h' = h \<and> (r = Inr () \<and> disk w' = (disk w)(f := Regular (take n content)) \<or>
       r = Inl IoError \<and> (disk w' = disk w \<or> disk w' = (disk w)(f := Regular (take n content)))) \<and>
     (faults w = [] \<longrightarrow> r = Inr () \<and> faults w' = [])"
proof -
  obtain flt w1 where "next_fault w = (flt, w1)" "disk w1 = disk w"
      "faults w = [] \<Longrightarrow> flt = NoFault \<and> faults w1 = []" using next_fault_spec [of w] by blast
  with assms show ?thesis
    by (cases flt) (auto simp: set_len_def)
qed

lemma append_file_cases:
  assumes "append_file f base bs (h, w) = (r, h', w')"
  shows "h' = h \<and> (r = Inr () \<and> disk w' = (disk w)(f := Regular (base @ bs)) \<or>
       r = Inl IoError \<and> (disk w' = disk w \<or> (\<exists>n. disk w' = (disk w)(f := Regular (base @ take n bs))))) \<and>
     (faults w = [] \<longrightarrow> r = Inr () \<and> faults w' = [])"
proof -
  obtain flt w1 where "next_fault w = (flt, w1)" "disk w1 = disk w"
      "faults w = [] \<Longrightarrow> flt = NoFault \<and> faults w1 = []" using next_fault_spec [of w] by blast
  with assms show ?thesis
    by (cases flt) (auto simp: append_file_def intro: exI [of _ "length bs"])
qed

lemma remove_file_cases:
  assumes "remove_file f (h, w) = (r, h', w')"
  shows "h' = h \<and> (r = Inr () \<and> disk w' = (disk w)(f := Absent) \<or>
       r = Inl IoError \<and> (disk w' = disk w \<or> disk w' = (disk w)(f := Absent))) \<and>
     (faults w = [] \<longrightarrow> r = Inr () \<and> faults w' = [])"
proof -
  obtain flt w1 where "next_fault w = (flt, w1)" "disk w1 = disk w"
      "faults w = [] \<Longrightarrow> flt = NoFault \<and> faults w1 = []" using next_fault_spec [of w] by blast
  with assms show ?thesis
    by (cases flt) (auto simp: remove_file_def)
qed

text \<open>The raw view's writes touch \<open>history.bin\<close> and the bookkeeping of that view only.\<close>

definition legacy_only :: "history \<times> world \<Rightarrow> history \<times> world \<Rightarrow> bool" where
  "legacy_only s s' \<longleftrightarrow>
     (\<exists>a b k. fst s' = fst s\<lparr>compatibility_end := a, compatibility_len := b, compatibility_known := k\<rparr> \<and>
        (a = compatibility_end (fst s) \<or> a = observed_end (fst s))) \<and>
     (\<forall>f. f \<noteq> Legacy \<longrightarrow> disk (snd s') f = disk (snd s) f) \<and>
     (disk (snd s) Legacy \<noteq> Irregular \<longrightarrow> disk (snd s') Legacy \<noteq> Irregular) \<and>
     (faults (snd s) = [] \<longrightarrow> faults (snd s') = [])"

lemma legacy_only_refl: "legacy_only s s"
  unfolding legacy_only_def
  by (intro conjI exI [of _ "compatibility_end (fst s)"] exI [of _ "compatibility_len (fst s)"]
      exI [of _ "compatibility_known (fst s)"]) auto

lemma legacy_onlyI:
  assumes "h' = h\<lparr>compatibility_end := a, compatibility_len := b, compatibility_known := k\<rparr>"
    and "a = compatibility_end h \<or> a = observed_end h"
    and "disk w' = disk w \<or> disk w' = (disk w)(Legacy := n)" "n \<noteq> Irregular"
    and "faults w = [] \<longrightarrow> faults w' = []"
  shows "legacy_only (h, w) (h', w')"
  unfolding legacy_only_def using assms by auto

lemma repair_legacy_cases:
  assumes "repair_legacy_compatibility (h, w) = (r, h', w')"
  shows "legacy_only (h, w) (h', w') \<and>
     (faults w = [] \<and> disk w Legacy \<noteq> Irregular \<longrightarrow> r = Inr ())"
proof (cases "validate_optional_history_node (disk w Legacy)")
  case (Inl e)
  then have "disk w Legacy = Irregular" using validate_node_iff by (metis sum.distinct(1))
  with Inl assms show ?thesis by (auto simp: repair_legacy_compatibility_def legacy_only_refl)
next
  case (Inr present)
  show ?thesis
  proof (cases "h_cap h = 0")
    case zero: True
    obtain r1 h1 w1 where rm: "remove_file Legacy (h, w) = (r1, h1, w1)" by (metis prod.exhaust)
    note rc = remove_file_cases [OF rm]
    show ?thesis
    proof (cases "present \<and> (\<exists>e. r1 = Inl e)")
      case True
      then have "r = r1" "h' = h1" "w' = w1"
        using assms Inr zero rm by (auto simp: repair_legacy_compatibility_def hbind_def)
      with rc True show ?thesis
        by (auto intro!: legacy_onlyI [where a = "compatibility_end h" and b = "compatibility_len h" and
            k = "compatibility_known h" and n = Absent])
    next
      case False
      then have "r = Inr ()" "h' = compat_done 0 h" "w' = (if present then w1 else w)"
        using assms Inr zero rm rc
        by (cases present; auto simp: repair_legacy_compatibility_def hbind_def hmodify_def hlift_def)+
      with rc show ?thesis
        by (auto simp: compat_done_def intro!: legacy_onlyI [where
            a = "observed_end h" and b = 0 and k = True and n = Absent])
    qed
  next
    case False
    obtain r1 h1 w1 where aw: "atomic_write_bytes Legacy (h_bytes h) (h, w) = (r1, h1, w1)"
      by (metis prod.exhaust)
    note ac = atomic_write_cases [OF aw]
    show ?thesis
    proof (cases r1)
      case (Inl e)
      then have "r = Inl e" "h' = h\<lparr>compatibility_known := False\<rparr>" "w' = w1"
        using assms Inr False aw ac by (auto simp: repair_legacy_compatibility_def)
      with ac Inl show ?thesis
        by (auto intro!: legacy_onlyI [where a = "compatibility_end h" and b = "compatibility_len h" and
            k = False and n = "Regular (h_bytes h)"])
    next
      case Ok: (Inr u)
      then have "r = Inr ()" "h' = compat_done (length (h_bytes h)) h" "w' = w1"
        using assms Inr False aw ac by (auto simp: repair_legacy_compatibility_def)
      with ac Ok show ?thesis
        by (auto simp: compat_done_def intro!: legacy_onlyI [where
            a = "observed_end h" and b = "length (h_bytes h)" and k = True and n = "Regular (h_bytes h)"])
    qed
  qed
qed

lemma flush_legacy_cases:
  assumes "flush_legacy_compatibility (h, w) = (r, h', w')"
  shows "legacy_only (h, w) (h', w') \<and>
     (faults w = [] \<and> disk w Legacy \<noteq> Irregular \<and> compatibility_end h \<le> observed_end h \<longrightarrow> r = Inr ())"
proof -
  let ?delta = "observed_end h - compatibility_end h"
  consider (repair) "repair_legacy_compatibility (h, w) = (r, h', w')"
    | (early) "h' = h" "w' = w" "r = Inr () \<or> disk w Legacy = Irregular \<or> observed_end h < compatibility_end h"
    | (app) bs r1 h1 w1 where
        "append_file Legacy bs (drop (length (h_bytes h) - ?delta) (h_bytes h)) (h, w) = (r1, h1, w1)"
        "(r, h', w') = (case r1 of
            Inr u \<Rightarrow> (Inr (), h1\<lparr>compatibility_end := observed_end h1,
              compatibility_len := compatibility_len h1 + ?delta\<rparr>, w1)
          | Inl e \<Rightarrow> (Inl e, h1\<lparr>compatibility_known := False\<rparr>, w1))"
    using assms
    by (auto simp: flush_legacy_compatibility_def Let_def checked_sub_def
        open_optional_history_file_def validate_optional_history_node_def
        split: if_splits option.splits node.splits sum.splits prod.splits)
  then show ?thesis
  proof cases
    case repair
    then show ?thesis using repair_legacy_cases by auto
  next
    case early
    then show ?thesis using legacy_only_refl [of "(h, w)"] by auto
  next
    case (app bs r1 h1 w1)
    note ac = append_file_cases [OF app(1)]
    show ?thesis
    proof (cases r1)
      case (Inl e)
      with app(2) have "r = Inl e" "h' = h1\<lparr>compatibility_known := False\<rparr>" "w' = w1" by auto
      with ac Inl show ?thesis
        by (auto intro!: legacy_onlyI [where a = "compatibility_end h" and b = "compatibility_len h" and
            k = False])
    next
      case (Inr u)
      with app(2) have "r = Inr ()" "w' = w1" "h' = h1\<lparr>compatibility_end := observed_end h1,
          compatibility_len := compatibility_len h1 + ?delta\<rparr>" by auto
      with ac Inr show ?thesis
        by (auto intro!: legacy_onlyI [where a = "observed_end h" and b = "compatibility_len h + ?delta" and
            k = "compatibility_known h"])
    qed
  qed
qed

section \<open>Publishing a commit\<close>

text \<open>\<open>holds\<close>: what recovery finds on the disk is the commit \<open>c\<close> with its bytes \<open>P\<close>.\<close>

definition marker_ok :: "hist_codec \<Rightarrow> (hfile \<Rightarrow> node) \<Rightarrow> history_commit \<Rightarrow> bool" where
  "marker_ok K d c \<longleftrightarrow> (\<exists>m. read_history_marker K d = Inr m \<and> marker_fits m c)"

definition holds :: "hist_codec \<Rightarrow> (hfile \<Rightarrow> node) \<Rightarrow> history_commit \<Rightarrow> bytes \<Rightarrow> bool" where
  "holds K d c P \<longleftrightarrow> validate_history_artifacts d = Inr () \<and> marker_ok K d c \<and> stored K d c P \<and>
     superseded K d c"

lemma recover_holds:
  assumes "codec_ok K" "holds K d c P"
  shows "\<exists>b. recover_v2_history K d limit =
     Inr (Some \<lparr>rc_commit = c, rc_tail = lastn (min limit (hc_capacity c)) P, rc_hasher = P\<rparr>, b)"
  using assms recover_stored [of K d _ c P limit] unfolding holds_def marker_ok_def by blast

definition publish_tail :: "hist_codec \<Rightarrow> history_commit \<Rightarrow> bytes \<Rightarrow> unit hm" where
  "publish_tail K c0 P = hbind (publish_commit K c0) (\<lambda>c.
     hbind (ensure_marker_published K c) (\<lambda>_. hmodify (commit_done c P)))"

abbreviation commit_file :: "history_commit \<Rightarrow> hfile" where
  "commit_file c \<equiv> CommitFile (commit_generation c mod HISTORY_COMMIT_COUNT)"

lemma ensure_marker_cases:
  assumes K: "codec_ok K" and m: "marker_ok K (disk w) c"
    and pub: "marker_published h \<longrightarrow> read_history_marker K (disk w) \<noteq> Inr None"
    and c: "hc_store_id c < 256 ^ 16" "hc_store_id c \<noteq> 0" "hc_session_id c = session_id K"
    and run: "ensure_marker_published K c (h, w) = (r, h', w')"
  shows "(r = Inr () \<and> h' = h\<lparr>marker_published := True\<rparr> \<and> read_history_marker K (disk w') \<noteq> Inr None \<or>
      (\<exists>e. r = Inl e) \<and> h' = h) \<and>
    marker_ok K (disk w') c \<and> (\<forall>f. f \<noteq> MarkerFile \<longrightarrow> disk w' f = disk w f) \<and>
    (disk w MarkerFile \<noteq> Irregular \<longrightarrow> disk w' MarkerFile \<noteq> Irregular) \<and>
    (marker_published h \<longrightarrow> disk w' MarkerFile = disk w MarkerFile) \<and>
    (faults w = [] \<longrightarrow> r = Inr () \<and> faults w' = [])"
proof (cases "marker_published h")
  case True
  with run pub m show ?thesis by (auto simp: ensure_marker_published_def)
next
  case False
  obtain mk where mk: "read_history_marker K (disk w) = Inr mk" "marker_fits mk c"
    using m by (auto simp: marker_ok_def)
  show ?thesis
  proof (cases mk)
    case (Some m)
    with mk have "\<not> (hm_store_id m \<noteq> hc_store_id c \<or> hm_session_id m \<noteq> hc_session_id c)"
      by (simp add: marker_fits_def)
    with False run mk Some have "r = Inr ()" "h' = h\<lparr>marker_published := True\<rparr>" "w' = w"
      by (auto simp: ensure_marker_published_def publish_history_marker_def hbind_def hmodify_def)
    with mk Some m show ?thesis by (auto simp: marker_ok_def)
  next
    case None
    let ?bs = "marker_pretty K (new_marker K c) @ [0x0A]"
    obtain r1 h1 w1 where aw: "atomic_write_bytes MarkerFile ?bs (h, w) = (r1, h1, w1)"
      by (metis prod.exhaust)
    note ac = atomic_write_cases [OF aw]
    have size: "\<not> HISTORY_MARKER_MAX_BYTES < length (marker_json K (new_marker K c))"
      using K new_marker_wf [OF K c(1,3)] by (simp add: codec_ok_def not_less)
    have run': "r = (case r1 of Inl e \<Rightarrow> Inl e | Inr u \<Rightarrow> Inr ())" "w' = w1"
        "h' = (case r1 of Inl e \<Rightarrow> h | Inr u \<Rightarrow> h\<lparr>marker_published := True\<rparr>)"
      using False run mk None size aw ac unfolding new_marker_def
      by (auto simp: ensure_marker_published_def publish_history_marker_def hbind_def hlift_def
          hmodify_def split: sum.splits)
    have new: "read_history_marker K d = Inr (Some (new_marker K c)) \<and> marker_ok K d c"
      if "d MarkerFile = Regular ?bs" for d
      using read_new_marker [of K c d] K c that by (auto simp: marker_ok_def)
    have same: "marker_ok K d c" if "d MarkerFile = disk w MarkerFile" for d
      using m read_history_marker_cong [of d "disk w" K] that by (simp add: marker_ok_def)
    show ?thesis
      using False run' ac new same by (auto split: sum.splits)
  qed
qed

lemma publish_tail_cases:
  assumes K: "codec_ok K" and c0: "commit_fields_ok K c0" "hc_store_id c0 \<noteq> 0" and c: "c = commit_seal K c0"
    and m: "marker_ok K (disk w) c" "marker_published h \<longrightarrow> read_history_marker K (disk w) \<noteq> Inr None"
    and files: "validate_history_artifacts (disk w) = Inr ()" and bank: "bank_holds K (disk w) c P"
    and run: "publish_tail K c0 P (h, w) = (r, h', w')"
  shows "(r = Inr () \<and> h' = commit_done c P (h\<lparr>marker_published := True\<rparr>) \<and> stored K (disk w') c P \<and>
        read_history_marker K (disk w') \<noteq> Inr None \<or>
      (\<exists>e. r = Inl e) \<and> h' = h \<and> (disk w' = disk w \<or> stored K (disk w') c P)) \<and>
    marker_ok K (disk w') c \<and> validate_history_artifacts (disk w') = Inr () \<and>
    (\<forall>f. f \<noteq> MarkerFile \<and> f \<noteq> commit_file c \<longrightarrow> disk w' f = disk w f) \<and>
    (marker_published h \<longrightarrow> disk w' MarkerFile = disk w MarkerFile) \<and>
    (faults w = [] \<longrightarrow> r = Inr () \<and> faults w' = [])"
proof -
  have good: "commit_good K c" unfolding c by (rule commit_seal_good [OF K c0(1)])
  let ?bs = "commit_pretty K c @ [0x0A]"
  let ?d1 = "(disk w)(commit_file c := Regular ?bs)"
  obtain r1 h1 w1 where aw: "atomic_write_bytes (commit_file c) ?bs (h, w) = (r1, h1, w1)"
    by (metis prod.exhaust)
  note ac = atomic_write_cases [OF aw]
  have size: "\<not> HISTORY_COMMIT_MAX_BYTES < length (commit_json K c)"
    using K commit_goodD(8) [OF good] by (simp add: codec_ok_def not_less)
  have "commit_generation c mod HISTORY_COMMIT_COUNT < 2" by (simp add: HISTORY_COMMIT_COUNT_def)
  then have "disk w (commit_file c) \<noteq> Irregular"
    using files by (auto simp: artifacts_iff less_2_cases_iff)
  then obtain b where "validate_optional_history_node (disk w (commit_file c)) = Inr b"
    using validate_node_iff by blast
  then have pc: "publish_commit K c0 (h, w) = (case r1 of Inl e \<Rightarrow> Inl e | Inr u \<Rightarrow> Inr c, h, w1)"
    using size aw ac
    by (auto simp: publish_commit_def c [symmetric] Let_def hbind_def hlift_def split: sum.splits)
  have st: "stored K d c P" if "d (commit_file c) = Regular ?bs"
      "d (DataBank (data_slot c)) = disk w (DataBank (data_slot c))" for d
    using good bank that by (auto simp: stored_def bank_holds_def)
  have v1: "validate_history_artifacts ?d1 = Inr ()" using files by (rule artifacts_upd) simp
  have m1: "read_history_marker K d = read_history_marker K (disk w)" if "d MarkerFile = disk w MarkerFile" for d
    using that by (rule read_history_marker_cong)
  show ?thesis
  proof (cases r1)
    case (Inl e)
    with pc run have e: "r = Inl e" "h' = h" "w' = w1" by (auto simp: publish_tail_def hbind_def)
    with ac Inl have "disk w' = disk w \<or> disk w' = ?d1" by auto
    then show ?thesis
      using e Inl ac m files v1 st [of ?d1] m1 [of ?d1] by (auto simp: marker_ok_def)
  next
    case (Inr u)
    with ac have d1: "disk w1 = ?d1" by auto
    obtain r2 h2 w2 where em: "ensure_marker_published K c (h, w1) = (r2, h2, w2)" by (metis prod.exhaust)
    have ids: "hc_store_id c < 256 ^ 16" "hc_store_id c \<noteq> 0" "hc_session_id c = session_id K"
      using c0 by (simp_all add: c commit_fields_ok_def)
    have "marker_ok K (disk w1) c" "marker_published h \<longrightarrow> read_history_marker K (disk w1) \<noteq> Inr None"
      using m m1 [of ?d1] by (simp_all add: d1 marker_ok_def)
    note ec = ensure_marker_cases [OF K this ids em]
    have run': "(r, h', w') = (case r2 of Inl e \<Rightarrow> (Inl e, h2, w2) | Inr u \<Rightarrow> (Inr (), commit_done c P h2, w2))"
      using run pc Inr em by (auto simp: publish_tail_def hbind_def hmodify_def split: sum.splits)
    have "stored K (disk w2) c P" using ec by (intro st) (auto simp: d1)
    moreover have "validate_history_artifacts (disk w2) = Inr ()"
      using ec v1 by (auto simp: d1 artifacts_iff)
    ultimately show ?thesis
      using run' ec ac Inr by (auto simp: d1 split: sum.splits)
  qed
qed

section \<open>The invariant\<close>

text \<open>\<open>covers cap P X\<close>: \<open>P\<close> is a suffix of \<open>X\<close> that contains its last \<open>cap\<close> bytes.\<close>

definition covers :: "nat \<Rightarrow> bytes \<Rightarrow> bytes \<Rightarrow> bool" where
  "covers cap P X \<longleftrightarrow> P = lastn (length P) X \<and> min cap (length X) \<le> length P"

lemma covers_lastn: "covers cap P X \<Longrightarrow> n \<le> cap \<Longrightarrow> lastn n P = lastn n X"
proof -
  assume a: "covers cap P X" "n \<le> cap"
  then have P: "P = lastn (length P) X" "min cap (length X) \<le> length P" by (auto simp: covers_def)
  have "lastn n P = lastn (min n (length P)) X" by (subst P(1)) simp
  also have "\<dots> = lastn n X"
  proof (cases "n \<le> length P")
    case False
    with P(2) a(2) have "length X \<le> length P" "length X \<le> n" by auto
    with False show ?thesis by simp
  qed (simp add: min_def)
  finally show ?thesis .
qed

lemma covers_ring: "covers cap (lastn cap X) X"
  by (cases "cap \<le> length X") (simp_all add: covers_def min_def)

lemma covers_append:
  assumes "covers cap P X" "cap = 0 \<longrightarrow> P = [] \<and> Y' = []" "cap \<noteq> 0 \<longrightarrow> Y' = Y"
  shows "covers cap (P @ Y') (X @ Y)"
proof (cases "cap = 0")
  case True
  with assms show ?thesis by (simp add: covers_def)
next
  case False
  have "lastn (length P + length Y) (X @ Y) = lastn (length P) X @ Y"
    using lastn_append_short [of Y "length P + length Y" X] by simp
  moreover have "lastn (length P) X = P" "min cap (length X) \<le> length P"
    using assms(1) by (auto simp: covers_def)
  ultimately show ?thesis using assms(3) False by (simp add: covers_def)
qed

definition persisted_ok :: "hist_codec \<Rightarrow> bytes \<Rightarrow> history \<Rightarrow> (hfile \<Rightarrow> node) \<Rightarrow> recovered \<Rightarrow> bool" where
  "persisted_ok K S h d r \<longleftrightarrow>
     stored K d (rc_commit r) (rc_hasher r) \<and> hc_capacity (rc_commit r) = h_cap h \<and>
     stream_end (rc_commit r) = durable_end h \<and>
     covers (h_cap h) (rc_hasher r) (take (durable_end h) S) \<and> hc_store_id (rc_commit r) \<noteq> 0 \<and>
     marker_ok K d (rc_commit r) \<and>
     (marker_published h \<longrightarrow> read_history_marker K d \<noteq> Inr None)"

definition hist_inv :: "hist_codec \<Rightarrow> bytes \<Rightarrow> history \<Rightarrow> (hfile \<Rightarrow> node) \<Rightarrow> bool" where
  "hist_inv K S h d \<longleftrightarrow> ring_inv S h \<and> validate_history_artifacts d = Inr () \<and>
     (case persisted h of
        None \<Rightarrow> d MarkerFile = Absent \<and> d (CommitFile 0) = Absent \<and> \<not> marker_published h
      | Some r \<Rightarrow> persisted_ok K S h d r)"

text \<open>The 64-bit generation counters have not run out.\<close>

definition has_room :: "history \<Rightarrow> bool" where
  "has_room h = (case persisted h of None \<Rightarrow> True
     | Some r \<Rightarrow> commit_generation (rc_commit r) < U64_MAX \<and> bank_generation (rc_commit r) < U64_MAX)"

text \<open>
  The outcome of a publication: on success the disk holds a commit of the whole stream and
  the history records it; on failure the history is as before, and the disk is still at the
  previous state or already at the new commit.
\<close>

definition published :: "hist_codec \<Rightarrow> bytes \<Rightarrow> history \<Rightarrow> (hfile \<Rightarrow> node) \<Rightarrow> bool" where
  "published K S h d \<longleftrightarrow> (\<exists>c P. stored K d c P \<and> hc_capacity c = h_cap h \<and> stream_end c = length S \<and>
     covers (h_cap h) P S \<and> marker_ok K d c \<and>
     (case persisted h of None \<Rightarrow> commit_generation c = 1
      | Some r \<Rightarrow> commit_generation c = commit_generation (rc_commit r) + 1 \<and>
          hc_store_id c = hc_store_id (rc_commit r)))"

definition outcome ::
    "hist_codec \<Rightarrow> bytes \<Rightarrow> history \<Rightarrow> world \<Rightarrow> (hist_error + unit) \<times> history \<times> world \<Rightarrow> bool" where
  "outcome K S h w res = (case res of (r, h', w') \<Rightarrow>
     validate_history_artifacts (disk w') = Inr () \<and>
     (\<forall>q. persisted h = Some q \<longrightarrow> stored K (disk w') (rc_commit q) (rc_hasher q) \<and>
        marker_ok K (disk w') (rc_commit q) \<and>
        (marker_published h \<longrightarrow> read_history_marker K (disk w') \<noteq> Inr None)) \<and>
     (persisted h = None \<longrightarrow> disk w' (CommitFile 0) = disk w (CommitFile 0)) \<and>
     (case r of
        Inr _ \<Rightarrow> published K S h (disk w') \<and> hist_inv K S h' (disk w') \<and> \<not> h_dirty h' \<and>
          durable_end h' = length S \<and> marker_published h'
      | Inl _ \<Rightarrow> h' = h \<and>
          ((\<forall>i. disk w' (CommitFile i) = disk w (CommitFile i)) \<and> disk w' MarkerFile = disk w MarkerFile \<or>
           published K S h (disk w'))) \<and>
     (faults w = [] \<longrightarrow> r = Inr () \<and> faults w' = []))"

definition follows :: "history \<Rightarrow> history_commit \<Rightarrow> bool" where
  "follows h c = (case persisted h of None \<Rightarrow> commit_generation c = 1
     | Some q \<Rightarrow> commit_generation c = commit_generation (rc_commit q) + 1 \<and>
         hc_store_id c = hc_store_id (rc_commit q))"

lemma commit_file_other: "commit_generation c = commit_generation c' + 1 \<Longrightarrow> commit_file c' \<noteq> commit_file c"
  by (simp add: HISTORY_COMMIT_COUNT_def) presburger

lemma publish_tail_outcome:
  assumes K: "codec_ok K" and ring: "ring_inv S h"
    and c0: "commit_fields_ok K c0" "hc_store_id c0 \<noteq> 0" "hc_capacity c0 = h_cap h"
      "stream_end c0 = length S" "follows h c0"
    and P: "covers (h_cap h) P S" "bank_holds K (disk w1) (commit_seal K c0) P"
    and files: "validate_history_artifacts (disk w1) = Inr ()"
    and old: "\<And>q. persisted h = Some q \<Longrightarrow> stored K (disk w1) (rc_commit q) (rc_hasher q)"
    and m: "marker_ok K (disk w1) (commit_seal K c0)"
      "marker_published h \<longrightarrow> read_history_marker K (disk w1) \<noteq> Inr None"
    and same: "\<And>i. disk w1 (CommitFile i) = disk w (CommitFile i)" "disk w1 MarkerFile = disk w MarkerFile"
      "faults w = [] \<longrightarrow> faults w1 = []"
  shows "outcome K S h w (publish_tail K c0 P (h, w1))"
proof -
  obtain r h' w' where run: "publish_tail K c0 P (h, w1) = (r, h', w')" by (metis prod.exhaust)
  define c where "c = commit_seal K c0"
  note tc = publish_tail_cases [OF K c0(1,2) c_def m(1) [folded c_def] m(2) files P(2) [folded c_def] run]
  have cf: "hc_capacity c = h_cap h" "stream_end c = length S" "follows h c" "hc_store_id c \<noteq> 0"
      "hc_session_id c = session_id K"
    using c0 by (simp_all add: c_def follows_def commit_fields_ok_def split: option.splits)
  have pub: "published K S h (disk w')" if "stored K (disk w') c P"
    unfolding published_def using that cf P(1) tc by (auto simp: follows_def split: option.splits)
  have old': "stored K (disk w') (rc_commit q) (rc_hasher q)" "marker_ok K (disk w') (rc_commit q)"
    if q: "persisted h = Some q" for q
  proof -
    have g: "commit_generation c = commit_generation (rc_commit q) + 1"
        "hc_store_id c = hc_store_id (rc_commit q)"
      using cf(3) q by (simp_all add: follows_def)
    have "stored K (disk w1) (rc_commit q) (rc_hasher q)" using old q .
    moreover have "disk w' (commit_file (rc_commit q)) = disk w1 (commit_file (rc_commit q))"
        "disk w' (DataBank (data_slot (rc_commit q))) = disk w1 (DataBank (data_slot (rc_commit q)))"
      using tc commit_file_other [OF g(1)] by auto
    ultimately show "stored K (disk w') (rc_commit q) (rc_hasher q)" using stored_cong by blast
    then have "hc_session_id (rc_commit q) = session_id K" using commit_goodD(5) by (auto simp: stored_def)
    with tc g cf(5) show "marker_ok K (disk w') (rc_commit q)"
      by (auto simp: marker_ok_def marker_fits_def split: option.splits)
  qed
  have mp: "marker_published h \<longrightarrow> read_history_marker K (disk w') \<noteq> Inr None"
    using tc m(2) read_history_marker_cong [of "disk w'" "disk w1" K] by auto
  have first: "disk w' (CommitFile 0) = disk w (CommitFile 0)" if "persisted h = None"
  proof -
    have "commit_generation c = 1" using cf(3) that by (simp add: follows_def)
    then have "commit_file c \<noteq> CommitFile 0" by (simp add: HISTORY_COMMIT_COUNT_def)
    then show ?thesis using tc same(1) by auto
  qed
  have ok: "hist_inv K S h' (disk w')" if "r = Inr ()"
  proof -
    have "h' = commit_done c P (h\<lparr>marker_published := True\<rparr>)" "stored K (disk w') c P"
        "read_history_marker K (disk w') \<noteq> Inr None" using tc that by auto
    then show ?thesis
      using ring tc cf P(1)
      by (simp add: hist_inv_def persisted_ok_def commit_done_def ring_inv_def)
  qed
  show ?thesis
    unfolding outcome_def run prod.case
    using tc pub old' mp first ok same ring
    by (auto simp: commit_done_def ring_inv_def split: sum.splits)
qed

section \<open>Appending and compacting\<close>

lemma outcome_error:
  assumes "validate_history_artifacts d = Inr ()"
    and "\<And>q. persisted h = Some q \<Longrightarrow> stored K d (rc_commit q) (rc_hasher q) \<and> marker_ok K d (rc_commit q)"
    and "marker_published h \<longrightarrow> read_history_marker K d \<noteq> Inr None"
    and "disk w' = d" "\<And>i. d (CommitFile i) = disk w (CommitFile i)" "d MarkerFile = disk w MarkerFile"
    and "faults w \<noteq> []"
  shows "outcome K S h w (Inl e, h, w')"
  using assms by (simp add: outcome_def)

lemma hist_inv_core:
  assumes "hist_inv K S h d" "persisted h = Some q"
  shows "stored K d (rc_commit q) (rc_hasher q)" "marker_ok K d (rc_commit q)"
    "hc_capacity (rc_commit q) = h_cap h" "stream_end (rc_commit q) = durable_end h"
    "covers (h_cap h) (rc_hasher q) (take (durable_end h) S)" "hc_store_id (rc_commit q) \<noteq> 0"
  using assms by (auto simp: hist_inv_def persisted_ok_def)

lemma hist_inv_marker:
  "hist_inv K S h d \<Longrightarrow> marker_published h \<longrightarrow> read_history_marker K d \<noteq> Inr None"
  by (auto simp: hist_inv_def persisted_ok_def split: option.splits)

lemma marker_ok_cong:
  "hc_store_id c = hc_store_id c' \<Longrightarrow> hc_session_id c = hc_session_id c' \<Longrightarrow>
   d MarkerFile = d' MarkerFile \<Longrightarrow> marker_ok K d c = marker_ok K d' c'"
  using read_history_marker_cong [of d d' K]
  by (auto simp: marker_ok_def marker_fits_def split: option.splits)

text \<open>The bank of the committed generation may change behind its committed prefix only.\<close>

lemma stored_bank:
  assumes K: "codec_ok K" and st: "stored K d c P"
    and bs: "bs = header_encode K (hdr_of c) @ P @ junk" "length P + length junk \<le> 2 * hc_capacity c"
  shows "stored K (d(DataBank (data_slot c) := Regular bs)) c P"
  using st bs by (auto simp: stored_def bank_holds_def)

lemma commit_wf_room: "commit_good K c \<Longrightarrow> HISTORY_BANK_HEADER_BYTES + 2 * hc_capacity c \<le> U64_MAX"
  using commit_goodD(2) [of K c] by (simp add: size_consts)

lemma hbind_hlift [simp]: "hbind (hlift (Inr x)) f = f x"
  by (rule ext) (simp add: hbind_def hlift_def)

lemma hbind_cases:
  "hbind m f s = (case fst (m s) of Inl e \<Rightarrow> (Inl e, snd (m s)) | Inr x \<Rightarrow> f x (snd (m s)))"
  by (auto simp: hbind_def split: prod.splits sum.splits)

definition append_commit :: "hist_codec \<Rightarrow> history \<Rightarrow> recovered \<Rightarrow> history_commit" where
  "append_commit K h q = (let c = rc_commit q in
     \<lparr>hc_format_version = HISTORY_FORMAT_VERSION, hc_store_id = hc_store_id c,
      hc_session_id = hc_session_id c, commit_generation = commit_generation c + 1,
      bank_generation = bank_generation c, data_slot = data_slot c,
      hc_capacity = h_cap h, committed_len = committed_len c + length (h_pending h),
      stream_end = observed_end h,
      data_sha256 = sha256_hex K (rc_hasher q @ h_pending h), metadata_sha256 = []\<rparr>)"

lemma publish_append_steps:
  assumes q: "persisted h = Some q" and gen: "commit_generation (rc_commit q) < U64_MAX"
    and bank: "disk w (DataBank (data_slot (rc_commit q))) = Regular bs"
    and cp: "cp = HISTORY_BANK_HEADER_BYTES + committed_len (rc_commit q)" "cp \<le> length bs" "cp \<le> U64_MAX"
    and len: "length bs \<le> HISTORY_BANK_HEADER_BYTES + 2 * h_cap h"
      "HISTORY_BANK_HEADER_BYTES + 2 * h_cap h \<le> U64_MAX"
      "committed_len (rc_commit q) + length (h_pending h) \<le> U64_MAX"
  shows "publish_append K (h, w) =
     hbind (if length bs \<noteq> cp then set_len (DataBank (data_slot (rc_commit q))) bs cp else hlift (Inr ())) (\<lambda>_.
     hbind (append_file (DataBank (data_slot (rc_commit q))) (take cp bs) (h_pending h)) (\<lambda>_.
     publish_tail K (append_commit K h q) (rc_hasher q @ h_pending h))) (h, w)"
proof -
  have sat: "sat_mul U64_MAX (h_cap h) 2 = 2 * h_cap h" using len(2) by (simp add: arith_defs)
  have checks: "checked_add U64_MAX HISTORY_BANK_HEADER_BYTES (committed_len (rc_commit q)) = Some cp"
      "checked_add U64_MAX HISTORY_BANK_HEADER_BYTES (2 * h_cap h) = Some (HISTORY_BANK_HEADER_BYTES + 2 * h_cap h)"
      "checked_add U64_MAX (committed_len (rc_commit q)) (length (h_pending h)) =
         Some (committed_len (rc_commit q) + length (h_pending h))"
      "next_commit_generation h = Inr (commit_generation (rc_commit q) + 1)"
    using cp len gen by (simp_all add: next_commit_generation_def q arith_defs)
  show ?thesis
    unfolding publish_append_def
    using cp(2) len(1)
    by (simp add: q bank open_optional_history_file_def checks sat publish_tail_def append_commit_def
        Let_def not_less del: checked_add_Some)
qed

text \<open>\<open>d\<close> is \<open>d0\<close> with the uncommitted suffix of the current bank replaced by \<open>j\<close>.\<close>

definition bank_at ::
    "hist_codec \<Rightarrow> history \<Rightarrow> recovered \<Rightarrow> (hfile \<Rightarrow> node) \<Rightarrow> bytes \<Rightarrow> (hfile \<Rightarrow> node) \<Rightarrow> bool" where
  "bank_at K h q d0 j d \<longleftrightarrow>
     d = d0(DataBank (data_slot (rc_commit q)) :=
            Regular (header_encode K (hdr_of (rc_commit q)) @ rc_hasher q @ j)) \<and>
     length (rc_hasher q) + length j \<le> 2 * h_cap h"

lemma bank_at_keeps:
  assumes K: "codec_ok K" and inv: "hist_inv K S h d0" and q: "persisted h = Some q"
    and at: "bank_at K h q d0 j d"
  shows "validate_history_artifacts d = Inr ()" "stored K d (rc_commit q) (rc_hasher q)"
    "marker_ok K d (rc_commit q)" "marker_published h \<longrightarrow> read_history_marker K d \<noteq> Inr None"
    "\<And>i. d (CommitFile i) = d0 (CommitFile i)" "d MarkerFile = d0 MarkerFile"
proof -
  note core = hist_inv_core [OF inv q]
  have d: "d = d0(DataBank (data_slot (rc_commit q)) :=
        Regular (header_encode K (hdr_of (rc_commit q)) @ rc_hasher q @ j))"
      "length (rc_hasher q) + length j \<le> 2 * h_cap h"
    using at by (auto simp: bank_at_def)
  have "h_cap h \<le> MAX_HISTORY_BYTES" "validate_history_artifacts d0 = Inr ()"
    using inv by (auto simp: hist_inv_def ring_inv_def)
  then show "validate_history_artifacts d = Inr ()"
    unfolding d(1) by (intro artifacts_upd) (use d(2) length_header_encode [OF K] in auto)
  show "stored K d (rc_commit q) (rc_hasher q)"
    unfolding d(1) using stored_bank [OF K core(1) refl] d(2) core(3) by simp
  show f: "d MarkerFile = d0 MarkerFile" by (simp add: d)
  show "marker_ok K d (rc_commit q)" using marker_ok_cong [of _ _ d d0 K] f core(2) by simp
  show "marker_published h \<longrightarrow> read_history_marker K d \<noteq> Inr None"
    using hist_inv_marker [OF inv] read_history_marker_cong [of d d0 K] f by simp
  show "\<And>i. d (CommitFile i) = d0 (CommitFile i)" by (simp add: d)
qed

lemma covers_pending:
  assumes "ring_inv S h" "covers (h_cap h) P (take (durable_end h) S)"
    and "h_cap h = 0 \<longrightarrow> P = []"
    and "h_cap h = 0 \<or> observed_end h - durable_end h = length (h_pending h)"
  shows "covers (h_cap h) (P @ h_pending h) S"
proof -
  have "h_cap h \<noteq> 0 \<longrightarrow> h_pending h = drop (durable_end h) S"
    using assms(1,4) by (auto simp: ring_inv_def intro!: lastn_all)
  moreover have "h_cap h = 0 \<longrightarrow> P = [] \<and> h_pending h = []"
    using assms(1,3) by (auto simp: ring_inv_def)
  ultimately have "covers (h_cap h) (P @ h_pending h) (take (durable_end h) S @ drop (durable_end h) S)"
    using assms(2) by (intro covers_append)
  then show ?thesis by simp
qed

lemma append_commit_fields:
  assumes K: "codec_ok K" and inv: "hist_inv K S h d" and room: "has_room h" and q: "persisted h = Some q"
    and fits: "committed_len (rc_commit q) + length (h_pending h) \<le> 2 * h_cap h"
  shows "commit_fields_ok K (append_commit K h q)"
proof -
  note core = hist_inv_core [OF inv q]
  have good: "commit_good K (rc_commit q)" using core(1) by (simp add: stored_def)
  note g = commit_goodD [OF good]
  have r: "ring_inv S h" using inv by (simp add: hist_inv_def)
  then have p: "length (h_pending h) \<le> length S - durable_end h" "durable_end h \<le> length S"
      "observed_end h = length S" "length S \<le> U64_MAX"
    by (auto simp: ring_inv_def)
  have "committed_len (rc_commit q) + length (h_pending h) \<le> length S" using p g(4) core(4) by simp
  then show ?thesis
    using room g core(3) p fits sha256_hex_checksum [OF K]
    by (simp add: append_commit_def Let_def commit_fields_ok_def has_room_def q commit_wf_def
        HISTORY_BANK_COUNT_def)
qed

lemma append_commit_outcome:
  assumes K: "codec_ok K" and inv: "hist_inv K S h (disk w)" and room: "has_room h"
    and q: "persisted h = Some q"
    and contiguous: "h_cap h = 0 \<or> observed_end h - durable_end h = length (h_pending h)"
    and fits: "committed_len (rc_commit q) + length (h_pending h) \<le> 2 * h_cap h"
    and at: "bank_at K h q (disk w) (h_pending h) (disk w2)" and flt: "faults w = [] \<longrightarrow> faults w2 = []"
  shows "outcome K S h w (publish_tail K (append_commit K h q) (rc_hasher q @ h_pending h) (h, w2))"
proof -
  let ?new = "append_commit K h q" and ?c = "rc_commit q" and ?P = "rc_hasher q"
  note core = hist_inv_core [OF inv q] and keeps = bank_at_keeps [OF K inv q at]
  have ring: "ring_inv S h" using inv by (simp add: hist_inv_def)
  have P: "length ?P = committed_len ?c" "committed_len ?c \<le> 2 * hc_capacity ?c"
    using core(1) commit_goodD(3) by (auto simp: stored_def bank_holds_def)
  have new_fields: "committed_len ?new = committed_len ?c + length (h_pending h)"
      "data_sha256 ?new = sha256_hex K (?P @ h_pending h)" "data_slot ?new = data_slot ?c"
      "hc_capacity ?new = h_cap h"
    and ids: "hc_store_id ?c = hc_store_id (commit_seal K ?new)"
      "hc_session_id ?c = hc_session_id (commit_seal K ?new)"
    by (simp_all add: append_commit_def Let_def)
  have hdr: "hdr_of (commit_seal K ?new) = hdr_of ?c"
    using core(3) by (simp add: hdr_of_def append_commit_def Let_def)
  show ?thesis
  proof (rule publish_tail_outcome [OF K ring append_commit_fields [OF K inv room q fits]])
    show "bank_holds K (disk w2) (commit_seal K ?new) (?P @ h_pending h)"
      using at fits P(1) core(3) hdr
      by (auto simp: bank_holds_def bank_at_def new_fields intro!: exI [of _ "[]"])
    show "covers (h_cap h) (?P @ h_pending h) S"
      using ring core(5) contiguous P core(3) by (intro covers_pending) auto
    show "marker_ok K (disk w2) (commit_seal K ?new)"
      by (rule iffD1 [OF marker_ok_cong [of ?c _ "disk w2" "disk w2", OF ids refl] keeps(3)])
    show "follows h ?new" "hc_store_id ?new \<noteq> 0" "hc_capacity ?new = h_cap h" "stream_end ?new = length S"
      using core(6) ring by (simp_all add: follows_def append_commit_def Let_def q ring_inv_def)
  qed (use keeps flt q in auto)
qed

lemma publish_append_outcome:
  assumes K: "codec_ok K" and inv: "hist_inv K S h (disk w)" and room: "has_room h"
    and q: "persisted h = Some q"
    and contiguous: "h_cap h = 0 \<or> observed_end h - durable_end h = length (h_pending h)"
    and fits: "committed_len (rc_commit q) + length (h_pending h) \<le> 2 * h_cap h"
  shows "outcome K S h w (publish_append K (h, w))"
proof -
  define c where "c = rc_commit q"
  define P where "P = rc_hasher q"
  let ?bank = "DataBank (data_slot c)" and ?hdr = "header_encode K (hdr_of c)" and ?pend = "h_pending h"
  note core = hist_inv_core [OF inv q, folded c_def P_def]
  have good: "commit_good K c" using core(1) by (simp add: stored_def)
  note g = commit_goodD [OF good]
  obtain junk where bank: "disk w ?bank = Regular (?hdr @ P @ junk)" "length P + length junk \<le> 2 * hc_capacity c"
      and P: "length P = committed_len c"
    using core(1) by (auto simp: stored_def bank_holds_def)
  let ?bs = "?hdr @ P @ junk" and ?cp = "HISTORY_BANK_HEADER_BYTES + committed_len c"
  have hl: "length ?hdr = HISTORY_BANK_HEADER_BYTES" by (rule length_header_encode [OF K])
  have cut: "take ?cp ?bs = ?hdr @ P" using hl P by simp
  have cap: "HISTORY_BANK_HEADER_BYTES + 2 * h_cap h \<le> U64_MAX"
    using commit_wf_room [OF good] core(3) by auto
  have steps: "publish_append K (h, w) =
     hbind (if length ?bs \<noteq> ?cp then set_len ?bank ?bs ?cp else hlift (Inr ())) (\<lambda>_.
     hbind (append_file ?bank (?hdr @ P) ?pend) (\<lambda>_.
     publish_tail K (append_commit K h q) (P @ ?pend))) (h, w)"
    using publish_append_steps [OF q, of w ?bs ?cp K] room bank(1) hl P bank(2) core(3) cap fits g
    unfolding cut by (simp add: has_room_def q c_def [symmetric] P_def [symmetric])
  have at: "bank_at K h q (disk w) j d \<longleftrightarrow>
      d = (disk w)(?bank := Regular (?hdr @ P @ j)) \<and> length P + length j \<le> 2 * h_cap h" for j d
    by (simp add: bank_at_def c_def P_def)
  have at0: "bank_at K h q (disk w) junk (disk w)" using bank core(3) by (auto simp: at fun_upd_idem)
  have err: "outcome K S h w (Inl e, h, w')" if "bank_at K h q (disk w) j (disk w')" "faults w \<noteq> []" for e j w'
    by (rule outcome_error [OF _ _ _ refl]) (use bank_at_keeps [OF K inv q that(1)] q that(2) in auto)
  obtain r1 h1 w1 where s1: "(if length ?bs \<noteq> ?cp then set_len ?bank ?bs ?cp else hlift (Inr ())) (h, w) = (r1, h1, w1)"
    by (metis prod.exhaust)
  have c1: "h1 = h" "bank_at K h q (disk w) junk (disk w1) \<or> bank_at K h q (disk w) [] (disk w1)"
      "faults w = [] \<longrightarrow> r1 = Inr () \<and> faults w1 = []"
    using s1 set_len_cases [of ?bank ?bs ?cp h w r1 h1 w1] at0 bank(2) cut
    by (auto simp: hlift_def at split: if_splits)
  obtain r2 h2 w2 where s2: "append_file ?bank (?hdr @ P) ?pend (h, w1) = (r2, h2, w2)"
    by (metis prod.exhaust)
  note c2 = append_file_cases [OF s2]
  have atn: "bank_at K h q (disk w) (take n ?pend) ((disk w1)(?bank := Regular (?hdr @ P @ take n ?pend)))" for n
    using c1(2) fits P by (auto simp: at c_def [symmetric])
  have upd: "\<exists>j. bank_at K h q (disk w) j (disk w2)" if "r2 = Inl e" for e
    using c2 that c1(2) by (auto; blast intro: atn)
  show ?thesis
  proof (cases r1)
    case (Inl e)
    then have "publish_append K (h, w) = (Inl e, h, w1)" using s1 c1(1) by (simp add: steps hbind_def)
    then show ?thesis using err [of _ w1 e] c1 Inl by auto
  next
    case Ok1: (Inr u1)
    show ?thesis
    proof (cases r2)
      case (Inl e)
      then have "publish_append K (h, w) = (Inl e, h, w2)"
        using s1 s2 c1(1) c2 Ok1 by (simp add: steps hbind_def)
      then show ?thesis using err [of _ w2 e] upd [OF Inl] c1(3) c2 Inl by auto
    next
      case (Inr u2)
      then have run: "publish_append K (h, w) = publish_tail K (append_commit K h q) (rc_hasher q @ ?pend) (h, w2)"
        using s1 s2 c1(1) c2 Ok1 by (simp add: steps hbind_def P_def)
      have "disk w2 = (disk w1)(?bank := Regular (?hdr @ P @ take (length ?pend) ?pend))"
        using c2 Inr by auto
      with atn [of "length ?pend"] have aw: "bank_at K h q (disk w) ?pend (disk w2)" by simp
      show ?thesis
        unfolding run
        by (rule append_commit_outcome [OF K inv room q contiguous fits aw]) (use c1(3) c2 in auto)
    qed
  qed
qed

definition compaction_commit :: "hist_codec \<Rightarrow> uuid \<Rightarrow> history \<Rightarrow> history_commit" where
  "compaction_commit K fresh h =
     \<lparr>hc_format_version = HISTORY_FORMAT_VERSION,
      hc_store_id = (case persisted h of None \<Rightarrow> fresh | Some q \<Rightarrow> hc_store_id (rc_commit q)),
      hc_session_id = session_id K,
      commit_generation = (case persisted h of None \<Rightarrow> 1 | Some q \<Rightarrow> commit_generation (rc_commit q) + 1),
      bank_generation = (case persisted h of None \<Rightarrow> 1 | Some q \<Rightarrow> bank_generation (rc_commit q) + 1),
      data_slot = (case persisted h of None \<Rightarrow> 0
        | Some q \<Rightarrow> (data_slot (rc_commit q) + 1) mod HISTORY_BANK_COUNT),
      hc_capacity = h_cap h, committed_len = length (h_bytes h), stream_end = observed_end h,
      data_sha256 = sha256_hex K (h_bytes h), metadata_sha256 = []\<rparr>"

lemma publish_compaction_steps:
  assumes room: "has_room h" and c: "c = compaction_commit K fresh h"
    and node: "disk w (DataBank (data_slot c)) \<noteq> Irregular"
  shows "publish_compaction K fresh (h, w) =
     hbind (atomic_write_bytes (DataBank (data_slot c)) (header_encode K (hdr_of c) @ h_bytes h)) (\<lambda>_.
     publish_tail K c (h_bytes h)) (h, w)"
proof (cases "persisted h")
  case None
  have "next_commit_generation h = Inr 1" using None by (simp add: next_commit_generation_def)
  moreover obtain b where "validate_optional_history_node (disk w (DataBank 0)) = Inr b"
    using validate_node_iff node c None by (auto simp: compaction_commit_def)
  ultimately show ?thesis
    using None by (simp add: publish_compaction_def c compaction_commit_def hdr_of_def publish_tail_def
        Let_def)
next
  case (Some q)
  have "next_commit_generation h = Inr (commit_generation (rc_commit q) + 1)"
      "checked_add U64_MAX (bank_generation (rc_commit q)) 1 = Some (bank_generation (rc_commit q) + 1)"
    using Some room by (simp_all add: next_commit_generation_def has_room_def arith_defs)
  moreover obtain b where
      "validate_optional_history_node (disk w (DataBank ((data_slot (rc_commit q) + 1) mod HISTORY_BANK_COUNT))) = Inr b"
    using validate_node_iff node c Some by (auto simp: compaction_commit_def)
  ultimately show ?thesis
    using Some by (simp add: publish_compaction_def c compaction_commit_def hdr_of_def publish_tail_def
        Let_def del: checked_add_Some)
qed

lemma compaction_commit_fields:
  assumes K: "codec_ok K" and inv: "hist_inv K S h d" and room: "has_room h"
    and fresh: "fresh < 256 ^ 16" "fresh \<noteq> 0"
  shows "commit_fields_ok K (compaction_commit K fresh h)" "hc_store_id (compaction_commit K fresh h) \<noteq> 0"
proof -
  have r: "ring_inv S h" using inv by (simp add: hist_inv_def)
  have store: "hc_store_id (rc_commit q) < 256 ^ 16" "hc_store_id (rc_commit q) \<noteq> 0"
    if "persisted h = Some q" for q
    using hist_inv_core [OF inv that] commit_goodD(8) by (auto simp: stored_def commit_wf_def)
  show "commit_fields_ok K (compaction_commit K fresh h)"
    using r room fresh store sha256_hex_checksum [OF K]
    by (auto simp: commit_fields_ok_def compaction_commit_def ring_inv_def has_room_def size_consts
        split: option.splits)
  show "hc_store_id (compaction_commit K fresh h) \<noteq> 0"
    using fresh store by (auto simp: compaction_commit_def split: option.splits)
qed

lemma compaction_marker:
  assumes inv: "hist_inv K S h d" and d': "d' MarkerFile = d MarkerFile"
  shows "marker_ok K d' (commit_seal K (compaction_commit K fresh h))"
proof (cases "persisted h")
  case None
  with inv d' have "read_history_marker K d' = Inr None"
    by (simp add: hist_inv_def read_history_marker_def open_optional_history_file_def)
  then show ?thesis by (simp add: marker_ok_def marker_fits_def)
next
  case (Some q)
  note core = hist_inv_core [OF inv Some]
  have ids: "hc_store_id (rc_commit q) = hc_store_id (commit_seal K (compaction_commit K fresh h))"
      "hc_session_id (rc_commit q) = hc_session_id (commit_seal K (compaction_commit K fresh h))"
    using core(1) Some commit_goodD(5) by (auto simp: compaction_commit_def stored_def)
  show ?thesis by (rule iffD1 [OF marker_ok_cong [of "rc_commit q" _ d d', OF ids d' [symmetric]] core(2)])
qed

lemma publish_compaction_outcome:
  assumes K: "codec_ok K" and inv: "hist_inv K S h (disk w)" and room: "has_room h"
    and fresh: "fresh < 256 ^ 16" "fresh \<noteq> 0"
  shows "outcome K S h w (publish_compaction K fresh (h, w))"
proof -
  define c where "c = compaction_commit K fresh h"
  let ?bank = "DataBank (data_slot c)" and ?bs = "header_encode K (hdr_of c) @ h_bytes h"
  let ?d = "(disk w)(?bank := Regular ?bs)"
  have ring: "ring_inv S h" and files: "validate_history_artifacts (disk w) = Inr ()"
    using inv by (auto simp: hist_inv_def)
  have len: "length (h_bytes h) \<le> h_cap h" "h_cap h \<le> MAX_HISTORY_BYTES" using ring by (auto simp: ring_inv_def)
  have "data_slot c < 2"
    by (auto simp: c_def compaction_commit_def HISTORY_BANK_COUNT_def split: option.splits)
  then have node: "disk w ?bank \<noteq> Irregular" using files by (auto simp: artifacts_iff bank_fits_def less_2_cases_iff)
  have other: "data_slot (rc_commit q) \<noteq> data_slot c" if "persisted h = Some q" for q
  proof -
    have "data_slot (rc_commit q) < 2" using hist_inv_core(1) [OF inv that] commit_goodD(1) by (auto simp: stored_def)
    then show ?thesis using that by (auto simp: c_def compaction_commit_def HISTORY_BANK_COUNT_def less_2_cases_iff)
  qed
  have keeps: "validate_history_artifacts d = Inr ()"
      "\<And>q. persisted h = Some q \<Longrightarrow> stored K d (rc_commit q) (rc_hasher q) \<and> marker_ok K d (rc_commit q)"
      "marker_published h \<longrightarrow> read_history_marker K d \<noteq> Inr None"
      "\<And>i. d (CommitFile i) = disk w (CommitFile i)" "d MarkerFile = disk w MarkerFile"
    if d: "d = disk w \<or> d = ?d" for d
  proof -
    show "validate_history_artifacts d = Inr ()"
      using d files artifacts_upd [OF files, of ?bank ?bs] len length_header_encode [OF K] by auto
    show f: "d MarkerFile = disk w MarkerFile" "\<And>i. d (CommitFile i) = disk w (CommitFile i)" using d by auto
    show "marker_published h \<longrightarrow> read_history_marker K d \<noteq> Inr None"
      using hist_inv_marker [OF inv] read_history_marker_cong [of d "disk w" K] f by simp
    fix q assume q: "persisted h = Some q"
    have "d (DataBank (data_slot (rc_commit q))) = disk w (DataBank (data_slot (rc_commit q)))"
      using d other [OF q] by auto
    then show "stored K d (rc_commit q) (rc_hasher q) \<and> marker_ok K d (rc_commit q)"
      using hist_inv_core(1,2) [OF inv q] f stored_cong [of d "rc_commit q" "disk w" K]
        marker_ok_cong [of "rc_commit q" "rc_commit q" d "disk w" K] by blast
  qed
  obtain r1 h1 w1 where aw: "atomic_write_bytes ?bank ?bs (h, w) = (r1, h1, w1)" by (metis prod.exhaust)
  note ac = atomic_write_cases [OF aw]
  have d1: "disk w1 = disk w \<or> disk w1 = ?d" using ac by auto
  note steps = publish_compaction_steps [OF room c_def node]
  show ?thesis
  proof (cases r1)
    case (Inl e)
    then have "publish_compaction K fresh (h, w) = (Inl e, h, w1)" using aw ac by (simp add: steps hbind_def)
    moreover have "outcome K S h w (Inl e, h, w1)"
      by (rule outcome_error [OF _ _ _ refl]) (use keeps [OF d1] ac Inl in auto)
    ultimately show ?thesis by simp
  next
    case (Inr u)
    then have run: "publish_compaction K fresh (h, w) = publish_tail K c (h_bytes h) (h, w1)"
      using aw ac by (simp add: steps hbind_def)
    have dw: "disk w1 = ?d" using ac Inr by auto
    note cf = compaction_commit_fields [OF K inv room fresh, folded c_def]
    show ?thesis
      unfolding run
    proof (rule publish_tail_outcome [OF K ring cf])
      show "bank_holds K (disk w1) (commit_seal K c) (h_bytes h)"
        using len by (simp add: bank_holds_def dw hdr_of_def) (simp add: c_def compaction_commit_def)
      show "covers (h_cap h) (h_bytes h) S" using ring covers_ring by (simp add: ring_inv_def)
      show "marker_ok K (disk w1) (commit_seal K c)"
        unfolding c_def by (rule compaction_marker [OF inv]) (simp add: dw)
      show "follows h c" "hc_capacity c = h_cap h" "stream_end c = length S"
        using ring by (auto simp: follows_def c_def compaction_commit_def ring_inv_def split: option.splits)
    qed (use keeps [OF d1] ac in auto)
  qed
qed

section \<open>Flushing\<close>

lemma legacy_only_inv:
  assumes lo: "legacy_only (h, w) (h', w')" and inv: "hist_inv K S h (disk w)"
  shows "hist_inv K S h' (disk w')" "persisted h' = persisted h" "h_dirty h' = h_dirty h"
    "h_bytes h' = h_bytes h" "h_cap h' = h_cap h" "durable_end h' = durable_end h"
    "\<And>i. disk w' (CommitFile i) = disk w (CommitFile i)" "disk w' MarkerFile = disk w MarkerFile"
    "faults w = [] \<longrightarrow> faults w' = []"
proof -
  obtain a b k where h': "h' = h\<lparr>compatibility_end := a, compatibility_len := b, compatibility_known := k\<rparr>"
      and a: "a = compatibility_end h \<or> a = observed_end h"
    using lo by (auto simp: legacy_only_def)
  have f: "disk w' f = disk w f" if "f \<noteq> Legacy" for f using lo that by (simp add: legacy_only_def)
  have l: "disk w Legacy \<noteq> Irregular \<longrightarrow> disk w' Legacy \<noteq> Irregular"
    and flt: "faults w = [] \<longrightarrow> faults w' = []" using lo by (simp_all add: legacy_only_def)
  have files: "validate_history_artifacts (disk w') = Inr ()"
    using inv f l by (auto simp: hist_inv_def artifacts_iff)
  have ring: "ring_inv S h'" using inv a h' by (auto simp: hist_inv_def ring_inv_def)
  have mk: "read_history_marker K (disk w') = read_history_marker K (disk w)"
    by (rule read_history_marker_cong) (simp add: f)
  have "persisted_ok K S h' (disk w') q" if "persisted_ok K S h (disk w) q" for q
    using that mk stored_cong [of "disk w'" "rc_commit q" "disk w" K] f
    by (simp add: persisted_ok_def marker_ok_def h')
  then show "hist_inv K S h' (disk w')"
    using inv files ring f by (auto simp: hist_inv_def h' split: option.splits)
  show "persisted h' = persisted h" "h_dirty h' = h_dirty h" "h_bytes h' = h_bytes h"
    "h_cap h' = h_cap h" "durable_end h' = durable_end h" by (simp_all add: h')
  show "\<And>i. disk w' (CommitFile i) = disk w (CommitFile i)" "disk w' MarkerFile = disk w MarkerFile"
    "faults w = [] \<longrightarrow> faults w' = []" using f flt by auto
qed

lemma flush_outcome:
  assumes K: "codec_ok K" and inv: "hist_inv K S h (disk w)" and room: "has_room h"
    and fresh: "fresh < 256 ^ 16" "fresh \<noteq> 0" and dirty: "h_dirty h"
  shows "\<exists>h1 w1. legacy_only (h, w) (h1, w1) \<and>
     (faults w \<noteq> [] \<and> (\<exists>e. hist_flush K fresh (h, w) = (Inl e, h1, w1)) \<or>
      outcome K S h1 w1 (hist_flush K fresh (h, w)))"
proof -
  obtain r1 h1 w1 where fl: "flush_legacy_compatibility (h, w) = (r1, h1, w1)" by (metis prod.exhaust)
  note fc = flush_legacy_cases [OF fl]
  have ring: "ring_inv S h" and files: "validate_history_artifacts (disk w) = Inr ()"
    using inv by (auto simp: hist_inv_def)
  have lo: "legacy_only (h, w) (h1, w1)" using fc by simp
  note keep = legacy_only_inv [OF lo inv]
  show ?thesis
  proof (cases r1)
    case (Inl e)
    then have "faults w \<noteq> []" using fc ring files by (auto simp: ring_inv_def artifacts_iff)
    then show ?thesis using lo fl Inl dirty by (auto simp: hist_flush_def hbind_def)
  next
    case (Inr u)
    have room1: "has_room h1" using room keep(2) by (simp add: has_room_def)
    note comp = publish_compaction_outcome [OF K keep(1) room1 fresh]
    have "outcome K S h1 w1 (hist_flush K fresh (h, w))"
    proof (cases "persisted h1")
      case None
      then show ?thesis using comp fl Inr dirty by (simp add: hist_flush_def hbind_def)
    next
      case (Some q)
      note core = hist_inv_core [OF keep(1) Some]
      have ring1: "ring_inv S h1" using keep(1) by (simp add: hist_inv_def)
      have good: "commit_good K (rc_commit q)" using core(1) by (simp add: stored_def)
      have bounds: "h_cap h1 \<le> MAX_HISTORY_BYTES" "committed_len (rc_commit q) \<le> 2 * h_cap h1"
          "length (h_pending h1) \<le> h_cap h1"
        using ring1 commit_goodD(3) [OF good] core(3) by (auto simp: ring_inv_def)
      then have "committed_len (rc_commit q) + length (h_pending h1) \<le> U64_MAX"
          and sat: "sat_mul U64_MAX (h_cap h1) 2 = 2 * h_cap h1"
        by (simp_all add: size_consts arith_defs)
      then have "checked_add U64_MAX (committed_len (rc_commit q)) (length (h_pending h1)) =
          Some (committed_len (rc_commit q) + length (h_pending h1))"
        and "checked_sub (observed_end h1) (durable_end h1) = Some (observed_end h1 - durable_end h1)"
        using ring1 by (simp_all add: ring_inv_def)
      then have "hist_flush K fresh (h, w) =
         (if \<not> (h_cap h1 = 0 \<or> observed_end h1 - durable_end h1 = length (h_pending h1)) \<or>
             2 * h_cap h1 < committed_len (rc_commit q) + length (h_pending h1)
          then publish_compaction K fresh (h1, w1) else publish_append K (h1, w1))"
        using fl Inr dirty Some sat by (simp add: hist_flush_def hbind_def Let_def
            del: checked_add_Some checked_sub_Some)
      then show ?thesis
        using comp publish_append_outcome [OF K keep(1) room1 Some] by (auto simp: not_less)
    qed
    with lo show ?thesis by blast
  qed
qed

lemma published_recovers:
  assumes K: "codec_ok K" and files: "validate_history_artifacts d = Inr ()" and pub: "published K S h d"
    and old: "\<And>q. persisted h = Some q \<Longrightarrow> stored K d (rc_commit q) (rc_hasher q)"
    and first: "persisted h = None \<Longrightarrow> d (CommitFile 0) = Absent"
  shows "\<exists>rc b. recover_v2_history K d limit = Inr (Some rc, b) \<and>
     rc_tail rc = lastn (min limit (h_cap h)) S \<and> stream_end (rc_commit rc) = length S"
proof -
  obtain c P where st: "stored K d c P" and c: "hc_capacity c = h_cap h" "stream_end c = length S"
      and cov: "covers (h_cap h) P S" and m: "marker_ok K d c"
      and gen: "case persisted h of None \<Rightarrow> commit_generation c = 1
        | Some q \<Rightarrow> commit_generation c = commit_generation (rc_commit q) + 1 \<and>
            hc_store_id c = hc_store_id (rc_commit q)"
    using pub by (auto simp: published_def)
  have "superseded K d c"
  proof (cases "persisted h")
    case None
    with gen first have "commit_generation c = 1" "d (CommitFile 0) = Absent" by auto
    then show ?thesis
      by (simp add: superseded_def HISTORY_COMMIT_COUNT_def read_history_commit_def
          open_optional_history_file_def)
  next
    case (Some q)
    with gen have g: "commit_generation c = commit_generation (rc_commit q) + 1"
        "hc_store_id c = hc_store_id (rc_commit q)" by auto
    have "(commit_generation c + 1) mod HISTORY_COMMIT_COUNT =
        commit_generation (rc_commit q) mod HISTORY_COMMIT_COUNT"
      using g(1) by (simp add: HISTORY_COMMIT_COUNT_def)
    with read_stored [OF K old [OF Some]] g show ?thesis by (simp add: superseded_def)
  qed
  with st m files have "holds K d c P" by (simp add: holds_def)
  from recover_holds [OF K this, of limit] c cov show ?thesis by (auto simp: covers_lastn)
qed

lemma old_recovers:
  assumes K: "codec_ok K" and inv: "hist_inv K S h d0" and q: "persisted h = Some q"
    and files: "validate_history_artifacts d = Inr ()"
    and st: "stored K d (rc_commit q) (rc_hasher q)" and m: "marker_ok K d (rc_commit q)"
    and older: "superseded K d0 (rc_commit q)" and same: "\<And>i. d (CommitFile i) = d0 (CommitFile i)"
  shows "\<exists>rc b. recover_v2_history K d limit = Inr (Some rc, b) \<and>
     rc_tail rc = lastn (min limit (h_cap h)) (take (durable_end h) S) \<and>
     stream_end (rc_commit rc) = durable_end h"
proof -
  note core = hist_inv_core [OF inv q]
  have "superseded K d (rc_commit q)"
    using older read_history_commit_cong [of d _ d0 K] same by (simp add: superseded_def)
  with files st m have "holds K d (rc_commit q) (rc_hasher q)" by (simp add: holds_def)
  from recover_holds [OF K this, of limit] core(3,4) show ?thesis
    using covers_lastn [OF core(5)] by auto
qed

lemma read_persisted_of_recover:
  assumes "\<And>limit. \<exists>rc b. recover_v2_history K d limit = Inr (Some rc, b) \<and> rc_tail rc = lastn (min limit cap) S"
    and "cap \<le> MAX_HISTORY_BYTES"
  shows "read_persisted_history_tail K d (Some n) = Inr (lastn (min n cap) S)"
proof -
  obtain rc b where "recover_v2_history K d (min n MAX_FRAME_BYTES) = Inr (Some rc, b)"
      "rc_tail rc = lastn (min (min n MAX_FRAME_BYTES) cap) S" using assms(1) by metis
  moreover have "min (min n MAX_FRAME_BYTES) cap = min n cap"
    using assms(2) by (auto simp: MAX_HISTORY_BYTES_def)
  ultimately show ?thesis by (simp add: read_persisted_history_tail_def)
qed

lemma snapshot_lastn: "hist_snapshot (Some n) h = lastn n (h_bytes h)"
  by (cases "n \<le> length (h_bytes h)") (simp_all add: hist_snapshot_def Let_def lastn_def)

lemma flush_ok:
  assumes K: "codec_ok K" and inv: "hist_inv K S h (disk w)" and room: "has_room h"
    and fresh: "fresh < 256 ^ 16" "fresh \<noteq> 0" and dirty: "h_dirty h" and flt: "faults w = []"
  shows "\<exists>h' w'. hist_flush K fresh (h, w) = (Inr (), h', w') \<and> hist_inv K S h' (disk w') \<and>
     read_persisted_history_tail K (disk w') (Some n) = Inr (hist_snapshot (Some n) h)"
proof -
  obtain h1 w1 where lo: "legacy_only (h, w) (h1, w1)" and out: "outcome K S h1 w1 (hist_flush K fresh (h, w))"
    using flush_outcome [OF K inv room fresh dirty] flt by auto
  note keep = legacy_only_inv [OF lo inv]
  obtain r h' w' where res: "hist_flush K fresh (h, w) = (r, h', w')" by (metis prod.exhaust)
  have ok: "r = Inr ()" using out keep(9) flt by (auto simp: outcome_def res split: sum.splits)
  then have o: "validate_history_artifacts (disk w') = Inr ()" "published K S h1 (disk w')" "hist_inv K S h' (disk w')"
      "\<And>q. persisted h1 = Some q \<Longrightarrow> stored K (disk w') (rc_commit q) (rc_hasher q)"
      "persisted h1 = None \<Longrightarrow> disk w' (CommitFile 0) = disk w1 (CommitFile 0)"
    using out by (auto simp: outcome_def res)
  have "disk w1 (CommitFile 0) = Absent" if "persisted h1 = None"
    using keep(1) that by (simp add: hist_inv_def)
  with o have rec: "\<exists>rc b. recover_v2_history K (disk w') limit = Inr (Some rc, b) \<and>
      rc_tail rc = lastn (min limit (h_cap h1)) S" for limit
    using published_recovers [OF K o(1,2), of limit] by metis
  have ring: "ring_inv S h" using inv by (simp add: hist_inv_def)
  then have "read_persisted_history_tail K (disk w') (Some n) = Inr (lastn (min n (h_cap h)) S)"
    using read_persisted_of_recover [OF rec] keep(5) by (simp add: ring_inv_def)
  then show ?thesis using ok o(3) res ring by (simp add: snapshot_lastn ring_inv_def)
qed

end
