(* ===== verification/History_Recovery.thy ===== *)
theory History_Recovery
  imports History_Durability
begin

text \<open>
  The end-to-end properties of the durable history: a flush makes the ring readable from
  disk, an interrupted flush loses at most what was not yet durable, and a failed flush can
  be retried. The one exception is a first flush whose marker is renamed into place but
  reported as failed.
\<close>

section \<open>A codec and a store that satisfy the hypotheses\<close>

definition plain_commit :: "history_commit \<Rightarrow> bytes" where
  "plain_commit c = le_bytes 4 (hc_format_version c) @ be_bytes 16 (hc_store_id c) @
     be_bytes 16 (hc_session_id c) @ le_bytes 8 (commit_generation c) @ le_bytes 8 (bank_generation c) @
     le_bytes 1 (data_slot c) @ le_bytes 8 (hc_capacity c) @ le_bytes 8 (committed_len c) @
     le_bytes 8 (stream_end c) @ data_sha256 c @ metadata_sha256 c"

definition plain_commit_parse :: "bytes \<Rightarrow> history_commit option" where
  "plain_commit_parse bs = Some
     \<lparr>hc_format_version = le_value (slice 0 4 bs), hc_store_id = be_value (slice 4 20 bs),
      hc_session_id = be_value (slice 20 36 bs), commit_generation = le_value (slice 36 44 bs),
      bank_generation = le_value (slice 44 52 bs), data_slot = le_value (slice 52 53 bs),
      hc_capacity = le_value (slice 53 61 bs), committed_len = le_value (slice 61 69 bs),
      stream_end = le_value (slice 69 77 bs), data_sha256 = slice 77 141 bs,
      metadata_sha256 = slice 141 205 bs\<rparr>"

definition plain_marker :: "history_marker \<Rightarrow> bytes" where
  "plain_marker m = le_bytes 4 (hm_format_version m) @ be_bytes 16 (hm_store_id m) @
     be_bytes 16 (hm_session_id m) @ hm_metadata_sha256 m"

definition plain_marker_parse :: "bytes \<Rightarrow> history_marker option" where
  "plain_marker_parse bs = Some
     \<lparr>hm_format_version = le_value (slice 0 4 bs), hm_store_id = be_value (slice 4 20 bs),
      hm_session_id = be_value (slice 20 36 bs), hm_metadata_sha256 = slice 36 100 bs\<rparr>"

definition plain_codec :: hist_codec where
  "plain_codec = \<lparr>sha256 = (\<lambda>_. replicate 32 0), commit_json = plain_commit,
     commit_pretty = plain_commit, commit_parse = plain_commit_parse, marker_json = plain_marker,
     marker_pretty = plain_marker, marker_parse = plain_marker_parse, session_id = 5\<rparr>"

lemma fits_width:
  "n < 256 ^ k \<Longrightarrow> le_value (le_bytes k n) = n" "n < 256 ^ k \<Longrightarrow> be_value (be_bytes k n) = n"
  by (simp_all add: le_value_le_bytes be_value_be_bytes)

lemma plain_commit_roundtrip:
  assumes "commit_wf c"
  shows "plain_commit_parse (plain_commit c @ xs) = Some c"
proof -
  have w: "hc_format_version c < 256 ^ 4" "hc_store_id c < 256 ^ 16" "hc_session_id c < 256 ^ 16"
      "commit_generation c < 256 ^ 8" "bank_generation c < 256 ^ 8" "data_slot c < 256 ^ 1"
      "hc_capacity c < 256 ^ 8" "committed_len c < 256 ^ 8" "stream_end c < 256 ^ 8"
    using assms by (simp_all add: commit_wf_def size_consts)
  have l: "length (data_sha256 c) = 64" "length (metadata_sha256 c) = 64"
    using assms by (simp_all add: commit_wf_def is_checksum_def)
  show ?thesis
    using w(6) unat_of_nat [of "data_slot c", where 'a = 8] unfolding plain_commit_parse_def plain_commit_def append_assoc
    by (simp only: slice_append length_le_bytes length_be_bytes l)
      (simp add: slice_def fits_width [OF w(1)] fits_width [OF w(2)] fits_width [OF w(3)]
        fits_width [OF w(4)] fits_width [OF w(5)] fits_width [OF w(6)] fits_width [OF w(7)]
        fits_width [OF w(8)] fits_width [OF w(9)] l)
qed

lemma plain_marker_roundtrip:
  assumes "marker_wf m"
  shows "plain_marker_parse (plain_marker m @ xs) = Some m"
proof -
  have w: "hm_format_version m < 256 ^ 4" "hm_store_id m < 256 ^ 16" "hm_session_id m < 256 ^ 16"
    using assms by (simp_all add: marker_wf_def size_consts)
  have l: "length (hm_metadata_sha256 m) = 64" using assms by (simp add: marker_wf_def is_checksum_def)
  show ?thesis
    unfolding plain_marker_parse_def plain_marker_def append_assoc
    by (simp only: slice_append length_le_bytes length_be_bytes l)
      (simp add: slice_def fits_width [OF w(1)] fits_width [OF w(2)] fits_width [OF w(3)] l)
qed

lemma plain_codec_ok: "codec_ok plain_codec"
  unfolding codec_ok_def
proof (intro conjI allI impI)
  fix c assume "commit_wf c"
  then have "length (data_sha256 c) = 64" "length (metadata_sha256 c) = 64"
    by (simp_all add: commit_wf_def is_checksum_def)
  then show "length (commit_json plain_codec c) \<le> HISTORY_COMMIT_MAX_BYTES"
      "length (commit_pretty plain_codec c) < HISTORY_COMMIT_MAX_BYTES"
    by (simp_all add: plain_codec_def plain_commit_def size_consts)
next
  fix m assume "marker_wf m"
  then have "length (hm_metadata_sha256 m) = 64" by (simp add: marker_wf_def is_checksum_def)
  then show "length (marker_json plain_codec m) \<le> HISTORY_MARKER_MAX_BYTES"
      "length (marker_pretty plain_codec m) < HISTORY_MARKER_MAX_BYTES"
    by (simp_all add: plain_codec_def plain_marker_def size_consts)
qed (simp_all add: plain_codec_def plain_commit_roundtrip plain_marker_roundtrip)

text \<open>A history that has committed three bytes and then seen two more.\<close>

definition sample_commit :: history_commit where
  "sample_commit = commit_seal plain_codec
     \<lparr>hc_format_version = HISTORY_FORMAT_VERSION, hc_store_id = 9, hc_session_id = 5,
      commit_generation = 1, bank_generation = 1, data_slot = 0, hc_capacity = 4, committed_len = 3,
      stream_end = 3, data_sha256 = sha256_hex plain_codec [1, 2, 3], metadata_sha256 = []\<rparr>"

definition sample_disk :: "hfile \<Rightarrow> node" where
  "sample_disk = (\<lambda>_. Absent)(DataBank 0 := Regular (header_encode plain_codec (hdr_of sample_commit) @ [1, 2, 3]),
     CommitFile 1 := Regular (commit_pretty plain_codec sample_commit @ [0x0A]),
     MarkerFile := Regular (marker_pretty plain_codec (new_marker plain_codec sample_commit) @ [0x0A]))"

definition sample_history :: history where
  "sample_history = \<lparr>h_cap = 4, h_bytes = [2, 3, 4, 5], h_pending = [4, 5], h_dirty = True,
     observed_end = 5, durable_end = 3, compatibility_end = 0, compatibility_len = 0,
     compatibility_known = False,
     persisted = Some \<lparr>rc_commit = sample_commit, rc_tail = [], rc_hasher = [1, 2, 3]\<rparr>,
     marker_published = True\<rparr>"

lemma sample_commit_fields [simp]:
  "commit_generation sample_commit = 1" "bank_generation sample_commit = 1" "data_slot sample_commit = 0"
  "hc_store_id sample_commit = 9" "hc_session_id sample_commit = 5" "hc_capacity sample_commit = 4"
  "committed_len sample_commit = 3" "stream_end sample_commit = 3"
  "data_sha256 sample_commit = sha256_hex plain_codec [1, 2, 3]"
  by (simp_all add: sample_commit_def)

lemma sample_history_fields [simp]:
  "h_cap sample_history = 4" "h_bytes sample_history = [2, 3, 4, 5]" "h_dirty sample_history"
  "durable_end sample_history = 3" "persisted sample_history \<noteq> None"
  by (simp_all add: sample_history_def)

lemma sample_inv: "hist_inv plain_codec [1, 2, 3, 4, 5] sample_history sample_disk"
proof -
  have sid: "session_id plain_codec = 5" by (simp add: plain_codec_def)
  have good: "commit_good plain_codec sample_commit"
    unfolding sample_commit_def using sha256_hex_checksum [OF plain_codec_ok]
    by (intro commit_seal_good [OF plain_codec_ok]) (simp add: commit_fields_ok_def sid size_consts)
  have st: "stored plain_codec sample_disk sample_commit [1, 2, 3]"
    using good by (simp add: stored_def bank_holds_def sample_disk_def HISTORY_COMMIT_COUNT_def)
  have m: "read_history_marker plain_codec sample_disk = Inr (Some (new_marker plain_codec sample_commit)) \<and>
      marker_fits (Some (new_marker plain_codec sample_commit)) sample_commit"
    by (rule read_new_marker [OF plain_codec_ok]) (simp_all add: sid sample_disk_def)
  have files: "validate_history_artifacts sample_disk = Inr ()"
    using length_header_encode [OF plain_codec_ok]
    by (simp add: artifacts_iff sample_disk_def bank_fits_def size_consts)
  show ?thesis
    using st m files
    by (simp add: hist_inv_def persisted_ok_def sample_history_def ring_inv_def covers_def marker_ok_def
        size_consts lastn_def)
qed

definition sample_flushed :: history where
  "sample_flushed = sample_history\<lparr>h_bytes := [1, 2, 3], h_pending := [], h_dirty := False,
     observed_end := 3\<rparr>"

lemma sample_flushed_inv: "hist_inv plain_codec [1, 2, 3] sample_flushed sample_disk"
  using sample_inv
  by (simp add: hist_inv_def persisted_ok_def sample_flushed_def sample_history_def ring_inv_def
      covers_def size_consts lastn_def)

lemma sample_room: "has_room sample_history"
  by (simp add: has_room_def sample_history_def size_consts)

section \<open>Durability\<close>

text \<open>
  C4: a flush without write faults succeeds, keeps the invariant, and what a later process
  reads from the disk, for every requested length, is exactly the in-memory snapshot.
\<close>

theorem flush_durable:
  assumes "codec_ok K" and "hist_inv K S h (disk w)" and "has_room h"
    and "fresh < 256 ^ 16" and "fresh \<noteq> 0" and "h_dirty h" and "faults w = []"
  shows "\<exists>h' w'. hist_flush K fresh (h, w) = (Inr (), h', w') \<and> hist_inv K S h' (disk w') \<and>
     read_persisted_history_tail K (disk w') (Some n) = Inr (hist_snapshot (Some n) h)"
  by (rule flush_ok [OF assms])

theorem flush_durable_witness:
  "\<exists>h' w'. hist_flush plain_codec 7 (sample_history, \<lparr>disk = sample_disk, faults = []\<rparr>) = (Inr (), h', w') \<and>
     hist_inv plain_codec [1, 2, 3, 4, 5] h' (disk w') \<and>
     read_persisted_history_tail plain_codec (disk w') (Some 3) = Inr [3, 4, 5]"
  using flush_durable [of plain_codec "[1, 2, 3, 4, 5]" sample_history "\<lparr>disk = sample_disk, faults = []\<rparr>" 7 3]
    plain_codec_ok sample_inv sample_room
  by (simp add: hist_snapshot_def)

section \<open>Crash safety\<close>

text \<open>The other commit slot holds nothing newer than the current commit.\<close>

definition no_newer :: "hist_codec \<Rightarrow> history \<Rightarrow> (hfile \<Rightarrow> node) \<Rightarrow> bool" where
  "no_newer K h d = (case persisted h of None \<Rightarrow> d (CommitFile 1) = Absent
     | Some q \<Rightarrow> superseded K d (rc_commit q))"

definition recovers_to ::
    "hist_codec \<Rightarrow> (hfile \<Rightarrow> node) \<Rightarrow> nat \<Rightarrow> bytes \<Rightarrow> nat \<Rightarrow> bool" where
  "recovers_to K d limit tail pos = (case recover_v2_history K d limit of
       Inr (Some r, _) \<Rightarrow> rc_tail r = tail \<and> stream_end (rc_commit r) = pos
     | _ \<Rightarrow> False)"

lemma recover_empty:
  assumes "validate_history_artifacts d = Inr ()" "d MarkerFile = Absent"
    "d (CommitFile 0) = Absent" "d (CommitFile 1) = Absent"
  shows "recover_v2_history K d limit = Inr (None, False)"
  using assms
  by (simp add: recover_v2_history_def slots scan_commit_slot_def read_history_commit_def
      read_history_marker_def open_optional_history_file_def)

lemma unchanged_recovers:
  assumes K: "codec_ok K" and inv: "hist_inv K S h d0" and newer: "no_newer K h d0"
    and files: "validate_history_artifacts d = Inr ()"
    and old: "\<And>q. persisted h = Some q \<Longrightarrow> stored K d (rc_commit q) (rc_hasher q) \<and> marker_ok K d (rc_commit q)"
    and same: "\<And>i. d (CommitFile i) = d0 (CommitFile i)" "d MarkerFile = d0 MarkerFile"
  shows "if persisted h = None then recover_v2_history K d limit = Inr (None, False)
     else recovers_to K d limit (lastn (min limit (h_cap h)) (take (durable_end h) S)) (durable_end h)"
proof (cases "persisted h")
  case None
  with inv newer have "d0 MarkerFile = Absent" "d0 (CommitFile 0) = Absent" "d0 (CommitFile 1) = Absent"
    by (simp_all add: hist_inv_def no_newer_def)
  with None show ?thesis using recover_empty [OF files] same by simp
next
  case (Some q)
  with newer have "superseded K d0 (rc_commit q)" by (simp add: no_newer_def)
  with old_recovers [OF K inv Some files _ _ this same(1), of limit] old [OF Some] Some
  show ?thesis by (auto simp: recovers_to_def)
qed

text \<open>
  C3: crash safety. Whatever write of the flush fails, tears or is the last one before a
  crash, recovery from the disk it leaves returns the previously durable tail (or an empty
  store, for a history never flushed before) or the complete new one, and the new one
  whenever the flush reported success.
\<close>

theorem flush_crash_safe:
  assumes "codec_ok K" and "hist_inv K S h (disk w)" and "no_newer K h (disk w)" and "has_room h"
    and "fresh < 256 ^ 16" and "fresh \<noteq> 0" and "h_dirty h"
  shows "case hist_flush K fresh (h, w) of (r, h', w') \<Rightarrow>
     recovers_to K (disk w') limit (lastn (min limit (h_cap h)) S) (length S) \<or>
     r \<noteq> Inr () \<and> (if persisted h = None then recover_v2_history K (disk w') limit = Inr (None, False)
       else recovers_to K (disk w') limit (lastn (min limit (h_cap h)) (take (durable_end h) S)) (durable_end h))"
proof -
  obtain h1 w1 where lo: "legacy_only (h, w) (h1, w1)"
      and alt: "(\<exists>e. hist_flush K fresh (h, w) = (Inl e, h1, w1)) \<or> outcome K S h1 w1 (hist_flush K fresh (h, w))"
    using flush_outcome [OF assms(1,2,4-7)] by blast
  note keep = legacy_only_inv [OF lo assms(2)]
  obtain r h' w' where res: "hist_flush K fresh (h, w) = (r, h', w')" by (metis prod.exhaust)
  have newer: "no_newer K h1 (disk w1)"
    using assms(3) keep(2,7) read_history_commit_cong [of "disk w1" _ "disk w" K]
    by (cases "persisted h") (simp_all add: no_newer_def superseded_def)
  have old: "stored K (disk w1) (rc_commit q) (rc_hasher q) \<and> marker_ok K (disk w1) (rc_commit q)"
    if "persisted h1 = Some q" for q using hist_inv_core(1,2) [OF keep(1) that] by simp
  have files1: "validate_history_artifacts (disk w1) = Inr ()" using keep(1) by (simp add: hist_inv_def)
  show ?thesis
  proof (cases "\<exists>e. hist_flush K fresh (h, w) = (Inl e, h1, w1)")
    case True
    then show ?thesis
      using unchanged_recovers [OF assms(1) keep(1) newer files1 old refl refl, of limit] keep by auto
  next
    case False
    with alt res have out: "outcome K S h1 w1 (r, h', w')" by auto
    have files: "validate_history_artifacts (disk w') = Inr ()"
      and old': "\<And>q. persisted h1 = Some q \<Longrightarrow> stored K (disk w') (rc_commit q) (rc_hasher q) \<and> marker_ok K (disk w') (rc_commit q)"
      and first: "persisted h1 = None \<Longrightarrow> disk w' (CommitFile 0) = Absent"
      using out keep(1) by (auto simp: outcome_def hist_inv_def)
    have new: "recovers_to K (disk w') limit (lastn (min limit (h_cap h)) S) (length S)"
      if "published K S h1 (disk w')"
      using published_recovers [OF assms(1) files that _ first, of limit] old' keep(5)
      by (auto simp: recovers_to_def)
    have same: "\<And>i. disk w' (CommitFile i) = disk w1 (CommitFile i)" "disk w' MarkerFile = disk w1 MarkerFile"
        "r \<noteq> Inr ()" if "\<not> published K S h1 (disk w')"
      using out that by (auto simp: outcome_def split: sum.splits)
    show ?thesis
    proof (cases "published K S h1 (disk w')")
      case True
      then show ?thesis using new by (simp add: res)
    next
      case False
      note s = same [OF False]
      from unchanged_recovers [OF assms(1) keep(1) newer files old' s(1,2), of limit] s(3) keep(2,5,6)
      show ?thesis by (auto simp: res split: if_splits)
    qed
  qed
qed

lemma sample_no_newer: "no_newer plain_codec sample_history sample_disk"
  by (simp add: no_newer_def sample_history_def superseded_def read_history_commit_def sample_disk_def
      open_optional_history_file_def HISTORY_COMMIT_COUNT_def)

theorem flush_crash_safe_witness:
  "case hist_flush plain_codec 7 (sample_history, \<lparr>disk = sample_disk, faults = [NoFault, Torn 2]\<rparr>) of (r, h', w') \<Rightarrow>
     recovers_to plain_codec (disk w') 2 [4, 5] (length [1, 2, 3, 4, 5 :: byte]) \<or>
     r \<noteq> Inr () \<and> recovers_to plain_codec (disk w') 2 [2, 3] 3"
  using flush_crash_safe [of plain_codec "[1, 2, 3, 4, 5]" sample_history
      "\<lparr>disk = sample_disk, faults = [NoFault, Torn 2]\<rparr>" 7 2]
    plain_codec_ok sample_inv sample_room sample_no_newer
  by (simp add: lastn_def)

section \<open>Retrying\<close>

lemma failed_flush_inv:
  assumes K: "codec_ok K" and inv: "hist_inv K S h (disk w)" and room: "has_room h"
    and fresh: "fresh < 256 ^ 16" "fresh \<noteq> 0" and dirty: "h_dirty h" and q: "persisted h = Some q"
    and fail: "hist_flush K fresh (h, w) = (Inl e, h', w')"
  shows "hist_inv K S h' (disk w') \<and> has_room h' \<and> h_dirty h' \<and> h_bytes h' = h_bytes h"
proof -
  obtain h1 w1 where lo: "legacy_only (h, w) (h1, w1)"
      and alt: "h' = h1 \<and> w' = w1 \<or> outcome K S h1 w1 (Inl e, h', w')"
    using flush_outcome [OF K inv room fresh dirty] fail by auto
  note keep = legacy_only_inv [OF lo inv]
  have room1: "has_room h1" using room keep(2) by (simp add: has_room_def)
  from alt show ?thesis
  proof
    assume "h' = h1 \<and> w' = w1"
    then show ?thesis using keep room1 dirty by simp
  next
    assume out: "outcome K S h1 w1 (Inl e, h', w')"
    then have "h' = h1" "validate_history_artifacts (disk w') = Inr ()" "persisted_ok K S h1 (disk w') q"
      using hist_inv_core [OF keep(1)] q keep(2) by (auto simp: outcome_def persisted_ok_def)
    then show ?thesis using keep room1 dirty q by (simp add: hist_inv_def)
  qed
qed

text \<open>
  C5: a flush that failed can be retried. For a store that has a committed generation, after
  any failed flush the next one without faults succeeds and makes the whole ring durable:
  nothing is appended twice and nothing is lost.
\<close>

theorem flush_retry:
  assumes "codec_ok K" and "hist_inv K S h (disk w)" and "has_room h" and "persisted h = Some q"
    and "fresh < 256 ^ 16" and "fresh \<noteq> 0" and "h_dirty h"
  shows "case hist_flush K fresh (h, w) of
       (Inr _, _, _) \<Rightarrow> True
     | (Inl _, h1, w1) \<Rightarrow> \<exists>h2 w2. hist_flush K fresh (h1, w1\<lparr>faults := []\<rparr>) = (Inr (), h2, w2) \<and>
         hist_inv K S h2 (disk w2) \<and>
         read_persisted_history_tail K (disk w2) (Some n) = Inr (hist_snapshot (Some n) h)"
proof -
  obtain r h1 w1 where res: "hist_flush K fresh (h, w) = (r, h1, w1)" by (metis prod.exhaust)
  show ?thesis
  proof (cases r)
    case (Inl e)
    then have a: "hist_inv K S h1 (disk (w1\<lparr>faults := []\<rparr>))" "has_room h1" "h_dirty h1" "h_bytes h1 = h_bytes h"
      using failed_flush_inv [OF assms(1-3,5,6,7,4)] res by auto
    from flush_ok [OF assms(1) a(1,2) assms(5,6) a(3), of n] a(4) res Inl show ?thesis
      by (simp add: snapshot_lastn)
  qed (simp add: res)
qed

theorem flush_retry_witness:
  "case hist_flush plain_codec 7 (sample_history, \<lparr>disk = sample_disk, faults = [NoFault, Torn 2]\<rparr>) of
       (Inr _, _, _) \<Rightarrow> True
     | (Inl _, h1, w1) \<Rightarrow> \<exists>h2 w2. hist_flush plain_codec 7 (h1, w1\<lparr>faults := []\<rparr>) = (Inr (), h2, w2) \<and>
         hist_inv plain_codec [1, 2, 3, 4, 5] h2 (disk w2) \<and>
         read_persisted_history_tail plain_codec (disk w2) (Some 3) = Inr (hist_snapshot (Some 3) sample_history)"
  by (rule flush_retry [where q = "\<lparr>rc_commit = sample_commit, rc_tail = [], rc_hasher = [1, 2, 3]\<rparr>"])
    (simp_all add: plain_codec_ok sample_inv sample_room, simp_all add: sample_history_def)

section \<open>Restarting\<close>

text \<open>
  A worker that restarts on a flushed store, in a directory it may use, opens the same history: the ring, the stream
  position and the invariant are those of the worker that flushed, so appending and flushing
  can go on from there.
\<close>

theorem reopen_flushed:
  assumes K: "codec_ok K" and inv: "hist_inv K S h d" and q: "persisted h = Some q"
    and newest: "superseded K d (rc_commit q)" and clean: "durable_end h = length S" "marker_published h"
  shows "\<exists>h' w'. hist_open K fresh True (h_cap h) \<lparr>disk = d, faults = []\<rparr> = (Inr h', w') \<and>
     h_bytes h' = h_bytes h \<and> observed_end h' = observed_end h \<and> hist_inv K S h' (disk w')"
proof -
  note core = hist_inv_core [OF inv q]
  have ring: "ring_inv S h" and files: "validate_history_artifacts d = Inr ()"
    using inv by (auto simp: hist_inv_def)
  obtain mk where mk: "read_history_marker K d = Inr (Some mk)" "marker_fits (Some mk) (rc_commit q)"
    using core(2) hist_inv_marker [OF inv] clean(2) by (auto simp: marker_ok_def)
  let ?rc = "\<lparr>rc_commit = rc_commit q, rc_tail = lastn (h_cap h) (rc_hasher q), rc_hasher = rc_hasher q\<rparr>"
  have rec: "recover_v2_history K d (h_cap h) = Inr (Some ?rc, True)"
    using recover_stored [OF K files mk core(1) newest, of "h_cap h"] core(3) by simp
  have tail: "rc_tail ?rc = lastn (h_cap h) S" using covers_lastn [OF core(5)] clean(1) by simp
  define h0 where "h0 = \<lparr>h_cap = h_cap h, h_bytes = lastn (h_cap h) S, h_pending = [], h_dirty = False,
     observed_end = length S, durable_end = length S, compatibility_end = 0, compatibility_len = 0,
     compatibility_known = False, persisted = Some ?rc, marker_published = True\<rparr>"
  let ?w = "\<lparr>disk = d, faults = []\<rparr>"
  obtain r h' w' where rep: "repair_legacy_compatibility (h0, ?w) = (r, h', w')" by (metis prod.exhaust)
  have inv0: "hist_inv K S h0 (disk ?w)"
    using ring files core mk clean
    by (simp add: hist_inv_def persisted_ok_def h0_def ring_inv_def marker_ok_def)
  have "d Legacy \<noteq> Irregular" using files by (simp add: artifacts_iff)
  then have ok: "r = Inr ()" and lo: "legacy_only (h0, ?w) (h', w')" using repair_legacy_cases [OF rep] by auto
  have "validate_history_bytes (h_cap h) = Inr (h_cap h)"
    using ring by (simp add: validate_history_bytes_def ring_inv_def)
  then have "hist_open K fresh True (h_cap h) ?w = (Inr h', w')"
    using rep ok tail core(3,4) clean(1)
    by (simp add: hist_open_def rec legacy_absent_def h0_def)
  moreover have "observed_end h' = observed_end h0" using lo by (auto simp: legacy_only_def)
  ultimately show ?thesis
    using legacy_only_inv [OF lo inv0] ring by (simp add: h0_def ring_inv_def)
qed

theorem reopen_flushed_witness:
  "\<exists>h' w'. hist_open plain_codec 7 True (h_cap sample_flushed) \<lparr>disk = sample_disk, faults = []\<rparr> = (Inr h', w') \<and>
     h_bytes h' = h_bytes sample_flushed \<and> observed_end h' = observed_end sample_flushed \<and>
     hist_inv plain_codec [1, 2, 3] h' (disk w')"
  by (rule reopen_flushed [OF plain_codec_ok sample_flushed_inv,
        of "\<lparr>rc_commit = sample_commit, rc_tail = [], rc_hasher = [1, 2, 3]\<rparr>"])
    (use sample_no_newer in \<open>simp_all add: no_newer_def sample_flushed_def sample_history_def\<close>)

section \<open>A first flush whose marker is reported as failed\<close>

definition new_history :: "nat \<Rightarrow> bytes \<Rightarrow> history" where
  "new_history cap S = \<lparr>h_cap = cap, h_bytes = lastn cap S, h_pending = lastn cap S, h_dirty = True,
     observed_end = length S, durable_end = 0, compatibility_end = 0, compatibility_len = 0,
     compatibility_known = True, persisted = None, marker_published = False\<rparr>"

lemma new_history_fields [simp]:
  "h_cap (new_history cap S) = cap" "h_bytes (new_history cap S) = lastn cap S"
  "h_dirty (new_history cap S)" "observed_end (new_history cap S) = length S"
  "compatibility_end (new_history cap S) = 0" "compatibility_len (new_history cap S) = 0"
  "compatibility_known (new_history cap S)" "persisted (new_history cap S) = None"
  "\<not> marker_published (new_history cap S)"
  by (simp_all add: new_history_def)

lemma compat_done_fields [simp]:
  "h_cap (compat_done n h) = h_cap h" "h_bytes (compat_done n h) = h_bytes h"
  "h_dirty (compat_done n h) = h_dirty h" "observed_end (compat_done n h) = observed_end h"
  "compatibility_end (compat_done n h) = observed_end h" "compatibility_known (compat_done n h)"
  "persisted (compat_done n h) = persisted h" "marker_published (compat_done n h) = marker_published h"
  by (simp_all add: compat_done_def)

lemma first_legacy:
  assumes "0 < cap" "cap \<le> MAX_HISTORY_BYTES" "length S \<le> cap" "S \<noteq> []"
  shows "flush_legacy_compatibility (new_history cap S, \<lparr>disk = \<lambda>_. Absent, faults = NoFault # fs\<rparr>) =
     (Inr (), compat_done (length S) (new_history cap S),
      \<lparr>disk = (\<lambda>_. Absent)(Legacy := Regular S), faults = fs\<rparr>)"
proof -
  have "length S \<le> U64_MAX" "sat_mul U64_MAX cap 2 = cap * 2"
    using assms by (simp_all add: size_consts arith_defs)
  then show ?thesis
    using assms
    by (simp add: flush_legacy_compatibility_def Let_def checked_sub_def checked_add_def
        validate_optional_history_node_def repair_legacy_compatibility_def atomic_write_bytes_def
        next_fault_def)
qed

text \<open>A compaction of a history without a store, up to the marker.\<close>

lemma first_compaction:
  assumes K: "codec_ok K" and h: "persisted h = None" "\<not> marker_published h" "h_cap h \<le> MAX_HISTORY_BYTES"
      "length (h_bytes h) \<le> observed_end h" "observed_end h \<le> U64_MAX" "length (h_bytes h) \<le> h_cap h"
    and fresh: "0 < fresh" "fresh < 256 ^ 16"
    and node: "disk w (DataBank 0) \<noteq> Irregular" "disk w (CommitFile 1) \<noteq> Irregular"
    and flt: "next_fault w = (NoFault, w1)" "next_fault w1 = (NoFault, w2)"
    and same: "disk w1 = disk w" "disk w2 = disk w"
  defines "c \<equiv> commit_seal K (compaction_commit K fresh h)"
  defines "w3 \<equiv> w2\<lparr>disk := (disk w)(DataBank 0 := Regular (header_encode K (hdr_of c) @ h_bytes h),
     CommitFile 1 := Regular (commit_pretty K c @ [0x0A]))\<rparr>"
  shows "publish_compaction K fresh (h, w) =
     hbind (ensure_marker_published K c) (\<lambda>_. hmodify (commit_done c (h_bytes h))) (h, w3)"
    and "commit_good K c" and "hc_store_id c = fresh" and "hc_session_id c = session_id K"
    and "commit_generation c = 1"
proof -
  let ?new = "compaction_commit K fresh h"
  have fields: "data_slot ?new = 0" "commit_generation ?new = 1" "hc_store_id ?new = fresh"
      "hc_session_id ?new = session_id K"
    using h(1) by (simp_all add: compaction_commit_def)
  have "commit_fields_ok K ?new"
    using h fresh sha256_hex_checksum [OF K]
    by (simp add: commit_fields_ok_def compaction_commit_def size_consts)
  then show good: "commit_good K c" unfolding c_def by (rule commit_seal_good [OF K])
  show f: "hc_store_id c = fresh" "hc_session_id c = session_id K" "commit_generation c = 1"
    by (simp_all add: c_def fields)
  have hdr: "hdr_of c = hdr_of ?new" by (simp add: hdr_of_def c_def)
  let ?w1 = "w1\<lparr>disk := (disk w)(DataBank 0 := Regular (header_encode K (hdr_of c) @ h_bytes h))\<rparr>"
  have a1: "atomic_write_bytes (DataBank 0) (header_encode K (hdr_of c) @ h_bytes h) (h, w) = (Inr (), h, ?w1)"
    by (simp add: atomic_write_bytes_def flt same)
  have "next_fault ?w1 = (NoFault, w2\<lparr>disk := disk ?w1\<rparr>)"
    using flt(2) by (auto simp: next_fault_def split: list.splits)
  then have a2: "atomic_write_bytes (CommitFile 1) (commit_pretty K c @ [0x0A]) (h, ?w1) = (Inr (), h, w3)"
    by (simp add: atomic_write_bytes_def w3_def)
  have size: "\<not> HISTORY_COMMIT_MAX_BYTES < length (commit_json K c)"
    using K commit_goodD(8) [OF good] by (simp add: codec_ok_def not_less)
  obtain b where v: "validate_optional_history_node (disk w (CommitFile 1)) = Inr b"
    using node(2) validate_node_iff by blast
  have "publish_commit K ?new (h, ?w1) = (Inr c, h, w3)"
    unfolding publish_commit_def c_def [symmetric] Let_def f(3)
    using a2 size v by (simp add: HISTORY_COMMIT_COUNT_def hbind_def hlift_def)
  then have t: "publish_tail K ?new (h_bytes h) (h, ?w1) =
      hbind (ensure_marker_published K c) (\<lambda>_. hmodify (commit_done c (h_bytes h))) (h, w3)"
    by (simp add: publish_tail_def hbind_def)
  have "has_room h" using h(1) by (simp add: has_room_def)
  from publish_compaction_steps [OF this refl, of w K fresh] a1 t
  show "publish_compaction K fresh (h, w) =
     hbind (ensure_marker_published K c) (\<lambda>_. hmodify (commit_done c (h_bytes h))) (h, w3)"
    using node(1) by (simp add: fields hdr hbind_def)
qed

text \<open>
  The exception. On a first flush every file is written and only the directory sync
  after the marker's rename fails. The retry draws a new store id, rewrites the bank and the
  commit under it, and then refuses the marker it finds: the history can no longer be
  flushed, and recovery from the disk it leaves fails although both files are intact.
\<close>

theorem first_flush_marker_stuck:
  assumes K: "codec_ok K" and cap: "0 < cap" "cap \<le> MAX_HISTORY_BYTES"
    and S: "length S \<le> cap" "S \<noteq> []" and ids: "0 < id1" "id1 < 256 ^ 16" "0 < id2" "id2 < 256 ^ 16" "id1 \<noteq> id2"
  shows "\<exists>h1 w1 h2 w2.
     hist_flush K id1 (new_history cap S,
       \<lparr>disk = \<lambda>_. Absent, faults = [NoFault, NoFault, NoFault, FailAfter]\<rparr>) = (Inl IoError, h1, w1) \<and>
     faults w1 = [] \<and>
     hist_flush K id2 (h1, w1) =
       (Inl (Bail ''history marker does not match the committed history store''), h2, w2) \<and>
     recover_v2_history K (disk w2) limit = Inl (Bail ''no valid committed history generation remains'')"
proof -
  let ?h = "compat_done (length S) (new_history cap S)"
  let ?w0 = "\<lparr>disk = (\<lambda>_. Absent)(Legacy := Regular S), faults = [NoFault, NoFault, FailAfter]\<rparr>"
  have len: "length S \<le> U64_MAX" using S(1) cap by (simp add: size_consts)
  have hb: "h_bytes ?h = S" using S(1) by simp
  define c1 where "c1 = commit_seal K (compaction_commit K id1 ?h)"
  define d1 where "d1 = (disk ?w0)(DataBank 0 := Regular (header_encode K (hdr_of c1) @ S),
     CommitFile 1 := Regular (commit_pretty K c1 @ [0x0A]))"
  define m where "m = new_marker K c1"
  define w1 where "w1 = \<lparr>disk = d1(MarkerFile := Regular (marker_pretty K m @ [0x0A])), faults = []\<rparr>"
  note fc1 = first_compaction [OF K, of ?h id1 ?w0 "\<lparr>disk = disk ?w0, faults = [NoFault, FailAfter]\<rparr>"
      "\<lparr>disk = disk ?w0, faults = [FailAfter]\<rparr>", unfolded hb, folded c1_def]
  have 1: "publish_compaction K id1 (?h, ?w0) =
        hbind (ensure_marker_published K c1) (\<lambda>_. hmodify (commit_done c1 S)) (?h, \<lparr>disk = d1, faults = [FailAfter]\<rparr>)"
      and c1: "commit_good K c1" "hc_store_id c1 = id1" "hc_session_id c1 = session_id K"
    using fc1 cap S len ids by (simp_all add: next_fault_def d1_def)
  have none: "read_history_marker K d1 = Inr None"
    by (simp add: d1_def read_history_marker_def open_optional_history_file_def)
  have msize: "\<not> HISTORY_MARKER_MAX_BYTES < length (marker_json K m)"
    using K new_marker_wf [OF K] c1 ids by (simp add: codec_ok_def not_less m_def)
  have "ensure_marker_published K c1 (?h, \<lparr>disk = d1, faults = [FailAfter]\<rparr>) = (Inl IoError, ?h, w1)"
    using none msize
    by (simp add: ensure_marker_published_def publish_history_marker_def hbind_def m_def [unfolded new_marker_def, symmetric]
        Let_def atomic_write_bytes_def next_fault_def w1_def)
  with 1 have pc1: "publish_compaction K id1 (?h, ?w0) = (Inl IoError, ?h, w1)" by (simp add: hbind_def)
  have flush1: "hist_flush K id1 (new_history cap S,
       \<lparr>disk = \<lambda>_. Absent, faults = [NoFault, NoFault, NoFault, FailAfter]\<rparr>) = (Inl IoError, ?h, w1)"
    using pc1 first_legacy [OF cap S, of "[NoFault, NoFault, FailAfter]"]
    by (simp add: hist_flush_def hbind_def)
  define c2 where "c2 = commit_seal K (compaction_commit K id2 ?h)"
  define d2 where "d2 = (disk w1)(DataBank 0 := Regular (header_encode K (hdr_of c2) @ S),
     CommitFile 1 := Regular (commit_pretty K c2 @ [0x0A]))"
  have nf: "next_fault w1 = (NoFault, w1)" by (simp add: next_fault_def w1_def)
  have 2: "publish_compaction K id2 (?h, w1) =
        hbind (ensure_marker_published K c2) (\<lambda>_. hmodify (commit_done c2 S)) (?h, w1\<lparr>disk := d2\<rparr>)"
      and c2: "commit_good K c2" "hc_store_id c2 = id2" "commit_generation c2 = 1"
    using first_compaction [OF K, of ?h id2 w1 w1 w1, unfolded hb, folded c2_def] nf cap S len ids
    by (simp_all add: d2_def) (simp_all add: w1_def d1_def)
  have mk: "read_history_marker K d2 = Inr (Some m)" "hm_store_id m = id1"
    using read_new_marker [OF K, of c1 d2] c1 ids
    by (simp_all add: d2_def w1_def m_def marker_fits_def)
  have stop: "ensure_marker_published K c2 (?h, w1\<lparr>disk := d2\<rparr>) =
      (Inl (Bail ''history marker does not match the committed history store''), ?h, w1\<lparr>disk := d2\<rparr>)"
    using mk c2(2) ids(5)
    by (simp add: ensure_marker_published_def publish_history_marker_def hbind_def)
  have flush2: "hist_flush K id2 (?h, w1) =
      (Inl (Bail ''history marker does not match the committed history store''), ?h, w1\<lparr>disk := d2\<rparr>)"
    using 2 stop by (simp add: hist_flush_def hbind_def flush_legacy_compatibility_def Let_def checked_sub_def)
  have "d2 (CommitFile 0) = Absent" by (simp add: d2_def w1_def d1_def)
  moreover have "read_history_commit K d2 1 = Inr (Some c2)"
    using read_commit_file [OF K c2(1), of d2] c2(3) by (simp add: d2_def HISTORY_COMMIT_COUNT_def)
  moreover have "validate_history_artifacts d2 = Inr ()"
    using length_header_encode [OF K] cap S
    by (simp add: artifacts_iff bank_fits_def d2_def w1_def d1_def)
  ultimately have "recover_v2_history K d2 limit = Inl (Bail ''no valid committed history generation remains'')"
    using mk c2(2) ids(5)
    by (simp add: recover_v2_history_def slots scan_commit_slot_def read_history_commit_def
        open_optional_history_file_def)
  then show ?thesis using flush1 flush2 by (simp add: w1_def)
qed

theorem first_flush_marker_stuck_witness:
  "\<exists>h1 w1 h2 w2.
     hist_flush plain_codec 1 (new_history 4 [1],
       \<lparr>disk = \<lambda>_. Absent, faults = [NoFault, NoFault, NoFault, FailAfter]\<rparr>) = (Inl IoError, h1, w1) \<and>
     faults w1 = [] \<and>
     hist_flush plain_codec 2 (h1, w1) =
       (Inl (Bail ''history marker does not match the committed history store''), h2, w2) \<and>
     recover_v2_history plain_codec (disk w2) 4 = Inl (Bail ''no valid committed history generation remains'')"
  by (rule first_flush_marker_stuck [OF plain_codec_ok]) (simp_all add: size_consts)

end
