(* ===== verification/Stream_Boundary.thy ===== *)
theory Stream_Boundary
  imports Prelude
begin

text \<open>
  \<open>src/screen/boundary.rs\<close>: \<open>StreamBoundary\<close>, the recognizer that says where in an
  escape sequence or a multi-byte character a relayed byte stream stands, and which
  \<open>ESC\<close> and \<open>CSI\<close> sequences it has completed. The fixed parameter buffer is a list of
  \<open>CSI_PARAM_CAP\<close> bytes with its fill count, as in the source.
\<close>

section \<open>State\<close>

definition CSI_PARAM_CAP :: nat where [size_consts]: "CSI_PARAM_CAP = 32"

datatype boundary_state = Ground | Esc | Csi | Str bool

datatype sequence = SeqEsc byte | SeqCsi bytes byte bool

record boundary =
  sb_state :: boundary_state
  utf8_remaining :: nat
  sync_depth :: nat
  params :: bytes
  params_len :: nat
  csi_plain :: bool
  esc_intermediate :: bool

definition sb_new :: boundary where
  "sb_new = \<lparr>sb_state = Ground, utf8_remaining = 0, sync_depth = 0,
     params = replicate 32 0, params_len = 0, csi_plain = True, esc_intermediate = False\<rparr>"

definition sb_reset :: "boundary \<Rightarrow> boundary" where
  "sb_reset s = sb_new"

definition at_escape_boundary :: "boundary \<Rightarrow> bool" where
  "at_escape_boundary s \<longleftrightarrow> sb_state s = Ground \<and> utf8_remaining s = 0"

definition in_synchronized_update :: "boundary \<Rightarrow> bool" where
  "in_synchronized_update s \<longleftrightarrow> 0 < sync_depth s"

section \<open>Step\<close>

text \<open>\<^verbatim>\<open>b'0'..=b'9' | b';' | b':'\<close> are the contiguous bytes 0x30 to 0x3b.\<close>

definition plain_param :: "byte \<Rightarrow> bool" where
  "plain_param b \<longleftrightarrow> 0x30 \<le> b \<and> b \<le> 0x3B"

definition record_param :: "byte \<Rightarrow> boundary \<Rightarrow> boundary" where
  "record_param b s =
     (if params_len s = CSI_PARAM_CAP then s\<lparr>csi_plain := False\<rparr>
      else s\<lparr>params := (params s)[params_len s := b],
             params_len := params_len s + 1,
             csi_plain := csi_plain s \<and> plain_param b\<rparr>)"

text \<open>\<^verbatim>\<open>b"?2026"\<close>.\<close>

definition sync_mode :: bytes where "sync_mode = [0x3F, 0x32, 0x30, 0x32, 0x36]"

definition finish_csi :: "byte \<Rightarrow> boundary \<Rightarrow> boundary \<times> sequence" where
  "finish_csi final s =
     (let ps = take (params_len s) (params s);
          s' = (if ps = sync_mode
                then (if final = 0x68 then s\<lparr>sync_depth := sat_add U16_MAX (sync_depth s) 1\<rparr>
                      else if final = 0x6C then s\<lparr>sync_depth := sync_depth s - 1\<rparr>
                      else s)
                else s)
      in (s', SeqCsi ps final (csi_plain s)))"

definition utf8_need :: "byte \<Rightarrow> nat" where
  "utf8_need b = (if 0xC2 \<le> b \<and> b \<le> 0xDF then 1
     else if 0xE0 \<le> b \<and> b \<le> 0xEF then 2
     else if 0xF0 \<le> b \<and> b \<le> 0xF4 then 3 else 0)"

definition sb_step :: "boundary \<Rightarrow> byte \<Rightarrow> boundary \<times> sequence option" where
  "sb_step s b =
     (if b = 0x1B then
        (s\<lparr>sb_state := Esc, utf8_remaining := 0, esc_intermediate := False\<rparr>, None)
      else if b = 0x18 \<or> b = 0x1A then
        (s\<lparr>sb_state := Ground, utf8_remaining := 0\<rparr>, None)
      else case sb_state s of
        Ground \<Rightarrow>
          (if 0 < utf8_remaining s \<and> 0x80 \<le> b \<and> b < 0xC0
           then (s\<lparr>utf8_remaining := utf8_remaining s - 1\<rparr>, None)
           else (s\<lparr>utf8_remaining := utf8_need b\<rparr>, None))
      | Esc \<Rightarrow>
          (if 0x20 \<le> b \<and> b \<le> 0x2F then (s\<lparr>esc_intermediate := True\<rparr>, None)
           else if b = 0x5B \<and> \<not> esc_intermediate s
             then (s\<lparr>sb_state := Csi, params_len := 0, csi_plain := True\<rparr>, None)
           else if b = 0x5D \<and> \<not> esc_intermediate s then (s\<lparr>sb_state := Str True\<rparr>, None)
           else if (b = 0x50 \<or> b = 0x58 \<or> b = 0x5E \<or> b = 0x5F) \<and> \<not> esc_intermediate s
             then (s\<lparr>sb_state := Str False\<rparr>, None)
           else if 0x30 \<le> b \<and> b \<le> 0x7E
             then (s\<lparr>sb_state := Ground\<rparr>, if esc_intermediate s then None else Some (SeqEsc b))
           else (s, None))
      | Csi \<Rightarrow>
          (if 0x40 \<le> b \<and> b \<le> 0x7E
             then (let (s', q) = finish_csi b (s\<lparr>sb_state := Ground\<rparr>) in (s', Some q))
           else if 0x20 \<le> b \<and> b \<le> 0x3F then (record_param b s, None)
           else (s, None))
      | Str osc \<Rightarrow>
          (if osc \<and> b = 0x07 then (s\<lparr>sb_state := Ground\<rparr>, None) else (s, None)))"

fun feed_with :: "boundary \<Rightarrow> bytes \<Rightarrow> boundary \<times> sequence list" where
  "feed_with s [] = (s, [])"
| "feed_with s (b # bs) =
     (let (s', q) = sb_step s b; (s'', qs) = feed_with s' bs in (s'', opt_list q @ qs))"

definition feed :: "boundary \<Rightarrow> bytes \<Rightarrow> boundary" where
  "feed s data = fst (feed_with s data)"

text \<open>The probe: \<open>n\<close> is the loop counter of \<open>data.iter().enumerate()\<close>.\<close>

fun bytes_to_ground_from :: "boundary \<Rightarrow> bytes \<Rightarrow> nat \<Rightarrow> nat" where
  "bytes_to_ground_from s [] n = n"
| "bytes_to_ground_from s (b # bs) n =
     (let s' = fst (sb_step s b) in
      if at_escape_boundary s' then n + 1 else bytes_to_ground_from s' bs (n + 1))"

definition bytes_to_ground :: "boundary \<Rightarrow> bytes \<Rightarrow> nat" where
  "bytes_to_ground s data = bytes_to_ground_from s data 0"

section \<open>Invariant and chunking\<close>

definition sb_inv :: "boundary \<Rightarrow> bool" where
  "sb_inv s \<longleftrightarrow> length (params s) = CSI_PARAM_CAP \<and> params_len s \<le> CSI_PARAM_CAP \<and>
     utf8_remaining s \<le> 3 \<and> sync_depth s \<le> U16_MAX \<and>
     (sb_state s \<noteq> Ground \<longrightarrow> utf8_remaining s = 0)"

interpretation scan: byte_machine
  "\<lambda>s b. map_prod id opt_list (sb_step s b)" feed_with
  by unfold_locales (auto split: prod.splits)

lemma sb_inv_new [simp]: "sb_inv sb_new"
  by (simp add: sb_inv_def sb_new_def size_consts)

lemma sb_inv_record_param: "sb_inv s \<Longrightarrow> sb_inv (record_param b s)"
  by (auto simp: sb_inv_def record_param_def)

lemma sb_inv_finish_csi:
  "sb_inv s \<Longrightarrow> sb_inv (fst (finish_csi b s)) \<and>
     (\<exists>ps. snd (finish_csi b s) = SeqCsi ps b (csi_plain s) \<and> length ps \<le> CSI_PARAM_CAP)"
  by (auto simp: sb_inv_def finish_csi_def Let_def)

lemma utf8_need_le [simp]: "utf8_need b \<le> 3"
  by (simp add: utf8_need_def)

definition seq_ok :: "sequence \<Rightarrow> bool" where
  "seq_ok q = (case q of
       SeqEsc b \<Rightarrow> 0x30 \<le> b \<and> b \<le> 0x7E
     | SeqCsi ps b p \<Rightarrow> length ps \<le> CSI_PARAM_CAP \<and> 0x40 \<le> b \<and> b \<le> 0x7E)"

text \<open>\<open>ESC\<close>, \<open>CAN\<close> and \<open>SUB\<close> act the same in every state.\<close>

definition aborts :: "byte \<Rightarrow> bool" where
  "aborts b \<longleftrightarrow> b = 0x1B \<or> b = 0x18 \<or> b = 0x1A"

lemma sb_step_ESC:
  "sb_step s 0x1B = (s\<lparr>sb_state := Esc, utf8_remaining := 0, esc_intermediate := False\<rparr>, None)"
  by (simp add: sb_step_def)

lemma sb_step_abort:
  "aborts b \<Longrightarrow> sb_step s b =
     (if b = 0x1B then s\<lparr>sb_state := Esc, utf8_remaining := 0, esc_intermediate := False\<rparr>
      else s\<lparr>sb_state := Ground, utf8_remaining := 0\<rparr>, None)"
  unfolding aborts_def by (elim disjE) (simp_all add: sb_step_def)

lemma sb_step_inv:
  assumes "sb_inv s"
  shows "sb_inv (fst (sb_step s b)) \<and> (\<forall>q \<in> set (opt_list (snd (sb_step s b))). seq_ok q)"
proof (cases "aborts b")
  case True
  with assms show ?thesis by (simp add: sb_step_abort sb_inv_def)
next
  case False
  then have c0: "b \<noteq> 0x1B" "b \<noteq> 0x18" "b \<noteq> 0x1A" by (simp_all add: aborts_def)
  show ?thesis
  proof (cases "sb_state s")
    case Csi
    have "sb_inv (s\<lparr>sb_state := Ground\<rparr>)" using assms by (simp add: sb_inv_def)
    then obtain s' ps where fc: "finish_csi b (s\<lparr>sb_state := Ground\<rparr>) = (s', SeqCsi ps b (csi_plain s))"
        and ok: "sb_inv s'" "length ps \<le> CSI_PARAM_CAP"
      using sb_inv_finish_csi [of "s\<lparr>sb_state := Ground\<rparr>" b]
      by (cases "finish_csi b (s\<lparr>sb_state := Ground\<rparr>)") auto
    show ?thesis
      using Csi c0 assms ok by (simp add: sb_step_def fc seq_ok_def sb_inv_record_param)
  next
    case Ground
    with assms c0 show ?thesis by (simp add: sb_step_def sb_inv_def diff_le_self le_diff_conv)
  next
    case Esc
    with assms c0 show ?thesis by (simp add: sb_step_def sb_inv_def seq_ok_def)
  next
    case (Str osc)
    with assms c0 show ?thesis by (simp add: sb_step_def sb_inv_def)
  qed
qed

text \<open>
  every byte, in every state, keeps the recognizer's buffers and counters within
  their fixed-width bounds, and every sequence it reports carries at most
  \<open>CSI_PARAM_CAP\<close> parameter bytes and a final byte in the final range.
\<close>

theorem feed_with_inv:
  assumes "sb_inv s"
  shows "sb_inv (fst (feed_with s data)) \<and> (\<forall>q \<in> set (snd (feed_with s data)). seq_ok q)"
proof
  show "sb_inv (fst (feed_with s data))"
    by (rule scan.run_invariant [where I = sb_inv]) (use sb_step_inv assms in auto)
  show "\<forall>q \<in> set (snd (feed_with s data)). seq_ok q"
    by (rule scan.run_outputs [where I = sb_inv]) (use sb_step_inv assms in auto)
qed

theorem feed_with_inv_witness:
  "sb_inv (fst (feed_with sb_new [0x1B, 0x5B, 0x48])) \<and>
   list_all seq_ok (snd (feed_with sb_new [0x1B, 0x5B, 0x48]))"
  using feed_with_inv [OF sb_inv_new, of "[0x1B, 0x5B, 0x48]"] unfolding list_all_iff by blast

text \<open>
  where the stream is cut does not matter. Feeding the pieces of any segmentation
  one after the other gives the state and the sequences of feeding the whole stream.
\<close>

theorem feed_with_chunked: "chunked feed_with s pieces = feed_with s (concat pieces)"
  by (rule scan.run_chunked)

section \<open>Boundaries\<close>

lemma feed_Nil [simp]: "feed s [] = s"
  by (simp add: feed_def)

lemma feed_Cons: "feed s (b # bs) = feed (fst (sb_step s b)) bs"
  by (simp add: feed_def Let_def case_prod_beta)

lemma feed_append: "feed s (xs @ ys) = feed (feed s xs) ys"
  by (simp add: feed_def scan.run_append Let_def case_prod_beta)

lemma bytes_to_ground_from_ge: "n \<le> bytes_to_ground_from s data n"
proof (induction s data n rule: bytes_to_ground_from.induct)
  case (2 s b bs n)
  then show ?case by (auto simp: Let_def)
qed simp

lemma bytes_to_ground_from_spec:
  "bytes_to_ground_from s data n \<le> n + length data \<and>
   (\<forall>m. 0 < m \<and> n + m < bytes_to_ground_from s data n \<longrightarrow>
      \<not> at_escape_boundary (feed s (take m data))) \<and>
   (bytes_to_ground_from s data n < n + length data \<longrightarrow>
      n < bytes_to_ground_from s data n \<and>
      at_escape_boundary (feed s (take (bytes_to_ground_from s data n - n) data)))"
proof (induction s data n rule: bytes_to_ground_from.induct)
  case (1 s n)
  then show ?case by simp
next
  case (2 s b bs n)
  let ?s = "fst (sb_step s b)"
  show ?case
  proof (cases "at_escape_boundary ?s")
    case True
    then show ?thesis by (auto simp: feed_Cons)
  next
    case False
    let ?g = "bytes_to_ground_from ?s bs (n + 1)"
    have g: "bytes_to_ground_from s (b # bs) n = ?g" using False by simp
    note IH = "2.IH" [OF refl False]
    have ge: "n + 1 \<le> ?g" by (rule bytes_to_ground_from_ge)
    have no: "\<not> at_escape_boundary (feed s (take m (b # bs)))" if m: "0 < m" "n + m < ?g" for m
    proof (cases m)
      case 0
      with m show ?thesis by simp
    next
      case (Suc k)
      then show ?thesis using IH m False by (cases k) (auto simp: feed_Cons)
    qed
    have yes: "at_escape_boundary (feed s (take (?g - n) (b # bs)))"
      if "?g < n + length (b # bs)"
    proof -
      have "?g < n + 1 + length bs" using that by simp
      with IH have "n + 1 < ?g" "at_escape_boundary (feed ?s (take (?g - (n + 1)) bs))" by blast+
      moreover from this(1) have "?g - n = Suc (?g - (n + 1))" by simp
      then have "take (?g - n) (b # bs) = b # take (?g - (n + 1)) bs" by simp
      ultimately show ?thesis by (simp add: feed_Cons)
    qed
    show ?thesis unfolding g using IH no yes ge by auto
  qed
qed

text \<open>
  \<open>bytes_to_ground\<close> is the least positive number of leading bytes after which the
  stream is back at a boundary, or the whole chunk when there is none in it before its
  last byte.
\<close>

theorem bytes_to_ground_least:
  "bytes_to_ground s data \<le> length data \<and>
   (\<forall>m. 0 < m \<and> m < bytes_to_ground s data \<longrightarrow> \<not> at_escape_boundary (feed s (take m data))) \<and>
   (bytes_to_ground s data < length data \<longrightarrow>
      0 < bytes_to_ground s data \<and>
      at_escape_boundary (feed s (take (bytes_to_ground s data) data)))"
  using bytes_to_ground_from_spec [of s data 0] by (simp add: bytes_to_ground_def)

text \<open>The second byte of \<open>ESC c x\<close> completes the sequence.\<close>

theorem bytes_to_ground_least_witness:
  "bytes_to_ground sb_new [0x1B, 0x63, 0x78] = 2 \<and>
   \<not> at_escape_boundary (feed sb_new (take 1 [0x1B, 0x63, 0x78])) \<and>
   at_escape_boundary (feed sb_new (take 2 [0x1B, 0x63, 0x78]))"
proof -
  have "bytes_to_ground sb_new [0x1B, 0x63, 0x78] = 2"
    by (simp add: bytes_to_ground_def sb_step_def sb_new_def at_escape_boundary_def Let_def)
  with bytes_to_ground_least [of sb_new "[0x1B, 0x63, 0x78]"] show ?thesis by auto
qed

section \<open>Recognition of complete sequences\<close>

lemma plain_param_final: "0x40 \<le> b \<Longrightarrow> \<not> (0x20 \<le> b \<and> b \<le> (0x3F :: byte))"
  by (auto dest: order_trans [of "0x40"])

lemma not_aborts_ge: "0x20 \<le> b \<Longrightarrow> \<not> aborts b"
  by (auto simp: aborts_def)

text \<open>The state inside a \<open>CSI\<close> after the parameter bytes \<open>ps\<close>.\<close>

definition csi_after :: "boundary \<Rightarrow> bytes \<Rightarrow> boundary \<Rightarrow> bool" where
  "csi_after s0 ps s \<longleftrightarrow>
     sb_state s = Csi \<and> utf8_remaining s = 0 \<and> sync_depth s = sync_depth s0 \<and>
     length (params s) = CSI_PARAM_CAP \<and>
     params_len s = min CSI_PARAM_CAP (length ps) \<and>
     take (params_len s) (params s) = take CSI_PARAM_CAP ps \<and>
     (csi_plain s \<longleftrightarrow> length ps \<le> CSI_PARAM_CAP \<and> (\<forall>b \<in> set ps. plain_param b))"

lemma csi_after_param:
  assumes "csi_after s0 ps s" "0x20 \<le> b" "b \<le> 0x3F"
  shows "sb_step s b = (record_param b s, None) \<and> csi_after s0 (ps @ [b]) (record_param b s)"
proof
  have "\<not> 0x40 \<le> b" using order_trans [OF _ assms(3), of "0x40"] by auto
  moreover have "b \<noteq> 0x1B" "b \<noteq> 0x18" "b \<noteq> 0x1A" using assms(2) by auto
  ultimately show "sb_step s b = (record_param b s, None)"
    using assms by (simp add: sb_step_def csi_after_def)
  show "csi_after s0 (ps @ [b]) (record_param b s)"
  proof (cases "length ps < CSI_PARAM_CAP")
    case True
    with assms(1) show ?thesis
      by (auto simp: csi_after_def record_param_def take_Suc_conv_app_nth)
  next
    case False
    with assms(1) show ?thesis
      by (auto simp: csi_after_def record_param_def)
  qed
qed

lemma csi_after_params:
  assumes "csi_after s0 ps s" "\<forall>b \<in> set qs. 0x20 \<le> b \<and> b \<le> 0x3F"
  shows "\<exists>s'. feed_with s qs = (s', []) \<and> csi_after s0 (ps @ qs) s'"
  using assms
proof (induction qs arbitrary: ps s)
  case Nil
  then show ?case by simp
next
  case (Cons b qs)
  then have "sb_step s b = (record_param b s, None)" "csi_after s0 (ps @ [b]) (record_param b s)"
    using csi_after_param by auto
  with Cons show ?case by fastforce
qed

lemma csi_open:
  assumes "length (params s) = CSI_PARAM_CAP"
  shows "\<exists>s'. feed_with s [0x1B, 0x5B] = (s', []) \<and> csi_after s [] s'"
  using assms by (simp add: sb_step_def csi_after_def Let_def)

definition sync_after :: "bytes \<Rightarrow> byte \<Rightarrow> nat \<Rightarrow> nat" where
  "sync_after ps final d =
     (if ps = sync_mode then
        (if final = 0x68 then sat_add U16_MAX d 1 else if final = 0x6C then d - 1 else d)
      else d)"

lemma csi_close:
  assumes "csi_after s0 ps s" "0x40 \<le> b" "b \<le> 0x7E"
  shows "\<exists>s'. sb_step s b =
       (s', Some (SeqCsi (take CSI_PARAM_CAP ps) b
          (length ps \<le> CSI_PARAM_CAP \<and> (\<forall>b \<in> set ps. plain_param b)))) \<and>
     at_escape_boundary s' \<and> sync_depth s' = sync_after (take CSI_PARAM_CAP ps) b (sync_depth s0)"
proof -
  have "b \<noteq> 0x1B" "b \<noteq> 0x18" "b \<noteq> 0x1A" using assms(2) by auto
  then have step: "sb_step s b =
      (let (s', q) = finish_csi b (s\<lparr>sb_state := Ground\<rparr>) in (s', Some q))"
    using assms by (simp add: sb_step_def csi_after_def)
  have ps: "take (params_len s) (params s) = take CSI_PARAM_CAP ps"
    and plain: "csi_plain s = (length ps \<le> CSI_PARAM_CAP \<and> (\<forall>b \<in> set ps. plain_param b))"
    and rest: "utf8_remaining s = 0" "sync_depth s = sync_depth s0"
    using assms(1) unfolding csi_after_def by blast+
  then show ?thesis
    unfolding step finish_csi_def Let_def
    by (simp add: ps plain rest at_escape_boundary_def sync_after_def)
qed

text \<open>
  From any state whatsoever (a half-parsed sequence, an open string, a partial
  character), a whole \<open>CSI\<close> sequence is recognized: nothing is reported before its final
  byte, exactly one sequence is reported there, with its parameter bytes (cut at the
  buffer's capacity) and the right \<open>plain\<close> flag; the stream is then at a boundary, and
  the synchronized-output depth moves exactly for \<^verbatim>\<open>CSI ? 2026 h/l\<close>.
\<close>

theorem feed_csi:
  assumes "length (params s) = CSI_PARAM_CAP"
    and "\<forall>b \<in> set ps. 0x20 \<le> b \<and> b \<le> 0x3F" and "0x40 \<le> final" and "final \<le> 0x7E"
  shows "\<exists>s'. feed_with s ([0x1B, 0x5B] @ ps @ [final]) =
       (s', [SeqCsi (take CSI_PARAM_CAP ps) final
          (length ps \<le> CSI_PARAM_CAP \<and> (\<forall>b \<in> set ps. plain_param b))]) \<and>
     at_escape_boundary s' \<and>
     sync_depth s' = sync_after (take CSI_PARAM_CAP ps) final (sync_depth s)"
proof -
  obtain s1 where 1: "feed_with s [0x1B, 0x5B] = (s1, [])" "csi_after s [] s1"
    using csi_open [OF assms(1)] by blast
  obtain s2 where 2: "feed_with s1 ps = (s2, [])" "csi_after s ps s2"
    using csi_after_params [OF 1(2) assms(2)] by auto
  obtain s3 where "sb_step s2 final = (s3, Some (SeqCsi (take CSI_PARAM_CAP ps) final
          (length ps \<le> CSI_PARAM_CAP \<and> (\<forall>b \<in> set ps. plain_param b))))"
      "at_escape_boundary s3"
      "sync_depth s3 = sync_after (take CSI_PARAM_CAP ps) final (sync_depth s)"
    using csi_close [OF 2(2) assms(3,4)] by blast
  with 1(1) 2(1) show ?thesis
    by (simp only: scan.run_append feed_with.simps Let_def prod.case) simp
qed

theorem feed_csi_witness:
  "\<exists>s'. feed_with (sb_new\<lparr>sb_state := Str True\<rparr>)
        ([0x1B, 0x5B] @ [0x3F, 0x32, 0x30, 0x32, 0x36] @ [0x68]) =
       (s', [SeqCsi [0x3F, 0x32, 0x30, 0x32, 0x36] 0x68 False]) \<and>
     at_escape_boundary s' \<and> sync_depth s' = 1"
  using feed_csi [of "sb_new\<lparr>sb_state := Str True\<rparr>" "[0x3F, 0x32, 0x30, 0x32, 0x36]" "0x68"]
  by (simp add: sb_new_def size_consts plain_param_def sync_after_def sync_mode_def arith_defs
      del: feed_with.simps)

text \<open>
  a character is atomic. At a boundary, the bytes of a UTF-8 character (a lead byte
  and the number of continuation bytes it announces) keep the stream off the boundary
  until the last one, which restores it.
\<close>

theorem feed_utf8:
  assumes "at_escape_boundary s" and "\<not> aborts lead" and "length conts = utf8_need lead"
    and "\<forall>b \<in> set conts. 0x80 \<le> b \<and> b < 0xC0"
  shows "at_escape_boundary (feed s (lead # conts)) \<and>
     (\<forall>n < length conts. \<not> at_escape_boundary (feed s (lead # take n conts)))"
proof -
  let ?s = "s\<lparr>utf8_remaining := utf8_need lead\<rparr>"
  have "lead \<noteq> 0x1B" "lead \<noteq> 0x18" "lead \<noteq> 0x1A" using assms(2) by (simp_all add: aborts_def)
  then have lead: "fst (sb_step s lead) = ?s"
    using assms(1) by (simp add: sb_step_def at_escape_boundary_def)
  have conts: "feed t ds = t\<lparr>utf8_remaining := utf8_remaining t - length ds\<rparr>"
    if "sb_state t = Ground" "length ds \<le> utf8_remaining t"
      "\<forall>b \<in> set ds. 0x80 \<le> b \<and> b < 0xC0" for t ds
    using that
  proof (induction ds arbitrary: t)
    case Nil
    then show ?case by simp
  next
    case (Cons d ds)
    then have "d \<noteq> 0x1B" "d \<noteq> 0x18" "d \<noteq> 0x1A" by auto
    then have "fst (sb_step t d) = t\<lparr>utf8_remaining := utf8_remaining t - 1\<rparr>"
      using Cons.prems by (simp add: sb_step_def)
    with Cons.IH [of "fst (sb_step t d)"] Cons.prems show ?case by (simp add: feed_Cons)
  qed
  have g: "sb_state ?s = Ground" using assms(1) by (simp add: at_escape_boundary_def)
  have "at_escape_boundary (feed s (lead # conts))"
    using conts [OF g, of conts] assms(3,4) g
    by (simp add: feed_Cons lead at_escape_boundary_def)
  moreover have "\<not> at_escape_boundary (feed s (lead # take n conts))" if "n < length conts" for n
  proof -
    have "\<forall>b \<in> set (take n conts). 0x80 \<le> b \<and> b < 0xC0" using assms(4) by (meson in_set_takeD)
    from conts [OF g _ this] that assms(3) show ?thesis
      by (simp add: feed_Cons lead at_escape_boundary_def)
  qed
  ultimately show ?thesis by blast
qed

theorem feed_utf8_witness:
  "at_escape_boundary (feed sb_new [0xE2, 0x96, 0x88]) \<and>
   \<not> at_escape_boundary (feed sb_new [0xE2]) \<and> \<not> at_escape_boundary (feed sb_new [0xE2, 0x96])"
proof -
  have "at_escape_boundary (feed sb_new (0xE2 # [0x96, 0x88])) \<and>
     (\<forall>n < length [0x96, 0x88 :: byte]. \<not> at_escape_boundary (feed sb_new (0xE2 # take n [0x96, 0x88])))"
    by (rule feed_utf8) (simp_all add: sb_new_def at_escape_boundary_def aborts_def utf8_need_def)
  then show ?thesis by (auto dest: spec [of _ 0] spec [of _ 1])
qed

end
