(* ===== verification/Margin_Tracker.thy ===== *)
theory Margin_Tracker
  imports Stream_Boundary
begin

text \<open>
  \<open>src/screen/margins.rs\<close>: \<open>MarginTracker\<close>, which recovers the workload's scroll region
  (DECSTBM) from the sequences \<open>StreamBoundary\<close> reports, and says which chunks reset the
  margins or erased the display.
\<close>

section \<open>State and operations\<close>

record csi_event =
  margins_reset :: bool
  erase :: bool

definition csi_event_default :: csi_event where
  "csi_event_default = \<lparr>margins_reset = False, erase = False\<rparr>"

record margin_tracker =
  mt_rows :: nat
  scanner :: boundary
  region :: "(nat \<times> nat) option"
  subregion_seen :: bool

definition mt_new :: "nat \<Rightarrow> margin_tracker" where
  "mt_new rows = \<lparr>mt_rows = max rows 1, scanner = sb_new, region = None, subregion_seen = False\<rparr>"

definition margins :: "margin_tracker \<Rightarrow> (nat \<times> nat) option" where
  "margins m = (case region m of None \<Rightarrow> None
     | Some (t, b) \<Rightarrow> if t < b then Some (t, b) else None)"

definition mt_reset :: "margin_tracker \<Rightarrow> margin_tracker" where
  "mt_reset m = m\<lparr>region := None, scanner := sb_reset (scanner m), subregion_seen := False\<rparr>"

definition set_rows :: "nat \<Rightarrow> margin_tracker \<Rightarrow> margin_tracker" where
  "set_rows new_rows m =
     (let rows = max new_rows 1 in
      m\<lparr>mt_rows := rows,
        region := (case region m of
            None \<Rightarrow> None
          | Some (t, bottom) \<Rightarrow>
              (let b = (if bottom = mt_rows m then rows else min bottom rows) in
               if t \<le> b \<and> \<not> (t = 1 \<and> b = rows) then Some (t, b) else None))\<rparr>)"

definition decstbm_value :: "bytes \<Rightarrow> nat" where
  "decstbm_value param = dec_sat U16_MAX (takeWhile is_digit param)"

definition decstbm_params :: "bytes \<Rightarrow> nat \<Rightarrow> nat \<times> nat" where
  "decstbm_params ps rows =
     (let values = map decstbm_value (split_on 0x3B ps);
          t = (case values of [] \<Rightarrow> 0 | v # _ \<Rightarrow> v);
          b = (case values of _ # v # _ \<Rightarrow> v | _ \<Rightarrow> 0)
      in (if t = 0 then 1 else t, if b = 0 then rows else b))"

text \<open>\<open>apply\<close> on the tracked fields \<open>(region, subregion_seen)\<close>.\<close>

definition mt_apply ::
    "nat \<Rightarrow> (nat \<times> nat) option \<times> bool \<Rightarrow> sequence \<Rightarrow>
     ((nat \<times> nat) option \<times> bool) \<times> csi_event" where
  "mt_apply rows rs q =
     (let reset = \<lparr>margins_reset = True, erase = False\<rparr> in
      case q of
        SeqEsc b \<Rightarrow> (if b = 0x63 then ((None, snd rs), reset) else (rs, csi_event_default))
      | SeqCsi ps final plain \<Rightarrow>
          (if final = 0x4A then (rs, \<lparr>margins_reset = False, erase = True\<rparr>)
           else if final = 0x72 \<and> plain then
             (let (t, bottom) = decstbm_params ps rows; b = min bottom rows in
              if t < b \<and> \<not> (t = 1 \<and> b = rows)
              then ((Some (t, b), True), csi_event_default)
              else ((None, snd rs), reset))
           else (rs, csi_event_default)))"

definition event_or :: "csi_event \<Rightarrow> csi_event \<Rightarrow> csi_event" where
  "event_or e f = \<lparr>margins_reset = margins_reset e \<or> margins_reset f, erase = erase e \<or> erase f\<rparr>"

fun apply_all ::
    "nat \<Rightarrow> (nat \<times> nat) option \<times> bool \<Rightarrow> csi_event \<Rightarrow> sequence list \<Rightarrow>
     ((nat \<times> nat) option \<times> bool) \<times> csi_event" where
  "apply_all rows rs e [] = (rs, e)"
| "apply_all rows rs e (q # qs) =
     (let (rs', e') = mt_apply rows rs q in apply_all rows rs' (event_or e e') qs)"

text \<open>
  \<open>scan_with\<close>: the scanner's callback sees the sequences in order and never touches the
  scanner, so the fold runs over the reported list, which is also what the observer gets.
\<close>

definition scan_with :: "margin_tracker \<Rightarrow> bytes \<Rightarrow> margin_tracker \<times> csi_event \<times> sequence list" where
  "scan_with m data =
     (let (sc, qs) = feed_with (scanner m) data;
          ((r, seen), e) = apply_all (mt_rows m) (region m, subregion_seen m) csi_event_default qs
      in (m\<lparr>scanner := sc, region := r, subregion_seen := seen\<rparr>, e, qs))"

definition mt_scan :: "margin_tracker \<Rightarrow> bytes \<Rightarrow> margin_tracker \<times> csi_event" where
  "mt_scan m data = (let (m', e, _) = scan_with m data in (m', e))"

section \<open>Invariant\<close>

definition region_ok :: "nat \<Rightarrow> (nat \<times> nat) option \<Rightarrow> bool" where
  "region_ok rows r = (case r of None \<Rightarrow> True
     | Some (t, b) \<Rightarrow> 1 \<le> t \<and> t \<le> b \<and> b \<le> rows \<and> (t, b) \<noteq> (1, rows))"

definition mt_inv :: "margin_tracker \<Rightarrow> bool" where
  "mt_inv m \<longleftrightarrow> 1 \<le> mt_rows m \<and> sb_inv (scanner m) \<and> region_ok (mt_rows m) (region m)"

datatype mt_op = Scan bytes | SetRows nat | ResetAll

fun mt_run :: "margin_tracker \<Rightarrow> mt_op list \<Rightarrow> margin_tracker" where
  "mt_run m [] = m"
| "mt_run m (Scan data # ops) = mt_run (fst (mt_scan m data)) ops"
| "mt_run m (SetRows n # ops) = mt_run (set_rows n m) ops"
| "mt_run m (ResetAll # ops) = mt_run (mt_reset m) ops"

lemma decstbm_params_pos: "1 \<le> rows \<Longrightarrow> 1 \<le> fst (decstbm_params ps rows)"
  by (simp add: decstbm_params_def Let_def)

lemma region_ok_apply:
  assumes "region_ok rows (fst rs)" "1 \<le> rows"
  shows "region_ok rows (fst (fst (mt_apply rows rs q)))"
  using assms decstbm_params_pos [OF assms(2)]
  by (auto simp: mt_apply_def region_ok_def Let_def case_prod_beta split: sequence.split)

lemma region_ok_apply_all:
  "region_ok rows (fst rs) \<Longrightarrow> 1 \<le> rows \<Longrightarrow> region_ok rows (fst (fst (apply_all rows rs e qs)))"
  by (induction qs arbitrary: rs e) (auto simp: case_prod_beta region_ok_apply)

lemma mt_inv_new: "mt_inv (mt_new rows)"
  by (simp add: mt_inv_def mt_new_def region_ok_def)

lemma sb_inv_feed_with: "sb_inv s \<Longrightarrow> sb_inv (fst (feed_with s data))"
  by (rule scan.run_invariant [where I = sb_inv]) (use sb_step_inv in auto)

lemma mt_inv_scan: "mt_inv m \<Longrightarrow> mt_inv (fst (mt_scan m data))"
  using region_ok_apply_all [of "mt_rows m" "(region m, subregion_seen m)"]
  by (simp add: mt_inv_def mt_scan_def scan_with_def Let_def case_prod_beta sb_inv_feed_with)

lemma mt_inv_set_rows: "mt_inv m \<Longrightarrow> mt_inv (set_rows n m)"
  by (auto simp: mt_inv_def set_rows_def region_ok_def Let_def split: option.splits)

lemma mt_inv_reset: "mt_inv m \<Longrightarrow> mt_inv (mt_reset m)"
  by (simp add: mt_inv_def mt_reset_def sb_reset_def region_ok_def)

lemma mt_inv_run: "mt_inv m \<Longrightarrow> mt_inv (mt_run m ops)"
  by (induction m ops rule: mt_run.induct) (auto simp: mt_inv_scan mt_inv_set_rows mt_inv_reset)

text \<open>
  Whatever bytes, resizes and resets a tracker goes through, the region it emits is a
  proper sub-range of the current screen: at least two rows, inside the rows, and not the
  whole screen. Emitting it is therefore always a valid DECSTBM.
\<close>

theorem margins_proper:
  "case margins (mt_run (mt_new rows) ops) of
     None \<Rightarrow> True
   | Some (t, b) \<Rightarrow> 1 \<le> t \<and> t < b \<and> b \<le> mt_rows (mt_run (mt_new rows) ops) \<and>
       (t, b) \<noteq> (1, mt_rows (mt_run (mt_new rows) ops))"
proof -
  have "mt_inv (mt_run (mt_new rows) ops)" by (intro mt_inv_run mt_inv_new)
  then show ?thesis
    by (auto simp: mt_inv_def region_ok_def margins_def split: option.split)
qed

section \<open>Events and chunking\<close>

lemma event_or_assoc: "event_or (event_or a b) c = event_or a (event_or b c)"
  by (simp add: event_or_def)

lemma event_or_default [simp]: "event_or csi_event_default e = e" "event_or e csi_event_default = e"
  by (simp_all add: event_or_def csi_event_default_def)

lemma apply_all_event:
  "apply_all rows rs e qs =
     (let (rs', e') = apply_all rows rs csi_event_default qs in (rs', event_or e e'))"
proof (induction qs arbitrary: rs e)
  case Nil
  then show ?case by simp
next
  case (Cons q qs)
  obtain rs1 e1 where 1: "mt_apply rows rs q = (rs1, e1)" by fastforce
  show ?case
    using Cons.IH [of rs1 "event_or e e1"] Cons.IH [of rs1 e1]
    by (simp add: 1 Let_def case_prod_beta event_or_assoc)
qed

lemma apply_all_append:
  "apply_all rows rs e (xs @ ys) =
     (let (rs', e') = apply_all rows rs e xs in apply_all rows rs' e' ys)"
  by (induction xs arbitrary: rs e) (auto simp: case_prod_beta)

lemma scan_with_append:
  "mt_scan m (xs @ ys) =
     (let (m1, e1) = mt_scan m xs; (m2, e2) = mt_scan m1 ys in (m2, event_or e1 e2))"
proof -
  obtain s1 q1 where 1: "feed_with (scanner m) xs = (s1, q1)" by fastforce
  obtain s2 q2 where 2: "feed_with s1 ys = (s2, q2)" by fastforce
  obtain r1 b1 e1 where a1: "apply_all (mt_rows m) (region m, subregion_seen m) csi_event_default q1
      = ((r1, b1), e1)" by (metis prod.exhaust)
  show ?thesis
    using apply_all_event [of "mt_rows m" "(r1, b1)" e1 q2]
    by (simp add: mt_scan_def scan_with_def scan.run_append 1 2 a1 apply_all_append Let_def
        case_prod_beta)
qed

fun scan_pieces :: "margin_tracker \<Rightarrow> bytes list \<Rightarrow> margin_tracker \<times> csi_event" where
  "scan_pieces m [] = (m, csi_event_default)"
| "scan_pieces m (c # cs) =
     (let (m1, e1) = mt_scan m c; (m2, e2) = scan_pieces m1 cs in (m2, event_or e1 e2))"

text \<open>
  Where the PTY reads cut the stream changes neither the tracked region nor, over all
  the pieces together, the reported triggers.
\<close>

theorem scan_pieces_concat: "scan_pieces m cs = mt_scan m (concat cs)"
proof (induction cs arbitrary: m)
  case Nil
  then show ?case by (simp add: mt_scan_def scan_with_def)
next
  case (Cons c cs)
  then show ?case by (simp add: scan_with_append case_prod_beta Let_def)
qed

section \<open>DECSTBM\<close>

text \<open>The bytes of \<^verbatim>\<open>CSI top ; bottom r\<close>.\<close>

definition decstbm_bytes :: "nat \<Rightarrow> nat \<Rightarrow> bytes" where
  "decstbm_bytes t b = [0x1B, 0x5B] @ (dec_bytes t @ 0x3B # dec_bytes b) @ [0x72]"

lemma takeWhile_dec_bytes [simp]: "takeWhile is_digit (dec_bytes n) = dec_bytes n"
  using dec_bytes_digits by (simp add: takeWhile_eq_all_conv)

lemma dec_bytes_no_semicolon: "0x3B \<notin> set (dec_bytes n)"
proof
  assume "0x3B \<in> set (dec_bytes n)"
  then have "is_digit 0x3B" using dec_bytes_digits by blast
  then show False by (simp add: is_digit_def)
qed

lemma decstbm_params_bytes:
  assumes "0 < t" "0 < b" "t \<le> U16_MAX" "b \<le> U16_MAX"
  shows "decstbm_params (dec_bytes t @ 0x3B # dec_bytes b) rows = (t, b)"
  using assms
  by (simp add: decstbm_params_def split_on_sep split_on_no_sep dec_bytes_no_semicolon
      decstbm_value_def dec_sat_value)

lemma decstbm_param_bytes:
  assumes "x \<in> set (dec_bytes t @ 0x3B # dec_bytes b)"
  shows "0x20 \<le> x \<and> x \<le> 0x3F \<and> plain_param x"
proof -
  have "is_digit x \<or> x = 0x3B" using assms dec_bytes_digits by auto
  then show ?thesis
    by (auto simp: is_digit_def plain_param_def word_le_nat_alt)
qed

lemma scan_decstbm:
  assumes "sb_inv (scanner m)" "t \<le> U16_MAX" "b \<le> U16_MAX"
  shows "\<exists>sc. feed_with (scanner m) (decstbm_bytes t b) =
     (sc, [SeqCsi (dec_bytes t @ 0x3B # dec_bytes b) 0x72 True]) \<and> at_escape_boundary sc"
proof -
  let ?ps = "dec_bytes t @ 0x3B # dec_bytes b"
  have "length (dec_bytes t) \<le> Suc 4" "length (dec_bytes b) \<le> Suc 4"
    using assms(2,3) length_dec_bytes [of t 4] length_dec_bytes [of b 4]
    by (simp_all add: size_consts)
  then have len: "length ?ps \<le> CSI_PARAM_CAP" by (simp add: size_consts)
  have cap: "length (params (scanner m)) = CSI_PARAM_CAP" using assms(1) by (simp add: sb_inv_def)
  obtain s1 where 1: "feed_with (scanner m) [0x1B, 0x5B] = (s1, [])" "csi_after (scanner m) [] s1"
    using csi_open [OF cap] by blast
  obtain s2 where 2: "feed_with s1 ?ps = (s2, [])" "csi_after (scanner m) ?ps s2"
    using csi_after_params [OF 1(2), of ?ps] decstbm_param_bytes by auto
  obtain s3 where "sb_step s2 0x72 = (s3, Some (SeqCsi ?ps 0x72 True))" "at_escape_boundary s3"
    using csi_close [OF 2(2), of "0x72"] decstbm_param_bytes len by fastforce
  then show ?thesis
    unfolding decstbm_bytes_def using 1(1) 2(1) by (simp only: scan.run_append) simp
qed

text \<open>
  A workload that sends \<^verbatim>\<open>CSI top ; bottom r\<close> for a proper sub-range of the screen,
  in any state of the scanner, gets exactly that region, is not reported as a reset, and
  marks the live scrollback as incomplete.
\<close>

theorem decstbm_roundtrip:
  assumes "mt_inv m" and "1 \<le> t" and "t < b" and "b \<le> mt_rows m" and "mt_rows m \<le> U16_MAX"
    and "(t, b) \<noteq> (1, mt_rows m)"
  shows "margins (fst (mt_scan m (decstbm_bytes t b))) = Some (t, b) \<and>
     snd (mt_scan m (decstbm_bytes t b)) = csi_event_default \<and>
     subregion_seen (fst (mt_scan m (decstbm_bytes t b)))"
proof -
  have "t \<le> U16_MAX" "b \<le> U16_MAX" using assms by auto
  with assms(1) obtain sc where sc: "feed_with (scanner m) (decstbm_bytes t b) =
     (sc, [SeqCsi (dec_bytes t @ 0x3B # dec_bytes b) 0x72 True])"
    using scan_decstbm by (metis mt_inv_def)
  have "decstbm_params (dec_bytes t @ 0x3B # dec_bytes b) (mt_rows m) = (t, b)"
    using assms by (intro decstbm_params_bytes) auto
  then show ?thesis
    using assms by (simp add: mt_scan_def scan_with_def sc mt_apply_def margins_def min_def)
qed

theorem decstbm_roundtrip_witness:
  "margins (fst (mt_scan (mt_new 24) (decstbm_bytes 3 20))) = Some (3, 20) \<and>
     snd (mt_scan (mt_new 24) (decstbm_bytes 3 20)) = csi_event_default \<and>
     subregion_seen (fst (mt_scan (mt_new 24) (decstbm_bytes 3 20)))"
  by (rule decstbm_roundtrip) (simp_all add: mt_inv_def region_ok_def mt_new_def size_consts)

section \<open>Resizing\<close>

text \<open>
  a region anchored to the last row survives a shrink and the growth back, as long
  as its top still fits: even when the shrink leaves one row, which is not emitted.
\<close>

theorem set_rows_anchored:
  assumes "mt_inv m" and "region m = Some (t, mt_rows m)" and "t \<le> n"
  shows "region (set_rows (mt_rows m) (set_rows n m)) = region m \<and>
     margins (set_rows n m) = (if t < n then Some (t, n) else None)"
  using assms
  by (auto simp: mt_inv_def region_ok_def set_rows_def margins_def Let_def)

theorem set_rows_anchored_witness:
  "region (set_rows (mt_rows (mt_new 24\<lparr>region := Some (5, 24)\<rparr>)) (set_rows 5 (mt_new 24\<lparr>region := Some (5, 24)\<rparr>)))
     = region (mt_new 24\<lparr>region := Some (5, 24)\<rparr>) \<and>
   margins (set_rows 5 (mt_new 24\<lparr>region := Some (5, 24)\<rparr>)) =
     (if 5 < (5 :: nat) then Some (5, 5) else None)"
  by (rule set_rows_anchored) (simp_all add: mt_inv_def mt_new_def region_ok_def)

end
