(* ===== verification/Screen_Tracker.thy ===== *)
theory Screen_Tracker
  imports Margin_Tracker
begin

text \<open>
  \<open>src/screen/mod.rs\<close> (geometry bounds) and \<open>src/screen/tracker.rs\<close>: \<open>ScreenTracker\<close>, the live
  screen model of a session. The terminal emulator itself (\<open>vt100::Parser\<close>) is third-party
  code: it is the record \<open>vt100\<close> of the operations the tracker calls, an argument of every
  definition that uses it. The emulator's state is a type parameter.
\<close>

section \<open>Geometry\<close>

definition MAX_SCREEN_CELLS :: nat where [size_consts]: "MAX_SCREEN_CELLS = 256 * 1024"
definition MAX_SCROLLBACK_CELLS :: nat where [size_consts]: "MAX_SCROLLBACK_CELLS = 1024 * 1024"
definition DEFAULT_TERMINAL_ROWS :: nat where [size_consts]: "DEFAULT_TERMINAL_ROWS = 24"
definition DEFAULT_TERMINAL_COLS :: nat where [size_consts]: "DEFAULT_TERMINAL_COLS = 80"
definition MIN_TERMINAL_ROWS :: nat where [size_consts]: "MIN_TERMINAL_ROWS = 2"

datatype size_error = DimensionsOverflow | TooManyCells

definition scrollback_lines_for :: "nat \<Rightarrow> nat \<Rightarrow> nat" where
  "scrollback_lines_for cols lines =
     (if lines = 0 then 0 else max (min lines (MAX_SCROLLBACK_CELLS div max cols 1)) 1)"

definition validate_size_with_minimum :: "nat \<Rightarrow> nat \<Rightarrow> nat \<Rightarrow> size_error + nat \<times> nat" where
  "validate_size_with_minimum rows cols min_rows =
     (let rows = (if rows = 0 then DEFAULT_TERMINAL_ROWS else max rows min_rows);
          cols = (if cols = 0 then DEFAULT_TERMINAL_COLS else cols)
      in case checked_mul U64_MAX rows cols of
           None \<Rightarrow> Inl DimensionsOverflow
         | Some cells \<Rightarrow> if MAX_SCREEN_CELLS < cells then Inl TooManyCells else Inr (rows, cols))"

definition validate_size :: "nat \<Rightarrow> nat \<Rightarrow> size_error + nat \<times> nat" where
  "validate_size rows cols = validate_size_with_minimum rows cols 1"

definition validate_worker_size :: "nat \<Rightarrow> nat \<Rightarrow> size_error + nat \<times> nat" where
  "validate_worker_size rows cols = validate_size_with_minimum rows cols MIN_TERMINAL_ROWS"

definition validate_screen_size :: "nat \<Rightarrow> nat \<Rightarrow> size_error + nat \<times> nat" where
  "validate_screen_size rows cols = validate_size_with_minimum rows cols MIN_TERMINAL_ROWS"

section \<open>The emulator's interface\<close>

datatype mouse_mode = MouseNone | Press | PressRelease | ButtonMotion | AnyMotion
datatype mouse_encoding = DefaultEncoding | Utf8Encoding | SgrEncoding

text \<open>
  The operations of \<open>vt100::Parser\<close> and \<open>vt100::Screen\<close> the sources call. A row's text is
  only compared and asked whether it is blank (\<open>trim().is_empty()\<close>).
\<close>

record 'p vt100 =
  vt_new :: "nat \<Rightarrow> nat \<Rightarrow> nat \<Rightarrow> 'p"
  vt_process :: "bytes \<Rightarrow> 'p \<Rightarrow> 'p"
  vt_alternate_screen :: "'p \<Rightarrow> bool"
  vt_state_formatted :: "'p \<Rightarrow> bytes"
  vt_contents_formatted :: "'p \<Rightarrow> bytes"
  vt_cursor_state_formatted :: "'p \<Rightarrow> bytes"
  vt_attributes_formatted :: "'p \<Rightarrow> bytes"
  vt_contents :: "'p \<Rightarrow> string"
  vt_cursor_position :: "'p \<Rightarrow> nat \<times> nat"
  vt_size :: "'p \<Rightarrow> nat \<times> nat"
  vt_set_size :: "nat \<Rightarrow> nat \<Rightarrow> 'p \<Rightarrow> 'p"
  vt_set_scrollback :: "nat \<Rightarrow> 'p \<Rightarrow> 'p"
  vt_scrollback :: "'p \<Rightarrow> nat"
  vt_rows :: "'p \<Rightarrow> string list"
  vt_row_blank :: "string \<Rightarrow> bool"
  vt_mouse_protocol_mode :: "'p \<Rightarrow> mouse_mode"
  vt_mouse_protocol_encoding :: "'p \<Rightarrow> mouse_encoding"

section \<open>State and operations\<close>

record layout_change =
  lc_alt_screen :: bool
  lc_margins_reset :: bool
  lc_erase_reset :: bool

record 'p screen_tracker =
  st_parser :: 'p
  st_margins :: margin_tracker
  st_alt_screen :: bool
  st_scrollback :: nat

definition st_rows :: "'p vt100 \<Rightarrow> 'p screen_tracker \<Rightarrow> nat" where
  "st_rows V t = fst (vt_size V (st_parser t))"

definition st_cols :: "'p vt100 \<Rightarrow> 'p screen_tracker \<Rightarrow> nat" where
  "st_cols V t = snd (vt_size V (st_parser t))"

definition st_cursor_position :: "'p vt100 \<Rightarrow> 'p screen_tracker \<Rightarrow> nat \<times> nat" where
  "st_cursor_position V t = vt_cursor_position V (st_parser t)"

definition st_at_escape_boundary :: "'p screen_tracker \<Rightarrow> bool" where
  "st_at_escape_boundary t = at_escape_boundary (scanner (st_margins t))"

definition st_in_synchronized_update :: "'p screen_tracker \<Rightarrow> bool" where
  "st_in_synchronized_update t = in_synchronized_update (scanner (st_margins t))"

definition st_bytes_to_ground :: "'p screen_tracker \<Rightarrow> bytes \<Rightarrow> nat" where
  "st_bytes_to_ground t data = bytes_to_ground (scanner (st_margins t)) data"

definition st_get_margins :: "'p screen_tracker \<Rightarrow> (nat \<times> nat) option" where
  "st_get_margins t = margins (st_margins t)"

definition st_subregion_seen :: "'p screen_tracker \<Rightarrow> bool" where
  "st_subregion_seen t = subregion_seen (st_margins t)"

definition st_contents :: "'p vt100 \<Rightarrow> 'p screen_tracker \<Rightarrow> string" where
  "st_contents V t = vt_contents V (st_parser t)"

definition st_reset_margins :: "'p screen_tracker \<Rightarrow> 'p screen_tracker" where
  "st_reset_margins t = t\<lparr>st_margins := mt_reset (st_margins t)\<rparr>"

definition try_new_with_scrollback ::
    "'p vt100 \<Rightarrow> nat \<Rightarrow> nat \<Rightarrow> nat \<Rightarrow> size_error + 'p screen_tracker" where
  "try_new_with_scrollback V rows cols scrollback =
     res_bind (validate_screen_size rows cols) (\<lambda>(rows, cols).
       Inr \<lparr>st_parser = vt_new V rows cols scrollback, st_margins = mt_new rows,
            st_alt_screen = False, st_scrollback = scrollback\<rparr>)"

definition st_try_new :: "'p vt100 \<Rightarrow> nat \<Rightarrow> nat \<Rightarrow> size_error + 'p screen_tracker" where
  "st_try_new V rows cols = try_new_with_scrollback V rows cols 0"

text \<open>\<^verbatim>\<open>usize::MAX\<close> is the 64-bit one.\<close>

definition scrollback_available :: "'p vt100 \<Rightarrow> 'p screen_tracker \<Rightarrow> nat \<times> 'p screen_tracker" where
  "scrollback_available V t =
     (let p = vt_set_scrollback V U64_MAX (st_parser t); available = vt_scrollback V p in
      (available, t\<lparr>st_parser := vt_set_scrollback V 0 p\<rparr>))"

definition scrolled_frame ::
    "'p vt100 \<Rightarrow> 'p screen_tracker \<Rightarrow> nat \<Rightarrow> (bytes \<times> nat \<times> nat) \<times> 'p screen_tracker" where
  "scrolled_frame V t offset =
     (let p = vt_set_scrollback V U64_MAX (st_parser t); available = vt_scrollback V p;
          p = vt_set_scrollback V offset p; clamped = vt_scrollback V p;
          out = vt_contents_formatted V p
      in ((out, clamped, available), t\<lparr>st_parser := vt_set_scrollback V 0 p\<rparr>))"

definition decset :: "nat \<Rightarrow> byte \<Rightarrow> bytes" where
  "decset n final = [0x1B, 0x5B, 0x3F] @ dec_bytes n @ [final]"

definition workload_mouse_sequence :: "'p vt100 \<Rightarrow> 'p screen_tracker \<Rightarrow> bytes" where
  "workload_mouse_sequence V t =
     concat (map (\<lambda>n. decset n 0x6C) [9, 1000, 1002, 1003, 1005, 1006]) @
     (case vt_mouse_protocol_mode V (st_parser t) of
        MouseNone \<Rightarrow> [] | Press \<Rightarrow> decset 9 0x68 | PressRelease \<Rightarrow> decset 1000 0x68
      | ButtonMotion \<Rightarrow> decset 1002 0x68 | AnyMotion \<Rightarrow> decset 1003 0x68) @
     (case vt_mouse_protocol_encoding V (st_parser t) of
        DefaultEncoding \<Rightarrow> [] | Utf8Encoding \<Rightarrow> decset 1005 0x68 | SgrEncoding \<Rightarrow> decset 1006 0x68)"

definition workload_wants_mouse :: "'p vt100 \<Rightarrow> 'p screen_tracker \<Rightarrow> bool" where
  "workload_wants_mouse V t \<longleftrightarrow> vt_mouse_protocol_mode V (st_parser t) \<noteq> MouseNone"

definition process_with ::
    "'p vt100 \<Rightarrow> 'p screen_tracker \<Rightarrow> bytes \<Rightarrow> 'p screen_tracker \<times> layout_change option \<times> sequence list" where
  "process_with V t data =
     (let (m, csi, qs) = scan_with (st_margins t) data;
          p = vt_process V data (st_parser t);
          now_alt = vt_alternate_screen V p;
          alt_flip = (now_alt \<noteq> st_alt_screen t)
      in (t\<lparr>st_margins := m, st_parser := p, st_alt_screen := now_alt\<rparr>,
          if margins_reset csi \<or> erase csi \<or> alt_flip
          then Some \<lparr>lc_alt_screen = now_alt, lc_margins_reset = margins_reset csi,
                    lc_erase_reset = erase csi\<rparr>
          else None,
          qs))"

definition st_process :: "'p vt100 \<Rightarrow> 'p screen_tracker \<Rightarrow> bytes \<Rightarrow> 'p screen_tracker \<times> layout_change option" where
  "st_process V t data = (let (t', lc, _) = process_with V t data in (t', lc))"

definition cursor_restore :: "'p vt100 \<Rightarrow> 'p screen_tracker \<Rightarrow> bytes" where
  "cursor_restore V t = vt_cursor_state_formatted V (st_parser t) @ vt_attributes_formatted V (st_parser t)"

definition st_snapshot :: "'p vt100 \<Rightarrow> 'p screen_tracker \<Rightarrow> bytes" where
  "st_snapshot V t =
     (if vt_alternate_screen V (st_parser t) then decset 1049 0x68 else []) @
     vt_state_formatted V (st_parser t) @
     (case st_get_margins t of
        None \<Rightarrow> []
      | Some (top_row, bottom) \<Rightarrow> decstbm_bytes top_row bottom @ cursor_restore V t)"

text \<open>\<^verbatim>\<open>CSI n S\<close> and \<^verbatim>\<open>CSI row ; col H\<close>.\<close>

definition scroll_up_bytes :: "nat \<Rightarrow> bytes" where
  "scroll_up_bytes n = [0x1B, 0x5B] @ dec_bytes n @ [0x53]"

definition cup_bytes :: "nat \<Rightarrow> nat \<Rightarrow> bytes" where
  "cup_bytes row col = [0x1B, 0x5B] @ dec_bytes row @ [0x3B] @ dec_bytes col @ [0x48]"

definition try_set_size ::
    "'p vt100 \<Rightarrow> 'p screen_tracker \<Rightarrow> nat \<Rightarrow> nat \<Rightarrow> (size_error + unit) \<times> 'p screen_tracker" where
  "try_set_size V t rows cols =
     (case validate_screen_size rows cols of
        Inl e \<Rightarrow> (Inl e, t)
      | Inr (rows, cols) \<Rightarrow>
          (let t1 =
             (if rows < st_rows V t \<and> st_get_margins t = None \<and> st_at_escape_boundary t then
                (let excess = int (fst (st_cursor_position V t)) - int rows + 1 in
                 if 0 < excess then
                   (let su = scroll_up_bytes (nat excess) in
                    t\<lparr>st_margins := fst (mt_scan (st_margins t) su),
                      st_parser := vt_process V su (st_parser t)\<rparr>)
                 else t)
              else t)
           in (Inr (), t1\<lparr>st_parser := vt_set_size V rows cols (st_parser t1),
                         st_margins := set_rows rows (st_margins t1)\<rparr>)))"

section \<open>Seeding the history\<close>

definition SEED_SEGMENT_MAX_BYTES :: nat where [size_consts]: "SEED_SEGMENT_MAX_BYTES = 64 * 1024"
definition SEED_CAPTURE_MIN_GROUP_BYTES :: nat where
  [size_consts]: "SEED_CAPTURE_MIN_GROUP_BYTES = 4096"
definition SEED_MAX_ENTERING_ROWS :: nat where [size_consts]: "SEED_MAX_ENTERING_ROWS = 24"
definition SEED_DISPLACED_DEDUP_CAP :: nat where [size_consts]: "SEED_DISPLACED_DEDUP_CAP = 1024"
definition SEED_SHIFT_MISS_DENOMINATOR :: nat where
  [size_consts]: "SEED_SHIFT_MISS_DENOMINATOR = 4"

text \<open>\<^verbatim>\<open>b"\x1b[?2026l"\<close>.\<close>

definition SYNC_FRAME_END :: bytes where
  "SYNC_FRAME_END = [0x1B, 0x5B, 0x3F, 0x32, 0x30, 0x32, 0x36, 0x6C]"

text \<open>\<^verbatim>\<open>windows(n).position(|w| w == needle)\<close>, with the offset of the current window.\<close>

fun find_from :: "nat \<Rightarrow> bytes \<Rightarrow> bytes \<Rightarrow> nat option" where
  "find_from k needle [] = (if needle = [] then Some k else None)"
| "find_from k needle (b # bs) =
     (if take (length needle) (b # bs) = needle then Some k else find_from (k + 1) needle bs)"

definition find_subslice :: "bytes \<Rightarrow> bytes \<Rightarrow> nat option" where
  "find_subslice haystack needle =
     (if length haystack < length needle then None else find_from 0 needle haystack)"

definition changed_rows :: "string list \<Rightarrow> string list \<Rightarrow> nat list" where
  "changed_rows before after_rows =
     filter (\<lambda>i. before ! i \<noteq> after_rows ! i) [0 ..< min (length before) (length after_rows)]"

definition shift_counts :: "string list \<Rightarrow> string list \<Rightarrow> nat list \<Rightarrow> nat \<Rightarrow> nat \<Rightarrow> nat \<times> nat" where
  "shift_counts before after_rows changed span_end entering =
     (let inside = filter (\<lambda>row. row + entering < span_end) changed in
      (length (filter (\<lambda>row. after_rows ! row = before ! (row + entering)) inside),
       length (filter (\<lambda>row. after_rows ! row \<noteq> before ! (row + entering)) inside)))"

definition seed_repaint_shift :: "string list \<Rightarrow> string list \<Rightarrow> (nat \<times> nat) option" where
  "seed_repaint_shift before after_rows =
     (let changed = changed_rows before after_rows in
      if length changed < 2 then None
      else
        let first_row = hd changed; span_end = last changed + 1;
            max_entering = min (span_end - first_row - 1) SEED_MAX_ENTERING_ROWS
        in case find (\<lambda>entering.
             let (aligned, missed) = shift_counts before after_rows changed span_end entering in
             1 \<le> aligned \<and> missed * SEED_SHIFT_MISS_DENOMINATOR \<le> aligned) [1 ..< max_entering + 1] of
             None \<Rightarrow> None | Some entering \<Rightarrow> Some (first_row, entering))"

text \<open>The chunks \<open>for_each_line_feed_chunk\<close> hands out, with \<open>at_line_feed\<close>.\<close>

definition line_feed_chunks :: "bytes \<Rightarrow> (bytes \<times> bool) list" where
  "line_feed_chunks segment =
     (let parts = split_on 0x0A segment in map (\<lambda>c. (c, True)) (butlast parts) @ [(last parts, False)])"

definition next_cut :: "bytes \<Rightarrow> nat \<Rightarrow> nat" where
  "next_cut data start =
     (let window_end = min (start + SEED_SEGMENT_MAX_BYTES) (length data) in
      case find_subslice (take (window_end - start) (drop start data)) SYNC_FRAME_END of
        Some at \<Rightarrow> start + at + length SYNC_FRAME_END
      | None \<Rightarrow> window_end)"

lemma find_from_bound:
  "find_from k needle bs = Some i \<Longrightarrow> k \<le> i \<and> i + length needle \<le> k + length bs"
proof (induction bs arbitrary: k)
  case Nil
  then show ?case by (auto split: if_splits)
next
  case (Cons b bs)
  then show ?case by (fastforce split: if_splits dest: arg_cong [where f = length])
qed

lemma next_cut_bounds:
  assumes "start < length data"
  shows "start < next_cut data start" "next_cut data start \<le> length data"
  using assms
  by (auto simp: next_cut_def Let_def find_subslice_def size_consts SYNC_FRAME_END_def
      split: option.splits if_splits dest!: find_from_bound)

text \<open>The inner loop of \<open>seed\<close>: extend the group until it is large enough.\<close>

function group_end :: "bytes \<Rightarrow> nat \<Rightarrow> nat \<Rightarrow> nat" where
  "group_end data group_start pos =
     (if pos - group_start < SEED_CAPTURE_MIN_GROUP_BYTES \<and> pos < length data
      then group_end data group_start (next_cut data pos) else pos)"
  by auto

termination
  by (relation "measure (\<lambda>(d, g, c). length d - c)") (use next_cut_bounds in \<open>auto simp: diff_less_mono2\<close>)

declare group_end.simps [simp del]

lemma group_end_bounds:
  "pos \<le> length data \<Longrightarrow> pos \<le> group_end data g pos \<and> group_end data g pos \<le> length data \<and>
     (group_end data g pos < length data \<longrightarrow> SEED_CAPTURE_MIN_GROUP_BYTES \<le> group_end data g pos - g)"
proof (induction data g pos rule: group_end.induct)
  case (1 data g pos)
  then show ?case
    using next_cut_bounds [of pos data] by (subst (1 2 3 4) group_end.simps) fastforce
qed

function seed_segments_from :: "bytes \<Rightarrow> nat \<Rightarrow> bytes list" where
  "seed_segments_from data start =
     (if start < length data then
        (let pos = group_end data start (next_cut data start) in
         take (pos - start) (drop start data) # seed_segments_from data pos)
      else [])"
  by auto

termination
proof (relation "measure (\<lambda>(d, s). length d - s)")
  fix data :: bytes and start pos :: nat
  assume "start < length data" "pos = group_end data start (next_cut data start)"
  then show "((data, pos), data, start) \<in> measure (\<lambda>(d, s). length d - s)"
    using next_cut_bounds [of start data] group_end_bounds [of "next_cut data start" data start] by auto
qed simp

declare seed_segments_from.simps [simp del]

definition seed_segments :: "bytes \<Rightarrow> bytes list" where
  "seed_segments data = seed_segments_from data 0"

text \<open>
  \<open>without_scroll_regions\<close> of \<open>src/screen/client.rs\<close>: the walk over the indices, with the
  buffer that exists once something was removed.
\<close>

definition region_param :: "byte \<Rightarrow> bool" where
  "region_param b \<longleftrightarrow> 0x30 \<le> b \<and> b \<le> 0x39 \<or> b = 0x3B"

function strip_loop :: "bytes \<Rightarrow> nat \<Rightarrow> nat \<Rightarrow> bytes option \<Rightarrow> nat \<times> bytes option" where
  "strip_loop data i copied out =
     (if i < length data then
        (if data ! i \<noteq> 0x1B \<or> length data \<le> i + 1 \<or> data ! (i + 1) \<noteq> 0x5B
         then strip_loop data (i + 1) copied out
         else
           let e = i + 2 + length (takeWhile region_param (drop (i + 2) data)) in
           if e < length data \<and> data ! e = 0x72
           then strip_loop data (e + 1) (e + 1)
             (Some ((case out of None \<Rightarrow> [] | Some buf \<Rightarrow> buf) @ take (i - copied) (drop copied data)))
           else strip_loop data e copied out)
      else (copied, out))"
  by auto

termination
  by (relation "measure (\<lambda>(d, i, c, out). length d - i)") (auto simp: Let_def)

declare strip_loop.simps [simp del]

definition without_scroll_regions :: "bytes \<Rightarrow> bytes" where
  "without_scroll_regions data =
     (case strip_loop data 0 0 None of
        (copied, Some buf) \<Rightarrow> buf @ drop copied data
      | (_, None) \<Rightarrow> data)"

text \<open>The line feed of a seed: a full-grid scroll where the region's bottom was reached.\<close>

definition synth_scroll :: "nat \<Rightarrow> nat \<Rightarrow> nat \<Rightarrow> bytes" where
  "synth_scroll rows row col = cup_bytes rows 1 @ [0x0A] @ cup_bytes (row + 1) (col + 1)"

definition at_region_bottom :: "margin_tracker \<Rightarrow> nat \<Rightarrow> nat \<Rightarrow> bool" where
  "at_region_bottom mirror rows row =
     (case margins mirror of Some (t, bottom) \<Rightarrow> t = 1 \<and> bottom < rows \<and> row = bottom - 1 | None \<Rightarrow> False)"

definition seed_feed_parser ::
    "'p vt100 \<Rightarrow> nat \<Rightarrow> bytes \<Rightarrow> 'p \<times> margin_tracker \<Rightarrow> 'p \<times> margin_tracker" where
  "seed_feed_parser V rows segment s =
     fold (\<lambda>(chunk, at_line_feed) (p, mirror).
       let mirror = fst (mt_scan mirror chunk);
           p = vt_process V (without_scroll_regions chunk) p
       in if \<not> at_line_feed then (p, mirror)
          else if at_region_bottom mirror rows (fst (vt_cursor_position V p))
            then (vt_process V (synth_scroll rows (fst (vt_cursor_position V p))
                    (snd (vt_cursor_position V p))) p, mirror)
          else (vt_process V [0x0A] p, mirror)) (line_feed_chunks segment) s"

definition seed_line_feed :: "'p vt100 \<Rightarrow> nat \<Rightarrow> margin_tracker \<Rightarrow> 'p screen_tracker \<Rightarrow> 'p screen_tracker" where
  "seed_line_feed V rows mirror t =
     (if at_region_bottom mirror rows (fst (st_cursor_position V t))
      then fst (st_process V t (synth_scroll rows (fst (st_cursor_position V t)) (snd (st_cursor_position V t))))
      else fst (st_process V t [0x0A]))"

definition seed_feed_segment ::
    "'p vt100 \<Rightarrow> nat \<Rightarrow> bytes \<Rightarrow> 'p screen_tracker \<times> margin_tracker \<Rightarrow> 'p screen_tracker \<times> margin_tracker" where
  "seed_feed_segment V rows segment s =
     fold (\<lambda>(chunk, at_line_feed) (t, mirror).
       let mirror = fst (mt_scan mirror chunk);
           t = fst (st_process V t (without_scroll_regions chunk))
       in if at_line_feed then (seed_line_feed V rows mirror t, mirror) else (t, mirror))
     (line_feed_chunks segment) s"

definition prescroll :: "'p vt100 \<Rightarrow> nat \<Rightarrow> 'p screen_tracker \<Rightarrow> 'p screen_tracker" where
  "prescroll V count t =
     t\<lparr>st_parser := vt_process V (cup_bytes (st_rows V t) 1 @ replicate count 0x0A) (st_parser t)\<rparr>"

definition retained_scrollback :: "'p vt100 \<Rightarrow> 'p \<Rightarrow> nat \<times> 'p" where
  "retained_scrollback V p =
     (let p = vt_set_scrollback V U64_MAX p in (vt_scrollback V p, vt_set_scrollback V 0 p))"

text \<open>Pass one: how many rows each group displaces, decided on the probe.\<close>

fun seed_plan :: "'p vt100 \<Rightarrow> nat \<Rightarrow> bytes list \<Rightarrow> 'p \<times> margin_tracker \<Rightarrow> nat list" where
  "seed_plan V rows [] s = []"
| "seed_plan V rows (segment # segments) (probe, mirror) =
     (if SEED_CAPTURE_MIN_GROUP_BYTES \<le> length segment \<and> \<not> vt_alternate_screen V probe then
        (let (retained_before, probe) = retained_scrollback V probe;
             before = vt_rows V probe;
             (probe, mirror) = seed_feed_parser V rows segment (probe, mirror);
             (retained_after, probe) = retained_scrollback V probe;
             entering = (if retained_before < retained_after then 0
               else case seed_repaint_shift before (vt_rows V probe) of None \<Rightarrow> 0 | Some (_, n) \<Rightarrow> n)
         in entering # seed_plan V rows segments (probe, mirror))
      else 0 # seed_plan V rows segments (seed_feed_parser V rows segment (probe, mirror)))"

text \<open>Pass two; \<open>displaced_seen\<close> is the set of rows already scrolled in.\<close>

definition note_displaced :: "'p vt100 \<Rightarrow> string list \<Rightarrow> string list \<Rightarrow> string list" where
  "note_displaced V leaving seen =
     fold (\<lambda>text seen. if vt_row_blank V text then seen
       else List.insert text (if SEED_DISPLACED_DEDUP_CAP \<le> length seen then [] else seen)) leaving seen"

fun seed_feed ::
    "'p vt100 \<Rightarrow> nat \<Rightarrow> (bytes \<times> nat) list \<Rightarrow> string list \<Rightarrow> 'p screen_tracker \<times> margin_tracker \<Rightarrow> 'p screen_tracker" where
  "seed_feed V rows [] seen s = fst s"
| "seed_feed V rows ((segment, entering) # rest) seen (t, mirror) =
     (let leaving = take entering (vt_rows V (st_parser t));
          fresh = (0 < entering \<and> \<not> vt_alternate_screen V (st_parser t) \<and>
            \<not> list_all (\<lambda>text. vt_row_blank V text \<or> text \<in> set seen) leaving);
          seen' = (if fresh then note_displaced V leaving seen else seen);
          t' = (if fresh then prescroll V entering t else t)
      in seed_feed V rows rest seen' (seed_feed_segment V rows segment (t', mirror)))"

definition seed :: "'p vt100 \<Rightarrow> 'p screen_tracker \<Rightarrow> bytes \<Rightarrow> 'p screen_tracker" where
  "seed V t data =
     (let rows = st_rows V t; cols = st_cols V t; segments = seed_segments data;
          plan = seed_plan V rows segments (vt_new V rows cols (st_scrollback t), mt_new rows)
      in seed_feed V rows (zip segments plan) [] (t, mt_new rows))"

section \<open>Geometry bounds\<close>

text \<open>
  every accepted geometry is usable and bounded: at least the minimum height and one
  column, at most \<open>MAX_SCREEN_CELLS\<close> cells, unchanged when it needs no default or minimum; a
  geometry is refused exactly when its normalized form has too many cells. The scrollback
  depth granted at a width stays within the scrollback budget.
\<close>

theorem validate_size_bounds:
  assumes "rows \<le> U16_MAX" and "cols \<le> U16_MAX" and "1 \<le> min_rows" and "min_rows \<le> U16_MAX"
  shows "let r = (if rows = 0 then DEFAULT_TERMINAL_ROWS else max rows min_rows);
             c = (if cols = 0 then DEFAULT_TERMINAL_COLS else cols) in
     1 \<le> r \<and> 1 \<le> c \<and>
     validate_size_with_minimum rows cols min_rows =
       (if r * c \<le> MAX_SCREEN_CELLS then Inr (r, c) else Inl TooManyCells) \<and>
     (\<forall>lines. scrollback_lines_for c lines \<le> lines \<and>
        scrollback_lines_for c lines * c \<le> MAX_SCROLLBACK_CELLS)"
proof -
  let ?r = "if rows = 0 then DEFAULT_TERMINAL_ROWS else max rows min_rows"
  let ?c = "if cols = 0 then DEFAULT_TERMINAL_COLS else cols"
  have r: "1 \<le> ?r" "?r \<le> U16_MAX" and c: "1 \<le> ?c" "?c \<le> U16_MAX"
    using assms by (auto simp: size_consts)
  have "?r * ?c \<le> U16_MAX * U16_MAX" using r(2) c(2) by (rule mult_le_mono)
  then have "checked_mul U64_MAX ?r ?c = Some (?r * ?c)" by (simp add: size_consts)
  then have v: "validate_size_with_minimum rows cols min_rows =
       (if ?r * ?c \<le> MAX_SCREEN_CELLS then Inr (?r, ?c) else Inl TooManyCells)"
    unfolding validate_size_with_minimum_def Let_def by (simp only: option.case not_less) auto
  have "scrollback_lines_for k lines \<le> lines \<and> scrollback_lines_for k lines * k \<le> MAX_SCROLLBACK_CELLS"
    if "1 \<le> k" "k \<le> U16_MAX" for k lines
  proof -
    have "1 \<le> MAX_SCROLLBACK_CELLS div k"
      using that by (simp add: size_consts div_greater_zero_iff Suc_le_eq)
    then have "scrollback_lines_for k lines = min lines (MAX_SCROLLBACK_CELLS div k)"
      using that by (auto simp: scrollback_lines_for_def)
    moreover have "min lines (MAX_SCROLLBACK_CELLS div k) * k \<le> MAX_SCROLLBACK_CELLS"
      using mult_le_mono1 [of "min lines (MAX_SCROLLBACK_CELLS div k)" "MAX_SCROLLBACK_CELLS div k" k]
        div_times_less_eq_dividend [of MAX_SCROLLBACK_CELLS k] by linarith
    ultimately show ?thesis by simp
  qed
  with r c v show ?thesis by (simp only: Let_def) blast
qed

theorem validate_size_bounds_witness:
  "validate_size_with_minimum 1 37 2 = Inr (2, 37) \<and>
   scrollback_lines_for 37 2000 * 37 \<le> MAX_SCROLLBACK_CELLS"
  using validate_size_bounds [of 1 37 2] by (simp add: size_consts)

section \<open>Seed segmentation\<close>

lemma seed_segments_from_spec:
  "concat (seed_segments_from data start) = drop start data \<and>
   list_all (\<lambda>g. g \<noteq> []) (seed_segments_from data start) \<and>
   list_all (\<lambda>g. SEED_CAPTURE_MIN_GROUP_BYTES \<le> length g) (butlast (seed_segments_from data start))"
proof (induction data start rule: seed_segments_from.induct)
  case (1 data start)
  show ?case
  proof (cases "start < length data")
    case False
    then show ?thesis by (simp add: seed_segments_from.simps)
  next
    case True
    define pos where "pos = group_end data start (next_cut data start)"
    have b: "start < pos" "pos \<le> length data"
        "pos < length data \<longrightarrow> SEED_CAPTURE_MIN_GROUP_BYTES \<le> pos - start"
      using next_cut_bounds [OF True] group_end_bounds [of "next_cut data start" data start]
      by (auto simp: pos_def)
    have eq: "seed_segments_from data start =
        take (pos - start) (drop start data) # seed_segments_from data pos"
      using True by (subst seed_segments_from.simps) (simp add: Let_def pos_def)
    note IH = "1.IH" [OF True pos_def]
    have "seed_segments_from data pos = [] \<longleftrightarrow> pos = length data"
      using b(2) by (subst seed_segments_from.simps) (auto simp: Let_def)
    moreover have "take (pos - start) (drop start data) @ drop pos data = drop start data"
      using b(1) by (metis append_take_drop_id drop_drop le_add_diff_inverse2 less_imp_le)
    ultimately show ?thesis
      unfolding eq using IH b by auto
  qed
qed

text \<open>
  The seed's detection groups partition the tail: no byte is dropped, duplicated or
  reordered, no group is empty, and every group but the last has the size the shift
  detection needs.
\<close>

theorem seed_segments_partition:
  "concat (seed_segments data) = data \<and> list_all (\<lambda>g. g \<noteq> []) (seed_segments data) \<and>
   list_all (\<lambda>g. SEED_CAPTURE_MIN_GROUP_BYTES \<le> length g) (butlast (seed_segments data))"
  using seed_segments_from_spec [of data 0] by (simp add: seed_segments_def)

section \<open>Repaint shifts\<close>

text \<open>
  a detected repaint shift is a shift. The reported top row did change; between one and
  \<open>SEED_MAX_ENTERING_ROWS\<close> rows entered, all of them inside the screen, so the pre-scroll
  never leaves it; some row did move up by that many rows, and the changed rows that did not
  are at most a quarter of those that did.
\<close>

theorem seed_repaint_shift_sound:
  assumes "seed_repaint_shift before after_rows = Some (row, entering)"
    and "length after_rows = length before"
  shows "before ! row \<noteq> after_rows ! row \<and> 1 \<le> entering \<and> entering \<le> SEED_MAX_ENTERING_ROWS \<and>
     row + entering < length before \<and>
     (let moved = (\<lambda>r. after_rows ! r = before ! (r + entering));
          span = filter (\<lambda>r. r + entering < last (changed_rows before after_rows) + 1)
            (changed_rows before after_rows)
      in filter moved span \<noteq> [] \<and>
         4 * length (filter (\<lambda>r. \<not> moved r) span) \<le> length (filter moved span))"
proof -
  let ?ch = "changed_rows before after_rows"
  let ?P = "\<lambda>entering. let (aligned, missed) = shift_counts before after_rows ?ch (last ?ch + 1) entering in
     1 \<le> aligned \<and> missed * SEED_SHIFT_MISS_DENOMINATOR \<le> aligned"
  have len: "2 \<le> length ?ch" and row: "row = hd ?ch"
    and f: "find ?P [1 ..< min (last ?ch + 1 - hd ?ch - 1) SEED_MAX_ENTERING_ROWS + 1] = Some entering"
    using assms(1)
    by (auto simp: seed_repaint_shift_def Let_def split: if_splits option.splits)
  from f have e: "1 \<le> entering" "entering \<le> last ?ch - hd ?ch" "entering \<le> SEED_MAX_ENTERING_ROWS"
      and P: "?P entering"
    by (auto simp: find_Some_iff simp del: upt_Suc)
  have ne: "?ch \<noteq> []" using len by auto
  then have "hd ?ch \<in> set ?ch" "last ?ch \<in> set ?ch" by simp_all
  then have "before ! hd ?ch \<noteq> after_rows ! hd ?ch" "last ?ch < length before"
    using assms(2) by (auto simp: changed_rows_def)
  moreover have "hd ?ch \<le> last ?ch"
    using e(1,2) by linarith
  ultimately show ?thesis
    using e P row by (auto simp: shift_counts_def Let_def size_consts)
qed

theorem seed_repaint_shift_sound_witness:
  "\<exists>row entering. seed_repaint_shift [''a'', ''b'', ''c''] [''b'', ''c'', ''d''] = Some (row, entering) \<and>
     1 \<le> entering \<and> row + entering < 3"
proof -
  have "seed_repaint_shift [''a'', ''b'', ''c''] [''b'', ''c'', ''d''] = Some (0, 1)"
    by (simp add: seed_repaint_shift_def changed_rows_def shift_counts_def size_consts upt_rec)
  with seed_repaint_shift_sound [OF this] show ?thesis by auto
qed

section \<open>An emulator for examples\<close>

text \<open>
  An emulator that records its input, with the cursor held at the start of the last of 24
  rows: where a scroll region above that row clamps it.
\<close>

definition vt_log :: "bytes vt100" where
  "vt_log = \<lparr>vt_new = \<lambda>_ _ _. [], vt_process = \<lambda>data p. p @ data, vt_alternate_screen = \<lambda>_. False,
     vt_state_formatted = id, vt_contents_formatted = id, vt_cursor_state_formatted = \<lambda>_. [],
     vt_attributes_formatted = \<lambda>_. [], vt_contents = \<lambda>_. [], vt_cursor_position = \<lambda>_. (23, 0),
     vt_size = \<lambda>_. (24, 80), vt_set_size = \<lambda>_ _ p. p, vt_set_scrollback = \<lambda>_ p. p,
     vt_scrollback = \<lambda>_. 0, vt_rows = \<lambda>_. [], vt_row_blank = \<lambda>r. r = [],
     vt_mouse_protocol_mode = \<lambda>_. MouseNone, vt_mouse_protocol_encoding = \<lambda>_. DefaultEncoding\<rparr>"

end
