(* ===== verification/Host_Alt.thy ===== *)
theory Host_Alt
  imports Stream_Boundary
begin

text \<open>
  \<open>src/screen/host_alt.rs\<close>: \<open>HostAltHold\<close>, the filter on the bytes written to the host
  terminal that removes the alternate-screen and alternate-scroll modes from the
  workload's DECSET/DECRST sequences and lets everything else through.
\<close>

section \<open>State and operations\<close>

datatype hold_state = HoldGround | HoldEsc | HoldCsi

record host_alt =
  ha_state :: hold_state
  held :: bytes
  ha_params :: bytes
  ha_private :: bool
  ha_intermediate :: bool

definition hold_new :: host_alt where
  "hold_new = \<lparr>ha_state = HoldGround, held = [], ha_params = [], ha_private = False,
     ha_intermediate = False\<rparr>"

definition hold_reset :: "host_alt \<Rightarrow> host_alt" where
  "hold_reset h = hold_new"

definition passes_through :: "host_alt \<Rightarrow> bytes \<Rightarrow> bool" where
  "passes_through h data \<longleftrightarrow> ha_state h = HoldGround \<and> 0x1B \<notin> set data"

definition mode_is_host_held :: "bytes \<Rightarrow> bool" where
  "mode_is_host_held num = (dec_sat U32_MAX num \<in> {47, 1047, 1048, 1049, 1007})"

definition held_part :: "bytes \<Rightarrow> bool" where
  "held_part part \<longleftrightarrow> list_all is_digit part \<and> mode_is_host_held part"

definition filter_host_held_modes :: "bytes \<Rightarrow> byte \<Rightarrow> bytes" where
  "filter_host_held_modes ps final =
     (let kept = filter (\<lambda>part. \<not> held_part part) (split_on 0x3B ps) in
      if kept = [] then [] else [0x1B, 0x5B, 0x3F] @ join_on 0x3B kept @ [final])"

definition ha_step :: "host_alt \<Rightarrow> byte \<Rightarrow> host_alt \<times> bytes" where
  "ha_step h b =
     (case ha_state h of
        HoldGround \<Rightarrow>
          (if b = 0x1B then (h\<lparr>ha_state := HoldEsc, held := [b]\<rparr>, []) else (h, [b]))
      | HoldEsc \<Rightarrow>
          (let hb = held h @ [b] in
           if b = 0x5B then
             (h\<lparr>held := hb, ha_state := HoldCsi, ha_params := [], ha_private := False,
                ha_intermediate := False\<rparr>, [])
           else if b = 0x1B then (h\<lparr>held := [0x1B]\<rparr>, butlast hb)
           else (h\<lparr>held := [], ha_state := HoldGround\<rparr>, hb))
      | HoldCsi \<Rightarrow>
          (if 0x40 \<le> b \<and> b \<le> 0x7E then
             (h\<lparr>held := [], ha_state := HoldGround\<rparr>,
              if ha_private h \<and> \<not> ha_intermediate h \<and> (b = 0x68 \<or> b = 0x6C)
              then filter_host_held_modes (ha_params h) b else held h @ [b])
           else if b = 0x1B then (h\<lparr>held := [0x1B], ha_state := HoldEsc\<rparr>, held h)
           else
             (let h' = h\<lparr>held := held h @ [b]\<rparr> in
              (if b = 0x3F \<and> ha_params h = [] \<and> \<not> ha_intermediate h
               then h'\<lparr>ha_private := True\<rparr>
               else if 0x20 \<le> b \<and> b \<le> 0x2F then h'\<lparr>ha_intermediate := True\<rparr>
               else if ha_private h \<and> \<not> ha_intermediate h
               then h'\<lparr>ha_params := ha_params h @ [b]\<rparr> else h', []))))"

fun ha_push :: "host_alt \<Rightarrow> bytes \<Rightarrow> host_alt \<times> bytes" where
  "ha_push h [] = (h, [])"
| "ha_push h (b # bs) =
     (let (h', out) = ha_step h b; (h'', out') = ha_push h' bs in (h'', out @ out'))"

interpretation hold: byte_machine ha_step ha_push
  by unfold_locales (auto split: prod.splits)

section \<open>Chunking and pass-through\<close>

text \<open>
  holding an incomplete sequence across \<open>push\<close> calls makes the filter independent of
  how the relay is cut into chunks.
\<close>

theorem ha_push_chunked: "chunked ha_push h pieces = ha_push h (concat pieces)"
  by (rule hold.run_chunked)

text \<open>\<open>passes_through\<close> is right: the chunk comes out as it is and the state is kept.\<close>

theorem ha_push_passes_through:
  "passes_through h data \<Longrightarrow> ha_push h data = (h, data)"
  by (induction data) (auto simp: passes_through_def ha_step_def)

theorem ha_push_passes_through_witness: "ha_push hold_new [0x68, 0x69] = (hold_new, [0x68, 0x69])"
  by (rule ha_push_passes_through) (simp add: passes_through_def hold_new_def)

section \<open>The filter as a map on sequences\<close>

text \<open>
  A relayed stream as the host terminal parses it: bytes of text, two-byte escapes, mode
  switches \<^verbatim>\<open>CSI ? n;n;... h/l\<close> and the other \<open>CSI\<close> sequences. The byte of an
  escape is a printable one: a control byte after \<open>ESC\<close> does not end the escape for the
  terminal, and what the filter makes of it is the subject of the last section.
\<close>

datatype token = Text byte | EscTok byte | ModeSwitch "bytes list" byte | CsiTok bytes byte

fun token_bytes :: "token \<Rightarrow> bytes" where
  "token_bytes (Text b) = [b]"
| "token_bytes (EscTok b) = [0x1B, b]"
| "token_bytes (ModeSwitch modes f) = [0x1B, 0x5B, 0x3F] @ join_on 0x3B modes @ [f]"
| "token_bytes (CsiTok body f) = [0x1B, 0x5B] @ body @ [f]"

definition csi_body_byte :: "byte \<Rightarrow> bool" where
  "csi_body_byte b \<longleftrightarrow> 0x20 \<le> b \<and> b \<le> 0x3F"

fun token_ok :: "token \<Rightarrow> bool" where
  "token_ok (Text b) = (b \<noteq> 0x1B)"
| "token_ok (EscTok b) = (0x20 \<le> b \<and> b \<le> 0x7E \<and> b \<noteq> 0x5B)"
| "token_ok (ModeSwitch modes f) =
     (modes \<noteq> [] \<and> list_all (list_all is_digit) modes \<and> (f = 0x68 \<or> f = 0x6C))"
| "token_ok (CsiTok body f) =
     (list_all csi_body_byte body \<and> 0x40 \<le> f \<and> f \<le> 0x7E \<and>
      (0x3F \<notin> set body \<or> f \<noteq> 0x68 \<and> f \<noteq> 0x6C))"

definition host_modes :: "nat set" where "host_modes = {47, 1047, 1048, 1049, 1007}"

fun filter_token :: "token \<Rightarrow> token list" where
  "filter_token (ModeSwitch modes f) =
     (let kept = filter (\<lambda>m. dec_value m \<notin> host_modes) modes in
      if kept = [] then [] else [ModeSwitch kept f])"
| "filter_token t = [t]"

fun names_host_mode :: "token \<Rightarrow> bool" where
  "names_host_mode (ModeSwitch modes f) = (\<exists>m \<in> set modes. dec_value m \<in> host_modes)"
| "names_host_mode t = False"

lemma mode_is_host_held_value: "mode_is_host_held m \<longleftrightarrow> dec_value m \<in> host_modes"
  by (auto simp: mode_is_host_held_def host_modes_def dec_sat_value size_consts min_def)

lemma digits_no_semicolon: "list_all is_digit m \<Longrightarrow> 0x3B \<notin> set m"
  by (auto simp: list_all_iff is_digit_def)

lemma filter_modes_token:
  assumes "token_ok (ModeSwitch modes f)"
  shows "filter_host_held_modes (join_on 0x3B modes) f =
     concat (map token_bytes (filter_token (ModeSwitch modes f)))"
proof -
  have "split_on 0x3B (join_on 0x3B modes) = modes"
    using assms by (intro split_join_on) (auto simp: list_all_iff digits_no_semicolon)
  moreover have "filter (\<lambda>part. \<not> held_part part) modes =
      filter (\<lambda>m. dec_value m \<notin> host_modes) modes"
    using assms by (intro filter_cong) (auto simp: held_part_def list_all_iff mode_is_host_held_value)
  ultimately show ?thesis
    by (simp add: filter_host_held_modes_def Let_def)
qed

text \<open>The body of a \<open>CSI\<close>, once it is known whether the sequence is private.\<close>

lemma csi_body_not_final:
  assumes "csi_body_byte b"
  shows "\<not> 0x40 \<le> b" "b \<noteq> 0x1B"
  using assms order_trans [of "0x40" b "0x3F"] by (auto simp: csi_body_byte_def)

lemma push_params:
  assumes "ha_state h = HoldCsi" "ha_private h" "\<not> ha_intermediate h"
    and "\<forall>b \<in> set bs. 0x30 \<le> b \<and> b \<le> 0x3B"
  shows "\<exists>h'. ha_push h bs = (h', []) \<and> ha_state h' = HoldCsi \<and> ha_private h' \<and>
     \<not> ha_intermediate h' \<and> ha_params h' = ha_params h @ bs"
  using assms
proof (induction bs arbitrary: h)
  case Nil
  then show ?case by simp
next
  case (Cons b bs)
  have b: "csi_body_byte b" "\<not> b \<le> 0x2F" "b \<noteq> 0x3F"
    using Cons.prems(4) by (auto simp: csi_body_byte_def word_le_nat_alt)
  let ?h = "h\<lparr>held := held h @ [b], ha_params := ha_params h @ [b]\<rparr>"
  have "ha_step h b = (?h, [])"
    using Cons.prems b csi_body_not_final [OF b(1)] by (simp add: ha_step_def Let_def)
  with Cons.IH [of ?h] Cons.prems show ?case by auto
qed

lemma push_body:
  assumes "ha_state h = HoldCsi" "list_all csi_body_byte bs"
  shows "\<exists>h'. ha_push h bs = (h', []) \<and> ha_state h' = HoldCsi \<and> held h' = held h @ bs \<and>
     (0x3F \<notin> set bs \<longrightarrow> ha_private h' = ha_private h)"
  using assms
proof (induction bs arbitrary: h)
  case Nil
  then show ?case by simp
next
  case (Cons b bs)
  obtain h1 where h1: "ha_step h b = (h1, [])" "ha_state h1 = HoldCsi" "held h1 = held h @ [b]"
      "b \<noteq> 0x3F \<longrightarrow> ha_private h1 = ha_private h"
    using Cons.prems csi_body_not_final [of b] by (simp add: ha_step_def Let_def)
  from Cons.IH [OF h1(2)] Cons.prems(2) h1 show ?case by auto
qed

lemma ground_new: "ha_state h = HoldGround \<Longrightarrow> held h = [] \<Longrightarrow>
    ha_push h [0x1B, 0x5B] =
      (h\<lparr>ha_state := HoldCsi, held := [0x1B, 0x5B], ha_params := [], ha_private := False,
         ha_intermediate := False\<rparr>, [])"
  by (simp add: ha_step_def Let_def)

definition hold_idle :: "host_alt \<Rightarrow> bool" where
  "hold_idle h \<longleftrightarrow> ha_state h = HoldGround \<and> held h = []"

lemma join_on_bytes:
  "list_all (list_all is_digit) modes \<Longrightarrow> \<forall>b \<in> set (join_on 0x3B modes). 0x30 \<le> b \<and> b \<le> 0x3B"
  by (induction "0x3B :: byte" modes rule: join_on.induct)
    (auto simp: list_all_iff is_digit_def word_le_nat_alt)

lemma push_mode_switch:
  assumes "hold_idle h" "token_ok (ModeSwitch modes f)"
  shows "\<exists>h'. ha_push h (token_bytes (ModeSwitch modes f)) =
     (h', concat (map token_bytes (filter_token (ModeSwitch modes f)))) \<and> hold_idle h'"
proof -
  let ?h1 = "h\<lparr>ha_state := HoldCsi, held := [0x1B, 0x5B], ha_params := [], ha_private := False,
         ha_intermediate := False\<rparr>"
  let ?h2 = "?h1\<lparr>held := [0x1B, 0x5B, 0x3F], ha_private := True\<rparr>"
  have 1: "ha_push h [0x1B, 0x5B, 0x3F] = (?h2, [])"
    using assms(1) by (simp add: hold_idle_def ha_step_def Let_def)
  obtain h3 where 3: "ha_push ?h2 (join_on 0x3B modes) = (h3, [])" "ha_state h3 = HoldCsi"
      "ha_private h3" "\<not> ha_intermediate h3" "ha_params h3 = join_on 0x3B modes"
    using push_params [of ?h2 "join_on 0x3B modes"] join_on_bytes assms(2) by auto
  have f: "0x40 \<le> f" "f \<le> 0x7E" "f = 0x68 \<or> f = 0x6C" using assms(2) by auto
  have "ha_step h3 f =
      (h3\<lparr>held := [], ha_state := HoldGround\<rparr>, filter_host_held_modes (join_on 0x3B modes) f)"
    using 3 f by (simp add: ha_step_def)
  note run = hold.run_appendI [OF 1 hold.run_appendI [OF 3(1) hold.run_single [OF this]]]
  have "hold_idle (h3\<lparr>held := [], ha_state := HoldGround\<rparr>)" by (simp add: hold_idle_def)
  with run [unfolded append_Nil filter_modes_token [OF assms(2)]] show ?thesis
    unfolding token_bytes.simps by blast
qed

lemma push_csi:
  assumes "hold_idle h" "token_ok (CsiTok body f)"
  shows "\<exists>h'. ha_push h (token_bytes (CsiTok body f)) = (h', token_bytes (CsiTok body f)) \<and> hold_idle h'"
proof -
  let ?h1 = "h\<lparr>ha_state := HoldCsi, held := [0x1B, 0x5B], ha_params := [], ha_private := False,
         ha_intermediate := False\<rparr>"
  have 1: "ha_push h [0x1B, 0x5B] = (?h1, [])"
    using assms(1) by (intro ground_new) (simp_all add: hold_idle_def)
  obtain h2 where 2: "ha_push ?h1 body = (h2, [])" "ha_state h2 = HoldCsi"
      "held h2 = [0x1B, 0x5B] @ body" "0x3F \<notin> set body \<longrightarrow> \<not> ha_private h2"
    using push_body [of ?h1 body] assms(2) by auto
  have f: "0x40 \<le> f" "f \<le> 0x7E" "0x3F \<notin> set body \<or> f \<noteq> 0x68 \<and> f \<noteq> 0x6C"
    using assms(2) by auto
  then have "\<not> (ha_private h2 \<and> (f = 0x68 \<or> f = 0x6C))" using 2(4) by auto
  then have "ha_step h2 f = (h2\<lparr>held := [], ha_state := HoldGround\<rparr>, held h2 @ [f])"
    using 2(2) f(1,2) by (auto simp: ha_step_def)
  note run = hold.run_appendI [OF 1 hold.run_appendI [OF 2(1) hold.run_single [OF this]]]
  have "hold_idle (h2\<lparr>held := [], ha_state := HoldGround\<rparr>)" by (simp add: hold_idle_def)
  with run [unfolded append_Nil 2(3) append_assoc] show ?thesis
    unfolding token_bytes.simps by blast
qed

lemma push_token:
  assumes "hold_idle h" "token_ok t"
  shows "\<exists>h'. ha_push h (token_bytes t) = (h', concat (map token_bytes (filter_token t))) \<and> hold_idle h'"
proof (cases t)
  case (Text b)
  with assms show ?thesis by (simp add: hold_idle_def ha_step_def)
next
  case (EscTok b)
  with assms have "b \<noteq> 0x1B" by auto
  with assms EscTok show ?thesis by (simp add: hold_idle_def ha_step_def Let_def)
next
  case (ModeSwitch modes f)
  with push_mode_switch assms show ?thesis by simp
next
  case (CsiTok body f)
  with push_csi [of h body f] assms show ?thesis by simp
qed

lemma push_tokens:
  assumes "hold_idle h" "list_all token_ok ts"
  shows "\<exists>h'. ha_push h (concat (map token_bytes ts)) =
     (h', concat (map token_bytes (concat (map filter_token ts)))) \<and> hold_idle h'"
  using assms
proof (induction ts arbitrary: h)
  case Nil
  then show ?case by simp
next
  case (Cons t ts)
  obtain h1 where 1: "ha_push h (token_bytes t) = (h1, concat (map token_bytes (filter_token t)))"
      "hold_idle h1" using push_token [of h t] Cons.prems by auto
  from Cons.IH [OF 1(2)] Cons.prems 1(1) show ?case by (auto simp: hold.run_append)
qed

lemma filter_token_clean: "t' \<in> set (filter_token t) \<Longrightarrow> \<not> names_host_mode t'"
  by (cases t) (auto simp: Let_def split: if_splits)

text \<open>
  C6: on a stream of complete sequences, none with a control byte inside, the filter is
  the map it is documented to be. Text, escapes and other \<open>CSI\<close> sequences come out byte for byte; a mode switch loses
  exactly the modes 47, 1047, 1048, 1049 and 1007, keeps the others in order, and
  disappears when none is left; so no mode switch of the output names a host-owned mode,
  and nothing stays held.
\<close>

theorem ha_push_tokens:
  assumes "list_all token_ok ts"
  shows "\<exists>h ts'. ha_push hold_new (concat (map token_bytes ts)) = (h, concat (map token_bytes ts')) \<and>
     hold_idle h \<and> ts' = concat (map filter_token ts) \<and> list_all (\<lambda>t. \<not> names_host_mode t) ts'"
proof -
  have "hold_idle hold_new" by (simp add: hold_idle_def hold_new_def)
  from push_tokens [OF this assms] show ?thesis
    using filter_token_clean by (auto simp: list_all_iff)
qed

definition example_tokens :: "token list" where
  "example_tokens = [Text 0x61, ModeSwitch [dec_bytes 1049, dec_bytes 2004] 0x68, EscTok 0x37,
     ModeSwitch [dec_bytes 47] 0x6C, CsiTok [0x32] 0x4A]"

theorem ha_push_tokens_witness:
  "\<exists>h ts'. ha_push hold_new (concat (map token_bytes example_tokens)) =
       (h, concat (map token_bytes ts')) \<and>
     hold_idle h \<and> ts' = concat (map filter_token example_tokens) \<and>
     list_all (\<lambda>t. \<not> names_host_mode t) ts'"
  by (rule ha_push_tokens)
    (use dec_bytes_digits in \<open>auto simp: example_tokens_def list_all_iff csi_body_byte_def\<close>)

section \<open>A control byte inside the escape\<close>

lemma replicate_32:
  "replicate 32 x = [x, x, x, x, x, x, x, x, x, x, x, x, x, x, x, x,
     x, x, x, x, x, x, x, x, x, x, x, x, x, x, x, x]"
  by (simp add: numeral_eq_Suc)

text \<open>
  The filter and the boundary recognizer disagree about a control character inside
  an escape. For the recognizer, as for \<open>vte\<close>, \<^verbatim>\<open>ESC BEL [ ? 1 0 4 9 h\<close> is the mode
  switch \<^verbatim>\<open>?1049h\<close> with a bell on the way; the filter closes the escape at the bell and
  lets the whole switch through to the host.
\<close>

theorem ha_push_control_leak:
  "let stream = [0x1B, 0x07, 0x5B, 0x3F, 0x31, 0x30, 0x34, 0x39, 0x68] in
   snd (ha_push hold_new stream) = stream \<and>
   snd (feed_with sb_new stream) = [SeqCsi [0x3F, 0x31, 0x30, 0x34, 0x39] 0x68 False]"
  by (simp add: hold_new_def ha_step_def sb_new_def sb_step_def record_param_def finish_csi_def
      sync_mode_def plain_param_def size_consts Let_def replicate_32)

text \<open>
  a switch removed from inside an interrupted escape joins the bytes around it into a
  switch of its own: the input names mode 1049 only in the removed sequence and in text,
  the output is the switch \<^verbatim>\<open>CSI ? 1049 h\<close>.
\<close>

theorem ha_push_glue_leak:
  "let switch = [0x5B, 0x3F, 0x31, 0x30, 0x34, 0x39, 0x68] in
   snd (ha_push hold_new ([0x1B, 0x1B] @ switch @ switch)) = [0x1B] @ switch \<and>
   snd (feed_with sb_new ([0x1B] @ switch)) = [SeqCsi [0x3F, 0x31, 0x30, 0x34, 0x39] 0x68 False]"
  by (simp add: hold_new_def ha_step_def sb_new_def sb_step_def record_param_def finish_csi_def
      sync_mode_def plain_param_def size_consts Let_def replicate_32 filter_host_held_modes_def held_part_def
      is_digit_def mode_is_host_held_def dec_sat_def arith_defs)

end
