(* ===== verification/Client_Screen.thy ===== *)
theory Client_Screen
  imports Screen_Tracker Host_Alt
begin

text \<open>
  \<open>src/screen/client.rs\<close>: \<open>ClientScreen\<close>, the attached client's copy of the workload's screen.
  \<open>relay\<close> walks each chunk it forwards to the host terminal and splices repositioning
  sequences of its own into it where the host, one row taller, would end up on another row.
\<close>

section \<open>Rewriting a chunk\<close>

record rewrite =
  rw_data :: bytes
  rw_out :: "bytes option"
  rw_copied :: nat

definition rewrite_new :: "bytes \<Rightarrow> rewrite" where
  "rewrite_new data = \<lparr>rw_data = data, rw_out = None, rw_copied = 0\<rparr>"

definition splice :: "nat \<Rightarrow> bytes \<Rightarrow> rewrite \<Rightarrow> rewrite" where
  "splice pos extra rw =
     rw\<lparr>rw_out := Some ((case rw_out rw of None \<Rightarrow> [] | Some buf \<Rightarrow> buf) @
          take (pos - rw_copied rw) (drop (rw_copied rw) (rw_data rw)) @ extra),
        rw_copied := pos\<rparr>"

definition rewrite_finish :: "rewrite \<Rightarrow> bytes option" where
  "rewrite_finish rw =
     (case rw_out rw of None \<Rightarrow> None | Some buf \<Rightarrow> Some (buf @ drop (rw_copied rw) (rw_data rw)))"

section \<open>State and operations\<close>

record 'p client_screen =
  cs_screen :: "'p screen_tracker"
  cs_host_alt :: "host_alt option"
  wrap_guarded :: bool

definition client_new_with_scrollback ::
    "'p vt100 \<Rightarrow> nat \<Rightarrow> nat \<Rightarrow> nat \<Rightarrow> size_error + 'p client_screen" where
  "client_new_with_scrollback V rows cols scrollback =
     res_bind (try_new_with_scrollback V rows cols scrollback) (\<lambda>t.
       Inr \<lparr>cs_screen = t, cs_host_alt = None, wrap_guarded = False\<rparr>)"

definition hold_host_on_alt_screen :: "'p client_screen \<Rightarrow> 'p client_screen" where
  "hold_host_on_alt_screen cs = cs\<lparr>cs_host_alt := Some hold_new\<rparr>"

definition filter_host :: "'p client_screen \<Rightarrow> bytes \<Rightarrow> 'p client_screen \<times> bytes option" where
  "filter_host cs data =
     (case cs_host_alt cs of
        None \<Rightarrow> (cs, None)
      | Some h \<Rightarrow>
          (if passes_through h data then (cs, None)
           else let (h', out) = ha_push h data in (cs\<lparr>cs_host_alt := Some h'\<rparr>, Some out)))"

definition client_feed :: "'p vt100 \<Rightarrow> 'p client_screen \<Rightarrow> bytes \<Rightarrow> 'p client_screen" where
  "client_feed V cs data = cs\<lparr>cs_screen := fst (st_process V (cs_screen cs) data)\<rparr>"

text \<open>\<^verbatim>\<open>b"\x1b[?1049l\x1b[r\x1b[m"\<close>.\<close>

definition seed_epilogue :: bytes where
  "seed_epilogue = decset 1049 0x6C @ [0x1B, 0x5B, 0x72] @ [0x1B, 0x5B, 0x6D]"

definition seed_history :: "'p vt100 \<Rightarrow> 'p client_screen \<Rightarrow> bytes \<Rightarrow> 'p client_screen" where
  "seed_history V cs data =
     (if data = [] then cs
      else let t = seed V (cs_screen cs) data; t = fst (st_process V t seed_epilogue) in
        cs\<lparr>cs_screen := st_reset_margins t, wrap_guarded := False\<rparr>)"

definition refresh_scrollback :: "'p vt100 \<Rightarrow> 'p client_screen \<Rightarrow> bytes \<Rightarrow> bytes \<Rightarrow> 'p client_screen" where
  "refresh_scrollback V cs tail snapshot =
     (if tail = [] then cs
      else
        let t = cs_screen cs in
        case client_new_with_scrollback V (st_rows V t) (st_cols V t) (st_scrollback t) of
          Inl _ \<Rightarrow> cs
        | Inr candidate \<Rightarrow>
            (let candidate = client_feed V (seed_history V candidate tail) snapshot;
                 (rebuilt, ct) = scrollback_available V (cs_screen candidate);
                 (live, t) = scrollback_available V t
             in if rebuilt < live then cs\<lparr>cs_screen := t\<rparr>
                else cs\<lparr>cs_screen := ct, wrap_guarded := False\<rparr>))"

definition try_reset :: "'p vt100 \<Rightarrow> 'p client_screen \<Rightarrow> nat \<Rightarrow> nat \<Rightarrow> (size_error + unit) \<times> 'p client_screen" where
  "try_reset V cs rows cols =
     (case try_new_with_scrollback V rows cols (st_scrollback (cs_screen cs)) of
        Inl e \<Rightarrow> (Inl e, cs)
      | Inr t \<Rightarrow> (Inr (), cs\<lparr>cs_screen := t,
          cs_host_alt := (case cs_host_alt cs of None \<Rightarrow> None | Some h \<Rightarrow> Some (hold_reset h)),
          wrap_guarded := False\<rparr>))"

definition client_try_set_size ::
    "'p vt100 \<Rightarrow> 'p client_screen \<Rightarrow> nat \<Rightarrow> nat \<Rightarrow> (size_error + unit) \<times> 'p client_screen" where
  "client_try_set_size V cs rows cols =
     (let (r, t) = try_set_size V (cs_screen cs) rows cols in (r, cs\<lparr>cs_screen := t\<rparr>))"

definition host_snapshot :: "'p vt100 \<Rightarrow> 'p client_screen \<Rightarrow> 'p client_screen \<times> bytes" where
  "host_snapshot V cs =
     (let snapshot = st_snapshot V (cs_screen cs); (cs', out) = filter_host cs snapshot in
      (cs', (case out of None \<Rightarrow> snapshot | Some o' \<Rightarrow> o') @ decset 1007 0x6C))"

section \<open>Relaying\<close>

definition last_row :: "'p vt100 \<Rightarrow> 'p screen_tracker \<Rightarrow> nat" where
  "last_row V t = st_rows V t - 1"

definition exposed :: "'p vt100 \<Rightarrow> 'p screen_tracker \<Rightarrow> bool" where
  "exposed V t = (case st_get_margins t of Some (_, bottom) \<Rightarrow> bottom \<le> last_row V t | None \<Rightarrow> False)"

definition pending_wrap_on_last_row :: "'p vt100 \<Rightarrow> 'p screen_tracker \<Rightarrow> bool" where
  "pending_wrap_on_last_row V t =
     (let (row, col) = st_cursor_position V t in row = last_row V t \<and> st_cols V t \<le> col)"

definition wrap_would_walk :: "'p vt100 \<Rightarrow> 'p screen_tracker \<Rightarrow> byte \<Rightarrow> bool" where
  "wrap_would_walk V t b \<longleftrightarrow> 0x20 \<le> b \<and> b \<noteq> 0x7F \<and> st_at_escape_boundary t \<and> exposed V t \<and>
     pending_wrap_on_last_row V t"

fun moves_down :: "sequence \<Rightarrow> bool" where
  "moves_down (SeqEsc b) = (b = 0x45)"
| "moves_down (SeqCsi ps final plain) = ((final = 0x42 \<or> final = 0x45 \<or> final = 0x65) \<and> plain)"

definition clamp_repair :: "'p vt100 \<Rightarrow> 'p screen_tracker \<Rightarrow> bytes" where
  "clamp_repair V t =
     (let (row, col) = st_cursor_position V t in
      if col < st_cols V t then cup_bytes (row + 1) (col + 1) else cursor_restore V t)"

definition reservation_reassert :: "'p vt100 \<Rightarrow> 'p screen_tracker \<Rightarrow> bytes option" where
  "reservation_reassert V t =
     (if st_get_margins t \<noteq> None \<or> st_rows V t < 2 then None
      else Some (decstbm_bytes 1 (st_rows V t) @ cursor_restore V t))"

definition line_feed :: "byte \<Rightarrow> bool" where
  "line_feed b \<longleftrightarrow> b = 0x0A \<or> b = 0x0B \<or> b = 0x0C"

definition ends_run :: "byte \<Rightarrow> bool" where
  "ends_run b \<longleftrightarrow> b = 0x1B \<or> line_feed b \<or> b = 0x09"

text \<open>An unbounded budget is \<open>usize::MAX\<close>, which no chunk reaches.\<close>

definition run_len :: "'p vt100 \<Rightarrow> 'p screen_tracker \<Rightarrow> bytes \<Rightarrow> nat \<Rightarrow> nat" where
  "run_len V t data i =
     (let b = data ! i; rest = drop i data in
      if line_feed b then 1
      else if b = 0x1B \<or> \<not> st_at_escape_boundary t then max (st_bytes_to_ground t rest) 1
      else
        let n = length (takeWhile (\<lambda>b. \<not> ends_run b)
              (if exposed V t then
                 (let (row, col) = st_cursor_position V t;
                      budget = (last_row V t - row) * st_cols V t + (st_cols V t - col)
                  in take budget rest)
               else rest))
        in max n 1)"

definition relay_step ::
    "'p vt100 \<Rightarrow> bytes \<Rightarrow> 'p client_screen \<times> rewrite \<times> nat \<Rightarrow> 'p client_screen \<times> rewrite \<times> nat" where
  "relay_step V data st =
     (let (cs, rw, i) = st;
          guard = (\<not> wrap_guarded cs \<and> wrap_would_walk V (cs_screen cs) (data ! i));
          rw1 = (if guard then splice i (cup_bytes (fst (st_cursor_position V (cs_screen cs)) + 1) 1) rw else rw);
          guarded = (wrap_guarded cs \<or> guard);
          e = i + run_len V (cs_screen cs) data i;
          run = take (e - i) (drop i data);
          exposed_before = exposed V (cs_screen cs);
          before_row = fst (st_cursor_position V (cs_screen cs));
          (t, change, qs) = process_with V (cs_screen cs) run;
          moved_down = (length run = 1 \<and> line_feed (run ! 0) \<or> list_ex moves_down qs);
          row = fst (st_cursor_position V t);
          at_boundary = st_at_escape_boundary t;
          rw2 = (if exposed_before \<and> before_row = last_row V t \<and> row = last_row V t \<and> moved_down
                 then splice e (clamp_repair V t) rw1 else rw1);
          rw3 = (if guarded \<and> at_boundary \<and> pending_wrap_on_last_row V t
                 then splice e (cursor_restore V t) rw2 else rw2);
          rw4 = (if at_boundary \<and> (case change of Some c \<Rightarrow> lc_margins_reset c | None \<Rightarrow> False)
                 then (case reservation_reassert V t of Some seq \<Rightarrow> splice e seq rw3 | None \<Rightarrow> rw3)
                 else rw3)
      in (cs\<lparr>cs_screen := t, wrap_guarded := guarded \<and> \<not> at_boundary\<rparr>, rw4, e))"

lemma run_len_pos: "1 \<le> run_len V t data i"
  by (simp add: run_len_def Let_def)

function relay_loop ::
    "'p vt100 \<Rightarrow> bytes \<Rightarrow> 'p client_screen \<times> rewrite \<times> nat \<Rightarrow> 'p client_screen \<times> rewrite" where
  "relay_loop V data st =
     (if snd (snd st) < length data then relay_loop V data (relay_step V data st) else (fst st, fst (snd st)))"
  by auto

termination
proof (relation "measure (\<lambda>(V, data, st). length data - snd (snd st))")
  fix V :: "'a vt100" and data :: bytes and st :: "'a client_screen \<times> rewrite \<times> nat"
  assume "snd (snd st) < length data"
  moreover have "snd (snd (relay_step V data st)) = snd (snd st) + run_len V (cs_screen (fst st)) data (snd (snd st))"
    by (simp add: relay_step_def Let_def case_prod_beta)
  ultimately show "((V, data, relay_step V data st), V, data, st) \<in>
      measure (\<lambda>(V, data, st). length data - snd (snd st))"
    using run_len_pos [of V "cs_screen (fst st)" data "snd (snd st)"] by auto
qed simp

declare relay_loop.simps [simp del]

definition relay :: "'p vt100 \<Rightarrow> 'p client_screen \<Rightarrow> bytes \<Rightarrow> 'p client_screen \<times> bytes option" where
  "relay V cs data =
     (if st_at_escape_boundary (cs_screen cs) \<and> \<not> exposed V (cs_screen cs) \<and> 0x1B \<notin> set data
      then (cs\<lparr>cs_screen := fst (st_process V (cs_screen cs) data)\<rparr>, None)
      else let (cs', rw) = relay_loop V data (cs, rewrite_new data, 0) in (cs', rewrite_finish rw))"

section \<open>What the model sees\<close>

text \<open>
  The documented behaviour of \<open>vt100::Parser::process\<close> the walk relies on: it is a stream
  parser, so how its input is cut into calls does not matter.
\<close>

definition vt_streams :: "'p vt100 \<Rightarrow> bool" where
  "vt_streams V \<longleftrightarrow> (\<forall>p. vt_process V [] p = p) \<and>
     (\<forall>xs ys p. vt_process V (xs @ ys) p = vt_process V ys (vt_process V xs p))"

lemma process_with_screen:
  "fst (process_with V t data) = fst (st_process V t data)"
  by (simp add: st_process_def Let_def case_prod_beta)

lemma scan_with_fst: "fst (scan_with m data) = fst (mt_scan m data)"
  by (simp add: mt_scan_def Let_def case_prod_beta)

lemma st_process_screen:
  "fst (st_process V t data) =
     t\<lparr>st_margins := fst (mt_scan (st_margins t) data), st_parser := vt_process V data (st_parser t),
       st_alt_screen := vt_alternate_screen V (vt_process V data (st_parser t))\<rparr>"
  by (simp add: st_process_def process_with_def Let_def case_prod_beta scan_with_fst)

lemma st_process_append:
  assumes "vt_streams V"
  shows "fst (st_process V t (xs @ ys)) = fst (st_process V (fst (st_process V t xs)) ys)"
  using assms by (simp add: st_process_screen scan_with_append vt_streams_def Let_def case_prod_beta)

lemma mt_scan_Nil: "fst (mt_scan m []) = m"
  by (simp add: mt_scan_def scan_with_def)

lemma st_process_Nil:
  assumes "vt_streams V" "st_alt_screen t = vt_alternate_screen V (st_parser t)"
  shows "fst (st_process V t []) = t"
  using assms by (simp add: st_process_screen mt_scan_Nil vt_streams_def)

lemma scanner_process:
  "scanner (st_margins (fst (st_process V t data))) = feed (scanner (st_margins t)) data"
  by (simp add: st_process_screen mt_scan_def scan_with_def feed_def Let_def case_prod_beta)

lemma run_len_le:
  assumes "i < length data"
  shows "i + run_len V t data i \<le> length data"
proof -
  have "length (takeWhile P (take n (drop i data))) \<le> length data - i" for P n
    using length_takeWhile_le [of P "take n (drop i data)"] by simp
  moreover have "length (takeWhile P (drop i data)) \<le> length data - i" for P
    using length_takeWhile_le [of P "drop i data"] by simp
  moreover have "st_bytes_to_ground t (drop i data) \<le> length data - i"
    using bytes_to_ground_from_spec [of "scanner (st_margins t)" "drop i data" 0]
    by (simp add: st_bytes_to_ground_def bytes_to_ground_def)
  ultimately have "run_len V t data i \<le> length data - i"
    using assms by (auto simp: run_len_def Let_def case_prod_beta simp del: length_drop length_take)
  with assms show ?thesis by simp
qed

lemma relay_step_screen:
  "cs_screen (fst (relay_step V data (cs, rw, i))) =
     fst (st_process V (cs_screen cs) (take (run_len V (cs_screen cs) data i) (drop i data)))"
  by (simp add: relay_step_def Let_def case_prod_beta process_with_screen)

lemma relay_step_pos:
  "snd (snd (relay_step V data (cs, rw, i))) = i + run_len V (cs_screen cs) data i"
  by (simp add: relay_step_def Let_def case_prod_beta)

text \<open>Induction over the walk: an invariant of one step, while bytes are left, holds at the end.\<close>

lemma relay_loop_induct:
  assumes "\<And>cs rw i. i < length data \<Longrightarrow> Inv (cs, rw, i) \<Longrightarrow> Inv (relay_step V data (cs, rw, i))"
    and "\<And>cs rw i. Inv (cs, rw, i) \<Longrightarrow> i \<le> length data"
    and "Inv st"
  shows "Inv (fst (relay_loop V data st), snd (relay_loop V data st), length data)"
  using assms(3)
proof (induction "length data - snd (snd st)" arbitrary: st rule: less_induct)
  case less
  obtain cs rw i where st: "st = (cs, rw, i)" by (cases st)
  show ?case
  proof (cases "i < length data")
    case True
    have "length data - snd (snd (relay_step V data st)) < length data - snd (snd st)"
      using True run_len_pos [of V "cs_screen cs" data i] by (simp add: st relay_step_pos)
    from less.hyps [OF this] assms(1) [OF True] less.prems True show ?thesis
      by (subst (1 2) relay_loop.simps) (simp add: st)
  next
    case False
    with assms(2) less.prems st have "i = length data" by fastforce
    with less.prems st show ?thesis by (subst (1 2) relay_loop.simps) simp
  qed
qed

lemma take_run: "take i data @ take n (drop i data) = take (i + n) data"
  by (simp add: take_add)

lemma relay_loop_screen:
  assumes V: "vt_streams V" and alt: "st_alt_screen (cs_screen cs) = vt_alternate_screen V (st_parser (cs_screen cs))"
  shows "cs_screen (fst (relay_loop V data (cs, rw, 0))) = fst (st_process V (cs_screen cs) data)"
proof -
  let ?Inv = "\<lambda>(c :: 'a client_screen, r :: rewrite, i).
     i \<le> length data \<and> cs_screen c = fst (st_process V (cs_screen cs) (take i data))"
  have "?Inv (fst (relay_loop V data (cs, rw, 0)), snd (relay_loop V data (cs, rw, 0)), length data)"
  proof (rule relay_loop_induct [where Inv = ?Inv])
    fix c :: "'a client_screen" and r i
    assume "i < length data" "?Inv (c, r, i)"
    then show "?Inv (relay_step V data (c, r, i))"
      using run_len_le [of i data V "cs_screen c"]
      by (auto simp: case_prod_beta relay_step_pos relay_step_screen simp flip: st_process_append [OF V] take_run)
  qed (use st_process_Nil [OF V alt] in auto)
  then show ?thesis by simp
qed

text \<open>
  C7: the walk is invisible to the client's model. However a chunk is cut into runs, the
  model ends exactly where one \<open>process\<close> of the whole chunk puts it, so the snapshot the
  client repaints from is the workload's screen and not the host's.
\<close>

theorem relay_model:
  assumes "vt_streams V"
    and "st_alt_screen (cs_screen cs) = vt_alternate_screen V (st_parser (cs_screen cs))"
  shows "cs_screen (fst (relay V cs data)) = fst (st_process V (cs_screen cs) data)"
  using relay_loop_screen [OF assms] by (simp add: relay_def Let_def case_prod_beta)

definition exposed_client :: "bytes client_screen" where
  "exposed_client = \<lparr>cs_screen = \<lparr>st_parser = [], st_margins = (mt_new 24)\<lparr>region := Some (1, 10)\<rparr>,
     st_alt_screen = False, st_scrollback = 0\<rparr>, cs_host_alt = None, wrap_guarded = False\<rparr>"

lemma vt_streams_log: "vt_streams vt_log"
  by (simp add: vt_streams_def vt_log_def)

theorem relay_model_witness:
  "cs_screen (fst (relay vt_log exposed_client [0x1B, 0x5B, 0x42])) =
     fst (st_process vt_log (cs_screen exposed_client) [0x1B, 0x5B, 0x42])"
  by (rule relay_model [OF vt_streams_log]) (simp add: exposed_client_def vt_log_def)

section \<open>Where the client splices\<close>

text \<open>The chunk with the insertions \<open>(offset, bytes)\<close> in it.\<close>

fun weave :: "bytes \<Rightarrow> nat \<Rightarrow> (nat \<times> bytes) list \<Rightarrow> bytes" where
  "weave data c [] = drop c data"
| "weave data c ((k, x) # sps) = take (k - c) (drop c data) @ x @ weave data k sps"

definition splice_all :: "(nat \<times> bytes) list \<Rightarrow> rewrite \<Rightarrow> rewrite" where
  "splice_all sps rw = fold (\<lambda>(k, x). splice k x) sps rw"

lemma splice_all_simps [simp]:
  "splice_all [] rw = rw"
  "splice_all ((k, x) # sps) rw = splice_all sps (splice k x rw)"
  "splice_all (sps @ sps') rw = splice_all sps' (splice_all sps rw)"
  by (simp_all add: splice_all_def)

lemma finish_splice_all:
  assumes "rw_out rw = Some buf"
  shows "rewrite_finish (splice_all sps rw) = Some (buf @ weave (rw_data rw) (rw_copied rw) sps)"
  using assms
proof (induction sps arbitrary: rw buf)
  case Nil
  then show ?case by (simp add: rewrite_finish_def)
next
  case (Cons a sps)
  obtain k x where "a = (k, x)" by fastforce
  with Cons.IH [of "splice k x rw"] Cons.prems show ?case by (simp add: splice_def)
qed

lemma rewrite_finish_weave:
  "rewrite_finish (splice_all sps (rewrite_new data)) = (if sps = [] then None else Some (weave data 0 sps))"
proof (cases sps)
  case Nil
  then show ?thesis by (simp add: rewrite_finish_def rewrite_new_def)
next
  case (Cons a sps')
  obtain k x where "a = (k, x)" by fastforce
  with Cons show ?thesis
    using finish_splice_all [of "splice k x (rewrite_new data)" _ sps']
    by (simp add: splice_def rewrite_new_def)
qed

lemma emit_boundary:
  assumes "sb_inv s" "snd (sb_step s b) \<noteq> None"
  shows "at_escape_boundary (fst (sb_step s b))"
proof (cases "aborts b")
  case True
  with assms(2) show ?thesis by (simp add: sb_step_abort)
next
  case False
  then have c0: "b \<noteq> 0x1B" "b \<noteq> 0x18" "b \<noteq> 0x1A" by (simp_all add: aborts_def)
  have u: "sb_state s \<noteq> Ground \<Longrightarrow> utf8_remaining s = 0" using assms(1) by (simp add: sb_inv_def)
  have fc: "at_escape_boundary (fst (finish_csi b s'))" if "at_escape_boundary s'" for s'
    using that by (simp add: finish_csi_def Let_def at_escape_boundary_def)
  show ?thesis
    using assms(2) u c0 fc [of "s\<lparr>sb_state := Ground\<rparr>"]
    by (cases "sb_state s") (simp_all add: sb_step_def at_escape_boundary_def case_prod_beta split: if_split_asm)
qed

lemma emits_at_boundary:
  assumes "sb_inv s" "snd (feed_with s data) \<noteq> []"
  shows "\<exists>m. 0 < m \<and> m \<le> length data \<and> at_escape_boundary (feed s (take m data))"
  using assms
proof (induction data arbitrary: s)
  case Nil
  then show ?case by simp
next
  case (Cons b bs)
  show ?case
  proof (cases "snd (sb_step s b)")
    case None
    have "sb_inv (fst (sb_step s b))" using sb_step_inv Cons.prems(1) by blast
    moreover have "snd (feed_with (fst (sb_step s b)) bs) \<noteq> []"
      using Cons.prems(2) None by (simp add: Let_def case_prod_beta)
    ultimately obtain m where "0 < m" "m \<le> length bs"
        "at_escape_boundary (feed (fst (sb_step s b)) (take m bs))"
      using Cons.IH by blast
    then show ?thesis by (intro exI [of _ "Suc m"]) (simp add: feed_Cons)
  next
    case (Some q)
    with emit_boundary [OF Cons.prems(1), of b] show ?thesis
      by (intro exI [of _ 1]) (simp add: feed_Cons)
  qed
qed

lemma ground_silent:
  "sb_state s = Ground \<Longrightarrow> 0x1B \<notin> set bs \<Longrightarrow> snd (feed_with s bs) = []"
proof (induction bs arbitrary: s)
  case Nil
  then show ?case by simp
next
  case (Cons b bs)
  have "snd (sb_step s b) = None" "sb_state (fst (sb_step s b)) = Ground"
    using Cons.prems by (simp_all add: sb_step_def)
  with Cons show ?case by (simp add: Let_def case_prod_beta)
qed

lemma to_ground_emits:
  assumes "sb_inv s" "snd (feed_with s (take (bytes_to_ground s data) data)) \<noteq> []"
  shows "at_escape_boundary (feed s (take (bytes_to_ground s data) data))"
proof -
  let ?n = "bytes_to_ground s data"
  obtain m where m: "0 < m" "m \<le> ?n" "at_escape_boundary (feed s (take m data))"
    using emits_at_boundary [OF assms] by (auto simp: min_def split: if_splits)
  then have "\<not> m < ?n" using bytes_to_ground_from_spec [of s data 0] by (auto simp: bytes_to_ground_def)
  with m show ?thesis by simp
qed

text \<open>The three shapes of a run, by its first byte.\<close>

lemma run_len_line_feed:
  assumes "i < length data" "line_feed (data ! i)"
  shows "take (run_len V t data i) (drop i data) = [data ! i]"
  using assms by (simp add: run_len_def Let_def flip: Cons_nth_drop_Suc)

lemma run_len_sequence:
  assumes "i < length data" "\<not> line_feed (data ! i)" "data ! i = 0x1B \<or> \<not> st_at_escape_boundary t"
  shows "run_len V t data i = bytes_to_ground (scanner (st_margins t)) (drop i data)"
proof -
  have "0 < bytes_to_ground (scanner (st_margins t)) (data ! i # drop (Suc i) data)"
    unfolding bytes_to_ground_def
    using bytes_to_ground_from_ge [of 1] by (auto simp: Let_def Suc_le_eq)
  with assms show ?thesis
    by (auto simp: run_len_def st_bytes_to_ground_def Let_def max_def le_Suc_eq Cons_nth_drop_Suc)
qed

lemma run_len_text:
  assumes "i < length data" "\<not> line_feed (data ! i)" "data ! i \<noteq> 0x1B" "st_at_escape_boundary t"
  shows "0x1B \<notin> set (take (run_len V t data i) (drop i data))"
proof -
  let ?rest = "drop i data"
  have rest: "?rest = data ! i # drop (Suc i) data" using assms(1) by (rule Cons_nth_drop_Suc [symmetric])
  have "0x1B \<notin> set (takeWhile (\<lambda>b. \<not> ends_run b) xs)" for xs
    by (auto dest: set_takeWhileD simp: ends_run_def)
  moreover have "take (max n 1) ?rest = (if n = 0 then [data ! i] else take n ?rest)" for n
    by (cases n) (simp_all add: rest max_def)
  moreover have "take (length (takeWhile P xs)) xs = takeWhile P xs" for P and xs :: bytes
    by (simp add: takeWhile_eq_take [symmetric])
  moreover have "take (length (takeWhile P (take n xs))) xs = takeWhile P (take n xs)"
    for P n and xs :: bytes
    using length_takeWhile_le [of P "take n xs"]
    by (metis length_take min.boundedE takeWhile_eq_take take_take min.absorb1)
  ultimately show ?thesis
    using assms by (auto simp: run_len_def Let_def case_prod_beta)
qed

lemma run_cases:
  obtains "line_feed b" | "\<not> line_feed b" "b = 0x1B \<or> \<not> st_at_escape_boundary t"
    | "\<not> line_feed b" "b \<noteq> 0x1B" "st_at_escape_boundary t"
  by blast

lemma line_feed_boundary:
  "line_feed b \<Longrightarrow> sb_state s = Ground \<Longrightarrow> at_escape_boundary (feed s [b])"
  by (auto simp: feed_Cons sb_step_def at_escape_boundary_def line_feed_def utf8_need_def)

lemma ground_stays: "sb_state s = Ground \<Longrightarrow> 0x1B \<notin> set bs \<Longrightarrow> sb_state (feed s bs) = Ground"
proof (induction bs arbitrary: s)
  case (Cons b bs)
  have "sb_state (fst (sb_step s b)) = Ground" using Cons.prems by (simp add: sb_step_def)
  with Cons show ?case by (simp add: feed_Cons)
qed simp

text \<open>A run that moves the cursor down, by a line feed or by a sequence, ends at a boundary.\<close>

lemma moved_down_boundary:
  assumes inv: "sb_inv (scanner (st_margins t))" and i: "i < length data"
    and lf: "line_feed (data ! i) \<Longrightarrow> sb_state (scanner (st_margins t)) = Ground"
    and down: "line_feed (data ! i) \<or> snd (feed_with (scanner (st_margins t)) run) \<noteq> []"
    and run: "run = take (run_len V t data i) (drop i data)"
  shows "at_escape_boundary (feed (scanner (st_margins t)) run)"
proof (cases rule: run_cases [where b = "data ! i" and t = t])
  case 1
  then show ?thesis unfolding run run_len_line_feed [OF i 1] by (rule line_feed_boundary) (rule lf [OF 1])
next
  case 2
  with down to_ground_emits [OF inv] show ?thesis unfolding run by (simp add: run_len_sequence [OF i])
next
  case 3
  from run_len_text [OF i this, of V] down 3 show ?thesis
    using ground_silent [of "scanner (st_margins t)" run] unfolding run
    by (simp add: st_at_escape_boundary_def at_escape_boundary_def)
qed

text \<open>A run that does not reach the end of the chunk leaves the scanner on the ground.\<close>

lemma run_ground:
  assumes i: "i < length data"
    and lf: "line_feed (data ! i) \<Longrightarrow> sb_state (scanner (st_margins t)) = Ground"
    and run: "run = take (run_len V t data i) (drop i data)" and e: "i + run_len V t data i < length data"
  shows "sb_state (feed (scanner (st_margins t)) run) = Ground"
proof (cases rule: run_cases [where b = "data ! i" and t = t])
  case 1
  then show ?thesis unfolding run run_len_line_feed [OF i 1]
    using line_feed_boundary [OF 1 lf [OF 1]] by (simp add: at_escape_boundary_def)
next
  case 2
  then show ?thesis
    using e bytes_to_ground_from_spec [of "scanner (st_margins t)" "drop i data" 0]
    unfolding run run_len_sequence [OF i 2] by (auto simp: bytes_to_ground_def at_escape_boundary_def)
next
  case 3
  from run_len_text [OF i this, of V] 3 show ?thesis
    unfolding run by (simp add: ground_stays st_at_escape_boundary_def at_escape_boundary_def)
qed

definition boundary_splices :: "boundary \<Rightarrow> bytes \<Rightarrow> nat \<Rightarrow> (nat \<times> bytes) list \<Rightarrow> bool" where
  "boundary_splices s data n sps \<longleftrightarrow> sorted (map fst sps) \<and>
     list_all (\<lambda>(k, x). k \<le> n \<and> at_escape_boundary (feed s (take k data))) sps"

lemma boundary_splices_snoc:
  assumes "boundary_splices s data n sps" "n \<le> n'" "C \<Longrightarrow> at_escape_boundary (feed s (take n' data))"
  shows "boundary_splices s data n' (sps @ (if C then [(n', x)] else []))"
  using assms by (fastforce simp: boundary_splices_def sorted_append list_all_iff)

lemma splice_if: "(if C then splice k x (splice_all sps rw) else splice_all sps rw) =
   splice_all (sps @ (if C then [(k, x)] else [])) rw"
  by simp

lemma relay_step_splices:
  assumes s: "scanner (st_margins (cs_screen cs)) = feed s0 (take i data)" and i: "i < length data"
    and inv: "sb_inv (feed s0 (take i data))"
    and lf: "line_feed (data ! i) \<Longrightarrow> sb_state (feed s0 (take i data)) = Ground"
    and sps: "boundary_splices s0 data i sps"
  shows "\<exists>sps'. fst (snd (relay_step V data (cs, splice_all sps rw, i))) = splice_all sps' rw \<and>
     boundary_splices s0 data (i + run_len V (cs_screen cs) data i) sps'"
proof -
  let ?t = "cs_screen cs" and ?n = "run_len V (cs_screen cs) data i"
  let ?run = "take ?n (drop i data)"
  obtain t' change qs where pw: "process_with V ?t ?run = (t', change, qs)" by (metis prod.exhaust)
  have qs: "qs = snd (feed_with (scanner (st_margins ?t)) ?run)"
    using pw by (auto simp: process_with_def scan_with_def Let_def case_prod_beta)
  have t': "scanner (st_margins t') = feed s0 (take (i + ?n) data)"
    using scanner_process [of V ?t ?run] process_with_screen [of V ?t ?run]
    by (simp add: pw s take_add feed_append)
  have run0: "length ?run = 1 \<Longrightarrow> ?run ! 0 = data ! i" using i by simp
  have bound: "at_escape_boundary (feed s0 (take (i + ?n) data))"
    if "length ?run = 1 \<and> line_feed (?run ! 0) \<or> list_ex moves_down qs"
  proof -
    have "line_feed (data ! i) \<or> snd (feed_with (scanner (st_margins ?t)) ?run) \<noteq> []"
      using that run0 qs by auto
    from moved_down_boundary [OF _ i _ this refl] inv lf s show ?thesis
      by (simp add: st_at_escape_boundary_def take_add feed_append)
  qed
  let ?walk = "\<not> wrap_guarded cs \<and> wrap_would_walk V ?t (data ! i)"
  let ?clamp = "exposed V ?t \<and> fst (st_cursor_position V ?t) = last_row V t' \<and>
     fst (st_cursor_position V t') = last_row V t' \<and>
     (length ?run = 1 \<and> line_feed (?run ! 0) \<or> list_ex moves_down qs)"
  let ?mark = "(wrap_guarded cs \<or> ?walk) \<and> st_at_escape_boundary t' \<and> pending_wrap_on_last_row V t'"
  let ?seq = "reservation_reassert V t'"
  let ?reset = "st_at_escape_boundary t' \<and>
     (case change of Some c \<Rightarrow> lc_margins_reset c | None \<Rightarrow> False) \<and> ?seq \<noteq> None"
  let ?sps1 = "sps @ (if ?walk then [(i, cup_bytes (fst (st_cursor_position V ?t) + 1) 1)] else [])"
  let ?sps2 = "?sps1 @ (if ?clamp then [(i + ?n, clamp_repair V t')] else [])"
  let ?sps3 = "?sps2 @ (if ?mark then [(i + ?n, cursor_restore V t')] else [])"
  let ?sps4 = "?sps3 @ (if ?reset then [(i + ?n, the ?seq)] else [])"
  have "boundary_splices s0 data i ?sps1"
    by (rule boundary_splices_snoc [OF sps]) (auto simp: wrap_would_walk_def st_at_escape_boundary_def s)
  then have "boundary_splices s0 data (i + ?n) ?sps2"
    by (rule boundary_splices_snoc) (use bound in auto)
  then have "boundary_splices s0 data (i + ?n) ?sps3"
    by (rule boundary_splices_snoc) (use t' in \<open>auto simp: st_at_escape_boundary_def\<close>)
  then have "boundary_splices s0 data (i + ?n) ?sps4"
    by (rule boundary_splices_snoc) (use t' in \<open>auto simp: st_at_escape_boundary_def\<close>)
  moreover have "fst (snd (relay_step V data (cs, splice_all sps rw, i))) = splice_all ?sps4 rw"
  proof -
    have last: "(if A \<and> B then (case x of Some q \<Rightarrow> splice k q r | None \<Rightarrow> r) else r) =
        (if A \<and> B \<and> x \<noteq> None then splice k (the x) r else r)" for A B x k r
      by (cases x) simp_all
    show ?thesis
      by (simp only: relay_step_def Let_def prod.case pw fst_conv snd_conv add_diff_cancel_left'
          last splice_if)
  qed
  ultimately show ?thesis by blast
qed

lemma relay_loop_splices:
  assumes inv: "sb_inv s0" and s0: "s0 = scanner (st_margins (cs_screen cs))"
    and lf: "data \<noteq> [] \<Longrightarrow> line_feed (data ! 0) \<Longrightarrow> sb_state s0 = Ground"
  shows "\<exists>sps. snd (relay_loop V data (cs, rewrite_new data, 0)) = splice_all sps (rewrite_new data) \<and>
     boundary_splices s0 data (length data) sps"
proof -
  let ?Inv = "\<lambda>(c :: 'a client_screen, r :: rewrite, i).
     i \<le> length data \<and> scanner (st_margins (cs_screen c)) = feed s0 (take i data) \<and>
     (i < length data \<longrightarrow> line_feed (data ! i) \<longrightarrow> sb_state (feed s0 (take i data)) = Ground) \<and>
     (\<exists>sps. r = splice_all sps (rewrite_new data) \<and> boundary_splices s0 data i sps)"
  have "?Inv (fst (relay_loop V data (cs, rewrite_new data, 0)),
      snd (relay_loop V data (cs, rewrite_new data, 0)), length data)"
  proof (rule relay_loop_induct [where Inv = ?Inv])
    fix c :: "'a client_screen" and r i
    assume i: "i < length data" and I: "?Inv (c, r, i)"
    then obtain sps where sps: "r = splice_all sps (rewrite_new data)" "boundary_splices s0 data i sps"
      and s: "scanner (st_margins (cs_screen c)) = feed s0 (take i data)"
      and g: "line_feed (data ! i) \<Longrightarrow> sb_state (feed s0 (take i data)) = Ground"
      by auto
    have "sb_inv (feed s0 (take i data))" unfolding feed_def using inv by (rule sb_inv_feed_with)
    from relay_step_splices [OF s i this g sps(2)]
    have "\<exists>sps'. fst (snd (relay_step V data (c, r, i))) = splice_all sps' (rewrite_new data) \<and>
        boundary_splices s0 data (i + run_len V (cs_screen c) data i) sps'" by (simp add: sps(1))
    with i s run_len_le [of i data V "cs_screen c"] run_ground [OF i g [folded s] refl, of V]
    show "?Inv (relay_step V data (c, r, i))"
      by (auto simp: case_prod_beta relay_step_pos relay_step_screen scanner_process take_add feed_append)
  next
    show "?Inv (cs, rewrite_new data, 0)"
      using lf by (auto simp: s0 boundary_splices_def intro!: exI [of _ "[]"])
  qed auto
  then show ?thesis by simp
qed

text \<open>
  C8: what the client writes to the host is the workload's chunk, every byte of it in
  order, with bytes of its own inserted only where the stream is between sequences and
  characters: unless the chunk begins with a line feed in the middle of a sequence, no
  insertion splits one.
\<close>

theorem relay_boundaries:
  assumes "s0 = scanner (st_margins (cs_screen cs))" and "sb_inv s0"
    and "data \<noteq> [] \<Longrightarrow> line_feed (data ! 0) \<Longrightarrow> sb_state s0 = Ground"
  shows "\<exists>sps. snd (relay V cs data) = (if sps = [] then None else Some (weave data 0 sps)) \<and>
     sorted (map fst sps) \<and>
     list_all (\<lambda>(k, x). k \<le> length data \<and> at_escape_boundary (feed s0 (take k data))) sps"
proof (cases "st_at_escape_boundary (cs_screen cs) \<and> \<not> exposed V (cs_screen cs) \<and> 0x1B \<notin> set data")
  case True
  then show ?thesis by (intro exI [of _ "[]"]) (simp add: relay_def)
next
  case False
  obtain sps where sps: "snd (relay_loop V data (cs, rewrite_new data, 0)) = splice_all sps (rewrite_new data)"
      "boundary_splices s0 data (length data) sps"
    using relay_loop_splices [OF assms(2,1,3), where V = V] by blast
  then have "snd (relay V cs data) = (if sps = [] then None else Some (weave data 0 sps))"
    unfolding relay_def if_not_P [OF False]
    by (simp only: Let_def case_prod_beta snd_conv rewrite_finish_weave)
  with sps(2) show ?thesis by (auto simp: boundary_splices_def)
qed

text \<open>A line feed on the exposed last row, and the cursor put back after it.\<close>

theorem relay_boundaries_witness:
  "\<exists>sps. snd (relay vt_log exposed_client [0x0A, 0x42]) =
       (if sps = [] then None else Some (weave [0x0A, 0x42] 0 sps)) \<and>
     sorted (map fst sps) \<and>
     list_all (\<lambda>(k, x). k \<le> length [0x0A, 0x42 :: byte] \<and>
       at_escape_boundary (feed sb_new (take k [0x0A, 0x42]))) sps"
  by (rule relay_boundaries) (simp add: exposed_client_def mt_new_def, simp, simp add: sb_new_def)

text \<open>
  The guard is missing for that line feed. With the last row exposed and the bytes
  \<^verbatim>\<open>ESC [ 3\<close> relayed, the next chunk \<^verbatim>\<open>LF 1 m\<close> goes out with a cursor position between the
  line feed and the rest of the \<open>CSI\<close>, a place the scanner itself says is not a boundary.
\<close>

theorem relay_splits_sequence:
  "snd (relay vt_log (fst (relay vt_log exposed_client [0x1B, 0x5B, 0x33])) [0x0A, 0x31, 0x6D]) =
     Some ([0x0A] @ cup_bytes 24 1 @ [0x31, 0x6D]) \<and>
   \<not> at_escape_boundary (feed sb_new [0x1B, 0x5B, 0x33, 0x0A])"
  by code_simp

end
