(* ===== verification/Subscriber_Queue.thy ===== *)
theory Subscriber_Queue
  imports Screen_Tracker Wire_Protocol
begin

text \<open>
  \<open>src/worker/hub/subscriber.rs\<close>, \<open>src/worker/hub/guards.rs\<close> and the bounds of
  \<open>src/worker.rs\<close>: the bounded queue between the hub and one attached client, with its
  coalesce-or-evict decision, and the guards on connections and payloads. A queue's state
  sits behind one mutex, so each operation is one step on it; waiting on the condition
  variable is the result \<open>Wait\<close>.
\<close>

section \<open>Events and state\<close>

definition MAX_SUBSCRIBER_QUEUED_BYTES :: nat where
  [size_consts]: "MAX_SUBSCRIBER_QUEUED_BYTES = 1024 * 1024"
definition MAX_SUBSCRIBER_QUEUED_EVENTS :: nat where
  [size_consts]: "MAX_SUBSCRIBER_QUEUED_EVENTS = 1024"
definition COALESCE_SUBSCRIBER_QUEUED_BYTES :: nat where
  [size_consts]: "COALESCE_SUBSCRIBER_QUEUED_BYTES = 64 * 1024"
definition COALESCE_SUBSCRIBER_QUEUED_EVENTS :: nat where
  [size_consts]: "COALESCE_SUBSCRIBER_QUEUED_EVENTS = 512"
definition MAX_SUBSCRIBERS :: nat where [size_consts]: "MAX_SUBSCRIBERS = 64"
definition MAX_CLIENT_CONNECTIONS :: nat where [size_consts]: "MAX_CLIENT_CONNECTIONS = 128"

text \<open>\<open>'r\<close> is the session record, \<open>'x\<close> the exit information: the queue only carries them.\<close>

datatype ('r, 'x) output_event =
  OutData bytes | OutLayout layout_change | RecordUpdated 'r | OutExit 'x | OutError string

fun output_event_queued_bytes :: "('r, 'x) output_event \<Rightarrow> nat" where
  "output_event_queued_bytes (OutData data) = length data"
| "output_event_queued_bytes _ = 0"

record ('r, 'x) subscriber_state =
  queue :: "('r, 'x) output_event list"
  queued_bytes :: nat
  terminal :: "('r, 'x) output_event option"
  terminal_taken :: bool
  sender_alive :: bool
  receiver_alive :: bool

definition subscriber_new :: "('r, 'x) subscriber_state" where
  "subscriber_new = \<lparr>queue = [], queued_bytes = 0, terminal = None, terminal_taken = False,
     sender_alive = True, receiver_alive = True\<rparr>"

record subscriber_sender =
  want_screen :: bool
  want_record :: bool

datatype offer_result = Queued | Coalesced | Dropped

section \<open>Operations\<close>

definition erase_nudge :: layout_change where
  "erase_nudge = \<lparr>lc_alt_screen = False, lc_margins_reset = False, lc_erase_reset = True\<rparr>"

definition fell_behind :: "('r, 'x) output_event" where
  "fell_behind = OutError ''attached client fell behind live output; reattach for a fresh snapshot''"

text \<open>The lazily rendered snapshot is the same value whenever it is rendered.\<close>

definition offer ::
    "subscriber_sender \<Rightarrow> bytes \<Rightarrow> bytes \<Rightarrow> ('r, 'x) subscriber_state \<Rightarrow> offer_result \<times> ('r, 'x) subscriber_state" where
  "offer s data snapshot x =
     (if \<not> receiver_alive x then (Dropped, x)
      else if terminal x \<noteq> None then (Queued, x)
      else
        let bytes = sat_add U64_MAX (queued_bytes x) (length data) in
        if want_screen s \<and> (COALESCE_SUBSCRIBER_QUEUED_BYTES < bytes \<or>
             COALESCE_SUBSCRIBER_QUEUED_EVENTS \<le> length (queue x))
        then (Coalesced, x\<lparr>queued_bytes := length snapshot,
                           queue := [OutData snapshot, OutLayout erase_nudge]\<rparr>)
        else if MAX_SUBSCRIBER_QUEUED_EVENTS \<le> length (queue x) \<or> MAX_SUBSCRIBER_QUEUED_BYTES < bytes
        then (Dropped, x\<lparr>terminal := Some fell_behind\<rparr>)
        else (Queued, x\<lparr>queued_bytes := bytes, queue := queue x @ [OutData data]\<rparr>))"

definition try_event ::
    "('r, 'x) output_event \<Rightarrow> ('r, 'x) subscriber_state \<Rightarrow> bool \<times> ('r, 'x) subscriber_state" where
  "try_event e x =
     (if \<not> receiver_alive x then (False, x)
      else if terminal x \<noteq> None then (True, x)
      else
        let bytes = sat_add U64_MAX (queued_bytes x) (output_event_queued_bytes e) in
        if MAX_SUBSCRIBER_QUEUED_EVENTS \<le> length (queue x) \<or> MAX_SUBSCRIBER_QUEUED_BYTES < bytes
        then (False, x\<lparr>terminal := Some fell_behind\<rparr>)
        else (True, x\<lparr>queued_bytes := bytes, queue := queue x @ [e]\<rparr>))"

definition drop_sender :: "('r, 'x) subscriber_state \<Rightarrow> ('r, 'x) subscriber_state" where
  "drop_sender x = x\<lparr>sender_alive := False\<rparr>"

definition terminate ::
    "('r, 'x) output_event \<Rightarrow> ('r, 'x) subscriber_state \<Rightarrow> ('r, 'x) subscriber_state" where
  "terminate e x =
     drop_sender (if terminal x = None then x\<lparr>terminal := Some e\<rparr> else x)"

datatype 'e recv_result = Received 'e | Disconnected | Wait

definition recv ::
    "('r, 'x) subscriber_state \<Rightarrow> ('r, 'x) output_event recv_result \<times> ('r, 'x) subscriber_state" where
  "recv x =
     (case queue x of
        e # q \<Rightarrow> (Received e, x\<lparr>queue := q, queued_bytes := queued_bytes x - output_event_queued_bytes e\<rparr>)
      | [] \<Rightarrow>
          (case terminal x of
             Some t \<Rightarrow> (if \<not> terminal_taken x then (Received t, x\<lparr>terminal_taken := True\<rparr>)
                       else (Disconnected, x))
           | None \<Rightarrow> (if \<not> sender_alive x then (Disconnected, x) else (Wait, x))))"

definition drop_receiver :: "('r, 'x) subscriber_state \<Rightarrow> ('r, 'x) subscriber_state" where
  "drop_receiver x = x\<lparr>receiver_alive := False\<rparr>"

section \<open>Guards\<close>

definition try_acquire_connection :: "nat \<Rightarrow> nat option" where
  "try_acquire_connection active = (if active < MAX_CLIENT_CONNECTIONS then Some (active + 1) else None)"

definition release_connection :: "nat \<Rightarrow> nat" where
  "release_connection active = active - 1"

text \<open>\<open>EMFILE\<close>, \<open>ENFILE\<close>, \<open>ENOBUFS\<close> and \<open>ENOMEM\<close> by their Linux numbers.\<close>

definition transient_accept_error :: "int option \<Rightarrow> bool" where
  "transient_accept_error errno \<longleftrightarrow>
     errno = Some 24 \<or> errno = Some 23 \<or> errno = Some 105 \<or> errno = Some 12"

definition bounded_history_limit :: "nat option \<Rightarrow> nat" where
  "bounded_history_limit requested =
     min (case requested of None \<Rightarrow> MAX_FRAME_BYTES | Some n \<Rightarrow> n) MAX_FRAME_BYTES"

datatype hub_error = TooLarge string | TooManyClients | HubSize size_error

definition ensure_frame_payload_size :: "string \<Rightarrow> nat \<Rightarrow> hub_error + unit" where
  "ensure_frame_payload_size kind len =
     (if MAX_FRAME_BYTES < len then Inl (TooLarge kind) else Inr ())"

section \<open>Accounting and bounds\<close>

definition event_bytes :: "('r, 'x) output_event list \<Rightarrow> nat" where
  "event_bytes q = sum_list (map output_event_queued_bytes q)"

lemma event_bytes_simps [simp]:
  "event_bytes [] = 0"
  "event_bytes (e # q) = output_event_queued_bytes e + event_bytes q"
  "event_bytes (q @ q') = event_bytes q + event_bytes q'"
  by (simp_all add: event_bytes_def)

text \<open>
  The byte counter is exact, and a queue is within both caps, except for one that holds
  exactly a coalesced snapshot and its nudge.
\<close>

definition sub_ok :: "('r, 'x) subscriber_state \<Rightarrow> bool" where
  "sub_ok x \<longleftrightarrow> queued_bytes x = event_bytes (queue x) \<and>
     length (queue x) \<le> MAX_SUBSCRIBER_QUEUED_EVENTS \<and>
     (queued_bytes x \<le> MAX_SUBSCRIBER_QUEUED_BYTES \<or>
      (\<exists>snapshot. queue x = [OutData snapshot, OutLayout erase_nudge]))"

lemma sub_ok_new [simp]: "sub_ok subscriber_new"
  by (simp add: sub_ok_def subscriber_new_def)

lemma sat_add_below: "sat_add m a b \<le> k \<Longrightarrow> k < m \<Longrightarrow> sat_add m a b = a + b"
  by (simp add: sat_add_def min_def split: if_splits)

lemma sub_ok_push:
  assumes "sub_ok x" "length (queue x) < MAX_SUBSCRIBER_QUEUED_EVENTS"
    and "sat_add U64_MAX (queued_bytes x) (output_event_queued_bytes e) \<le> MAX_SUBSCRIBER_QUEUED_BYTES"
  shows "sub_ok (x\<lparr>queued_bytes := sat_add U64_MAX (queued_bytes x) (output_event_queued_bytes e),
     queue := queue x @ [e]\<rparr>)"
  using assms sat_add_below [OF assms(3)] by (simp add: sub_ok_def size_consts)

lemma sub_ok_offer: "sub_ok x \<Longrightarrow> sub_ok (snd (offer s data snapshot x))"
  using sub_ok_push [of x "OutData data"]
  by (auto simp: offer_def Let_def sub_ok_def [of "x\<lparr>queued_bytes := _, queue := [_, _]\<rparr>"]
      sub_ok_def [of "x\<lparr>terminal := _\<rparr>"] sub_ok_def [of x] size_consts not_le not_less)

lemma sub_ok_try_event: "sub_ok x \<Longrightarrow> sub_ok (snd (try_event e x))"
  using sub_ok_push [of x e]
  by (auto simp: try_event_def Let_def sub_ok_def [of "x\<lparr>terminal := _\<rparr>"] sub_ok_def [of x] not_le not_less)

lemma sub_ok_drop: "sub_ok (drop_sender x) = sub_ok x" "sub_ok (drop_receiver x) = sub_ok x"
  by (simp_all add: sub_ok_def drop_sender_def drop_receiver_def)

lemma sub_ok_terminate: "sub_ok (terminate e x) = sub_ok x"
  by (simp add: terminate_def sub_ok_drop) (simp add: sub_ok_def)

lemma sub_ok_recv: "sub_ok x \<Longrightarrow> sub_ok (snd (recv x))"
  by (auto simp: recv_def sub_ok_def split: list.split option.split)

section \<open>The terminal outcome\<close>

text \<open>Any interleaving of what the hub and the client do to one queue.\<close>

datatype ('r, 'x) sub_op =
  SOffer subscriber_sender bytes bytes | SEvent "('r, 'x) output_event"
  | STerminate "('r, 'x) output_event" | SDropSender | SRecv

fun sub_run ::
    "('r, 'x) subscriber_state \<Rightarrow> ('r, 'x) sub_op list \<Rightarrow>
     ('r, 'x) output_event recv_result list \<times> ('r, 'x) subscriber_state" where
  "sub_run x [] = ([], x)"
| "sub_run x (SOffer s data snapshot # ops) = sub_run (snd (offer s data snapshot x)) ops"
| "sub_run x (SEvent e # ops) = sub_run (snd (try_event e x)) ops"
| "sub_run x (STerminate e # ops) = sub_run (terminate e x) ops"
| "sub_run x (SDropSender # ops) = sub_run (drop_sender x) ops"
| "sub_run x (SRecv # ops) =
     (let (r, x') = recv x; (rs, x'') = sub_run x' ops in (r # rs, x''))"

fun recv_count :: "('r, 'x) sub_op list \<Rightarrow> nat" where
  "recv_count [] = 0"
| "recv_count (SRecv # ops) = Suc (recv_count ops)"
| "recv_count (_ # ops) = recv_count ops"

definition owed :: "('r, 'x) subscriber_state \<Rightarrow> ('r, 'x) output_event recv_result list" where
  "owed x = map Received (queue x) @
     (if terminal_taken x then [] else map Received (opt_list (terminal x)))"

lemma ended_ops:
  assumes "terminal x = Some t"
  shows "owed (snd (offer s data snapshot x)) = owed x" "terminal (snd (offer s data snapshot x)) = Some t"
    "owed (snd (try_event e x)) = owed x" "terminal (snd (try_event e x)) = Some t"
    "owed (terminate e x) = owed x" "terminal (terminate e x) = Some t"
    "owed (drop_sender x) = owed x" "terminal (drop_sender x) = Some t"
  using assms
  by (simp_all add: owed_def offer_def try_event_def terminate_def drop_sender_def)

lemma ended_recv:
  assumes "terminal x = Some t"
  shows "fst (recv x) = (case owed x of [] \<Rightarrow> Disconnected | r # _ \<Rightarrow> r)"
    "owed (snd (recv x)) = tl (owed x)" "terminal (snd (recv x)) = Some t"
  using assms by (auto simp: owed_def recv_def split: list.split)

lemma ended_run:
  "terminal x = Some t \<Longrightarrow>
     fst (sub_run x ops) = take (recv_count ops) (owed x @ replicate (recv_count ops) Disconnected)"
proof (induction x ops rule: sub_run.induct)
  case (6 x ops)
  note IH = "6.IH" [OF refl]
  have "fst (sub_run (snd (recv x)) ops) =
      take (recv_count ops) (tl (owed x) @ replicate (recv_count ops) Disconnected)"
    using ended_recv [OF "6.prems"] IH by (metis prod.collapse)
  then show ?case
    using ended_recv(1) [OF "6.prems"]
    by (cases "owed x") (auto simp: Let_def case_prod_beta replicate_append_same simp flip: replicate_Suc)
qed (simp_all add: ended_ops)

text \<open>
  C9: once a queue has its terminal outcome, then however the hub keeps offering output,
  events and other outcomes to it while the client reads, the reads return the events queued
  before the outcome in order, then that outcome exactly once, then disconnection forever:
  nothing is reordered, replaced or lost, and no read blocks.
\<close>

theorem terminal_exactly_once:
  assumes "terminal x = Some t" and "\<not> terminal_taken x"
  shows "fst (sub_run x ops) =
     take (recv_count ops) (map Received (queue x) @ [Received t] @ replicate (recv_count ops) Disconnected)"
  using ended_run [OF assms(1), of ops] assms by (simp add: owed_def)

theorem terminal_exactly_once_witness:
  "fst (sub_run (terminate (OutExit ()) (subscriber_new\<lparr>queue := [OutData [1]], queued_bytes := 1\<rparr>))
       [SRecv, SEvent (RecordUpdated ()), STerminate (OutError ''late''), SRecv, SRecv]) =
     take (recv_count [SRecv, SEvent (RecordUpdated ()), STerminate (OutError ''late'' :: (unit, unit) output_event), SRecv, SRecv])
       (map Received (queue (terminate (OutExit ()) (subscriber_new\<lparr>queue := [OutData [1]], queued_bytes := 1\<rparr>))) @
        [Received (OutExit ())] @
        replicate (recv_count [SRecv, SEvent (RecordUpdated ()), STerminate (OutError ''late'' :: (unit, unit) output_event), SRecv, SRecv]) Disconnected)"
  by (rule terminal_exactly_once) (simp_all add: terminate_def drop_sender_def subscriber_new_def)

text \<open>
  Whatever is offered to a queue and read from it, its byte counter is the exact number
  of queued payload bytes, it never holds more than 1024 events, and it exceeds 1 MiB only as
  exactly one coalesced snapshot followed by its nudge.
\<close>

theorem sub_run_bounded: "sub_ok (snd (sub_run subscriber_new ops))"
proof -
  have "sub_ok x \<Longrightarrow> sub_ok (snd (sub_run x ops))" for x :: "('a, 'b) subscriber_state"
  proof (induction ops arbitrary: x)
    case (Cons op ops)
    then show ?case
      by (cases op) (simp_all add: sub_ok_offer sub_ok_try_event sub_ok_terminate sub_ok_drop
          sub_ok_recv Let_def case_prod_beta)
  qed simp
  then show ?thesis by simp
qed

end
