(* ===== verification/Output_Hub.thy ===== *)
theory Output_Hub
  imports Subscriber_Queue History_Recovery
begin

text \<open>
  \<open>src/worker/hub.rs\<close>: \<open>OutputHub\<close>, the worker's fan-out of PTY output to the attached
  clients, with the history ring, the screen model and the durable flush behind its lock.
  Every method takes the lock once, so each is one step; clocks are readings in
  milliseconds passed in, and the subscribers' shared states are a store indexed by
  subscriber id, seen by both ends.
\<close>

section \<open>State\<close>

definition HISTORY_RETRY_INITIAL :: nat where [size_consts]: "HISTORY_RETRY_INITIAL = 500"
definition HISTORY_RETRY_MAX :: nat where [size_consts]: "HISTORY_RETRY_MAX = 30 * 1000"
definition SYNC_ACTIVITY_MAX_BYTES :: nat where [size_consts]: "SYNC_ACTIVITY_MAX_BYTES = 64 * 1024"
definition RETIRED_OUTPUT_MAX_BYTES :: nat where [size_consts]: "RETIRED_OUTPUT_MAX_BYTES = 64 * 1024"

datatype attach_payload = AttachScreen | AttachTail "nat option"

record append_outcome =
  activity :: bool
  fresh_empty_prompt :: bool

text \<open>
  The screen judgements of \<open>src/delivery_ack.rs\<close> that \<open>append\<close> asks for. They only read,
  and only the reported outcome and the settled screen depend on what they answer.
\<close>

record 'p screen_judges =
  resolve_family :: "string \<Rightarrow> string \<Rightarrow> string option"
  composer_is_empty_or_ghost :: "string \<Rightarrow> string \<Rightarrow> 'p \<Rightarrow> bool"
  is_idle_prompt_redraw :: "string \<Rightarrow> string \<Rightarrow> bool \<Rightarrow> string \<Rightarrow> 'p \<Rightarrow> bool"
  screen_is_fresh_empty_prompt :: "string \<Rightarrow> string \<Rightarrow> 'p \<Rightarrow> bool"

record ('p, 'r, 'x) hub =
  hb_history :: history
  hb_world :: world
  history_persistence_error :: "hist_error option"
  history_retry_at :: nat
  history_retry_delay :: nat
  hb_screen :: "'p screen_tracker"
  hb_engine :: string
  settled_plain :: string
  settled_composer_empty_or_ghost :: bool
  sync_bytes :: nat
  subscribers :: "(nat \<times> subscriber_sender) list"
  next_id :: nat
  hb_terminal :: "('r, 'x) output_event option"
  shared :: "nat \<Rightarrow> ('r, 'x) subscriber_state"
  finalized :: bool
  screen_txt :: "string option"

definition hub_new ::
    "'p vt100 \<Rightarrow> history \<Rightarrow> world \<Rightarrow> nat \<Rightarrow> nat \<Rightarrow> nat \<Rightarrow> size_error + ('p, 'r, 'x) hub" where
  "hub_new V history w rows cols now =
     res_bind (st_try_new V rows cols) (\<lambda>t.
       Inr \<lparr>hb_history = history, hb_world = w, history_persistence_error = None,
            history_retry_at = now, history_retry_delay = HISTORY_RETRY_INITIAL, hb_screen = t,
            hb_engine = [], settled_plain = [], settled_composer_empty_or_ghost = False,
            sync_bytes = 0, subscribers = [], next_id = 1, hb_terminal = None,
            shared = (\<lambda>_. subscriber_new), finalized = False, screen_txt = None\<rparr>)"

section \<open>Operations\<close>

definition record_history_persistence_error ::
    "hist_error \<Rightarrow> nat \<Rightarrow> ('p, 'r, 'x) hub \<Rightarrow> ('p, 'r, 'x) hub" where
  "record_history_persistence_error e now h =
     h\<lparr>history_persistence_error := Some e,
       history_retry_at := now + history_retry_delay h,
       history_retry_delay := min (history_retry_delay h * 2) HISTORY_RETRY_MAX\<rparr>"

text \<open>
  \<open>HashMap::retain\<close>: the closure runs on each entry's shared state; an entry it rejects is
  removed, which drops its sender.
\<close>

type_synonym ('r, 'x) sub_act =
  "nat \<Rightarrow> subscriber_sender \<Rightarrow> ('r, 'x) subscriber_state \<Rightarrow> bool \<times> ('r, 'x) subscriber_state"

fun retain ::
    "('r, 'x) sub_act \<Rightarrow> (nat \<times> subscriber_sender) list \<Rightarrow> (nat \<Rightarrow> ('r, 'x) subscriber_state) \<Rightarrow>
     (nat \<times> subscriber_sender) list \<times> (nat \<Rightarrow> ('r, 'x) subscriber_state)" where
  "retain f [] st = ([], st)"
| "retain f ((sid, s) # subs) st =
     (let (keep, x) = f sid s (st sid);
          (subs', st') = retain f subs (st(sid := if keep then x else drop_sender x))
      in (if keep then (sid, s) # subs' else subs', st'))"

definition retain_subscribers :: "('r, 'x) sub_act \<Rightarrow> ('p, 'r, 'x) hub \<Rightarrow> ('p, 'r, 'x) hub" where
  "retain_subscribers f h =
     (let (subs, st) = retain f (subscribers h) (shared h) in h\<lparr>subscribers := subs, shared := st\<rparr>)"

definition offer_act :: "bytes \<Rightarrow> bytes \<Rightarrow> ('r, 'x) sub_act" where
  "offer_act data snapshot sid s x =
     (let (r, x') = offer s data snapshot x in (case r of Dropped \<Rightarrow> False | _ \<Rightarrow> True, x'))"

text \<open>The ids whose offer coalesced, in the order of the pass.\<close>

definition coalesced_ids :: "bytes \<Rightarrow> bytes \<Rightarrow> ('p, 'r, 'x) hub \<Rightarrow> nat list" where
  "coalesced_ids data snapshot h =
     map fst (filter (\<lambda>(sid, s). fst (offer s data snapshot (shared h sid)) = Coalesced) (subscribers h))"

definition layout_act :: "layout_change \<Rightarrow> nat list \<Rightarrow> ('r, 'x) sub_act" where
  "layout_act change coalesced sid s x =
     (if sid \<in> set coalesced then (True, x) else try_event (OutLayout change) x)"

text \<open>The part of \<open>append\<close> that fans a chunk out, on the screen that has processed it.\<close>

definition fan_out ::
    "'p vt100 \<Rightarrow> bytes \<Rightarrow> layout_change option \<Rightarrow> ('p, 'r, 'x) hub \<Rightarrow> ('p, 'r, 'x) hub" where
  "fan_out V data layout h =
     (let snapshot = st_snapshot V (hb_screen h); coalesced = coalesced_ids data snapshot h;
          h = retain_subscribers (offer_act data snapshot) h
      in case layout of
           None \<Rightarrow> h
         | Some change \<Rightarrow> retain_subscribers (layout_act change coalesced) h)"

text \<open>The part that judges whether the chunk is activity.\<close>

definition settle ::
    "'p vt100 \<Rightarrow> 'p screen_judges \<Rightarrow> nat \<Rightarrow> ('p, 'r, 'x) hub \<Rightarrow> append_outcome \<times> ('p, 'r, 'x) hub" where
  "settle V J chunk_len h =
     (let t = hb_screen h; bytes = sat_add U64_MAX (sync_bytes h) chunk_len;
          in_sync = ((st_in_synchronized_update t \<or> \<not> st_at_escape_boundary t) \<and>
             bytes < SYNC_ACTIVITY_MAX_BYTES)
      in if in_sync
         then (\<lparr>activity = False, fresh_empty_prompt = False\<rparr>, h\<lparr>sync_bytes := bytes\<rparr>)
         else
           let after_plain = st_contents V t;
               ghost = (case resolve_family J (hb_engine h) after_plain of
                   Some fam \<Rightarrow> composer_is_empty_or_ghost J fam after_plain (st_parser t)
                 | None \<Rightarrow> False);
               redraw_only = is_idle_prompt_redraw J (hb_engine h) (settled_plain h)
                 (settled_composer_empty_or_ghost h) after_plain (st_parser t);
               fresh = screen_is_fresh_empty_prompt J (hb_engine h) after_plain (st_parser t)
           in (\<lparr>activity = \<not> redraw_only, fresh_empty_prompt = fresh\<rparr>,
               h\<lparr>sync_bytes := 0, settled_plain := after_plain,
                 settled_composer_empty_or_ghost := ghost\<rparr>))"

definition hub_append ::
    "'p vt100 \<Rightarrow> 'p screen_judges \<Rightarrow> bytes \<Rightarrow> nat \<Rightarrow> ('p, 'r, 'x) hub \<Rightarrow>
     append_outcome \<times> ('p, 'r, 'x) hub" where
  "hub_append V J data now h =
     (let (r, history) = hist_append data (hb_history h);
          h = h\<lparr>hb_history := history\<rparr>;
          h = (case r of Inl e \<Rightarrow> record_history_persistence_error e now h | Inr _ \<Rightarrow> h);
          (t, layout) = st_process V (hb_screen h) data;
          h = fan_out V data layout (h\<lparr>hb_screen := t\<rparr>)
      in settle V J (length data) h)"

record retired_output =
  ro_status :: string
  ro_observed_bytes :: "nat option"
  ro_limit_bytes :: nat
  ro_bytes :: "bytes option"

definition retirement_output :: "('p, 'r, 'x) hub \<Rightarrow> retired_output" where
  "retirement_output h =
     (let total = observed_end (hb_history h);
          complete = (total \<le> RETIRED_OUTPUT_MAX_BYTES \<and> total = length (h_bytes (hb_history h)))
      in \<lparr>ro_status = (if complete then ''complete'' else ''oversize''),
          ro_observed_bytes = Some total, ro_limit_bytes = RETIRED_OUTPUT_MAX_BYTES,
          ro_bytes = (if complete then Some (hist_snapshot None (hb_history h)) else None)\<rparr>)"

definition hub_snapshot :: "nat option \<Rightarrow> ('p, 'r, 'x) hub \<Rightarrow> bytes" where
  "hub_snapshot max_bytes h = hist_snapshot (Some (bounded_history_limit max_bytes)) (hb_history h)"

definition screen_snapshot :: "'p vt100 \<Rightarrow> ('p, 'r, 'x) hub \<Rightarrow> hub_error + bytes" where
  "screen_snapshot V h =
     (let data = st_snapshot V (hb_screen h) in
      res_bind (ensure_frame_payload_size ''screen snapshot'' (length data)) (\<lambda>_. Inr data))"

definition hub_set_size ::
    "'p vt100 \<Rightarrow> nat \<Rightarrow> nat \<Rightarrow> ('p, 'r, 'x) hub \<Rightarrow> (size_error + unit) \<times> ('p, 'r, 'x) hub" where
  "hub_set_size V rows cols h =
     (let (r, t) = try_set_size V (hb_screen h) rows cols in (r, h\<lparr>hb_screen := t\<rparr>))"

text \<open>The clock is read before the attempt and after it.\<close>

definition flush_history ::
    "hist_codec \<Rightarrow> uuid \<Rightarrow> bool \<Rightarrow> nat \<Rightarrow> nat \<Rightarrow> ('p, 'r, 'x) hub \<Rightarrow>
     (hist_error + unit) \<times> ('p, 'r, 'x) hub" where
  "flush_history K fresh force now later h =
     (if finalized h then (Inr (), h)
      else if \<not> force \<and> now < history_retry_at h then (Inr (), h)
      else
        let (r, history, w) = hist_flush K fresh (hb_history h, hb_world h);
            h = h\<lparr>hb_history := history, hb_world := w\<rparr>
        in case r of
             Inr _ \<Rightarrow> (Inr (), h\<lparr>history_persistence_error := None, history_retry_at := later,
                                history_retry_delay := HISTORY_RETRY_INITIAL\<rparr>)
           | Inl e \<Rightarrow> (Inl e, record_history_persistence_error e later h))"

definition subscribe ::
    "'p vt100 \<Rightarrow> attach_payload \<Rightarrow> bool \<Rightarrow> ('p, 'r, 'x) hub \<Rightarrow>
     (hub_error + nat \<times> bytes) \<times> ('p, 'r, 'x) hub" where
  "subscribe V payload wants_record h =
     (case (case payload of
              AttachScreen \<Rightarrow> screen_snapshot V h
            | AttachTail max_bytes \<Rightarrow> Inr (hub_snapshot max_bytes h)) of
        Inl e \<Rightarrow> (Inl e, h)
      | Inr initial \<Rightarrow>
          (if hb_terminal h = None \<and> MAX_SUBSCRIBERS \<le> length (subscribers h)
           then (Inl TooManyClients, h)
           else
             let sid = next_id h;
                 s = \<lparr>want_screen = (payload = AttachScreen), want_record = wants_record\<rparr>;
                 h = h\<lparr>next_id := sid + 1\<rparr>
             in (Inr (sid, initial),
                 case hb_terminal h of
                   Some t \<Rightarrow> h\<lparr>shared := (shared h)(sid := terminate t subscriber_new)\<rparr>
                 | None \<Rightarrow> h\<lparr>shared := (shared h)(sid := subscriber_new),
                             subscribers := (sid, s) # subscribers h\<rparr>)))"

definition unsubscribe :: "nat \<Rightarrow> ('p, 'r, 'x) hub \<Rightarrow> ('p, 'r, 'x) hub" where
  "unsubscribe sid h = retain_subscribers (\<lambda>sid' s x. (sid' \<noteq> sid, x)) h"

definition record_act :: "'r \<Rightarrow> ('r, 'x) sub_act" where
  "record_act rec sid s x = (if \<not> want_record s then (True, x) else try_event (RecordUpdated rec) x)"

definition broadcast_record :: "'r \<Rightarrow> ('p, 'r, 'x) hub \<Rightarrow> ('p, 'r, 'x) hub" where
  "broadcast_record rec h = (if finalized h then h else retain_subscribers (record_act rec) h)"

definition resize_act :: "bytes \<Rightarrow> ('r, 'x) sub_act" where
  "resize_act snapshot sid s x =
     (if \<not> want_screen s then (True, x)
      else let (ok, x') = try_event (OutData snapshot) x in
        if ok then try_event (OutLayout erase_nudge) x' else (False, x'))"

definition broadcast_resize :: "'p vt100 \<Rightarrow> ('p, 'r, 'x) hub \<Rightarrow> ('p, 'r, 'x) hub" where
  "broadcast_resize V h =
     (if finalized h then h else retain_subscribers (resize_act (st_snapshot V (hb_screen h))) h)"

text \<open>Draining the map: every subscriber's queue gets the outcome and loses its sender.\<close>

definition terminate_all ::
    "('r, 'x) output_event \<Rightarrow> (('p, 'r, 'x) hub \<Rightarrow> ('p, 'r, 'x) hub) \<Rightarrow> ('p, 'r, 'x) hub \<Rightarrow> ('p, 'r, 'x) hub" where
  "terminate_all event persist h =
     (let t = (case hb_terminal h of Some t \<Rightarrow> t | None \<Rightarrow> event);
          h = persist (h\<lparr>hb_terminal := Some t\<rparr>)
      in h\<lparr>shared := (\<lambda>sid. if sid \<in> fst ` set (subscribers h) then terminate t (shared h sid) else shared h sid),
           subscribers := []\<rparr>)"

text \<open>\<open>txt_ok\<close>: whether the write of \<open>screen.txt\<close> succeeds.\<close>

definition finish_persist ::
    "'p vt100 \<Rightarrow> hist_codec \<Rightarrow> uuid \<Rightarrow> bool \<Rightarrow> ('p, 'r, 'x) hub \<Rightarrow> ('p, 'r, 'x) hub" where
  "finish_persist V K fresh txt_ok h =
     (let (r, history, w) = hist_flush_final K fresh (hb_history h, hb_world h);
          h = h\<lparr>hb_history := history, hb_world := w\<rparr>;
          h = (case r of Inl e \<Rightarrow> h\<lparr>history_persistence_error := Some e\<rparr> | Inr _ \<Rightarrow> h)
      in if txt_ok then h\<lparr>screen_txt := Some (st_contents V (hb_screen h))\<rparr> else h)"

definition finish ::
    "'p vt100 \<Rightarrow> hist_codec \<Rightarrow> uuid \<Rightarrow> bool \<Rightarrow> 'x \<Rightarrow> ('p, 'r, 'x) hub \<Rightarrow> ('p, 'r, 'x) hub" where
  "finish V K fresh txt_ok exit h = terminate_all (OutExit exit) (finish_persist V K fresh txt_ok) h"

definition finish_killed :: "'x \<Rightarrow> ('p, 'r, 'x) hub \<Rightarrow> ('p, 'r, 'x) hub" where
  "finish_killed exit h = terminate_all (OutExit exit) id h"

definition fail_subscribers :: "string \<Rightarrow> ('p, 'r, 'x) hub \<Rightarrow> ('p, 'r, 'x) hub" where
  "fail_subscribers message h = terminate_all (OutError message) id h"

definition mark_finalized :: "('p, 'r, 'x) hub \<Rightarrow> ('p, 'r, 'x) hub" where
  "mark_finalized h = h\<lparr>finalized := True\<rparr>"

text \<open>The receiving end, held by the connection's writer.\<close>

definition hub_recv ::
    "nat \<Rightarrow> ('p, 'r, 'x) hub \<Rightarrow> ('r, 'x) output_event recv_result \<times> ('p, 'r, 'x) hub" where
  "hub_recv sid h = (let (r, x) = recv (shared h sid) in (r, h\<lparr>shared := (shared h)(sid := x)\<rparr>))"

definition hub_drop_receiver :: "nat \<Rightarrow> ('p, 'r, 'x) hub \<Rightarrow> ('p, 'r, 'x) hub" where
  "hub_drop_receiver sid h = h\<lparr>shared := (shared h)(sid := drop_receiver (shared h sid))\<rparr>"

section \<open>Passes over the subscribers\<close>

lemma retain_filter:
  "distinct (map fst subs) \<Longrightarrow>
     fst (retain f subs st) = filter (\<lambda>(i, s). fst (f i s (st i))) subs \<and>
     snd (retain f subs st) i = (case map_of subs i of None \<Rightarrow> st i
      | Some s \<Rightarrow> if fst (f i s (st i)) then snd (f i s (st i)) else drop_sender (snd (f i s (st i))))"
proof (induction subs arbitrary: st)
  case (Cons a subs)
  obtain j s where a: "a = (j, s)" by fastforce
  obtain k x where f: "f j s (st j) = (k, x)" by fastforce
  define st' where "st' = st(j := if k then x else drop_sender x)"
  have nj: "j \<notin> fst ` set subs" "distinct (map fst subs)" using Cons.prems a by auto
  have none: "map_of subs j = None" using nj(1) by (simp add: map_of_eq_None_iff)
  have st': "st' j = (if k then x else drop_sender x)" "i \<noteq> j \<Longrightarrow> st' i = st i" by (simp_all add: st'_def)
  have filt: "filter (\<lambda>(i, s). fst (f i s (st' i))) subs = filter (\<lambda>(i, s). fst (f i s (st i))) subs"
    using nj(1) by (intro filter_cong) (force simp: st'_def)+
  have ret: "retain f ((j, s) # subs) st =
      (if k then (j, s) # fst (retain f subs st') else fst (retain f subs st'), snd (retain f subs st'))"
    by (simp add: f st'_def Let_def case_prod_beta)
  show ?case
    unfolding a ret using Cons.IH [OF nj(2), of st'] none f st' by (cases "i = j") (simp_all add: filt split: option.split)
qed simp

lemma map_of_filter_keys:
  "distinct (map fst xs) \<Longrightarrow> map_of (filter (\<lambda>(i, s). P i s) xs) k =
     (case map_of xs k of None \<Rightarrow> None | Some s \<Rightarrow> if P k s then Some s else None)"
  by (induction xs) (force simp: map_of_eq_None_iff split: option.split)+

lemma distinct_filter_keys: "distinct (map fst xs) \<Longrightarrow> distinct (map fst (filter P xs))"
  by (simp add: distinct_map_filter)

lemma retain_lookup:
  assumes "distinct (map fst (subscribers h))"
  shows "map_of (subscribers (retain_subscribers f h)) i =
      (case map_of (subscribers h) i of None \<Rightarrow> None
       | Some s \<Rightarrow> if fst (f i s (shared h i)) then Some s else None)"
    and "shared (retain_subscribers f h) i =
      (case map_of (subscribers h) i of None \<Rightarrow> shared h i
       | Some s \<Rightarrow> if fst (f i s (shared h i)) then snd (f i s (shared h i))
           else drop_sender (snd (f i s (shared h i))))"
    and "distinct (map fst (subscribers (retain_subscribers f h)))"
    and "length (subscribers (retain_subscribers f h)) \<le> length (subscribers h)"
  using retain_filter [OF assms, of f "shared h"] assms
  by (auto simp: retain_subscribers_def case_prod_beta Let_def map_of_filter_keys distinct_filter_keys
      split: option.split)

lemma retain_rest [simp]:
  "hb_history (retain_subscribers f h) = hb_history h" "hb_screen (retain_subscribers f h) = hb_screen h"
  "next_id (retain_subscribers f h) = next_id h" "hb_terminal (retain_subscribers f h) = hb_terminal h"
  "finalized (retain_subscribers f h) = finalized h"
  by (simp_all add: retain_subscribers_def Let_def case_prod_beta)

section \<open>Invariant\<close>

definition outcome_ok :: "('r, 'x) output_event option \<Rightarrow> bool" where
  "outcome_ok t \<longleftrightarrow> (case t of Some (OutData _) \<Rightarrow> False | _ \<Rightarrow> True)"

definition sub_inv :: "('r, 'x) subscriber_state \<Rightarrow> bool" where
  "sub_inv x \<longleftrightarrow> sub_ok x \<and> outcome_ok (terminal x)"

definition hub_inv :: "('p, 'r, 'x) hub \<Rightarrow> bool" where
  "hub_inv h \<longleftrightarrow> distinct (map fst (subscribers h)) \<and> length (subscribers h) \<le> MAX_SUBSCRIBERS \<and>
     1 \<le> next_id h \<and> outcome_ok (hb_terminal h) \<and>
     (hb_terminal h \<noteq> None \<longrightarrow> subscribers h = []) \<and>
     (\<forall>i. sub_inv (shared h i)) \<and>
     (\<forall>i s. map_of (subscribers h) i = Some s \<longrightarrow>
        i < next_id h \<and> terminal (shared h i) = None \<and> sender_alive (shared h i)) \<and>
     (\<forall>i. 1 \<le> i \<and> i < next_id h \<and> map_of (subscribers h) i = None \<longrightarrow> \<not> sender_alive (shared h i))"

lemma drop_sender_fields [simp]:
  "sender_alive (drop_sender x) = False" "queue (drop_sender x) = queue x"
  "terminal (drop_sender x) = terminal x" "receiver_alive (drop_sender x) = receiver_alive x"
  by (simp_all add: drop_sender_def)

lemma drop_receiver_fields [simp]:
  "sender_alive (drop_receiver x) = sender_alive x" "queue (drop_receiver x) = queue x"
  "terminal (drop_receiver x) = terminal x"
  by (simp_all add: drop_receiver_def)

lemma sub_inv_drop [simp]: "sub_inv (drop_sender x) = sub_inv x" "sub_inv (drop_receiver x) = sub_inv x"
  by (simp_all add: sub_inv_def sub_ok_drop)

text \<open>
  The contract between the hub's passes and what a pass does to one subscriber: it keeps the
  queue's invariant, and an entry it keeps stays open on both ends.
\<close>

locale sub_action =
  fixes act :: "('r, 'x) sub_act"
  assumes act_inv: "sub_inv x \<Longrightarrow> sub_inv (snd (act i s x))"
    and act_open: "terminal x = None \<Longrightarrow> fst (act i s x) \<Longrightarrow> terminal (snd (act i s x)) = None"
    and act_alive: "sender_alive (snd (act i s x)) = sender_alive x"
begin

lemma retain_inv:
  assumes "hub_inv h"
  shows "hub_inv (retain_subscribers act h)"
proof -
  have d: "distinct (map fst (subscribers h))" using assms by (simp add: hub_inv_def)
  note look = retain_lookup [OF d, of act]
  have "subscribers (retain_subscribers act h) = []" if "subscribers h = []"
    using look(4) that by simp
  then show ?thesis
    using assms look(3,4) act_inv act_open act_alive unfolding hub_inv_def
    by (auto simp: look(1,2) split: option.split_asm if_split_asm option.split)
qed

end

lemma try_event_laws:
  shows "sub_inv x \<Longrightarrow> sub_inv (snd (try_event e x))"
    and "terminal x = None \<Longrightarrow> fst (try_event e x) \<Longrightarrow> terminal (snd (try_event e x)) = None"
    and "sender_alive (snd (try_event e x)) = sender_alive x"
  using sub_ok_try_event [of x e]
  by (auto simp: sub_inv_def try_event_def Let_def outcome_ok_def fell_behind_def)

lemma offer_laws:
  shows "sub_inv x \<Longrightarrow> sub_inv (snd (offer s data snapshot x))"
    and "terminal x = None \<Longrightarrow> fst (offer s data snapshot x) \<noteq> Dropped \<Longrightarrow>
      terminal (snd (offer s data snapshot x)) = None"
    and "sender_alive (snd (offer s data snapshot x)) = sender_alive x"
  using sub_ok_offer [of x s data snapshot]
  by (auto simp: sub_inv_def offer_def Let_def outcome_ok_def fell_behind_def)

interpretation offers: sub_action "offer_act data snapshot"
  by unfold_locales
    (auto simp: offer_act_def case_prod_beta Let_def offer_laws split: offer_result.splits)

interpretation layouts: sub_action "layout_act change coalesced"
  by unfold_locales (auto simp: layout_act_def try_event_laws)

interpretation records: sub_action "record_act rec"
  by unfold_locales (auto simp: record_act_def try_event_laws)

interpretation resizes: sub_action "resize_act snapshot"
  by unfold_locales (auto simp: resize_act_def try_event_laws Let_def case_prod_beta)

interpretation removals: sub_action "\<lambda>i s x. (i \<noteq> sid, x)"
  by unfold_locales auto

section \<open>Every interleaving of the hub's methods\<close>

datatype ('r, 'x) hub_op =
  HAppend bytes nat | HSubscribe attach_payload bool | HUnsubscribe nat | HRecord 'r | HResize
  | HSetSize nat nat | HFlush uuid bool nat nat | HFinish uuid bool 'x | HKilled 'x | HFail string
  | HFinalize | HRecv nat | HDropReceiver nat

text \<open>One method call; the second component is what a read hands to a client.\<close>

fun hub_step ::
    "'p vt100 \<Rightarrow> 'p screen_judges \<Rightarrow> hist_codec \<Rightarrow> ('p, 'r, 'x) hub \<Rightarrow> ('r, 'x) hub_op \<Rightarrow>
     ('p, 'r, 'x) hub \<times> (nat \<times> ('r, 'x) output_event) list" where
  "hub_step V J K h (HAppend data now) = (snd (hub_append V J data now h), [])"
| "hub_step V J K h (HSubscribe payload rec) = (snd (subscribe V payload rec h), [])"
| "hub_step V J K h (HUnsubscribe sid) = (unsubscribe sid h, [])"
| "hub_step V J K h (HRecord rec) = (broadcast_record rec h, [])"
| "hub_step V J K h HResize = (broadcast_resize V h, [])"
| "hub_step V J K h (HSetSize rows cols) = (snd (hub_set_size V rows cols h), [])"
| "hub_step V J K h (HFlush fresh force now later) = (snd (flush_history K fresh force now later h), [])"
| "hub_step V J K h (HFinish fresh txt_ok exit) = (finish V K fresh txt_ok exit h, [])"
| "hub_step V J K h (HKilled exit) = (finish_killed exit h, [])"
| "hub_step V J K h (HFail message) = (fail_subscribers message h, [])"
| "hub_step V J K h HFinalize = (mark_finalized h, [])"
| "hub_step V J K h (HRecv sid) =
     (let (r, h') = hub_recv sid h in (h', case r of Received e \<Rightarrow> [(sid, e)] | _ \<Rightarrow> []))"
| "hub_step V J K h (HDropReceiver sid) = (hub_drop_receiver sid h, [])"

fun hub_run ::
    "'p vt100 \<Rightarrow> 'p screen_judges \<Rightarrow> hist_codec \<Rightarrow> ('p, 'r, 'x) hub \<Rightarrow> ('r, 'x) hub_op list \<Rightarrow>
     ('p, 'r, 'x) hub \<times> (nat \<times> ('r, 'x) output_event) list" where
  "hub_run V J K h [] = (h, [])"
| "hub_run V J K h (op # ops) =
     (let (h', out) = hub_step V J K h op; (h'', outs) = hub_run V J K h' ops in (h'', out @ outs))"

lemma hub_run_append:
  "hub_run V J K h (xs @ ys) =
     (let (h', out) = hub_run V J K h xs; (h'', outs) = hub_run V J K h' ys in (h'', out @ outs))"
  by (induction xs arbitrary: h) (auto simp: Let_def case_prod_beta)

text \<open>The fields a step outside the fan-out leaves alone.\<close>

definition same_subs :: "('p, 'r, 'x) hub \<Rightarrow> ('p, 'r, 'x) hub \<Rightarrow> bool" where
  "same_subs h h' \<longleftrightarrow> subscribers h' = subscribers h \<and> shared h' = shared h \<and> next_id h' = next_id h \<and>
     hb_terminal h' = hb_terminal h"

lemma same_subs_inv: "same_subs h h' \<Longrightarrow> hub_inv h \<Longrightarrow> hub_inv h'"
  by (simp add: same_subs_def hub_inv_def)

lemma same_subs_refl [simp]: "same_subs h h"
  by (simp add: same_subs_def)

lemma same_subs_trans: "same_subs h h' \<Longrightarrow> same_subs h' h'' \<Longrightarrow> same_subs h h''"
  by (simp add: same_subs_def)

lemma same_subs_ops:
  "same_subs h (record_history_persistence_error e now h)"
  "same_subs h (snd (settle V J n h))"
  "same_subs h (snd (hub_set_size V rows cols h))"
  "same_subs h (mark_finalized h)"
  "same_subs h (finish_persist V K fresh txt_ok h)"
  by (auto simp: same_subs_def record_history_persistence_error_def settle_def hub_set_size_def
      mark_finalized_def finish_persist_def Let_def case_prod_beta split: sum.split)

lemma finish_persist_fields [simp]:
  "subscribers (finish_persist V K fresh txt_ok h) = subscribers h"
  "shared (finish_persist V K fresh txt_ok h) = shared h"
  "next_id (finish_persist V K fresh txt_ok h) = next_id h"
  "hb_terminal (finish_persist V K fresh txt_ok h) = hb_terminal h"
  using same_subs_ops(5) [of h V K fresh txt_ok] by (simp_all add: same_subs_def)

lemma hub_invD:
  assumes "hub_inv h"
  shows "map_of (subscribers h) i \<noteq> None \<Longrightarrow>
      i < next_id h \<and> terminal (shared h i) = None \<and> sender_alive (shared h i) \<and> hb_terminal h = None"
    and "1 \<le> i \<Longrightarrow> i < next_id h \<Longrightarrow> sender_alive (shared h i) \<Longrightarrow> map_of (subscribers h) i \<noteq> None"
  using assms unfolding hub_inv_def by (fastforce simp del: map_of_eq_Some_iff)+

lemma same_subs_flush: "same_subs h (snd (flush_history K fresh force now later h))"
  by (auto simp: same_subs_def flush_history_def record_history_persistence_error_def Let_def
      case_prod_beta split: sum.split)

text \<open>\<open>append\<close> as the fan-out between two steps that leave the subscribers alone.\<close>

lemma hub_append_split:
  obtains h1 where "same_subs h h1" "hb_screen h1 = fst (st_process V (hb_screen h) data)"
    "same_subs (fan_out V data (snd (st_process V (hb_screen h) data)) h1) (snd (hub_append V J data now h))"
    "hb_screen (snd (hub_append V J data now h)) = hb_screen h1"
proof
  let ?h1 = "(case fst (hist_append data (hb_history h)) of
       Inl e \<Rightarrow> record_history_persistence_error e now (h\<lparr>hb_history := snd (hist_append data (hb_history h))\<rparr>)
     | Inr _ \<Rightarrow> h\<lparr>hb_history := snd (hist_append data (hb_history h))\<rparr>)
     \<lparr>hb_screen := fst (st_process V (hb_screen h) data)\<rparr>"
  show "same_subs h ?h1" "hb_screen ?h1 = fst (st_process V (hb_screen h) data)"
    by (simp_all add: same_subs_def record_history_persistence_error_def split: sum.split)
  have app: "snd (hub_append V J data now h) =
      snd (settle V J (length data) (fan_out V data (snd (st_process V (hb_screen h) data)) ?h1))"
    by (simp add: hub_append_def Let_def case_prod_beta record_history_persistence_error_def split: sum.split)
  show "same_subs (fan_out V data (snd (st_process V (hb_screen h) data)) ?h1) (snd (hub_append V J data now h))"
    unfolding app by (rule same_subs_ops(2))
  have "hb_screen (snd (settle V J n h')) = hb_screen h'" for n and h' :: "('a, 'b, 'c) hub"
    by (simp add: settle_def Let_def)
  then show "hb_screen (snd (hub_append V J data now h)) = hb_screen ?h1"
    unfolding app by (simp add: fan_out_def Let_def split: option.split)
qed

lemma fan_out_inv: "hub_inv h \<Longrightarrow> hub_inv (fan_out V data layout h)"
  by (simp add: fan_out_def Let_def offers.retain_inv layouts.retain_inv split: option.split)

lemma hub_append_inv: "hub_inv h \<Longrightarrow> hub_inv (snd (hub_append V J data now h))"
  by (rule hub_append_split [of h V data J now]) (use same_subs_inv fan_out_inv in blast)

lemma shared_update_inv:
  assumes "hub_inv h" "sub_inv x" "sender_alive x = sender_alive (shared h i)"
    "terminal x = terminal (shared h i)"
  shows "hub_inv (h\<lparr>shared := (shared h)(i := x)\<rparr>)"
  using assms by (auto simp: hub_inv_def)

lemma recv_laws:
  shows "sub_inv x \<Longrightarrow> sub_inv (snd (recv x))" and "sender_alive (snd (recv x)) = sender_alive x"
    and "terminal (snd (recv x)) = terminal x"
  using sub_ok_recv [of x] by (auto simp: sub_inv_def recv_def split: list.split option.split)

lemma terminate_laws:
  assumes "sub_inv x" "outcome_ok (Some t)"
  shows "sub_inv (terminate t x)" "\<not> sender_alive (terminate t x)"
  using assms by (simp_all add: sub_inv_def sub_ok_terminate) (simp_all add: terminate_def)

lemma terminate_all_inv:
  assumes inv: "hub_inv h" and e: "outcome_ok (Some e)" and p: "\<And>h. same_subs h (persist h)"
  shows "hub_inv (terminate_all e persist h)"
proof -
  let ?t = "case hb_terminal h of Some t \<Rightarrow> t | None \<Rightarrow> e"
  have t: "outcome_ok (Some ?t)" using inv e by (cases "hb_terminal h") (auto simp: hub_inv_def)
  have "sub_inv (shared h i)" for i using inv by (simp add: hub_inv_def)
  note ends = terminate_laws [OF this t]
  have mem: "i \<in> fst ` set (subscribers h) \<longleftrightarrow> map_of (subscribers h) i \<noteq> None" for i
    by (simp add: map_of_eq_None_iff)
  show ?thesis
    using inv t p [of "h\<lparr>hb_terminal := Some ?t\<rparr>"] ends
    unfolding hub_inv_def same_subs_def by (auto simp: terminate_all_def Let_def mem simp del: map_of_eq_Some_iff)
qed

lemma subscribe_inv:
  assumes "hub_inv h"
  shows "hub_inv (snd (subscribe V payload rec h))"
proof -
  have fresh: "map_of (subscribers h) (next_id h) = None"
    using assms by (metis hub_inv_def less_irrefl not_None_eq)
  then have d: "next_id h \<notin> fst ` set (subscribers h)" by (simp add: map_of_eq_None_iff)
  have new: "sub_inv (subscriber_new :: ('b, 'c) subscriber_state)"
    by (simp add: sub_inv_def) (simp add: subscriber_new_def outcome_ok_def)
  show ?thesis
    using assms d fresh new terminate_laws [OF new] unfolding hub_inv_def subscribe_def
    by (auto simp: Let_def subscriber_new_def less_Suc_eq split: sum.split option.split)
qed

lemma hub_step_inv: "hub_inv h \<Longrightarrow> hub_inv (fst (hub_step V J K h op))"
proof (cases op)
  case (HRecv sid)
  moreover assume "hub_inv h"
  ultimately show ?thesis
    using recv_laws [of "shared h sid"] shared_update_inv [of h "snd (recv (shared h sid))" sid]
    by (auto simp: hub_recv_def Let_def case_prod_beta hub_inv_def)
next
  case (HDropReceiver sid)
  moreover assume "hub_inv h"
  ultimately show ?thesis
    using shared_update_inv [of h "drop_receiver (shared h sid)" sid]
    by (simp add: hub_drop_receiver_def) (simp add: hub_inv_def)
qed (auto simp: hub_append_inv subscribe_inv unsubscribe_def removals.retain_inv broadcast_record_def
    records.retain_inv broadcast_resize_def resizes.retain_inv finish_def finish_killed_def
    fail_subscribers_def outcome_ok_def same_subs_ops intro!: terminate_all_inv
    intro: same_subs_inv same_subs_ops same_subs_flush)

lemma hub_run_inv: "hub_inv h \<Longrightarrow> hub_inv (fst (hub_run V J K h ops))"
  by (induction ops arbitrary: h) (auto simp: Let_def case_prod_beta hub_step_inv)

lemma hub_new_inv: "hub_new V history w rows cols now = Inr h \<Longrightarrow> hub_inv h"
  by (auto simp: hub_new_def res_bind_eq_Inr hub_inv_def sub_inv_def outcome_ok_def)
    (simp add: subscriber_new_def)

text \<open>
  C12: whatever the threads of a worker do to the hub it started with, in any order, at
  most 64 clients are subscribed, under distinct ids; every queue has an exact byte count and
  is within its caps; a subscribed queue is open on both ends; no client is subscribed once
  the outcome is known; and a queue that left the map has no sender.
\<close>

theorem hub_run_invariant:
  assumes "hub_new V history w rows cols now = Inr h"
  shows "hub_inv (fst (hub_run V J K h ops))"
  using assms by (intro hub_run_inv hub_new_inv)

section \<open>A client that has left\<close>

lemma retain_gone:
  assumes "hub_inv h" "map_of (subscribers h) i = None"
  shows "map_of (subscribers (retain_subscribers f h)) i = None \<and>
     shared (retain_subscribers f h) i = shared h i"
  using retain_lookup(1,2) [of h f i] assms by (simp add: hub_inv_def)

lemma fan_out_gone:
  assumes "hub_inv h" "map_of (subscribers h) i = None"
  shows "map_of (subscribers (fan_out V data layout h)) i = None \<and>
     shared (fan_out V data layout h) i = shared h i \<and> next_id (fan_out V data layout h) = next_id h"
  using retain_gone [OF assms] retain_gone [OF offers.retain_inv [OF assms(1)]]
  by (simp add: fan_out_def Let_def split: option.split)

lemma step_gone:
  assumes inv: "hub_inv h" and gone: "map_of (subscribers h) i = None" and i: "i < next_id h"
  shows "map_of (subscribers (fst (hub_step V J K h op))) i = None \<and>
     i < next_id (fst (hub_step V J K h op)) \<and>
     shared (fst (hub_step V J K h op)) i =
       (if op = HRecv i then snd (recv (shared h i))
        else if op = HDropReceiver i then drop_receiver (shared h i) else shared h i)"
proof (cases op)
  case (HAppend data now)
  obtain h1 where "same_subs h h1"
    "same_subs (fan_out V data (snd (st_process V (hb_screen h) data)) h1) (snd (hub_append V J data now h))"
    by (rule hub_append_split)
  moreover from this(1) inv have "hub_inv h1" by (rule same_subs_inv)
  ultimately show ?thesis
    using gone i HAppend fan_out_gone [of h1 i] by (simp add: same_subs_def)
next
  case (HSubscribe payload rec)
  then show ?thesis
    using gone i by (auto simp: subscribe_def Let_def split: sum.split option.split)
next
  case (HFlush fresh force now later)
  then show ?thesis
    using gone i same_subs_flush [of h K fresh force now later] by (simp add: same_subs_def)
next
  case (HFinish fresh txt_ok exit)
  have "i \<notin> fst ` set (subscribers h)" using gone by (simp add: map_of_eq_None_iff)
  with HFinish show ?thesis
    using i by (simp add: finish_def terminate_all_def Let_def)
next
  case (HKilled exit)
  have "i \<notin> fst ` set (subscribers h)" using gone by (simp add: map_of_eq_None_iff)
  with HKilled i show ?thesis by (simp add: finish_killed_def terminate_all_def Let_def)
next
  case (HFail message)
  have "i \<notin> fst ` set (subscribers h)" using gone by (simp add: map_of_eq_None_iff)
  with HFail i show ?thesis by (simp add: fail_subscribers_def terminate_all_def Let_def)
qed (use gone i retain_gone [OF inv gone] in
    \<open>auto simp: unsubscribe_def broadcast_record_def broadcast_resize_def hub_recv_def Let_def
      case_prod_beta hub_drop_receiver_def hub_set_size_def mark_finalized_def\<close>)

text \<open>
  C13: no reader is stranded. A client whose read blocks is subscribed and the session has
  no outcome yet, so the hub still has a sender that wakes it: a client that was evicted,
  unsubscribed or left behind by the end of the session never blocks.
\<close>

theorem blocked_reader_subscribed:
  assumes "hub_new V history w rows cols now = Inr h" and "h' = fst (hub_run V J K h ops)"
    and "1 \<le> i" and "i < next_id h'" and "fst (hub_recv i h') = Wait"
  shows "map_of (subscribers h') i \<noteq> None \<and> hb_terminal h' = None"
proof -
  have inv: "hub_inv h'" using assms(1,2) by (simp add: hub_run_inv hub_new_inv)
  have "sender_alive (shared h' i)"
    using assms(5) by (auto simp: hub_recv_def recv_def Let_def case_prod_beta
        split: list.split_asm option.split_asm if_split_asm)
  with hub_invD [OF inv, of i] assms(3,4) show ?thesis by blast
qed

section \<open>The outcome\<close>

lemma terminal_step:
  assumes "hub_inv h" "terminal (shared h i) = Some t" "i < next_id h"
  shows "map_of (subscribers h) i = None" and "terminal (shared (fst (hub_step V J K h op)) i) = Some t"
    and "i < next_id (fst (hub_step V J K h op))"
proof -
  show gone: "map_of (subscribers h) i = None"
    using assms(2) hub_invD(1) [OF assms(1), of i] by fastforce
  show "terminal (shared (fst (hub_step V J K h op)) i) = Some t" "i < next_id (fst (hub_step V J K h op))"
    using step_gone [OF assms(1) gone assms(3), of V J K op] assms(2) by (auto simp: recv_laws)
qed

lemma terminal_run:
  "hub_inv h \<Longrightarrow> terminal (shared h i) = Some t \<Longrightarrow> i < next_id h \<Longrightarrow>
     terminal (shared (fst (hub_run V J K h ops)) i) = Some t"
  by (induction ops arbitrary: h) (auto simp: Let_def case_prod_beta hub_step_inv terminal_step)

lemma hub_terminal_step: "hb_terminal h = Some t \<Longrightarrow> hb_terminal (fst (hub_step V J K h op)) = Some t"
proof (cases op)
  case (HAppend data now)
  moreover assume "hb_terminal h = Some t"
  moreover obtain h1 where "same_subs h h1"
    "same_subs (fan_out V data (snd (st_process V (hb_screen h) data)) h1) (snd (hub_append V J data now h))"
    by (rule hub_append_split)
  ultimately show ?thesis by (simp add: same_subs_def fan_out_def Let_def split: option.split)
next
  case (HFlush fresh force now later)
  moreover assume "hb_terminal h = Some t"
  ultimately show ?thesis using same_subs_flush [of h K fresh force now later] by (simp add: same_subs_def)
next
  case (HFinish fresh txt_ok exit)
  moreover assume "hb_terminal h = Some t"
  ultimately show ?thesis by (simp add: finish_def terminate_all_def Let_def)
qed (auto simp: subscribe_def unsubscribe_def broadcast_record_def broadcast_resize_def hub_recv_def
    Let_def case_prod_beta hub_drop_receiver_def hub_set_size_def mark_finalized_def finish_killed_def
    fail_subscribers_def terminate_all_def split: sum.split option.split)

lemma hub_terminal_run: "hb_terminal h = Some t \<Longrightarrow> hb_terminal (fst (hub_run V J K h ops)) = Some t"
  by (induction ops arbitrary: h) (auto simp: Let_def case_prod_beta hub_terminal_step)

text \<open>The outcome an operation proposes.\<close>

fun proposes :: "('r, 'x) hub_op \<Rightarrow> ('r, 'x) output_event option" where
  "proposes (HFinish _ _ exit) = Some (OutExit exit)"
| "proposes (HKilled exit) = Some (OutExit exit)"
| "proposes (HFail message) = Some (OutError message)"
| "proposes _ = None"

lemma proposes_step:
  assumes "hb_terminal h = None" "proposes op = Some t"
  shows "hb_terminal (fst (hub_step V J K h op)) = Some t \<and>
     (map_of (subscribers h) i \<noteq> None \<and> terminal (shared h i) = None \<longrightarrow>
        terminal (shared (fst (hub_step V J K h op)) i) = Some t) \<and>
     next_id (fst (hub_step V J K h op)) = next_id h"
proof -
  have mem: "map_of (subscribers h) i \<noteq> None \<longleftrightarrow> i \<in> fst ` set (subscribers h)"
    by (simp add: map_of_eq_None_iff)
  show ?thesis
    using assms unfolding mem
    by (cases op) (auto simp: finish_def finish_killed_def fail_subscribers_def terminate_all_def
        terminate_def Let_def)
qed

text \<open>
  C14: the first outcome wins, for everyone. Once one is proposed, every client subscribed
  then has it as its queue's outcome and keeps it whatever follows, later proposals change
  nothing, and a client that attaches afterwards gets the same outcome.
\<close>

theorem first_outcome_wins:
  assumes "hub_inv h" and "hb_terminal h = None" and "proposes op = Some t"
    and "h' = fst (hub_run V J K (fst (hub_step V J K h op)) ops)"
  shows "hb_terminal h' = Some t \<and>
     (map_of (subscribers h) i \<noteq> None \<longrightarrow> terminal (shared h' i) = Some t) \<and>
     (\<forall>payload rec sid initial h''. subscribe V payload rec h' = (Inr (sid, initial), h'') \<longrightarrow>
        shared h'' sid = terminate t subscriber_new)"
proof -
  let ?h1 = "fst (hub_step V J K h op)"
  note p = proposes_step [OF assms(2,3), of V J K]
  have inv: "hub_inv ?h1" by (rule hub_step_inv [OF assms(1)])
  have t: "hb_terminal h' = Some t" unfolding assms(4) using p by (blast intro: hub_terminal_run)
  have "terminal (shared h' i) = Some t" if "map_of (subscribers h) i \<noteq> None"
  proof -
    have "i < next_id h" "terminal (shared h i) = None"
      using hub_invD(1) [OF assms(1) that] by blast+
    with that p [of i] show ?thesis unfolding assms(4) by (auto intro: terminal_run [OF inv])
  qed
  moreover have "shared h'' sid = terminate t subscriber_new"
    if "subscribe V payload rec h' = (Inr (sid, initial), h'')" for payload rec sid initial h''
    using that t by (auto simp: subscribe_def Let_def split: sum.split_asm if_split_asm)
  ultimately show ?thesis using t by blast
qed

section \<open>Examples\<close>

definition quiet_judges :: "bytes screen_judges" where
  "quiet_judges = \<lparr>resolve_family = \<lambda>_ _. None, composer_is_empty_or_ghost = \<lambda>_ _ _. False,
     is_idle_prompt_redraw = \<lambda>_ _ _ _ _. False, screen_is_fresh_empty_prompt = \<lambda>_ _ _. False\<rparr>"

definition sample_world :: world where
  "sample_world = \<lparr>disk = \<lambda>_. Absent, faults = []\<rparr>"

definition sample_hub :: "(bytes, unit, unit) hub" where
  "sample_hub = \<lparr>hb_history = new_history 4 [1, 2], hb_world = sample_world, history_persistence_error = None,
     history_retry_at = 0, history_retry_delay = HISTORY_RETRY_INITIAL,
     hb_screen = \<lparr>st_parser = [], st_margins = mt_new 24, st_alt_screen = False, st_scrollback = 0\<rparr>,
     hb_engine = [], settled_plain = [], settled_composer_empty_or_ghost = False,
     sync_bytes = 0, subscribers = [], next_id = 1, hb_terminal = None,
     shared = (\<lambda>_. subscriber_new), finalized = False, screen_txt = None\<rparr>"

lemma sample_hub_new: "hub_new vt_log (new_history 4 [1, 2]) sample_world 24 80 0 = Inr sample_hub"
  by (simp add: hub_new_def st_try_new_def try_new_with_scrollback_def validate_screen_size_def
      validate_size_with_minimum_def checked_mul_def sample_hub_def vt_log_def size_consts)

text \<open>A hub with one client on a raw tail and one on the live screen.\<close>

definition busy_hub :: "(bytes, unit, unit) hub" where
  "busy_hub = fst (hub_run vt_log quiet_judges plain_codec sample_hub
     [HSubscribe (AttachTail None) False, HSubscribe AttachScreen True])"

lemma busy_hub_inv: "hub_inv busy_hub"
  unfolding busy_hub_def by (rule hub_run_inv [OF hub_new_inv [OF sample_hub_new]])

lemma busy_hub_eq:
  "busy_hub = sample_hub\<lparr>next_id := 3, shared := (\<lambda>_. subscriber_new),
     subscribers := [(2, \<lparr>want_screen = True, want_record = True\<rparr>), (1, \<lparr>want_screen = False, want_record = False\<rparr>)]\<rparr>"
  by (simp add: busy_hub_def subscribe_def sample_hub_def screen_snapshot_def st_snapshot_def vt_log_def
      st_get_margins_def margins_def mt_new_def ensure_frame_payload_size_def size_consts Let_def fun_eq_iff)

theorem hub_run_invariant_witness:
  "hub_inv (fst (hub_run vt_log quiet_judges plain_codec sample_hub
     [HSubscribe AttachScreen False, HAppend [1, 2] 5, HKilled (), HRecv 1]))"
  by (rule hub_run_invariant [OF sample_hub_new])

text \<open>A client with nothing to read.\<close>

theorem blocked_reader_subscribed_witness:
  "map_of (subscribers busy_hub) 1 \<noteq> None \<and> hb_terminal busy_hub = None"
  by (rule blocked_reader_subscribed [OF sample_hub_new busy_hub_def])
    (simp_all add: busy_hub_eq hub_recv_def recv_def subscriber_new_def)

theorem first_outcome_wins_witness:
  "hb_terminal (fst (hub_run vt_log quiet_judges plain_codec
       (fst (hub_step vt_log quiet_judges plain_codec busy_hub (HKilled ()))) [HFail ''late''])) =
     Some (OutExit ()) \<and>
   terminal (shared (fst (hub_run vt_log quiet_judges plain_codec
       (fst (hub_step vt_log quiet_judges plain_codec busy_hub (HKilled ()))) [HFail ''late''])) 2) =
     Some (OutExit ())"
  using first_outcome_wins [of busy_hub "HKilled ()" "OutExit ()" _ vt_log quiet_judges plain_codec
      "[HFail ''late'']" 2, OF busy_hub_inv _ _ refl]
  by (simp add: busy_hub_eq sample_hub_def)

end
