(* ===== verification/Hub_Streams.thy ===== *)
theory Hub_Streams
  imports Output_Hub
begin

text \<open>
  What the hub of \<open>src/worker/hub.rs\<close> sends each client over time: a raw-tail client gets
  the stream byte for byte, a live-screen client always gets the chunks since some snapshot
  of the screen, and the flush keeps its backoff.
\<close>

section \<open>What a client is sent\<close>

fun fed :: "('r, 'x) hub_op \<Rightarrow> bytes list" where
  "fed (HAppend data _) = [data]"
| "fed _ = []"

definition payloads :: "('r, 'x) output_event list \<Rightarrow> bytes list" where
  "payloads es = concat (map (\<lambda>e. case e of OutData data \<Rightarrow> [data] | _ \<Rightarrow> []) es)"

definition received :: "nat \<Rightarrow> (nat \<times> ('r, 'x) output_event) list \<Rightarrow> bytes list" where
  "received i out = payloads (map snd (filter (\<lambda>(j, _). j = i) out))"

lemma payloads_simps [simp]:
  "payloads [] = []" "payloads (OutData data # es) = data # payloads es"
  "payloads (OutLayout c # es) = payloads es" "payloads (RecordUpdated r # es) = payloads es"
  "payloads (es @ es') = payloads es @ payloads es'"
  by (simp_all add: payloads_def)

lemma received_simps [simp]:
  "received i [] = []" "received i (out @ out') = received i out @ received i out'"
  by (simp_all add: received_def)

lemma try_event_queue:
  "terminal x = None \<Longrightarrow>
     queue (snd (try_event e x)) = (if fst (try_event e x) then queue x @ [e] else queue x)"
  by (simp add: try_event_def Let_def)

lemma offer_queue:
  assumes "terminal x = None"
  shows "case fst (offer s data snapshot x) of
       Queued \<Rightarrow> queue (snd (offer s data snapshot x)) = queue x @ [OutData data]
     | Coalesced \<Rightarrow> want_screen s \<and>
         queue (snd (offer s data snapshot x)) = [OutData snapshot, OutLayout erase_nudge]
     | Dropped \<Rightarrow> queue (snd (offer s data snapshot x)) = queue x"
  using assms by (auto simp: offer_def Let_def)

text \<open>What one pass does to one subscribed queue.\<close>

lemma retain_subscribed:
  assumes "hub_inv h" "map_of (subscribers h) i = Some s"
  shows "map_of (subscribers (retain_subscribers f h)) i = (if fst (f i s (shared h i)) then Some s else None)"
    and "queue (shared (retain_subscribers f h) i) = queue (snd (f i s (shared h i)))"
  using retain_lookup(1,2) [of h f i] assms by (simp_all add: hub_inv_def)

lemma layout_pass:
  assumes "hub_inv h" "map_of (subscribers h) i = Some s" "h' = retain_subscribers (layout_act c ids) h"
  shows "payloads (queue (shared h' i)) = payloads (queue (shared h i))"
  using retain_subscribed(2) [OF assms(1,2)] hub_invD(1) [OF assms(1), of i] assms(2)
  by (auto simp: assms(3) layout_act_def try_event_queue)

lemma offer_pass:
  assumes "hub_inv h" "map_of (subscribers h) i = Some s"
    "h' = retain_subscribers (offer_act data snapshot) h"
  shows "(if map_of (subscribers h') i \<noteq> None
      then map_of (subscribers h') i = Some s \<and>
        (payloads (queue (shared h' i)) = payloads (queue (shared h i)) @ [data] \<or>
         want_screen s \<and> payloads (queue (shared h' i)) = [snapshot])
      else payloads (queue (shared h' i)) = payloads (queue (shared h i)))"
proof -
  have "terminal (shared h i) = None" using hub_invD(1) [OF assms(1), of i] assms(2) by simp
  from offer_queue [OF this, of s data snapshot] show ?thesis
    using retain_subscribed [OF assms(1,2), of "offer_act data snapshot"]
    by (auto simp: assms(3) offer_act_def Let_def case_prod_beta split: offer_result.splits if_split_asm)
qed

lemma fan_out_pass:
  assumes "hub_inv h" "map_of (subscribers h) i = Some s" "h' = fan_out V data layout h"
  shows "(map_of (subscribers h') i = Some s \<longrightarrow>
        payloads (queue (shared h' i)) = payloads (queue (shared h i)) @ [data] \<or>
        want_screen s \<and> payloads (queue (shared h' i)) = [st_snapshot V (hb_screen h)]) \<and>
     (map_of (subscribers h') i \<noteq> Some s \<longrightarrow> map_of (subscribers h') i = None \<and>
        (\<not> want_screen s \<longrightarrow> payloads (queue (shared h' i)) = payloads (queue (shared h i)) \<or>
         payloads (queue (shared h' i)) = payloads (queue (shared h i)) @ [data]))"
proof -
  let ?snapshot = "st_snapshot V (hb_screen h)"
  define h1 where "h1 = retain_subscribers (offer_act data ?snapshot) h"
  note first = offer_pass [OF assms(1,2) h1_def]
  have inv1: "hub_inv h1" unfolding h1_def by (rule offers.retain_inv [OF assms(1)])
  show ?thesis
  proof (cases layout)
    case None
    then have "h' = h1" by (simp add: assms(3) fan_out_def h1_def Let_def)
    with first show ?thesis by (cases "map_of (subscribers h1) i") simp_all
  next
    case (Some c)
    then have h': "h' = retain_subscribers (layout_act c (coalesced_ids data ?snapshot h)) h1"
      by (simp add: assms(3) fan_out_def h1_def Let_def)
    show ?thesis
    proof (cases "map_of (subscribers h1) i")
      case None
      with retain_gone [OF inv1 this] first show ?thesis by (simp add: h')
    next
      case (Some s')
      with first have s: "map_of (subscribers h1) i = Some s"
        and q1: "payloads (queue (shared h1 i)) = payloads (queue (shared h i)) @ [data] \<or>
          want_screen s \<and> payloads (queue (shared h1 i)) = [?snapshot]" by simp_all
      have k: "map_of (subscribers h') i = Some s \<or> map_of (subscribers h') i = None"
        using retain_subscribed(1) [OF inv1 s] by (simp add: h')
      have "payloads (queue (shared h' i)) = payloads (queue (shared h1 i))"
        by (rule layout_pass [OF inv1 s h'])
      with q1 k show ?thesis by metis
    qed
  qed
qed

text \<open>
  One step, as one subscribed client sees it: it stays subscribed, and what it has been sent
  grows by the chunk or restarts at a snapshot; or it leaves, and a raw-tail client then has a
  prefix.
\<close>

definition follows_stream ::
    "'p vt100 \<Rightarrow> nat \<Rightarrow> subscriber_sender \<Rightarrow> bytes list \<Rightarrow> ('p, 'r, 'x) hub \<Rightarrow>
     ('p, 'r, 'x) hub \<times> (nat \<times> ('r, 'x) output_event) list \<Rightarrow> bool" where
  "follows_stream V i s chunks h r \<longleftrightarrow>
     (let h' = fst r; sent = received i (snd r) @ payloads (queue (shared h' i));
          q = payloads (queue (shared h i)) in
      if map_of (subscribers h') i = None
      then want_screen s \<or> (\<exists>later. q @ chunks = sent @ later)
      else map_of (subscribers h') i = Some s \<and>
        (sent = q @ chunks \<or> want_screen s \<and> (\<exists>pre. sent = pre @ [st_snapshot V (hb_screen h')])))"

lemma follows_same:
  assumes "map_of (subscribers h) i = Some s" "map_of (subscribers h') i \<in> {Some s, None}"
    "payloads (queue (shared h' i)) = payloads (queue (shared h i))"
  shows "follows_stream V i s [] h (h', [])"
  using assms by (auto simp: follows_stream_def)

lemma follows_append:
  assumes inv: "hub_inv h" and s: "map_of (subscribers h) i = Some s"
  shows "follows_stream V i s [data] h (snd (hub_append V J data now h), [])"
proof -
  obtain h1 where h1: "same_subs h h1"
    and f: "same_subs (fan_out V data (snd (st_process V (hb_screen h) data)) h1) (snd (hub_append V J data now h))"
    and scr: "hb_screen (snd (hub_append V J data now h)) = hb_screen h1"
    by (rule hub_append_split)
  have inv1: "hub_inv h1" and s1: "map_of (subscribers h1) i = Some s" and q: "shared h1 = shared h"
    using same_subs_inv [OF h1 inv] h1 s by (simp_all add: same_subs_def)
  define h2 where "h2 = fan_out V data (snd (st_process V (hb_screen h) data)) h1"
  have h2: "subscribers (snd (hub_append V J data now h)) = subscribers h2"
    "shared (snd (hub_append V J data now h)) = shared h2"
    using f by (simp_all add: same_subs_def h2_def)
  from fan_out_pass [OF inv1 s1 h2_def] show ?thesis
    by (cases "map_of (subscribers h2) i = Some s") (auto simp: follows_stream_def Let_def h2 scr q)
qed

lemma follows_resize:
  assumes inv: "hub_inv h" and s: "map_of (subscribers h) i = Some s"
  shows "follows_stream V i s [] h (broadcast_resize V h, [])"
proof (cases "finalized h \<or> \<not> want_screen s")
  case True
  then show ?thesis
    using s retain_subscribed [OF inv s]
    by (intro follows_same) (auto simp: broadcast_resize_def resize_act_def)
next
  case False
  let ?snap = "st_snapshot V (hb_screen h)"
  have t: "terminal (shared h i) = None" using hub_invD(1) [OF inv, of i] s by simp
  have "queue (snd (resize_act ?snap i s (shared h i))) =
      queue (shared h i) @ [OutData ?snap, OutLayout erase_nudge]"
    if "fst (resize_act ?snap i s (shared h i))"
    using that False t try_event_laws(2) [OF t, of "OutData ?snap"]
    by (auto simp: resize_act_def Let_def case_prod_beta try_event_queue split: if_split_asm)
  with False show ?thesis
    using retain_subscribed [OF inv s, of "resize_act ?snap"]
    by (auto simp: follows_stream_def broadcast_resize_def Let_def)
qed

lemma follows_recv:
  assumes inv: "hub_inv h" and s: "map_of (subscribers h) i = Some s"
  shows "follows_stream V i s [] h (hub_step V J K h (HRecv j))"
proof -
  have "terminal (shared h i) = None" using hub_invD(1) [OF inv, of i] s by simp
  with s show ?thesis
    by (cases "queue (shared h i)"; cases "j = i")
      (auto simp: follows_stream_def received_def hub_recv_def recv_def Let_def case_prod_beta
        payloads_def split: list.split recv_result.split)
qed

lemma follows_subscribe:
  assumes inv: "hub_inv h" and s: "map_of (subscribers h) i = Some s"
  shows "follows_stream V i s [] h (snd (subscribe V payload rec h), [])"
proof -
  have "i \<noteq> next_id h" using hub_invD(1) [OF inv, of i] s by fastforce
  with s show ?thesis
    by (intro follows_same) (auto simp: subscribe_def Let_def split: sum.split option.split)
qed

lemma step_follows:
  assumes inv: "hub_inv h" and s: "map_of (subscribers h) i = Some s"
  shows "follows_stream V i s (fed op) h (hub_step V J K h op)"
proof (cases op)
  case (HFlush fresh force now later)
  then show ?thesis
    using s same_subs_flush [of h K fresh force now later] by (simp add: follows_same same_subs_def)
next
  case (HUnsubscribe j)
  then show ?thesis
    using s retain_subscribed [OF inv s, of "\<lambda>i' s x. (i' \<noteq> j, x)"]
    by (cases "i = j") (auto simp: unsubscribe_def intro!: follows_same)
next
  case (HRecord rec)
  have "terminal (shared h i) = None" using hub_invD(1) [OF inv, of i] s by simp
  with HRecord show ?thesis
    using s retain_subscribed [OF inv s]
    by (auto simp: broadcast_record_def record_act_def try_event_queue split: if_split_asm
        intro!: follows_same)
qed (use s in \<open>auto simp: follows_append [OF inv s] follows_resize [OF inv s] follows_recv [OF inv s]
      follows_subscribe [OF inv s] hub_set_size_def mark_finalized_def hub_drop_receiver_def finish_def
      finish_killed_def fail_subscribers_def terminate_all_def terminate_def Let_def case_prod_beta
      simp del: hub_step.simps(12) intro!: follows_same\<close>)

lemma hub_run_snoc:
  "hub_run V J K h (ops @ [op]) =
     (let (h', out) = hub_run V J K h ops; (h'', out') = hub_step V J K h' op in (h'', out @ out'))"
  by (simp add: hub_run_append Let_def case_prod_beta)

lemma terminal_not_data:
  assumes "hub_inv h"
  shows "terminal (shared h i) \<noteq> Some (OutData data)"
proof
  assume "terminal (shared h i) = Some (OutData data)"
  moreover have "outcome_ok (terminal (shared h i))" using assms by (simp add: hub_inv_def sub_inv_def)
  ultimately show False by (simp add: outcome_ok_def)
qed

lemma gone_recv:
  assumes "hub_inv h" "map_of (subscribers h) i = None" "i < next_id h"
  shows "received i (snd (hub_step V J K h op)) @ payloads (queue (shared (fst (hub_step V J K h op)) i)) =
     payloads (queue (shared h i))"
proof (cases "op = HRecv i")
  case True
  have "payloads [t] = []" if "terminal (shared h i) = Some t" for t
    using terminal_not_data [OF assms(1), of i] that by (cases t) (auto simp: payloads_def)
  with True show ?thesis
    by (cases "queue (shared h i)")
      (auto simp: hub_recv_def recv_def received_def Let_def payloads_def split: option.split)
next
  case False
  moreover have "received i (snd (hub_step V J K h op)) = []" if "op \<noteq> HRecv i"
    using that by (cases op) (auto simp: received_def hub_recv_def Let_def case_prod_beta split: recv_result.split)
  ultimately show ?thesis using step_gone [OF assms, of V J K op] by simp
qed

lemma next_id_step: "next_id h \<le> next_id (fst (hub_step V J K h op))"
proof (cases op)
  case (HAppend data now)
  obtain h1 where "same_subs h h1"
    "same_subs (fan_out V data (snd (st_process V (hb_screen h) data)) h1) (snd (hub_append V J data now h))"
    by (rule hub_append_split)
  with HAppend show ?thesis by (simp add: same_subs_def fan_out_def Let_def split: option.split)
next
  case (HFlush fresh force now later)
  then show ?thesis using same_subs_flush [of h K fresh force now later] by (simp add: same_subs_def)
qed (auto simp: subscribe_def unsubscribe_def broadcast_record_def broadcast_resize_def hub_recv_def
    Let_def case_prod_beta hub_drop_receiver_def hub_set_size_def mark_finalized_def finish_def
    finish_killed_def fail_subscribers_def terminate_all_def split: sum.split option.split)

lemma next_id_run: "next_id h \<le> next_id (fst (hub_run V J K h ops))"
  by (induction ops arbitrary: h) (auto simp: Let_def case_prod_beta intro: order_trans next_id_step)

lemma tail_run:
  assumes inv: "hub_inv h" and s: "map_of (subscribers h) i = Some s" and raw: "\<not> want_screen s"
  shows "\<exists>later. payloads (queue (shared h i)) @ concat (map fed ops) =
       received i (snd (hub_run V J K h ops)) @
       payloads (queue (shared (fst (hub_run V J K h ops)) i)) @ later \<and>
     (map_of (subscribers (fst (hub_run V J K h ops))) i \<in> {Some s, None}) \<and>
     (map_of (subscribers (fst (hub_run V J K h ops))) i \<noteq> None \<longrightarrow> later = [])"
proof (induction ops rule: rev_induct)
  case Nil
  then show ?case using s by simp
next
  case (snoc op ops)
  define h1 where "h1 = fst (hub_run V J K h ops)"
  define r where "r = hub_step V J K h1 op"
  have run: "fst (hub_run V J K h (ops @ [op])) = fst r"
    "snd (hub_run V J K h (ops @ [op])) = snd (hub_run V J K h ops) @ snd r"
    by (simp_all add: hub_run_snoc Let_def case_prod_beta r_def h1_def)
  have inv1: "hub_inv h1" unfolding h1_def by (rule hub_run_inv [OF inv])
  obtain later where l: "payloads (queue (shared h i)) @ concat (map fed ops) =
      received i (snd (hub_run V J K h ops)) @ payloads (queue (shared h1 i)) @ later"
    "map_of (subscribers h1) i \<in> {Some s, None}" "map_of (subscribers h1) i \<noteq> None \<longrightarrow> later = []"
    using snoc.IH unfolding h1_def by blast
  show ?case
  proof (cases "map_of (subscribers h1) i")
    case None
    have "i < next_id h1"
      using hub_invD(1) [OF inv, of i] s next_id_run [of h V J K ops] by (simp add: h1_def)
    then have n: "map_of (subscribers (fst r)) i = None"
      and g: "payloads (queue (shared h1 i)) = received i (snd r) @ payloads (queue (shared (fst r) i))"
      using step_gone [OF inv1 None, of V J K op] gone_recv [OF inv1 None, of V J K op] by (simp_all add: r_def)
    have "payloads (queue (shared h i)) @ concat (map fed (ops @ [op])) =
        (payloads (queue (shared h i)) @ concat (map fed ops)) @ fed op" by simp
    also note l(1)
    finally show ?thesis unfolding run g by (intro exI [of _ "later @ fed op"]) (simp add: n)
  next
    case (Some s')
    with l have s1: "map_of (subscribers h1) i = Some s" "later = []" by auto
    from step_follows [OF inv1 s1(1), of V op J K] raw obtain later' where
      f: "payloads (queue (shared h1 i)) @ fed op = received i (snd r) @ payloads (queue (shared (fst r) i)) @ later'"
        "map_of (subscribers (fst r)) i \<in> {Some s, None}" "map_of (subscribers (fst r)) i \<noteq> None \<longrightarrow> later' = []"
      unfolding r_def [symmetric] follows_stream_def
      by (cases "map_of (subscribers (fst r)) i = None") (auto simp: Let_def)
    have "payloads (queue (shared h i)) @ concat (map fed (ops @ [op])) =
        (payloads (queue (shared h i)) @ concat (map fed ops)) @ fed op" by simp
    also have "\<dots> = received i (snd (hub_run V J K h ops)) @ payloads (queue (shared h1 i)) @ fed op"
      unfolding l(1) s1(2) by simp
    finally show ?thesis using f unfolding run by (intro exI [of _ later']) simp
  qed
qed

lemma screen_run:
  assumes inv: "hub_inv h" and s: "map_of (subscribers h) i = Some s"
    and initial: "initial = st_snapshot V (hb_screen h)" and q: "payloads (queue (shared h i)) = []"
    and still: "map_of (subscribers (fst (hub_run V J K h ops))) i \<noteq> None"
  shows "map_of (subscribers (fst (hub_run V J K h ops))) i = Some s \<and> (\<exists>j \<le> length ops. \<exists>pre.
     initial # received i (snd (hub_run V J K h ops)) @
       payloads (queue (shared (fst (hub_run V J K h ops)) i)) =
     pre @ st_snapshot V (hb_screen (fst (hub_run V J K h (take j ops)))) # concat (map fed (drop j ops)))"
  using still
proof (induction ops rule: rev_induct)
  case Nil
  then show ?case using s initial q by simp
next
  case (snoc op ops)
  define h1 where "h1 = fst (hub_run V J K h ops)"
  define r where "r = hub_step V J K h1 op"
  have run: "fst (hub_run V J K h (ops @ [op])) = fst r"
    "snd (hub_run V J K h (ops @ [op])) = snd (hub_run V J K h ops) @ snd r"
    by (simp_all add: hub_run_snoc Let_def case_prod_beta r_def h1_def)
  have inv1: "hub_inv h1" unfolding h1_def by (rule hub_run_inv [OF inv])
  have "i < next_id h1" using hub_invD(1) [OF inv, of i] s next_id_run [of h V J K ops] by (simp add: h1_def)
  then have "map_of (subscribers h1) i \<noteq> None"
    using step_gone [OF inv1, of i V J K op] snoc.prems unfolding run r_def by blast
  with snoc.IH obtain j pre where s1: "map_of (subscribers h1) i = Some s" and j: "j \<le> length ops"
    and st: "initial # received i (snd (hub_run V J K h ops)) @ payloads (queue (shared h1 i)) =
      pre @ st_snapshot V (hb_screen (fst (hub_run V J K h (take j ops)))) # concat (map fed (drop j ops))"
    unfolding h1_def by blast
  let ?sent = "received i (snd r) @ payloads (queue (shared (fst r) i))"
  from step_follows [OF inv1 s1, of V op J K] snoc.prems have s2: "map_of (subscribers (fst r)) i = Some s"
    and "?sent = payloads (queue (shared h1 i)) @ fed op \<or> (\<exists>pre. ?sent = pre @ [st_snapshot V (hb_screen (fst r))])"
    unfolding follows_stream_def run by (auto simp: Let_def r_def)
  then consider "?sent = payloads (queue (shared h1 i)) @ fed op"
    | pre' where "?sent = pre' @ [st_snapshot V (hb_screen (fst r))]" by blast
  then show ?case
  proof cases
    case 1
    have "initial # received i (snd (hub_run V J K h ops)) @ ?sent =
        (initial # received i (snd (hub_run V J K h ops)) @ payloads (queue (shared h1 i))) @ fed op"
      unfolding 1 by simp
    also note st
    finally show ?thesis
      using s2 j unfolding run by (intro conjI exI [of _ j] exI [of _ pre]) simp_all
  next
    case 2
    then show ?thesis
      using s2 unfolding run [symmetric]
      by (intro conjI exI [of _ "length (ops @ [op])"]
          exI [of _ "initial # received i (snd (hub_run V J K h ops)) @ pre'"]) (simp_all add: run)
  qed
qed

lemma subscribe_new:
  assumes "subscribe V payload rec h = (Inr (i, initial), h1)" "hb_terminal h = None"
  shows "map_of (subscribers h1) i = Some \<lparr>want_screen = (payload = AttachScreen), want_record = rec\<rparr>"
    and "queue (shared h1 i) = []" and "hb_screen h1 = hb_screen h" and "hb_history h1 = hb_history h"
    and "(case payload of AttachScreen \<Rightarrow> screen_snapshot V h
        | AttachTail max_bytes \<Rightarrow> Inr (hub_snapshot max_bytes h)) = Inr initial"
  using assms
  by (auto simp: subscribe_def Let_def subscriber_new_def split: sum.split_asm if_split_asm)

lemma hub_snapshot_lastn:
  assumes "ring_inv S (hb_history h)"
  shows "hub_snapshot max_bytes h = lastn (min (bounded_history_limit max_bytes) (h_cap (hb_history h))) S"
proof -
  have "hist_snapshot (Some n) (hb_history h) = lastn n (h_bytes (hb_history h))" for n
    by (simp add: hist_snapshot_def lastn_def Let_def min_def)
  then show ?thesis using assms by (simp add: hub_snapshot_def ring_inv_def)
qed

text \<open>
  C10: a raw-tail client loses and repeats nothing, at the seam between history and live
  output included. Its first payload is the end of everything appended so far, and what it
  has read since, with what is queued for it, is exactly every later chunk in order; if it
  was dropped, a prefix of them.
\<close>

theorem tail_client_byte_exact:
  assumes "hub_inv h" and "hb_terminal h = None" and "ring_inv S (hb_history h)"
    and "subscribe V (AttachTail max_bytes) rec h = (Inr (i, initial), h1)"
    and "hub_run V J K h1 ops = (h', out)"
  shows "initial = lastn (min (bounded_history_limit max_bytes) (h_cap (hb_history h))) S \<and>
     (\<exists>later. concat (map fed ops) = received i out @ payloads (queue (shared h' i)) @ later \<and>
        (map_of (subscribers h') i = None \<or> later = []))"
proof
  note new = subscribe_new [OF assms(4,2)]
  show "initial = lastn (min (bounded_history_limit max_bytes) (h_cap (hb_history h))) S"
    using new(5) hub_snapshot_lastn [OF assms(3), of max_bytes] by simp
  have "hub_inv h1" using subscribe_inv [OF assms(1), of V "AttachTail max_bytes" rec] assms(4) by simp
  from tail_run [OF this new(1), of ops V J K] new(2) assms(5)
  show "\<exists>later. concat (map fed ops) = received i out @ payloads (queue (shared h' i)) @ later \<and>
      (map_of (subscribers h') i = None \<or> later = [])"
    by (simp only: fst_conv snd_conv payloads_simps append_Nil) auto
qed

lemma sample_subscribe:
  "subscribe vt_log (AttachTail (Some 1)) False sample_hub =
     (Inr (1, [2]), sample_hub\<lparr>next_id := 2, subscribers := [(1, \<lparr>want_screen = False, want_record = False\<rparr>)]\<rparr>)"
  by (simp add: subscribe_def sample_hub_def hub_snapshot_def hist_snapshot_def bounded_history_limit_def
      lastn_def size_consts Let_def fun_eq_iff)

theorem tail_client_byte_exact_witness:
  "\<exists>h' out. hub_run vt_log quiet_judges plain_codec
       (sample_hub\<lparr>next_id := 2, subscribers := [(1, \<lparr>want_screen = False, want_record = False\<rparr>)]\<rparr>)
       [HAppend [3] 0, HRecv 1] = (h', out) \<and>
     [2] = lastn (min (bounded_history_limit (Some 1)) (h_cap (hb_history sample_hub))) [1, 2 :: byte] \<and>
     (\<exists>later. concat (map fed [HAppend [3] 0, HRecv 1 :: (unit, unit) hub_op]) =
         received 1 out @ payloads (queue (shared h' 1)) @ later \<and>
        (map_of (subscribers h') 1 = None \<or> later = []))"
proof -
  have "ring_inv [1, 2] (hb_history sample_hub)"
    by (simp add: sample_hub_def ring_inv_def new_history_def size_consts)
  then show ?thesis
    using tail_client_byte_exact [OF hub_new_inv [OF sample_hub_new] _ _ sample_subscribe,
        of "[1, 2]" quiet_judges plain_codec "[HAppend [3] 0, HRecv 1]"]
    by (cases "hub_run vt_log quiet_judges plain_codec
       (sample_hub\<lparr>next_id := 2, subscribers := [(1, \<lparr>want_screen = False, want_record = False\<rparr>)]\<rparr>)
       [HAppend [3] 0, HRecv 1]") (simp add: sample_hub_def)
qed

text \<open>
  C11: a live-screen client is always resynchronized. However far it lagged, what it has been
  sent ends with a snapshot of the hub's screen at some point of its attachment, followed by
  every chunk appended since that point: replaying it ends on the current screen.
\<close>

theorem screen_client_resync:
  assumes "hub_inv h" and "hb_terminal h = None"
    and "subscribe V AttachScreen rec h = (Inr (i, initial), h1)"
    and "hub_run V J K h1 ops = (h', out)" and "map_of (subscribers h') i \<noteq> None"
  shows "\<exists>j \<le> length ops. \<exists>pre.
     initial # received i out @ payloads (queue (shared h' i)) =
     pre @ st_snapshot V (hb_screen (fst (hub_run V J K h1 (take j ops)))) # concat (map fed (drop j ops))"
proof -
  note new = subscribe_new [OF assms(3,2)]
  have inv: "hub_inv h1" using subscribe_inv [OF assms(1), of V AttachScreen rec] assms(3) by simp
  have initial: "initial = st_snapshot V (hb_screen h1)"
    using new(3,5) by (simp add: screen_snapshot_def Let_def res_bind_eq_Inr)
  have "payloads (queue (shared h1 i)) = []" "map_of (subscribers (fst (hub_run V J K h1 ops))) i \<noteq> None"
    using new(2) assms(4,5) by simp_all
  from screen_run [OF inv new(1) initial this] show ?thesis unfolding assms(4) by simp
qed

theorem screen_client_resync_witness:
  "\<exists>h' out. hub_run vt_log quiet_judges plain_codec busy_hub [] = (h', out) \<and>
     (\<exists>pre. [] # received 2 out @ payloads (queue (shared h' 2)) =
        pre @ st_snapshot vt_log (hb_screen busy_hub) # concat (map fed ([] :: (unit, unit) hub_op list)))"
proof -
  let ?h = "snd (subscribe vt_log (AttachTail None) False sample_hub)"
  have inv: "hub_inv ?h" by (rule subscribe_inv [OF hub_new_inv [OF sample_hub_new]])
  have sub: "subscribe vt_log AttachScreen True ?h = (Inr (2, []), busy_hub)"
    unfolding busy_hub_def
    by (simp add: subscribe_def sample_hub_def screen_snapshot_def st_snapshot_def vt_log_def
        st_get_margins_def margins_def mt_new_def ensure_frame_payload_size_def size_consts Let_def)
  show ?thesis
    using screen_client_resync [OF inv _ sub, of quiet_judges plain_codec "[]" busy_hub "[]"]
    by (simp add: busy_hub_eq subscribe_def sample_hub_def Let_def)
qed

text \<open>
  a retired session's output is called complete exactly when it is: the stored bytes are
  then the whole stream, at most 64 KiB; otherwise no bytes are presented.
\<close>

theorem retirement_complete:
  assumes "ring_inv S (hb_history h)"
  shows "ro_bytes (retirement_output h) =
       (if length S \<le> RETIRED_OUTPUT_MAX_BYTES \<and> length S \<le> h_cap (hb_history h) then Some S else None) \<and>
     (ro_status (retirement_output h) = ''complete'' \<longleftrightarrow> ro_bytes (retirement_output h) \<noteq> None)"
  using assms
  by (auto simp: retirement_output_def ring_inv_def hist_snapshot_def Let_def min_def)

theorem retirement_complete_witness:
  "ro_bytes (retirement_output sample_hub) = Some [1, 2]"
  using retirement_complete [of "[1, 2]" sample_hub]
  by (simp add: sample_hub_def ring_inv_def new_history_def size_consts)

section \<open>The flush\<close>

definition delay_ok :: "('p, 'r, 'x) hub \<Rightarrow> bool" where
  "delay_ok h \<longleftrightarrow> HISTORY_RETRY_INITIAL \<le> history_retry_delay h \<and> history_retry_delay h \<le> HISTORY_RETRY_MAX"

lemma delay_ok_error: "delay_ok h \<Longrightarrow> delay_ok (record_history_persistence_error e now h)"
  by (simp add: delay_ok_def record_history_persistence_error_def size_consts)

lemma delay_fields [simp]:
  "history_retry_delay (retain_subscribers f h) = history_retry_delay h"
  "history_retry_delay (fan_out V data layout h) = history_retry_delay h"
  "history_retry_delay (snd (settle V J n h)) = history_retry_delay h"
  "history_retry_delay (finish_persist V K fresh txt_ok h) = history_retry_delay h"
  by (simp_all add: retain_subscribers_def fan_out_def settle_def finish_persist_def Let_def case_prod_beta
      split: option.split sum.split)

lemma delay_ok_append: "delay_ok h \<Longrightarrow> delay_ok (snd (hub_append V J data now h))"
  by (auto simp: hub_append_def delay_ok_def record_history_persistence_error_def size_consts Let_def
      case_prod_beta split: sum.split)

lemma delay_ok_step: "delay_ok h \<Longrightarrow> delay_ok (fst (hub_step V J K h op))"
proof (cases op)
  case (HAppend data now)
  moreover assume "delay_ok h"
  ultimately show ?thesis by (simp add: delay_ok_append)
qed (auto simp: delay_ok_def subscribe_def unsubscribe_def broadcast_record_def broadcast_resize_def
    hub_recv_def hub_drop_receiver_def hub_set_size_def mark_finalized_def finish_def finish_killed_def
    fail_subscribers_def terminate_all_def flush_history_def record_history_persistence_error_def
    size_consts Let_def case_prod_beta split: sum.split option.split)

lemma delay_ok_run: "delay_ok h \<Longrightarrow> delay_ok (fst (hub_run V J K h ops))"
  by (induction ops arbitrary: h) (auto simp: Let_def case_prod_beta delay_ok_step)

lemma delay_ok_new: "hub_new V history w rows cols now = Inr h \<Longrightarrow> delay_ok h"
  by (auto simp: hub_new_def res_bind_eq_Inr delay_ok_def size_consts)

text \<open>
  In every state of a worker's hub a flush attempt either is skipped and changes
  nothing, because the session is finalized or an unforced retry is not due; or succeeds,
  clears the reported error and resets the backoff; or fails, reports the error, and puts
  the next attempt off by at least half a second and at most thirty.
\<close>

theorem flush_backoff:
  assumes "hub_new V history w rows cols start = Inr h0" and "h = fst (hub_run V J K h0 ops)"
    and "flush_history K fresh force now later h = (r, h')"
  shows "case r of
       Inl e \<Rightarrow> \<not> finalized h \<and> history_persistence_error h' = Some e \<and>
         later + HISTORY_RETRY_INITIAL \<le> history_retry_at h' \<and>
         history_retry_at h' \<le> later + HISTORY_RETRY_MAX
     | Inr _ \<Rightarrow> if finalized h \<or> \<not> force \<and> now < history_retry_at h then h' = h
         else history_persistence_error h' = None \<and> history_retry_at h' = later \<and>
           history_retry_delay h' = HISTORY_RETRY_INITIAL"
proof -
  have "delay_ok h" using assms(1,2) by (simp add: delay_ok_run delay_ok_new)
  with assms(3) show ?thesis
    by (auto simp: flush_history_def record_history_persistence_error_def delay_ok_def Let_def
        case_prod_beta split: if_split_asm sum.split_asm sum.split)
qed

theorem flush_backoff_witness:
  "\<exists>r h'. flush_history plain_codec 7 False 1 2 busy_hub = (r, h') \<and>
     (case r of
       Inl e \<Rightarrow> \<not> finalized busy_hub \<and> history_persistence_error h' = Some e \<and>
         2 + HISTORY_RETRY_INITIAL \<le> history_retry_at h' \<and> history_retry_at h' \<le> 2 + HISTORY_RETRY_MAX
     | Inr _ \<Rightarrow> if finalized busy_hub \<or> \<not> False \<and> 1 < history_retry_at busy_hub then h' = busy_hub
         else history_persistence_error h' = None \<and> history_retry_at h' = 2 \<and>
           history_retry_delay h' = HISTORY_RETRY_INITIAL)"
  using flush_backoff [OF sample_hub_new busy_hub_def, of 7 False 1 2]
  by (cases "flush_history plain_codec 7 False 1 2 busy_hub") blast

definition writes_at_exit :: "('r, 'x) hub_op \<Rightarrow> bool" where
  "writes_at_exit op = (case op of HFinish _ _ _ \<Rightarrow> True | _ \<Rightarrow> False)"

lemma world_fields [simp]:
  "hb_world (retain_subscribers f h) = hb_world h" "hb_world (fan_out V data layout h) = hb_world h"
  "hb_world (snd (settle V J n h)) = hb_world h" "finalized (fan_out V data layout h) = finalized h"
  "finalized (snd (settle V J n h)) = finalized h"
  by (simp_all add: retain_subscribers_def fan_out_def settle_def Let_def case_prod_beta split: option.split)

lemma finalized_step:
  assumes "finalized h" "\<not> writes_at_exit op"
  shows "finalized (fst (hub_step V J K h op)) \<and> hb_world (fst (hub_step V J K h op)) = hb_world h"
  using assms
  by (cases op) (auto simp: writes_at_exit_def hub_append_def record_history_persistence_error_def subscribe_def
      unsubscribe_def broadcast_record_def broadcast_resize_def hub_recv_def hub_drop_receiver_def
      hub_set_size_def mark_finalized_def finish_killed_def fail_subscribers_def terminate_all_def
      flush_history_def Let_def case_prod_beta split: sum.split option.split)

text \<open>
  Once the session is marked finalized no operation but \<open>finish\<close> writes durable state:
  whatever else runs until the worker exits, the disk is not touched again, so nothing
  recreates the removed directory.
\<close>

theorem finalized_no_writes:
  assumes "finalized h" and "list_all (\<lambda>op. \<not> writes_at_exit op) ops"
  shows "hb_world (fst (hub_run V J K h ops)) = hb_world h"
  using assms
  by (induction ops arbitrary: h) (auto simp: Let_def case_prod_beta finalized_step)

theorem finalized_no_writes_witness:
  "hb_world (fst (hub_run vt_log quiet_judges plain_codec (mark_finalized busy_hub)
     [HAppend [1] 0, HFlush 7 True 0 0, HKilled ()])) = hb_world (mark_finalized busy_hub)"
  by (rule finalized_no_writes) (simp_all add: mark_finalized_def writes_at_exit_def)

end
