(* ===== verification/Rust_Text.thy ===== *)
theory Rust_Text
  imports Prelude
begin

text \<open>
  What the sources use of Rust's \<open>str\<close>: lines, whitespace, prefixes, the last separator,
  decimal numbers. A \<open>String\<close> is the list of its UTF-8 bytes as characters, so \<open>length\<close> is
  \<open>len()\<close>. White space is the ASCII white space; the texts these operations are used on
  (\<open>/proc\<close> files, tags) are ASCII.
\<close>

section \<open>Characters\<close>

definition is_ws :: "char \<Rightarrow> bool" where
  "is_ws c \<longleftrightarrow> (of_char c :: nat) \<in> {9, 10, 11, 12, 13, 32}"

definition is_ascii_alnum :: "char \<Rightarrow> bool" where
  "is_ascii_alnum c \<longleftrightarrow> (let n = (of_char c :: nat) in
     48 \<le> n \<and> n \<le> 57 \<or> 65 \<le> n \<and> n \<le> 90 \<or> 97 \<le> n \<and> n \<le> 122)"

definition is_ascii_graphic :: "char \<Rightarrow> bool" where
  "is_ascii_graphic c \<longleftrightarrow> (let n = (of_char c :: nat) in 33 \<le> n \<and> n \<le> 126)"

definition is_control :: "char \<Rightarrow> bool" where
  "is_control c \<longleftrightarrow> (let n = (of_char c :: nat) in n < 32 \<or> n = 127)"

section \<open>Pieces of a text\<close>

definition starts_with :: "string \<Rightarrow> string \<Rightarrow> bool" where
  "starts_with p s \<longleftrightarrow> take (length p) s = p"

text \<open>\<open>str::lines\<close>: a carriage return is dropped only where it ends a terminated line.\<close>

definition strip_cr :: "string \<Rightarrow> string" where
  "strip_cr s = (if s \<noteq> [] \<and> (of_char (last s) :: nat) = 13 then butlast s else s)"

definition text_lines :: "string \<Rightarrow> string list" where
  "text_lines s = (let ls = split_on (CHR 0x0A) s in
     map strip_cr (butlast ls) @ (if last ls = [] then [] else [last ls]))"

definition split_whitespace :: "string \<Rightarrow> string list" where
  "split_whitespace s =
     filter (\<lambda>w. w \<noteq> []) (split_on (CHR '' '') (map (\<lambda>c. if is_ws c then CHR '' '' else c) s))"

definition trim_text :: "string \<Rightarrow> string" where
  "trim_text s = rev (dropWhile is_ws (rev (dropWhile is_ws s)))"

text \<open>\<open>rsplit_once\<close> and \<open>split_once\<close>.\<close>

fun split_once :: "char \<Rightarrow> string \<Rightarrow> (string \<times> string) option" where
  "split_once s [] = None"
| "split_once s (c # cs) =
     (if c = s then Some ([], cs)
      else map_option (\<lambda>(a, b). (c # a, b)) (split_once s cs))"

definition rsplit_once :: "char \<Rightarrow> string \<Rightarrow> (string \<times> string) option" where
  "rsplit_once s xs = map_option (\<lambda>(a, b). (rev b, rev a)) (split_once s (rev xs))"

lemma split_once_Some: "split_once s xs = Some (a, b) \<longleftrightarrow> xs = a @ s # b \<and> s \<notin> set a"
proof (induction xs arbitrary: a b)
  case (Cons c cs)
  then show ?case by (cases a) (auto split: if_splits)
qed simp

lemma split_once_None: "split_once s xs = None \<longleftrightarrow> s \<notin> set xs"
  by (induction xs) auto

lemma rsplit_once_Some: "rsplit_once s xs = Some (a, b) \<longleftrightarrow> xs = a @ s # b \<and> s \<notin> set b"
proof -
  have "rsplit_once s xs = Some (a, b) \<longleftrightarrow> split_once s (rev xs) = Some (rev b, rev a)"
    by (auto simp: rsplit_once_def)
  also have "\<dots> \<longleftrightarrow> xs = a @ s # b \<and> s \<notin> set b"
    by (auto simp: split_once_Some) (metis append.assoc append_Cons append_Nil rev.simps(2) rev_append rev_rev_ident)
  finally show ?thesis .
qed

section \<open>Numbers\<close>

definition ascii :: "string \<Rightarrow> bytes" where
  "ascii s = map of_char s"

definition dec_text :: "nat \<Rightarrow> string" where
  "dec_text n = map (\<lambda>b. char_of (unat b)) (dec_bytes n)"

text \<open>\<open>parse::<u64>()\<close>: a leading plus sign is allowed, an empty text and an overflow are not.\<close>

definition parse_u64 :: "string \<Rightarrow> nat option" where
  "parse_u64 s =
     (let d = ascii (if s \<noteq> [] \<and> hd s = CHR ''+'' then tl s else s) in
      if d \<noteq> [] \<and> list_all is_digit d \<and> dec_value d \<le> U64_MAX then Some (dec_value d) else None)"

lemma of_char_word: "(of_char (char_of (unat b)) :: byte) = b"
proof -
  have "(of_char (char_of (unat b)) :: nat) = unat b" by (simp add: of_char_of)
  then have "of_nat (of_char (char_of (unat b)) :: nat) = (of_nat (unat b) :: byte)" by simp
  then show ?thesis by (simp only: of_nat_of_char) simp
qed

lemma ascii_dec_text [simp]: "ascii (dec_text n) = dec_bytes n"
  by (simp add: ascii_def dec_text_def of_char_word comp_def)

lemma dec_text_nonempty [simp]: "dec_text n \<noteq> []"
  by (simp add: dec_text_def)

lemma dec_text_digits: "c \<in> set (dec_text n) \<Longrightarrow> is_digit (of_char c)"
  using dec_bytes_digits [of n] by (auto simp: dec_text_def of_char_word)

lemma not_digit [simp]: "\<not> is_digit (of_char (CHR ''-''))" "\<not> is_digit (of_char (CHR ''+''))"
  by (simp_all add: is_digit_def)

lemma parse_dec_text: "parse_u64 (dec_text n) = (if n \<le> U64_MAX then Some n else None)"
proof -
  have "hd (dec_text n) \<in> set (dec_text n)" by simp
  then have "hd (dec_text n) \<noteq> CHR ''+''" using dec_text_digits not_digit(2) by metis
  then show ?thesis using dec_bytes_digits [of n] by (simp add: parse_u64_def list_all_iff)
qed

lemma dec_text_no_dash: "CHR ''-'' \<notin> set (dec_text n)"
  using dec_text_digits not_digit(1) by metis

lemma dec_text_inject [simp]: "dec_text m = dec_text n \<longleftrightarrow> m = n"
  by (metis ascii_dec_text dec_value_dec_bytes)

lemma length_dec_text: "length (dec_text n) = length (dec_bytes n)"
  by (simp add: dec_text_def)

end
