(* ===== verification/Process_Probe.thy ===== *)
theory Process_Probe
  imports Rust_Text
begin

text \<open>
  The liveness and identity probes of \<open>src/process.rs\<close> on Linux. What the kernel answers is
  the record \<open>os\<close>: the result of \<open>kill(pid, 0)\<close>, the texts under \<open>/proc\<close>, the directory of
  a process's threads. Everything the program computes from those answers is a definition.
\<close>

section \<open>The kernel's answers\<close>

datatype probe_error = NotFound | Unreadable | Malformed

record os =
  os_kill0 :: "nat \<Rightarrow> nat option"
  os_stat :: "nat \<Rightarrow> probe_error + string"
  os_tasks :: "nat \<Rightarrow> bool list option"
  os_self_status :: "string option"
  os_boot_id :: "string option"

definition EPERM :: nat where "EPERM = 1"
definition ESRCH :: nat where "ESRCH = 3"
definition I32_MAX :: nat where [size_consts]: "I32_MAX = 2147483647"
definition MAX_KILL_GRACE_MS :: nat where [size_consts]: "MAX_KILL_GRACE_MS = 30000"

section \<open>Probes\<close>

definition kill_grace_duration :: "nat \<Rightarrow> nat option" where
  "kill_grace_duration grace_ms = (if MAX_KILL_GRACE_MS < grace_ms then None else Some grace_ms)"

definition is_signalable_pid :: "nat \<Rightarrow> bool" where
  "is_signalable_pid pid \<longleftrightarrow> pid \<noteq> 0 \<and> pid \<le> I32_MAX"

text \<open>The text behind the last closing parenthesis of the process name.\<close>

definition proc_stat_after_comm :: "os \<Rightarrow> nat \<Rightarrow> probe_error + string" where
  "proc_stat_after_comm K pid =
     res_bind (os_stat K pid) (\<lambda>stat.
       case rsplit_once (CHR '')'') stat of None \<Rightarrow> Inl Malformed | Some (_, after_comm) \<Rightarrow> Inr after_comm)"

definition process_state :: "os \<Rightarrow> nat \<Rightarrow> probe_error + char" where
  "process_state K pid =
     res_bind (proc_stat_after_comm K pid) (\<lambda>after_comm.
       case split_whitespace after_comm of
         (c # _) # _ \<Rightarrow> Inr c
       | _ \<Rightarrow> Inl Malformed)"

definition process_start_time_ticks :: "os \<Rightarrow> nat \<Rightarrow> probe_error + nat" where
  "process_start_time_ticks K pid =
     res_bind (proc_stat_after_comm K pid) (\<lambda>after_comm.
       let fields = split_whitespace after_comm in
       if 19 < length fields then
         (case parse_u64 (fields ! 19) of None \<Rightarrow> Inl Malformed | Some n \<Rightarrow> Inr n)
       else Inl Malformed)"

definition thread_group_holds_only_the_leader :: "os \<Rightarrow> nat \<Rightarrow> bool" where
  "thread_group_holds_only_the_leader K pid = (os_tasks K pid = Some [True])"

definition process_is_zombie :: "os \<Rightarrow> nat \<Rightarrow> bool" where
  "process_is_zombie K pid \<longleftrightarrow>
     process_state K pid = Inr (CHR ''Z'') \<and> thread_group_holds_only_the_leader K pid"

definition process_alive :: "os \<Rightarrow> nat \<Rightarrow> bool" where
  "process_alive K pid \<longleftrightarrow>
     is_signalable_pid pid \<and> (os_kill0 K pid = None \<or> os_kill0 K pid = Some EPERM) \<and>
     \<not> process_is_zombie K pid"

definition initial_pid_namespace_from_status :: "string \<Rightarrow> bool" where
  "initial_pid_namespace_from_status status =
     (case find (starts_with ''NSpid:'') (text_lines status) of
        Some line \<Rightarrow> length (split_whitespace (drop 6 line)) = 1
      | None \<Rightarrow> False)"

definition kill_esrch_proves_absence :: "os \<Rightarrow> bool" where
  "kill_esrch_proves_absence K =
     (case os_self_status K of Some status \<Rightarrow> initial_pid_namespace_from_status status | None \<Rightarrow> False)"

definition linux_boot_id :: "os \<Rightarrow> string option" where
  "linux_boot_id K =
     (case os_boot_id K of
        None \<Rightarrow> None
      | Some text \<Rightarrow> (if trim_text text = [] then None else Some (trim_text text)))"

section \<open>Sessions named by an ancestor's environment\<close>

text \<open>The walk up the process tree, at most 64 steps; \<open>ppid\<close> and \<open>stamp\<close> read \<open>/proc\<close>.\<close>

fun ancestor_walk :: "nat \<Rightarrow> (nat \<Rightarrow> nat option) \<Rightarrow> (nat \<Rightarrow> 'u option) \<Rightarrow> nat \<Rightarrow> 'u option" where
  "ancestor_walk 0 ppid stamp pid = None"
| "ancestor_walk (Suc n) ppid stamp pid =
     (if pid = 0 then None
      else case stamp pid of
        Some sid \<Rightarrow> Some sid
      | None \<Rightarrow>
          (case ppid pid of
             None \<Rightarrow> None
           | Some up \<Rightarrow> if up = pid then None else ancestor_walk n ppid stamp up))"

definition session_id_from_ancestor_environ :: "(nat \<Rightarrow> nat option) \<Rightarrow> (nat \<Rightarrow> 'u option) \<Rightarrow> nat \<Rightarrow> 'u option" where
  "session_id_from_ancestor_environ ppid stamp self =
     (case ppid self of None \<Rightarrow> None | Some pid \<Rightarrow> ancestor_walk 64 ppid stamp pid)"

section \<open>Laws\<close>

text \<open>An unreadable or malformed answer never declares a signalable process dead.\<close>

lemma process_alive_unreadable:
  assumes "is_signalable_pid pid" "os_kill0 K pid \<in> {None, Some EPERM}"
    and "process_state K pid \<noteq> Inr (CHR ''Z'') \<or> os_tasks K pid \<noteq> Some [True]"
  shows "process_alive K pid"
  using assms by (auto simp: process_alive_def process_is_zombie_def thread_group_holds_only_the_leader_def)

text \<open>The process name may hold spaces and parentheses; the fields behind it are found all the same.\<close>

lemma proc_stat_fields:
  assumes "os_stat K pid = Inr (pre @ CHR '')'' # flds)" "CHR '')'' \<notin> set flds"
  shows "proc_stat_after_comm K pid = Inr flds"
proof -
  have "rsplit_once (CHR '')'') (pre @ CHR '')'' # flds) = Some (pre, flds)"
    using assms(2) by (simp add: rsplit_once_Some)
  then show ?thesis using assms(1) by (simp add: proc_stat_after_comm_def)
qed

end
