(* ===== verification/Session_Record.thy ===== *)
theory Session_Record
  imports Process_Probe Wire_Protocol
begin

text \<open>
  \<open>src/record.rs\<close>, \<open>src/record/identity.rs\<close> and \<open>src/record/reap.rs\<close>: the durable session
  record, the checks on what may be written into it, the liveness verdicts drawn from it and
  from the kernel, and the one decision table every command that destroys a record consults.
  A \<open>PathBuf\<close> is a \<open>string\<close>, a \<open>BTreeMap\<close> an association list with distinct keys.
\<close>

section \<open>Data\<close>

definition SCHEMA_VERSION :: nat where "SCHEMA_VERSION = 1"
definition DEFAULT_STARTUP_TIMEOUT_MS :: nat where [size_consts]: "DEFAULT_STARTUP_TIMEOUT_MS = 10000"

datatype record_error =
    BadTag | BadState | BadLabel | DuplicateLabel | TooManyLabels | BadLimits
  | NoTrustedIdentity | IdentityPidMismatch | DifferentBootError | PidReusedError | ProbeFailed
  | SignalFailed

record limits =
  memory_bytes :: "nat option"
  pids :: "nat option"
  cpu_quota_us :: "nat option"
  cpu_period_us :: "nat option"

datatype phase = Starting | Running | Exiting | Exited | Failed

record exit_info =
  ei_code :: "int option"
  ei_signal :: "int option"
  oom_killed :: bool
  exited_at_ms :: nat

record cgroup_identity =
  cg_boot_id :: string
  cgroup_namespace_device :: nat
  cgroup_namespace_inode :: nat
  mount_namespace_device :: nat
  mount_namespace_inode :: nat
  cgroup_mount_id :: nat
  cgroup_root_device :: nat
  cgroup_root_inode :: nat

record session_record =
  sr_schema_version :: nat
  sr_id :: uuid
  sr_workspace :: string
  sr_tag :: string
  sr_engine :: string
  sr_profile :: "string option"
  sr_parent_session :: "uuid option"
  sr_command :: "string list"
  sr_cwd :: string
  sr_env :: "(string \<times> string) list"
  sr_env_unset :: "string list"
  sr_limits :: limits
  sr_history_bytes :: nat
  sr_deadline_ms :: "nat option"
  sr_deadline_exceeded :: "bool option"
  sr_created_at_ms :: nat
  sr_updated_at_ms :: nat
  sr_last_activity_ms :: "nat option"
  sr_last_accessed_ms :: "nat option"
  sr_reported_state :: "string option"
  sr_reported_state_at_ms :: "nat option"
  sr_reported_state_event_ms :: "nat option"
  sr_reported_state_engine_session_id :: "string option"
  sr_agent_override :: "string option"
  sr_phase :: phase
  sr_worker_pid :: "nat option"
  sr_workload_pid :: "nat option"
  sr_worker_cgroup :: "string option"
  sr_workload_cgroup :: "string option"
  sr_containment_cgroup :: "string option"
  sr_containment_cgroup_identity :: "cgroup_identity option"
  sr_containment_empty :: "bool option"
  sr_labels :: "(string \<times> string) list"
  sr_socket_path :: string
  sr_history_path :: string
  sr_exit :: "exit_info option"
  sr_error :: "string option"

section \<open>What may be written into a record\<close>

definition is_name_char :: "char \<Rightarrow> bool" where
  "is_name_char c \<longleftrightarrow> is_ascii_alnum c \<or> c \<in> set ''._-''"

definition validate_tag :: "string \<Rightarrow> record_error + unit" where
  "validate_tag tag =
     (if tag = [] \<or> 64 < length tag then Inl BadTag
      else if \<not> list_all is_name_char tag then Inl BadTag
      else Inr ())"

definition REPORTED_AGENT_STATES :: "string list" where
  "REPORTED_AGENT_STATES = [''idle'', ''waiting'', ''working'']"

definition validate_reported_state :: "string \<Rightarrow> record_error + unit" where
  "validate_reported_state state =
     (if state \<notin> set REPORTED_AGENT_STATES then Inl BadState else Inr ())"

definition validate_label :: "string \<Rightarrow> string \<Rightarrow> record_error + unit" where
  "validate_label key v =
     (if key = [] \<or> 64 < length key then Inl BadLabel
      else if \<not> list_all is_name_char key then Inl BadLabel
      else if 256 < length v then Inl BadLabel
      else if \<not> list_all (\<lambda>c. is_ascii_graphic c \<or> c = CHR '' '') v then Inl BadLabel
      else Inr ())"

fun collect_labels :: "string list \<Rightarrow> (string \<times> string) list \<Rightarrow> record_error + (string \<times> string) list" where
  "collect_labels [] labels = Inr labels"
| "collect_labels (item # raw) labels =
     (case split_once (CHR ''='') item of
        None \<Rightarrow> Inl BadLabel
      | Some (key, v) \<Rightarrow>
          res_bind (validate_label key v) (\<lambda>_.
            if key \<in> fst ` set labels then Inl DuplicateLabel
            else collect_labels raw ((key, v) # labels)))"

definition parse_labels :: "string list \<Rightarrow> record_error + (string \<times> string) list" where
  "parse_labels raw =
     res_bind (collect_labels raw []) (\<lambda>labels.
       if 16 < length labels then Inl TooManyLabels else Inr labels)"

definition requested :: "limits \<Rightarrow> bool" where
  "requested l \<longleftrightarrow> memory_bytes l \<noteq> None \<or> pids l \<noteq> None \<or> cpu_quota_us l \<noteq> None"

text \<open>\<open>(quota * 100).div_ceil(period)\<close>, computed in 128 bits.\<close>

definition cpu_percent :: "nat \<Rightarrow> nat \<Rightarrow> nat" where
  "cpu_percent quota period = (quota * 100 + period - 1) div period"

definition validate_limits :: "limits \<Rightarrow> record_error + unit" where
  "validate_limits l =
     (if Some 0 \<in> {memory_bytes l, pids l, cpu_quota_us l, cpu_period_us l} then Inl BadLimits
      else case (cpu_quota_us l, cpu_period_us l) of
        (None, Some _) \<Rightarrow> Inl BadLimits
      | (Some quota, period) \<Rightarrow>
          (if U64_MAX < cpu_percent quota (case period of None \<Rightarrow> 100000 | Some p \<Rightarrow> p) then Inl BadLimits else Inr ())
      | (None, None) \<Rightarrow> Inr ())"

definition SESSION_METADATA_ENV_KEYS :: "string list" where
  "SESSION_METADATA_ENV_KEYS =
     [''CLAUDE_CONFIG_DIR'', ''CODEX_HOME'', ''GROK_HOME'', ''APLEXER_RETAIN_RETIRED_OUTPUT'']"

definition session_metadata_env :: "(string \<times> string) list \<Rightarrow> (string \<times> string) list" where
  "session_metadata_env env = filter (\<lambda>(key, _). key \<in> set SESSION_METADATA_ENV_KEYS) env"

definition public_session_record :: "session_record \<Rightarrow> session_record" where
  "public_session_record r = r\<lparr>sr_env := session_metadata_env (sr_env r)\<rparr>"

definition selector :: "session_record \<Rightarrow> string" where
  "selector r = sr_workspace r @ '':'' @ sr_tag r"

section \<open>Phases\<close>

fun phase_name :: "phase \<Rightarrow> string" where
  "phase_name Starting = ''starting''"
| "phase_name Running = ''running''"
| "phase_name Exiting = ''exiting''"
| "phase_name Exited = ''exited''"
| "phase_name Failed = ''failed''"

definition within_startup_window :: "phase \<Rightarrow> nat \<Rightarrow> nat \<Rightarrow> bool" where
  "within_startup_window p created_at_ms now_ms \<longleftrightarrow>
     p = Starting \<and> now_ms - created_at_ms < DEFAULT_STARTUP_TIMEOUT_MS"

definition observed_state :: "phase \<Rightarrow> bool \<Rightarrow> nat \<Rightarrow> nat \<Rightarrow> string" where
  "observed_state p alive created_at_ms now_ms =
     (if p \<in> {Starting, Running, Exiting} \<and> \<not> alive then
        (if within_startup_window p created_at_ms now_ms then phase_name p else ''broken'')
      else phase_name p)"

section \<open>The recorded worker\<close>

record process_identity =
  pi_pid :: nat
  start_time_ticks :: nat
  pi_boot_id :: string

datatype worker_identity = Verified | Gone | DifferentBoot | PidReused nat nat

definition verify_worker_identity :: "os \<Rightarrow> process_identity \<Rightarrow> record_error + worker_identity" where
  "verify_worker_identity K i =
     (case linux_boot_id K of
        None \<Rightarrow> Inl ProbeFailed
      | Some boot \<Rightarrow>
          if boot \<noteq> pi_boot_id i then Inr DifferentBoot
          else case process_start_time_ticks K (pi_pid i) of
            Inr current \<Rightarrow>
              (if current = start_time_ticks i then Inr Verified else Inr (PidReused (start_time_ticks i) current))
          | Inl NotFound \<Rightarrow> Inr Gone
          | Inl _ \<Rightarrow> Inl ProbeFailed)"

text \<open>
  What the machine tells about a record besides the processes: the identity file beside it
  (\<open>read_worker_identity\<close>), the recorded cgroup (\<open>validate_recorded_cgroup\<close>, which gives the
  path when the directory still exists, and \<open>cgroup_path_populated\<close>), and the error numbers
  of the \<open>pidfd\<close> calls (\<open>None\<close> is success).
\<close>

record machine =
  m_os :: os
  m_identity :: "session_record \<Rightarrow> record_error + process_identity option"
  m_validate_cgroup :: "uuid \<Rightarrow> string \<Rightarrow> cgroup_identity option \<Rightarrow> record_error + string option"
  m_populated :: "string \<Rightarrow> record_error + bool"
  m_pidfd_open :: "nat \<Rightarrow> nat option"
  m_send_signal :: "nat \<Rightarrow> int \<Rightarrow> nat option"

definition containment_proven_empty :: "session_record \<Rightarrow> bool" where
  "containment_proven_empty r =
     (case sr_containment_empty r of Some b \<Rightarrow> b | None \<Rightarrow> sr_exit r \<noteq> None)"

definition worker_alive :: "machine \<Rightarrow> session_record \<Rightarrow> bool" where
  "worker_alive M r =
     (case sr_worker_pid r of
        None \<Rightarrow> False
      | Some pid \<Rightarrow>
          (if \<not> process_alive (m_os M) pid then \<not> kill_esrch_proves_absence (m_os M)
           else case m_identity M r of
             Inr (Some i) \<Rightarrow>
               (if pi_pid i \<noteq> pid then True
                else case verify_worker_identity (m_os M) i of
                  Inr Verified \<Rightarrow> True
                | Inr DifferentBoot \<Rightarrow> False
                | Inr (PidReused _ _) \<Rightarrow> False
                | Inr Gone \<Rightarrow> kill_esrch_proves_absence (m_os M)
                | Inl _ \<Rightarrow> True)
           | _ \<Rightarrow> True))"

definition worker_phase_active :: "session_record \<Rightarrow> bool" where
  "worker_phase_active r \<longleftrightarrow> sr_phase r \<in> {Starting, Running, Exiting}"

definition worker_finished :: "machine \<Rightarrow> session_record \<Rightarrow> bool" where
  "worker_finished M r \<longleftrightarrow> sr_phase r \<in> {Exited, Failed} \<and> \<not> worker_alive M r"

definition workload_leader_alive :: "machine \<Rightarrow> session_record \<Rightarrow> bool" where
  "workload_leader_alive M r =
     (case sr_workload_pid r of
        Some pid \<Rightarrow> process_alive (m_os M) pid \<or> \<not> kill_esrch_proves_absence (m_os M)
      | None \<Rightarrow> False)"

definition worker_is_terminating :: "machine \<Rightarrow> session_record \<Rightarrow> bool" where
  "worker_is_terminating M r \<longleftrightarrow>
     sr_phase r \<in> {Exiting, Exited, Failed} \<or>
     (sr_workload_pid r \<noteq> None \<and> \<not> workload_leader_alive M r)"

definition observed_state_at :: "machine \<Rightarrow> session_record \<Rightarrow> nat \<Rightarrow> string" where
  "observed_state_at M r now_ms =
     observed_state (sr_phase r) (worker_alive M r) (sr_created_at_ms r) now_ms"

section \<open>Signalling the recorded worker\<close>

definition pidfd_open :: "machine \<Rightarrow> nat \<Rightarrow> nat option" where
  "pidfd_open M pid = (if \<not> is_signalable_pid pid then Some ESRCH else m_pidfd_open M pid)"

definition send_signal :: "machine \<Rightarrow> nat \<Rightarrow> int \<Rightarrow> record_error + unit" where
  "send_signal M pid signal =
     (if m_send_signal M pid signal \<in> {None, Some ESRCH} then Inr () else Inl SignalFailed)"

definition verify_signal_identity :: "machine \<Rightarrow> process_identity \<Rightarrow> record_error + unit" where
  "verify_signal_identity M i =
     res_bind (verify_worker_identity (m_os M) i) (\<lambda>v.
       case v of
         Verified \<Rightarrow> Inr ()
       | Gone \<Rightarrow> Inr ()
       | DifferentBoot \<Rightarrow> Inl DifferentBootError
       | PidReused _ _ \<Rightarrow> Inl PidReusedError)"

text \<open>The second component lists the signals handed to the kernel.\<close>

definition signal_recorded_worker ::
    "machine \<Rightarrow> session_record \<Rightarrow> int \<Rightarrow> (record_error + unit) \<times> (nat \<times> int) list" where
  "signal_recorded_worker M r signal =
     (case sr_worker_pid r of
        None \<Rightarrow> (Inr (), [])
      | Some pid \<Rightarrow>
          (case m_identity M r of
             Inl _ \<Rightarrow> (Inl NoTrustedIdentity, [])
           | Inr None \<Rightarrow> (Inl NoTrustedIdentity, [])
           | Inr (Some i) \<Rightarrow>
               if pi_pid i \<noteq> pid then (Inl IdentityPidMismatch, [])
               else case pidfd_open M pid of
                 Some e \<Rightarrow> (if e = ESRCH then Inr () else Inl ProbeFailed, [])
               | None \<Rightarrow>
                   (case verify_signal_identity M i of
                      Inl e \<Rightarrow> (Inl e, [])
                    | Inr _ \<Rightarrow> (send_signal M pid signal, [(pid, signal)]))))"

section \<open>Reaping\<close>

datatype containment_reap = Proven | NoRemainingHandle | Retain

definition recorded_cgroup_observed_empty ::
    "machine \<Rightarrow> uuid \<Rightarrow> string \<Rightarrow> cgroup_identity option \<Rightarrow> record_error + bool" where
  "recorded_cgroup_observed_empty M sid locator identity =
     (let go = res_bind (m_validate_cgroup M sid locator identity) (\<lambda>found.
        case found of
          None \<Rightarrow> Inr True
        | Some path \<Rightarrow> res_bind (m_populated M path) (\<lambda>p. Inr (\<not> p)))
      in case identity of
        None \<Rightarrow> go
      | Some i \<Rightarrow>
          (case linux_boot_id (m_os M) of
             None \<Rightarrow> Inl ProbeFailed
           | Some boot \<Rightarrow> if cg_boot_id i \<noteq> boot then Inr True else go))"

definition containment_reap_verdict_with ::
    "(uuid \<Rightarrow> string \<Rightarrow> cgroup_identity option \<Rightarrow> record_error + bool) \<Rightarrow> session_record \<Rightarrow> containment_reap" where
  "containment_reap_verdict_with probe r =
     (if containment_proven_empty r then Proven
      else case sr_containment_cgroup r of
        None \<Rightarrow> NoRemainingHandle
      | Some locator \<Rightarrow>
          (if probe (sr_id r) locator (sr_containment_cgroup_identity r) = Inr True then Proven else Retain))"

definition containment_reap_verdict :: "machine \<Rightarrow> session_record \<Rightarrow> containment_reap" where
  "containment_reap_verdict M r = containment_reap_verdict_with (recorded_cgroup_observed_empty M) r"

definition reap_verdict :: "machine \<Rightarrow> session_record \<Rightarrow> containment_reap option" where
  "reap_verdict M r =
     (if worker_alive M r \<or> workload_leader_alive M r then None
      else case containment_reap_verdict M r of Retain \<Rightarrow> None | verdict \<Rightarrow> Some verdict)"

section \<open>Laws\<close>

lemma validate_tag_ok: "validate_tag t = Inr u \<longleftrightarrow> t \<noteq> [] \<and> length t \<le> 64 \<and> list_all is_name_char t"
  by (auto simp: validate_tag_def)

lemma collect_labels_ok:
  "collect_labels raw labels = Inr out \<Longrightarrow> distinct (map fst labels) \<Longrightarrow>
     out = rev (map (\<lambda>item. the (split_once (CHR ''='') item)) raw) @ labels \<and> distinct (map fst out) \<and>
     list_all (\<lambda>item. \<exists>k v. item = k @ CHR ''='' # v \<and> CHR ''='' \<notin> set k \<and> validate_label k v = Inr ()) raw"
proof (induction raw labels rule: collect_labels.induct)
  case (2 item raw labels)
  then obtain k v where s: "split_once (CHR ''='') item = Some (k, v)" by (auto split: option.splits)
  with "2.prems" have ok: "validate_label k v = Inr ()" "k \<notin> fst ` set labels"
    and rest: "collect_labels raw ((k, v) # labels) = Inr out"
    by (auto simp: res_bind_eq_Inr split: if_splits)
  have item: "item = k @ CHR ''='' # v" "CHR ''='' \<notin> set k" using s by (simp_all add: split_once_Some)
  have "distinct (map fst ((k, v) # labels))" using "2.prems"(2) ok(2) by simp
  note ih = "2.IH" [OF s refl ok(2) rest this]
  then have "distinct (map fst out)" by blast
  moreover have "out = rev (map (\<lambda>item. the (split_once (CHR ''='') item)) (item # raw)) @ labels"
    using ih s by simp
  ultimately show ?case using ih item ok(1) by (intro conjI) auto
qed simp

text \<open>
  Kernel-level evidence that something still runs: a process that answers signals and is not
  a reaped-out corpse; a worker whose recorded identity nothing contradicts; a populated
  containment domain of this boot.
\<close>

definition runs :: "os \<Rightarrow> nat \<Rightarrow> bool" where
  "runs K pid \<longleftrightarrow> is_signalable_pid pid \<and> os_kill0 K pid \<in> {None, Some EPERM} \<and>
     (process_state K pid \<noteq> Inr (CHR ''Z'') \<or> os_tasks K pid \<noteq> Some [True])"

definition same_worker :: "machine \<Rightarrow> session_record \<Rightarrow> nat \<Rightarrow> bool" where
  "same_worker M r pid =
     (case m_identity M r of
        Inr (Some i) \<Rightarrow> pi_pid i \<noteq> pid \<or> linux_boot_id (m_os M) = None \<or>
          (linux_boot_id (m_os M) = Some (pi_boot_id i) \<and>
           process_start_time_ticks (m_os M) pid \<in> {Inr (start_time_ticks i), Inl Unreadable, Inl Malformed})
      | _ \<Rightarrow> True)"

definition domain_populated :: "machine \<Rightarrow> session_record \<Rightarrow> bool" where
  "domain_populated M r \<longleftrightarrow> sr_containment_empty r = Some False \<and>
     (case sr_containment_cgroup r of
        None \<Rightarrow> False
      | Some locator \<Rightarrow>
          (case sr_containment_cgroup_identity r of
             None \<Rightarrow> True
           | Some i \<Rightarrow> linux_boot_id (m_os M) = Some (cg_boot_id i)) \<and>
          (case m_validate_cgroup M (sr_id r) locator (sr_containment_cgroup_identity r) of
             Inr (Some path) \<Rightarrow> m_populated M path = Inr True
           | _ \<Rightarrow> False))"

lemma runs_alive: "runs K pid \<Longrightarrow> process_alive K pid"
  by (auto simp: runs_def intro: process_alive_unreadable)

lemma same_worker_alive:
  assumes "sr_worker_pid r = Some pid" "runs (m_os M) pid" "same_worker M r pid"
  shows "worker_alive M r"
  using assms runs_alive [OF assms(2)]
  by (auto simp: worker_alive_def same_worker_def verify_worker_identity_def
      split: sum.splits option.splits if_splits)

lemma domain_populated_retained: "domain_populated M r \<Longrightarrow> containment_reap_verdict M r = Retain"
  by (auto simp: domain_populated_def containment_reap_verdict_def containment_reap_verdict_with_def
      containment_proven_empty_def recorded_cgroup_observed_empty_def Let_def
      split: option.splits sum.splits)

text \<open>
  Nothing seen running is reaped: a record is never handed over while its worker answers the
  kernel and no readable evidence says the pid was recycled, while its workload leader answers,
  nor while its containment domain of this boot is populated and was not durably proven empty.
\<close>

theorem reap_spares_running:
  assumes "(\<exists>pid. sr_worker_pid r = Some pid \<and> runs (m_os M) pid \<and> same_worker M r pid) \<or>
    (\<exists>pid. sr_workload_pid r = Some pid \<and> runs (m_os M) pid) \<or> domain_populated M r"
  shows "reap_verdict M r = None"
  using assms
proof (elim disjE exE conjE)
  fix pid assume "sr_worker_pid r = Some pid" "runs (m_os M) pid" "same_worker M r pid"
  then show ?thesis using same_worker_alive by (simp add: reap_verdict_def)
next
  fix pid assume "sr_workload_pid r = Some pid" "runs (m_os M) pid"
  then show ?thesis using runs_alive by (simp add: reap_verdict_def workload_leader_alive_def)
next
  assume "domain_populated M r"
  from domain_populated_retained [OF this] show ?thesis by (simp add: reap_verdict_def)
qed

text \<open>
  What the kernel has to answer for a process to count as absent, for a pid to count as
  recycled, and for a containment domain to count as empty. Each clause is a probe that was
  read: an unreadable one satisfies none of them. The last clause of \<open>worker_seen_replaced\<close> is
  the caller of a nested pid namespace whose \<open>/proc\<close> does not have the worker; it is no
  evidence, and the code takes it for one.
\<close>

definition at_host_level :: "os \<Rightarrow> bool" where
  "at_host_level K \<longleftrightarrow> (\<exists>s line. os_self_status K = Some s \<and> line \<in> set (text_lines s) \<and>
     starts_with ''NSpid:'' line \<and> length (split_whitespace (drop 6 line)) = 1)"

definition seen_absent :: "os \<Rightarrow> nat \<Rightarrow> bool" where
  "seen_absent K pid \<longleftrightarrow> at_host_level K \<and>
     (\<not> is_signalable_pid pid \<or> (\<exists>e. os_kill0 K pid = Some e \<and> e \<noteq> EPERM) \<or>
      process_state K pid = Inr (CHR ''Z'') \<and> os_tasks K pid = Some [True])"

definition worker_seen_replaced :: "machine \<Rightarrow> session_record \<Rightarrow> nat \<Rightarrow> bool" where
  "worker_seen_replaced M r pid \<longleftrightarrow>
     (\<exists>i boot. m_identity M r = Inr (Some i) \<and> pi_pid i = pid \<and> linux_boot_id (m_os M) = Some boot \<and>
        (boot \<noteq> pi_boot_id i \<or>
         (\<exists>t. process_start_time_ticks (m_os M) pid = Inr t \<and> t \<noteq> start_time_ticks i) \<or>
         process_start_time_ticks (m_os M) pid = Inl NotFound \<and> \<not> kill_esrch_proves_absence (m_os M)))"

definition domain_seen_empty :: "machine \<Rightarrow> session_record \<Rightarrow> string \<Rightarrow> bool" where
  "domain_seen_empty M r locator \<longleftrightarrow>
     (\<exists>i boot. sr_containment_cgroup_identity r = Some i \<and> linux_boot_id (m_os M) = Some boot \<and> boot \<noteq> cg_boot_id i) \<or>
     m_validate_cgroup M (sr_id r) locator (sr_containment_cgroup_identity r) = Inr None \<or>
     (\<exists>path. m_validate_cgroup M (sr_id r) locator (sr_containment_cgroup_identity r) = Inr (Some path) \<and>
        m_populated M path = Inr False)"

lemma absence_at_host_level: "kill_esrch_proves_absence K \<Longrightarrow> at_host_level K"
  unfolding kill_esrch_proves_absence_def initial_pid_namespace_from_status_def at_host_level_def
  by (fastforce simp: find_Some_iff intro: nth_mem split: option.splits)

lemma dead_seen_absent: "\<not> process_alive K pid \<Longrightarrow> kill_esrch_proves_absence K \<Longrightarrow> seen_absent K pid"
  using absence_at_host_level [of K]
  by (auto simp: seen_absent_def process_alive_def process_is_zombie_def thread_group_holds_only_the_leader_def)

lemma worker_dead_evidence:
  assumes "\<not> worker_alive M r" "sr_worker_pid r = Some pid"
  shows "seen_absent (m_os M) pid \<or> worker_seen_replaced M r pid"
proof (cases "process_alive (m_os M) pid")
  case False
  with assms dead_seen_absent show ?thesis by (auto simp: worker_alive_def)
next
  case True
  with assms have "worker_seen_replaced M r pid"
    by (auto simp: worker_alive_def worker_seen_replaced_def verify_worker_identity_def
        split: sum.splits option.splits if_splits probe_error.splits)
  then show ?thesis by blast
qed

lemma containment_evidence:
  "containment_reap_verdict M r = Proven \<Longrightarrow> containment_proven_empty r \<or>
     (\<exists>locator. sr_containment_cgroup r = Some locator \<and> domain_seen_empty M r locator)"
  "containment_reap_verdict M r = NoRemainingHandle \<Longrightarrow> sr_containment_cgroup r = None"
  by (auto simp: containment_reap_verdict_def containment_reap_verdict_with_def domain_seen_empty_def
      recorded_cgroup_observed_empty_def Let_def res_bind_eq_Inr split: option.splits if_splits) (metis option.exhaust)+

text \<open>
  C18: a record is handed over for destruction only on evidence that was read. Its worker was
  never recorded, or was found absent by a caller that sees every process of the host (no
  such pid, or a zombie with no other thread), or answers while the identity file beside the
  record and the kernel's boot id or start time, all readable, say that the pid now belongs
  to another process; its workload leader was never recorded or was found absent in the
  same way; and its containment domain is durably recorded as empty or was read as empty or
  removed, or no handle to one was ever recorded. So an unreadable identity, boot id, process
  table or control group keeps the record, and so does a caller confined to a nested pid
  namespace, with the one exception that \<open>worker_seen_replaced\<close> spells out: there a worker that
  answers signals but has no \<open>/proc\<close> entry is given up.
\<close>

theorem reap_needs_evidence:
  assumes "reap_verdict M r = Some v"
  shows "(\<forall>pid. sr_worker_pid r = Some pid \<longrightarrow> seen_absent (m_os M) pid \<or> worker_seen_replaced M r pid) \<and>
     (\<forall>pid. sr_workload_pid r = Some pid \<longrightarrow> seen_absent (m_os M) pid) \<and>
     (case v of
        Proven \<Rightarrow> containment_proven_empty r \<or>
          (\<exists>locator. sr_containment_cgroup r = Some locator \<and> domain_seen_empty M r locator)
      | NoRemainingHandle \<Rightarrow> \<not> containment_proven_empty r \<and> sr_containment_cgroup r = None
      | Retain \<Rightarrow> False)"
proof -
  have dead: "\<not> worker_alive M r" "\<not> workload_leader_alive M r"
    and v: "containment_reap_verdict M r = v" "v \<noteq> Retain"
    using assms by (auto simp: reap_verdict_def split: if_splits containment_reap.splits)
  have "seen_absent (m_os M) pid" if "sr_workload_pid r = Some pid" for pid
    using that dead(2) dead_seen_absent by (auto simp: workload_leader_alive_def)
  moreover have "\<not> containment_proven_empty r" if "v = NoRemainingHandle"
    using that v by (auto simp: containment_reap_verdict_def containment_reap_verdict_with_def)
  ultimately show ?thesis
    using worker_dead_evidence [OF dead(1)] containment_evidence [of M r] v by (cases v) auto
qed

text \<open>
  The pid is never signalled on its number alone. A signal reaches the kernel only when the
  identity written at startup is readable, names the recorded pid and this boot, and the
  process behind the opened handle either has the recorded start time or is already gone.
\<close>

theorem signal_only_verified:
  assumes "signal_recorded_worker M r sig = (res, sent_to)" and "(pid, sig') \<in> set sent_to"
  shows "sig' = sig \<and> sr_worker_pid r = Some pid \<and> is_signalable_pid pid \<and>
     (\<exists>i. m_identity M r = Inr (Some i) \<and> pi_pid i = pid \<and> linux_boot_id (m_os M) = Some (pi_boot_id i) \<and>
        process_start_time_ticks (m_os M) pid \<in> {Inr (start_time_ticks i), Inl NotFound})"
proof -
  obtain i where p: "sr_worker_pid r = Some pid" "sig' = sig" "m_identity M r = Inr (Some i)" "pi_pid i = pid"
      "pidfd_open M pid = None" "verify_signal_identity M i = Inr ()"
    using assms by (auto simp: signal_recorded_worker_def split: option.splits sum.splits if_splits)
  moreover have "is_signalable_pid pid" using p(5) by (simp add: pidfd_open_def split: if_splits)
  moreover have "linux_boot_id (m_os M) = Some (pi_boot_id i)"
      "process_start_time_ticks (m_os M) pid \<in> {Inr (start_time_ticks i), Inl NotFound}"
    using p(4,6) by (auto simp: verify_signal_identity_def verify_worker_identity_def res_bind_eq_Inr
        split: option.splits sum.splits if_splits probe_error.splits worker_identity.splits)
  ultimately show ?thesis by blast
qed

text \<open>
  a confined caller (one outside the initial pid namespace, to which every host process
  looks absent) hands over no record that names a workload leader, and counts a worker it
  cannot signal as alive.
\<close>

theorem confined_caller_retains:
  assumes "\<not> kill_esrch_proves_absence (m_os M)"
  shows "(sr_workload_pid r \<noteq> None \<longrightarrow> reap_verdict M r = None) \<and>
     (\<forall>pid. sr_worker_pid r = Some pid \<and> \<not> process_alive (m_os M) pid \<longrightarrow> worker_alive M r)"
  using assms by (auto simp: reap_verdict_def workload_leader_alive_def worker_alive_def)

text \<open>
  What happens to a worker whose pid answers signals while its \<open>/proc\<close> entry is not found:
  it is reported dead exactly when the caller is confined, and alive when the absence is
  proven. The early path of the same function decides the other way round.
\<close>

theorem worker_gone_verdict:
  assumes "sr_worker_pid r = Some pid" and "process_alive (m_os M) pid"
    and "m_identity M r = Inr (Some i)" and "pi_pid i = pid"
    and "linux_boot_id (m_os M) = Some (pi_boot_id i)"
    and "process_start_time_ticks (m_os M) pid = Inl NotFound"
  shows "worker_alive M r \<longleftrightarrow> kill_esrch_proves_absence (m_os M)"
  using assms by (simp add: worker_alive_def verify_worker_identity_def)

section \<open>Witnesses\<close>

text \<open>A host on which pid 42 is a sleeping process whose name holds a parenthesis.\<close>

definition sample_os :: os where
  "sample_os = \<lparr>os_kill0 = (\<lambda>pid. if pid = 42 then None else Some ESRCH),
     os_stat = (\<lambda>pid. if pid = 42 then Inr ''42 (a) b) S 1 1 1 1 1 1 1 1 1 1 1 1 1 1 1 1 1 1 777'' else Inl NotFound),
     os_tasks = (\<lambda>pid. Some [True]), os_self_status = Some (''Name: a'' @ [CHR 0x0A] @ ''NSpid: 7''),
     os_boot_id = Some ''b1''\<rparr>"

definition sample_machine :: machine where
  "sample_machine = \<lparr>m_os = sample_os,
     m_identity = (\<lambda>r. Inr (Some \<lparr>pi_pid = 42, start_time_ticks = 777, pi_boot_id = ''b1''\<rparr>)),
     m_validate_cgroup = (\<lambda>_ _ _. Inr None), m_populated = (\<lambda>_. Inr False),
     m_pidfd_open = (\<lambda>_. None), m_send_signal = (\<lambda>_ _. None)\<rparr>"

text \<open>The same host seen from a nested pid namespace.\<close>

definition confined_machine :: machine where
  "confined_machine = sample_machine\<lparr>m_os := sample_os\<lparr>os_stat := (\<lambda>_. Inl NotFound),
     os_self_status := Some ''NSpid: 7 1''\<rparr>\<rparr>"

definition sample_record :: session_record where
  "sample_record = \<lparr>sr_schema_version = SCHEMA_VERSION, sr_id = 5, sr_workspace = ''/w'', sr_tag = ''main'',
     sr_engine = ''shell'', sr_profile = None, sr_parent_session = None, sr_command = [], sr_cwd = ''/w'',
     sr_env = [], sr_env_unset = [],
     sr_limits = \<lparr>memory_bytes = None, pids = None, cpu_quota_us = None, cpu_period_us = None\<rparr>,
     sr_history_bytes = 0, sr_deadline_ms = None, sr_deadline_exceeded = None, sr_created_at_ms = 0,
     sr_updated_at_ms = 0, sr_last_activity_ms = None, sr_last_accessed_ms = None, sr_reported_state = None,
     sr_reported_state_at_ms = None, sr_reported_state_event_ms = None,
     sr_reported_state_engine_session_id = None, sr_agent_override = None, sr_phase = Running,
     sr_worker_pid = Some 42, sr_workload_pid = None, sr_worker_cgroup = None, sr_workload_cgroup = None,
     sr_containment_cgroup = None, sr_containment_cgroup_identity = None, sr_containment_empty = Some False,
     sr_labels = [], sr_socket_path = ''/s'', sr_history_path = ''/h'', sr_exit = None, sr_error = None\<rparr>"

lemma sample_stat: "proc_stat_after_comm sample_os 42 = Inr '' S 1 1 1 1 1 1 1 1 1 1 1 1 1 1 1 1 1 1 777''"
  by (simp add: proc_stat_after_comm_def sample_os_def rsplit_once_def)

lemma sample_probes:
  "process_state sample_os 42 = Inr (CHR ''S'')" "process_start_time_ticks sample_os 42 = Inr 777"
  "linux_boot_id sample_os = Some ''b1''" "is_signalable_pid 42" "os_kill0 sample_os 42 = None"
  by (simp_all add: process_state_def process_start_time_ticks_def sample_stat split_whitespace_def is_ws_def
      parse_u64_def ascii_def is_digit_def dec_value_def size_consts linux_boot_id_def trim_text_def
      is_signalable_pid_def) (simp_all add: sample_os_def is_ws_def trim_text_def)

theorem reap_spares_running_witness: "reap_verdict sample_machine sample_record = None"
  by (rule reap_spares_running)
    (simp add: sample_record_def sample_machine_def runs_def same_worker_def sample_probes)

text \<open>The recorded pid answers, and the readable start time is not the one written at startup.\<close>

definition recycled_machine :: machine where
  "recycled_machine = sample_machine\<lparr>m_identity :=
     (\<lambda>r. Inr (Some \<lparr>pi_pid = 42, start_time_ticks = 555, pi_boot_id = ''b1''\<rparr>))\<rparr>"

theorem reap_needs_evidence_witness:
  "reap_verdict recycled_machine sample_record = Some NoRemainingHandle \<and> sr_worker_pid sample_record = Some 42 \<and>
     (seen_absent (m_os recycled_machine) 42 \<or> worker_seen_replaced recycled_machine sample_record 42)"
proof -
  have alive: "process_alive sample_os 42"
    by (simp add: process_alive_def process_is_zombie_def sample_probes)
  have "reap_verdict recycled_machine sample_record = Some NoRemainingHandle"
    by (simp add: reap_verdict_def worker_alive_def workload_leader_alive_def verify_worker_identity_def
        containment_reap_verdict_def containment_reap_verdict_with_def containment_proven_empty_def
        recycled_machine_def sample_machine_def sample_record_def sample_probes alive)
  with reap_needs_evidence [OF this] show ?thesis by (simp add: sample_record_def)
qed

theorem signal_only_verified_witness:
  "is_signalable_pid 42 \<and> linux_boot_id (m_os sample_machine) = Some ''b1''"
proof -
  have "signal_recorded_worker sample_machine sample_record 15 = (Inr (), [(42, 15)])"
    by (simp add: signal_recorded_worker_def sample_record_def sample_machine_def pidfd_open_def
        verify_signal_identity_def verify_worker_identity_def sample_probes send_signal_def)
  from signal_only_verified [OF this, of 42 15] show ?thesis by (auto simp: sample_machine_def)
qed

lemma confined: "\<not> kill_esrch_proves_absence (m_os confined_machine)"
  by (simp add: kill_esrch_proves_absence_def confined_machine_def initial_pid_namespace_from_status_def
      text_lines_def strip_cr_def starts_with_def split_whitespace_def is_ws_def Let_def sample_machine_def sample_os_def)

theorem confined_caller_retains_witness:
  "reap_verdict confined_machine (sample_record\<lparr>sr_workload_pid := Some 9\<rparr>) = None"
  using confined_caller_retains [OF confined, of "sample_record\<lparr>sr_workload_pid := Some 9\<rparr>"] by simp

text \<open>A caller in a nested namespace declares a worker that answers signals dead.\<close>

theorem worker_gone_verdict_witness: "\<not> worker_alive confined_machine sample_record"
proof -
  have "process_alive (m_os confined_machine) 42"
    by (simp add: process_alive_def confined_machine_def process_is_zombie_def process_state_def
        proc_stat_after_comm_def sample_probes)
  then show ?thesis
    using worker_gone_verdict [of sample_record 42 confined_machine
        "\<lparr>pi_pid = 42, start_time_ticks = 777, pi_boot_id = ''b1''\<rparr>"] confined
    by (simp add: sample_record_def confined_machine_def sample_machine_def process_start_time_ticks_def
        proc_stat_after_comm_def linux_boot_id_def sample_os_def trim_text_def is_ws_def)
qed

end
