(* ===== verification/Registry.thy ===== *)
theory Registry
  imports Session_Record
begin

text \<open>
  The session registry and the commands that destroy records: \<open>src/registry.rs\<close>, the pre-PID
  fence and \<open>forget_session\<close> of \<open>src/api.rs\<close>, \<open>reap_session_state\<close> and the sweep of
  \<open>src/bin/aplexer/session_commands.rs\<close>, and the archive transaction of
  \<open>src/api/start/supersede.rs\<close>. What runs with the registry lock held is one step on the
  registry; \<open>reg_world\<close> is what the machine answers meanwhile and which file operations fail. A
  sweep takes the lock once per record, with other users of the registry in between.
\<close>

section \<open>State\<close>

datatype dir_state = NoRecord | Corrupt | Record session_record

datatype reg_entry = Stray | SessionDir uuid dir_state

record registry =
  rg_entries :: "reg_entry list"
  rg_retired :: "(uuid \<times> dir_state) list"
  rg_runtime :: "uuid list"
  rg_stops :: "uuid list"
  rg_tombstones :: "uuid list"

record reg_paths =
  p_socket :: "uuid \<Rightarrow> string"
  p_history :: "uuid \<Rightarrow> string"

datatype lock_state = LockFree | LockHeld | LockError

record reg_world =
  w_machine :: machine
  w_lock :: "uuid \<Rightarrow> lock_state"
  w_rename_ok :: bool
  w_sync_ok :: bool
  w_restore_ok :: bool
  w_remove_ok :: bool
  w_record_left :: bool
  w_remove_sync_ok :: bool
  w_runtime_ok :: bool
  w_tombstone_ok :: bool
  w_registry_free :: bool

datatype reg_error =
    RegNotFound | RegCorrupt | RegMismatch | RegStray
  | FenceHeld | FenceFailed | ForceRequired | LiveWorker | PairTaken | NoFreeTag | LiveAgain
  | RegistryBusy | PersistFailed | SessionFinalized | NoMatchingSession | AmbiguousSelector | BadWorkspace
  | ArchiveExists | RenameFailed | SyncFailed | RestoreFailed | RemoveFailed
  | RegRecord record_error

section \<open>Reading\<close>

fun dir_of :: "uuid \<Rightarrow> reg_entry list \<Rightarrow> dir_state option" where
  "dir_of sid [] = None"
| "dir_of sid (SessionDir i d # es) = (if i = sid then Some d else dir_of sid es)"
| "dir_of sid (Stray # es) = dir_of sid es"

definition check_session_record :: "reg_paths \<Rightarrow> uuid \<Rightarrow> session_record \<Rightarrow> reg_error + session_record" where
  "check_session_record P sid r =
     (if sr_schema_version r \<noteq> SCHEMA_VERSION then Inl RegMismatch
      else if sr_id r \<noteq> sid then Inl RegMismatch
      else if sr_socket_path r \<noteq> p_socket P sid then Inl RegMismatch
      else if sr_history_path r \<noteq> p_history P sid then Inl RegMismatch
      else Inr r)"

fun read_dir_state :: "reg_paths \<Rightarrow> uuid \<Rightarrow> dir_state \<Rightarrow> reg_error + session_record" where
  "read_dir_state P sid NoRecord = Inl RegNotFound"
| "read_dir_state P sid Corrupt = Inl RegCorrupt"
| "read_dir_state P sid (Record r) = check_session_record P sid r"

definition read_session_record :: "reg_paths \<Rightarrow> uuid \<Rightarrow> registry \<Rightarrow> reg_error + session_record" where
  "read_session_record P sid reg =
     (case dir_of sid (rg_entries reg) of None \<Rightarrow> Inl RegNotFound | Some d \<Rightarrow> read_dir_state P sid d)"

fun collect_records :: "reg_paths \<Rightarrow> reg_entry list \<Rightarrow> reg_error + session_record list" where
  "collect_records P [] = Inr []"
| "collect_records P (Stray # es) = Inl RegStray"
| "collect_records P (SessionDir sid d # es) =
     (case read_dir_state P sid d of
        Inr r \<Rightarrow> res_bind (collect_records P es) (\<lambda>rs. Inr (r # rs))
      | Inl e \<Rightarrow> if e = RegNotFound then collect_records P es else Inl e)"

definition list_records :: "reg_paths \<Rightarrow> registry \<Rightarrow> reg_error + session_record list" where
  "list_records P reg =
     res_bind (collect_records P (rg_entries reg)) (\<lambda>rs.
       Inr (sort_key (\<lambda>r. - int (sr_created_at_ms r)) rs))"

text \<open>
  \<open>resolve_records\<close>: \<open>uuid_text\<close> is the text of an id, \<open>canonical\<close> is \<open>canonical_workspace\<close>,
  which asks the file system.
\<close>

definition lower_char :: "char \<Rightarrow> char" where
  "lower_char c = (let n = (of_char c :: nat) in if 65 \<le> n \<and> n \<le> 90 then char_of (n + 32) else c)"

definition holds_pair :: "string \<Rightarrow> string \<Rightarrow> session_record \<Rightarrow> bool" where
  "holds_pair ws tag r \<longleftrightarrow> sr_workspace r = ws \<and> sr_tag r = tag"

definition selector_matches ::
    "(uuid \<Rightarrow> string) \<Rightarrow> (string \<Rightarrow> string option) \<Rightarrow> string \<Rightarrow> session_record list \<Rightarrow> session_record list" where
  "selector_matches uuid_text canonical raw records =
     (let needle = map lower_char raw;
          pair = rsplit_once (CHR '':'') raw;
          direct = filter (\<lambda>r. uuid_text (sr_id r) = needle \<or>
            (8 \<le> length needle \<and> starts_with needle (uuid_text (sr_id r))) \<or>
            (case pair of None \<Rightarrow> False | Some (ws, tag) \<Rightarrow> holds_pair ws tag r)) records
      in if direct \<noteq> [] then direct
         else case pair of
           None \<Rightarrow> []
         | Some (ws_text, tag) \<Rightarrow>
             (case canonical ws_text of None \<Rightarrow> [] | Some ws \<Rightarrow> filter (holds_pair ws tag) records))"

definition resolve_records ::
    "machine \<Rightarrow> (uuid \<Rightarrow> string) \<Rightarrow> (string \<Rightarrow> string option) \<Rightarrow> session_record list \<Rightarrow> string option \<Rightarrow>
       string option \<Rightarrow> string option \<Rightarrow> reg_error + session_record" where
  "resolve_records M uuid_text canonical records sel workspace tag =
     res_bind
       (case sel of
          Some raw \<Rightarrow> Inr (selector_matches uuid_text canonical raw records)
        | None \<Rightarrow>
            (case canonical (case workspace of None \<Rightarrow> ''.'' | Some w \<Rightarrow> w) of
               None \<Rightarrow> Inl BadWorkspace
             | Some ws \<Rightarrow>
                 Inr (filter (holds_pair ws (case tag of None \<Rightarrow> ''default'' | Some t \<Rightarrow> t)) records)))
       (\<lambda>matches.
         case matches of
           [] \<Rightarrow> Inl NoMatchingSession
         | [r] \<Rightarrow> Inr r
         | _ \<Rightarrow>
             (case filter (\<lambda>r. reap_verdict M r = None) matches of
                [only] \<Rightarrow> Inr only
              | _ \<Rightarrow> Inl AmbiguousSelector))"

definition resolve_record ::
    "machine \<Rightarrow> (uuid \<Rightarrow> string) \<Rightarrow> (string \<Rightarrow> string option) \<Rightarrow> reg_paths \<Rightarrow> registry \<Rightarrow> string option \<Rightarrow>
       string option \<Rightarrow> string option \<Rightarrow> reg_error + session_record" where
  "resolve_record M uuid_text canonical P reg sel workspace tag =
     res_bind (list_records P reg) (\<lambda>records.
       resolve_records M uuid_text canonical records sel workspace tag)"

section \<open>The pre-PID fence\<close>

datatype pre_pid_fence = Fenced "uuid option" | WorkerHoldsLock

definition fence_pre_pid_worker :: "reg_world \<Rightarrow> session_record \<Rightarrow> reg_error + pre_pid_fence" where
  "fence_pre_pid_worker W r =
     (if \<not> worker_phase_active r \<or> sr_worker_pid r \<noteq> None then Inr (Fenced None)
      else case w_lock W (sr_id r) of
        LockFree \<Rightarrow> Inr (Fenced (Some (sr_id r)))
      | LockHeld \<Rightarrow> Inr WorkerHoldsLock
      | LockError \<Rightarrow> Inl FenceFailed)"

definition fence_or_refuse :: "reg_world \<Rightarrow> session_record \<Rightarrow> reg_error + uuid option" where
  "fence_or_refuse W r =
     res_bind (fence_pre_pid_worker W r) (\<lambda>f.
       case f of Fenced lock \<Rightarrow> Inr lock | WorkerHoldsLock \<Rightarrow> Inl FenceHeld)"

section \<open>Removal\<close>

definition drop_entry :: "uuid \<Rightarrow> reg_entry list \<Rightarrow> reg_entry list" where
  "drop_entry sid es = filter (\<lambda>e. case e of Stray \<Rightarrow> True | SessionDir i _ \<Rightarrow> i \<noteq> sid) es"

definition remove_state :: "uuid \<Rightarrow> registry \<Rightarrow> registry" where
  "remove_state sid reg = reg\<lparr>rg_entries := drop_entry sid (rg_entries reg)\<rparr>"

definition remove_runtime :: "uuid \<Rightarrow> registry \<Rightarrow> registry" where
  "remove_runtime sid reg = reg\<lparr>rg_runtime := removeAll sid (rg_runtime reg)\<rparr>"

text \<open>A tombstone is written best-effort and never into an archive.\<close>

definition write_finished_tombstone :: "reg_world \<Rightarrow> uuid \<Rightarrow> registry \<Rightarrow> registry" where
  "write_finished_tombstone W sid reg =
     (if sid \<in> fst ` set (rg_retired reg) then reg
      else if w_tombstone_ok W then reg\<lparr>rg_tombstones := sid # rg_tombstones reg\<rparr> else reg)"

text \<open>
  A removal that fails half way: \<open>w_record_left\<close> says whether the record file was still there. The
  other files of the directory are not part of this state.
\<close>

fun put_dir :: "uuid \<Rightarrow> dir_state \<Rightarrow> reg_entry list \<Rightarrow> reg_entry list" where
  "put_dir sid d [] = []"
| "put_dir sid d (SessionDir i e # es) = (if i = sid then SessionDir i d # es else SessionDir i e # put_dir sid d es)"
| "put_dir sid d (Stray # es) = Stray # put_dir sid d es"

definition left_behind :: "reg_world \<Rightarrow> uuid \<Rightarrow> registry \<Rightarrow> registry" where
  "left_behind W sid reg =
     (if w_record_left W then reg else reg\<lparr>rg_entries := put_dir sid NoRecord (rg_entries reg)\<rparr>)"

datatype reap_result = Removed bool | Retained | Vanished

definition reap_session_state ::
    "reg_world \<Rightarrow> reg_paths \<Rightarrow> uuid \<Rightarrow> registry \<Rightarrow> (reg_error + reap_result) \<times> registry" where
  "reap_session_state W P sid reg =
     (if \<not> w_registry_free W then (Inl RegistryBusy, reg)
      else case read_session_record P sid reg of
        Inl e \<Rightarrow> (if dir_of sid (rg_entries reg) \<in> {None, Some NoRecord} then (Inr Vanished, reg) else (Inl e, reg))
      | Inr current \<Rightarrow>
          if sid \<in> set (rg_stops reg) then (Inr Retained, reg)
          else case reap_verdict (w_machine W) current of
            None \<Rightarrow> (Inr Retained, reg)
          | Some verdict \<Rightarrow>
              (case fence_or_refuse W current of
                 Inl _ \<Rightarrow> (Inr Retained, reg)
               | Inr _ \<Rightarrow>
                   if \<not> w_remove_ok W then (Inl RemoveFailed, left_behind W sid reg)
                   else (Inr (Removed (verdict = Proven)),
                         (if w_runtime_ok W then remove_runtime sid else id) (remove_state sid reg))))"

record prune_outcome =
  po_removed :: "uuid list"
  po_removed_without_proof :: "uuid list"
  po_retained_count :: nat

text \<open>
  The sweep holds the lock for one record at a time. \<open>reap_answer\<close> is what it meets on the way
  to one: the processes when the wait begins, the registry and the processes at each poll made
  before the deadline, the processes at the advisory verdict, what the other users of the
  registry do until the lock is taken, the answers while it is held, and what the others do
  until the tombstone is written.
\<close>

record reap_answer =
  ra_before :: machine
  ra_polls :: "(registry \<times> machine) list"
  ra_scan :: machine
  ra_others :: "registry \<Rightarrow> registry"
  ra_world :: reg_world
  ra_later :: "registry \<Rightarrow> registry"

fun settle_polls :: "reg_paths \<Rightarrow> (registry \<times> machine) list \<Rightarrow> session_record \<Rightarrow> session_record" where
  "settle_polls P [] current = current"
| "settle_polls P ((reg, M) # polls) current =
     (case read_session_record P (sr_id current) reg of
        Inl _ \<Rightarrow> current
      | Inr fresh \<Rightarrow> if \<not> worker_alive M fresh then fresh else settle_polls P polls fresh)"

definition settle_terminating_record :: "reg_paths \<Rightarrow> reap_answer \<Rightarrow> session_record \<Rightarrow> session_record" where
  "settle_terminating_record P a r =
     (if \<not> worker_alive (ra_before a) r \<or> \<not> worker_is_terminating (ra_before a) r then r
      else settle_polls P (ra_polls a) r)"

text \<open>
  What a sweep does, in order: a crash warning is asked for, the others change the registry, one
  record is decided under the lock, its tombstone is written.
\<close>

datatype sweep_event =
    Warned session_record
  | Others registry registry
  | Locked uuid reg_world registry registry
  | Buried uuid registry registry

fun reap_loop ::
    "bool \<Rightarrow> reg_paths \<Rightarrow> (nat \<Rightarrow> reap_answer) \<Rightarrow> nat \<Rightarrow> session_record list \<Rightarrow> prune_outcome \<Rightarrow> registry \<Rightarrow>
       (reg_error + prune_outcome) \<times> registry \<times> sweep_event list" where
  "reap_loop wait P ans n [] po reg = (Inr po, reg, [])"
| "reap_loop wait P ans n (r # rs) po reg =
     (let a = ans n;
          record = (if wait then settle_terminating_record P a r else r);
          sid = sr_id record
      in if reap_verdict (ra_scan a) record = None
         then reap_loop wait P ans (Suc n) rs (po\<lparr>po_retained_count := po_retained_count po + 1\<rparr>) reg
         else
           let taken = ra_others a reg;
               (answer, released) = reap_session_state (ra_world a) P sid taken;
               events = [Warned record, Others reg taken, Locked sid (ra_world a) taken released]
           in case answer of
             Inl e \<Rightarrow> (Inl e, released, events)
           | Inr (Removed proven) \<Rightarrow>
               (let later = ra_later a released;
                    buried = write_finished_tombstone (ra_world a) sid later;
                    (res, reg', more) = reap_loop wait P ans (Suc n) rs
                      (po\<lparr>po_removed := po_removed po @ [sid],
                          po_removed_without_proof := po_removed_without_proof po @ (if proven then [] else [sid])\<rparr>) buried
                in (res, reg', events @ [Others released later, Buried sid later buried] @ more))
           | Inr Retained \<Rightarrow>
               (let (res, reg', more) = reap_loop wait P ans (Suc n) rs
                      (po\<lparr>po_retained_count := po_retained_count po + 1\<rparr>) released
                in (res, reg', events @ more))
           | Inr Vanished \<Rightarrow>
               (let (res, reg', more) = reap_loop wait P ans (Suc n) rs po released in (res, reg', events @ more)))"

definition reap_sweep ::
    "bool \<Rightarrow> reg_paths \<Rightarrow> (nat \<Rightarrow> reap_answer) \<Rightarrow> registry \<Rightarrow>
       (reg_error + prune_outcome) \<times> registry \<times> sweep_event list" where
  "reap_sweep wait P ans reg =
     (case list_records P reg of
        Inl e \<Rightarrow> (Inl e, reg, [])
      | Inr rs \<Rightarrow>
          reap_loop wait P ans 0 rs \<lparr>po_removed = [], po_removed_without_proof = [], po_retained_count = 0\<rparr> reg)"

text \<open>\<open>forget_session\<close> on the record it selected; the second component is \<open>workload_may_survive\<close>.\<close>

definition forget_session ::
    "reg_world \<Rightarrow> reg_paths \<Rightarrow> uuid \<Rightarrow> bool \<Rightarrow> registry \<Rightarrow> (reg_error + bool) \<times> registry" where
  "forget_session W P sid force reg =
     (if \<not> force then (Inl ForceRequired, reg)
      else if \<not> w_registry_free W then (Inl RegistryBusy, reg)
      else case dir_of sid (rg_entries reg) of
        Some (Record current) \<Rightarrow>
          (if sr_schema_version current \<noteq> SCHEMA_VERSION then (Inl RegMismatch, reg)
           else if worker_alive (w_machine W) current then (Inl LiveWorker, reg)
           else case fence_or_refuse W current of
             Inl e \<Rightarrow> (Inl e, reg)
           | Inr _ \<Rightarrow>
               (let reg1 = write_finished_tombstone W (sr_id current) reg in
                if \<not> w_remove_ok W then (Inl RemoveFailed, left_behind W (sr_id current) reg1)
                else let reg2 = remove_state (sr_id current) reg1 in
                  if \<not> w_runtime_ok W then (Inl RemoveFailed, reg2)
                  else (Inr (\<not> containment_proven_empty current), remove_runtime (sr_id current) reg2)))
      | Some Corrupt \<Rightarrow> (Inl RegCorrupt, reg)
      | _ \<Rightarrow> (Inl RegNotFound, reg))"

section \<open>The archive transaction\<close>

definition restore_superseded_session :: "reg_world \<Rightarrow> uuid \<Rightarrow> registry \<Rightarrow> (reg_error + unit) \<times> registry" where
  "restore_superseded_session W sid reg =
     (case map_of (rg_retired reg) sid of
        None \<Rightarrow> (Inl RestoreFailed, reg)
      | Some d \<Rightarrow>
          if \<not> w_restore_ok W then (Inl RestoreFailed, reg)
          else (if w_remove_sync_ok W then Inr () else Inl SyncFailed,
                reg\<lparr>rg_retired := filter (\<lambda>(i, _). i \<noteq> sid) (rg_retired reg),
                    rg_entries := SessionDir sid d # rg_entries reg\<rparr>))"

definition archive_superseded_session :: "reg_world \<Rightarrow> uuid \<Rightarrow> registry \<Rightarrow> (reg_error + unit) \<times> registry" where
  "archive_superseded_session W sid reg =
     (if sid \<in> fst ` set (rg_retired reg) then (Inl ArchiveExists, reg)
      else case dir_of sid (rg_entries reg) of
        None \<Rightarrow> (Inl RenameFailed, reg)
      | Some d \<Rightarrow>
          if \<not> w_rename_ok W then (Inl RenameFailed, reg)
          else
            let reg1 = reg\<lparr>rg_entries := drop_entry sid (rg_entries reg), rg_retired := (sid, d) # rg_retired reg\<rparr> in
            if w_sync_ok W then (Inr (), reg1)
            else case restore_superseded_session W sid reg1 of
              (Inr _, reg2) \<Rightarrow> (Inl SyncFailed, reg2)
            | (Inl _, reg2) \<Rightarrow> (Inl RestoreFailed, reg2))"

definition cleanup_superseded_archive :: "reg_world \<Rightarrow> uuid \<Rightarrow> registry \<Rightarrow> (reg_error + unit) \<times> registry" where
  "cleanup_superseded_archive W sid reg =
     (if \<not> w_remove_ok W then
        (Inl RemoveFailed, if w_record_left W then reg
          else reg\<lparr>rg_retired := map (\<lambda>(i, d). (i, if i = sid then NoRecord else d)) (rg_retired reg)\<rparr>)
      else (if w_remove_sync_ok W then Inr () else Inl SyncFailed,
            reg\<lparr>rg_retired := filter (\<lambda>(i, _). i \<noteq> sid) (rg_retired reg)\<rparr>))"

definition archive_reclaimed_predecessor ::
    "reg_world \<Rightarrow> reg_paths \<Rightarrow> session_record \<Rightarrow> registry \<Rightarrow> (reg_error + unit) \<times> registry" where
  "archive_reclaimed_predecessor W P existing reg =
     (case read_session_record P (sr_id existing) reg of
        Inl e \<Rightarrow> (Inl e, reg)
      | Inr current \<Rightarrow>
          if reap_verdict (w_machine W) current = None then (Inl LiveAgain, reg)
          else archive_superseded_session W (sr_id existing) reg)"

definition retire_reclaimed_holder ::
    "reg_world \<Rightarrow> reg_paths \<Rightarrow> session_record \<Rightarrow> registry \<Rightarrow> (reg_error + unit) \<times> registry" where
  "retire_reclaimed_holder W P holder reg =
     (case archive_reclaimed_predecessor W P holder reg of
        (Inl e, reg1) \<Rightarrow> (Inl e, reg1)
      | (Inr _, reg1) \<Rightarrow>
          (case cleanup_superseded_archive W (sr_id holder) reg1 of
             (Inl e, reg2) \<Rightarrow> (Inl e, reg2)
           | (Inr _, reg2) \<Rightarrow>
               (Inr (), write_finished_tombstone W (sr_id holder)
                  ((if w_runtime_ok W then remove_runtime (sr_id holder) else id) reg2))))"

section \<open>Laws\<close>

lemma dir_of_drop_entry [simp]: "dir_of i (drop_entry sid es) = (if i = sid then None else dir_of i es)"
proof (induction es)
  case (Cons e es)
  then show ?case by (cases e) (auto simp: drop_entry_def)
qed (simp add: drop_entry_def)

lemma entries_tombstone [simp]:
  "rg_entries (write_finished_tombstone W sid reg) = rg_entries reg"
  "rg_stops (write_finished_tombstone W sid reg) = rg_stops reg"
  by (simp_all add: write_finished_tombstone_def)

lemma entries_runtime [simp]:
  "rg_entries (remove_runtime sid reg) = rg_entries reg" "rg_stops (remove_runtime sid reg) = rg_stops reg"
  "rg_entries (remove_state sid reg) = drop_entry sid (rg_entries reg)" "rg_stops (remove_state sid reg) = rg_stops reg"
  by (simp_all add: remove_runtime_def remove_state_def)

lemma dir_of_put_dir [simp]:
  "dir_of i (put_dir sid d es) = (if i = sid then map_option (\<lambda>_. d) (dir_of i es) else dir_of i es)"
  by (induction sid d es rule: put_dir.induct) auto

text \<open>
  The licence to destroy: the record, as it stands on disk now, is reapable, and if its worker
  may still be between its spawn and its lock, that lock is ours.
\<close>

definition destroyable :: "reg_world \<Rightarrow> reg_paths \<Rightarrow> uuid \<Rightarrow> dir_state \<Rightarrow> bool" where
  "destroyable W P sid d =
     (case read_dir_state P sid d of
        Inl _ \<Rightarrow> False
      | Inr r \<Rightarrow> reap_verdict (w_machine W) r \<noteq> None \<and>
          (worker_phase_active r \<and> sr_worker_pid r = None \<longrightarrow> w_lock W sid = LockFree))"

lemma fence_ok:
  assumes "fence_or_refuse W r = Inr f" "worker_phase_active r" "sr_worker_pid r = None"
  shows "w_lock W (sr_id r) = LockFree"
  using assms by (auto simp: fence_or_refuse_def fence_pre_pid_worker_def res_bind_eq_Inr split: lock_state.splits)

lemma read_checked: "read_dir_state P sid d = Inr r \<Longrightarrow> d = Record r \<and> sr_id r = sid"
  by (cases d) (auto simp: check_session_record_def split: if_splits)

definition removable :: "reg_world \<Rightarrow> reg_paths \<Rightarrow> uuid \<Rightarrow> registry \<Rightarrow> bool" where
  "removable W P sid reg \<longleftrightarrow> sid \<notin> set (rg_stops reg) \<and>
     (case dir_of sid (rg_entries reg) of None \<Rightarrow> False | Some d \<Rightarrow> destroyable W P sid d)"

lemma reap_session_state_cases:
  assumes "reap_session_state W P sid reg = (res, reg')"
  shows "reg' = reg \<and> (\<forall>p. res \<noteq> Inr (Removed p)) \<or>
     removable W P sid reg \<and> res = Inl RemoveFailed \<and> reg' = left_behind W sid reg \<or>
     removable W P sid reg \<and> (\<exists>p. res = Inr (Removed p)) \<and>
       rg_entries reg' = drop_entry sid (rg_entries reg) \<and> rg_stops reg' = rg_stops reg"
proof (cases "\<exists>r v f. read_session_record P sid reg = Inr r \<and> sid \<notin> set (rg_stops reg) \<and>
    reap_verdict (w_machine W) r = Some v \<and> fence_or_refuse W r = Inr f")
  case True
  then obtain r v f where r: "read_session_record P sid reg = Inr r" "sid \<notin> set (rg_stops reg)"
      "reap_verdict (w_machine W) r = Some v" "fence_or_refuse W r = Inr f" by blast
  then obtain d where d: "dir_of sid (rg_entries reg) = Some d" "read_dir_state P sid d = Inr r"
    by (auto simp: read_session_record_def split: option.splits)
  then have "removable W P sid reg"
    using r fence_ok [OF r(4)] read_checked [OF d(2)] by (auto simp: destroyable_def removable_def)
  with r assms show ?thesis by (auto simp: reap_session_state_def split: if_splits)
next
  case False
  with assms show ?thesis
    by (auto simp: reap_session_state_def split: sum.splits option.splits if_splits)
qed

text \<open>
  How the registry gets from its state at the scan to its state at the end, and what each kind
  of step may do to it.
\<close>

fun linked :: "registry \<Rightarrow> sweep_event list \<Rightarrow> registry \<Rightarrow> bool" where
  "linked reg [] reg' = (reg' = reg)"
| "linked reg (Warned r # es) reg' = linked reg es reg'"
| "linked reg (Others b a # es) reg' = (b = reg \<and> linked a es reg')"
| "linked reg (Locked sid W b a # es) reg' = (b = reg \<and> linked a es reg')"
| "linked reg (Buried sid b a # es) reg' = (b = reg \<and> linked a es reg')"

fun warned_first :: "uuid list \<Rightarrow> sweep_event list \<Rightarrow> bool" where
  "warned_first ws [] = True"
| "warned_first ws (Warned r # es) = warned_first (sr_id r # ws) es"
| "warned_first ws (Locked sid W b a # es) = (sid \<in> set ws \<and> warned_first ws es)"
| "warned_first ws (e # es) = warned_first ws es"

fun own_step_ok :: "reg_paths \<Rightarrow> sweep_event \<Rightarrow> bool" where
  "own_step_ok P (Locked sid W b a) =
     (rg_stops a = rg_stops b \<and> (\<forall>i. i \<noteq> sid \<longrightarrow> dir_of i (rg_entries a) = dir_of i (rg_entries b)) \<and>
      (dir_of sid (rg_entries a) = dir_of sid (rg_entries b) \<or>
       removable W P sid b \<and> dir_of sid (rg_entries a) \<in> {None, Some NoRecord}))"
| "own_step_ok P (Buried sid b a) = (rg_entries a = rg_entries b \<and> rg_stops a = rg_stops b)"
| "own_step_ok P e = True"

fun removes :: "reg_paths \<Rightarrow> uuid \<Rightarrow> sweep_event \<Rightarrow> bool" where
  "removes P sid (Locked i W b a) = (i = sid \<and> removable W P sid b \<and> dir_of sid (rg_entries a) = None)"
| "removes P sid e = False"

lemma locked_step_ok: "reap_session_state W P sid b = (x, a) \<Longrightarrow> own_step_ok P (Locked sid W b a)"
  by (drule reap_session_state_cases)
    (auto simp: left_behind_def removable_def split: option.splits if_splits)

lemma locked_step_removes: "reap_session_state W P sid b = (Inr (Removed p), a) \<Longrightarrow> removes P sid (Locked sid W b a)"
  by (drule reap_session_state_cases) auto

lemma warned_first_mono: "warned_first ws es \<Longrightarrow> set ws \<subseteq> set vs \<Longrightarrow> warned_first vs es"
proof (induction ws es arbitrary: vs rule: warned_first.induct)
  case (2 ws r es)
  from 2(2) have "warned_first (sr_id r # ws) es" by simp
  from "2.IH" [OF this, of "sr_id r # vs"] "2.prems"(2) show ?case by auto
qed auto

lemma warned_first_any: "warned_first [] es \<Longrightarrow> warned_first ws es"
  by (erule warned_first_mono) simp

lemma reap_loop_steps:
  "reap_loop wait P ans n rs po reg = (res, reg', es) \<Longrightarrow>
     linked reg es reg' \<and> warned_first [] es \<and> list_all (own_step_ok P) es \<and>
     (\<forall>po'. res = Inr po' \<longrightarrow> set (po_removed po') = set (po_removed po) \<union> {sid. list_ex (removes P sid) es})"
proof (induction rs arbitrary: n po reg res reg' es)
  case Nil
  then show ?case by auto
next
  case (Cons r rs)
  define a where "a = ans n"
  define rc where "rc = (if wait then settle_terminating_record P a r else r)"
  define taken where "taken = ra_others a reg"
  obtain x released where x: "reap_session_state (ra_world a) P (sr_id rc) taken = (x, released)" by force
  note unf = Cons.prems [unfolded reap_loop.simps Let_def, folded a_def, folded rc_def taken_def, unfolded x prod.case]
  note ok = locked_step_ok [OF x]
  have kept: "\<not> removes P sid (Locked (sr_id rc) (ra_world a) taken released)" if "\<forall>p. x \<noteq> Inr (Removed p)" for sid
    using that reap_session_state_cases [OF x] by (auto simp: removable_def left_behind_def split: option.splits if_splits)
  consider "reap_verdict (ra_scan a) rc = None" | e where "reap_verdict (ra_scan a) rc \<noteq> None" "x = Inl e"
    | p where "reap_verdict (ra_scan a) rc \<noteq> None" "x = Inr (Removed p)"
    | "reap_verdict (ra_scan a) rc \<noteq> None" "x = Inr Retained"
    | "reap_verdict (ra_scan a) rc \<noteq> None" "x = Inr Vanished"
    by (metis reap_result.exhaust sum.exhaust)
  then show ?case
  proof cases
    case 1
    with unf Cons.IH show ?thesis by fastforce
  next
    case 2
    with unf ok kept show ?thesis by auto
  next
    case 3
    from locked_step_removes [OF x [unfolded 3]]
    have rem: "removes P sid (Locked (sr_id rc) (ra_world a) taken released) \<longleftrightarrow> sid = sr_id rc" for sid
      by auto
    show ?thesis
      using unf 3 ok rem by (auto dest!: Cons.IH simp del: removes.simps(1) own_step_ok.simps(1)
          intro: warned_first_any split: prod.splits)
  next
    case 4
    then show ?thesis
      using unf ok kept by (auto dest!: Cons.IH simp del: removes.simps(1) own_step_ok.simps(1)
          intro: warned_first_any split: prod.splits)
  next
    case 5
    then show ?thesis
      using unf ok kept by (auto dest!: Cons.IH simp del: removes.simps(1) own_step_ok.simps(1)
          intro: warned_first_any split: prod.splits)
  qed
qed

text \<open>
  C19: a sweep destroys only what nothing depends on, whatever other users of the registry do
  between its scan, its waits and each of its locked steps. The registry at the end comes from
  the registry at the scan by changes of others and by the sweep's own steps, and an own step
  changes nothing but the directory of one session: either not at all, or it is removed (when
  the removal fails half way, at most its record is), and then the record, re-read while the lock
  is held, was reapable, was not marked as a retained stop and was not waiting for a worker that
  holds its lock. A warning is asked for before each locked step, and the run reports exactly the
  sessions it removed.
\<close>

theorem sweep_removes_only_dead:
  assumes "reap_sweep wait P ans reg = (res, reg', es)"
  shows "linked reg es reg' \<and> list_all (own_step_ok P) es \<and> warned_first [] es \<and>
     (\<forall>po. res = Inr po \<longrightarrow> (\<forall>sid. sid \<in> set (po_removed po) \<longleftrightarrow> list_ex (removes P sid) es))"
proof (cases "list_records P reg")
  case (Inl e)
  with assms show ?thesis by (auto simp: reap_sweep_def)
next
  case (Inr rs)
  with assms have "reap_loop wait P ans 0 rs \<lparr>po_removed = [], po_removed_without_proof = [], po_retained_count = 0\<rparr> reg =
      (res, reg', es)" by (simp add: reap_sweep_def)
  from reap_loop_steps [OF this] show ?thesis by auto
qed

text \<open>
  The archive transaction never loses a session. Whichever of its renames and syncs fail,
  the durable state is afterwards in exactly one of the registry and the archive: in the
  archive on success, back in the registry after any failure whose restore did not fail too.
\<close>

theorem archive_never_loses:
  assumes "archive_superseded_session W sid reg = (res, reg')" and "dir_of sid (rg_entries reg) = Some d"
    and "map_of (rg_retired reg) sid = None"
  shows "(res = Inr () \<longrightarrow> dir_of sid (rg_entries reg') = None \<and> map_of (rg_retired reg') sid = Some d) \<and>
     (res \<noteq> Inr () \<and> res \<noteq> Inl RestoreFailed \<longrightarrow>
        dir_of sid (rg_entries reg') = Some d \<and> map_of (rg_retired reg') sid = None) \<and>
     (dir_of sid (rg_entries reg') = Some d \<and> map_of (rg_retired reg') sid = None \<or>
      dir_of sid (rg_entries reg') = None \<and> map_of (rg_retired reg') sid = Some d)"
proof -
  have n: "sid \<notin> fst ` set (rg_retired reg)" using assms(3) by (simp add: map_of_eq_None_iff)
  have f: "map_of (filter (\<lambda>(i, _). i \<noteq> sid) xs) sid = None" for xs :: "(uuid \<times> dir_state) list"
    by (auto simp: map_of_eq_None_iff)
  show ?thesis
    using assms n f
    by (auto simp: archive_superseded_session_def restore_superseded_session_def Let_def
        split: if_splits)
qed

section \<open>Witnesses\<close>

definition sample_paths :: reg_paths where
  "sample_paths = \<lparr>p_socket = (\<lambda>_. ''/s''), p_history = (\<lambda>_. ''/h'')\<rparr>"

definition sample_reg_world :: reg_world where
  "sample_reg_world = \<lparr>w_machine = sample_machine, w_lock = (\<lambda>_. LockHeld), w_rename_ok = True, w_sync_ok = False,
     w_restore_ok = True, w_remove_ok = True, w_record_left = True, w_remove_sync_ok = True, w_runtime_ok = True,
     w_tombstone_ok = True, w_registry_free = True\<rparr>"

text \<open>A live session, one whose worker is gone, and one that is just coming up.\<close>

definition dead_record :: session_record where
  "dead_record = sample_record\<lparr>sr_id := 6, sr_worker_pid := Some 43\<rparr>"

definition starting_record :: session_record where
  "starting_record = sample_record\<lparr>sr_id := 7, sr_tag := ''next'', sr_phase := Starting, sr_worker_pid := None\<rparr>"

definition sample_registry :: registry where
  "sample_registry = \<lparr>rg_entries = [SessionDir 5 (Record sample_record), SessionDir 6 (Record dead_record),
       SessionDir 7 (Record starting_record), SessionDir 8 NoRecord],
     rg_retired = [], rg_runtime = [5, 6, 7], rg_stops = [], rg_tombstones = []\<rparr>"

lemma host_proves_absence: "kill_esrch_proves_absence (m_os sample_machine)"
  by (simp add: kill_esrch_proves_absence_def initial_pid_namespace_from_status_def
      text_lines_def strip_cr_def starts_with_def split_whitespace_def is_ws_def Let_def sample_machine_def sample_os_def)

lemma sample_verdicts:
  "reap_verdict sample_machine sample_record = None"
  "reap_verdict sample_machine dead_record = Some NoRemainingHandle"
  "reap_verdict sample_machine starting_record = Some NoRemainingHandle"
proof -
  have "worker_alive sample_machine sample_record"
    by (rule same_worker_alive [of _ 42])
      (simp_all add: sample_record_def sample_machine_def runs_def same_worker_def sample_probes)
  then show "reap_verdict sample_machine sample_record = None" by (simp add: reap_verdict_def)
  have "\<not> process_alive (m_os sample_machine) 43"
    by (simp add: process_alive_def sample_machine_def sample_os_def ESRCH_def EPERM_def)
  then show "reap_verdict sample_machine dead_record = Some NoRemainingHandle"
    using host_proves_absence
    by (simp add: reap_verdict_def worker_alive_def workload_leader_alive_def dead_record_def sample_record_def
        containment_reap_verdict_def containment_reap_verdict_with_def containment_proven_empty_def)
  show "reap_verdict sample_machine starting_record = Some NoRemainingHandle"
    by (simp add: reap_verdict_def worker_alive_def workload_leader_alive_def starting_record_def sample_record_def
        containment_reap_verdict_def containment_reap_verdict_with_def containment_proven_empty_def)
qed

lemma sample_checks:
  "read_dir_state sample_paths 5 (Record sample_record) = Inr sample_record"
  "read_dir_state sample_paths 6 (Record dead_record) = Inr dead_record"
  "read_dir_state sample_paths 7 (Record starting_record) = Inr starting_record"
  by (simp_all add: check_session_record_def sample_paths_def sample_record_def dead_record_def starting_record_def)

lemma sample_list: "list_records sample_paths sample_registry = Inr [sample_record, dead_record, starting_record]"
  by (simp add: list_records_def sample_registry_def sample_checks del: read_dir_state.simps(3))
    (simp add: sort_key_def sample_record_def dead_record_def starting_record_def)

text \<open>
  A run that waits. At the scan no process is seen at all, so all three sessions look reapable;
  when the lock is taken the worker of session 5 answers and the one of session 7 holds its lock.
  The dead session goes, the two others stay.
\<close>

definition blind_machine :: machine where
  "blind_machine = sample_machine\<lparr>m_os := sample_os\<lparr>os_kill0 := (\<lambda>_. Some ESRCH)\<rparr>\<rparr>"

definition sample_answer :: reap_answer where
  "sample_answer = \<lparr>ra_before = blind_machine, ra_polls = [], ra_scan = blind_machine, ra_others = id,
     ra_world = sample_reg_world, ra_later = id\<rparr>"

definition swept_registry :: registry where
  "swept_registry = sample_registry\<lparr>
     rg_entries := [SessionDir 5 (Record sample_record), SessionDir 7 (Record starting_record), SessionDir 8 NoRecord],
     rg_runtime := [5, 7], rg_tombstones := [6]\<rparr>"

lemma blind_verdicts:
  "\<not> worker_alive blind_machine sample_record" "\<not> worker_alive blind_machine dead_record"
  "\<not> worker_alive blind_machine starting_record"
  "reap_verdict blind_machine sample_record \<noteq> None" "reap_verdict blind_machine dead_record \<noteq> None"
  "reap_verdict blind_machine starting_record \<noteq> None"
proof -
  have "kill_esrch_proves_absence (m_os blind_machine)"
    using host_proves_absence by (simp add: blind_machine_def sample_machine_def kill_esrch_proves_absence_def)
  moreover have "\<not> process_alive (m_os blind_machine) pid" for pid
    by (simp add: process_alive_def blind_machine_def ESRCH_def EPERM_def)
  ultimately show dead: "\<not> worker_alive blind_machine sample_record" "\<not> worker_alive blind_machine dead_record"
      "\<not> worker_alive blind_machine starting_record"
    by (auto simp: worker_alive_def split: option.splits)
  then show "reap_verdict blind_machine sample_record \<noteq> None" "reap_verdict blind_machine dead_record \<noteq> None"
      "reap_verdict blind_machine starting_record \<noteq> None"
    by (simp_all add: reap_verdict_def workload_leader_alive_def dead_record_def sample_record_def starting_record_def
        containment_reap_verdict_def containment_reap_verdict_with_def containment_proven_empty_def)
qed

lemma sample_locked:
  "reap_session_state sample_reg_world sample_paths 5 sample_registry = (Inr Retained, sample_registry)"
  "reap_session_state sample_reg_world sample_paths 6 sample_registry =
     (Inr (Removed False), swept_registry\<lparr>rg_tombstones := []\<rparr>)"
  "reap_session_state sample_reg_world sample_paths 7 swept_registry = (Inr Retained, swept_registry)"
proof -
  have "sr_id dead_record = 6" "sr_id starting_record = 7" "worker_phase_active starting_record"
      "sr_worker_pid starting_record = None" "sr_worker_pid dead_record = Some 43"
    by (simp_all add: dead_record_def starting_record_def sample_record_def worker_phase_active_def)
  note facts = this sample_verdicts
  show "reap_session_state sample_reg_world sample_paths 5 sample_registry = (Inr Retained, sample_registry)"
    "reap_session_state sample_reg_world sample_paths 6 sample_registry =
       (Inr (Removed False), swept_registry\<lparr>rg_tombstones := []\<rparr>)"
    "reap_session_state sample_reg_world sample_paths 7 swept_registry = (Inr Retained, swept_registry)"
    by (simp_all add: facts reap_session_state_def read_session_record_def swept_registry_def
        sample_registry_def sample_checks fence_or_refuse_def fence_pre_pid_worker_def sample_reg_world_def
        remove_state_def remove_runtime_def drop_entry_def del: read_dir_state.simps(3))
qed

lemma sample_sweep:
  "\<exists>es. reap_sweep True sample_paths (\<lambda>_. sample_answer) sample_registry =
     (Inr \<lparr>po_removed = [6], po_removed_without_proof = [6], po_retained_count = 2\<rparr>, swept_registry, es)"
proof -
  have ids: "sr_id sample_record = 5" "sr_id dead_record = 6" "sr_id starting_record = 7"
    by (simp_all add: dead_record_def starting_record_def sample_record_def)
  have bury: "write_finished_tombstone sample_reg_world 6 (swept_registry\<lparr>rg_tombstones := []\<rparr>) = swept_registry"
    by (simp add: write_finished_tombstone_def swept_registry_def sample_registry_def sample_reg_world_def)
  have ans: "ra_before sample_answer = blind_machine" "ra_scan sample_answer = blind_machine"
      "ra_others sample_answer = id" "ra_world sample_answer = sample_reg_world" "ra_later sample_answer = id"
    by (simp_all add: sample_answer_def)
  show ?thesis
    unfolding reap_sweep_def sample_list sum.case
    by (simp add: blind_verdicts ids bury ans sample_locked settle_terminating_record_def)
qed

theorem sweep_removes_only_dead_witness:
  "\<exists>es. linked sample_registry es swept_registry \<and> list_ex (removes sample_paths 6) es"
proof -
  obtain es where es: "reap_sweep True sample_paths (\<lambda>_. sample_answer) sample_registry =
     (Inr \<lparr>po_removed = [6], po_removed_without_proof = [6], po_retained_count = 2\<rparr>, swept_registry, es)"
    using sample_sweep by blast
  from sweep_removes_only_dead [OF es] show ?thesis by auto
qed

text \<open>A failed sync is rolled back.\<close>

theorem archive_never_loses_witness:
  "dir_of 6 (rg_entries (snd (archive_superseded_session sample_reg_world 6 sample_registry))) = Some (Record dead_record)"
  using archive_never_loses [of sample_reg_world 6 sample_registry "Inl SyncFailed" _ "Record dead_record"]
  by (simp add: archive_superseded_session_def restore_superseded_session_def sample_registry_def sample_reg_world_def drop_entry_def)

end
