(* ===== verification/Attach_Writer.thy ===== *)
theory Attach_Writer
  imports Output_Hub "HOL-Library.Sublist"
begin

text \<open>
  The output half of \<open>src/worker/attach.rs\<close>: \<open>FrameTransfer\<close>, a frame that resumes where the
  socket left off, \<open>StallGuard\<close>, which gives up on a peer that drains nothing, and
  \<open>pump_output\<close>, which relays the hub's events as frames. A socket is the scripted writer
  of the protocol with the readings of its send queue.
\<close>

section \<open>State\<close>

definition ATTACH_STALL_TICKS :: nat where [size_consts]: "ATTACH_STALL_TICKS = 12"

record socket =
  sk_writer :: writer
  sk_outq :: "nat option list"
  sk_shut :: bool

text \<open>\<open>send_queue_bytes\<close>: the next reading; the kernel refuses once none is scripted.\<close>

definition send_queue_bytes :: "socket \<Rightarrow> nat option \<times> socket" where
  "send_queue_bytes s =
     (case sk_outq s of [] \<Rightarrow> (None, s) | q # qs \<Rightarrow> (q, s\<lparr>sk_outq := qs\<rparr>))"

record frame_transfer =
  ft_header :: bytes
  ft_payload :: bytes
  ft_sent :: nat

definition frame_transfer_new :: "frame_kind \<Rightarrow> bytes \<Rightarrow> wire_error + frame_transfer" where
  "frame_transfer_new k payload =
     (if MAX_FRAME_BYTES < length payload then Inl (FrameTooLarge (length payload))
      else Inr \<lparr>ft_header = frame_header k (length payload), ft_payload = payload, ft_sent = 0\<rparr>)"

record stall_guard =
  sg_ticks :: nat
  since_progress :: nat
  last_outq :: "nat option"

definition stall_guard_new :: "nat \<Rightarrow> stall_guard" where
  "stall_guard_new ticks = \<lparr>sg_ticks = ticks, since_progress = 0, last_outq = None\<rparr>"

section \<open>One frame\<close>

text \<open>The slice the next \<open>write\<close> call is given.\<close>

definition ft_rest :: "frame_transfer \<Rightarrow> bytes" where
  "ft_rest ft =
     (if ft_sent ft < length (ft_header ft) then drop (ft_sent ft) (ft_header ft)
      else drop (ft_sent ft - length (ft_header ft)) (ft_payload ft))"

definition ft_bytes :: "frame_transfer \<Rightarrow> bytes" where
  "ft_bytes ft = ft_header ft @ ft_payload ft"

function pump :: "frame_transfer \<Rightarrow> writer \<Rightarrow> (wire_error + bool) \<times> frame_transfer \<times> writer" where
  "pump ft w =
     (if ft_sent ft < length (ft_header ft) + length (ft_payload ft) then
        (case wr_write (ft_rest ft) w of
           (Inr n, w') \<Rightarrow>
             (if n = 0 then (Inl WriteZero, ft, w') else pump (ft\<lparr>ft_sent := ft_sent ft + n\<rparr>) w')
         | (Inl e, w') \<Rightarrow>
             (case e of
                WrInterrupted \<Rightarrow> pump ft w'
              | WrWouldBlock \<Rightarrow> (Inr False, ft, w')
              | _ \<Rightarrow> (Inl WriteFailed, ft, w')))
      else (Inr True, ft, w))"
  by pat_completeness auto
termination
proof (relation "measure (\<lambda>(ft, w). (length (ft_header ft) + length (ft_payload ft) - ft_sent ft) + length (wr_script w))",
    goal_cases)
  case 1
  show ?case by simp
next
  case (2 ft w x w' e)
  then have "wr_write (ft_rest ft) w = (Inl e, w')" by simp
  from wr_write_Inl [OF this] show ?case by simp
next
  case (3 ft w x w' n)
  then have "wr_write (ft_rest ft) w = (Inr n, w')" by simp
  from wr_write_Inr [OF this] have "length (wr_script w') \<le> length (wr_script w)" by simp
  with 3 show ?case by auto
qed

declare pump.simps [simp del]

definition tick :: "stall_guard \<Rightarrow> nat option \<Rightarrow> bool \<times> stall_guard" where
  "tick g outq =
     (let n = (case (last_outq g, outq) of
           (Some previous, Some current) \<Rightarrow> if current < previous then 0 else since_progress g + 1
         | _ \<Rightarrow> since_progress g + 1)
      in (sg_ticks g \<le> n, g\<lparr>since_progress := n, last_outq := outq\<rparr>))"

lemma ft_rest_prefix:
  assumes "n \<le> length (ft_rest ft)" "ft_sent ft < length (ft_header ft) + length (ft_payload ft)"
  shows "take n (ft_rest ft) = take n (drop (ft_sent ft) (ft_bytes ft))"
    and "ft_sent ft + n \<le> length (ft_bytes ft)"
  using assms by (auto simp: ft_rest_def ft_bytes_def split: if_splits)

lemma take_drop_add: "take a (drop i xs) @ take b (drop (i + a) xs) = take (a + b) (drop i xs)"
  by (metis add.commute drop_drop take_add)

text \<open>What one call puts on the wire is the next bytes of the frame, and nothing else.\<close>

definition ft_moved :: "frame_transfer \<Rightarrow> frame_transfer \<Rightarrow> writer \<Rightarrow> writer \<Rightarrow> bool" where
  "ft_moved ft ft' w w' \<longleftrightarrow> ft_header ft' = ft_header ft \<and> ft_payload ft' = ft_payload ft \<and>
     ft_sent ft \<le> ft_sent ft' \<and> ft_sent ft' \<le> length (ft_bytes ft) \<and>
     wr_out w' = wr_out w @ take (ft_sent ft' - ft_sent ft) (drop (ft_sent ft) (ft_bytes ft)) \<and>
     length (wr_script w') \<le> length (wr_script w)"

lemma ft_moved_trans:
  assumes "ft_moved ft ft' w w'" "ft_moved ft' ft'' w' w''"
  shows "ft_moved ft ft'' w w''"
proof -
  have "ft_bytes ft' = ft_bytes ft" using assms(1) by (simp add: ft_moved_def ft_bytes_def)
  moreover have "take (ft_sent ft' - ft_sent ft) (drop (ft_sent ft) (ft_bytes ft)) @
      take (ft_sent ft'' - ft_sent ft') (drop (ft_sent ft') (ft_bytes ft)) =
      take (ft_sent ft'' - ft_sent ft) (drop (ft_sent ft) (ft_bytes ft))"
    using take_drop_add [of "ft_sent ft' - ft_sent ft" "ft_sent ft" "ft_bytes ft" "ft_sent ft'' - ft_sent ft'"] assms
    by (simp add: ft_moved_def)
  ultimately show ?thesis using assms by (simp add: ft_moved_def)
qed

lemma pump_moves:
  "ft_sent ft \<le> length (ft_bytes ft) \<Longrightarrow> pump ft w = (r, ft', w') \<Longrightarrow>
     ft_moved ft ft' w w' \<and> (r = Inr True \<longrightarrow> ft_sent ft' = length (ft_bytes ft)) \<and>
     (r = Inr False \<longrightarrow> length (wr_script w') < length (wr_script w))"
proof (induction ft w arbitrary: r ft' w' rule: pump.induct)
  case (1 ft w)
  show ?case
  proof (cases "ft_sent ft < length (ft_header ft) + length (ft_payload ft)")
    case False
    with "1.prems" show ?thesis by (auto simp: pump.simps ft_moved_def ft_bytes_def)
  next
    case more: True
    obtain x v where xv: "wr_write (ft_rest ft) w = (x, v)" by force
    show ?thesis
    proof (cases x)
      case (Inl e)
      with xv have e: "wr_write (ft_rest ft) w = (Inl e, v)" by simp
      note out = wr_write_Inl [OF e]
      then have "ft_moved ft ft w v" using "1.prems"(1) by (simp add: ft_moved_def)
      with out show ?thesis
        using "1.prems" more e "1.IH"(1) [OF more e [symmetric] refl]
        by (cases e) (auto simp: pump.simps [of ft w] intro: ft_moved_trans)
    next
      case (Inr n)
      with xv have n: "wr_write (ft_rest ft) w = (Inr n, v)" by simp
      note out = wr_write_Inr [OF n]
      let ?ft = "ft\<lparr>ft_sent := ft_sent ft + n\<rparr>"
      have pre: "take n (ft_rest ft) = take n (drop (ft_sent ft) (ft_bytes ft))"
          "ft_sent ft + n \<le> length (ft_bytes ft)"
        using ft_rest_prefix [OF _ more, of n] out by blast+
      then have m: "ft_moved ft ?ft w v" using out by (simp add: ft_moved_def)
      show ?thesis
      proof (cases "n = 0")
        case True
        then show ?thesis using "1.prems" more n m by (auto simp: pump.simps [of ft w])
      next
        case False
        have "ft_bytes ?ft = ft_bytes ft" by (simp add: ft_bytes_def)
        with "1.IH"(2) [OF more n [symmetric] refl False, of r ft' w'] "1.prems" more n False pre(2)
        have "ft_moved ?ft ft' v w' \<and> (r = Inr True \<longrightarrow> ft_sent ft' = length (ft_bytes ft)) \<and>
            (r = Inr False \<longrightarrow> length (wr_script w') < length (wr_script v))"
          by (simp add: pump.simps [of ft w])
        with m out show ?thesis by (auto intro: ft_moved_trans)
      qed
    qed
  qed
qed


lemma pump_script:
  "pump ft w = (r, ft', w') \<Longrightarrow> length (wr_script w') \<le> length (wr_script w) \<and>
     (r = Inr False \<longrightarrow> length (wr_script w') < length (wr_script w))"
proof (induction ft w arbitrary: r ft' w' rule: pump.induct)
  case (1 ft w)
  obtain x v where xv: "wr_write (ft_rest ft) w = (x, v)" by force
  show ?case
  proof (cases "ft_sent ft < length (ft_header ft) + length (ft_payload ft)")
    case False
    with "1.prems" show ?thesis by (auto simp: pump.simps)
  next
    case more: True
    show ?thesis
    proof (cases x)
      case (Inl e)
      with xv have e: "wr_write (ft_rest ft) w = (Inl e, v)" by simp
      from wr_write_Inl [OF e] show ?thesis
        using "1.prems" more e "1.IH"(1) [OF more e [symmetric] refl]
        by (cases e) (auto simp: pump.simps [of ft w] dest: less_trans le_less_trans)
    next
      case (Inr n)
      with xv have n: "wr_write (ft_rest ft) w = (Inr n, v)" by simp
      from wr_write_Inr [OF n] show ?thesis
        using "1.prems" more n "1.IH"(2) [OF more n [symmetric] refl]
        by (cases "n = 0") (auto simp: pump.simps [of ft w] dest: less_le_trans)
    qed
  qed
qed

section \<open>The stall guard\<close>

function stall_write ::
    "stall_guard \<Rightarrow> frame_transfer \<Rightarrow> socket \<Rightarrow> (wire_error + bool) \<times> stall_guard \<times> frame_transfer \<times> socket" where
  "stall_write g ft s =
     (case pump ft (sk_writer s) of
        (Inl e, ft', w') \<Rightarrow> (Inl e, g, ft', s\<lparr>sk_writer := w'\<rparr>)
      | (Inr done, ft', w') \<Rightarrow>
          (if done then (Inr True, g\<lparr>since_progress := 0\<rparr>, ft', s\<lparr>sk_writer := w'\<rparr>)
           else case send_queue_bytes (s\<lparr>sk_writer := w'\<rparr>) of
             (outq, s') \<Rightarrow>
               (case tick g outq of
                  (reap, g') \<Rightarrow> if reap then (Inr False, g', ft', s') else stall_write g' ft' s')))"
  by pat_completeness auto
termination
  by (relation "measure (\<lambda>(g, ft, s). length (wr_script (sk_writer s)))")
    (auto simp: send_queue_bytes_def split: list.splits dest!: pump_script [OF sym])

declare stall_write.simps [simp del]

lemma ft_moved_bytes: "ft_moved ft ft' w w' \<Longrightarrow> ft_bytes ft' = ft_bytes ft"
  by (simp add: ft_moved_def ft_bytes_def)

lemma stall_write_moves:
  "ft_sent ft \<le> length (ft_bytes ft) \<Longrightarrow> stall_write g ft s = (r, g', ft', s') \<Longrightarrow>
     ft_moved ft ft' (sk_writer s) (sk_writer s') \<and> sk_shut s' = sk_shut s \<and>
     (r = Inr True \<longrightarrow> ft_sent ft' = length (ft_bytes ft))"
proof (induction g ft s arbitrary: r g' ft' s' rule: stall_write.induct)
  case (1 g ft s)
  obtain x f v where p: "pump ft (sk_writer s) = (x, f, v)" by (cases "pump ft (sk_writer s)") auto
  note mv = pump_moves [OF "1.prems"(1) p]
  show ?case
  proof (cases "x = Inr False")
    case False
    with "1.prems"(2) p mv show ?thesis by (cases x) (auto simp: stall_write.simps [of g ft s])
  next
    case blocked: True
    obtain outq s1 where q: "send_queue_bytes (s\<lparr>sk_writer := v\<rparr>) = (outq, s1)" by force
    obtain reap g1 where t: "tick g outq = (reap, g1)" by force
    have s1: "sk_writer s1 = v" "sk_shut s1 = sk_shut s"
      using q by (auto simp: send_queue_bytes_def split: list.splits)
    show ?thesis
    proof (cases reap)
      case True
      with "1.prems"(2) p blocked q t mv s1 show ?thesis by (auto simp: stall_write.simps [of g ft s])
    next
      case False
      have le: "ft_sent f \<le> length (ft_bytes f)" using mv by (auto simp: ft_moved_def ft_bytes_def)
      have "stall_write g1 f s1 = (r, g', ft', s')"
        using "1.prems"(2) p blocked q t False by (simp add: stall_write.simps [of g ft s])
      have nf: "\<not> False" by simp
      note ih = "1.IH" [OF p [symmetric] blocked refl nf q [symmetric] t [symmetric] False le \<open>stall_write g1 f s1 = _\<close>]
      then show ?thesis using mv s1 ft_moved_bytes ft_moved_trans by metis
    qed
  qed
qed

section \<open>Relaying the hub's events\<close>

text \<open>\<open>serde_json::to_vec\<close> on the server events; an encoder may refuse.\<close>

record ('r, 'x) encoders =
  enc_layout :: "layout_change \<Rightarrow> bytes option"
  enc_record :: "'r \<Rightarrow> bytes option"
  enc_exit :: "'x \<Rightarrow> bytes option"
  enc_error :: "string \<Rightarrow> bytes option"

datatype pump_outcome = Continue | PeerGone | Terminal

definition into_outcome :: "bool \<Rightarrow> pump_outcome" where
  "into_outcome ok = (if ok then Continue else PeerGone)"

definition into_outcome_terminal :: "bool \<Rightarrow> pump_outcome" where
  "into_outcome_terminal ok = Terminal"

definition relay_frame ::
    "frame_kind \<Rightarrow> bytes option \<Rightarrow> stall_guard \<Rightarrow> socket \<Rightarrow> (wire_error + bool) \<times> stall_guard \<times> socket" where
  "relay_frame k payload g s =
     (case payload of
        None \<Rightarrow> (Inl JsonInvalid, g, s)
      | Some p \<Rightarrow>
          (case frame_transfer_new k p of
             Inl e \<Rightarrow> (Inl e, g, s)
           | Inr transfer \<Rightarrow> (case stall_write g transfer s of (r, g', _, s') \<Rightarrow> (r, g', s'))))"

definition pump_event ::
    "('r, 'x) encoders \<Rightarrow> bool \<Rightarrow> bool \<Rightarrow> ('r, 'x) output_event \<Rightarrow> stall_guard \<Rightarrow> socket \<Rightarrow>
       (wire_error + pump_outcome) \<times> stall_guard \<times> socket" where
  "pump_event E screen record e g s =
     (case e of
        OutData data \<Rightarrow> map_prod (map_sum id into_outcome) id (relay_frame Data (Some data) g s)
      | OutLayout change \<Rightarrow>
          (if \<not> screen then (Inr Continue, g, s)
           else map_prod (map_sum id into_outcome) id (relay_frame Json (enc_layout E change) g s))
      | RecordUpdated rec \<Rightarrow>
          (if \<not> record then (Inr Continue, g, s)
           else map_prod (map_sum id into_outcome) id (relay_frame Json (enc_record E rec) g s))
      | OutExit x \<Rightarrow>
          map_prod (map_sum id into_outcome_terminal) id (relay_frame Json (enc_exit E x) g s)
      | OutError m \<Rightarrow> map_prod (map_sum id into_outcome) id (relay_frame Json (enc_error E m) g s))"

text \<open>
  The loop over the events \<open>rx.recv\<close> gives; the list ends where the receiver reports that it
  is disconnected. The first component tells whether the loop ran to that point.
\<close>

fun pump_loop ::
    "('r, 'x) encoders \<Rightarrow> bool \<Rightarrow> bool \<Rightarrow> ('r, 'x) output_event list \<Rightarrow> stall_guard \<Rightarrow> socket \<Rightarrow>
       bool \<times> stall_guard \<times> socket" where
  "pump_loop E screen record [] g s = (True, g, s)"
| "pump_loop E screen record (e # es) g s =
     (case pump_event E screen record e g s of
        (Inr Continue, g', s') \<Rightarrow> pump_loop E screen record es g' s'
      | (_, g', s') \<Rightarrow> (False, g', s'))"

definition pump_output ::
    "('r, 'x) encoders \<Rightarrow> bool \<Rightarrow> bool \<Rightarrow> ('r, 'x) output_event list \<Rightarrow> nat \<Rightarrow> socket \<Rightarrow>
       ('p, 'r, 'x) hub \<Rightarrow> bool \<times> socket \<times> ('p, 'r, 'x) hub" where
  "pump_output E screen record es subscription s h =
     (case pump_loop E screen record es (stall_guard_new ATTACH_STALL_TICKS) s of
        (drained, _, s') \<Rightarrow> (drained, s'\<lparr>sk_shut := True\<rparr>, unsubscribe subscription h))"

section \<open>What reaches the wire\<close>

text \<open>The frame a client is owed for an event: none for an event it did not ask for.\<close>

definition frames_of :: "frame_kind \<Rightarrow> bytes option \<Rightarrow> frame list" where
  "frames_of k payload = map (\<lambda>p. \<lparr>f_kind = k, f_payload = p\<rparr>) (opt_list payload)"

definition owed_frame :: "('r, 'x) encoders \<Rightarrow> bool \<Rightarrow> bool \<Rightarrow> ('r, 'x) output_event \<Rightarrow> frame list" where
  "owed_frame E screen record e =
     (case e of
        OutData data \<Rightarrow> frames_of Data (Some data)
      | OutLayout change \<Rightarrow> (if screen then frames_of Json (enc_layout E change) else [])
      | RecordUpdated rec \<Rightarrow> (if record then frames_of Json (enc_record E rec) else [])
      | OutExit x \<Rightarrow> frames_of Json (enc_exit E x)
      | OutError m \<Rightarrow> frames_of Json (enc_error E m))"

definition frame_bytes :: "frame \<Rightarrow> bytes" where
  "frame_bytes f = encode_frame (f_kind f) (f_payload f)"

definition owed_frames :: "('r, 'x) encoders \<Rightarrow> bool \<Rightarrow> bool \<Rightarrow> ('r, 'x) output_event list \<Rightarrow> frame list" where
  "owed_frames E screen record es = concat (map (owed_frame E screen record) es)"

definition wire :: "frame list \<Rightarrow> bytes" where
  "wire fs = concat (map frame_bytes fs)"

definition sk_out :: "socket \<Rightarrow> bytes" where
  "sk_out s = wr_out (sk_writer s)"

lemma relay_frame_wire:
  assumes "relay_frame k (Some p) g s = (r, g', s')"
  shows "\<exists>q. sk_out s' = sk_out s @ q \<and> prefix q (encode_frame k p) \<and>
     (r = Inr True \<longrightarrow> q = encode_frame k p \<and> length p \<le> MAX_FRAME_BYTES)"
proof (cases "frame_transfer_new k p")
  case (Inl e)
  with assms show ?thesis by (auto simp: relay_frame_def)
next
  case (Inr ft)
  then have ft: "ft_bytes ft = encode_frame k p" "ft_sent ft = 0" "length p \<le> MAX_FRAME_BYTES"
    by (auto simp: frame_transfer_new_def ft_bytes_def encode_frame_def split: if_splits)
  obtain ft' where w: "stall_write g ft s = (r, g', ft', s')"
    using assms Inr by (auto simp: relay_frame_def split: prod.splits)
  have le: "ft_sent ft \<le> length (ft_bytes ft)" using ft by simp
  from stall_write_moves [OF le w] ft show ?thesis
    by (auto simp: ft_moved_def sk_out_def take_is_prefix)
qed

text \<open>
  \<open>sent s s' r fs\<close>: between two states of the socket a prefix of the encoding of \<open>fs\<close> went
  out, and all of it, within the frame bound, when the outcome was \<open>Continue\<close>.
\<close>

definition sent :: "socket \<Rightarrow> socket \<Rightarrow> bool \<Rightarrow> frame list \<Rightarrow> bool" where
  "sent s s' complete fs \<longleftrightarrow>
     (\<exists>q. sk_out s' = sk_out s @ q \<and> prefix q (wire fs) \<and>
        (complete \<longrightarrow> q = wire fs \<and> list_all (\<lambda>f. length (f_payload f) \<le> MAX_FRAME_BYTES) fs))"

lemma sent_Nil: "sent s s complete []"
  by (simp add: sent_def wire_def)

lemma sent_append: "sent s s' True fs \<Longrightarrow> sent s' s'' c gs \<Longrightarrow> sent s s'' c (fs @ gs)"
  by (auto simp: sent_def wire_def)

lemma sent_partial: "sent s s' c fs \<Longrightarrow> sent s s' False (fs @ gs)"
  by (auto simp: sent_def wire_def)

lemma relay_outcome_sent:
  assumes "map_prod (map_sum id out) id (relay_frame k payload g s) = (r, g', s')"
    and "out = into_outcome \<or> out = into_outcome_terminal"
  shows "sent s s' (r = Inr Continue) (frames_of k payload)"
proof (cases payload)
  case None
  with assms show ?thesis by (auto simp: relay_frame_def sent_def wire_def)
next
  case (Some p)
  with assms obtain r0 where r0: "relay_frame k (Some p) g s = (r0, g', s')" "r = map_sum id out r0"
    by (cases "relay_frame k payload g s") auto
  with relay_frame_wire [OF r0(1)] assms(2) Some show ?thesis
    by (cases r0) (auto simp: sent_def frames_of_def wire_def frame_bytes_def into_outcome_def
        into_outcome_terminal_def split: if_splits)
qed

lemma pump_event_sent:
  assumes "pump_event E screen record e g s = (r, g', s')"
  shows "sent s s' (r = Inr Continue) (owed_frame E screen record e)"
  using assms relay_outcome_sent [of into_outcome] relay_outcome_sent [of into_outcome_terminal]
  by (cases e) (fastforce simp: pump_event_def owed_frame_def sent_Nil split: if_splits)+

lemma pump_loop_sent:
  "pump_loop E screen record es g s = (drained, g', s') \<Longrightarrow>
     sent s s' drained (owed_frames E screen record es)"
proof (induction es arbitrary: g s)
  case Nil
  then show ?case by (auto simp: owed_frames_def sent_Nil)
next
  case (Cons e es)
  obtain r g1 s1 where e: "pump_event E screen record e g s = (r, g1, s1)"
    by (cases "pump_event E screen record e g s") auto
  note one = pump_event_sent [OF e]
  have split: "owed_frames E screen record (e # es) =
      owed_frame E screen record e @ owed_frames E screen record es" by (simp add: owed_frames_def)
  show ?case
  proof (cases "r = Inr Continue")
    case True
    with Cons.prems e have "pump_loop E screen record es g1 s1 = (drained, g', s')" by simp
    from sent_append [OF _ Cons.IH [OF this]] one True show ?thesis by (simp add: split)
  next
    case False
    with Cons.prems e have "\<not> drained" "s' = s1"
      by (auto split: sum.splits pump_outcome.splits)
    with sent_partial [OF one] show ?thesis by (simp add: split)
  qed
qed

text \<open>
  C23: the output pump never tears the stream. Whatever partial writes, interruptions and stall
  ticks the socket gives, what it carries is a prefix of the frames owed to the client for the
  events in order, with no byte repeated or skipped, and all of them once the receiver was
  drained; on every way out the subscription is released and the socket shut.
\<close>

theorem attach_wire_exact:
  assumes "pump_output E screen record es sub s h = (drained, s', h')" and "hub_inv h"
  shows "prefix (sk_out s) (sk_out s') \<and>
     prefix (sk_out s') (sk_out s @ wire (owed_frames E screen record es)) \<and>
     (drained \<longrightarrow> sk_out s' = sk_out s @ wire (owed_frames E screen record es)) \<and>
     sk_shut s' \<and> map_of (subscribers h') sub = None"
proof -
  obtain g s1 where l: "pump_loop E screen record es (stall_guard_new ATTACH_STALL_TICKS) s = (drained, g, s1)"
      and s': "s' = s1\<lparr>sk_shut := True\<rparr>" and h': "h' = unsubscribe sub h"
    using assms(1) by (auto simp: pump_output_def split: prod.splits)
  from pump_loop_sent [OF l] obtain q where "sk_out s1 = sk_out s @ q"
      "prefix q (wire (owed_frames E screen record es))"
      "drained \<longrightarrow> q = wire (owed_frames E screen record es)"
    by (auto simp: sent_def)
  moreover have "sk_out s' = sk_out s1" "sk_shut s'" by (simp_all add: s' sk_out_def)
  moreover have "map_of (subscribers h') sub = None"
    using assms(2) by (simp add: h' unsubscribe_def retain_lookup hub_inv_def split: option.split)
  ultimately show ?thesis by simp
qed

text \<open>The client's end: the frames of the stream, read one after the other.\<close>

fun read_frames :: "nat \<Rightarrow> reader \<Rightarrow> frame list \<times> reader" where
  "read_frames 0 r = ([], r)"
| "read_frames (Suc n) r =
     (case read_frame r of
        (Inr (Some f), r') \<Rightarrow> (case read_frames n r' of (fs, r'') \<Rightarrow> (f # fs, r''))
      | (_, r') \<Rightarrow> ([], r'))"

lemma read_frames_wire:
  "rd_live r \<Longrightarrow> list_all (\<lambda>f. length (f_payload f) \<le> MAX_FRAME_BYTES) fs \<Longrightarrow>
     rd_bytes r = wire fs @ rest \<Longrightarrow>
     \<exists>r'. read_frames (length fs) r = (fs, r') \<and> rd_live r' \<and> rd_bytes r' = rest"
proof (induction fs arbitrary: r)
  case Nil
  then show ?case by (simp add: wire_def)
next
  case (Cons f fs)
  then have "rd_bytes r = encode_frame (f_kind f) (f_payload f) @ wire fs @ rest"
    "length (f_payload f) \<le> MAX_FRAME_BYTES" by (simp_all add: wire_def frame_bytes_def)
  from read_encoded [OF Cons.prems(1) this(2,1)] obtain r1
    where "read_frame r = (Inr (Some f), r1)" "rd_live r1" "rd_bytes r1 = wire fs @ rest" by auto
  with Cons.IH [of r1] Cons.prems(2) show ?case by auto
qed

text \<open>
  End to end. A client that reads the bytes of a drained stream, cut and interrupted in any
  way, decodes exactly the frames owed to it, in order, and is left at the end of the stream.
\<close>

theorem attach_client_decodes:
  assumes "pump_output E screen record es sub s h = (True, s', h')" and "sk_out s = []"
    and "rd_live r" and "rd_bytes r = sk_out s'"
  shows "\<exists>r'. read_frames (length (owed_frames E screen record es)) r =
       (owed_frames E screen record es, r') \<and> rd_bytes r' = []"
proof -
  obtain g s1 where l: "pump_loop E screen record es (stall_guard_new ATTACH_STALL_TICKS) s = (True, g, s1)"
      and s': "s' = s1\<lparr>sk_shut := True\<rparr>"
    using assms(1) by (auto simp: pump_output_def split: prod.splits)
  from pump_loop_sent [OF l] assms(2) have "sk_out s' = wire (owed_frames E screen record es)"
      "list_all (\<lambda>f. length (f_payload f) \<le> MAX_FRAME_BYTES) (owed_frames E screen record es)"
    by (auto simp: sent_def s' sk_out_def)
  with read_frames_wire [OF assms(3), of "owed_frames E screen record es" "[]"] assms(4)
  show ?thesis by auto
qed

section \<open>When the guard gives up\<close>

text \<open>One blocked round of the socket: a byte accepted or none, then a timed-out write.\<close>

definition blocked_round :: "bool \<Rightarrow> wr_event list" where
  "blocked_round moved = (if moved then [Accept 1, WrWouldBlock] else [WrWouldBlock])"

fun no_drop :: "nat option \<Rightarrow> nat option list \<Rightarrow> bool" where
  "no_drop prev [] = True"
| "no_drop prev (q # qs) =
     ((case (prev, q) of (Some p, Some c) \<Rightarrow> p \<le> c | _ \<Rightarrow> True) \<and> no_drop q qs)"

lemma pump_blocked_round:
  assumes "wr_script w = blocked_round moved @ rest"
    and "ft_sent ft + (if moved then 1 else 0) < length (ft_bytes ft)"
  shows "\<exists>w'. pump ft w = (Inr False, ft\<lparr>ft_sent := ft_sent ft + (if moved then 1 else 0)\<rparr>, w') \<and>
     wr_script w' = rest \<and>
     wr_out w' = wr_out w @ take (if moved then 1 else 0) (drop (ft_sent ft) (ft_bytes ft))"
proof (cases moved)
  case False
  with assms show ?thesis by (auto simp: pump.simps [of ft w] wr_write.simps blocked_round_def ft_bytes_def)
next
  case True
  let ?ft = "ft\<lparr>ft_sent := Suc (ft_sent ft)\<rparr>" and ?w = "w\<lparr>wr_script := WrWouldBlock # rest,
      wr_out := wr_out w @ take 1 (ft_rest ft)\<rparr>"
  have lt: "ft_sent ft < length (ft_header ft) + length (ft_payload ft)"
    "ft_sent ?ft < length (ft_header ?ft) + length (ft_payload ?ft)"
    using assms True by (auto simp: ft_bytes_def)
  have "1 \<le> length (ft_rest ft)" using lt(1) by (auto simp: ft_rest_def)
  then have w: "wr_write (ft_rest ft) w = (Inr 1, ?w)"
    using assms(1) True by (auto simp: wr_write.simps blocked_round_def min_def)
  have "pump ft w = pump ?ft ?w" using lt(1) w by (simp add: pump.simps [of ft w])
  also have "\<dots> = (Inr False, ?ft, ?w\<lparr>wr_script := rest\<rparr>)"
    using lt(2) by (subst pump.simps) (simp add: wr_write.simps)
  finally show ?thesis
    using True ft_rest_prefix(1) [OF \<open>1 \<le> length (ft_rest ft)\<close> lt(1)] by auto
qed

lemma stall_rounds:
  "bs \<noteq> [] \<Longrightarrow> sg_ticks g = since_progress g + length bs \<Longrightarrow> length qs = length bs \<Longrightarrow>
     no_drop (last_outq g) qs \<Longrightarrow> ft_sent ft + length (filter (\<lambda>b. b) bs) < length (ft_bytes ft) \<Longrightarrow>
     wr_script (sk_writer s) = concat (map blocked_round bs) @ rest \<Longrightarrow> sk_outq s = qs @ os \<Longrightarrow>
     \<exists>g' ft' s'. stall_write g ft s = (Inr False, g', ft', s') \<and>
       wr_script (sk_writer s') = rest \<and>
       sk_out s' = sk_out s @ take (length (filter (\<lambda>b. b) bs)) (drop (ft_sent ft) (ft_bytes ft))"
proof (induction bs arbitrary: g ft s qs)
  case Nil
  then show ?case by simp
next
  case (Cons b bs)
  obtain q qs' where qs: "qs = q # qs'" using Cons.prems(3) by (cases qs) auto
  let ?m = "if b then 1 else 0 :: nat" and ?f = "ft\<lparr>ft_sent := ft_sent ft + (if b then 1 else 0)\<rparr>"
  have "wr_script (sk_writer s) = blocked_round b @ concat (map blocked_round bs) @ rest"
    using Cons.prems(6) by simp
  moreover have "ft_sent ft + ?m < length (ft_bytes ft)" using Cons.prems(5) by (cases b) auto
  ultimately obtain w where w: "pump ft (sk_writer s) = (Inr False, ?f, w)"
      "wr_script w = concat (map blocked_round bs) @ rest"
      "wr_out w = wr_out (sk_writer s) @ take ?m (drop (ft_sent ft) (ft_bytes ft))"
    using pump_blocked_round [of "sk_writer s" b "concat (map blocked_round bs) @ rest" ft] by blast
  let ?s = "s\<lparr>sk_writer := w, sk_outq := qs' @ os\<rparr>"
  let ?g = "g\<lparr>since_progress := since_progress g + 1, last_outq := q\<rparr>"
  have sq: "send_queue_bytes (s\<lparr>sk_writer := w\<rparr>) = (q, ?s)"
    using Cons.prems(7) qs by (simp add: send_queue_bytes_def)
  have t: "tick g q = (sg_ticks g \<le> since_progress g + 1, ?g)"
    using Cons.prems(4) qs by (auto simp: tick_def Let_def split: option.splits)
  have fb: "ft_bytes ?f = ft_bytes ft" by (simp add: ft_bytes_def)
  show ?case
  proof (cases "bs = []")
    case True
    then show ?thesis using w sq t Cons.prems(2) by (auto simp: stall_write.simps [of g ft s] sk_out_def)
  next
    case False
    then have "stall_write g ft s = stall_write ?g ?f ?s"
      using w sq t Cons.prems(2) by (cases bs) (auto simp: stall_write.simps [of g ft s])
    moreover have "\<exists>g' ft' s'. stall_write ?g ?f ?s = (Inr False, g', ft', s') \<and>
       wr_script (sk_writer s') = rest \<and>
       sk_out s' = sk_out ?s @ take (length (filter (\<lambda>b. b) bs)) (drop (ft_sent ?f) (ft_bytes ?f))"
      by (rule Cons.IH [OF False, of ?g qs'])
        (use Cons.prems qs w fb in \<open>auto split: if_splits\<close>)
    ultimately show ?thesis
      using w(3) fb take_drop_add [of ?m "ft_sent ft" "ft_bytes ft" "length (filter (\<lambda>b. b) bs)"]
      by (auto simp: sk_out_def)
  qed
qed

text \<open>
  The guard judges by the send-queue readings alone. A frame that cannot finish within
  \<open>ATTACH_STALL_TICKS\<close> timed-out writes whose queue readings never fall is given up at exactly
  that tick, no matter that the socket accepted bytes between the ticks.
\<close>

theorem stall_guard_judges_readings:
  assumes "length moved = ATTACH_STALL_TICKS" and "length qs = ATTACH_STALL_TICKS"
    and "no_drop None qs" and "length (filter (\<lambda>b. b) moved) < length (ft_bytes ft)" and "ft_sent ft = 0"
    and "wr_script (sk_writer s) = concat (map blocked_round moved) @ rest" and "sk_outq s = qs @ os"
  shows "\<exists>g' ft' s'. stall_write (stall_guard_new ATTACH_STALL_TICKS) ft s = (Inr False, g', ft', s') \<and>
     wr_script (sk_writer s') = rest \<and>
     sk_out s' = sk_out s @ take (length (filter (\<lambda>b. b) moved)) (ft_bytes ft)"
  using stall_rounds [of moved "stall_guard_new ATTACH_STALL_TICKS" qs ft s rest os] assms
  by (force simp: stall_guard_new_def size_consts)

text \<open>
  A peer that drained a byte in every one of the twelve ticks, its queue refilled each time to
  the same level, is reaped: twelve bytes of the frame went out.
\<close>

theorem stall_guard_judges_readings_witness:
  "\<exists>g' ft' s'. stall_write (stall_guard_new ATTACH_STALL_TICKS)
      \<lparr>ft_header = frame_header Data 2, ft_payload = [7, 9], ft_sent = 0\<rparr>
      \<lparr>sk_writer = \<lparr>wr_script = concat (map blocked_round (replicate 12 True)), wr_out = []\<rparr>,
       sk_outq = replicate 12 (Some 4096), sk_shut = False\<rparr> = (Inr False, g', ft', s') \<and>
     wr_script (sk_writer s') = [] \<and> length (sk_out s') = 12"
  using stall_guard_judges_readings [of "replicate 12 True" "replicate 12 (Some 4096)"
      "\<lparr>ft_header = frame_header Data 2, ft_payload = [7, 9], ft_sent = 0\<rparr>"
      "\<lparr>sk_writer = \<lparr>wr_script = concat (map blocked_round (replicate 12 True)), wr_out = []\<rparr>,
        sk_outq = replicate 12 (Some 4096), sk_shut = False\<rparr>" "[]" "[]"]
  by (fastforce simp: size_consts eval_nat_numeral ft_bytes_def sk_out_def)

section \<open>Witnesses\<close>

definition sample_encoders :: "(unit, unit) encoders" where
  "sample_encoders = \<lparr>enc_layout = (\<lambda>_. Some [1]), enc_record = (\<lambda>_. Some [2]), enc_exit = (\<lambda>_. Some [3]),
     enc_error = (\<lambda>_. None)\<rparr>"

text \<open>A socket that takes five bytes, times out once, is interrupted and then takes the rest.\<close>

definition sample_socket :: socket where
  "sample_socket = \<lparr>sk_writer = \<lparr>wr_script = [Accept 5, WrWouldBlock, WrInterrupted], wr_out = []\<rparr>,
     sk_outq = [Some 5], sk_shut = False\<rparr>"

definition sample_events :: "(unit, unit) output_event list" where
  "sample_events = [OutData [7], OutLayout erase_nudge, RecordUpdated ()]"

definition sample_stream :: bytes where
  "sample_stream = [0x41, 0x50, 0x58, 0x31, 2, 0, 0, 0, 0, 0, 0, 1, 7, 0x41, 0x50, 0x58, 0x31, 1, 0, 0, 0, 0, 0, 0, 1, 2]"

lemma sample_pump:
  "pump_output sample_encoders False True sample_events 2 sample_socket busy_hub =
     (True, \<lparr>sk_writer = \<lparr>wr_script = [], wr_out = sample_stream\<rparr>, sk_outq = [], sk_shut = True\<rparr>,
      unsubscribe 2 busy_hub)"
proof -
  have "pump_loop sample_encoders False True sample_events (stall_guard_new ATTACH_STALL_TICKS) sample_socket =
      (True, \<lparr>sg_ticks = 12, since_progress = 0, last_outq = Some 5\<rparr>,
       \<lparr>sk_writer = \<lparr>wr_script = [], wr_out = sample_stream\<rparr>, sk_outq = [], sk_shut = False\<rparr>)"
    by (simp add: sample_encoders_def sample_events_def sample_socket_def sample_stream_def pump_event_def
        relay_frame_def frame_transfer_new_def stall_write.simps pump.simps ft_rest_def wr_write.simps
        send_queue_bytes_def tick_def stall_guard_new_def into_outcome_def frame_header_def frame_magic_def
        be_bytes_4 size_consts)
  then show ?thesis by (simp add: pump_output_def)
qed

theorem attach_wire_exact_witness:
  "prefix sample_stream (wire (owed_frames sample_encoders False True sample_events)) \<and>
   map_of (subscribers (unsubscribe 2 busy_hub)) 2 = None"
  using attach_wire_exact [OF sample_pump busy_hub_inv]
  by (simp add: sk_out_def sample_socket_def)

theorem attach_client_decodes_witness:
  "\<exists>r'. read_frames 2 [Got (take 9 sample_stream), RdInterrupted, Got (drop 9 sample_stream)] =
     ([\<lparr>f_kind = Data, f_payload = [7]\<rparr>, \<lparr>f_kind = Json, f_payload = [2]\<rparr>], r') \<and> rd_bytes r' = []"
  using attach_client_decodes [OF sample_pump, of "[Got (take 9 sample_stream), RdInterrupted, Got (drop 9 sample_stream)]"]
  by (simp add: sk_out_def sample_socket_def sample_stream_def sample_events_def owed_frames_def
      owed_frame_def frames_of_def sample_encoders_def numeral_2_eq_2 del: read_frames.simps)

end
