(* ===== verification/Worker_Runtime.thy ===== *)
theory Worker_Runtime
  imports Attach_Writer Session_Record
begin

text \<open>
  \<open>src/worker/runtime.rs\<close>: the worker's shared state and what connections do to it, with the
  input half of \<open>src/worker/attach.rs\<close> and the PTY reader of \<open>src/worker/spawn.rs\<close>. Each
  operation holds the lock of the state it changes, so it is one step on the runtime. The
  answers of the machine (the clock, the window-size \<open>ioctl\<close>, the outcome of a record write,
  \<open>kill\<close>) are arguments.
\<close>

section \<open>State\<close>

record terminal_state =
  ts_rows :: nat
  ts_cols :: nat
  ts_clients :: "(nat \<times> (nat \<times> nat) option) list"
  next_client_id :: nat

type_synonym 'p worker_hub = "('p, session_record, exit_info) hub"

text \<open>
  \<open>rt_disk\<close> is the durable record, \<open>rt_pty\<close> the write side of the PTY, \<open>rt_winsize\<close> the
  size the kernel holds for it.
\<close>

record 'p runtime =
  rt_record :: session_record
  rt_disk :: session_record
  rt_pty :: "writer option"
  rt_winsize :: "nat \<times> nat"
  rt_running :: bool
  rt_terminal :: terminal_state
  rt_hub :: "'p worker_hub"
  record_persistence_error :: bool
  last_activity_ms :: nat
  awaiting_initial_prompt :: bool

datatype persist_outcome = PersistOk | PersistFailedBefore | PersistFailedAfter

datatype rt_error =
    Finalized | RecordWrite | WorkloadExited | PtyClosed | IoctlFailed | ClientGone
  | RtSize size_error | RtHub hub_error | RtRecord record_error
  | PtyTimedOut | PtyWriteZero | PtyWriteFailed | KillFailed
  | StaleReport | ForeignSession | UnstampedReport | MalformedControl

section \<open>The record\<close>

definition update_record ::
    "(session_record \<Rightarrow> session_record) \<Rightarrow> nat \<Rightarrow> persist_outcome \<Rightarrow> 'p runtime \<Rightarrow>
       (rt_error + session_record) \<times> 'p runtime" where
  "update_record update now po rt =
     (if finalized (rt_hub rt) then (Inl Finalized, rt)
      else
        let candidate = (update (rt_record rt))\<lparr>sr_updated_at_ms := now\<rparr> in
        case po of
          PersistOk \<Rightarrow>
            (Inr candidate, rt\<lparr>rt_record := candidate, rt_disk := candidate, record_persistence_error := False,
               rt_hub := broadcast_record candidate (rt_hub rt)\<rparr>)
        | PersistFailedBefore \<Rightarrow> (Inl RecordWrite, rt\<lparr>record_persistence_error := True\<rparr>)
        | PersistFailedAfter \<Rightarrow>
            (Inl RecordWrite, rt\<lparr>rt_disk := candidate, record_persistence_error := True\<rparr>))"

definition rt_mark_finalized :: "'p runtime \<Rightarrow> 'p runtime" where
  "rt_mark_finalized rt = rt\<lparr>rt_hub := mark_finalized (rt_hub rt)\<rparr>"

definition persist_activity_checkpoint ::
    "nat \<Rightarrow> persist_outcome \<Rightarrow> nat \<Rightarrow> 'p runtime \<Rightarrow> (rt_error + unit) \<times> nat \<times> 'p runtime" where
  "persist_activity_checkpoint now po checkpoint rt =
     (let current = last_activity_ms rt in
      if current = 0 \<or> current = checkpoint \<or> finalized (rt_hub rt) then (Inr (), checkpoint, rt)
      else case update_record (\<lambda>r. r\<lparr>sr_last_activity_ms := Some current\<rparr>) now po rt of
        (Inl e, rt') \<Rightarrow> (Inl e, checkpoint, rt')
      | (Inr _, rt') \<Rightarrow> (Inr (), current, rt'))"

section \<open>Input\<close>

text \<open>
  \<open>write_pty_input\<close>: \<open>late\<close> lists what the successive deadline tests answer; once none is
  listed the deadline has passed.
\<close>

fun write_pty_input :: "bool list \<Rightarrow> bytes \<Rightarrow> writer \<Rightarrow> (rt_error + unit) \<times> writer" where
  "write_pty_input late [] w = (Inr (), w)"
| "write_pty_input [] (b # bs) w = (Inl PtyTimedOut, w)"
| "write_pty_input (l # late) (b # bs) w =
     (if l then (Inl PtyTimedOut, w)
      else case wr_write (b # bs) w of
        (Inr n, w') \<Rightarrow> (if n = 0 then (Inl PtyWriteZero, w') else write_pty_input late (drop n (b # bs)) w')
      | (Inl e, w') \<Rightarrow>
          (if e = WrInterrupted \<or> e = WrWouldBlock then write_pty_input late (b # bs) w'
           else (Inl PtyWriteFailed, w')))"

definition rt_send :: "bool list \<Rightarrow> bytes \<Rightarrow> 'p runtime \<Rightarrow> (rt_error + unit) \<times> 'p runtime" where
  "rt_send late data rt =
     (if \<not> rt_running rt then (Inl WorkloadExited, rt)
      else case rt_pty rt of
        None \<Rightarrow> (Inl PtyClosed, rt)
      | Some w \<Rightarrow> (case write_pty_input late data w of (r, w') \<Rightarrow> (r, rt\<lparr>rt_pty := Some w'\<rparr>)))"

definition rt_signal :: "bool \<Rightarrow> int \<Rightarrow> 'p runtime \<Rightarrow> rt_error + unit" where
  "rt_signal kill_ok signal rt =
     (if \<not> rt_running rt then Inl WorkloadExited else if kill_ok then Inr () else Inl KillFailed)"

section \<open>The shared size\<close>

definition common_size :: "terminal_state \<Rightarrow> (nat \<times> nat) option" where
  "common_size t =
     (case List.map_filter snd (ts_clients t) of
        [] \<Rightarrow> None
      | g # gs \<Rightarrow> Some (foldl (\<lambda>(rows, cols) (rows', cols'). (min rows rows', min cols cols')) g gs))"

definition resize_screen_and_pty ::
    "'p vt100 \<Rightarrow> nat \<times> nat \<Rightarrow> nat \<times> nat \<Rightarrow> bool \<Rightarrow> 'p runtime \<Rightarrow> (rt_error + unit) \<times> 'p runtime" where
  "resize_screen_and_pty V prev new ioctl_ok rt =
     (case hub_set_size V (fst new) (snd new) (rt_hub rt) of
        (Inl e, h) \<Rightarrow> (Inl (RtSize e), rt\<lparr>rt_hub := h\<rparr>)
      | (Inr _, h) \<Rightarrow>
          if ioctl_ok then (Inr (), rt\<lparr>rt_hub := h, rt_winsize := new\<rparr>)
          else (Inl IoctlFailed, rt\<lparr>rt_hub := snd (hub_set_size V (fst prev) (snd prev) h)\<rparr>))"

definition apply_size ::
    "'p vt100 \<Rightarrow> bool \<Rightarrow> nat \<Rightarrow> nat \<Rightarrow> 'p runtime \<Rightarrow> (rt_error + unit) \<times> 'p runtime" where
  "apply_size V ioctl_ok rows cols rt =
     (let rows = max rows 1; cols = max cols 1; t = rt_terminal rt in
      if (ts_rows t, ts_cols t) = (rows, cols) then (Inr (), rt)
      else if rt_pty rt = None then (Inl PtyClosed, rt)
      else case resize_screen_and_pty V (ts_rows t, ts_cols t) (rows, cols) ioctl_ok rt of
        (Inl e, rt') \<Rightarrow> (Inl e, rt')
      | (Inr _, rt') \<Rightarrow>
          (Inr (), rt'\<lparr>rt_terminal := (rt_terminal rt')\<lparr>ts_rows := rows, ts_cols := cols\<rparr>,
                      rt_hub := broadcast_resize V (rt_hub rt')\<rparr>))"

definition apply_common_size :: "'p vt100 \<Rightarrow> bool \<Rightarrow> 'p runtime \<Rightarrow> (rt_error + unit) \<times> 'p runtime" where
  "apply_common_size V ioctl_ok rt =
     (case common_size (rt_terminal rt) of
        Some (rows, cols) \<Rightarrow> apply_size V ioctl_ok rows cols rt
      | None \<Rightarrow> (Inr (), rt))"

definition rt_resize :: "'p vt100 \<Rightarrow> bool \<Rightarrow> nat \<Rightarrow> nat \<Rightarrow> 'p runtime \<Rightarrow> (rt_error + unit) \<times> 'p runtime" where
  "rt_resize V ioctl_ok rows cols rt =
     (case validate_worker_size rows cols of
        Inl e \<Rightarrow> (Inl (RtSize e), rt)
      | Inr (rows, cols) \<Rightarrow> apply_size V ioctl_ok rows cols rt)"

definition set_clients :: "((nat \<times> (nat \<times> nat) option) list \<Rightarrow> (nat \<times> (nat \<times> nat) option) list) \<Rightarrow> 'p runtime \<Rightarrow> 'p runtime" where
  "set_clients f rt = rt\<lparr>rt_terminal := (rt_terminal rt)\<lparr>ts_clients := f (ts_clients (rt_terminal rt))\<rparr>\<rparr>"

definition remove_client :: "nat \<Rightarrow> (nat \<times> (nat \<times> nat) option) list \<Rightarrow> (nat \<times> (nat \<times> nat) option) list" where
  "remove_client cid cs = filter (\<lambda>(i, _). i \<noteq> cid) cs"

definition set_geometry :: "nat \<Rightarrow> (nat \<times> nat) option \<Rightarrow> (nat \<times> (nat \<times> nat) option) list \<Rightarrow> (nat \<times> (nat \<times> nat) option) list" where
  "set_geometry cid g cs = map (\<lambda>(i, g'). (i, if i = cid then g else g')) cs"

definition attach_client ::
    "'p vt100 \<Rightarrow> bool \<Rightarrow> bool \<Rightarrow> attach_payload \<Rightarrow> (nat \<times> nat) option \<Rightarrow> bool \<Rightarrow> 'p runtime \<Rightarrow>
       (rt_error + nat \<times> nat \<times> bytes) \<times> 'p runtime" where
  "attach_client V ioctl_ok undo_ok payload geometry wants_record rt =
     (let cid = next_client_id (rt_terminal rt);
          rt1 = set_clients (\<lambda>cs. (cid, geometry) # cs)
            (rt\<lparr>rt_terminal := (rt_terminal rt)\<lparr>next_client_id := cid + 1\<rparr>\<rparr>);
          rt2 = snd (apply_common_size V ioctl_ok rt1)
      in case subscribe V payload wants_record (rt_hub rt2) of
        (Inr (subscription, initial), h) \<Rightarrow> (Inr (cid, subscription, initial), rt2\<lparr>rt_hub := h\<rparr>)
      | (Inl e, h) \<Rightarrow>
          (Inl (RtHub e), snd (apply_common_size V undo_ok (set_clients (remove_client cid) (rt2\<lparr>rt_hub := h\<rparr>)))))"

definition resize_client ::
    "'p vt100 \<Rightarrow> bool \<Rightarrow> nat \<Rightarrow> nat \<Rightarrow> nat \<Rightarrow> 'p runtime \<Rightarrow> (rt_error + unit) \<times> 'p runtime" where
  "resize_client V ioctl_ok cid rows cols rt =
     (case validate_worker_size rows cols of
        Inl e \<Rightarrow> (Inl (RtSize e), rt)
      | Inr g \<Rightarrow>
          (case map_of (ts_clients (rt_terminal rt)) cid of
             None \<Rightarrow> (Inl ClientGone, rt)
           | Some previous \<Rightarrow>
               (case apply_common_size V ioctl_ok (set_clients (set_geometry cid (Some g)) rt) of
                  (Inl e, rt') \<Rightarrow> (Inl e, set_clients (set_geometry cid previous) rt')
                | (Inr _, rt') \<Rightarrow> (Inr (), rt'))))"

definition detach_client :: "'p vt100 \<Rightarrow> bool \<Rightarrow> nat \<Rightarrow> 'p runtime \<Rightarrow> 'p runtime" where
  "detach_client V ioctl_ok cid rt =
     snd (apply_common_size V ioctl_ok (set_clients (remove_client cid) rt))"

section \<open>State reports\<close>

definition report_event_is_stale :: "nat option \<Rightarrow> nat option \<Rightarrow> bool" where
  "report_event_is_stale incoming known =
     (case (incoming, known) of (Some i, Some s) \<Rightarrow> i \<le> s | _ \<Rightarrow> False)"

definition idle_session_matches :: "string option \<Rightarrow> string option \<Rightarrow> bool" where
  "idle_session_matches incoming known =
     (case (incoming, known) of (Some i, Some s) \<Rightarrow> i = s | _ \<Rightarrow> True)"

text \<open>The fences the update closure applies, in its order; \<open>None\<close> lets the report through.\<close>

definition report_fence :: "string \<Rightarrow> nat option \<Rightarrow> string option \<Rightarrow> session_record \<Rightarrow> rt_error option" where
  "report_fence state event_ms session r =
     (if event_ms = None \<and> sr_reported_state_event_ms r \<noteq> None then Some UnstampedReport
      else if report_event_is_stale event_ms (sr_reported_state_event_ms r) then Some StaleReport
      else if state = ''idle'' \<and> \<not> idle_session_matches session (sr_reported_state_engine_session_id r)
      then Some ForeignSession
      else None)"

definition apply_report :: "string \<Rightarrow> nat option \<Rightarrow> string option \<Rightarrow> nat \<Rightarrow> session_record \<Rightarrow> session_record" where
  "apply_report state event_ms session at r =
     r\<lparr>sr_reported_state := Some state, sr_reported_state_at_ms := Some at,
       sr_reported_state_event_ms := (if event_ms = None then sr_reported_state_event_ms r else event_ms),
       sr_reported_state_engine_session_id :=
         (if session = None then sr_reported_state_engine_session_id r else session)\<rparr>"

definition hub_fresh_empty_prompt :: "'p vt100 \<Rightarrow> 'p screen_judges \<Rightarrow> 'p worker_hub \<Rightarrow> bool" where
  "hub_fresh_empty_prompt V J h =
     screen_is_fresh_empty_prompt J (hb_engine h) (st_contents V (hb_screen h)) (st_parser (hb_screen h))"

definition report_state ::
    "'p vt100 \<Rightarrow> 'p screen_judges \<Rightarrow> string \<Rightarrow> nat option \<Rightarrow> string option \<Rightarrow> string option \<Rightarrow> nat \<Rightarrow> persist_outcome \<Rightarrow>
       'p runtime \<Rightarrow> (rt_error + session_record) \<times> 'p runtime" where
  "report_state V J state event_ms session hook_event now po rt =
     (if validate_reported_state state \<noteq> Inr () then (Inl (RtRecord BadState), rt)
      else
        let fresh = hub_fresh_empty_prompt V J (rt_hub rt);
            is_session_start = (hook_event = Some ''SessionStart'');
            rt1 = (if is_session_start then rt\<lparr>awaiting_initial_prompt := \<not> fresh\<rparr>
                   else if state \<noteq> ''working'' \<or> hook_event \<noteq> None \<or> fresh
                   then rt\<lparr>awaiting_initial_prompt := False\<rparr> else rt);
            state = (if is_session_start \<and> state = ''working'' \<and> fresh then ''idle'' else state);
            fence = report_fence state event_ms session (rt_record rt);
            at = max now (last_activity_ms rt)
        in case update_record
               (\<lambda>r. if fence = None then apply_report state event_ms session at r else r) now po rt1 of
             (Inl e, rt2) \<Rightarrow> (Inl e, rt2)
           | (Inr record, rt2) \<Rightarrow>
               (case fence of None \<Rightarrow> (Inr record, rt2) | Some refusal \<Rightarrow> (Inl refusal, rt2)))"

definition promote_initial_prompt_idle ::
    "nat \<Rightarrow> persist_outcome \<Rightarrow> 'p runtime \<Rightarrow> (rt_error + unit) \<times> 'p runtime" where
  "promote_initial_prompt_idle now po rt =
     (let at = max now (last_activity_ms rt) in
      map_prod (map_sum id (\<lambda>_. ())) id
        (update_record (\<lambda>r.
           if sr_reported_state r \<in> {None, Some ''working'', Some ''idle''}
           then r\<lparr>sr_reported_state := Some ''idle'', sr_reported_state_at_ms := Some at\<rparr> else r) now po rt))"

text \<open>\<open>validate_agent_token\<close> reads the configuration; it is the argument \<open>token_ok\<close>.\<close>

definition set_agent ::
    "(string \<Rightarrow> bool) \<Rightarrow> string option \<Rightarrow> nat \<Rightarrow> persist_outcome \<Rightarrow> 'p runtime \<Rightarrow> (rt_error + session_record) \<times> 'p runtime" where
  "set_agent token_ok agent now po rt =
     (if (case agent of None \<Rightarrow> True | Some token \<Rightarrow> token_ok token)
      then update_record (\<lambda>r. r\<lparr>sr_agent_override := agent\<rparr>) now po rt
      else (Inl (RtRecord BadState), rt))"

section \<open>The PTY reader\<close>

datatype pty_read = PtyGot bytes | PtyInterrupted | PtyEio | PtyReadError

datatype life_event = PtyEof | PtyError

text \<open>
  \<open>run_pty_reader\<close> over the results of its \<open>read\<close> calls, each with the clock and the outcome
  of the record write it may cause; \<open>None\<close> while it still reads.
\<close>

fun run_pty_reader ::
    "'p vt100 \<Rightarrow> 'p screen_judges \<Rightarrow> (pty_read \<times> nat \<times> persist_outcome) list \<Rightarrow> 'p runtime \<Rightarrow> life_event option \<times> 'p runtime" where
  "run_pty_reader V J [] rt = (None, rt)"
| "run_pty_reader V J ((PtyGot data, now, po) # reads) rt =
     (if data = [] then (Some PtyEof, rt)
      else case hub_append V J data now (rt_hub rt) of
        (out, h) \<Rightarrow>
          (let rt1 = rt\<lparr>rt_hub := h\<rparr>;
               rt2 = (if activity out then rt1\<lparr>last_activity_ms := now\<rparr> else rt1);
               rt3 = (if fresh_empty_prompt out \<and> awaiting_initial_prompt rt2
                      then snd (promote_initial_prompt_idle now po (rt2\<lparr>awaiting_initial_prompt := False\<rparr>))
                      else rt2)
           in run_pty_reader V J reads rt3))"
| "run_pty_reader V J ((PtyInterrupted, now, po) # reads) rt = run_pty_reader V J reads rt"
| "run_pty_reader V J ((PtyEio, now, po) # reads) rt = (Some PtyEof, rt)"
| "run_pty_reader V J ((PtyReadError, now, po) # reads) rt = (Some PtyError, rt)"

section \<open>An attached client\<close>

definition establish_attach ::
    "'p vt100 \<Rightarrow> bool \<Rightarrow> bool \<Rightarrow> nat option \<Rightarrow> bool \<Rightarrow> bool \<Rightarrow> nat option \<Rightarrow> nat option \<Rightarrow> 'p runtime \<Rightarrow>
       (rt_error + nat \<times> nat \<times> bytes) \<times> 'p runtime" where
  "establish_attach V ioctl_ok undo_ok history_bytes screen record rows cols rt =
     (let payload = (if screen then AttachScreen else AttachTail history_bytes) in
      case (rows, cols) of
        (Some rows, Some cols) \<Rightarrow>
          (case validate_worker_size rows cols of
             Inl e \<Rightarrow> (Inl (RtSize e), rt)
           | Inr g \<Rightarrow> attach_client V ioctl_ok undo_ok payload (Some g) record rt)
      | _ \<Rightarrow> attach_client V ioctl_ok undo_ok payload None record rt)"

text \<open>\<open>AttachGuard::drop\<close>.\<close>

definition attach_guard_drop :: "'p vt100 \<Rightarrow> bool \<Rightarrow> nat \<Rightarrow> nat \<Rightarrow> 'p runtime \<Rightarrow> 'p runtime" where
  "attach_guard_drop V ioctl_ok cid subscription rt =
     detach_client V ioctl_ok cid (rt\<lparr>rt_hub := unsubscribe subscription (rt_hub rt)\<rparr>)"

datatype attach_control = CtlResize nat nat | CtlSignal int | CtlDetach

lemma read_frame_shorter:
  "read_frame r = (Inr (Some f), r') \<Longrightarrow> length (rd_bytes r') < length (rd_bytes r)"
  by (erule read_frame_SomeE)
    (auto simp: read_frame_body_def Let_def dest!: read_exact_sound
      split: if_splits option.splits prod.splits sum.splits)

text \<open>
  \<open>pump_input\<close>: the frames of the reader until the end of the attach. \<open>parse\<close> is
  \<open>serde_json\<close>; the deadline answers and the \<open>ioctl\<close> results are those of each frame. The error
  frame of a malformed control is the result \<open>MalformedControl\<close>.
\<close>

function pump_input ::
    "'p vt100 \<Rightarrow> (bytes \<Rightarrow> attach_control option) \<Rightarrow> (nat \<Rightarrow> bool list) \<Rightarrow> (nat \<Rightarrow> bool) \<Rightarrow> nat \<Rightarrow> nat \<Rightarrow> reader \<Rightarrow>
       'p runtime \<Rightarrow> (rt_error + unit) \<times> 'p runtime" where
  "pump_input V parse late ioctl_ok n cid r rt =
     (case read_frame r of
        (Inl _, _) \<Rightarrow> (Inr (), rt)
      | (Inr None, _) \<Rightarrow> (Inr (), rt)
      | (Inr (Some f), r') \<Rightarrow>
          (case f_kind f of
             Data \<Rightarrow>
               (case rt_send (late n) (f_payload f) rt of
                  (Inl _, rt') \<Rightarrow> (Inr (), rt')
                | (Inr _, rt') \<Rightarrow> pump_input V parse late ioctl_ok (Suc n) cid r' rt')
           | End \<Rightarrow> (Inr (), rt)
           | Json \<Rightarrow>
               (case parse (f_payload f) of
                  None \<Rightarrow> (Inl MalformedControl, rt)
                | Some (CtlResize rows cols) \<Rightarrow>
                    pump_input V parse late ioctl_ok (Suc n) cid r' (snd (resize_client V (ioctl_ok n) cid rows cols rt))
                | Some (CtlSignal _) \<Rightarrow> pump_input V parse late ioctl_ok (Suc n) cid r' rt
                | Some CtlDetach \<Rightarrow> (Inr (), rt))))"
  by pat_completeness auto
termination
  by (relation "measure (\<lambda>(V, parse, late, ioctl_ok, n, cid, r, rt). length (rd_bytes r))")
    (auto dest!: read_frame_shorter [OF sym])

declare pump_input.simps [simp del]

section \<open>A runtime to evaluate on\<close>

text \<open>A worker whose session has a 24 by 80 screen and nobody attached.\<close>

definition rt_hub0 :: "bytes worker_hub" where
  "rt_hub0 = \<lparr>hb_history = new_history 4 [1, 2], hb_world = sample_world, history_persistence_error = None,
     history_retry_at = 0, history_retry_delay = HISTORY_RETRY_INITIAL,
     hb_screen = \<lparr>st_parser = [], st_margins = mt_new 24, st_alt_screen = False, st_scrollback = 0\<rparr>,
     hb_engine = [], settled_plain = [], settled_composer_empty_or_ghost = False,
     sync_bytes = 0, subscribers = [], next_id = 1, hb_terminal = None,
     shared = (\<lambda>_. subscriber_new), finalized = False, screen_txt = None\<rparr>"

definition sample_rt :: "bytes runtime" where
  "sample_rt = \<lparr>rt_record = sample_record, rt_disk = sample_record, rt_pty = Some \<lparr>wr_script = [], wr_out = []\<rparr>,
     rt_winsize = (24, 80), rt_running = True,
     rt_terminal = \<lparr>ts_rows = 24, ts_cols = 80, ts_clients = [], next_client_id = 1\<rparr>, rt_hub = rt_hub0,
     record_persistence_error = False, last_activity_ms = 0, awaiting_initial_prompt = False\<rparr>"

end
