(* ===== verification/Pair_Claim.thy ===== *)
theory Pair_Claim
  imports Registry Worker_Runtime
begin

text \<open>
  Who owns a \<open>workspace+tag\<close> pair: \<open>pick_fresh_tag\<close> of \<open>src/api/start/tag.rs\<close>, the claim of
  \<open>src/api/start/claim.rs\<close> that a start and a rename share, and the worker's \<open>rename\<close>,
  \<open>take_pair\<close> and \<open>sync_workspace_from_cwd\<close> of \<open>src/worker/runtime.rs\<close>, which write the worker's own
  record from the one it holds in memory.
\<close>

section \<open>Fresh tags\<close>

definition live_holder :: "machine \<Rightarrow> session_record list \<Rightarrow> string \<Rightarrow> string \<Rightarrow> bool" where
  "live_holder M records ws tag \<longleftrightarrow>
     list_ex (\<lambda>r. reap_verdict M r = None) (filter (holds_pair ws tag) records)"

text \<open>\<open>candidate.rsplit_once('-')\<close>, the suffix parsed and incremented with \<open>checked_add\<close>.\<close>

definition tag_suffix :: "string \<Rightarrow> (string \<times> nat) option" where
  "tag_suffix tag =
     (case rsplit_once (CHR ''-'') tag of
        None \<Rightarrow> None
      | Some (stem, n) \<Rightarrow> map_option (\<lambda>k. (stem, k)) (parse_u64 n))"

definition numbered :: "string \<Rightarrow> nat \<Rightarrow> string" where
  "numbered stem n = stem @ ''-'' @ dec_text n"

definition next_candidate :: "string \<Rightarrow> string \<Rightarrow> string" where
  "next_candidate base candidate =
     (case tag_suffix candidate of
        None \<Rightarrow> numbered base 2
      | Some (stem, n) \<Rightarrow>
          (case checked_add U64_MAX n 1 of
             None \<Rightarrow> numbered base 2
           | Some m \<Rightarrow> numbered stem m))"

text \<open>The loop; \<open>None\<close> outside would be a loop that does not end.\<close>

partial_function (option) fresh_loop ::
    "machine \<Rightarrow> session_record list \<Rightarrow> string \<Rightarrow> string \<Rightarrow> string \<Rightarrow> string option option" where
  [code]: "fresh_loop M records ws base candidate =
     (if \<not> live_holder M records ws candidate then Some (Some candidate)
      else if validate_tag (next_candidate base candidate) \<noteq> Inr () then Some None
      else fresh_loop M records ws base (next_candidate base candidate))"

definition pick_fresh_tag :: "machine \<Rightarrow> session_record list \<Rightarrow> string \<Rightarrow> string \<Rightarrow> string option option" where
  "pick_fresh_tag M records ws base = fresh_loop M records ws base base"

section \<open>The sequence of candidates\<close>

lemma tag_suffix_numbered [simp]:
  "tag_suffix (numbered stem n) = (if n \<le> U64_MAX then Some (stem, n) else None)"
proof -
  have "rsplit_once (CHR ''-'') (numbered stem n) = Some (stem, dec_text n)"
    by (simp add: rsplit_once_Some numbered_def dec_text_no_dash)
  then show ?thesis by (simp add: tag_suffix_def parse_dec_text)
qed

lemma numbered_inject [simp]: "numbered s m = numbered t n \<longleftrightarrow> s = t \<and> m = n"
proof
  assume "numbered s m = numbered t n"
  moreover have "rsplit_once (CHR ''-'') (numbered s m) = Some (s, dec_text m)"
    "rsplit_once (CHR ''-'') (numbered t n) = Some (t, dec_text n)"
    by (simp_all add: rsplit_once_Some numbered_def dec_text_no_dash)
  ultimately have "Some (s, dec_text m) = Some (t, dec_text n)" by metis
  then show "s = t \<and> m = n" by simp
qed simp

lemma tag_suffix_shorter: "tag_suffix t = Some (s, n) \<Longrightarrow> length s < length t \<and> n \<le> U64_MAX"
  by (auto simp: tag_suffix_def rsplit_once_Some parse_u64_def Let_def split: option.splits if_splits)

text \<open>
  Candidate \<open>k\<close>: first the suffixes that continue the base's own number, up to the largest
  \<open>u64\<close>, then \<open>base-2\<close>, \<open>base-3\<close>, ...
\<close>

definition own_steps :: "string \<Rightarrow> nat" where
  "own_steps base = (case tag_suffix base of None \<Rightarrow> 0 | Some (_, n) \<Rightarrow> U64_MAX - n)"

definition candidate :: "string \<Rightarrow> nat \<Rightarrow> string" where
  "candidate base k =
     (if k = 0 then base
      else if k \<le> own_steps base then
        (case tag_suffix base of None \<Rightarrow> base | Some (stem, n) \<Rightarrow> numbered stem (n + k))
      else numbered base (k - own_steps base + 1))"

lemma next_candidate_seq:
  assumes "k < own_steps base + U64_MAX - 1"
  shows "next_candidate base (candidate base k) = candidate base (Suc k)"
proof (cases "tag_suffix base")
  case None
  then show ?thesis
    using assms by (auto simp: candidate_def own_steps_def next_candidate_def checked_add_def)
next
  case (Some sn)
  then obtain stem n where sn: "tag_suffix base = Some (stem, n)" by (cases sn) auto
  with tag_suffix_shorter have n: "n \<le> U64_MAX" by blast
  show ?thesis
    using assms sn n by (auto simp: candidate_def own_steps_def next_candidate_def checked_add_def)
qed

lemma candidate_inject:
  assumes "candidate base i = candidate base j"
  shows "i = j"
proof -
  have base: "numbered base m \<noteq> base" for m by (simp add: numbered_def)
  have own: "numbered stem (n + k) \<noteq> base" "numbered stem (n + k) \<noteq> numbered base m"
    if "tag_suffix base = Some (stem, n)" "0 < k" "k \<le> U64_MAX - n" for stem n k m
  proof -
    have "n + k \<le> U64_MAX" using that tag_suffix_shorter by fastforce
    then have "tag_suffix (numbered stem (n + k)) = Some (stem, n + k)" by simp
    with that show "numbered stem (n + k) \<noteq> base" by auto
    show "numbered stem (n + k) \<noteq> numbered base m" using that(1) tag_suffix_shorter by force
  qed
  show ?thesis
  proof (cases "tag_suffix base")
    case None
    with assms base base [symmetric] show ?thesis by (auto simp: candidate_def own_steps_def split: if_splits)
  next
    case (Some sn)
    then obtain stem n where sn: "tag_suffix base = Some (stem, n)" by (cases sn) auto
    with assms base base [symmetric] own [OF sn] own [OF sn, symmetric] show ?thesis
      by (auto simp: candidate_def own_steps_def split: if_splits)
  qed
qed

lemma some_candidate_free:
  "\<exists>k \<le> length records. \<not> live_holder M records ws (candidate base k)"
proof (rule ccontr)
  assume "\<not> ?thesis"
  then have live: "live_holder M records ws (candidate base k)" if "k \<le> length records" for k
    using that by blast
  have "candidate base ` {..length records} \<subseteq> sr_tag ` set records"
  proof
    fix t assume "t \<in> candidate base ` {..length records}"
    then obtain k where "t = candidate base k" "k \<le> length records" by auto
    with live have "live_holder M records ws t" by simp
    then show "t \<in> sr_tag ` set records" by (auto simp: live_holder_def list_ex_iff holds_pair_def)
  qed
  then have "card (candidate base ` {..length records}) \<le> card (sr_tag ` set records)"
    by (intro card_mono) auto
  also have "\<dots> \<le> length records" by (metis card_image_le card_length le_trans List.finite_set)
  also have "card (candidate base ` {..length records}) = Suc (length records)"
    by (subst card_image) (auto intro: inj_onI candidate_inject)
  finally show False by simp
qed

text \<open>The loop from candidate \<open>i\<close>, when \<open>k\<close> is the first free one or the first invalid one.\<close>

lemma fresh_loop_reaches:
  assumes "i \<le> k" "k < U64_MAX"
    and "\<And>j. i \<le> j \<Longrightarrow> j < k \<Longrightarrow> live_holder M records ws (candidate base j)"
    and "\<And>j. i < j \<Longrightarrow> j < k \<Longrightarrow> validate_tag (candidate base j) = Inr ()"
    and "i < k \<Longrightarrow> validate_tag (candidate base k) = Inr ()"
    and "\<not> live_holder M records ws (candidate base k)"
  shows "fresh_loop M records ws base (candidate base i) = Some (Some (candidate base k))"
  using assms
proof (induction "k - i" arbitrary: i)
  case 0
  then show ?case by (subst fresh_loop.simps) simp
next
  case (Suc m)
  then have next_i: "next_candidate base (candidate base i) = candidate base (Suc i)"
    by (intro next_candidate_seq) simp
  have "validate_tag (candidate base (Suc i)) = Inr ()"
    using Suc.prems Suc.hyps(2) by (cases "Suc i = k") auto
  moreover have "fresh_loop M records ws base (candidate base (Suc i)) = Some (Some (candidate base k))"
    using Suc.hyps(2) Suc.prems by (intro Suc.hyps(1)) auto
  ultimately show ?case using Suc.prems Suc.hyps(2) next_i by (subst fresh_loop.simps) simp
qed

lemma fresh_loop_stops:
  assumes "i < k" "k < U64_MAX"
    and "\<And>j. i \<le> j \<Longrightarrow> j < k \<Longrightarrow> live_holder M records ws (candidate base j)"
    and "\<And>j. i < j \<Longrightarrow> j < k \<Longrightarrow> validate_tag (candidate base j) = Inr ()"
    and "validate_tag (candidate base k) \<noteq> Inr ()"
  shows "fresh_loop M records ws base (candidate base i) = Some None"
  using assms
proof (induction "k - i" arbitrary: i)
  case 0
  then show ?case by simp
next
  case (Suc m)
  then have next_i: "next_candidate base (candidate base i) = candidate base (Suc i)"
    by (intro next_candidate_seq) simp
  show ?case
  proof (cases "Suc i = k")
    case True
    with Suc.prems next_i show ?thesis by (subst fresh_loop.simps) simp
  next
    case False
    have "fresh_loop M records ws base (candidate base (Suc i)) = Some None"
      using Suc.hyps(2) Suc.prems False by (intro Suc.hyps(1)) auto
    with False Suc.prems next_i show ?thesis by (subst fresh_loop.simps) simp
  qed
qed

text \<open>
  C21: a \<open>--fresh\<close> start always gets an answer, after at most one candidate per record: the first
  candidate of the sequence \<open>base\<close>, its successors, that no live session holds, or a refusal at
  the first one that is not a valid tag.
\<close>

theorem pick_fresh_tag_first_free:
  assumes "length records < U64_MAX"
  shows "\<exists>k \<le> length records. (\<forall>j < k. live_holder M records ws (candidate base j)) \<and>
     (\<not> live_holder M records ws (candidate base k) \<and> (\<forall>j \<in> {1..k}. validate_tag (candidate base j) = Inr ()) \<and>
        pick_fresh_tag M records ws base = Some (Some (candidate base k)) \<or>
      0 < k \<and> validate_tag (candidate base k) \<noteq> Inr () \<and> pick_fresh_tag M records ws base = Some None)"
proof -
  let ?stop = "\<lambda>k. \<not> live_holder M records ws (candidate base k) \<or> 0 < k \<and> validate_tag (candidate base k) \<noteq> Inr ()"
  define k where "k = (LEAST k. ?stop k)"
  obtain f where f: "f \<le> length records" "\<not> live_holder M records ws (candidate base f)"
    using some_candidate_free by blast
  have stop: "?stop k" unfolding k_def by (rule LeastI [of ?stop f]) (simp add: f)
  have le: "k \<le> length records" unfolding k_def using f Least_le [of ?stop f] by simp
  have before: "live_holder M records ws (candidate base j)" "0 < j \<Longrightarrow> validate_tag (candidate base j) = Inr ()"
    if "j < k" for j using not_less_Least [of j ?stop] that unfolding k_def by auto
  have base: "candidate base 0 = base" by (simp add: candidate_def)
  show ?thesis
  proof (cases "0 < k \<and> validate_tag (candidate base k) \<noteq> Inr ()")
    case True
    then have "pick_fresh_tag M records ws base = Some None"
      using fresh_loop_stops [of 0 k M records ws base] before le assms by (simp add: pick_fresh_tag_def base)
    with True le before show ?thesis by blast
  next
    case False
    then have free: "\<not> live_holder M records ws (candidate base k)" and ok: "0 < k \<Longrightarrow> validate_tag (candidate base k) = Inr ()"
      using stop by auto
    have "pick_fresh_tag M records ws base = Some (Some (candidate base k))"
      using fresh_loop_reaches [of 0 k M records ws base] before le assms free ok by (simp add: pick_fresh_tag_def base)
    moreover have "\<forall>j \<in> {1..k}. validate_tag (candidate base j) = Inr ()"
    proof
      fix j assume "j \<in> {1..k}"
      then show "validate_tag (candidate base j) = Inr ()" using before(2) ok by (cases "j = k") auto
    qed
    ultimately show ?thesis using le before free by blast
  qed
qed

section \<open>Claiming a pair\<close>

record holder_claim =
  hc_verdict :: containment_reap
  hc_fence :: "uuid option"

record pair_claim =
  pc_tag :: string
  pc_superseded :: "session_record option"
  pc_reclaim :: "containment_reap option"
  pc_fence :: "uuid option"

definition claim_holder_pair :: "reg_world \<Rightarrow> session_record \<Rightarrow> reg_error + holder_claim" where
  "claim_holder_pair W holder =
     (case reap_verdict (w_machine W) holder of
        None \<Rightarrow> Inl PairTaken
      | Some verdict \<Rightarrow>
          res_bind (fence_or_refuse W holder) (\<lambda>fence. Inr \<lparr>hc_verdict = verdict, hc_fence = fence\<rparr>))"

definition holder_of :: "machine \<Rightarrow> session_record list \<Rightarrow> string \<Rightarrow> string \<Rightarrow> session_record option" where
  "holder_of M records ws tag =
     (case find (\<lambda>r. reap_verdict M r = None) (filter (holds_pair ws tag) records) of
        Some r \<Rightarrow> Some r
      | None \<Rightarrow> find (holds_pair ws tag) records)"

definition claim_tag :: "reg_world \<Rightarrow> string \<Rightarrow> string \<Rightarrow> session_record list \<Rightarrow> reg_error + pair_claim" where
  "claim_tag W ws tag records =
     (case holder_of (w_machine W) records ws tag of
        None \<Rightarrow> Inr \<lparr>pc_tag = tag, pc_superseded = None, pc_reclaim = None, pc_fence = None\<rparr>
      | Some existing \<Rightarrow>
          res_bind (claim_holder_pair W existing) (\<lambda>claim.
            Inr \<lparr>pc_tag = tag, pc_superseded = Some existing, pc_reclaim = Some (hc_verdict claim),
                 pc_fence = hc_fence claim\<rparr>))"

definition claim_pair ::
    "reg_world \<Rightarrow> reg_paths \<Rightarrow> string \<Rightarrow> bool \<Rightarrow> string \<Rightarrow> registry \<Rightarrow> (reg_error + pair_claim) option" where
  "claim_pair W P req_tag fresh ws reg =
     (case list_records P reg of
        Inl e \<Rightarrow> Some (Inl e)
      | Inr records \<Rightarrow>
          if fresh then
            (case pick_fresh_tag (w_machine W) records ws req_tag of
               None \<Rightarrow> None
             | Some None \<Rightarrow> Some (Inl NoFreeTag)
             | Some (Some chosen) \<Rightarrow> Some (claim_tag W ws chosen records))
          else Some (claim_tag W ws req_tag records))"

text \<open>The model argument of an engine launch; texts are ASCII here too.\<close>

definition validate_model_id :: "string \<Rightarrow> bool" where
  "validate_model_id model \<longleftrightarrow>
     model \<noteq> [] \<and> \<not> starts_with ''-'' model \<and> \<not> list_ex (\<lambda>c. is_control c \<or> is_ws c) model"

definition push_model_arg :: "string list \<Rightarrow> string \<Rightarrow> string list option" where
  "push_model_arg command model =
     (if validate_model_id model then Some (command @ [''--model'', model]) else None)"

section \<open>Renaming\<close>

lemma length_drop_entry: "dir_of sid es \<noteq> None \<Longrightarrow> length (drop_entry sid es) < length es"
proof (induction es)
  case (Cons e es)
  then show ?case by (cases e) (auto simp: drop_entry_def less_Suc_eq_le split: if_splits)
qed simp

lemma retire_ok:
  assumes "retire_reclaimed_holder W P holder reg = (Inr u, reg')"
  shows "rg_entries reg' = drop_entry (sr_id holder) (rg_entries reg) \<and>
     (\<exists>d r. dir_of (sr_id holder) (rg_entries reg) = Some d \<and> read_dir_state P (sr_id holder) d = Inr r \<and>
        reap_verdict (w_machine W) r \<noteq> None)"
proof -
  obtain reg1 where a: "archive_reclaimed_predecessor W P holder reg = (Inr (), reg1)"
      and e: "rg_entries reg' = rg_entries reg1"
    using assms by (auto simp: retire_reclaimed_holder_def cleanup_superseded_archive_def
        split: prod.splits sum.splits if_splits)
  from a obtain r where r: "read_session_record P (sr_id holder) reg = Inr r"
      "reap_verdict (w_machine W) r \<noteq> None" "archive_superseded_session W (sr_id holder) reg = (Inr (), reg1)"
    by (auto simp: archive_reclaimed_predecessor_def split: sum.splits if_splits)
  have "rg_entries reg1 = drop_entry (sr_id holder) (rg_entries reg)"
    using r(3) by (auto simp: archive_superseded_session_def Let_def split: if_splits option.splits prod.splits sum.splits)
  with e r(1,2) show ?thesis by (auto simp: read_session_record_def split: option.splits)
qed

definition conflicting :: "uuid \<Rightarrow> string \<Rightarrow> string \<Rightarrow> session_record \<Rightarrow> bool" where
  "conflicting self ws tag r \<longleftrightarrow> sr_id r \<noteq> self \<and> holds_pair ws tag r"

function take_pair ::
    "reg_world \<Rightarrow> reg_paths \<Rightarrow> uuid \<Rightarrow> string \<Rightarrow> string \<Rightarrow> registry \<Rightarrow> (reg_error + unit) \<times> registry" where
  "take_pair W P self ws tag reg =
     (case list_records P reg of
        Inl e \<Rightarrow> (Inl e, reg)
      | Inr records \<Rightarrow>
          (case find (conflicting self ws tag) records of
             None \<Rightarrow> (Inr (), reg)
           | Some holder \<Rightarrow>
               (case claim_holder_pair W holder of
                  Inl e \<Rightarrow> (Inl e, reg)
                | Inr _ \<Rightarrow>
                    (case retire_reclaimed_holder W P holder reg of
                       (Inl e, reg') \<Rightarrow> (Inl e, reg')
                     | (Inr _, reg') \<Rightarrow> take_pair W P self ws tag reg'))))"
  by pat_completeness auto
termination
  by (relation "measure (\<lambda>(W, P, self, ws, tag, reg). length (rg_entries reg))")
    (auto dest!: retire_ok [OF sym] intro!: length_drop_entry)

declare take_pair.simps [simp del]

text \<open>
  \<open>update_record\<close> of a worker whose record file is the registry's entry of its session: the
  record held in memory is changed and written over the file, which has to be there.
\<close>

definition update_own ::
    "(session_record \<Rightarrow> session_record) \<Rightarrow> nat \<Rightarrow> persist_outcome \<Rightarrow> 'p runtime \<Rightarrow> registry \<Rightarrow>
       (reg_error + session_record) \<times> 'p runtime \<times> registry" where
  "update_own f now po rt reg =
     (let sid = sr_id (rt_record rt);
          po' = (if dir_of sid (rg_entries reg) \<in> {None, Some NoRecord} then PersistFailedBefore else po);
          (res, rt') = update_record f now po' rt
      in (case res of Inr r \<Rightarrow> Inr r | Inl Finalized \<Rightarrow> Inl SessionFinalized | Inl _ \<Rightarrow> Inl PersistFailed, rt',
          if finalized (rt_hub rt) \<or> po' = PersistFailedBefore then reg
          else reg\<lparr>rg_entries := put_dir sid (Record (rt_disk rt')) (rg_entries reg)\<rparr>))"

definition rename ::
    "reg_world \<Rightarrow> reg_paths \<Rightarrow> (string \<Rightarrow> string option) \<Rightarrow> string \<Rightarrow> string \<Rightarrow> nat \<Rightarrow> persist_outcome \<Rightarrow>
       'p runtime \<Rightarrow> registry \<Rightarrow> (reg_error + session_record) \<times> 'p runtime \<times> registry" where
  "rename W P canonical workspace tag now po rt reg =
     (if validate_tag tag \<noteq> Inr () then (Inl (RegRecord BadTag), rt, reg)
      else case canonical workspace of
        None \<Rightarrow> (Inl BadWorkspace, rt, reg)
      | Some ws \<Rightarrow>
          if \<not> w_registry_free W then (Inl RegistryBusy, rt, reg)
          else case take_pair W P (sr_id (rt_record rt)) ws tag reg of
            (Inl e, reg') \<Rightarrow> (Inl e, rt, reg')
          | (Inr _, reg') \<Rightarrow> update_own (\<lambda>r. r\<lparr>sr_workspace := ws, sr_tag := tag\<rparr>) now po rt reg')"

text \<open>
  Following the shell's directory: the first of \<open>tag\<close>, \<open>tag-2\<close>, \<open>tag-3\<close>, ... that no other record
  holds there. One candidate more than there are records is enough to find it.
\<close>

definition sync_candidate :: "string \<Rightarrow> nat \<Rightarrow> string" where
  "sync_candidate tag k = (if k = 0 then tag else numbered tag (k + 1))"

definition free_workspace_tag :: "uuid \<Rightarrow> string \<Rightarrow> string \<Rightarrow> session_record list \<Rightarrow> string option" where
  "free_workspace_tag self ws tag records =
     find (\<lambda>t. \<not> list_ex (conflicting self ws t) records) (map (sync_candidate tag) [0..<Suc (length records)])"

text \<open>
  \<open>cwd\<close> is what the kernel says of the shell's directory; \<open>others\<close> is what the other threads of
  the worker do between the first look at the record and the second, which is made with the
  registry lock held.
\<close>

definition sync_workspace_from_cwd ::
    "reg_world \<Rightarrow> reg_paths \<Rightarrow> (string \<Rightarrow> string option) \<Rightarrow> string option \<Rightarrow> ('p runtime \<Rightarrow> 'p runtime) \<Rightarrow> nat \<Rightarrow>
       persist_outcome \<Rightarrow> 'p runtime \<Rightarrow> registry \<Rightarrow> (reg_error + unit) \<times> 'p runtime \<times> registry" where
  "sync_workspace_from_cwd W P canonical cwd others now po rt reg =
     (if sr_workload_pid (rt_record rt) = None \<or> \<not> rt_running rt then (Inr (), rt, reg)
      else case Option.bind cwd canonical of
        None \<Rightarrow> (Inr (), rt, reg)
      | Some ws \<Rightarrow>
          if ws = sr_workspace (rt_record rt) then (Inr (), rt, reg)
          else if \<not> w_registry_free W then (Inl RegistryBusy, rt, reg)
          else
            let rt = others rt; current = rt_record rt in
            if sr_workspace current = ws then (Inr (), rt, reg)
            else case list_records P reg of
              Inl e \<Rightarrow> (Inl e, rt, reg)
            | Inr records \<Rightarrow>
                (case free_workspace_tag (sr_id current) ws (sr_tag current) records of
                   None \<Rightarrow> (Inl NoFreeTag, rt, reg)
                 | Some tag \<Rightarrow>
                     (case update_own (\<lambda>r. r\<lparr>sr_workspace := ws, sr_tag := tag\<rparr>) now po rt reg of
                        (Inl e, rt', reg') \<Rightarrow> (Inl e, rt', reg')
                      | (Inr _, rt', reg') \<Rightarrow> (Inr (), rt', reg'))))"

section \<open>Ownership\<close>

lemma fence_cases:
  "fence_or_refuse W r =
     (if worker_phase_active r \<and> sr_worker_pid r = None then
        (case w_lock W (sr_id r) of
           LockFree \<Rightarrow> Inr (Some (sr_id r)) | LockHeld \<Rightarrow> Inl FenceHeld | LockError \<Rightarrow> Inl FenceFailed)
      else Inr None)"
  by (simp add: fence_or_refuse_def fence_pre_pid_worker_def split: lock_state.split)

lemma claim_holder_ok:
  assumes "claim_holder_pair W r = Inr c"
  shows "reap_verdict (w_machine W) r = Some (hc_verdict c) \<and>
     (worker_phase_active r \<and> sr_worker_pid r = None \<longrightarrow> w_lock W (sr_id r) = LockFree \<and> hc_fence c = Some (sr_id r))"
  using assms by (auto simp: claim_holder_pair_def fence_cases res_bind_eq_Inr
      split: option.splits lock_state.splits if_splits)

lemma holder_of_live:
  "r \<in> set records \<Longrightarrow> holds_pair ws tag r \<Longrightarrow> reap_verdict M r = None \<Longrightarrow>
     \<exists>h. holder_of M records ws tag = Some h \<and> reap_verdict M h = None"
  by (auto simp: holder_of_def find_None_iff find_Some_iff split: option.split)

lemma holder_of_Some: "holder_of M records ws tag = Some h \<Longrightarrow> h \<in> set records \<and> holds_pair ws tag h"
  by (auto simp: holder_of_def find_Some_iff split: option.splits) (metis mem_Collect_eq nth_mem set_filter)+

lemma holder_of_None: "holder_of M records ws tag = None \<Longrightarrow> r \<in> set records \<Longrightarrow> \<not> holds_pair ws tag r"
  by (auto simp: holder_of_def find_None_iff split: option.splits)

text \<open>
  C20: a start displaces no live session. Whatever pair it claims, no record that holds the pair is
  live; the predecessor it will archive, if any, holds that pair, was judged reapable, and a
  predecessor whose worker may still be coming up is fenced by its own lock. No predecessor
  means the pair was free.
\<close>

theorem claim_pair_spares_live:
  assumes "claim_pair W P req_tag fresh ws reg = Some (Inr c)" and "list_records P reg = Inr records"
  shows "(\<forall>r \<in> set records. holds_pair ws (pc_tag c) r \<longrightarrow> reap_verdict (w_machine W) r \<noteq> None) \<and>
     (\<not> fresh \<longrightarrow> pc_tag c = req_tag) \<and>
     (case pc_superseded c of
        None \<Rightarrow> (\<forall>r \<in> set records. \<not> holds_pair ws (pc_tag c) r)
      | Some r \<Rightarrow> r \<in> set records \<and> holds_pair ws (pc_tag c) r \<and> pc_reclaim c = reap_verdict (w_machine W) r \<and>
          (worker_phase_active r \<and> sr_worker_pid r = None \<longrightarrow>
             w_lock W (sr_id r) = LockFree \<and> pc_fence c = Some (sr_id r)))"
proof -
  obtain tag where t: "claim_tag W ws tag records = Inr c" "\<not> fresh \<longrightarrow> tag = req_tag"
    using assms by (auto simp: claim_pair_def split: if_splits option.splits)
  show ?thesis
  proof (cases "holder_of (w_machine W) records ws tag")
    case None
    with t(1) have "c = \<lparr>pc_tag = tag, pc_superseded = None, pc_reclaim = None, pc_fence = None\<rparr>"
      by (simp add: claim_tag_def)
    with t(2) holder_of_None [OF None] show ?thesis by simp
  next
    case (Some h)
    with t(1) obtain k where k: "claim_holder_pair W h = Inr k"
        "c = \<lparr>pc_tag = tag, pc_superseded = Some h, pc_reclaim = Some (hc_verdict k), pc_fence = hc_fence k\<rparr>"
      by (auto simp: claim_tag_def res_bind_eq_Inr)
    note ok = claim_holder_ok [OF k(1)]
    have "reap_verdict (w_machine W) r \<noteq> None" if "r \<in> set records" "holds_pair ws tag r" for r
      using holder_of_live [OF that, of "w_machine W"] Some ok by (metis option.distinct(1) option.inject)
    with k ok t(2) holder_of_Some [OF Some] show ?thesis by simp
  qed
qed

fun entry_records :: "reg_paths \<Rightarrow> reg_entry \<Rightarrow> session_record list" where
  "entry_records P Stray = []"
| "entry_records P (SessionDir sid d) = (case read_dir_state P sid d of Inr r \<Rightarrow> [r] | Inl _ \<Rightarrow> [])"

lemma collect_records_concat: "collect_records P es = Inr rs \<Longrightarrow> rs = concat (map (entry_records P) es)"
  by (induction P es arbitrary: rs rule: collect_records.induct)
    (auto simp: res_bind_eq_Inr split: sum.splits if_splits)

lemma list_records_set: "list_records P reg = Inr rs \<Longrightarrow> set rs = (\<Union>e \<in> set (rg_entries reg). set (entry_records P e))"
  by (auto simp: list_records_def res_bind_eq_Inr dest!: collect_records_concat)

lemma entry_records_elem: "r \<in> set (entry_records P e) \<longleftrightarrow> (\<exists>sid d. e = SessionDir sid d \<and> read_dir_state P sid d = Inr r)"
  by (cases e) (auto split: sum.splits)

definition one_dir_each :: "registry \<Rightarrow> bool" where
  "one_dir_each reg \<longleftrightarrow> (\<forall>sid d. SessionDir sid d \<in> set (rg_entries reg) \<longrightarrow> dir_of sid (rg_entries reg) = Some d)"

lemma one_dir_drop:
  "one_dir_each reg \<Longrightarrow> rg_entries reg' = drop_entry sid (rg_entries reg) \<Longrightarrow> one_dir_each reg'"
  unfolding one_dir_each_def by (simp only: dir_of_drop_entry) (auto simp: drop_entry_def)

definition spared :: "reg_world \<Rightarrow> reg_paths \<Rightarrow> uuid \<Rightarrow> registry \<Rightarrow> registry \<Rightarrow> bool" where
  "spared W P self reg reg' \<longleftrightarrow>
     (\<forall>sid d. dir_of sid (rg_entries reg) = Some d \<longrightarrow>
        dir_of sid (rg_entries reg') = Some d \<or>
        sid \<noteq> self \<and> dir_of sid (rg_entries reg') = None \<and> destroyable W P sid d)"

lemma spared_drop:
  assumes "rg_entries reg1 = drop_entry sid (rg_entries reg)" "spared W P self reg1 reg'"
    and "dir_of sid (rg_entries reg) = Some d" "destroyable W P sid d" "sid \<noteq> self"
    and "dir_of sid (rg_entries reg') = None"
  shows "spared W P self reg reg'"
  unfolding spared_def
proof (intro allI impI)
  fix i x assume x: "dir_of i (rg_entries reg) = Some x"
  show "dir_of i (rg_entries reg') = Some x \<or>
      i \<noteq> self \<and> dir_of i (rg_entries reg') = None \<and> destroyable W P i x"
  proof (cases "i = sid")
    case True
    with x assms(3-6) show ?thesis by simp
  next
    case False
    with x assms(1) have "dir_of i (rg_entries reg1) = Some x" by simp
    with assms(2) show ?thesis unfolding spared_def by blast
  qed
qed

lemma take_pair_gone:
  "take_pair W P self ws tag reg = (res, reg') \<Longrightarrow> res = Inr () \<Longrightarrow> dir_of sid (rg_entries reg) = None \<Longrightarrow>
     dir_of sid (rg_entries reg') = None"
proof (induction W P self ws tag reg rule: take_pair.induct)
  case (1 W P self ws tag reg)
  obtain rs where rs: "list_records P reg = Inr rs"
    using "1.prems" by (auto simp: take_pair.simps [of W P self ws tag reg] split: sum.splits)
  show ?case
  proof (cases "find (conflicting self ws tag) rs")
    case None
    with "1.prems" rs show ?thesis by (auto simp: take_pair.simps [of W P self ws tag reg])
  next
    case (Some holder)
    obtain c reg1 where c: "claim_holder_pair W holder = Inr c" "retire_reclaimed_holder W P holder reg = (Inr (), reg1)"
        "take_pair W P self ws tag reg1 = (res, reg')"
      using "1.prems" rs Some by (auto simp: take_pair.simps [of W P self ws tag reg] split: sum.splits prod.splits)
    have "dir_of sid (rg_entries reg1) = None" using retire_ok [OF c(2)] "1.prems"(3) by simp
    from "1.IH" [OF rs Some c(1) c(2) [symmetric] refl c(3) "1.prems"(2) this] show ?thesis .
  qed
qed

lemma take_pair_spares:
  "one_dir_each reg \<Longrightarrow> take_pair W P self ws tag reg = (Inr u, reg') \<Longrightarrow>
     one_dir_each reg' \<and> spared W P self reg reg' \<and>
     (\<exists>rs. list_records P reg' = Inr rs \<and> (\<forall>r \<in> set rs. \<not> conflicting self ws tag r))"
proof (induction W P self ws tag reg rule: take_pair.induct)
  case (1 W P self ws tag reg)
  obtain rs where rs: "list_records P reg = Inr rs"
    using "1.prems"(2) by (auto simp: take_pair.simps [of W P self ws tag reg] split: sum.splits)
  show ?case
  proof (cases "find (conflicting self ws tag) rs")
    case None
    with "1.prems" rs show ?thesis
      by (auto simp: take_pair.simps [of W P self ws tag reg] find_None_iff spared_def)
  next
    case (Some holder)
    obtain c reg1 where c: "claim_holder_pair W holder = Inr c" "retire_reclaimed_holder W P holder reg = (Inr (), reg1)"
        "take_pair W P self ws tag reg1 = (Inr u, reg')"
      using "1.prems"(2) rs Some by (auto simp: take_pair.simps [of W P self ws tag reg] split: sum.splits prod.splits)
    have e: "rg_entries reg1 = drop_entry (sr_id holder) (rg_entries reg)" using retire_ok [OF c(2)] by blast
    have h: "holder \<in> set rs" "conflicting self ws tag holder" using Some by (auto simp: find_Some_iff)
    then obtain sid d where d: "SessionDir sid d \<in> set (rg_entries reg)" "read_dir_state P sid d = Inr holder"
      unfolding list_records_set [OF rs] by (auto simp: entry_records_elem)
    then have sid: "sr_id holder = sid" "dir_of sid (rg_entries reg) = Some d"
      using read_checked "1.prems"(1) by (auto simp: one_dir_each_def)
    have "destroyable W P sid d" using d(2) claim_holder_ok [OF c(1)] sid by (auto simp: destroyable_def)
    moreover have "sid \<noteq> self" using h(2) sid by (simp add: conflicting_def)
    moreover note ih = "1.IH" [OF rs Some c(1) c(2) [symmetric] refl one_dir_drop [OF "1.prems"(1) e] c(3)]
    moreover have "dir_of sid (rg_entries reg') = None"
      using take_pair_gone [OF c(3), of sid] e sid by simp
    ultimately show ?thesis using spared_drop [of reg1 sid reg] sid e by blast
  qed
qed

lemma collect_put_dir:
  "collect_records P es = Inr rs \<Longrightarrow> check_session_record P self r' = Inr r' \<Longrightarrow>
     \<exists>rs'. collect_records P (put_dir self (Record r') es) = Inr rs' \<and> set rs' \<subseteq> insert r' (set rs)"
proof (induction P es arbitrary: rs rule: collect_records.induct)
  case (3 P sid d es)
  obtain qs where qs: "collect_records P es = Inr qs" "set qs \<subseteq> set rs"
      "\<And>r. read_dir_state P sid d = Inr r \<Longrightarrow> rs = r # qs" "\<And>e. read_dir_state P sid d = Inl e \<Longrightarrow> e = RegNotFound"
    using "3.prems"(1) by (fastforce simp: res_bind_eq_Inr split: sum.splits if_splits)
  show ?case
  proof (cases "sid = self")
    case True
    with "3.prems"(2) qs show ?thesis by (auto simp: res_bind_def)
  next
    case False
    have "\<exists>ps. collect_records P (put_dir self (Record r') es) = Inr ps \<and> set ps \<subseteq> insert r' (set qs)"
      using "3.IH" "3.prems"(2) qs(1) by (cases "read_dir_state P sid d") (auto simp: qs(4))
    then obtain ps where ps: "collect_records P (put_dir self (Record r') es) = Inr ps" "set ps \<subseteq> insert r' (set qs)"
      by blast
    with False qs show ?thesis by (cases "read_dir_state P sid d") auto
  qed
qed simp_all

lemma update_own_ok:
  assumes "update_own f now po rt reg = (Inr r, rt', reg')"
  shows "r = (f (rt_record rt))\<lparr>sr_updated_at_ms := now\<rparr> \<and> rt_record rt' = r \<and> rt_disk rt' = r \<and>
     reg' = reg\<lparr>rg_entries := put_dir (sr_id (rt_record rt)) (Record r) (rg_entries reg)\<rparr>"
  using assms by (auto simp: update_own_def update_record_def Let_def
      split: if_splits persist_outcome.splits prod.splits sum.splits rt_error.splits)

text \<open>
  C22: after a rename one pair has one record. A rename that succeeds leaves no other record on
  its pair, every record it retired on the way was destroyable when it was re-read, and no
  other session's state changed; the record in memory, the one on disk and the answer are the
  same one and carry the pair. The worker's own record is one the registry accepts, as the one it
  was started on was.
\<close>

theorem rename_exclusive:
  assumes "rename W P canonical workspace tag now po rt reg = (Inr r', rt', reg')" and "one_dir_each reg"
    and "self = sr_id (rt_record rt)" and "check_session_record P self (rt_record rt) = Inr (rt_record rt)"
  shows "\<exists>ws rs. canonical workspace = Some ws \<and> validate_tag tag = Inr () \<and> list_records P reg' = Inr rs \<and>
     (\<forall>r \<in> set rs. holds_pair ws tag r \<longrightarrow> sr_id r = self) \<and>
     (\<forall>sid d. sid \<noteq> self \<and> dir_of sid (rg_entries reg) = Some d \<longrightarrow>
        dir_of sid (rg_entries reg') = Some d \<or> dir_of sid (rg_entries reg') = None \<and> destroyable W P sid d) \<and>
     rt_record rt' = r' \<and> dir_of self (rg_entries reg') = Some (Record r') \<and> sr_id r' = self \<and> holds_pair ws tag r'"
proof -
  obtain ws reg1 where ws: "canonical workspace = Some ws" "validate_tag tag = Inr ()"
      and t: "take_pair W P self ws tag reg = (Inr (), reg1)"
      and up: "update_own (\<lambda>r. r\<lparr>sr_workspace := ws, sr_tag := tag\<rparr>) now po rt reg1 = (Inr r', rt', reg')"
    using assms(1,3) by (auto simp: rename_def split: if_splits option.splits prod.splits sum.splits)
  note own = update_own_ok [OF up, folded assms(3)]
  have there: "dir_of self (rg_entries reg1) \<noteq> None"
    using up by (auto simp: update_own_def update_record_def Let_def assms(3)
        split: if_splits persist_outcome.splits)
  from take_pair_spares [OF assms(2) t] obtain rs
    where rs: "list_records P reg1 = Inr rs" "\<forall>r \<in> set rs. \<not> conflicting self ws tag r" and sp: "spared W P self reg reg1"
    by blast
  from rs(1) obtain qs where qs: "collect_records P (rg_entries reg1) = Inr qs" "set qs = set rs"
    by (auto simp: list_records_def res_bind_eq_Inr)
  have ok: "check_session_record P self r' = Inr r'" "sr_id r' = self" "holds_pair ws tag r'"
    using assms(4) own by (auto simp: check_session_record_def holds_pair_def split: if_splits)
  from collect_put_dir [OF qs(1) ok(1)] obtain ps
    where ps: "collect_records P (rg_entries reg') = Inr ps" "set ps \<subseteq> insert r' (set qs)" using own by auto
  have "\<forall>r \<in> set (sort_key (\<lambda>r. - int (sr_created_at_ms r)) ps). holds_pair ws tag r \<longrightarrow> sr_id r = self"
    using ps(2) qs(2) rs(2) ok(2) by (auto simp: conflicting_def)
  moreover have "list_records P reg' = Inr (sort_key (\<lambda>r. - int (sr_created_at_ms r)) ps)"
    using ps(1) by (simp add: list_records_def)
  moreover have "dir_of sid (rg_entries reg') = Some d \<or> dir_of sid (rg_entries reg') = None \<and> destroyable W P sid d"
    if "sid \<noteq> self" "dir_of sid (rg_entries reg) = Some d" for sid d
    using sp that own by (auto simp: spared_def)
  moreover have "dir_of self (rg_entries reg') = Some (Record r')" using own there by auto
  ultimately show ?thesis using ws ok own by blast
qed

section \<open>Following the shell\<close>

lemma sync_candidate_inject: "sync_candidate tag i = sync_candidate tag j \<Longrightarrow> i = j"
  using numbered_def [of tag] by (auto simp: sync_candidate_def split: if_splits)

text \<open>A free tag is always found among one candidate more than there are records.\<close>

lemma free_workspace_tag_found: "\<exists>k. free_workspace_tag self ws tag records = Some (sync_candidate tag k)"
proof (cases "free_workspace_tag self ws tag records")
  case None
  then have "list_ex (conflicting self ws (sync_candidate tag k)) records" if "k \<le> length records" for k
    using that by (auto simp: free_workspace_tag_def find_None_iff simp del: upt_Suc)
  then have "sync_candidate tag ` {..length records} \<subseteq> sr_tag ` set records"
    by (auto simp: list_ex_iff conflicting_def holds_pair_def) (metis image_eqI)
  then have "card (sync_candidate tag ` {..length records}) \<le> card (sr_tag ` set records)"
    by (intro card_mono) auto
  also have "\<dots> \<le> length records" by (metis card_image_le card_length le_trans List.finite_set)
  also have "card (sync_candidate tag ` {..length records}) = Suc (length records)"
    by (subst card_image) (auto intro: inj_onI sync_candidate_inject)
  finally show ?thesis by simp
next
  case (Some t)
  then obtain i where "t = sync_candidate tag i"
    unfolding free_workspace_tag_def find_Some_iff by (auto simp del: upt_Suc)
  with Some show ?thesis by blast
qed

text \<open>
  following the shell into another workspace displaces nobody and always finds a name: the
  new tag is the old one or a numbered one, and no other record holds it there. It is not checked
  against the rules for tags: from a 64-byte tag that is taken, the record gets a longer one.
\<close>

theorem sync_tag_free:
  "\<exists>k. free_workspace_tag self ws tag records = Some (sync_candidate tag k) \<and>
     \<not> list_ex (conflicting self ws (sync_candidate tag k)) records \<and>
     (0 < k \<longrightarrow> length tag = 64 \<longrightarrow> validate_tag (sync_candidate tag k) \<noteq> Inr ())"
proof -
  obtain k where k: "free_workspace_tag self ws tag records = Some (sync_candidate tag k)"
    using free_workspace_tag_found by blast
  then have "\<not> list_ex (conflicting self ws (sync_candidate tag k)) records"
    by (auto simp: free_workspace_tag_def find_Some_iff)
  moreover have "0 < k \<Longrightarrow> length tag = 64 \<Longrightarrow> validate_tag (sync_candidate tag k) \<noteq> Inr ()"
    by (simp add: validate_tag_def sync_candidate_def numbered_def)
  ultimately show ?thesis using k by auto
qed

section \<open>Witnesses\<close>

text \<open>The main session of the sample registry is live, so a fresh one is \<open>main-2\<close>.\<close>

lemma sample_live: "live_holder sample_machine [sample_record, dead_record, starting_record] ''/w'' ''main''"
  by (simp add: live_holder_def holds_pair_def sample_verdicts sample_record_def)
    (simp add: sample_verdicts flip: sample_record_def)

theorem pick_fresh_tag_first_free_witness:
  "\<exists>r. pick_fresh_tag sample_machine [sample_record, dead_record, starting_record] ''/w'' ''main'' = Some r \<and>
     r \<noteq> Some ''main''"
proof -
  let ?rs = "[sample_record, dead_record, starting_record]"
  have "length ?rs < U64_MAX" by (simp add: size_consts)
  from pick_fresh_tag_first_free [OF this, of sample_machine "''/w''" "''main''"] obtain k
    where "\<not> live_holder sample_machine ?rs ''/w'' (candidate ''main'' k) \<and>
        pick_fresh_tag sample_machine ?rs ''/w'' ''main'' = Some (Some (candidate ''main'' k)) \<or>
      pick_fresh_tag sample_machine ?rs ''/w'' ''main'' = Some None" by blast
  with sample_live show ?thesis by auto
qed

lemma sample_one_dir: "one_dir_each sample_registry"
  by (auto simp: one_dir_each_def sample_registry_def)

definition calm_world :: reg_world where
  "calm_world = sample_reg_world\<lparr>w_lock := (\<lambda>_. LockFree), w_sync_ok := True\<rparr>"

lemma sample_holder:
  "holder_of sample_machine [sample_record, dead_record, starting_record] ''/w'' ''next'' = Some starting_record"
  by (simp add: holder_of_def holds_pair_def sample_record_def dead_record_def starting_record_def)

lemma sample_claim_holder:
  "claim_holder_pair calm_world starting_record = Inr \<lparr>hc_verdict = NoRemainingHandle, hc_fence = Some 7\<rparr>"
proof -
  have "w_machine calm_world = sample_machine" "sr_id starting_record = 7" "worker_phase_active starting_record"
      "sr_worker_pid starting_record = None" "w_lock calm_world 7 = LockFree"
    by (simp_all add: calm_world_def sample_reg_world_def starting_record_def sample_record_def worker_phase_active_def)
  then show ?thesis by (simp add: claim_holder_pair_def sample_verdicts fence_cases)
qed

theorem claim_pair_spares_live_witness:
  "case claim_pair calm_world sample_paths ''next'' False ''/w'' sample_registry of
     Some (Inr c) \<Rightarrow> pc_fence c = Some 7 | _ \<Rightarrow> False"
proof -
  have "w_machine calm_world = sample_machine" by (simp add: calm_world_def sample_reg_world_def)
  then have c: "claim_pair calm_world sample_paths ''next'' False ''/w'' sample_registry =
      Some (Inr \<lparr>pc_tag = ''next'', pc_superseded = Some starting_record, pc_reclaim = Some NoRemainingHandle,
        pc_fence = Some 7\<rparr>)"
    by (simp add: claim_pair_def sample_list claim_tag_def sample_holder sample_claim_holder)
  have "sr_id starting_record = 7" "worker_phase_active starting_record" "sr_worker_pid starting_record = None"
    by (simp_all add: starting_record_def sample_record_def worker_phase_active_def)
  with claim_pair_spares_live [OF c sample_list] show ?thesis by (simp add: c)
qed

text \<open>The live session takes the name of the one that never came up.\<close>

definition after_retire :: registry where
  "after_retire = sample_registry\<lparr>rg_entries := [SessionDir 5 (Record sample_record), SessionDir 6 (Record dead_record), SessionDir 8 NoRecord],
     rg_runtime := [5, 6], rg_tombstones := [7]\<rparr>"

lemma sample_retire: "retire_reclaimed_holder calm_world sample_paths starting_record sample_registry = (Inr (), after_retire)"
proof -
  have "w_machine calm_world = sample_machine" "sr_id starting_record = 7"
    by (simp_all add: calm_world_def sample_reg_world_def starting_record_def)
  then show ?thesis
    by (simp add: retire_reclaimed_holder_def archive_reclaimed_predecessor_def read_session_record_def
        sample_registry_def sample_checks sample_verdicts archive_superseded_session_def
        cleanup_superseded_archive_def calm_world_def sample_reg_world_def write_finished_tombstone_def
        remove_runtime_def drop_entry_def after_retire_def del: read_dir_state.simps(3)) auto
qed

lemma sample_take_pair: "take_pair calm_world sample_paths 5 ''/w'' ''next'' sample_registry = (Inr (), after_retire)"
proof -
  have "list_records sample_paths after_retire = Inr [sample_record, dead_record]"
    by (simp add: list_records_def after_retire_def sample_checks del: read_dir_state.simps(3))
      (simp add: sort_key_def sample_record_def dead_record_def)
  moreover have "find (conflicting 5 ''/w'' ''next'') [sample_record, dead_record] = None"
    "find (conflicting 5 ''/w'' ''next'') [sample_record, dead_record, starting_record] = Some starting_record"
    by (simp_all add: conflicting_def holds_pair_def sample_record_def dead_record_def starting_record_def)
  ultimately show ?thesis
    by (simp add: take_pair.simps [of _ _ _ _ _ sample_registry] take_pair.simps [of _ _ _ _ _ after_retire]
        sample_list sample_claim_holder sample_retire)
qed

theorem rename_exclusive_witness:
  "\<exists>r' rt' reg'. rename calm_world sample_paths Some ''/w'' ''next'' 9 PersistOk sample_rt sample_registry = (Inr r', rt', reg') \<and>
     dir_of 5 (rg_entries reg') = Some (Record r') \<and> holds_pair ''/w'' ''next'' r'"
proof -
  have own: "rt_record sample_rt = sample_record" "sr_id sample_record = 5" "\<not> finalized (rt_hub sample_rt)"
    by (simp_all add: sample_rt_def sample_record_def rt_hub0_def)
  have "dir_of 5 (rg_entries after_retire) = Some (Record sample_record)" by (simp add: after_retire_def)
  moreover have "validate_tag ''next'' = Inr ()" by (simp add: validate_tag_def is_name_char_def is_ascii_alnum_def)
  moreover have "w_registry_free calm_world" by (simp add: calm_world_def sample_reg_world_def)
  ultimately have "\<exists>r' rt' reg'. rename calm_world sample_paths Some ''/w'' ''next'' 9 PersistOk sample_rt sample_registry =
      (Inr r', rt', reg')"
    by (simp add: rename_def sample_take_pair own update_own_def update_record_def Let_def)
  then obtain r' rt' reg' where run: "rename calm_world sample_paths Some ''/w'' ''next'' 9 PersistOk sample_rt sample_registry =
      (Inr r', rt', reg')" by blast
  have "check_session_record sample_paths 5 (rt_record sample_rt) = Inr (rt_record sample_rt)"
    using sample_checks(1) own by simp
  from rename_exclusive [OF run sample_one_dir _ this] run own show ?thesis by auto
qed

text \<open>A 64-byte tag that is taken in the new workspace becomes a 66-byte one.\<close>

theorem sync_tag_free_witness:
  "\<exists>t. free_workspace_tag 9 ''/w'' (replicate 64 (CHR ''a'')) [sample_record\<lparr>sr_tag := replicate 64 (CHR ''a'')\<rparr>] = Some t \<and>
     validate_tag t \<noteq> Inr ()"
proof -
  let ?t = "replicate 64 (CHR ''a'')" and ?rs = "[sample_record\<lparr>sr_tag := replicate 64 (CHR ''a'')\<rparr>]"
  obtain k where k: "free_workspace_tag 9 ''/w'' ?t ?rs = Some (sync_candidate ?t k)"
      "\<not> list_ex (conflicting 9 ''/w'' (sync_candidate ?t k)) ?rs"
      "0 < k \<longrightarrow> length ?t = 64 \<longrightarrow> validate_tag (sync_candidate ?t k) \<noteq> Inr ()"
    using sync_tag_free [of 9 "''/w''" ?t ?rs] by blast
  have "k \<noteq> 0"
  proof
    assume "k = 0"
    with k(2) show False by (simp add: conflicting_def holds_pair_def sample_record_def sync_candidate_def)
  qed
  with k show ?thesis by auto
qed

end
