(* ===== verification/Report_Laws.thy ===== *)
theory Report_Laws
  imports Worker_Runtime
begin

text \<open>
  What \<open>report_state\<close> promises: the reports that reach the record are in the order of the
  engine's events, whatever the order they arrive in, and a refused one leaves the reported
  state alone. The last part shows where the fence leaks: the flag that arms the promotion of
  the initial prompt is set before the report is judged.
\<close>

lemma update_record_Inr:
  "update_record f now po rt = (Inr rec, rt') \<Longrightarrow>
     \<not> finalized (rt_hub rt) \<and> po = PersistOk \<and> rec = (f (rt_record rt))\<lparr>sr_updated_at_ms := now\<rparr> \<and>
     rt_record rt' = rec \<and> rt_disk rt' = rec"
  by (auto simp: update_record_def Let_def split: if_splits persist_outcome.splits)

lemma update_record_Inl:
  "update_record f now po rt = (Inl e, rt') \<Longrightarrow>
     rt_record rt' = rt_record rt \<and>
     (rt_disk rt' = rt_disk rt \<or>
      po = PersistFailedAfter \<and> rt_disk rt' = (f (rt_record rt))\<lparr>sr_updated_at_ms := now\<rparr>)"
  by (auto simp: update_record_def Let_def split: if_splits persist_outcome.splits)

text \<open>The four fields a report writes.\<close>

definition reported_fields :: "session_record \<Rightarrow> string option \<times> nat option \<times> nat option \<times> string option" where
  "reported_fields r = (sr_reported_state r, sr_reported_state_at_ms r, sr_reported_state_event_ms r,
     sr_reported_state_engine_session_id r)"

lemma reported_fields_stamp [simp]: "reported_fields (r\<lparr>sr_updated_at_ms := t\<rparr>) = reported_fields r"
  by (simp add: reported_fields_def)

definition effective_state :: "bool \<Rightarrow> string \<Rightarrow> string option \<Rightarrow> string" where
  "effective_state fresh state hook_event =
     (if hook_event = Some ''SessionStart'' \<and> state = ''working'' \<and> fresh then ''idle'' else state)"

lemma report_state_cases:
  assumes "report_state V J state event_ms session hook now po rt = (r, rt')"
  obtains (Invalid) "r = Inl (RtRecord BadState)" "rt' = rt"
  | (Unwritten) e where "r = Inl e" "e \<in> {Finalized, RecordWrite}" "rt_record rt' = rt_record rt"
      "e = Finalized \<longrightarrow> rt_disk rt' = rt_disk rt"
  | (Refused) e where "r = Inl e" "report_fence (effective_state (hub_fresh_empty_prompt V J (rt_hub rt)) state hook)
        event_ms session (rt_record rt) = Some e"
      "reported_fields (rt_record rt') = reported_fields (rt_record rt)"
      "reported_fields (rt_disk rt') = reported_fields (rt_record rt)"
  | (Accepted) rec where "r = Inr rec" "rt_record rt' = rec" "rt_disk rt' = rec"
      "report_fence (effective_state (hub_fresh_empty_prompt V J (rt_hub rt)) state hook)
        event_ms session (rt_record rt) = None"
      "rec = (apply_report (effective_state (hub_fresh_empty_prompt V J (rt_hub rt)) state hook)
        event_ms session (max now (last_activity_ms rt)) (rt_record rt))\<lparr>sr_updated_at_ms := now\<rparr>"
proof -
  let ?st = "effective_state (hub_fresh_empty_prompt V J (rt_hub rt)) state hook"
  let ?fence = "report_fence ?st event_ms session (rt_record rt)"
  let ?f = "\<lambda>r. if ?fence = None then apply_report ?st event_ms session (max now (last_activity_ms rt)) r else r"
  let ?rt1 = "if hook = Some ''SessionStart'' then rt\<lparr>awaiting_initial_prompt := \<not> hub_fresh_empty_prompt V J (rt_hub rt)\<rparr>
     else if state \<noteq> ''working'' \<or> hook \<noteq> None \<or> hub_fresh_empty_prompt V J (rt_hub rt)
     then rt\<lparr>awaiting_initial_prompt := False\<rparr> else rt"
  have same: "rt_record ?rt1 = rt_record rt" by simp
  show thesis
  proof (cases "validate_reported_state state = Inr ()")
    case False
    with assms Invalid show thesis by (auto simp: report_state_def)
  next
    case True
    obtain x rt2 where x: "update_record ?f now po ?rt1 = (x, rt2)" by force
    from True assms have eq: "(r, rt') = (case update_record ?f now po ?rt1 of
        (Inl e, rt2) \<Rightarrow> (Inl e, rt2)
      | (Inr rec, rt2) \<Rightarrow> (case ?fence of None \<Rightarrow> (Inr rec, rt2) | Some refusal \<Rightarrow> (Inl refusal, rt2)))"
      unfolding report_state_def Let_def effective_state_def by simp
    show thesis
    proof (cases x)
      case (Inl e)
      with x have ux: "update_record ?f now po ?rt1 = (Inl e, rt2)" by simp
      then have "e \<in> {Finalized, RecordWrite}" "e = Finalized \<longrightarrow> rt_disk rt2 = rt_disk ?rt1"
        by (auto simp: update_record_def Let_def split: if_splits persist_outcome.splits)
      with eq ux update_record_Inl [OF ux] same show thesis by (intro Unwritten [of e]) auto
    next
      case (Inr rec)
      with x have ux: "update_record ?f now po ?rt1 = (Inr rec, rt2)" by simp
      from update_record_Inr [OF ux] same
      have u: "rec = (?f (rt_record rt))\<lparr>sr_updated_at_ms := now\<rparr>" "rt_record rt2 = rec" "rt_disk rt2 = rec" by auto
      show thesis
      proof (cases ?fence)
        case None
        with eq ux u show thesis by (intro Accepted [of rec]) auto
      next
        case (Some e)
        with eq ux u show thesis by (intro Refused [of e]) auto
      qed
    qed
  qed
qed

section \<open>Reports and output in any order\<close>

record report =
  rp_state :: string
  rp_event_ms :: "nat option"
  rp_session :: "string option"
  rp_hook :: "string option"

datatype rt_event =
    Report report nat persist_outcome
  | Output "(pty_read \<times> nat \<times> persist_outcome) list"
  | Pin "string option" nat persist_outcome

text \<open>A run of connections reporting and the PTY reader, with the reports that were accepted.\<close>

fun report_run ::
    "'p vt100 \<Rightarrow> 'p screen_judges \<Rightarrow> rt_event list \<Rightarrow> 'p runtime \<Rightarrow> report list \<times> 'p runtime" where
  "report_run V J [] rt = ([], rt)"
| "report_run V J (Report p now po # es) rt =
     (case report_state V J (rp_state p) (rp_event_ms p) (rp_session p) (rp_hook p) now po rt of
        (Inl _, rt') \<Rightarrow> report_run V J es rt'
      | (Inr _, rt') \<Rightarrow> map_prod (Cons p) id (report_run V J es rt'))"
| "report_run V J (Output reads # es) rt = report_run V J es (snd (run_pty_reader V J reads rt))"
| "report_run V J (Pin agent now po # es) rt = report_run V J es (snd (set_agent (\<lambda>_. True) agent now po rt))"

abbreviation stamp :: "'p runtime \<Rightarrow> nat option" where
  "stamp rt \<equiv> sr_reported_state_event_ms (rt_record rt)"

lemma update_record_keeps_stamp:
  assumes "\<And>r. sr_reported_state_event_ms (f r) = sr_reported_state_event_ms r"
  shows "stamp (snd (update_record f now po rt)) = stamp rt"
  using assms by (auto simp: update_record_def Let_def split: persist_outcome.split)

lemma promote_keeps_stamp [simp]: "stamp (snd (promote_initial_prompt_idle now po rt)) = stamp rt"
  by (simp add: promote_initial_prompt_idle_def Let_def update_record_keeps_stamp)

lemma run_pty_reader_keeps_stamp [simp]: "stamp (snd (run_pty_reader V J reads rt)) = stamp rt"
  by (induction V J reads rt rule: run_pty_reader.induct) (auto simp: Let_def split: prod.split)

lemma set_agent_keeps_stamp [simp]: "stamp (snd (set_agent ok agent now po rt)) = stamp rt"
  by (simp add: set_agent_def update_record_keeps_stamp)

lemma report_state_stamp:
  assumes "report_state V J state event_ms session hook now po rt = (r, rt')"
  shows "case r of Inl _ \<Rightarrow> stamp rt' = stamp rt
    | Inr _ \<Rightarrow> (event_ms = None \<longrightarrow> stamp rt = None) \<and> stamp rt' = event_ms \<and>
        (\<forall>k i. stamp rt = Some k \<longrightarrow> event_ms = Some i \<longrightarrow> k < i)"
  using assms
proof (cases rule: report_state_cases)
  case (Accepted rec)
  then show ?thesis
    by (auto simp: report_fence_def apply_report_def report_event_is_stale_def split: if_splits option.splits)
qed (auto simp: reported_fields_def)

lemma report_run_stamps:
  "\<exists>n ss. map rp_event_ms (fst (report_run V J es rt)) = replicate n None @ map Some ss \<and>
     (stamp rt \<noteq> None \<longrightarrow> n = 0) \<and> sorted_wrt (<) (case_option [] (\<lambda>k. [k]) (stamp rt) @ ss) \<and>
     stamp (snd (report_run V J es rt)) = (if ss = [] then stamp rt else Some (last ss))"
proof (induction V J es rt rule: report_run.induct)
  case (1 V J rt)
  show ?case by (intro exI [of _ 0] exI [of _ "[]"]) (auto split: option.split)
next
  case (2 V J p now po es rt)
  obtain r rt' where r: "report_state V J (rp_state p) (rp_event_ms p) (rp_session p) (rp_hook p) now po rt = (r, rt')"
    by force
  note st = report_state_stamp [OF r]
  show ?case
  proof (cases r)
    case (Inl e)
    with st have "stamp rt' = stamp rt" by simp
    moreover have "report_run V J (Report p now po # es) rt = report_run V J es rt'" using r Inl by simp
    ultimately show ?thesis using "2.IH"(1) [OF r [symmetric] Inl] by (simp only:)
  next
    case (Inr rec)
    with st have st: "rp_event_ms p = None \<longrightarrow> stamp rt = None" "stamp rt' = rp_event_ms p"
      "\<forall>k i. stamp rt = Some k \<longrightarrow> rp_event_ms p = Some i \<longrightarrow> k < i" by auto
    from "2.IH"(2) [OF r [symmetric] Inr] obtain n ss where ss:
      "map rp_event_ms (fst (report_run V J es rt')) = replicate n None @ map Some ss"
      "stamp rt' \<noteq> None \<longrightarrow> n = 0" "sorted_wrt (<) (case_option [] (\<lambda>k. [k]) (stamp rt') @ ss)"
      "stamp (snd (report_run V J es rt')) = (if ss = [] then stamp rt' else Some (last ss))" by blast
    show ?thesis
    proof (cases "rp_event_ms p")
      case None
      with ss st r Inr show ?thesis by (intro exI [of _ "Suc n"] exI [of _ ss]) simp
    next
      case (Some i)
      have "sorted_wrt (<) (case_option [] (\<lambda>k. [k]) (stamp rt) @ i # ss)"
        using ss(3) st Some by (auto split: option.split dest: order.strict_trans)
      with ss st r Inr Some show ?thesis by (intro exI [of _ 0] exI [of _ "i # ss"]) auto
    qed
  qed
qed (simp_all only: report_run.simps run_pty_reader_keeps_stamp set_agent_keeps_stamp)

text \<open>
  C27: reports are applied in the order of the engine's events. In any run of reports, output and
  pins, the accepted reports are unstamped ones first and then stamped ones with strictly rising
  stamps, all newer than the stamp the record started with; from a stamped record on no unstamped
  report is accepted; and the record's stamp is always that of the newest accepted report.
\<close>

theorem reports_in_engine_order:
  "\<exists>n ss. map rp_event_ms (fst (report_run V J es rt)) = replicate n None @ map Some ss \<and>
     (n = 0 \<or> sr_reported_state_event_ms (rt_record rt) = None) \<and>
     sorted_wrt (<) (case_option [] (\<lambda>k. [k]) (sr_reported_state_event_ms (rt_record rt)) @ ss) \<and>
     sr_reported_state_event_ms (rt_record (snd (report_run V J es rt))) =
       (if ss = [] then sr_reported_state_event_ms (rt_record rt) else Some (last ss))"
  using report_run_stamps [of V J es rt] by blast

text \<open>
  What a report does to the record. An accepted report has written its state (idle for a
  session that starts on an empty prompt), its stamp and its session to memory and to disk, and
  it did not idle a record whose known engine session is another. Every refusal leaves the
  reported state in memory as it was; on disk it can differ only after a failed record write.
\<close>

theorem report_state_outcome:
  assumes "report_state V J state event_ms session hook now po rt = (r, rt')"
  shows "case r of
      Inr rec \<Rightarrow> rt_record rt' = rec \<and> rt_disk rt' = rec \<and> state \<in> set REPORTED_AGENT_STATES \<and>
        sr_reported_state rec = Some (effective_state (hub_fresh_empty_prompt V J (rt_hub rt)) state hook) \<and>
        sr_reported_state_event_ms rec = event_ms \<and>
        (\<forall>s. session = Some s \<longrightarrow> sr_reported_state_engine_session_id rec = Some s) \<and>
        (\<forall>s k. sr_reported_state rec = Some ''idle'' \<longrightarrow> session = Some s \<longrightarrow>
           sr_reported_state_engine_session_id (rt_record rt) = Some k \<longrightarrow> s = k)
    | Inl e \<Rightarrow> reported_fields (rt_record rt') = reported_fields (rt_record rt) \<and>
        (rt_disk rt = rt_record rt \<longrightarrow> e \<noteq> RecordWrite \<longrightarrow>
           reported_fields (rt_disk rt') = reported_fields (rt_record rt))"
  using assms
proof (cases rule: report_state_cases)
  case (Accepted rec)
  with assms have "state \<in> set REPORTED_AGENT_STATES"
    by (auto simp: report_state_def validate_reported_state_def split: if_splits)
  with Accepted show ?thesis
    by (auto simp: report_fence_def apply_report_def idle_session_matches_def report_event_is_stale_def
        split: if_splits option.splits)
qed auto

section \<open>The armed promotion\<close>

text \<open>
  A refused report still acts. A stale \<open>SessionStart\<close> is refused, but it has armed the
  promotion of the initial prompt before it was judged: the next output that shows an empty
  prompt turns a newer \<open>working\<close> report into \<open>idle\<close>. Without the refused report the same output
  leaves the newer report alone.
\<close>

theorem stale_session_start_promotes:
  assumes "sr_reported_state (rt_record rt) = Some ''working''" "stamp rt = Some k" "i \<le> k"
    and "\<not> finalized (rt_hub rt)" "\<not> awaiting_initial_prompt rt" "\<not> hub_fresh_empty_prompt V J (rt_hub rt)"
    and rep: "report_state V J ''working'' (Some i) session (Some ''SessionStart'') now PersistOk rt = (r, rt1)"
    and "data \<noteq> []" "\<not> finalized (snd (hub_append V J data now (rt_hub rt1)))"
    and "fresh_empty_prompt (fst (hub_append V J data now (rt_hub rt1)))"
  shows "r = Inl StaleReport \<and>
     sr_reported_state (rt_record (snd (run_pty_reader V J [(PtyGot data, now, PersistOk)] rt1))) = Some ''idle'' \<and>
     sr_reported_state (rt_record (snd (run_pty_reader V J [(PtyGot data, now, PersistOk)] rt))) = Some ''working''"
proof -
  have st: "report_fence ''working'' (Some i) session (rt_record rt) = Some StaleReport"
    using assms(2,3) by (simp add: report_fence_def report_event_is_stale_def)
  have "validate_reported_state ''working'' = Inr ()"
    by (simp add: validate_reported_state_def REPORTED_AGENT_STATES_def)
  with rep st assms(4,6) have r: "r = Inl StaleReport"
    and rt1: "awaiting_initial_prompt rt1" "sr_reported_state (rt_record rt1) = sr_reported_state (rt_record rt)"
    by (auto simp: report_state_def update_record_def Let_def)
  obtain out h where o: "hub_append V J data now (rt_hub rt1) = (out, h)" by force
  obtain out' h' where o': "hub_append V J data now (rt_hub rt) = (out', h')" by force
  have "sr_reported_state (rt_record (snd (run_pty_reader V J [(PtyGot data, now, PersistOk)] rt1))) = Some ''idle''"
    using o assms(1,8-) rt1
    by (simp add: promote_initial_prompt_idle_def update_record_def Let_def)
  moreover have "sr_reported_state (rt_record (snd (run_pty_reader V J [(PtyGot data, now, PersistOk)] rt))) = Some ''working''"
    using o' assms(1,5,8) by (simp add: Let_def)
  ultimately show ?thesis using r by blast
qed

section \<open>Concrete runs\<close>

text \<open>A worker in the middle of a turn, whose screen turns into a prompt with the first byte.\<close>

definition working_rt :: "bytes runtime" where
  "working_rt = sample_rt\<lparr>rt_record := sample_record\<lparr>sr_reported_state := Some ''working'',
     sr_reported_state_event_ms := Some 7\<rparr>\<rparr>"

definition prompt_judges :: "bytes screen_judges" where
  "prompt_judges = quiet_judges\<lparr>screen_is_fresh_empty_prompt := \<lambda>_ _ p. p \<noteq> []\<rparr>"

lemma working_rt_simps [simp]:
  "sr_reported_state (rt_record working_rt) = Some ''working''" "stamp working_rt = Some 7"
  "rt_hub working_rt = rt_hub0" "\<not> finalized rt_hub0" "\<not> awaiting_initial_prompt working_rt"
  "\<not> hub_fresh_empty_prompt vt_log prompt_judges rt_hub0"
  by (simp_all add: working_rt_def sample_rt_def rt_hub0_def hub_fresh_empty_prompt_def prompt_judges_def)

lemma prompt_process:
  "st_process vt_log (hb_screen rt_hub0) [65] = ((hb_screen rt_hub0)\<lparr>st_parser := [65]\<rparr>, None)"
  by (simp add: rt_hub0_def st_process_def process_with_def scan_with_def mt_new_def sb_new_def sb_step_def
      utf8_need_def vt_log_def csi_event_default_def)

lemma prompt_append:
  "fresh_empty_prompt (fst (hub_append vt_log prompt_judges [65] 3 rt_hub0))"
  "\<not> finalized (snd (hub_append vt_log prompt_judges [65] 3 rt_hub0))"
proof -
  obtain r hist where a: "hist_append [65] (hb_history rt_hub0) = (r, hist)" by force
  let ?h = "(case r of Inl e \<Rightarrow> record_history_persistence_error e 3 (rt_hub0\<lparr>hb_history := hist\<rparr>)
     | Inr _ \<Rightarrow> rt_hub0\<lparr>hb_history := hist\<rparr>)\<lparr>hb_screen := (hb_screen rt_hub0)\<lparr>st_parser := [65]\<rparr>\<rparr>"
  have s: "hb_screen (case r of Inl e \<Rightarrow> record_history_persistence_error e 3 (rt_hub0\<lparr>hb_history := hist\<rparr>)
     | Inr _ \<Rightarrow> rt_hub0\<lparr>hb_history := hist\<rparr>) = hb_screen rt_hub0" "\<not> finalized ?h"
    by (auto simp: record_history_persistence_error_def split: sum.split)
  have eq: "hub_append vt_log prompt_judges [65] 3 rt_hub0 =
      settle vt_log prompt_judges 1 (fan_out vt_log [65] None ?h)"
    unfolding hub_append_def a Let_def prod.case s(1) prompt_process by simp
  have f: "hb_screen (fan_out vt_log [65] None ?h) = (hb_screen rt_hub0)\<lparr>st_parser := [65]\<rparr>"
    "\<not> finalized (fan_out vt_log [65] None ?h)"
    using s(2) by (simp_all add: fan_out_def retain_subscribers_def Let_def split: prod.split)
  have g: "\<not> st_in_synchronized_update ((hb_screen rt_hub0)\<lparr>st_parser := [65]\<rparr>)"
    "st_at_escape_boundary ((hb_screen rt_hub0)\<lparr>st_parser := [65]\<rparr>)"
    by (simp_all add: rt_hub0_def st_in_synchronized_update_def st_at_escape_boundary_def mt_new_def sb_new_def
        at_escape_boundary_def in_synchronized_update_def)
  show "fresh_empty_prompt (fst (hub_append vt_log prompt_judges [65] 3 rt_hub0))"
    "\<not> finalized (snd (hub_append vt_log prompt_judges [65] 3 rt_hub0))"
    unfolding eq settle_def Let_def f(1) using g f(2) by (simp_all add: prompt_judges_def)
qed

theorem report_state_outcome_witness:
  "sr_reported_state (rt_record (snd (report_state vt_log prompt_judges ''idle'' (Some 9) None None 3 PersistOk working_rt))) =
     Some ''idle''"
proof -
  let ?p = "report_state vt_log prompt_judges ''idle'' (Some 9) None None 3 PersistOk working_rt"
  obtain r where r: "fst ?p = Inr r"
    by (auto simp: report_state_def update_record_def Let_def validate_reported_state_def REPORTED_AGENT_STATES_def
        report_fence_def report_event_is_stale_def idle_session_matches_def split: option.splits)
  then have "?p = (Inr r, snd ?p)" by (simp add: prod_eq_iff)
  from report_state_outcome [OF this] show ?thesis by (simp add: effective_state_def)
qed

theorem stale_session_start_promotes_witness:
  "let rt1 = snd (report_state vt_log prompt_judges ''working'' (Some 5) None (Some ''SessionStart'') 3 PersistOk working_rt)
   in sr_reported_state (rt_record (snd (run_pty_reader vt_log prompt_judges [(PtyGot [65], 3, PersistOk)] rt1))) =
     Some ''idle''"
proof -
  let ?p = "report_state vt_log prompt_judges ''working'' (Some 5) None (Some ''SessionStart'') 3 PersistOk working_rt"
  have hub: "rt_hub (snd ?p) = rt_hub0"
    by (simp add: report_state_def update_record_def Let_def validate_reported_state_def REPORTED_AGENT_STATES_def
        report_fence_def report_event_is_stale_def broadcast_record_def retain_subscribers_def rt_hub0_def)
  show ?thesis
    using stale_session_start_promotes [of working_rt 7 5 vt_log prompt_judges None 3 "fst ?p" "snd ?p" "[65]"]
      prompt_append hub
    by (simp add: Let_def del: run_pty_reader.simps)
qed

end
