(* ===== verification/Runtime_Laws.thy ===== *)
theory Runtime_Laws
  imports Report_Laws
begin

text \<open>
  What the worker's runtime promises: input reaches the PTY once and in order, the shared size
  fits every attached client, a failed resize leaves no trace, and a state report never
  overwrites a newer one.
\<close>

section \<open>Input\<close>

lemma write_pty_input_prefix:
  "write_pty_input late data w = (r, w') \<Longrightarrow>
     \<exists>q. wr_out w' = wr_out w @ q \<and> prefix q data \<and> (r = Inr () \<longrightarrow> q = data)"
proof (induction late data w arbitrary: r w' rule: write_pty_input.induct)
  case (3 l late b bs w)
  show ?case
  proof (cases "l")
    case True
    with "3.prems" show ?thesis by auto
  next
    case False
    obtain x v where x: "wr_write (b # bs) w = (x, v)" by force
    show ?thesis
    proof (cases x)
      case (Inl e)
      with x have e: "wr_write (b # bs) w = (Inl e, v)" by simp
      have "wr_out v = wr_out w" using wr_write_Inl [OF e] by simp
      with False e "3.prems" "3.IH"(1) [OF False e [symmetric] refl] show ?thesis
        by (auto split: if_splits)
    next
      case (Inr n)
      with x have n: "wr_write (b # bs) w = (Inr n, v)" by simp
      have out: "n \<le> length (b # bs)" "wr_out v = wr_out w @ take n (b # bs)"
        using wr_write_Inr [OF n] by blast+
      show ?thesis
      proof (cases "n = 0")
        case True
        with False n "3.prems" out show ?thesis by auto
      next
        case n0: False
        with False n "3.prems" have "write_pty_input late (drop n (b # bs)) v = (r, w')" by simp
        from "3.IH"(2) [OF False n [symmetric] refl n0 this] obtain q
          where q: "wr_out w' = wr_out v @ q" "prefix q (drop n (b # bs))" "r = Inr () \<longrightarrow> q = drop n (b # bs)"
          by blast
        have "prefix (take n (b # bs) @ q) (b # bs)"
          using q(2) by (metis append_take_drop_id same_prefix_prefix)
        with q out show ?thesis by (intro exI [of _ "take n (b # bs) @ q"]) auto
      qed
    qed
  qed
qed auto

definition pty_out :: "'p runtime \<Rightarrow> bytes" where
  "pty_out rt = (case rt_pty rt of None \<Rightarrow> [] | Some w \<Rightarrow> wr_out w)"

lemma rt_send_prefix:
  assumes "rt_send late data rt = (r, rt')"
  shows "\<exists>q. pty_out rt' = pty_out rt @ q \<and> prefix q data \<and> (r = Inr () \<longrightarrow> q = data)"
  using assms write_pty_input_prefix
  by (fastforce simp: rt_send_def pty_out_def split: if_splits option.splits prod.splits)

section \<open>Applying a size\<close>

lemma resize_screen_and_pty_keeps:
  assumes "resize_screen_and_pty V prev new ok rt = (r, rt')"
  shows "rt_terminal rt' = rt_terminal rt \<and> rt_pty rt' = rt_pty rt \<and> rt_record rt' = rt_record rt \<and>
     rt_winsize rt' = (if r = Inr () then new else rt_winsize rt)"
  using assms by (auto simp: resize_screen_and_pty_def split: prod.splits sum.splits if_splits)

lemma apply_size_keeps:
  assumes "apply_size V ok rows cols rt = (r, rt')"
  shows "ts_clients (rt_terminal rt') = ts_clients (rt_terminal rt) \<and>
     next_client_id (rt_terminal rt') = next_client_id (rt_terminal rt) \<and> rt_pty rt' = rt_pty rt \<and>
     rt_record rt' = rt_record rt \<and>
     (r \<noteq> Inr () \<longrightarrow> rt_terminal rt' = rt_terminal rt \<and> rt_winsize rt' = rt_winsize rt) \<and>
     (r = Inr () \<longrightarrow> (ts_rows (rt_terminal rt'), ts_cols (rt_terminal rt')) = (max rows 1, max cols 1)) \<and>
     (rt_winsize rt = (ts_rows (rt_terminal rt), ts_cols (rt_terminal rt)) \<longrightarrow>
        rt_winsize rt' = (ts_rows (rt_terminal rt'), ts_cols (rt_terminal rt')))"
proof -
  obtain x v where x: "resize_screen_and_pty V (ts_rows (rt_terminal rt), ts_cols (rt_terminal rt))
      (max rows 1, max cols 1) ok rt = (x, v)" by force
  from resize_screen_and_pty_keeps [OF x] assms x show ?thesis
    by (auto simp: apply_size_def Let_def split: if_splits sum.splits)
qed

lemma apply_common_size_keeps:
  assumes "apply_common_size V ok rt = (r, rt')"
  shows "ts_clients (rt_terminal rt') = ts_clients (rt_terminal rt) \<and>
     next_client_id (rt_terminal rt') = next_client_id (rt_terminal rt) \<and> rt_pty rt' = rt_pty rt \<and>
     rt_record rt' = rt_record rt \<and>
     (r \<noteq> Inr () \<longrightarrow> rt_terminal rt' = rt_terminal rt \<and> rt_winsize rt' = rt_winsize rt) \<and>
     (rt_winsize rt = (ts_rows (rt_terminal rt), ts_cols (rt_terminal rt)) \<longrightarrow>
        rt_winsize rt' = (ts_rows (rt_terminal rt'), ts_cols (rt_terminal rt')))"
  using assms apply_size_keeps
  by (fastforce simp: apply_common_size_def split: option.splits prod.splits)

lemma set_clients_simps [simp]:
  "ts_clients (rt_terminal (set_clients f rt)) = f (ts_clients (rt_terminal rt))"
  "ts_rows (rt_terminal (set_clients f rt)) = ts_rows (rt_terminal rt)"
  "ts_cols (rt_terminal (set_clients f rt)) = ts_cols (rt_terminal rt)"
  "next_client_id (rt_terminal (set_clients f rt)) = next_client_id (rt_terminal rt)"
  "rt_winsize (set_clients f rt) = rt_winsize rt" "rt_pty (set_clients f rt) = rt_pty rt"
  "rt_record (set_clients f rt) = rt_record rt" "rt_hub (set_clients f rt) = rt_hub rt"
  by (simp_all add: set_clients_def)

lemma set_geometry_undo:
  "distinct (map fst cs) \<Longrightarrow> map_of cs cid = Some g \<Longrightarrow> set_geometry cid g (set_geometry cid g' cs) = cs"
proof -
  assume d: "distinct (map fst cs)" and m: "map_of cs cid = Some g"
  have "set_geometry cid g (set_geometry cid g' cs) = set_geometry cid g cs"
    by (auto simp: set_geometry_def)
  also have "\<dots> = cs"
    unfolding set_geometry_def using d m by (intro map_idI) (auto dest: map_of_SomeD intro: eq_key_imp_eq_value [OF d])
  finally show ?thesis .
qed

lemma resize_rolled_back:
  assumes "resize_client V ok cid rows cols rt = (Inl e, rt')"
    and "distinct (map fst (ts_clients (rt_terminal rt)))"
  shows "rt_terminal rt' = rt_terminal rt \<and> rt_winsize rt' = rt_winsize rt \<and> rt_record rt' = rt_record rt \<and>
     rt_pty rt' = rt_pty rt"
proof (cases "validate_worker_size rows cols")
  case (Inl e)
  with assms show ?thesis by (auto simp: resize_client_def)
next
  case (Inr g)
  show ?thesis
  proof (cases "map_of (ts_clients (rt_terminal rt)) cid")
    case None
    with Inr assms show ?thesis by (auto simp: resize_client_def)
  next
    case (Some prev)
    obtain x v where x: "apply_common_size V ok (set_clients (set_geometry cid (Some g)) rt) = (x, v)" by force
    with Inr Some assms(1) have f: "x \<noteq> Inr ()" "rt' = set_clients (set_geometry cid prev) v"
      by (auto simp: resize_client_def split: sum.splits)
    note keep = apply_common_size_keeps [OF x]
    have "set_geometry cid prev (set_geometry cid (Some g) (ts_clients (rt_terminal rt))) = ts_clients (rt_terminal rt)"
      using assms(2) Some by (rule set_geometry_undo)
    with keep f show ?thesis by (auto simp: set_clients_def)
  qed
qed

text \<open>
  A rejected resize leaves no trace. When the screen model or the PTY refuses a client's
  size, the client keeps the geometry it had, the shared size and the kernel's size are the
  old ones, and nothing else of the runtime's registry changed.
\<close>

theorem resize_client_rolls_back:
  assumes "resize_client V ok cid rows cols rt = (Inl e, rt')"
    and "distinct (map fst (ts_clients (rt_terminal rt)))"
  shows "rt_terminal rt' = rt_terminal rt \<and> rt_winsize rt' = rt_winsize rt \<and> rt_record rt' = rt_record rt \<and>
     rt_pty rt' = rt_pty rt"
  using assms by (rule resize_rolled_back)

section \<open>The shared size\<close>

definition valid_geom :: "nat \<times> nat \<Rightarrow> bool" where
  "valid_geom g \<longleftrightarrow> 2 \<le> fst g \<and> 1 \<le> snd g \<and> fst g * snd g \<le> MAX_SCREEN_CELLS"

definition sized :: "terminal_state \<Rightarrow> (nat \<times> nat) list" where
  "sized t = List.map_filter snd (ts_clients t)"

definition meet :: "nat \<times> nat \<Rightarrow> nat \<times> nat \<Rightarrow> nat \<times> nat" where
  "meet g h = (min (fst g) (fst h), min (snd g) (snd h))"

lemma common_size_meet:
  "common_size t = (case sized t of [] \<Rightarrow> None | g # gs \<Rightarrow> Some (foldl meet g gs))"
proof -
  have "(\<lambda>(rows, cols) (rows', cols'). (min rows rows', min cols cols')) = meet"
    by (auto simp: meet_def fun_eq_iff)
  then show ?thesis by (simp add: common_size_def sized_def split: list.split)
qed

lemma foldl_meet_Min: "foldl meet g gs = (Min (fst ` set (g # gs)), Min (snd ` set (g # gs)))"
proof (induction gs arbitrary: g)
  case (Cons h gs)
  show ?case
    using Cons.IH [of "meet g h"] by (cases "gs = []") (simp_all add: meet_def min.assoc)
qed simp

lemma foldl_meet:
  "(\<forall>h \<in> set (g # gs). fst (foldl meet g gs) \<le> fst h \<and> snd (foldl meet g gs) \<le> snd h) \<and>
   fst (foldl meet g gs) \<in> fst ` set (g # gs) \<and> snd (foldl meet g gs) \<in> snd ` set (g # gs)"
  unfolding foldl_meet_Min fst_conv snd_conv by (intro conjI ballI Min_le Min_in) auto

lemma common_size_Some:
  assumes "common_size t = Some g"
  shows "\<forall>h \<in> set (sized t). fst g \<le> fst h \<and> snd g \<le> snd h"
    and "fst g \<in> fst ` set (sized t)" "snd g \<in> snd ` set (sized t)"
  using assms foldl_meet by (auto simp: common_size_meet split: list.splits)

lemma common_size_valid:
  assumes "common_size t = Some g" "\<forall>h \<in> set (sized t). valid_geom h"
  shows "valid_geom g"
proof -
  obtain a b where ab: "a \<in> set (sized t)" "fst g = fst a" "b \<in> set (sized t)" "snd g = snd b"
    using common_size_Some(2,3) [OF assms(1)] by auto
  have va: "valid_geom a" "valid_geom b" using ab assms(2) by auto
  have "fst g * snd g \<le> fst a * snd a"
    using common_size_Some(1) [OF assms(1)] ab by (intro mult_le_mono) auto
  also have "\<dots> \<le> MAX_SCREEN_CELLS" using va by (simp add: valid_geom_def)
  finally show ?thesis using va ab by (simp add: valid_geom_def)
qed

lemma valid_geom_screen: "valid_geom (rows, cols) \<Longrightarrow> validate_screen_size rows cols = Inr (rows, cols)"
  by (auto simp: valid_geom_def validate_screen_size_def validate_size_with_minimum_def checked_mul_def
      size_consts Let_def max_def)

lemma validated_geom: "validate_worker_size rows cols = Inr g \<Longrightarrow> valid_geom g"
  by (auto simp: valid_geom_def validate_worker_size_def validate_size_with_minimum_def Let_def checked_mul_def
      size_consts split: if_splits option.splits)

definition terminal_ok :: "'p runtime \<Rightarrow> bool" where
  "terminal_ok rt \<longleftrightarrow>
     (let t = rt_terminal rt in
      rt_winsize rt = (ts_rows t, ts_cols t) \<and> distinct (map fst (ts_clients t)) \<and>
      (\<forall>i \<in> fst ` set (ts_clients t). i < next_client_id t) \<and> (\<forall>g \<in> set (sized t). valid_geom g))"

definition fits :: "'p runtime \<Rightarrow> bool" where
  "fits rt \<longleftrightarrow>
     (let t = rt_terminal rt in case common_size t of None \<Rightarrow> True | Some g \<Rightarrow> g = (ts_rows t, ts_cols t))"

lemma common_size_cong: "ts_clients t = ts_clients u \<Longrightarrow> common_size t = common_size u"
  by (simp add: common_size_def)

lemma apply_common_size_ok: "terminal_ok rt \<Longrightarrow> terminal_ok (snd (apply_common_size V ok rt))"
  using apply_common_size_keeps [of V ok rt "fst (apply_common_size V ok rt)" "snd (apply_common_size V ok rt)"]
  by (simp add: terminal_ok_def Let_def sized_def)

lemma apply_common_size_fits:
  assumes "terminal_ok rt" "rt_pty rt \<noteq> None"
  shows "fits (snd (apply_common_size V True rt))"
proof (cases "common_size (rt_terminal rt)")
  case None
  then show ?thesis by (simp add: apply_common_size_def fits_def)
next
  case (Some g)
  then obtain rows cols where g: "common_size (rt_terminal rt) = Some (rows, cols)" by (cases g) auto
  have v: "valid_geom (rows, cols)" using assms(1) g common_size_valid by (auto simp: terminal_ok_def Let_def)
  obtain r rt' where a: "apply_size V True rows cols rt = (r, rt')" by force
  have "r = Inr ()"
    using a assms(2) valid_geom_screen [OF v] v
    by (auto simp: apply_size_def resize_screen_and_pty_def hub_set_size_def try_set_size_def Let_def
        valid_geom_def case_prod_beta max_def split: if_splits sum.splits)
  with apply_size_keeps [OF a] v have "ts_rows (rt_terminal rt') = rows" "ts_cols (rt_terminal rt') = cols"
      "ts_clients (rt_terminal rt') = ts_clients (rt_terminal rt)"
    by (auto simp: valid_geom_def max_def)
  with a g common_size_cong [of "rt_terminal rt'" "rt_terminal rt"] show ?thesis
    by (simp add: apply_common_size_def fits_def)
qed

datatype client_op =
    OpAttach "nat option" bool bool "nat option" "nat option"
  | OpResize nat nat nat
  | OpDetach nat
  | OpSend "bool list" bytes

text \<open>The client operations, on a PTY whose \<open>ioctl\<close> answers \<open>ok\<close>.\<close>

fun client_step :: "'p vt100 \<Rightarrow> bool \<Rightarrow> client_op \<Rightarrow> 'p runtime \<Rightarrow> 'p runtime" where
  "client_step V ok (OpAttach history_bytes screen record rows cols) rt =
     snd (establish_attach V ok ok history_bytes screen record rows cols rt)"
| "client_step V ok (OpResize cid rows cols) rt = snd (resize_client V ok cid rows cols rt)"
| "client_step V ok (OpDetach cid) rt = detach_client V ok cid rt"
| "client_step V ok (OpSend late data) rt = snd (rt_send late data rt)"

fun client_run :: "'p vt100 \<Rightarrow> (bool \<times> client_op) list \<Rightarrow> 'p runtime \<Rightarrow> 'p runtime" where
  "client_run V [] rt = rt"
| "client_run V ((ok, op) # ops) rt = client_run V ops (client_step V ok op rt)"

lemma sized_simps:
  "set (sized (t\<lparr>ts_clients := remove_client cid cs\<rparr>)) \<subseteq> set (List.map_filter snd cs)"
  "set (List.map_filter snd (set_geometry cid (Some g) cs)) \<subseteq> insert g (set (List.map_filter snd cs))"
  "set (List.map_filter snd (remove_client cid cs)) \<subseteq> set (List.map_filter snd cs)"
  by (auto simp: sized_def List.map_filter_def remove_client_def set_geometry_def image_iff split: if_splits)

lemma fst_set_geometry [simp]: "map fst (set_geometry cid g cs) = map fst cs"
  by (auto simp: set_geometry_def)

lemma remove_client_fst: "distinct (map fst cs) \<Longrightarrow> distinct (map fst (remove_client cid cs))"
  "fst ` set (remove_client cid cs) \<subseteq> fst ` set cs"
  "x \<in> set (remove_client cid cs) \<Longrightarrow> x \<in> set cs"
  by (auto simp: remove_client_def distinct_map inj_on_def)

lemma terminal_ok_remove: "terminal_ok rt \<Longrightarrow> terminal_ok (set_clients (remove_client cid) rt)"
  using sized_simps(3) [of cid "ts_clients (rt_terminal rt)"] remove_client_fst(1) [where cs = "ts_clients (rt_terminal rt)" and cid = cid]
  by (auto simp: terminal_ok_def Let_def sized_def dest: remove_client_fst(3))

lemma terminal_ok_geometry:
  "terminal_ok rt \<Longrightarrow> valid_geom g \<Longrightarrow> terminal_ok (set_clients (set_geometry cid (Some g)) rt)"
  using sized_simps(2) [of cid g "ts_clients (rt_terminal rt)"] fst_set_geometry [of cid "Some g" "ts_clients (rt_terminal rt)"]
  by (auto simp: terminal_ok_def Let_def sized_def simp flip: set_map simp del: fst_set_geometry)

lemma terminal_ok_hub [simp]: "terminal_ok (rt\<lparr>rt_hub := h\<rparr>) = terminal_ok rt" "fits (rt\<lparr>rt_hub := h\<rparr>) = fits rt"
  by (simp_all add: terminal_ok_def fits_def)

lemma terminal_ok_new:
  assumes "terminal_ok rt" "case geometry of None \<Rightarrow> True | Some g \<Rightarrow> valid_geom g"
  shows "terminal_ok (set_clients (\<lambda>cs. (next_client_id (rt_terminal rt), geometry) # cs)
     (rt\<lparr>rt_terminal := (rt_terminal rt)\<lparr>next_client_id := next_client_id (rt_terminal rt) + 1\<rparr>\<rparr>))"
  using assms by (auto simp: terminal_ok_def Let_def sized_def set_clients_def List.map_filter_simps
      less_Suc_eq split: option.splits)


text \<open>What a whole operation keeps, and what it establishes when the PTY works.\<close>

lemma attach_client_ok:
  assumes "terminal_ok rt" "case geometry of None \<Rightarrow> True | Some g \<Rightarrow> valid_geom g"
  shows "terminal_ok (snd (attach_client V ok ok payload geometry record rt)) \<and>
     rt_pty (snd (attach_client V ok ok payload geometry record rt)) = rt_pty rt \<and>
     (ok \<and> rt_pty rt \<noteq> None \<longrightarrow> fits (snd (attach_client V ok ok payload geometry record rt)))"
proof -
  let ?rt1 = "set_clients (\<lambda>cs. (next_client_id (rt_terminal rt), geometry) # cs)
     (rt\<lparr>rt_terminal := (rt_terminal rt)\<lparr>next_client_id := next_client_id (rt_terminal rt) + 1\<rparr>\<rparr>)"
  obtain r2 rt2 where r2: "apply_common_size V ok ?rt1 = (r2, rt2)" by force
  have 1: "terminal_ok ?rt1" "rt_pty ?rt1 = rt_pty rt" using terminal_ok_new [OF assms] by simp_all
  have 2: "terminal_ok rt2" "rt_pty rt2 = rt_pty rt"
    using apply_common_size_ok [OF 1(1), of V ok] apply_common_size_keeps [OF r2] r2 1(2) by simp_all
  obtain x h where x: "subscribe V payload record (rt_hub rt2) = (x, h)" by force
  show ?thesis
  proof (cases x)
    case (Inr y)
    with x r2 have "snd (attach_client V ok ok payload geometry record rt) = rt2\<lparr>rt_hub := h\<rparr>"
      by (cases y) (simp add: attach_client_def Let_def)
    with 1 2 r2 apply_common_size_fits [OF 1(1), of V] show ?thesis by auto
  next
    case (Inl e)
    let ?rt3 = "set_clients (remove_client (next_client_id (rt_terminal rt))) (rt2\<lparr>rt_hub := h\<rparr>)"
    have 3: "terminal_ok ?rt3" "rt_pty ?rt3 = rt_pty rt" using 2 by (auto intro!: terminal_ok_remove)
    from Inl x r2 have "snd (attach_client V ok ok payload geometry record rt) = snd (apply_common_size V ok ?rt3)"
      by (simp add: attach_client_def Let_def)
    with 3 apply_common_size_ok [OF 3(1), of V ok] apply_common_size_fits [OF 3(1), of V]
      apply_common_size_keeps [of V ok ?rt3 "fst (apply_common_size V ok ?rt3)" "snd (apply_common_size V ok ?rt3)"]
    show ?thesis by auto
  qed
qed

lemma resize_client_ok:
  assumes "terminal_ok rt"
  shows "terminal_ok (snd (resize_client V ok cid rows cols rt)) \<and>
     rt_pty (snd (resize_client V ok cid rows cols rt)) = rt_pty rt \<and>
     (ok \<and> rt_pty rt \<noteq> None \<and> fits rt \<longrightarrow> fits (snd (resize_client V ok cid rows cols rt)))"
proof -
  obtain x rt' where x: "resize_client V ok cid rows cols rt = (x, rt')" by force
  show ?thesis
  proof (cases x)
    case (Inl e)
    have d: "distinct (map fst (ts_clients (rt_terminal rt)))" using assms by (simp add: terminal_ok_def Let_def)
    from resize_rolled_back [OF x [unfolded Inl] d] assms x show ?thesis
      by (auto simp: terminal_ok_def fits_def)
  next
    case (Inr u)
    with x obtain g rt1 where g: "validate_worker_size rows cols = Inr g"
        "apply_common_size V ok (set_clients (set_geometry cid (Some g)) rt) = (Inr (), rt')"
      by (auto simp: resize_client_def split: sum.splits option.splits prod.splits)
    have 1: "terminal_ok (set_clients (set_geometry cid (Some g)) rt)"
      using assms validated_geom [OF g(1)] by (rule terminal_ok_geometry)
    from apply_common_size_ok [OF 1, of V ok] apply_common_size_fits [OF 1, of V] g(2) x
      apply_common_size_keeps [OF g(2)]
    show ?thesis by auto
  qed
qed

lemma client_step_ok:
  assumes "terminal_ok rt"
  shows "terminal_ok (client_step V ok op rt) \<and>
     (rt_pty rt \<noteq> None \<longrightarrow> rt_pty (client_step V ok op rt) \<noteq> None) \<and>
     (ok \<and> rt_pty rt \<noteq> None \<and> fits rt \<longrightarrow> fits (client_step V ok op rt))"
proof (cases op)
  case (OpAttach hb scr rec rows cols)
  show ?thesis
    using assms attach_client_ok [OF assms] validated_geom
    by (auto simp: OpAttach establish_attach_def Let_def split: option.splits sum.splits)
next
  case (OpResize cid rows cols)
  then show ?thesis using resize_client_ok [OF assms] by simp
next
  case (OpDetach cid)
  have 1: "terminal_ok (set_clients (remove_client cid) rt)" using assms by (rule terminal_ok_remove)
  then show ?thesis
    using OpDetach apply_common_size_ok [OF 1, of V ok] apply_common_size_fits [OF 1, of V]
      apply_common_size_keeps [of V ok "set_clients (remove_client cid) rt"
        "fst (apply_common_size V ok (set_clients (remove_client cid) rt))" "snd (apply_common_size V ok (set_clients (remove_client cid) rt))"]
    by (auto simp: detach_client_def)
next
  case (OpSend late data)
  have "rt_terminal (snd (rt_send late data rt)) = rt_terminal rt" "rt_winsize (snd (rt_send late data rt)) = rt_winsize rt"
    "rt_pty rt \<noteq> None \<longrightarrow> rt_pty (snd (rt_send late data rt)) \<noteq> None"
    by (auto simp: rt_send_def split: option.splits prod.splits)
  with assms OpSend show ?thesis by (simp add: terminal_ok_def fits_def)
qed

lemma client_run_ok:
  "terminal_ok rt \<Longrightarrow> rt_pty rt \<noteq> None \<Longrightarrow> fits rt \<Longrightarrow>
     terminal_ok (client_run V ops rt) \<and> (list_all fst ops \<longrightarrow> fits (client_run V ops rt))"
proof (induction ops arbitrary: rt)
  case (Cons a ops)
  obtain ok op where a: "a = (ok, op)" by force
  have "terminal_ok (client_run V ops rt')" if "terminal_ok rt'" for rt'
    using that by (induction ops arbitrary: rt') (auto simp: client_step_ok)
  with Cons a client_step_ok [OF Cons.prems(1), of V ok op] show ?case by auto
qed simp

text \<open>
  C24: one size every client can show. However clients attach, resize, type and leave, the
  kernel's size of the PTY is the one the registry records, and as long as the PTY accepts
  resizes the shared size is at most every attached client's height and width, and each of the
  two is some client's own.
\<close>

theorem shared_size_fits_all:
  assumes "terminal_ok rt" and "rt_pty rt \<noteq> None" and "fits rt" and "rt' = client_run V ops rt"
  shows "rt_winsize rt' = (ts_rows (rt_terminal rt'), ts_cols (rt_terminal rt')) \<and>
     (list_all fst ops \<and> sized (rt_terminal rt') \<noteq> [] \<longrightarrow>
        (\<forall>g \<in> set (sized (rt_terminal rt')). ts_rows (rt_terminal rt') \<le> fst g \<and> ts_cols (rt_terminal rt') \<le> snd g) \<and>
        ts_rows (rt_terminal rt') \<in> fst ` set (sized (rt_terminal rt')) \<and>
        ts_cols (rt_terminal rt') \<in> snd ` set (sized (rt_terminal rt')))"
proof -
  note run = client_run_ok [OF assms(1-3), of V ops, folded assms(4)]
  show ?thesis
  proof (cases "common_size (rt_terminal rt')")
    case None
    with run show ?thesis by (auto simp: terminal_ok_def Let_def common_size_meet split: list.splits)
  next
    case (Some g)
    then have "list_all fst ops \<Longrightarrow> g = (ts_rows (rt_terminal rt'), ts_cols (rt_terminal rt'))"
      using run by (simp add: fits_def Let_def)
    moreover have "rt_winsize rt' = (ts_rows (rt_terminal rt'), ts_cols (rt_terminal rt'))"
      using run by (simp add: terminal_ok_def Let_def)
    ultimately show ?thesis using common_size_Some [OF Some] by (cases "list_all fst ops") simp_all
  qed
qed

section \<open>Keystrokes end to end\<close>

lemma resize_screen_and_pty_running:
  "rt_running (snd (resize_screen_and_pty V prev new ok rt)) = rt_running rt"
  by (auto simp: resize_screen_and_pty_def split: prod.split sum.split)

lemma apply_common_size_running: "rt_running (snd (apply_common_size V ok rt)) = rt_running rt"
proof (cases "common_size (rt_terminal rt)")
  case (Some g)
  obtain rows cols where g: "g = (rows, cols)" by force
  let ?p = "resize_screen_and_pty V (ts_rows (rt_terminal rt), ts_cols (rt_terminal rt)) (max rows 1, max cols 1) ok rt"
  obtain r rt' where "?p = (r, rt')" by force
  with resize_screen_and_pty_running [of V "(ts_rows (rt_terminal rt), ts_cols (rt_terminal rt))"
      "(max rows 1, max cols 1)" ok rt] Some g
  show ?thesis by (auto simp: apply_common_size_def apply_size_def Let_def split: sum.split)
qed (simp add: apply_common_size_def)

lemma resize_client_input [simp]:
  "pty_out (snd (resize_client V ok cid rows cols rt)) = pty_out rt"
  "rt_pty (snd (resize_client V ok cid rows cols rt)) = rt_pty rt"
  "rt_running (snd (resize_client V ok cid rows cols rt)) = rt_running rt"
proof -
  have "rt_pty (snd (resize_client V ok cid rows cols rt)) = rt_pty rt \<and>
      rt_running (snd (resize_client V ok cid rows cols rt)) = rt_running rt"
  proof (cases "validate_worker_size rows cols")
    case (Inr g)
    let ?p = "apply_common_size V ok (set_clients (set_geometry cid (Some g)) rt)"
    obtain r rt' where p: "?p = (r, rt')" by force
    with apply_common_size_running [of V ok "set_clients (set_geometry cid (Some g)) rt"]
      apply_common_size_keeps [OF p] Inr
    show ?thesis by (auto simp: resize_client_def set_clients_def split: option.split sum.split)
  qed (simp add: resize_client_def)
  then show "pty_out (snd (resize_client V ok cid rows cols rt)) = pty_out rt"
    "rt_pty (snd (resize_client V ok cid rows cols rt)) = rt_pty rt"
    "rt_running (snd (resize_client V ok cid rows cols rt)) = rt_running rt"
    by (simp_all add: pty_out_def)
qed

text \<open>The bytes the frames ask to type, up to the frame that ends the attach.\<close>

fun typed :: "(bytes \<Rightarrow> attach_control option) \<Rightarrow> frame list \<Rightarrow> bytes" where
  "typed parse [] = []"
| "typed parse (f # fs) =
     (case f_kind f of
        Data \<Rightarrow> f_payload f @ typed parse fs
      | End \<Rightarrow> []
      | Json \<Rightarrow>
          (case parse (f_payload f) of
             Some (CtlResize _ _) \<Rightarrow> typed parse fs
           | Some (CtlSignal _) \<Rightarrow> typed parse fs
           | _ \<Rightarrow> []))"

text \<open>A PTY that takes what it is given before the deadline.\<close>

definition willing :: "(nat \<Rightarrow> bool list) \<Rightarrow> 'p runtime \<Rightarrow> bool" where
  "willing late rt \<longleftrightarrow> rt_running rt \<and> (\<exists>w. rt_pty rt = Some w \<and> wr_script w = []) \<and> (\<forall>n. \<exists>ls. late n = False # ls)"

lemma write_pty_input_willing:
  "wr_script w = [] \<Longrightarrow> fst (write_pty_input (False # ls) data w) = Inr () \<and>
     wr_script (snd (write_pty_input (False # ls) data w)) = []"
  by (cases data; cases ls) (simp_all add: wr_write.simps)

lemma rt_send_willing:
  assumes "willing late rt" "rt_send (late n) data rt = (r, rt')"
  shows "r = Inr () \<and> willing late rt'"
proof -
  obtain w ls where "rt_running rt" "rt_pty rt = Some w" "wr_script w = []" "late n = False # ls"
    using assms(1) unfolding willing_def by blast
  with assms write_pty_input_willing [of w ls data] show ?thesis
    by (auto simp: rt_send_def willing_def split: prod.splits)
qed

lemma read_frame_end: "rd_bytes r = [] \<Longrightarrow> fst (read_frame r) \<noteq> Inr (Some f)"
  using read_frame_shorter [of r f "snd (read_frame r)"] by (auto simp: prod_eq_iff)

lemma pump_input_typed:
  assumes "rd_live r" "list_all (\<lambda>f. length (f_payload f) \<le> MAX_FRAME_BYTES) fs" "rd_bytes r = wire fs"
    and "pump_input V parse late ok n cid r rt = (res, rt')"
  shows "\<exists>q. pty_out rt' = pty_out rt @ q \<and> prefix q (typed parse fs) \<and> (willing late rt \<longrightarrow> q = typed parse fs)"
  using assms
proof (induction fs arbitrary: r n rt)
  case Nil
  then have "rd_bytes r = []" by (simp add: wire_def)
  with read_frame_end [of r] Nil.prems(4) have "rt' = rt"
    by (auto simp: pump_input.simps [of _ _ _ _ _ _ r] split: sum.splits option.splits prod.splits)
  then show ?case by simp
next
  case (Cons f fs)
  then have "rd_bytes r = encode_frame (f_kind f) (f_payload f) @ wire fs"
    "length (f_payload f) \<le> MAX_FRAME_BYTES" by (simp_all add: wire_def frame_bytes_def)
  from read_encoded [OF Cons.prems(1) this(2,1)] obtain r1
    where r1: "read_frame r = (Inr (Some f), r1)" "rd_live r1" "rd_bytes r1 = wire fs" by auto
  note IH = Cons.IH [OF r1(2) _ r1(3)]
  note pump = Cons.prems(4) [unfolded pump_input.simps [of _ _ _ _ _ _ r] r1(1)]
  show ?case
  proof (cases "f_kind f")
    case Data
    obtain x rt1 where x: "rt_send (late n) (f_payload f) rt = (x, rt1)" by force
    from rt_send_prefix [OF x] obtain q where q: "pty_out rt1 = pty_out rt @ q" "prefix q (f_payload f)"
        "x = Inr () \<longrightarrow> q = f_payload f" by blast
    show ?thesis
    proof (cases x)
      case (Inl e)
      with pump Data x have "rt' = rt1" by simp
      with q Inl Data rt_send_willing [where late = late, OF _ x] show ?thesis by (auto intro: prefix_prefix)
    next
      case (Inr u)
      with pump Data x have "pump_input V parse late ok (Suc n) cid r1 rt1 = (res, rt')" by simp
      from IH [OF _ this] Cons.prems(2) obtain q' where "pty_out rt' = pty_out rt1 @ q'"
          "prefix q' (typed parse fs)" "willing late rt1 \<longrightarrow> q' = typed parse fs" by auto
      with q Inr Data rt_send_willing [where late = late, OF _ x] show ?thesis
        by (intro exI [of _ "f_payload f @ q'"]) auto
    qed
  next
    case End
    with pump show ?thesis by auto
  next
    case Json
    show ?thesis
    proof (cases "parse (f_payload f)")
      case None
      with Json pump show ?thesis by auto
    next
      case (Some c)
      show ?thesis
      proof (cases c)
        case (CtlResize rows cols)
        let ?rt1 = "snd (resize_client V (ok n) cid rows cols rt)"
        from Json Some CtlResize pump have "pump_input V parse late ok (Suc n) cid r1 ?rt1 = (res, rt')" by simp
        from IH [OF _ this] Cons.prems(2) show ?thesis
          by (auto simp: Json Some CtlResize willing_def)
      next
        case (CtlSignal sig)
        with Json Some pump have "pump_input V parse late ok (Suc n) cid r1 rt = (res, rt')" by simp
        from IH [OF _ this] Cons.prems(2) show ?thesis by (auto simp: Json Some CtlSignal)
      next
        case CtlDetach
        with Json Some pump show ?thesis by auto
      qed
    qed
  qed
qed

text \<open>
  Keystrokes reach the program once and in order. When a client sends any mix of input,
  resizes and signals, cut and interrupted in any way on the socket, what the PTY has been
  written is a prefix of the typed bytes, and all of them when the program takes its input
  before the deadline.
\<close>

theorem attach_input_exact:
  assumes "rd_live r" and "list_all (\<lambda>f. length (f_payload f) \<le> MAX_FRAME_BYTES) fs" and "rd_bytes r = wire fs"
    and "pump_input V parse late ok n cid r rt = (res, rt')"
  shows "\<exists>q. pty_out rt' = pty_out rt @ q \<and> prefix q (typed parse fs) \<and> (willing late rt \<longrightarrow> q = typed parse fs)"
  using assms by (rule pump_input_typed)

section \<open>Concrete runs\<close>

text \<open>Two keys, a resize nobody is registered for, and one more key, cut inside the second header.\<close>

definition key_frames :: "frame list" where
  "key_frames = [\<lparr>f_kind = Data, f_payload = [97, 98]\<rparr>, \<lparr>f_kind = Json, f_payload = [1]\<rparr>, \<lparr>f_kind = Data, f_payload = [99]\<rparr>]"

theorem attach_input_exact_witness:
  "pty_out (snd (pump_input vt_log (\<lambda>_. Some (CtlResize 24 80)) (\<lambda>_. [False]) (\<lambda>_. True) 0 1
     [Got (take 20 (wire key_frames)), RdInterrupted, Got (drop 20 (wire key_frames))] sample_rt)) = [97, 98, 99]"
proof -
  let ?r = "[Got (take 20 (wire key_frames)), RdInterrupted, Got (drop 20 (wire key_frames))]"
  let ?p = "pump_input vt_log (\<lambda>_. Some (CtlResize 24 80)) (\<lambda>_. [False]) (\<lambda>_. True) 0 1 ?r sample_rt"
  have r: "rd_live ?r" "rd_bytes ?r = wire key_frames"
    by (simp_all add: key_frames_def wire_def frame_bytes_def encode_frame_def frame_header_def frame_magic_def be_bytes_4)
  have "list_all (\<lambda>f. length (f_payload f) \<le> MAX_FRAME_BYTES) key_frames"
    by (simp add: key_frames_def size_consts)
  from attach_input_exact [OF r(1) this r(2), of vt_log "\<lambda>_. Some (CtlResize 24 80)" "\<lambda>_. [False]" "\<lambda>_. True" 0 1
      sample_rt "fst ?p" "snd ?p"]
  show ?thesis
    by (auto simp: willing_def sample_rt_def pty_out_def key_frames_def)
qed

definition two_clients :: "bytes runtime" where
  "two_clients = sample_rt\<lparr>rt_terminal := \<lparr>ts_rows = 24, ts_cols = 80,
     ts_clients = [(2, None), (1, Some (24, 80))], next_client_id = 3\<rparr>\<rparr>"

text \<open>The terminal driver refuses the new size of client 1.\<close>

theorem resize_client_rolls_back_witness:
  "rt_terminal (snd (resize_client vt_log False 1 10 40 two_clients)) = rt_terminal two_clients"
proof -
  have "resize_client vt_log False 1 10 40 two_clients =
      (Inl IoctlFailed, snd (resize_client vt_log False 1 10 40 two_clients))"
    by (simp add: resize_client_def validate_worker_size_def validate_size_with_minimum_def checked_mul_def
        size_consts two_clients_def sample_rt_def set_clients_def set_geometry_def apply_common_size_def
        common_size_def List.map_filter_simps apply_size_def resize_screen_and_pty_def hub_set_size_def
        try_set_size_def validate_screen_size_def Let_def split: prod.splits)
  from resize_client_rolls_back [OF this] show ?thesis by (simp add: two_clients_def)
qed

text \<open>A tall and a wide client share the height of one and the width of the other.\<close>

theorem shared_size_fits_all_witness:
  "rt_winsize (client_run vt_log [(True, OpAttach None False False (Some 10) (Some 90)),
       (True, OpAttach None False False (Some 30) (Some 40))] sample_rt) =
     (let t = rt_terminal (client_run vt_log [(True, OpAttach None False False (Some 10) (Some 90)),
       (True, OpAttach None False False (Some 30) (Some 40))] sample_rt) in (ts_rows t, ts_cols t))"
proof -
  have "terminal_ok sample_rt" "rt_pty sample_rt \<noteq> None" "fits sample_rt"
    by (simp_all add: sample_rt_def terminal_ok_def fits_def sized_def common_size_def List.map_filter_simps)
  from shared_size_fits_all [OF this refl] show ?thesis unfolding Let_def by blast
qed

end
