(* ===== verification/Mailbox.thy ===== *)
theory Mailbox
  imports Session_Record "HOL-Library.AList" "HOL-Library.List_Lexorder" "HOL-Library.Char_ord"
begin

text \<open>
  \<open>src/messaging/\<close>: a workspace mailbox on disk. One file per message, named by its id, one
  cursor file per consumer, one reservation per attempted pane submission. Every operation here
  holds the mailbox lock from its first read to its last write, so it is one step on the
  mailbox. The calls that change the directory draw their outcome from a script, so that any of
  them may fail.
\<close>

section \<open>Envelopes\<close>

record message_from =
  mf_session_id :: "uuid option"
  mf_workspace :: "string option"
  mf_tag :: "string option"
  mf_engine :: "string option"
  mf_profile :: "string option"
  mf_external :: bool

datatype recipient = ToTag string "uuid option" | ToBroadcast bool | ToEngine string

datatype delivery = Inbox | Pane

text \<open>The JSON value of \<open>data\<close> is carried as its text.\<close>

record envelope =
  me_schema_version :: nat
  me_id :: uuid
  me_workspace :: string
  me_created_at :: nat
  me_from :: message_from
  me_to :: recipient
  me_kind :: string
  me_reply_to :: "uuid option"
  me_body :: string
  me_data :: "string option"
  me_delivery :: delivery

definition MESSAGE_SCHEMA_VERSION :: nat where "MESSAGE_SCHEMA_VERSION = 1"
definition MAX_BODY_BYTES :: nat where "MAX_BODY_BYTES = 65536"
definition MAX_ENVELOPE_BYTES :: nat where "MAX_ENVELOPE_BYTES = 8 * MAX_BODY_BYTES"
definition DEFAULT_TTL_SECS :: nat where "DEFAULT_TTL_SECS = 604800"
definition MAX_MESSAGES_PER_WORKSPACE :: nat where "MAX_MESSAGES_PER_WORKSPACE = 1000"
definition MAX_WORKSPACE_BYTES :: nat where "MAX_WORKSPACE_BYTES = 10485760"
definition OPPORTUNISTIC_GC_INTERVAL_SECS :: nat where "OPPORTUNISTIC_GC_INTERVAL_SECS = 300"
definition MAX_MAILBOX_STATE_BYTES :: nat where "MAX_MAILBOX_STATE_BYTES = 65536"
definition STALE_CURSOR_RETENTION_SECS :: nat where "STALE_CURSOR_RETENTION_SECS = 2592000"

lemmas mail_consts = MESSAGE_SCHEMA_VERSION_def MAX_BODY_BYTES_def MAX_ENVELOPE_BYTES_def DEFAULT_TTL_SECS_def
  MAX_MESSAGES_PER_WORKSPACE_def MAX_WORKSPACE_BYTES_def OPPORTUNISTIC_GC_INTERVAL_SECS_def
  MAX_MAILBOX_STATE_BYTES_def STALE_CURSOR_RETENTION_SECS_def

definition anonymous :: message_from where
  "anonymous = \<lparr>mf_session_id = None, mf_workspace = None, mf_tag = None, mf_engine = None, mf_profile = None,
     mf_external = True\<rparr>"

definition addressed_to :: "envelope \<Rightarrow> uuid \<Rightarrow> string \<Rightarrow> string \<Rightarrow> bool" where
  "addressed_to e consumer_id consumer_tag consumer_engine =
     (let is_sender = (mf_session_id (me_from e) = Some consumer_id);
          crosses_workspace = (case mf_workspace (me_from e) of None \<Rightarrow> False | Some source \<Rightarrow> source \<noteq> me_workspace e)
      in case me_to e of
           ToTag tag session_id \<Rightarrow>
             (if crosses_workspace then session_id = Some consumer_id
              else session_id = Some consumer_id \<or> tag = consumer_tag)
         | ToBroadcast broadcast \<Rightarrow> broadcast \<and> \<not> is_sender
         | ToEngine engine \<Rightarrow> engine = consumer_engine \<and> \<not> is_sender)"

section \<open>Who reads and sends\<close>

record session_identity =
  si_id :: uuid
  si_workspace :: "string option"
  si_tag :: "string option"
  si_engine :: "string option"
  si_profile :: "string option"

definition identity_from_record :: "session_record \<Rightarrow> session_identity" where
  "identity_from_record r = \<lparr>si_id = sr_id r, si_workspace = Some (sr_workspace r), si_tag = Some (sr_tag r),
     si_engine = Some (sr_engine r), si_profile = sr_profile r\<rparr>"

definition receives :: "session_identity \<Rightarrow> envelope \<Rightarrow> bool" where
  "receives c e = addressed_to e (si_id c) (case si_tag c of None \<Rightarrow> [] | Some t \<Rightarrow> t)
     (case si_engine c of None \<Rightarrow> [] | Some t \<Rightarrow> t)"

definition from_identity :: "session_identity option \<Rightarrow> message_from" where
  "from_identity identity =
     (case identity of
        Some i \<Rightarrow> \<lparr>mf_session_id = Some (si_id i), mf_workspace = si_workspace i, mf_tag = si_tag i,
          mf_engine = si_engine i, mf_profile = si_profile i, mf_external = False\<rparr>
      | None \<Rightarrow> anonymous)"

definition known_tags :: "session_record list \<Rightarrow> string \<Rightarrow> string list" where
  "known_tags records workspace =
     remdups_adj (sort (map sr_tag (filter (\<lambda>r. sr_workspace r = workspace) records)))"

definition session_by_tag :: "session_record list \<Rightarrow> string \<Rightarrow> string \<Rightarrow> session_record option" where
  "session_by_tag records workspace tag = find (\<lambda>r. sr_workspace r = workspace \<and> sr_tag r = tag) records"

datatype mail_error =
    BodyTooLarge | EnvelopeTooLarge | OverQuota | AlreadyExists | NoMessage | NotRegular | BadName | BadJson
  | BadSchema | IdMismatch | ForeignWorkspace | ToNobody | QuotaStuck | WriteFailed | RemoveFailed | SyncFailed
  | NotPromotable | BadCursor | UnknownTag | MailboxBusy

text \<open>\<open>ambient\<close> and \<open>env_tag\<close> are \<open>discover_session_id\<close> and \<open>APLEXER_TAG\<close>.\<close>

definition resolve_identity ::
    "uuid option \<Rightarrow> string option \<Rightarrow> session_record list \<Rightarrow> string \<Rightarrow> string option \<Rightarrow>
       mail_error + session_identity option" where
  "resolve_identity ambient env_tag records workspace from_tag =
     (case from_tag of
        Some tag \<Rightarrow>
          (case session_by_tag records workspace tag of
             None \<Rightarrow> Inl UnknownTag
           | Some r \<Rightarrow> Inr (Some (identity_from_record r)))
      | None \<Rightarrow>
          (case ambient of
             None \<Rightarrow> Inr None
           | Some sid \<Rightarrow>
               Inr (Some (case find (\<lambda>r. sr_id r = sid) records of
                   Some r \<Rightarrow> identity_from_record r
                 | None \<Rightarrow> \<lparr>si_id = sid, si_workspace = None, si_tag = env_tag, si_engine = None, si_profile = None\<rparr>))))"

section \<open>The directory\<close>

datatype node = Regular bytes | Special

datatype io_outcome = IoOk | IoFail | IoFailAfter

record cursor =
  cu_acked_through :: "uuid option"
  cu_exceptions :: "uuid set"

text \<open>A consumer's cursor file and its lock file, each with its modification time.\<close>

record cursor_entry =
  ce_json :: "(node \<times> nat) option"
  ce_lock :: "nat option"

text \<open>
  \<open>mb_msgs\<close> maps the stem of each \<open>.json\<close> file of \<open>msgs/\<close> to what is there, \<open>mb_attempts\<close> lists
  the stems of the \<open>.attempt\<close> files, \<open>mb_io\<close> the outcomes of the calls to come.
\<close>

record mailbox =
  mb_msgs :: "(string \<times> node) list"
  mb_attempts :: "string list"
  mb_cursors :: "(uuid \<times> cursor_entry) list"
  mb_gc_marker :: "nat option"
  mb_io :: "io_outcome list"

text \<open>The \<open>uuid\<close> and \<open>serde_json\<close> crates.\<close>

record mail_codec =
  uu_text :: "uuid \<Rightarrow> string"
  uu_parse :: "string \<Rightarrow> uuid option"
  env_json :: "envelope \<Rightarrow> bytes"
  env_parse :: "bytes \<Rightarrow> envelope option"
  cur_json :: "cursor \<Rightarrow> bytes"
  cur_parse :: "bytes \<Rightarrow> cursor option"

text \<open>The text of an id parses back to it, and a cursor's JSON to the cursor.\<close>

definition mail_codec_ok :: "mail_codec \<Rightarrow> bool" where
  "mail_codec_ok K \<longleftrightarrow> (\<forall>u. uu_parse K (uu_text K u) = Some u) \<and>
     (\<forall>c. finite (cu_exceptions c) \<longrightarrow> cur_parse K (cur_json K c @ [0x0A]) = Some c)"

definition next_io :: "mailbox \<Rightarrow> io_outcome \<times> mailbox" where
  "next_io mb = (case mb_io mb of [] \<Rightarrow> (IoOk, mb) | x # xs \<Rightarrow> (x, mb\<lparr>mb_io := xs\<rparr>))"

text \<open>\<open>atomic_write_bytes\<close>: fails before the rename, or after it when the directory cannot be synced.\<close>

definition atomic_write ::
    "(mailbox \<Rightarrow> mailbox) \<Rightarrow> mailbox \<Rightarrow> (mail_error + unit) \<times> mailbox" where
  "atomic_write put mb =
     (case next_io mb of
        (IoOk, mb) \<Rightarrow> (Inr (), put mb)
      | (IoFail, mb) \<Rightarrow> (Inl WriteFailed, mb)
      | (IoFailAfter, mb) \<Rightarrow> (Inl SyncFailed, put mb))"

definition put_msg :: "string \<Rightarrow> bytes \<Rightarrow> mailbox \<Rightarrow> mailbox" where
  "put_msg name bs mb = mb\<lparr>mb_msgs := AList.update name (Regular bs) (mb_msgs mb)\<rparr>"

definition put_attempt :: "string \<Rightarrow> mailbox \<Rightarrow> mailbox" where
  "put_attempt name mb = mb\<lparr>mb_attempts := List.insert name (mb_attempts mb)\<rparr>"

definition drop_msg :: "string \<Rightarrow> mailbox \<Rightarrow> mailbox" where
  "drop_msg name mb = mb\<lparr>mb_msgs := AList.delete name (mb_msgs mb)\<rparr>"

definition drop_attempt :: "string \<Rightarrow> mailbox \<Rightarrow> mailbox" where
  "drop_attempt name mb = mb\<lparr>mb_attempts := removeAll name (mb_attempts mb)\<rparr>"

definition sync_msgs :: "mailbox \<Rightarrow> (mail_error + unit) \<times> mailbox" where
  "sync_msgs mb = (case next_io mb of (IoOk, mb) \<Rightarrow> (Inr (), mb) | (_, mb) \<Rightarrow> (Inl SyncFailed, mb))"

text \<open>\<open>entries_with_extension\<close> on \<open>msgs/\<close>: the stems in the byte order of the file names.\<close>

definition msg_names :: "mailbox \<Rightarrow> string list" where
  "msg_names mb = sort_key (\<lambda>n. n @ ''.json'') (map fst (mb_msgs mb))"

section \<open>Reading and writing messages\<close>

definition serialized_envelope :: "mail_codec \<Rightarrow> envelope \<Rightarrow> mail_error + bytes" where
  "serialized_envelope K e =
     (if MAX_BODY_BYTES < length (me_body e) then Inl BodyTooLarge
      else let bs = env_json K e @ [0x0A] in
        if MAX_ENVELOPE_BYTES < length bs then Inl EnvelopeTooLarge else Inr bs)"

definition open_message_file :: "string \<Rightarrow> mailbox \<Rightarrow> mail_error + bytes" where
  "open_message_file name mb =
     (case map_of (mb_msgs mb) name of
        None \<Rightarrow> Inl NoMessage
      | Some Special \<Rightarrow> Inl NotRegular
      | Some (Regular bs) \<Rightarrow> if MAX_ENVELOPE_BYTES < length bs then Inl EnvelopeTooLarge else Inr bs)"

definition load_open_message_file :: "mail_codec \<Rightarrow> string \<Rightarrow> bytes \<Rightarrow> string \<Rightarrow> mail_error + envelope" where
  "load_open_message_file K name bs workspace =
     (case uu_parse K name of
        None \<Rightarrow> Inl BadName
      | Some expected \<Rightarrow>
          (case env_parse K bs of
             None \<Rightarrow> Inl BadJson
           | Some e \<Rightarrow>
               if me_schema_version e \<noteq> MESSAGE_SCHEMA_VERSION then Inl BadSchema
               else if me_id e \<noteq> expected then Inl IdMismatch
               else if me_workspace e \<noteq> workspace then Inl ForeignWorkspace
               else if me_to e = ToBroadcast False then Inl ToNobody
               else Inr e))"

definition load_message_file :: "mail_codec \<Rightarrow> string \<Rightarrow> string \<Rightarrow> mailbox \<Rightarrow> mail_error + envelope" where
  "load_message_file K name workspace mb =
     res_bind (open_message_file name mb) (\<lambda>bs. load_open_message_file K name bs workspace)"

definition read_message_in :: "mail_codec \<Rightarrow> string \<Rightarrow> uuid \<Rightarrow> mailbox \<Rightarrow> mail_error + envelope" where
  "read_message_in K workspace mid mb = load_message_file K (uu_text K mid) workspace mb"

fun load_all :: "mail_codec \<Rightarrow> string \<Rightarrow> mailbox \<Rightarrow> string list \<Rightarrow> mail_error + envelope list" where
  "load_all K workspace mb [] = Inr []"
| "load_all K workspace mb (n # ns) =
     res_bind (load_message_file K n workspace mb) (\<lambda>e.
       res_bind (load_all K workspace mb ns) (\<lambda>es. Inr (e # es)))"

definition list_messages_in :: "mail_codec \<Rightarrow> string \<Rightarrow> mailbox \<Rightarrow> mail_error + envelope list" where
  "list_messages_in K workspace mb =
     res_bind (load_all K workspace mb (msg_names mb)) (\<lambda>es. Inr (sort_key me_id es))"

definition mark_pane_delivered_locked ::
    "mail_codec \<Rightarrow> envelope \<Rightarrow> mailbox \<Rightarrow> (mail_error + unit) \<times> mailbox" where
  "mark_pane_delivered_locked K e mb =
     (case load_message_file K (uu_text K (me_id e)) (me_workspace e) mb of
        Inl err \<Rightarrow> (Inl err, mb)
      | Inr current \<Rightarrow>
          if me_id current \<noteq> me_id e \<or> me_delivery current \<noteq> Inbox then (Inl NotPromotable, mb)
          else (case serialized_envelope K (e\<lparr>me_delivery := Pane\<rparr>) of
              Inl err \<Rightarrow> (Inl err, mb)
            | Inr bs \<Rightarrow> atomic_write (put_msg (uu_text K (me_id e)) bs) mb))"

section \<open>Pruning\<close>

record mail_entry =
  en_name :: string
  en_created_at :: "nat option"
  en_size :: nat

record gc_report =
  gc_removed :: nat
  gc_remaining :: nat

fun entries_of :: "mail_codec \<Rightarrow> string \<Rightarrow> bool \<Rightarrow> mailbox \<Rightarrow> string list \<Rightarrow> mail_error + mail_entry list" where
  "entries_of K workspace read_created_at mb [] = Inr []"
| "entries_of K workspace read_created_at mb (n # ns) =
     res_bind (open_message_file n mb) (\<lambda>bs.
       res_bind (if read_created_at
          then res_bind (load_open_message_file K n bs workspace) (\<lambda>e. Inr (Some (me_created_at e)))
          else Inr None) (\<lambda>created_at.
         res_bind (entries_of K workspace read_created_at mb ns) (\<lambda>es.
           Inr (\<lparr>en_name = n, en_created_at = created_at, en_size = length bs\<rparr> # es))))"

definition mailbox_entries :: "mail_codec \<Rightarrow> string \<Rightarrow> bool \<Rightarrow> mailbox \<Rightarrow> mail_error + mail_entry list" where
  "mailbox_entries K workspace read_created_at mb = entries_of K workspace read_created_at mb (msg_names mb)"

definition remove_message_and_attempt :: "string \<Rightarrow> mailbox \<Rightarrow> (mail_error + bool) \<times> mailbox" where
  "remove_message_and_attempt name mb =
     (let (removed, mb1) =
        (case map_of (mb_msgs mb) name of
           None \<Rightarrow> (Inr False, mb)
         | Some _ \<Rightarrow>
             (case next_io mb of
                (IoOk, mb') \<Rightarrow> (Inr True, drop_msg name mb')
              | (_, mb') \<Rightarrow> (Inl RemoveFailed, mb')))
      in case removed of
           Inl e \<Rightarrow> (Inl e, mb1)
         | Inr b \<Rightarrow>
             if name \<notin> set (mb_attempts mb1) then (Inr b, mb1)
             else (case next_io mb1 of
                 (IoOk, mb2) \<Rightarrow> (Inr b, drop_attempt name mb2)
               | (_, mb2) \<Rightarrow> (Inl RemoveFailed, mb2)))"

text \<open>The expiry pass: the entries kept, the bytes left and how many files were removed.\<close>

fun expire_loop ::
    "string option \<Rightarrow> nat \<Rightarrow> mail_entry list \<Rightarrow> nat \<Rightarrow> nat \<Rightarrow> mailbox \<Rightarrow>
       (mail_error + mail_entry list \<times> nat \<times> nat) \<times> mailbox" where
  "expire_loop prot now [] total_size removed mb = (Inr ([], total_size, removed), mb)"
| "expire_loop prot now (e # es) total_size removed mb =
     (let expired = (case en_created_at e of None \<Rightarrow> False | Some t \<Rightarrow> DEFAULT_TTL_SECS < now - t) in
      if expired \<and> prot \<noteq> Some (en_name e) then
        (case remove_message_and_attempt (en_name e) mb of
           (Inl err, mb') \<Rightarrow> (Inl err, mb')
         | (Inr deleted, mb') \<Rightarrow>
             expire_loop prot now es (total_size - en_size e) (if deleted then removed + 1 else removed) mb')
      else
        (case expire_loop prot now es total_size removed mb of
           (Inl err, mb') \<Rightarrow> (Inl err, mb')
         | (Inr (kept, rest), mb') \<Rightarrow> (Inr (e # kept, rest), mb')))"

text \<open>The quota pass evicts the first entry that is not the protected one until both caps hold.\<close>

function (sequential) quota_loop ::
    "string option \<Rightarrow> nat \<Rightarrow> nat \<Rightarrow> mail_entry list \<Rightarrow> nat \<Rightarrow> nat \<Rightarrow> mailbox \<Rightarrow>
       (mail_error + mail_entry list \<times> nat) \<times> mailbox" where
  "quota_loop prot max_messages max_bytes es total_size removed mb =
     (if length es \<le> max_messages \<and> total_size \<le> max_bytes then (Inr (es, removed), mb)
      else case List.extract (\<lambda>e. prot \<noteq> Some (en_name e)) es of
        None \<Rightarrow> (Inl QuotaStuck, mb)
      | Some (before, e, after) \<Rightarrow>
          (case remove_message_and_attempt (en_name e) mb of
             (Inl err, mb') \<Rightarrow> (Inl err, mb')
           | (Inr deleted, mb') \<Rightarrow>
               quota_loop prot max_messages max_bytes (before @ after) (total_size - en_size e)
                 (if deleted then removed + 1 else removed) mb'))"
  by pat_completeness auto
termination
  by (relation "measure (\<lambda>(prot, max_messages, max_bytes, es, total_size, removed, mb). length es)")
    (auto simp: extract_Some_iff)

declare quota_loop.simps [simp del]

definition prune_workspace_locked ::
    "mail_codec \<Rightarrow> string \<Rightarrow> string option \<Rightarrow> nat \<Rightarrow> nat \<Rightarrow> bool \<Rightarrow> nat \<Rightarrow> mailbox \<Rightarrow>
       (mail_error + gc_report) \<times> mailbox" where
  "prune_workspace_locked K workspace prot max_messages max_bytes expire now mb =
     (case mailbox_entries K workspace expire mb of
        Inl e \<Rightarrow> (Inl e, mb)
      | Inr entries \<Rightarrow>
          (let total_size = sum_list (map en_size entries) in
           case (if expire then expire_loop prot now entries total_size 0 mb else (Inr (entries, total_size, 0), mb)) of
             (Inl e, mb') \<Rightarrow> (Inl e, mb')
           | (Inr (kept, total_size, removed), mb') \<Rightarrow>
               (case quota_loop prot max_messages max_bytes kept total_size removed mb' of
                  (Inl e, mb'') \<Rightarrow> (Inl e, mb'')
                | (Inr (left, removed), mb'') \<Rightarrow>
                    (case (if 0 < removed then sync_msgs mb'' else (Inr (), mb'')) of
                       (Inl e, mb3) \<Rightarrow> (Inl e, mb3)
                     | (Inr _, mb3) \<Rightarrow> (Inr \<lparr>gc_removed = removed, gc_remaining = length left\<rparr>, mb3)))))"

definition write_message_limited ::
    "mail_codec \<Rightarrow> envelope \<Rightarrow> nat \<Rightarrow> nat \<Rightarrow> nat \<Rightarrow> mailbox \<Rightarrow> (mail_error + unit) \<times> mailbox" where
  "write_message_limited K e max_messages max_bytes now mb =
     (case serialized_envelope K e of
        Inl err \<Rightarrow> (Inl err, mb)
      | Inr bs \<Rightarrow>
          (if max_bytes < length bs then (Inl OverQuota, mb)
           else if map_of (mb_msgs mb) (uu_text K (me_id e)) \<noteq> None then (Inl AlreadyExists, mb)
           else case atomic_write (put_msg (uu_text K (me_id e)) bs) mb of
             (Inl err, mb1) \<Rightarrow> (Inl err, mb1)
           | (Inr _, mb1) \<Rightarrow>
               (case prune_workspace_locked K (me_workspace e) (Some (uu_text K (me_id e))) max_messages max_bytes
                   False now mb1 of
                  (Inr _, mb2) \<Rightarrow> (Inr (), mb2)
                | (Inl err, mb2) \<Rightarrow>
                    (let mb3 = (case next_io mb2 of (IoOk, m) \<Rightarrow> drop_msg (uu_text K (me_id e)) m | (_, m) \<Rightarrow> m)
                     in (Inl err, snd (next_io mb3))))))"

definition write_message_in :: "mail_codec \<Rightarrow> envelope \<Rightarrow> nat \<Rightarrow> mailbox \<Rightarrow> (mail_error + unit) \<times> mailbox" where
  "write_message_in K e now mb = write_message_limited K e MAX_MESSAGES_PER_WORKSPACE MAX_WORKSPACE_BYTES now mb"

section \<open>Cursors\<close>

definition cursor_default :: cursor where
  "cursor_default = \<lparr>cu_acked_through = None, cu_exceptions = {}\<rparr>"

definition is_acked :: "cursor \<Rightarrow> uuid \<Rightarrow> bool" where
  "is_acked c i = ((case cu_acked_through c of None \<Rightarrow> False | Some t \<Rightarrow> i \<le> t) \<or> i \<in> cu_exceptions c)"

definition compact_cursor :: "uuid set \<Rightarrow> cursor \<Rightarrow> cursor" where
  "compact_cursor retained c =
     (let ex = (case cu_acked_through c of
          None \<Rightarrow> cu_exceptions c
        | Some t \<Rightarrow> cu_exceptions c \<union> Set.filter (\<lambda>i. i \<le> t) retained)
      in \<lparr>cu_acked_through = None, cu_exceptions = Set.filter (\<lambda>i. i \<in> retained) ex\<rparr>)"

definition no_entry :: cursor_entry where
  "no_entry = \<lparr>ce_json = None, ce_lock = None\<rparr>"

definition cursor_at :: "uuid \<Rightarrow> mailbox \<Rightarrow> cursor_entry" where
  "cursor_at c mb = (case map_of (mb_cursors mb) c of None \<Rightarrow> no_entry | Some e \<Rightarrow> e)"

definition set_cursor :: "uuid \<Rightarrow> cursor_entry \<Rightarrow> mailbox \<Rightarrow> mailbox" where
  "set_cursor c e mb = mb\<lparr>mb_cursors := AList.update c e (mb_cursors mb)\<rparr>"

definition read_cursor_file :: "mail_codec \<Rightarrow> uuid \<Rightarrow> mailbox \<Rightarrow> mail_error + cursor" where
  "read_cursor_file K c mb =
     (case ce_json (cursor_at c mb) of
        None \<Rightarrow> Inr cursor_default
      | Some (Special, _) \<Rightarrow> Inl BadCursor
      | Some (Regular bs, _) \<Rightarrow>
          if MAX_MAILBOX_STATE_BYTES < length bs then Inl BadCursor
          else (case cur_parse K bs of None \<Rightarrow> Inl BadCursor | Some v \<Rightarrow> Inr v))"

fun retained_of :: "mail_codec \<Rightarrow> mailbox \<Rightarrow> string list \<Rightarrow> mail_error + uuid set" where
  "retained_of K mb [] = Inr {}"
| "retained_of K mb (n # ns) =
     res_bind (open_message_file n mb) (\<lambda>_.
       res_bind (retained_of K mb ns) (\<lambda>ids.
         Inr (case uu_parse K n of None \<Rightarrow> ids | Some i \<Rightarrow> insert i ids)))"

definition retained_message_ids :: "mail_codec \<Rightarrow> mailbox \<Rightarrow> mail_error + uuid set" where
  "retained_message_ids K mb = retained_of K mb (msg_names mb)"

text \<open>\<open>FileLock::exclusive\<close> on the cursor's lock creates the file.\<close>

definition touch_lock :: "uuid \<Rightarrow> nat \<Rightarrow> mailbox \<Rightarrow> mailbox" where
  "touch_lock c now mb =
     (if ce_lock (cursor_at c mb) = None then set_cursor c ((cursor_at c mb)\<lparr>ce_lock := Some now\<rparr>) mb else mb)"

definition write_cursor :: "mail_codec \<Rightarrow> uuid \<Rightarrow> cursor \<Rightarrow> nat \<Rightarrow> mailbox \<Rightarrow> (mail_error + unit) \<times> mailbox" where
  "write_cursor K c v now mb =
     atomic_write (\<lambda>m. set_cursor c ((cursor_at c m)\<lparr>ce_json := Some (Regular (cur_json K v @ [0x0A]), now)\<rparr>) m) mb"

definition read_cursor_locked ::
    "mail_codec \<Rightarrow> uuid \<Rightarrow> nat \<Rightarrow> mailbox \<Rightarrow> (mail_error + cursor) \<times> mailbox" where
  "read_cursor_locked K c now mb =
     (let mb0 = touch_lock c now mb in
      case res_bind (read_cursor_file K c mb0) (\<lambda>v. res_bind (retained_message_ids K mb0) (\<lambda>ids. Inr (v, ids))) of
        Inl e \<Rightarrow> (Inl e, mb0)
      | Inr (v, ids) \<Rightarrow>
          (let v' = compact_cursor ids v in
           if v' = v then (Inr v', mb0)
           else (case write_cursor K c v' now mb0 of
               (Inl e, mb') \<Rightarrow> (Inl e, mb')
             | (Inr _, mb') \<Rightarrow> (Inr v', mb'))))"

fun ack_ids :: "uuid set \<Rightarrow> uuid list \<Rightarrow> cursor \<Rightarrow> uuid list \<Rightarrow> cursor \<times> uuid list" where
  "ack_ids retained [] c acked = (c, acked)"
| "ack_ids retained (i # is) c acked =
     (if i \<in> retained \<and> i \<notin> set acked
      then ack_ids retained is (c\<lparr>cu_exceptions := insert i (cu_exceptions c)\<rparr>) (acked @ [i])
      else ack_ids retained is c acked)"

definition ack_messages_in ::
    "mail_codec \<Rightarrow> uuid \<Rightarrow> uuid list \<Rightarrow> nat \<Rightarrow> mailbox \<Rightarrow> (mail_error + uuid list) \<times> mailbox" where
  "ack_messages_in K c is now mb =
     (let mb0 = touch_lock c now mb in
      case res_bind (read_cursor_file K c mb0) (\<lambda>v. res_bind (retained_message_ids K mb0) (\<lambda>ids. Inr (v, ids))) of
        Inl e \<Rightarrow> (Inl e, mb0)
      | Inr (v, ids) \<Rightarrow>
          (case ack_ids ids is (compact_cursor ids v) [] of
             (v', acked) \<Rightarrow>
               (case write_cursor K c v' now mb0 of
                  (Inl e, mb') \<Rightarrow> (Inl e, mb')
                | (Inr _, mb') \<Rightarrow> (Inr acked, mb'))))"

text \<open>\<open>unread_messages\<close> of the command, and the locked snapshot of a wait.\<close>

definition unread_snapshot ::
    "mail_codec \<Rightarrow> string \<Rightarrow> session_identity \<Rightarrow> nat \<Rightarrow> mailbox \<Rightarrow> (mail_error + envelope list) \<times> mailbox" where
  "unread_snapshot K workspace consumer now mb =
     (case read_cursor_locked K (si_id consumer) now mb of
        (Inl e, mb') \<Rightarrow> (Inl e, mb')
      | (Inr c, mb') \<Rightarrow>
          (case list_messages_in K workspace mb' of
             Inl e \<Rightarrow> (Inl e, mb')
           | Inr ms \<Rightarrow> (Inr (filter (\<lambda>m. receives consumer m \<and> \<not> is_acked c (me_id m)) ms), mb')))"

section \<open>Submission to a pane\<close>

datatype submission_status = Submitted | AlreadySubmitted | RecipientAcked | NotReady | DeliveryUncertain

definition prior_submission ::
    "mail_codec \<Rightarrow> envelope \<Rightarrow> nat \<Rightarrow> mailbox \<Rightarrow> (mail_error + submission_status option) \<times> mailbox" where
  "prior_submission K m now mb =
     (if me_delivery m = Pane then (Inr (Some AlreadySubmitted), mb)
      else case (case me_to m of
            ToTag _ (Some c) \<Rightarrow>
              (case read_cursor_locked K c now mb of
                 (Inl e, mb') \<Rightarrow> (Inl e, mb')
               | (Inr v, mb') \<Rightarrow> (Inr (is_acked v (me_id m)), mb'))
          | _ \<Rightarrow> (Inr False, mb)) of
        (Inl e, mb') \<Rightarrow> (Inl e, mb')
      | (Inr True, mb') \<Rightarrow> (Inr (Some RecipientAcked), mb')
      | (Inr False, mb') \<Rightarrow>
          (Inr (if uu_text K (me_id m) \<in> set (mb_attempts mb') then Some DeliveryUncertain else None), mb'))"

text \<open>\<open>submitted\<close> is the answer of the transport; the flag tells whether it was called.\<close>

definition perform_submission ::
    "mail_codec \<Rightarrow> envelope \<Rightarrow> bool \<Rightarrow> mailbox \<Rightarrow> (mail_error + submission_status) \<times> bool \<times> mailbox" where
  "perform_submission K m submitted mb =
     (case atomic_write (put_attempt (uu_text K (me_id m))) mb of
        (Inl e, mb1) \<Rightarrow> (Inl e, False, mb1)
      | (Inr _, mb1) \<Rightarrow>
          if \<not> submitted then (Inr DeliveryUncertain, True, mb1)
          else (case mark_pane_delivered_locked K m mb1 of
              (Inl _, mb2) \<Rightarrow> (Inr DeliveryUncertain, True, mb2)
            | (Inr _, mb2) \<Rightarrow> (Inr Submitted, True, mb2)))"

definition submit_message_in ::
    "mail_codec \<Rightarrow> string \<Rightarrow> uuid \<Rightarrow> (envelope \<Rightarrow> bool) \<Rightarrow> (envelope \<Rightarrow> bool) \<Rightarrow> nat \<Rightarrow> mailbox \<Rightarrow>
       (mail_error + submission_status) \<times> bool \<times> mailbox" where
  "submit_message_in K workspace mid ready submit now mb =
     (case read_message_in K workspace mid mb of
        Inl e \<Rightarrow> (Inl e, False, mb)
      | Inr m \<Rightarrow>
          (case prior_submission K m now mb of
             (Inl e, mb') \<Rightarrow> (Inl e, False, mb')
           | (Inr (Some status), mb') \<Rightarrow> (Inr status, False, mb')
           | (Inr None, mb') \<Rightarrow>
               if \<not> ready m then (Inr NotReady, False, mb')
               else perform_submission K m (submit m) mb'))"

section \<open>Garbage collection\<close>

definition cursor_ids :: "mailbox \<Rightarrow> uuid list" where
  "cursor_ids mb = sort (remdups (map fst (filter (\<lambda>(_, e). e \<noteq> no_entry) (mb_cursors mb))))"

definition stale_at :: "nat option \<Rightarrow> nat \<Rightarrow> nat \<Rightarrow> bool" where
  "stale_at modified now retention = (case modified of None \<Rightarrow> False | Some m \<Rightarrow> retention < now - m)"

definition remove_cursor_json :: "uuid \<Rightarrow> mailbox \<Rightarrow> (mail_error + unit) \<times> mailbox" where
  "remove_cursor_json c mb =
     (case next_io mb of
        (IoOk, mb') \<Rightarrow> (Inr (), set_cursor c ((cursor_at c mb')\<lparr>ce_json := None\<rparr>) mb')
      | (_, mb') \<Rightarrow> (Inl RemoveFailed, mb'))"

definition remove_cursor_lock :: "uuid \<Rightarrow> mailbox \<Rightarrow> (mail_error + unit) \<times> mailbox" where
  "remove_cursor_lock c mb =
     (case next_io mb of
        (IoOk, mb') \<Rightarrow> (Inr (), set_cursor c ((cursor_at c mb')\<lparr>ce_lock := None\<rparr>) mb')
      | (_, mb') \<Rightarrow> (Inl RemoveFailed, mb'))"

text \<open>One consumer; the flag tells whether the directory changed.\<close>

definition maintain_cursor ::
    "mail_codec \<Rightarrow> uuid set \<Rightarrow> (uuid \<Rightarrow> bool) \<Rightarrow> nat \<Rightarrow> nat \<Rightarrow> uuid set \<Rightarrow> uuid \<Rightarrow> mailbox \<Rightarrow>
       (mail_error + bool) \<times> mailbox" where
  "maintain_cursor K active busy now retention retained c mb =
     (if busy c then (Inr False, mb)
      else
        let mb0 = touch_lock c now mb; e = cursor_at c mb0 in
        if c \<notin> active \<and> stale_at (map_option snd (ce_json e)) now retention then
          (case remove_cursor_json c mb0 of
             (Inl err, mb1) \<Rightarrow> (Inl err, mb1)
           | (Inr _, mb1) \<Rightarrow>
               (case remove_cursor_lock c mb1 of
                  (Inl err, mb2) \<Rightarrow> (Inl err, mb2)
                | (Inr _, mb2) \<Rightarrow> (Inr True, mb2)))
        else if ce_json e \<noteq> None then
          (case read_cursor_file K c mb0 of
             Inl err \<Rightarrow> (Inl err, mb0)
           | Inr v \<Rightarrow>
               (let v' = compact_cursor retained v in
                if v' = v then (Inr False, mb0)
                else (case write_cursor K c v' now mb0 of
                    (Inl err, mb1) \<Rightarrow> (Inl err, mb1)
                  | (Inr _, mb1) \<Rightarrow> (Inr False, mb1))))
        else if c \<notin> active \<and> stale_at (ce_lock e) now retention then
          (case remove_cursor_lock c mb0 of
             (Inl err, mb1) \<Rightarrow> (Inl err, mb1)
           | (Inr _, mb1) \<Rightarrow> (Inr True, mb1))
        else (Inr False, mb0))"

fun maintain_cursors ::
    "mail_codec \<Rightarrow> uuid set \<Rightarrow> (uuid \<Rightarrow> bool) \<Rightarrow> nat \<Rightarrow> nat \<Rightarrow> uuid set \<Rightarrow> uuid list \<Rightarrow> bool \<Rightarrow> mailbox \<Rightarrow>
       (mail_error + bool) \<times> mailbox" where
  "maintain_cursors K active busy now retention retained [] changed mb = (Inr changed, mb)"
| "maintain_cursors K active busy now retention retained (c # cs) changed mb =
     (case maintain_cursor K active busy now retention retained c mb of
        (Inl e, mb') \<Rightarrow> (Inl e, mb')
      | (Inr b, mb') \<Rightarrow> maintain_cursors K active busy now retention retained cs (changed \<or> b) mb')"

definition maintain_workspace_cursors_locked ::
    "mail_codec \<Rightarrow> uuid set \<Rightarrow> (uuid \<Rightarrow> bool) \<Rightarrow> nat \<Rightarrow> nat \<Rightarrow> mailbox \<Rightarrow> (mail_error + unit) \<times> mailbox" where
  "maintain_workspace_cursors_locked K active busy now retention mb =
     (case retained_message_ids K mb of
        Inl e \<Rightarrow> (Inl e, mb)
      | Inr retained \<Rightarrow>
          (case maintain_cursors K active busy now retention retained (cursor_ids mb) False mb of
             (Inl e, mb') \<Rightarrow> (Inl e, mb')
           | (Inr changed, mb') \<Rightarrow> (if changed then sync_msgs mb' else (Inr (), mb'))))"

definition active_consumers :: "string \<Rightarrow> session_record list \<Rightarrow> uuid set" where
  "active_consumers workspace records =
     sr_id ` set (filter (\<lambda>r. sr_workspace r = workspace \<and> worker_phase_active r) records)"

definition gc_workspace_in ::
    "mail_codec \<Rightarrow> string \<Rightarrow> session_record list \<Rightarrow> (uuid \<Rightarrow> bool) \<Rightarrow> nat \<Rightarrow> mailbox \<Rightarrow>
       (mail_error + gc_report) \<times> mailbox" where
  "gc_workspace_in K workspace records busy now mb =
     (case prune_workspace_locked K workspace None MAX_MESSAGES_PER_WORKSPACE MAX_WORKSPACE_BYTES True now mb of
        (Inl e, mb1) \<Rightarrow> (Inl e, mb1)
      | (Inr report, mb1) \<Rightarrow>
          (case maintain_workspace_cursors_locked K (active_consumers workspace records) busy now
              STALE_CURSOR_RETENTION_SECS mb1 of
             (Inl e, mb2) \<Rightarrow> (Inl e, mb2)
           | (Inr _, mb2) \<Rightarrow> (Inr report, mb2)))"

definition maybe_gc_in ::
    "mail_codec \<Rightarrow> string \<Rightarrow> session_record list \<Rightarrow> (uuid \<Rightarrow> bool) \<Rightarrow> nat \<Rightarrow> mailbox \<Rightarrow>
       (mail_error + unit) \<times> mailbox" where
  "maybe_gc_in K workspace records busy now mb =
     (if (case mb_gc_marker mb of None \<Rightarrow> True | Some m \<Rightarrow> OPPORTUNISTIC_GC_INTERVAL_SECS < now - m)
      then (case gc_workspace_in K workspace records busy now mb of
          (Inl e, mb1) \<Rightarrow> (Inl e, mb1)
        | (Inr _, mb1) \<Rightarrow>
            (case next_io mb1 of
               (IoOk, mb2) \<Rightarrow> (Inr (), mb2\<lparr>mb_gc_marker := Some now\<rparr>)
             | (_, mb2) \<Rightarrow> (Inr (), mb2)))
      else (Inr (), mb))"

end
