(* ===== verification/Mailbox_Laws.thy ===== *)
theory Mailbox_Laws
  imports Mailbox
begin

text \<open>
  What the mailbox promises over any run of its operations, whichever of their writes fail: a
  message is put into a pane at most once, and a message its recipient has not acknowledged is
  never hidden from it. Both are invariants, carried through the operations by one locale.
\<close>

section \<open>Runs\<close>

datatype mail_op =
    MSend envelope
  | MRead uuid
  | MAck uuid "uuid list"
  | MSubmit uuid "envelope \<Rightarrow> bool" "envelope \<Rightarrow> bool"
  | MGc "session_record list" "uuid \<Rightarrow> bool"
  | MMaybeGc "session_record list" "uuid \<Rightarrow> bool"

text \<open>One operation of some process, with the ids it put into a pane.\<close>

fun mail_step :: "mail_codec \<Rightarrow> string \<Rightarrow> mail_op \<Rightarrow> nat \<Rightarrow> mailbox \<Rightarrow> uuid list \<times> mailbox" where
  "mail_step K ws (MSend e) now mb = ([], snd (write_message_in K e now mb))"
| "mail_step K ws (MRead c) now mb = ([], snd (read_cursor_locked K c now mb))"
| "mail_step K ws (MAck c is) now mb = ([], snd (ack_messages_in K c is now mb))"
| "mail_step K ws (MSubmit i ready submit) now mb =
     (case submit_message_in K ws i ready submit now mb of
        (_, called, mb') \<Rightarrow> (if called then [i] else [], mb'))"
| "mail_step K ws (MGc records busy) now mb = ([], snd (gc_workspace_in K ws records busy now mb))"
| "mail_step K ws (MMaybeGc records busy) now mb = ([], snd (maybe_gc_in K ws records busy now mb))"

fun mail_run :: "mail_codec \<Rightarrow> string \<Rightarrow> (mail_op \<times> nat) list \<Rightarrow> mailbox \<Rightarrow> uuid list \<times> mailbox" where
  "mail_run K ws [] mb = ([], mb)"
| "mail_run K ws ((op, now) # ops) mb =
     (case mail_step K ws op now mb of
        (panes, mb') \<Rightarrow> (case mail_run K ws ops mb' of (more_panes, mb'') \<Rightarrow> (panes @ more_panes, mb'')))"

section \<open>Invariants of a mailbox\<close>

lemma retained_finite: "retained_message_ids K mb = Inr ids \<Longrightarrow> finite ids"
proof -
  have "retained_of K mb ns = Inr ids \<Longrightarrow> finite ids" for ns ids
    by (induction ns arbitrary: ids) (auto simp: res_bind_eq_Inr split: option.split)
  then show "retained_message_ids K mb = Inr ids \<Longrightarrow> finite ids" by (simp add: retained_message_ids_def)
qed

lemma compact_finite: "finite ids \<Longrightarrow> finite (cu_exceptions (compact_cursor ids v))"
  by (simp add: compact_cursor_def Let_def)

text \<open>
  The contract of an invariant: what each primitive step on the directory has to keep. The
  operations on cursors need only the first part; \<open>owned c\<close> are the ids a consumer may
  acknowledge.
\<close>

locale cursor_invariant =
  fixes K :: mail_codec
    and P :: "mailbox \<Rightarrow> bool"
    and owned :: "uuid \<Rightarrow> uuid set"
  assumes io: "P mb \<Longrightarrow> P (mb\<lparr>mb_io := ios\<rparr>)"
    and cursor_keep: "P mb \<Longrightarrow> ce_json e = ce_json (cursor_at c mb) \<or> ce_json e = None \<Longrightarrow> P (set_cursor c e mb)"
    and cursor_write: "P mb \<Longrightarrow> read_cursor_file K c mb = Inr v \<Longrightarrow> cu_acked_through v' = None \<Longrightarrow>
      finite (cu_exceptions v') \<Longrightarrow> cu_exceptions v' \<subseteq> cu_exceptions (compact_cursor ids v) \<union> owned c \<Longrightarrow>
      P (set_cursor c ((cursor_at c mb)\<lparr>ce_json := Some (Regular (cur_json K v' @ [0x0A]), now)\<rparr>) mb)"
begin

lemma keep_next_io: "P mb \<Longrightarrow> next_io mb = (x, mb') \<Longrightarrow> P mb'"
  using io by (auto simp: next_io_def split: list.splits)

lemma keep_atomic:
  assumes "P mb" "\<And>ios. P (mb\<lparr>mb_io := ios\<rparr>) \<Longrightarrow> P (put (mb\<lparr>mb_io := ios\<rparr>))" "atomic_write put mb = (r, mb')"
  shows "P mb'"
proof -
  obtain x m where x: "next_io mb = (x, m)" by force
  then obtain ios where m: "m = mb\<lparr>mb_io := ios\<rparr>"
    by (auto simp: next_io_def split: list.splits intro: that [of "mb_io mb"] that)
  have "P m" using keep_next_io [OF assms(1) x] .
  moreover have "P (put m)" using assms(2) [of ios] calculation m by simp
  ultimately show ?thesis using assms(3) x by (auto simp: atomic_write_def split: io_outcome.splits)
qed

lemma keep_touch: "P mb \<Longrightarrow> P (touch_lock c now mb)"
  by (simp add: touch_lock_def cursor_keep)

lemma keep_write_cursor:
  assumes "P mb" "read_cursor_file K c mb = Inr v" "cu_acked_through v' = None" "finite (cu_exceptions v')"
    and "cu_exceptions v' \<subseteq> cu_exceptions (compact_cursor ids v) \<union> owned c"
    and "write_cursor K c v' now mb = (r, mb')"
  shows "P mb'"
proof (rule keep_atomic [OF assms(1) _ assms(6) [unfolded write_cursor_def]])
  fix ios
  assume p: "P (mb\<lparr>mb_io := ios\<rparr>)"
  have "read_cursor_file K c (mb\<lparr>mb_io := ios\<rparr>) = Inr v"
    using assms(2) by (simp add: read_cursor_file_def cursor_at_def)
  from cursor_write [OF p this assms(3-5)]
  show "P (set_cursor c ((cursor_at c (mb\<lparr>mb_io := ios\<rparr>))\<lparr>ce_json := Some (Regular (cur_json K v' @ [0x0A]), now)\<rparr>)
      (mb\<lparr>mb_io := ios\<rparr>))" .
qed

lemma keep_read_cursor:
  assumes "P mb" "read_cursor_locked K c now mb = (r, mb')"
  shows "P mb'"
proof -
  let ?mb0 = "touch_lock c now mb"
  have p: "P ?mb0" using assms(1) by (rule keep_touch)
  show ?thesis
  proof (cases "res_bind (read_cursor_file K c ?mb0) (\<lambda>v. res_bind (retained_message_ids K ?mb0) (\<lambda>ids. Inr (v, ids)))")
    case (Inl e)
    with assms(2) p show ?thesis by (auto simp: read_cursor_locked_def Let_def)
  next
    case (Inr q)
    obtain v ids where q: "q = (v, ids)" by force
    with Inr have rd: "read_cursor_file K c ?mb0 = Inr v" and ids: "finite ids"
      by (auto simp: res_bind_eq_Inr retained_finite)
    show ?thesis
    proof (cases "compact_cursor ids v = v")
      case True
      with assms(2) p Inr q show ?thesis by (auto simp: read_cursor_locked_def Let_def)
    next
      case False
      with assms(2) Inr q obtain x where "write_cursor K c (compact_cursor ids v) now ?mb0 = (x, mb')"
        by (auto simp: read_cursor_locked_def Let_def split: sum.splits prod.splits)
      from keep_write_cursor [OF p rd _ _ _ this, of ids] ids show ?thesis by (simp add: compact_cursor_def Let_def)
    qed
  qed
qed

lemma keep_ack_ids:
  "ack_ids ids is c acked = (c', acked') \<Longrightarrow> cu_acked_through c' = cu_acked_through c \<and>
     cu_exceptions c' \<subseteq> cu_exceptions c \<union> set is"
  by (induction ids "is" c acked rule: ack_ids.induct) (auto split: if_splits)

lemma keep_ack:
  assumes "P mb" "ack_messages_in K c is now mb = (r, mb')" "set is \<subseteq> owned c"
  shows "P mb'"
proof -
  let ?mb0 = "touch_lock c now mb"
  have p: "P ?mb0" using assms(1) by (rule keep_touch)
  show ?thesis
  proof (cases "res_bind (read_cursor_file K c ?mb0) (\<lambda>v. res_bind (retained_message_ids K ?mb0) (\<lambda>ids. Inr (v, ids)))")
    case (Inl e)
    with assms(2) p show ?thesis by (auto simp: ack_messages_in_def Let_def)
  next
    case (Inr q)
    obtain v ids where q: "q = (v, ids)" by force
    with Inr have rd: "read_cursor_file K c ?mb0 = Inr v" and ids: "finite ids"
      by (auto simp: res_bind_eq_Inr retained_finite)
    obtain v' acked where v': "ack_ids ids is (compact_cursor ids v) [] = (v', acked)" by force
    with assms(2) Inr q obtain x where w: "write_cursor K c v' now ?mb0 = (x, mb')"
      by (auto simp: ack_messages_in_def Let_def split: sum.splits prod.splits)
    have "finite (cu_exceptions v')"
      using keep_ack_ids [OF v'] compact_finite [OF ids] by (auto intro: finite_subset)
    with keep_write_cursor [OF p rd _ _ _ w, of ids] keep_ack_ids [OF v'] assms(3) show ?thesis
      by (auto simp: compact_cursor_def Let_def)
  qed
qed

lemma keep_sync: "P mb \<Longrightarrow> sync_msgs mb = (r, mb') \<Longrightarrow> P mb'"
  using keep_next_io by (auto simp: sync_msgs_def split: prod.splits io_outcome.splits)

lemma keep_prior:
  assumes "P mb" "prior_submission K m now mb = (r, mb')"
  shows "P mb'"
proof (cases "\<exists>t c. me_to m = ToTag t (Some c) \<and> me_delivery m \<noteq> Pane")
  case True
  then obtain t c where t: "me_to m = ToTag t (Some c)" "me_delivery m \<noteq> Pane" by blast
  obtain x mb1 where x: "read_cursor_locked K c now mb = (x, mb1)" by force
  have "P mb1" using keep_read_cursor [OF assms(1) x] .
  with assms(2) t x show ?thesis by (auto simp: prior_submission_def split: sum.splits bool.splits)
next
  case False
  with assms show ?thesis
    by (auto simp: prior_submission_def split: recipient.splits option.splits if_splits)
qed

lemma keep_remove_cursor:
  "P mb \<Longrightarrow> remove_cursor_json c mb = (r, mb') \<Longrightarrow> P mb'"
  "P mb \<Longrightarrow> remove_cursor_lock c mb = (r', mb'') \<Longrightarrow> P mb''"
  using keep_next_io cursor_keep
  by (auto simp: remove_cursor_json_def remove_cursor_lock_def split: prod.splits io_outcome.splits)

lemma keep_maintain_cursor:
  assumes "P mb" "maintain_cursor K active busy now ret ids c mb = (r, mb')" "finite ids"
  shows "P mb'"
proof (cases "busy c")
  case True
  with assms show ?thesis by (simp add: maintain_cursor_def)
next
  case False
  let ?mb0 = "touch_lock c now mb"
  let ?e = "cursor_at c ?mb0"
  have p: "P ?mb0" using assms(1) by (rule keep_touch)
  note run = assms(2) [unfolded maintain_cursor_def Let_def, simplified False if_False]
  obtain x mb1 where x: "remove_cursor_json c ?mb0 = (x, mb1)" by force
  have p1: "P mb1" using keep_remove_cursor(1) [OF p x] .
  obtain y mb2 where y: "remove_cursor_lock c mb1 = (y, mb2)" by force
  have p2: "P mb2" using keep_remove_cursor(2) [OF p1 y] .
  obtain z mb3 where z: "remove_cursor_lock c ?mb0 = (z, mb3)" by force
  have p3: "P mb3" using keep_remove_cursor(2) [OF p z] .
  have p4: "P m" if "read_cursor_file K c ?mb0 = Inr v" "write_cursor K c (compact_cursor ids v) now ?mb0 = (w, m)" for v w m
    using keep_write_cursor [OF p that(1) _ _ _ that(2), of ids] assms(3) by (simp add: compact_cursor_def Let_def)
  show ?thesis
    using run p p1 p2 p3 p4 x y z by (auto split: if_splits sum.splits prod.splits)
qed

lemma keep_maintain:
  "P mb \<Longrightarrow> finite ids \<Longrightarrow> maintain_cursors K active busy now ret ids cs ch mb = (r, mb') \<Longrightarrow> P mb'"
proof (induction cs arbitrary: ch mb)
  case (Cons c cs)
  obtain x mb1 where x: "maintain_cursor K active busy now ret ids c mb = (x, mb1)" by force
  have "P mb1" using keep_maintain_cursor [OF Cons.prems(1) x Cons.prems(2)] .
  with Cons x show ?case by (auto split: sum.splits)
qed simp

lemma keep_maintain_locked:
  assumes "P mb" "maintain_workspace_cursors_locked K active busy now ret mb = (r, mb')"
  shows "P mb'"
proof (cases "retained_message_ids K mb")
  case (Inl e)
  with assms show ?thesis by (auto simp: maintain_workspace_cursors_locked_def)
next
  case (Inr ids)
  obtain x mb1 where x: "maintain_cursors K active busy now ret ids (cursor_ids mb) False mb = (x, mb1)" by force
  have p1: "P mb1" using keep_maintain [OF assms(1) retained_finite [OF Inr] x] .
  with assms(2) Inr x keep_sync [OF p1] show ?thesis
    by (auto simp: maintain_workspace_cursors_locked_def split: sum.splits if_splits)
qed

end

text \<open>The operations on messages too; \<open>fresh\<close> says which names may appear.\<close>

locale mailbox_invariant = cursor_invariant K P owned
    for K :: mail_codec and P :: "mailbox \<Rightarrow> bool" and owned :: "uuid \<Rightarrow> uuid set" +
  fixes fresh :: "string \<Rightarrow> bool"
  assumes marker: "P mb \<Longrightarrow> P (mb\<lparr>mb_gc_marker := t\<rparr>)"
    and put_new: "P mb \<Longrightarrow> fresh n \<Longrightarrow> P (put_msg n bs mb)"
    and put_old: "P mb \<Longrightarrow> map_of (mb_msgs mb) n \<noteq> None \<Longrightarrow> P (put_msg n bs mb)"
    and drop_new: "P mb \<Longrightarrow> P (drop_msg n mb)"
    and reserve: "P mb \<Longrightarrow> P (put_attempt n mb)"
    and release: "P mb \<Longrightarrow> map_of (mb_msgs mb) n = None \<Longrightarrow> P (drop_attempt n mb)"
begin

lemma keep_remove:
  assumes "P mb" "remove_message_and_attempt n mb = (r, mb')"
  shows "P mb'"
proof -
  obtain x mb1 where first: "(case map_of (mb_msgs mb) n of
           None \<Rightarrow> (Inr False, mb)
         | Some _ \<Rightarrow>
             (case next_io mb of
                (IoOk, mb') \<Rightarrow> (Inr True, drop_msg n mb')
              | (_, mb') \<Rightarrow> (Inl RemoveFailed, mb'))) = (x :: mail_error + bool, mb1)" by force
  have one: "P mb1 \<and> (\<forall>b. x = Inr b \<longrightarrow> map_of (mb_msgs mb1) n = None)"
  proof (cases "map_of (mb_msgs mb) n")
    case None
    with first assms(1) show ?thesis by auto
  next
    case (Some nd)
    obtain o1 m where o1: "next_io mb = (o1, m)" by force
    have "P m" using keep_next_io [OF assms(1) o1] .
    with drop_new first Some o1 show ?thesis
      by (auto simp: drop_msg_def delete_conv' split: io_outcome.splits)
  qed
  obtain o2 m where o2: "next_io mb1 = (o2, m)" by force
  have "P m" using keep_next_io [OF _ o2] one by simp
  moreover have "mb_msgs m = mb_msgs mb1" using o2 by (auto simp: next_io_def split: list.splits)
  ultimately show ?thesis
    using assms(2) one o2 release [of m n] unfolding remove_message_and_attempt_def first Let_def
    by (auto split: sum.splits if_splits io_outcome.splits)
qed

lemma keep_expire:
  "P mb \<Longrightarrow> expire_loop prot now es t k mb = (r, mb') \<Longrightarrow> P mb'"
proof (induction prot now es t k mb arbitrary: r mb' rule: expire_loop.induct)
  case (2 prot now e es t k mb)
  let ?gone = "(case en_created_at e of None \<Rightarrow> False | Some t \<Rightarrow> DEFAULT_TTL_SECS < now - t) \<and> prot \<noteq> Some (en_name e)"
  show ?case
  proof (cases ?gone)
    case True
    obtain x mb1 where x: "remove_message_and_attempt (en_name e) mb = (x, mb1)" by force
    have "P mb1" using keep_remove [OF "2.prems"(1) x] .
    with 2 True x show ?thesis by (cases x) auto
  next
    case False
    obtain y mb1 where y: "expire_loop prot now es t k mb = (y, mb1)" by force
    have "P mb1" using "2.IH"(2) [OF refl False "2.prems"(1) y] .
    with "2.prems"(2) False y show ?thesis by (auto simp: Let_def split: sum.splits prod.splits)
  qed
qed simp

lemma keep_quota:
  "P mb \<Longrightarrow> quota_loop prot mm bb es t k mb = (r, mb') \<Longrightarrow> P mb'"
proof (induction prot mm bb es t k mb arbitrary: r mb' rule: quota_loop.induct)
  case (1 prot mm bb es t k mb)
  note loop = quota_loop.simps [of prot mm bb es t k mb]
  show ?case
  proof (cases "length es \<le> mm \<and> t \<le> bb")
    case True
    with 1 loop show ?thesis by auto
  next
    case False
    show ?thesis
    proof (cases "List.extract (\<lambda>e. prot \<noteq> Some (en_name e)) es")
      case None
      with 1 loop False show ?thesis by auto
    next
      case (Some q)
      obtain b e a where q: "q = (b, e, a)" by (cases q)
      obtain x mb1 where x: "remove_message_and_attempt (en_name e) mb = (x, mb1)" by force
      have p: "P mb1" using keep_remove [OF "1.prems"(1) x] .
      show ?thesis
      proof (cases x)
        case (Inl err)
        with "1.prems"(2) loop False Some q x p show ?thesis by auto
      next
        case (Inr d)
        with "1.prems"(2) loop False Some q x
        have "quota_loop prot mm bb (b @ a) (t - en_size e) (if d then k + 1 else k) mb1 = (r, mb')" by auto
        with "1.IH" [OF False Some q [symmetric] refl x [symmetric] Inr p] show ?thesis by simp
      qed
    qed
  qed
qed

lemma keep_prune:
  assumes "P mb" "prune_workspace_locked K ws prot mm bb ex now mb = (r, mb')"
  shows "P mb'"
proof (cases "mailbox_entries K ws ex mb")
  case (Inl e)
  with assms show ?thesis by (auto simp: prune_workspace_locked_def)
next
  case (Inr es)
  let ?first = "if ex then expire_loop prot now es (sum_list (map en_size es)) 0 mb
     else (Inr (es, sum_list (map en_size es), 0), mb)"
  obtain x mb1 where x: "?first = (x, mb1)" by force
  have p1: "P mb1" using x assms(1) keep_expire by (auto split: if_splits)
  show ?thesis
  proof (cases x)
    case (Inl e)
    with assms(2) \<open>mailbox_entries K ws ex mb = Inr es\<close> x p1 show ?thesis
      by (auto simp: prune_workspace_locked_def Let_def)
  next
    case (Inr y)
    obtain kept t k where y: "y = (kept, t, k)" by (cases y)
    obtain z mb2 where z: "quota_loop prot mm bb kept t k mb1 = (z, mb2)" by force
    have p2: "P mb2" using keep_quota [OF p1 z] .
    note run = assms(2) [unfolded prune_workspace_locked_def \<open>mailbox_entries K ws ex mb = Inr es\<close> Let_def sum.case x Inr y
        prod.case z]
    show ?thesis
    proof (cases z)
      case (Inl e)
      with run p2 show ?thesis by auto
    next
      case (Inr w)
      with run p2 keep_sync [OF p2] show ?thesis
        by (auto split: prod.splits sum.splits if_splits)
    qed
  qed
qed

lemma keep_write:
  assumes "P mb" "write_message_limited K e mm bb now mb = (r, mb')" "fresh (uu_text K (me_id e))"
  shows "P mb'"
proof (cases "serialized_envelope K e")
  case (Inl err)
  with assms show ?thesis by (auto simp: write_message_limited_def)
next
  case (Inr bs)
  note ser = Inr
  let ?n = "uu_text K (me_id e)"
  show ?thesis
  proof (cases "bb < length bs \<or> map_of (mb_msgs mb) ?n \<noteq> None")
    case True
    with assms Inr show ?thesis by (auto simp: write_message_limited_def split: if_splits)
  next
    case False
    obtain x mb1 where x: "atomic_write (put_msg ?n bs) mb = (x, mb1)" by force
    have p1: "P mb1" using keep_atomic [OF assms(1) _ x] put_new assms(3) by blast
    obtain y mb2 where y: "prune_workspace_locked K (me_workspace e) (Some ?n) mm bb False now mb1 = (y, mb2)" by force
    have p2: "P mb2" using keep_prune [OF p1 y] .
    obtain o3 mb3 where o3: "next_io mb2 = (o3, mb3)" by force
    have p3: "P mb3" using keep_next_io [OF p2 o3] .
    let ?mb4 = "case o3 of IoOk \<Rightarrow> drop_msg ?n mb3 | _ \<Rightarrow> mb3"
    have p4: "P ?mb4" using p3 drop_new by (cases o3) auto
    have p5: "P (snd (next_io ?mb4))" using keep_next_io [OF p4] by (metis prod.collapse)
    note run = assms(2) [unfolded write_message_limited_def ser sum.case]
    have step: "(r, mb') = (case x of Inl err \<Rightarrow> (Inl err, mb1)
        | Inr _ \<Rightarrow> (case y of Inr _ \<Rightarrow> (Inr (), mb2) | Inl err \<Rightarrow> (Inl err, snd (next_io ?mb4))))"
      using run False x y o3 by (auto simp: Let_def split: sum.splits io_outcome.splits)
    show ?thesis using step p1 p2 p5 by (auto split: sum.splits)
  qed
qed

lemma keep_mark:
  assumes "P mb" "mark_pane_delivered_locked K e mb = (r, mb')"
  shows "P mb'"
proof (cases "load_message_file K (uu_text K (me_id e)) (me_workspace e) mb")
  case (Inl err)
  with assms show ?thesis by (auto simp: mark_pane_delivered_locked_def)
next
  case (Inr cur)
  then have ex: "map_of (mb_msgs mb) (uu_text K (me_id e)) \<noteq> None"
    by (auto simp: load_message_file_def open_message_file_def res_bind_def split: option.splits)
  show ?thesis
  proof (cases "me_id cur \<noteq> me_id e \<or> me_delivery cur \<noteq> Inbox")
    case True
    with Inr assms show ?thesis by (auto simp: mark_pane_delivered_locked_def)
  next
    case False
    show ?thesis
    proof (cases "serialized_envelope K (e\<lparr>me_delivery := Pane\<rparr>)")
      case (Inl err)
      with Inr False assms show ?thesis by (auto simp: mark_pane_delivered_locked_def)
    next
      case (Inr bs)
      with assms(2) False \<open>load_message_file K _ _ mb = Inr cur\<close>
      have "atomic_write (put_msg (uu_text K (me_id e)) bs) mb = (r, mb')"
        by (auto simp: mark_pane_delivered_locked_def)
      from keep_atomic [OF assms(1) _ this] put_old ex show ?thesis by simp
    qed
  qed
qed

lemma keep_submit:
  assumes "P mb" "submit_message_in K ws i ready submit now mb = (r, called, mb')"
  shows "P mb'"
proof (cases "read_message_in K ws i mb")
  case (Inl e)
  with assms show ?thesis by (auto simp: submit_message_in_def)
next
  case (Inr m)
  obtain x mb1 where x: "prior_submission K m now mb = (x, mb1)" by force
  have p1: "P mb1" using keep_prior [OF assms(1) x] .
  show ?thesis
  proof (cases "x = Inr None \<and> ready m")
    case False
    with assms(2) Inr x p1 show ?thesis
      by (auto simp: submit_message_in_def split: sum.splits option.splits)
  next
    case True
    with assms(2) Inr x have perf: "perform_submission K m (submit m) mb1 = (r, called, mb')"
      by (auto simp: submit_message_in_def)
    obtain y mb2 where y: "atomic_write (put_attempt (uu_text K (me_id m))) mb1 = (y, mb2)" by force
    have p2: "P mb2" using keep_atomic [OF p1 _ y] reserve by blast
    obtain z mb3 where z: "mark_pane_delivered_locked K m mb2 = (z, mb3)" by force
    have "P mb3" using keep_mark [OF p2 z] .
    with perf y z p2 show ?thesis
      by (auto simp: perform_submission_def split: sum.splits if_splits)
  qed
qed

lemma keep_gc:
  assumes "P mb" "gc_workspace_in K ws records busy now mb = (r, mb')"
  shows "P mb'"
proof -
  obtain x mb1 where x: "prune_workspace_locked K ws None MAX_MESSAGES_PER_WORKSPACE MAX_WORKSPACE_BYTES True now mb = (x, mb1)"
    by force
  have p1: "P mb1" using keep_prune [OF assms(1) x] .
  obtain y mb2 where y: "maintain_workspace_cursors_locked K (active_consumers ws records) busy now
      STALE_CURSOR_RETENTION_SECS mb1 = (y, mb2)" by force
  have "P mb2" using keep_maintain_locked [OF p1 y] .
  with assms(2) x y p1 show ?thesis by (auto simp: gc_workspace_in_def split: sum.splits)
qed

lemma keep_maybe_gc:
  assumes "P mb" "maybe_gc_in K ws records busy now mb = (r, mb')"
  shows "P mb'"
proof -
  obtain x mb1 where x: "gc_workspace_in K ws records busy now mb = (x, mb1)" by force
  have p1: "P mb1" using keep_gc [OF assms(1) x] .
  obtain y mb2 where y: "next_io mb1 = (y, mb2)" by force
  have "P mb2" using keep_next_io [OF p1 y] .
  with assms x y p1 marker show ?thesis
    by (auto simp: maybe_gc_in_def split: if_splits sum.splits io_outcome.splits)
qed

fun allowed :: "mail_op \<Rightarrow> bool" where
  "allowed (MSend e) = fresh (uu_text K (me_id e))"
| "allowed (MAck c is) = (set is \<subseteq> owned c)"
| "allowed _ = True"

lemma keep_step: "P mb \<Longrightarrow> allowed op \<Longrightarrow> P (snd (mail_step K ws op now mb))"
  by (cases op)
    (auto simp: write_message_in_def split: prod.split
      intro: keep_write [OF _ prod.collapse [symmetric]] keep_read_cursor [OF _ prod.collapse [symmetric]]
        keep_ack [OF _ prod.collapse [symmetric]] keep_gc [OF _ prod.collapse [symmetric]]
        keep_maybe_gc [OF _ prod.collapse [symmetric]] keep_submit)

lemma keep_run: "P mb \<Longrightarrow> list_all (allowed \<circ> fst) ops \<Longrightarrow> P (snd (mail_run K ws ops mb))"
proof (induction ops arbitrary: mb)
  case (Cons a ops)
  obtain op now where a: "a = (op, now)" by force
  have "P (snd (mail_step K ws op now mb))" using Cons.prems a by (simp add: keep_step)
  then have "P (snd (mail_run K ws ops (snd (mail_step K ws op now mb))))" using Cons by simp
  then show ?case by (simp add: a case_prod_beta)
qed simp

end

section \<open>Pane submission happens at most once\<close>

definition spent :: "mail_codec \<Rightarrow> uuid \<Rightarrow> mailbox \<Rightarrow> bool" where
  "spent K i mb \<longleftrightarrow> uu_text K i \<in> set (mb_attempts mb) \<or> map_of (mb_msgs mb) (uu_text K i) = None"

lemma set_cursor_files [simp]:
  "mb_msgs (set_cursor c e mb) = mb_msgs mb" "mb_attempts (set_cursor c e mb) = mb_attempts mb"
  by (simp_all add: set_cursor_def)

interpretation spent: mailbox_invariant K "spent K i" "\<lambda>_. UNIV" "\<lambda>n. n \<noteq> uu_text K i" for K i
  by unfold_locales
    (auto simp: spent_def put_msg_def drop_msg_def put_attempt_def drop_attempt_def update_conv' delete_conv'
      split: if_splits)

lemma uu_text_inj: "mail_codec_ok K \<Longrightarrow> uu_text K i = uu_text K j \<longleftrightarrow> i = j"
  unfolding mail_codec_ok_def by (metis option.inject)

lemma read_message_id:
  assumes "mail_codec_ok K" "read_message_in K ws i mb = Inr m"
  shows "me_id m = i \<and> map_of (mb_msgs mb) (uu_text K i) \<noteq> None"
  using assms by (auto simp: read_message_in_def load_message_file_def load_open_message_file_def open_message_file_def
      mail_codec_ok_def res_bind_def split: option.splits sum.splits node.splits if_splits)

lemma mark_keeps_attempts: "mb_attempts (snd (mark_pane_delivered_locked K e mb)) = mb_attempts mb"
proof -
  have "mb_attempts (snd (atomic_write (put_msg n bs) mb)) = mb_attempts mb" for n bs
    by (auto simp: atomic_write_def next_io_def put_msg_def split: list.split io_outcome.split)
  then show ?thesis by (auto simp: mark_pane_delivered_locked_def split: sum.split)
qed

text \<open>Reading, acknowledging and compacting cursors leaves the messages and reservations alone.\<close>

interpretation same: cursor_invariant K "\<lambda>mb. mb_msgs mb = ms \<and> mb_attempts mb = as" "\<lambda>_. UNIV" for K ms as
  by unfold_locales simp_all

lemma read_cursor_files:
  "read_cursor_locked K c now mb = (r, mb') \<Longrightarrow> mb_attempts mb' = mb_attempts mb \<and> mb_msgs mb' = mb_msgs mb"
  using same.keep_read_cursor [of mb "mb_msgs mb" "mb_attempts mb"] by simp

lemma prior_keeps:
  assumes "prior_submission K m now mb = (r, mb')"
  shows "mb_attempts mb' = mb_attempts mb \<and> (r = Inr None \<longrightarrow> uu_text K (me_id m) \<notin> set (mb_attempts mb))"
  using assms read_cursor_files
  by (fastforce simp: prior_submission_def split: if_splits recipient.splits option.splits sum.splits prod.splits bool.splits)

lemma submit_called:
  assumes "mail_codec_ok K" "submit_message_in K ws i ready submit now mb = (r, True, mb')"
  shows "\<not> spent K i mb \<and> uu_text K i \<in> set (mb_attempts mb')"
proof -
  obtain m where m: "read_message_in K ws i mb = Inr m"
    using assms(2) by (auto simp: submit_message_in_def split: sum.splits)
  note mi = read_message_id [OF assms(1) m]
  obtain x mb1 where x: "prior_submission K m now mb = (x, mb1)" by force
  have "x = Inr None" and perf: "perform_submission K m (submit m) mb1 = (r, True, mb')"
    using assms(2) m x by (auto simp: submit_message_in_def split: sum.splits option.splits if_splits)
  with prior_keeps [OF x] mi have "\<not> spent K i mb" by (simp add: spent_def)
  moreover obtain y mb2 where y: "atomic_write (put_attempt (uu_text K (me_id m))) mb1 = (y, mb2)" by force
  with perf have "y = Inr ()" by (auto simp: perform_submission_def split: sum.splits)
  with y have "uu_text K i \<in> set (mb_attempts mb2)"
    using mi by (auto simp: atomic_write_def put_attempt_def split: prod.splits io_outcome.splits)
  then have "uu_text K i \<in> set (mb_attempts mb')"
    using perf y \<open>y = Inr ()\<close> mark_keeps_attempts [of K m mb2]
    by (auto simp: perform_submission_def split: sum.splits prod.splits if_splits)
  ultimately show ?thesis by blast
qed

lemma step_panes:
  assumes "mail_codec_ok K"
  shows "fst (mail_step K ws op now mb) = [] \<or>
     (\<exists>j. fst (mail_step K ws op now mb) = [j] \<and> \<not> spent K j mb \<and> spent K j (snd (mail_step K ws op now mb)))"
proof (cases op)
  case (MSubmit i ready submit)
  then show ?thesis using submit_called [OF assms] by (auto simp: spent_def split: prod.split)
qed auto

lemma spent_allowed:
  "mail_codec_ok K \<Longrightarrow> list_all (\<lambda>(op, _). \<forall>e. op = MSend e \<longrightarrow> me_id e \<noteq> i) ops \<Longrightarrow>
     list_all (spent.allowed K i \<circ> fst) ops"
proof -
  assume ok: "mail_codec_ok K"
  have "spent.allowed K i op" if "\<forall>e. op = MSend e \<longrightarrow> me_id e \<noteq> i" for op
    using that uu_text_inj [OF ok] by (cases op) auto
  then show "list_all (\<lambda>(op, _). \<forall>e. op = MSend e \<longrightarrow> me_id e \<noteq> i) ops \<Longrightarrow> ?thesis"
    by (auto simp: list_all_iff)
qed

lemma panes_count:
  assumes "mail_codec_ok K"
  shows "list_all (\<lambda>(op, _). \<forall>e. op = MSend e \<longrightarrow> me_id e \<noteq> i) ops \<Longrightarrow>
     count_list (fst (mail_run K ws ops mb)) i \<le> (if spent K i mb then 0 else 1)"
proof (induction ops arbitrary: mb)
  case (Cons a ops)
  obtain op now where a: "a = (op, now)" by force
  let ?t = "fst (mail_step K ws op now mb)" and ?mb1 = "snd (mail_step K ws op now mb)"
  have run: "fst (mail_run K ws (a # ops) mb) = ?t @ fst (mail_run K ws ops ?mb1)"
    by (simp add: a split: prod.split)
  have keep: "spent K i mb \<Longrightarrow> spent K i ?mb1"
    using spent_allowed [OF assms Cons.prems] a by (simp add: spent.keep_step)
  have IH: "count_list (fst (mail_run K ws ops ?mb1)) i \<le> (if spent K i ?mb1 then 0 else 1)"
    using Cons.IH [of ?mb1] Cons.prems by simp
  from step_panes [OF assms, of ws op now mb] show ?case
  proof
    assume "?t = []"
    with run IH keep show ?thesis by (auto split: if_splits)
  next
    assume "\<exists>j. ?t = [j] \<and> \<not> spent K j mb \<and> spent K j ?mb1"
    then obtain j where "?t = [j]" "\<not> spent K j mb" "spent K j ?mb1" by blast
    with run IH keep show ?thesis by (cases "j = i") (auto split: if_splits)
  qed
qed simp

text \<open>
  C25: a message goes into a pane at most once. In any run of sends, reads, acknowledgements,
  sweeps and submissions of that message, with any of their writes failing, the transport is
  called at most once for an id that is not sent anew, and not at all once a reservation for it
  is on disk.
\<close>

theorem submit_at_most_once:
  assumes "mail_codec_ok K" and "list_all (\<lambda>(op, _). \<forall>e. op = MSend e \<longrightarrow> me_id e \<noteq> i) ops"
  shows "count_list (fst (mail_run K ws ops mb)) i \<le> 1 \<and>
     (uu_text K i \<in> set (mb_attempts mb) \<longrightarrow> i \<notin> set (fst (mail_run K ws ops mb)))"
  using panes_count [OF assms, of ws mb] by (auto simp: spent_def count_list_0_iff split: if_splits)

section \<open>Unacknowledged mail stays visible\<close>

definition exact_cursor :: "mail_codec \<Rightarrow> uuid \<Rightarrow> uuid set \<Rightarrow> mailbox \<Rightarrow> bool" where
  "exact_cursor K c S mb \<longleftrightarrow>
     (case ce_json (cursor_at c mb) of
        Some (Regular bs, _) \<Rightarrow>
          (case cur_parse K bs of None \<Rightarrow> True | Some v \<Rightarrow> cu_acked_through v = None \<and> cu_exceptions v \<subseteq> S)
      | _ \<Rightarrow> True)"

lemma cursor_at_simps [simp]:
  "cursor_at c (mb\<lparr>mb_io := ios\<rparr>) = cursor_at c mb" "cursor_at c (mb\<lparr>mb_gc_marker := t\<rparr>) = cursor_at c mb"
  "cursor_at c (put_msg n bs mb) = cursor_at c mb" "cursor_at c (drop_msg n mb) = cursor_at c mb"
  "cursor_at c (put_attempt n mb) = cursor_at c mb" "cursor_at c (drop_attempt n mb) = cursor_at c mb"
  "cursor_at c (set_cursor d e mb) = (if d = c then e else cursor_at c mb)"
  by (simp_all add: cursor_at_def put_msg_def drop_msg_def put_attempt_def drop_attempt_def set_cursor_def update_conv')

lemma exact_cursor_read:
  assumes "exact_cursor K c S mb" "read_cursor_file K c mb = Inr v"
  shows "cu_acked_through v = None \<and> cu_exceptions v \<subseteq> S"
  using assms by (auto simp: exact_cursor_def read_cursor_file_def cursor_default_def
      split: option.splits prod.splits node.splits if_splits)

lemma compact_exact: "cu_acked_through v = None \<Longrightarrow> cu_exceptions (compact_cursor ids v) = cu_exceptions v \<inter> ids"
  by (auto simp: compact_cursor_def Let_def)

lemma compact_acked_through [simp]: "cu_acked_through (compact_cursor ids v) = None"
  by (simp add: compact_cursor_def Let_def)

interpretation exact: mailbox_invariant K "\<lambda>mb. mail_codec_ok K \<longrightarrow> exact_cursor K c S mb"
    "\<lambda>d. if d = c then S else UNIV" "\<lambda>_. True" for K c S
proof (unfold_locales, goal_cases)
  case (3 mb d v v' ids now)
  show ?case
  proof
    assume ok: "mail_codec_ok K"
    with 3 have ex: "exact_cursor K c S mb" by blast
    have "cu_exceptions v' \<subseteq> S" if "d = c"
      using 3 that exact_cursor_read [OF ex] compact_exact [of v ids] by auto
    moreover have "cur_parse K (cur_json K v' @ [0x0A]) = Some v'" using ok 3 by (simp add: mail_codec_ok_def)
    ultimately show "exact_cursor K c S (set_cursor d ((cursor_at d mb)\<lparr>ce_json := Some (Regular (cur_json K v' @ [0x0A]), now)\<rparr>) mb)"
      using ex 3 by (auto simp: exact_cursor_def)
  qed
qed (auto simp: exact_cursor_def)

fun acked_by :: "uuid \<Rightarrow> (mail_op \<times> nat) list \<Rightarrow> uuid set" where
  "acked_by c [] = {}"
| "acked_by c ((MAck d is, _) # ops) = (if d = c then set is else {}) \<union> acked_by c ops"
| "acked_by c (_ # ops) = acked_by c ops"

lemma exact_allowed: "acked_by c ops \<subseteq> S \<Longrightarrow> list_all (exact.allowed K c S \<circ> fst) ops"
  by (induction c ops rule: acked_by.induct) (auto split: if_splits)

lemma exact_cursor_mono: "exact_cursor K c S mb \<Longrightarrow> S \<subseteq> T \<Longrightarrow> exact_cursor K c T mb"
  by (auto simp: exact_cursor_def split: option.splits prod.splits node.splits)

lemma read_cursor_Inr:
  assumes "read_cursor_locked K c now mb = (Inr v, mb')"
  shows "\<exists>w ids. read_cursor_file K c mb = Inr w \<and> retained_message_ids K mb = Inr ids \<and> v = compact_cursor ids w"
proof -
  have t: "read_cursor_file K c (touch_lock c now mb) = read_cursor_file K c mb"
    by (simp add: touch_lock_def read_cursor_file_def)
  have m: "mb_msgs (touch_lock c now mb) = mb_msgs mb" by (simp add: touch_lock_def)
  have o: "open_message_file n (touch_lock c now mb) = open_message_file n mb" for n
    by (simp add: open_message_file_def m)
  have "retained_of K (touch_lock c now mb) ns = retained_of K mb ns" for ns
    by (induction ns) (simp_all add: o)
  then have ids: "retained_message_ids K (touch_lock c now mb) = retained_message_ids K mb"
    by (simp add: retained_message_ids_def msg_names_def m)
  from assms show ?thesis
    by (auto simp: read_cursor_locked_def Let_def t ids res_bind_eq_Inr
        split: sum.splits prod.splits if_splits)
qed

lemma load_message_cong: "mb_msgs mb' = mb_msgs mb \<Longrightarrow> load_message_file K n ws mb' = load_message_file K n ws mb"
  by (simp add: load_message_file_def open_message_file_def)

lemma load_all_Inr:
  "load_all K ws mb ns = Inr es \<Longrightarrow> list_all2 (\<lambda>n e. load_message_file K n ws mb = Inr e) ns es"
  by (induction ns arbitrary: es) (auto simp: res_bind_eq_Inr)

lemma list_messages_member:
  assumes "list_messages_in K ws mb = Inr ms" "load_message_file K n ws mb = Inr e"
  shows "e \<in> set ms"
proof -
  have "n \<in> set (msg_names mb)"
    using assms(2) by (auto simp: load_message_file_def open_message_file_def msg_names_def res_bind_eq_Inr
        split: option.splits dest!: map_of_SomeD intro: rev_image_eqI)
  moreover obtain es where es: "load_all K ws mb (msg_names mb) = Inr es" "ms = sort_key me_id es"
    using assms(1) by (auto simp: list_messages_in_def res_bind_eq_Inr)
  ultimately show ?thesis
    using load_all_Inr [OF es(1)] assms(2) by (auto simp: list_all2_conv_all_nth in_set_conv_nth)
qed

lemma unread_visible:
  assumes "exact_cursor K (si_id who) S mb" "unread_snapshot K ws who now mb = (Inr ms, mb')"
    and "load_message_file K n ws mb = Inr e" "receives who e" "me_id e \<notin> S"
  shows "e \<in> set ms"
proof -
  obtain v mb1 where v: "read_cursor_locked K (si_id who) now mb = (Inr v, mb1)"
    using assms(2) by (auto simp: unread_snapshot_def split: sum.splits prod.splits)
  obtain all where all: "list_messages_in K ws mb1 = Inr all"
      "ms = filter (\<lambda>m. receives who m \<and> \<not> is_acked v (me_id m)) all"
    using assms(2) v by (auto simp: unread_snapshot_def split: sum.splits)
  obtain w ids where w: "read_cursor_file K (si_id who) mb = Inr w" "v = compact_cursor ids w"
    using read_cursor_Inr [OF v] by blast
  have "\<not> is_acked v (me_id e)"
    using exact_cursor_read [OF assms(1) w(1)] compact_exact [of w ids] w(2) assms(5) by (auto simp: is_acked_def)
  moreover have "load_message_file K n ws mb1 = Inr e"
    using assms(3) read_cursor_files [OF v] load_message_cong [of mb1 mb] by simp
  ultimately show ?thesis using list_messages_member [OF all(1)] all(2) assms(4) by auto
qed

text \<open>
  C26: unacknowledged mail is never hidden. After any run of operations of any processes, with
  any writes failing, a message that is in the mailbox, is addressed to a consumer and was
  neither acknowledged by it during the run nor before it is in the consumer's unread list,
  however its id compares with the acknowledged ones.
\<close>

theorem unacked_mail_visible:
  assumes "mail_codec_ok K" and "exact_cursor K (si_id who) S mb"
    and "mb' = snd (mail_run K ws ops mb)" and "unread_snapshot K ws who now mb' = (Inr ms, mb'')"
    and "load_message_file K n ws mb' = Inr e" and "receives who e"
    and "me_id e \<notin> S \<union> acked_by (si_id who) ops"
  shows "e \<in> set ms"
proof -
  have "exact_cursor K (si_id who) (S \<union> acked_by (si_id who) ops) mb"
    using assms(2) by (rule exact_cursor_mono) simp
  then have "exact_cursor K (si_id who) (S \<union> acked_by (si_id who) ops) mb'"
    using exact.keep_run [of K "si_id who" _ mb ops ws] exact_allowed [of "si_id who" ops _ K] assms(1,3) by simp
  from unread_visible [OF this assms(4-7)] show ?thesis .
qed

end
