(* ===== verification/Mailbox_Store.thy ===== *)
theory Mailbox_Store
  imports Mailbox_Laws "HOL-Library.Multiset"
begin

text \<open>
  What single mailbox operations do: an append keeps the new message and the newest of the others
  within the caps, a sweep removes what has expired, and an acknowledgement hides exactly the
  messages it names.
\<close>

section \<open>Removing files\<close>

lemma next_io_files [simp]:
  "mb_msgs (snd (next_io mb)) = mb_msgs mb" "mb_attempts (snd (next_io mb)) = mb_attempts mb"
  "mb_cursors (snd (next_io mb)) = mb_cursors mb"
  by (simp_all add: next_io_def split: list.split)

lemma next_io_eq: "next_io mb = (x, m) \<Longrightarrow> mb_msgs m = mb_msgs mb \<and> mb_attempts m = mb_attempts mb \<and> mb_cursors m = mb_cursors mb"
  by (metis next_io_files snd_conv)

lemma remove_Inr:
  assumes "remove_message_and_attempt n mb = (Inr b, mb')"
  shows "map_of (mb_msgs mb') = (map_of (mb_msgs mb))(n := None)"
proof -
  obtain x m where x: "next_io mb = (x, m)" by force
  note f = next_io_eq [OF x]
  show ?thesis
  proof (cases "map_of (mb_msgs mb) n")
    case None
    obtain y m2 where y: "next_io mb = (y, m2)" by force
    from assms None y next_io_eq [OF y] show ?thesis
      by (auto simp: remove_message_and_attempt_def drop_attempt_def fun_upd_idem split: if_splits io_outcome.splits)
  next
    case (Some nd)
    obtain y m2 where y: "next_io (drop_msg n m) = (y, m2)" by force
    from assms Some x y f next_io_eq [OF y] show ?thesis
      by (auto simp: remove_message_and_attempt_def drop_attempt_def drop_msg_def delete_conv'
          split: if_splits io_outcome.splits)
  qed
qed

definition unprotected :: "string option \<Rightarrow> mail_entry \<Rightarrow> bool" where
  "unprotected prot e \<longleftrightarrow> prot \<noteq> Some (en_name e)"

definition survivors :: "string option \<Rightarrow> nat \<Rightarrow> mail_entry list \<Rightarrow> mail_entry list" where
  "survivors prot j es = filter (\<lambda>e. en_name e \<notin> en_name ` set (take j (filter (unprotected prot) es))) es"

definition within :: "nat \<Rightarrow> nat \<Rightarrow> mail_entry list \<Rightarrow> bool" where
  "within max_messages max_bytes es \<longleftrightarrow> length es \<le> max_messages \<and> sum_list (map en_size es) \<le> max_bytes"

lemma survivors_0 [simp]: "survivors prot 0 es = es"
  by (simp add: survivors_def)

lemma filter_without:
  "\<forall>x \<in> set (b @ a). f x \<noteq> f e \<Longrightarrow> filter (\<lambda>x. f x \<notin> insert (f e) A) (b @ e # a) = filter (\<lambda>x. f x \<notin> A) (b @ a)"
  by (auto intro!: arg_cong2 [where f = append] filter_cong)

lemma survivors_Suc:
  assumes "List.extract (\<lambda>e. prot \<noteq> Some (en_name e)) es = Some (b, e, a)" "distinct (map en_name es)"
  shows "survivors prot (Suc j) es = survivors prot j (b @ a)"
    and "en_name ` set (take (Suc j) (filter (unprotected prot) es)) =
      insert (en_name e) (en_name ` set (take j (filter (unprotected prot) (b @ a))))"
proof -
  have es: "es = b @ e # a" and b: "\<forall>x \<in> set b. \<not> unprotected prot x" and e: "unprotected prot e"
    using assms(1) by (auto simp: extract_Some_iff unprotected_def)
  have fb: "filter (unprotected prot) b = []" using b by (simp add: filter_empty_conv)
  then have f: "filter (unprotected prot) es = e # filter (unprotected prot) a" using es e by simp
  show ev: "en_name ` set (take (Suc j) (filter (unprotected prot) es)) =
      insert (en_name e) (en_name ` set (take j (filter (unprotected prot) (b @ a))))"
    using f fb by simp
  have "en_name e \<notin> en_name ` set (b @ a)" using assms(2) es by auto
  then have "\<forall>x \<in> set (b @ a). en_name x \<noteq> en_name e" by (metis image_eqI)
  then show "survivors prot (Suc j) es = survivors prot j (b @ a)"
    unfolding survivors_def ev unfolding es by (rule filter_without)
qed

lemma restrict_insert: "(m(n := None)) |` (- A) = m |` (- insert n A)"
  by (auto simp: restrict_map_def)

lemma quota_Inr:
  "quota_loop prot mm bb es t k mb = (Inr (left, k'), mb') \<Longrightarrow> distinct (map en_name es) \<Longrightarrow>
     t = sum_list (map en_size es) \<Longrightarrow>
     \<exists>j. left = survivors prot j es \<and> within mm bb left \<and> (0 < j \<longrightarrow> \<not> within mm bb (survivors prot (j - 1) es)) \<and>
       map_of (mb_msgs mb') = map_of (mb_msgs mb) |` (- en_name ` set (take j (filter (unprotected prot) es)))"
proof (induction prot mm bb es t k mb rule: quota_loop.induct)
  case (1 prot mm bb es t k mb)
  note loop = "1.prems"(1) [unfolded quota_loop.simps [of prot mm bb es t k mb]]
  show ?case
  proof (cases "length es \<le> mm \<and> t \<le> bb")
    case True
    with loop "1.prems" show ?thesis
      by (intro exI [of _ 0]) (auto simp: within_def restrict_map_def)
  next
    case False
    obtain b e a where ex: "List.extract (\<lambda>e. prot \<noteq> Some (en_name e)) es = Some (b, e, a)"
      using loop False by (cases "List.extract (\<lambda>e. prot \<noteq> Some (en_name e)) es") auto
    obtain d mb1 where rm: "remove_message_and_attempt (en_name e) mb = (Inr d, mb1)"
      using loop False ex by (cases "remove_message_and_attempt (en_name e) mb"; cases "fst (remove_message_and_attempt (en_name e) mb)") auto
    have es: "es = b @ e # a" using ex by (simp add: extract_Some_iff)
    let ?k = "if d then k + 1 else k"
    have rest: "quota_loop prot mm bb (b @ a) (t - en_size e) ?k mb1 = (Inr (left, k'), mb')"
      using loop False ex rm by auto
    have "\<exists>j. left = survivors prot j (b @ a) \<and> within mm bb left \<and>
        (0 < j \<longrightarrow> \<not> within mm bb (survivors prot (j - 1) (b @ a))) \<and>
        map_of (mb_msgs mb') = map_of (mb_msgs mb1) |` (- en_name ` set (take j (filter (unprotected prot) (b @ a))))"
      by (rule "1.IH" [OF False ex refl refl rm [symmetric] refl rest]) (use "1.prems" es in auto)
    then obtain j where j: "left = survivors prot j (b @ a)" "within mm bb left"
        "0 < j \<longrightarrow> \<not> within mm bb (survivors prot (j - 1) (b @ a))"
        "map_of (mb_msgs mb') = map_of (mb_msgs mb1) |` (- en_name ` set (take j (filter (unprotected prot) (b @ a))))"
      by blast
    note suc = survivors_Suc [OF ex "1.prems"(2)]
    have "\<not> within mm bb (survivors prot (Suc j - 1) es)"
      using j(3) False "1.prems"(3) suc(1) [of "j - 1"] by (cases j) (auto simp: within_def)
    moreover have "map_of (mb_msgs mb') = map_of (mb_msgs mb) |`
        (- en_name ` set (take (Suc j) (filter (unprotected prot) es)))"
      by (simp only: j(4) suc(2) remove_Inr [OF rm] restrict_insert)
    ultimately show ?thesis using j(1,2) suc(1) [of j] by (intro exI [of _ "Suc j"]) (simp only:, simp)
  qed
qed

lemma expire_Inr:
  "expire_loop prot now es t k mb = (Inr (kept, t', k'), mb') \<Longrightarrow> distinct (map en_name es) \<Longrightarrow>
     t = sum_list (map en_size es) + c \<Longrightarrow>
     (let gone = (\<lambda>e. (case en_created_at e of None \<Rightarrow> False | Some s \<Rightarrow> DEFAULT_TTL_SECS < now - s) \<and> unprotected prot e) in
      kept = filter (\<lambda>e. \<not> gone e) es \<and> t' = sum_list (map en_size kept) + c \<and>
      map_of (mb_msgs mb') = map_of (mb_msgs mb) |` (- en_name ` set (filter gone es)))"
proof (induction prot now es t k mb arbitrary: kept c rule: expire_loop.induct)
  case (1 prot now t k mb)
  then show ?case by (auto simp: restrict_map_def)
next
  case (2 prot now e es t k mb)
  let ?old = "case en_created_at e of None \<Rightarrow> False | Some s \<Rightarrow> DEFAULT_TTL_SECS < now - s"
  show ?case
  proof (cases "?old \<and> prot \<noteq> Some (en_name e)")
    case True
    obtain d mb1 where rm: "remove_message_and_attempt (en_name e) mb = (Inr d, mb1)"
      using "2.prems"(1) True by (cases "remove_message_and_attempt (en_name e) mb"; cases "fst (remove_message_and_attempt (en_name e) mb)") auto
    have rest: "expire_loop prot now es (t - en_size e) (if d then k + 1 else k) mb1 = (Inr (kept, t', k'), mb')"
      using "2.prems"(1) True rm by simp
    from "2.IH"(1) [OF refl True rm [symmetric] refl rest] "2.prems"(2,3) True remove_Inr [OF rm]
    show ?thesis by (simp add: unprotected_def Let_def) (auto simp: restrict_map_def)
  next
    case False
    obtain kept1 where rest: "expire_loop prot now es t k mb = (Inr (kept1, t', k'), mb')" "kept = e # kept1"
      using "2.prems"(1) False by (auto simp: Let_def split: prod.splits sum.splits)
    have "t = sum_list (map en_size es) + (en_size e + c)" using "2.prems"(3) by simp
    from "2.IH"(2) [OF refl False rest(1) _ this] "2.prems"(2) False rest(2)
    show ?thesis by (auto simp: unprotected_def Let_def)
  qed
qed

section \<open>Names\<close>

definition msg_size :: "mailbox \<Rightarrow> string \<Rightarrow> nat" where
  "msg_size mb n = (case map_of (mb_msgs mb) n of Some (Regular bs) \<Rightarrow> length bs | _ \<Rightarrow> 0)"

definition young :: "mail_codec \<Rightarrow> string \<Rightarrow> nat \<Rightarrow> mailbox \<Rightarrow> string \<Rightarrow> bool" where
  "young K ws now mb n \<longleftrightarrow> (case load_message_file K n ws mb of
     Inr e \<Rightarrow> now - me_created_at e \<le> DEFAULT_TTL_SECS | Inl _ \<Rightarrow> False)"

lemma entries_Inr:
  "entries_of K ws ex mb ns = Inr es \<Longrightarrow> map en_name es = ns \<and>
     (\<forall>e \<in> set es. en_size e = msg_size mb (en_name e) \<and>
        (if ex then \<exists>m. load_message_file K (en_name e) ws mb = Inr m \<and> en_created_at e = Some (me_created_at m)
         else en_created_at e = None))"
proof (induction ns arbitrary: es)
  case (Cons n ns)
  then obtain bs es' ca where p: "open_message_file n mb = Inr bs"
      "(if ex then res_bind (load_open_message_file K n bs ws) (\<lambda>e. Inr (Some (me_created_at e))) else Inr None) = Inr ca"
      "entries_of K ws ex mb ns = Inr es'" "es = \<lparr>en_name = n, en_created_at = ca, en_size = length bs\<rparr> # es'"
    by (auto simp: res_bind_eq_Inr simp del: if_split_asm)
  have "map_of (mb_msgs mb) n = Some (Regular bs)"
    using p(1) by (auto simp: open_message_file_def split: option.splits node.splits if_splits)
  with p Cons.IH [OF p(3)] show ?case
    by (auto simp: msg_size_def load_message_file_def res_bind_eq_Inr split: if_splits)
qed simp

lemma msg_names_mem: "n \<in> set (msg_names mb) \<longleftrightarrow> map_of (mb_msgs mb) n \<noteq> None"
  by (auto simp: msg_names_def map_of_eq_None_iff)

lemma distinct_msg_names: "distinct (map fst (mb_msgs mb)) \<Longrightarrow> distinct (msg_names mb)"
  by (simp add: msg_names_def)

definition quota_ok :: "nat \<Rightarrow> nat \<Rightarrow> mailbox \<Rightarrow> string list \<Rightarrow> bool" where
  "quota_ok max_messages max_bytes mb ns \<longleftrightarrow> length ns \<le> max_messages \<and> sum_list (map (msg_size mb) ns) \<le> max_bytes"

text \<open>The names a prune leaves when it evicts the first \<open>k\<close> unprotected ones of those it keeps.\<close>

definition left_after :: "string option \<Rightarrow> nat \<Rightarrow> string list \<Rightarrow> string list" where
  "left_after prot k ns = filter (\<lambda>n. n \<notin> set (take k (filter (\<lambda>n. prot \<noteq> Some n) ns))) ns"

lemma survivors_names: "map en_name (survivors prot j es) = left_after prot j (map en_name es)"
  by (simp add: survivors_def left_after_def filter_map comp_def unprotected_def [abs_def] take_map)

lemma prune_Inr:
  assumes "prune_workspace_locked K ws prot mm bb ex now mb = (Inr rep, mb')" "distinct (map fst (mb_msgs mb))"
  shows "\<exists>k. let stay = filter (\<lambda>n. ex \<longrightarrow> young K ws now mb n \<or> prot = Some n) (msg_names mb) in
     map_of (mb_msgs mb') = map_of (mb_msgs mb) |` set (left_after prot k stay) \<and>
     quota_ok mm bb mb (left_after prot k stay) \<and>
     (0 < k \<longrightarrow> \<not> quota_ok mm bb mb (left_after prot (k - 1) stay)) \<and>
     (\<forall>n \<in> set (msg_names mb). ex \<longrightarrow> (\<exists>m. load_message_file K n ws mb = Inr m))"
proof -
  obtain es where es: "mailbox_entries K ws ex mb = Inr es"
    using assms(1) by (auto simp: prune_workspace_locked_def split: sum.splits)
  note en = entries_Inr [OF es [unfolded mailbox_entries_def]]
  let ?t = "sum_list (map en_size es)"
  obtain kept t k mb1 where first: "(if ex then expire_loop prot now es ?t 0 mb else (Inr (es, ?t, 0), mb)) = (Inr (kept, t, k), mb1)"
    using assms(1) es by (auto simp: prune_workspace_locked_def Let_def split: sum.splits prod.splits)
  obtain left k' mb2 where quota: "quota_loop prot mm bb kept t k mb1 = (Inr (left, k'), mb2)"
    using assms(1) es first by (auto simp: prune_workspace_locked_def Let_def split: sum.splits prod.splits)
  have end_msgs: "mb_msgs mb' = mb_msgs mb2"
    using assms(1) es first quota
    by (auto simp: prune_workspace_locked_def Let_def sync_msgs_def split: sum.splits prod.splits if_splits
        io_outcome.splits dest: next_io_eq)
  let ?gone = "\<lambda>e. (case en_created_at e of None \<Rightarrow> False | Some s \<Rightarrow> DEFAULT_TTL_SECS < now - s) \<and> unprotected prot e"
  have d: "distinct (map en_name es)" using en distinct_msg_names [OF assms(2)] by simp
  have kept: "kept = filter (\<lambda>e. \<not> ?gone e) es" "t = sum_list (map en_size kept)"
      "map_of (mb_msgs mb1) = map_of (mb_msgs mb) |` (- en_name ` set (filter ?gone es))"
  proof -
    show "kept = filter (\<lambda>e. \<not> ?gone e) es"
    proof (cases ex)
      case True
      with first expire_Inr [of prot now es ?t 0 mb kept t k mb1 0] d show ?thesis by (simp add: Let_def)
    next
      case False
      with en have "\<forall>e \<in> set es. \<not> ?gone e" by auto
      with False first show ?thesis by simp
    qed
    show "t = sum_list (map en_size kept)"
    proof (cases ex)
      case True
      with first expire_Inr [of prot now es ?t 0 mb kept t k mb1 0] d show ?thesis by (simp add: Let_def)
    next
      case False
      with first show ?thesis by simp (metis)
    qed
    show "map_of (mb_msgs mb1) = map_of (mb_msgs mb) |` (- en_name ` set (filter ?gone es))"
    proof (cases ex)
      case True
      with first expire_Inr [of prot now es ?t 0 mb kept t k mb1 0] d show ?thesis by (simp add: Let_def)
    next
      case False
      with en have "filter ?gone es = []" by (auto simp: filter_empty_conv)
      with False first show ?thesis by (auto simp: restrict_map_def)
    qed
  qed
  have young: "\<not> ?gone e \<longleftrightarrow> (ex \<longrightarrow> young K ws now mb (en_name e) \<or> prot = Some (en_name e))" if "e \<in> set es" for e
    using en that by (auto simp: young_def unprotected_def split: if_splits)
  let ?stay = "filter (\<lambda>n. ex \<longrightarrow> young K ws now mb n \<or> prot = Some n) (msg_names mb)"
  have stay: "map en_name kept = ?stay"
  proof -
    have "kept = filter (\<lambda>e. ex \<longrightarrow> young K ws now mb (en_name e) \<or> prot = Some (en_name e)) es"
      unfolding kept(1) by (rule filter_cong [OF refl]) (use young in blast)
    then show ?thesis unfolding en [THEN conjunct1, symmetric] by (simp add: filter_map comp_def)
  qed
  have sizes: "map en_size (filter Q es) = map (msg_size mb) (map en_name (filter Q es))" for Q
    using en by auto
  have within: "within mm bb (survivors prot j kept) \<longleftrightarrow> quota_ok mm bb mb (left_after prot j ?stay)" for j
  proof -
    have "survivors prot j kept = filter (\<lambda>e. en_name e \<notin> en_name ` set (take j (filter (unprotected prot) kept)) \<and> \<not> ?gone e) es"
      by (simp add: survivors_def kept(1) conj_commute)
    then have "map en_size (survivors prot j kept) = map (msg_size mb) (map en_name (survivors prot j kept))"
      using sizes by presburger
    then show ?thesis
      unfolding within_def quota_ok_def stay [symmetric] survivors_names [symmetric] by (simp only: length_map)
  qed
  have dk: "distinct (map en_name kept)" unfolding stay using distinct_msg_names [OF assms(2)] by simp
  from quota_Inr [OF quota dk kept(2)] obtain j where j: "left = survivors prot j kept" "within mm bb left"
      "0 < j \<longrightarrow> \<not> within mm bb (survivors prot (j - 1) kept)"
      "map_of (mb_msgs mb2) = map_of (mb_msgs mb1) |` (- en_name ` set (take j (filter (unprotected prot) kept)))" by blast
  let ?V = "en_name ` set (take j (filter (unprotected prot) kept))"
  have V: "?V = set (take j (filter (\<lambda>n. prot \<noteq> Some n) ?stay))"
    unfolding stay [symmetric] by (simp add: filter_map comp_def unprotected_def [abs_def] take_map)
  have mem: "n \<in> set (left_after prot j ?stay) \<longleftrightarrow> n \<in> set ?stay \<and> n \<notin> ?V" for n
    by (simp add: left_after_def V)
  have gone: "en_name ` set (filter ?gone es) = set (msg_names mb) - set ?stay"
  proof -
    have "set (map en_name es) = set (msg_names mb)" using en by simp
    moreover have "n \<in> en_name ` set (filter ?gone es) \<longleftrightarrow> n \<in> set (map en_name es) \<and> n \<notin> set (map en_name kept)" for n
      using d kept(1) by (auto simp: distinct_map inj_on_def)
    ultimately show ?thesis unfolding stay by auto
  qed
  have "map_of (mb_msgs mb') n = (map_of (mb_msgs mb) |` set (left_after prot j ?stay)) n" for n
    unfolding end_msgs j(4) kept(3) gone restrict_map_def mem using msg_names_mem [of n mb] by auto
  then have "map_of (mb_msgs mb') = map_of (mb_msgs mb) |` set (left_after prot j ?stay)" by blast
  moreover have "\<forall>n \<in> set (msg_names mb). ex \<longrightarrow> (\<exists>m. load_message_file K n ws mb = Inr m)"
    using en by (metis (no_types, lifting) image_iff list.set_map)
  ultimately show ?thesis using j(1-3) within by (intro exI [of _ j]) (simp add: Let_def)
qed

lemma left_after_None: "distinct ns \<Longrightarrow> left_after None k ns = drop k ns"
proof -
  assume "distinct ns"
  then have "distinct (take k ns @ drop k ns)" by simp
  then have dj: "set (take k ns) \<inter> set (drop k ns) = {}" by (simp only: distinct_append)
  have "filter (\<lambda>x. x \<notin> set (take k ns)) (take k ns @ drop k ns) = drop k ns"
    unfolding filter_append using dj by (auto simp: filter_empty_conv filter_id_conv)
  then show ?thesis by (simp add: left_after_def)
qed

section \<open>Sending\<close>

lemma put_names: "map_of (mb_msgs mb) n = None \<Longrightarrow> map fst (mb_msgs (put_msg n bs mb)) = map fst (mb_msgs mb) @ [n]"
  by (simp add: put_msg_def update_keys map_of_eq_None_iff)

lemma left_after_new:
  assumes "distinct (map fst (mb_msgs mb))" "map_of (mb_msgs mb) n = None"
  shows "set (left_after (Some n) k (msg_names (put_msg n bs mb))) = insert n (set (drop k (msg_names mb)))"
    and "mset (left_after (Some n) k (msg_names (put_msg n bs mb))) = add_mset n (mset (drop k (msg_names mb)))"
proof -
  let ?all = "msg_names (put_msg n bs mb)"
  have nn: "n \<notin> set (msg_names mb)" using assms(2) by (simp add: msg_names_mem)
  have f: "filter (\<lambda>x. Some n \<noteq> Some x) ?all = msg_names mb"
  proof -
    have "filter (\<lambda>x. x \<noteq> n) ?all = sort_key (\<lambda>n. n @ ''.json'') (filter (\<lambda>x. x \<noteq> n) (map fst (mb_msgs mb) @ [n]))"
      unfolding msg_names_def put_names [OF assms(2)] by (rule filter_sort)
    also have "filter (\<lambda>x. x \<noteq> n) (map fst (mb_msgs mb) @ [n]) = map fst (mb_msgs mb)"
      using assms(2) by (auto simp: map_of_eq_None_iff filter_id_conv)
    finally show ?thesis by (simp add: msg_names_def eq_commute)
  qed
  have m: "mset ?all = add_mset n (mset (msg_names mb))"
    by (simp add: msg_names_def put_names [OF assms(2)])
  have d: "distinct (msg_names mb)" using assms(1) by (rule distinct_msg_names)
  have "mset (left_after (Some n) k ?all) = filter_mset (\<lambda>x. x \<notin> set (take k (msg_names mb))) (add_mset n (mset (msg_names mb)))"
    unfolding left_after_def f by (simp add: m)
  also have "\<dots> = add_mset n (mset (filter (\<lambda>x. x \<notin> set (take k (msg_names mb))) (msg_names mb)))"
    using nn by (auto dest: in_set_takeD)
  also have "filter (\<lambda>x. x \<notin> set (take k (msg_names mb))) (msg_names mb) = drop k (msg_names mb)"
    using left_after_None [OF d, of k] by (simp add: left_after_def)
  finally show *: "mset (left_after (Some n) k ?all) = add_mset n (mset (drop k (msg_names mb)))" .
  from arg_cong [OF *, of set_mset] show "set (left_after (Some n) k ?all) = insert n (set (drop k (msg_names mb)))" by simp
qed

lemma quota_new:
  assumes "distinct (map fst (mb_msgs mb))" "map_of (mb_msgs mb) n = None"
  shows "quota_ok mm bb (put_msg n bs mb) (left_after (Some n) k (msg_names (put_msg n bs mb))) \<longleftrightarrow>
     1 + length (drop k (msg_names mb)) \<le> mm \<and> length bs + sum_list (map (msg_size mb) (drop k (msg_names mb))) \<le> bb"
proof -
  let ?l = "left_after (Some n) k (msg_names (put_msg n bs mb))"
  note m = left_after_new(2) [OF assms, of k bs]
  have "length ?l = 1 + length (drop k (msg_names mb))"
    using arg_cong [OF m, of size] by (simp add: size_mset [symmetric] del: size_mset)
  moreover have "sum_list (map (msg_size (put_msg n bs mb)) ?l) =
      length bs + sum_list (map (msg_size mb) (drop k (msg_names mb)))"
  proof -
    have "sum_list (map (msg_size (put_msg n bs mb)) ?l) = sum_mset (image_mset (msg_size (put_msg n bs mb)) (mset ?l))"
      by (simp add: sum_mset_sum_list [symmetric])
    also have "\<dots> = msg_size (put_msg n bs mb) n + sum_list (map (msg_size (put_msg n bs mb)) (drop k (msg_names mb)))"
      unfolding m by (simp add: sum_mset_sum_list [symmetric])
    also have "map (msg_size (put_msg n bs mb)) (drop k (msg_names mb)) = map (msg_size mb) (drop k (msg_names mb))"
      using assms(2) by (auto simp: msg_size_def put_msg_def update_conv' dest!: in_set_dropD simp: msg_names_mem)
    also have "msg_size (put_msg n bs mb) n = length bs" by (simp add: msg_size_def put_msg_def update_conv')
    finally show ?thesis .
  qed
  ultimately show ?thesis by (simp add: quota_ok_def)
qed

text \<open>
  What a successful send leaves behind. The new message is on disk whole. Of the older ones
  exactly the first \<open>k\<close> in name order were evicted, every other one is untouched, the mailbox is
  within both caps, and no eviction was needless: with one eviction less a cap would be exceeded.
\<close>

theorem send_keeps_newest:
  assumes "write_message_in K e now mb = (Inr (), mb')" and "distinct (map fst (mb_msgs mb))"
  shows "\<exists>bs k. serialized_envelope K e = Inr bs \<and> uu_text K (me_id e) \<notin> set (msg_names mb) \<and>
     map_of (mb_msgs mb') = (map_of (mb_msgs mb) |` set (drop k (msg_names mb)))(uu_text K (me_id e) \<mapsto> Regular bs) \<and>
     1 + length (drop k (msg_names mb)) \<le> MAX_MESSAGES_PER_WORKSPACE \<and>
     length bs + sum_list (map (msg_size mb) (drop k (msg_names mb))) \<le> MAX_WORKSPACE_BYTES \<and>
     (0 < k \<longrightarrow> MAX_MESSAGES_PER_WORKSPACE < 1 + length (drop (k - 1) (msg_names mb)) \<or>
        MAX_WORKSPACE_BYTES < length bs + sum_list (map (msg_size mb) (drop (k - 1) (msg_names mb))))"
proof -
  let ?n = "uu_text K (me_id e)"
  obtain bs where bs: "serialized_envelope K e = Inr bs"
    using assms(1) by (auto simp: write_message_in_def write_message_limited_def split: sum.splits)
  have new: "map_of (mb_msgs mb) ?n = None"
    using assms(1) bs by (auto simp: write_message_in_def write_message_limited_def split: if_splits)
  obtain mb1 where w: "atomic_write (put_msg ?n bs) mb = (Inr (), mb1)"
    and "\<exists>rep. prune_workspace_locked K (me_workspace e) (Some ?n) MAX_MESSAGES_PER_WORKSPACE MAX_WORKSPACE_BYTES False now mb1 = (Inr rep, mb')"
    using assms(1) bs new by (auto simp: write_message_in_def write_message_limited_def Let_def
        split: sum.splits prod.splits if_splits)
  then obtain rep where p: "prune_workspace_locked K (me_workspace e) (Some ?n) MAX_MESSAGES_PER_WORKSPACE
      MAX_WORKSPACE_BYTES False now mb1 = (Inr rep, mb')" by blast
  obtain io where mb1: "mb1 = put_msg ?n bs (mb\<lparr>mb_io := io\<rparr>)"
    using w by (auto simp: atomic_write_def next_io_def put_msg_def split: list.splits io_outcome.splits
        intro: that [of "mb_io mb"] that)
  let ?mb0 = "mb\<lparr>mb_io := io\<rparr>"
  have a: "distinct (map fst (mb_msgs ?mb0))" "map_of (mb_msgs ?mb0) ?n = None" using assms(2) new by simp_all
  have "distinct (map fst (mb_msgs mb1))" using mb1 put_names [OF a(2), of bs] a by (simp add: map_of_eq_None_iff)
  from prune_Inr [OF p this] obtain k where k:
    "map_of (mb_msgs mb') = map_of (mb_msgs mb1) |` set (left_after (Some ?n) k (msg_names mb1))"
    "quota_ok MAX_MESSAGES_PER_WORKSPACE MAX_WORKSPACE_BYTES mb1 (left_after (Some ?n) k (msg_names mb1))"
    "0 < k \<longrightarrow> \<not> quota_ok MAX_MESSAGES_PER_WORKSPACE MAX_WORKSPACE_BYTES mb1 (left_after (Some ?n) (k - 1) (msg_names mb1))"
    by (auto simp: Let_def)
  have names: "msg_names ?mb0 = msg_names mb" "msg_size ?mb0 = msg_size mb"
    by (simp_all add: msg_names_def msg_size_def fun_eq_iff)
  have "?n \<notin> set (drop k (msg_names mb))" using new by (auto simp: msg_names_mem dest!: in_set_dropD)
  then have "map_of (mb_msgs mb') = (map_of (mb_msgs mb) |` set (drop k (msg_names mb)))(?n \<mapsto> Regular bs)"
    unfolding k(1) mb1 left_after_new(1) [OF a] names
    by (auto simp: put_msg_def update_conv' restrict_map_def fun_eq_iff)
  with bs new k(2,3) show ?thesis
    unfolding mb1 quota_new [OF a] names by (auto simp: msg_names_mem not_le intro!: exI [of _ k])
qed

text \<open>
  What a sweep leaves behind. A sweep that succeeds has read every message; what is left are
  the messages that have not outlived their time, less the first \<open>k\<close> of them in name order,
  within both caps, and \<open>k\<close> is positive only when a cap demanded it. No surviving file changed.
\<close>

theorem sweep_removes_expired:
  assumes "gc_workspace_in K ws records busy now mb = (Inr rep, mb')" and "distinct (map fst (mb_msgs mb))"
  shows "\<exists>k. let stay = filter (young K ws now mb) (msg_names mb) in
     map_of (mb_msgs mb') = map_of (mb_msgs mb) |` set (drop k stay) \<and>
     quota_ok MAX_MESSAGES_PER_WORKSPACE MAX_WORKSPACE_BYTES mb (drop k stay) \<and>
     (0 < k \<longrightarrow> \<not> quota_ok MAX_MESSAGES_PER_WORKSPACE MAX_WORKSPACE_BYTES mb (drop (k - 1) stay)) \<and>
     (\<forall>n \<in> set (msg_names mb). \<exists>m. load_message_file K n ws mb = Inr m)"
proof -
  obtain mb1 where p: "prune_workspace_locked K ws None MAX_MESSAGES_PER_WORKSPACE MAX_WORKSPACE_BYTES True now mb = (Inr rep, mb1)"
    and m: "maintain_workspace_cursors_locked K (active_consumers ws records) busy now STALE_CURSOR_RETENTION_SECS mb1 = (Inr (), mb')"
    using assms(1) by (auto simp: gc_workspace_in_def split: sum.splits prod.splits)
  have "mb_msgs mb' = mb_msgs mb1" using same.keep_maintain_locked [OF _ m, of "mb_msgs mb1" "mb_attempts mb1"] by simp
  moreover have "left_after None k (filter (young K ws now mb) (msg_names mb)) = drop k (filter (young K ws now mb) (msg_names mb))" for k
    using distinct_msg_names [OF assms(2)] by (intro left_after_None) simp
  ultimately show ?thesis using prune_Inr [OF p assms(2)] by (simp add: Let_def)
qed

section \<open>Acknowledging\<close>

lemma ack_ids_exact:
  "ack_ids ids is c acked = (c', acked') \<Longrightarrow> distinct acked \<Longrightarrow> set acked \<subseteq> ids \<inter> cu_exceptions c \<Longrightarrow>
     cu_acked_through c' = cu_acked_through c \<and> distinct acked' \<and> set acked' = set acked \<union> (set is \<inter> ids) \<and>
     cu_exceptions c' = cu_exceptions c \<union> set acked'"
  by (induction ids "is" c acked rule: ack_ids.induct) (auto split: if_splits)

lemma write_cursor_read:
  assumes "mail_codec_ok K" "finite (cu_exceptions v)" "write_cursor K c v now mb = (Inr (), mb')" "read_cursor_file K c mb' = Inr w"
  shows "w = v"
proof -
  have "ce_json (cursor_at c mb') = Some (Regular (cur_json K v @ [0x0A]), now)"
    using assms(3) by (auto simp: write_cursor_def atomic_write_def split: prod.splits io_outcome.splits)
  with assms show ?thesis by (auto simp: read_cursor_file_def mail_codec_ok_def split: if_splits)
qed

lemma touch_lock_simps [simp]:
  "mb_msgs (touch_lock c now mb) = mb_msgs mb" "ce_json (cursor_at c (touch_lock c now mb)) = ce_json (cursor_at c mb)"
  "read_cursor_file K c (touch_lock c now mb) = read_cursor_file K c mb"
  by (simp_all add: touch_lock_def read_cursor_file_def)

lemma retained_cong: "mb_msgs mb' = mb_msgs mb \<Longrightarrow> retained_message_ids K mb' = retained_message_ids K mb"
proof -
  assume m: "mb_msgs mb' = mb_msgs mb"
  have "retained_of K mb' ns = retained_of K mb ns" for ns
    by (induction ns) (simp_all add: open_message_file_def m)
  then show ?thesis by (simp add: retained_message_ids_def msg_names_def m)
qed

lemma list_cong: "mb_msgs mb' = mb_msgs mb \<Longrightarrow> list_messages_in K ws mb' = list_messages_in K ws mb"
proof -
  assume m: "mb_msgs mb' = mb_msgs mb"
  have "load_all K ws mb' ns = load_all K ws mb ns" for ns
    by (induction ns) (simp_all add: load_message_cong [OF m])
  then show ?thesis by (simp add: list_messages_in_def msg_names_def m)
qed

lemma compact_idem: "compact_cursor ids (compact_cursor ids v) = compact_cursor ids v"
  by (simp add: compact_cursor_def Let_def)

lemma read_cursor_again:
  assumes "mail_codec_ok K" "read_cursor_locked K c now mb = (Inr v, mb1)" "read_cursor_file K c mb1 = Inr w"
  shows "w = v"
proof -
  obtain u ids where u: "read_cursor_file K c mb = Inr u" "retained_message_ids K mb = Inr ids"
    using read_cursor_Inr [OF assms(2)] by blast
  note run = assms(2) [unfolded read_cursor_locked_def Let_def touch_lock_simps retained_cong [OF touch_lock_simps(1)] u
      res_bind_simps sum.case prod.case]
  show ?thesis
  proof (cases "compact_cursor ids u = u")
    case True
    with run assms(3) u(1) show ?thesis by auto
  next
    case False
    with run have "write_cursor K c (compact_cursor ids u) now (touch_lock c now mb) = (Inr (), mb1)"
        "v = compact_cursor ids u"
      by (auto split: prod.splits sum.splits)
    with write_cursor_read [OF assms(1) compact_finite [OF retained_finite [OF u(2)]] _ assms(3)] show ?thesis by blast
  qed
qed

lemma read_cursor_stable:
  assumes "read_cursor_file K c mb = Inr v" "retained_message_ids K mb = Inr ids" "compact_cursor ids v = v"
  shows "read_cursor_locked K c now mb = (Inr v, touch_lock c now mb)"
  using assms by (simp add: read_cursor_locked_def Let_def retained_cong [of "touch_lock c now mb" mb])

text \<open>
  An acknowledgement hides what it names. It reports the requested ids the mailbox holds,
  each once; afterwards the consumer's unread list is the previous one without exactly those,
  as long as the cursor it wrote can be read back.
\<close>

theorem ack_hides_exactly:
  assumes "mail_codec_ok K" and "unread_snapshot K ws who now mb = (Inr unread, mb1)"
    and "ack_messages_in K (si_id who) is now1 mb1 = (Inr acked, mb2)"
    and "read_cursor_file K (si_id who) mb2 = Inr w"
  shows "distinct acked \<and> (\<exists>ids. retained_message_ids K mb1 = Inr ids \<and> set acked = set is \<inter> ids) \<and>
     fst (unread_snapshot K ws who now2 mb2) = Inr (filter (\<lambda>m. me_id m \<notin> set acked) unread)"
proof -
  let ?c = "si_id who"
  obtain v where v: "read_cursor_locked K ?c now mb = (Inr v, mb1)"
    using assms(2) by (auto simp: unread_snapshot_def split: sum.splits prod.splits)
  obtain all where all: "list_messages_in K ws mb1 = Inr all"
      "unread = filter (\<lambda>m. receives who m \<and> \<not> is_acked v (me_id m)) all"
    using assms(2) v by (auto simp: unread_snapshot_def split: sum.splits)
  obtain u ids where u: "v = compact_cursor ids u" "retained_message_ids K mb = Inr ids"
    using read_cursor_Inr [OF v] by blast
  have ids: "retained_message_ids K mb1 = Inr ids" using retained_cong read_cursor_files [OF v] u(2) by metis
  obtain w1 where w1: "read_cursor_file K ?c mb1 = Inr w1"
    using assms(3) by (auto simp: ack_messages_in_def Let_def res_bind_def split: sum.splits)
  with read_cursor_again [OF assms(1) v] have w1v: "read_cursor_file K ?c mb1 = Inr v" by blast
  have cv: "compact_cursor ids v = v" using u(1) compact_idem by blast
  obtain v' acked' where v': "ack_ids ids is v [] = (v', acked')" by force
  have wr: "write_cursor K ?c v' now1 (touch_lock ?c now1 mb1) = (Inr (), mb2)" and "acked' = acked"
    using assms(3) w1v ids v' cv
    by (auto simp: ack_messages_in_def Let_def retained_cong [of "touch_lock ?c now1 mb1" mb1]
        split: sum.splits prod.splits)
  with ack_ids_exact [OF v'] have a: "cu_acked_through v' = cu_acked_through v" "distinct acked"
      "set acked = set is \<inter> ids" "cu_exceptions v' = cu_exceptions v \<union> set acked" by auto
  have "cu_exceptions v \<subseteq> ids" "cu_acked_through v = None" using u(1) by (auto simp: compact_cursor_def Let_def)
  with a have cv': "compact_cursor ids v' = v'"
    by (auto simp: compact_cursor_def Let_def intro!: cursor.equality)
  have m2: "mb_msgs mb2 = mb_msgs mb1"
    using same.keep_ack [OF _ assms(3), of "mb_msgs mb1" "mb_attempts mb1"] by simp
  have fin: "finite (cu_exceptions v')" using retained_finite [OF ids] a \<open>cu_exceptions v \<subseteq> ids\<close> by (auto intro: finite_subset)
  have "w = v'" using write_cursor_read [OF assms(1) fin wr assms(4)] .
  with assms(4) have "read_cursor_file K ?c mb2 = Inr v'" by simp
  then have "read_cursor_locked K ?c now2 mb2 = (Inr v', touch_lock ?c now2 mb2)"
    using read_cursor_stable [OF _ _ cv'] retained_cong [OF m2] ids by simp
  moreover have "list_messages_in K ws (touch_lock ?c now2 mb2) = Inr all"
    using list_cong [of "touch_lock ?c now2 mb2" mb1] m2 all(1) by simp
  ultimately have "fst (unread_snapshot K ws who now2 mb2) =
      Inr (filter (\<lambda>m. receives who m \<and> \<not> is_acked v' (me_id m)) all)"
    by (simp add: unread_snapshot_def)
  also have "filter (\<lambda>m. receives who m \<and> \<not> is_acked v' (me_id m)) all = filter (\<lambda>m. me_id m \<notin> set acked) unread"
    using a \<open>cu_acked_through v = None\<close> unfolding all(2) filter_filter
    by (intro filter_cong refl) (auto simp: is_acked_def)
  finally show ?thesis using a(2,3) ids by blast
qed

end
