(* ===== verification/Mailbox_Samples.thy ===== *)
theory Mailbox_Samples
  imports Mailbox_Store
begin

text \<open>A small codec and a mailbox with two messages, on which the mailbox theorems are applied.\<close>

fun enc_nats :: "nat list \<Rightarrow> bytes" where
  "enc_nats [] = []"
| "enc_nats (n # ns) = replicate n 1 @ 0 # enc_nats ns"

fun dec_nats :: "nat \<Rightarrow> bytes \<Rightarrow> nat list" where
  "dec_nats k [] = []"
| "dec_nats k (b # bs) = (if b = 0 then k # dec_nats 0 bs else dec_nats (Suc k) bs)"

lemma dec_nats_step: "dec_nats k (replicate n 1 @ 0 # bs) = (k + n) # dec_nats 0 bs"
  by (induction n arbitrary: k) simp_all

lemma dec_enc_nats: "dec_nats 0 (enc_nats ns) = ns"
  by (induction ns) (simp_all add: dec_nats_step)

definition sample_env :: "uuid \<Rightarrow> delivery \<Rightarrow> envelope" where
  "sample_env i d = \<lparr>me_schema_version = 1, me_id = i, me_workspace = ''/w'', me_created_at = 100, me_from = anonymous,
     me_to = ToTag ''main'' (Some 5), me_kind = ''note'', me_reply_to = None, me_body = [], me_data = None, me_delivery = d\<rparr>"

definition sample_codec :: mail_codec where
  "sample_codec = \<lparr>uu_text = \<lambda>u. replicate u (CHR ''a''), uu_parse = \<lambda>s. Some (length s),
     env_json = \<lambda>e. (if me_delivery e = Pane then 2 else 1) # replicate (me_id e) 1,
     env_parse = \<lambda>bs. Some (sample_env (length bs - 2) (if hd bs = 2 then Pane else Inbox)),
     cur_json = \<lambda>c. enc_nats ((case cu_acked_through c of None \<Rightarrow> 0 | Some t \<Rightarrow> Suc t) # sorted_list_of_set (cu_exceptions c)),
     cur_parse = \<lambda>bs. (case dec_nats 0 (butlast bs) of [] \<Rightarrow> None
       | k # ns \<Rightarrow> Some \<lparr>cu_acked_through = (if k = 0 then None else Some (k - 1)), cu_exceptions = set ns\<rparr>)\<rparr>"

lemma sample_codec_ok: "mail_codec_ok sample_codec"
  by (auto simp: mail_codec_ok_def sample_codec_def dec_enc_nats simp del: enc_nats.simps dec_nats.simps
      split: option.split)

definition sample_who :: session_identity where
  "sample_who = identity_from_record sample_record"

definition sample_box :: mailbox where
  "sample_box = \<lparr>mb_msgs = [(''a'', Regular [1, 1, 10]), (''aaa'', Regular [1, 1, 1, 1, 10])], mb_attempts = [],
     mb_cursors = [], mb_gc_marker = None, mb_io = []\<rparr>"

lemma sample_names: "msg_names sample_box = [''a'', ''aaa'']"
  by (simp add: msg_names_def sample_box_def less_eq_char_def less_char_def)

lemma sample_load:
  "load_message_file sample_codec ''a'' ''/w'' sample_box = Inr (sample_env 1 Inbox)"
  "load_message_file sample_codec ''aaa'' ''/w'' sample_box = Inr (sample_env 3 Inbox)"
  by (simp_all add: load_message_file_def open_message_file_def load_open_message_file_def sample_box_def sample_codec_def
      sample_env_def mail_consts)

text \<open>Two processes submit the same message; the first does not learn what became of it.\<close>

theorem submit_at_most_once_witness:
  "count_list (fst (mail_run sample_codec ''/w'' [(MSubmit 3 (\<lambda>_. True) (\<lambda>_. False), 7),
     (MSubmit 3 (\<lambda>_. True) (\<lambda>_. True), 8)] sample_box)) 3 \<le> 1"
  using submit_at_most_once [OF sample_codec_ok, of 3 "[(MSubmit 3 (\<lambda>_. True) (\<lambda>_. False), 7),
     (MSubmit 3 (\<lambda>_. True) (\<lambda>_. True), 8)]" "''/w''" sample_box] by (simp del: mail_run.simps)

text \<open>The later of two messages is acknowledged; the earlier one is still listed.\<close>

definition acked_box :: mailbox where
  "acked_box = snd (mail_run sample_codec ''/w'' [(MAck 5 [3], 7)] sample_box)"

lemma sample_retained: "retained_message_ids sample_codec sample_box = Inr {1, 3}"
  by (simp add: retained_message_ids_def sample_names open_message_file_def) (simp add: sample_box_def sample_codec_def mail_consts numeral_3_eq_3)

definition locked_box :: "nat \<Rightarrow> mailbox" where
  "locked_box t = sample_box\<lparr>mb_cursors := [(5, \<lparr>ce_json = None, ce_lock = Some t\<rparr>)]\<rparr>"

lemma locked_box_touch: "touch_lock 5 t sample_box = locked_box t" "touch_lock 5 u (locked_box t) = locked_box t"
  by (simp_all add: touch_lock_def cursor_at_def no_entry_def set_cursor_def sample_box_def locked_box_def)

lemma locked_box_read:
  "read_cursor_file sample_codec 5 (locked_box t) = Inr cursor_default"
  "retained_message_ids sample_codec (locked_box t) = Inr {1, 3}"
proof -
  show "read_cursor_file sample_codec 5 (locked_box t) = Inr cursor_default"
    by (simp add: read_cursor_file_def cursor_at_def locked_box_def)
  show "retained_message_ids sample_codec (locked_box t) = Inr {1, 3}"
    using retained_cong [of "locked_box t" sample_box sample_codec] sample_retained by (simp add: locked_box_def)
qed

definition cursor_box :: "nat \<Rightarrow> mailbox" where
  "cursor_box t = sample_box\<lparr>mb_cursors := [(5, \<lparr>ce_json = Some (Regular [0, 1, 1, 1, 0, 10], 7), ce_lock = Some t\<rparr>)]\<rparr>"

lemma locked_box_write:
  "write_cursor sample_codec 5 \<lparr>cu_acked_through = None, cu_exceptions = {3}\<rparr> 7 (locked_box t) = (Inr (), cursor_box t)"
  by (simp add: write_cursor_def atomic_write_def next_io_def locked_box_def sample_box_def cursor_at_def set_cursor_def
      cursor_box_def sample_codec_def numeral_3_eq_3)

lemma sample_ack:
  "ack_messages_in sample_codec 5 [3] 7 sample_box = (Inr [3], cursor_box 7)"
  "ack_messages_in sample_codec 5 [3] 7 (locked_box 6) = (Inr [3], cursor_box 6)"
proof -
  have c: "compact_cursor ids cursor_default = cursor_default" for ids by (simp add: compact_cursor_def cursor_default_def)
  show "ack_messages_in sample_codec 5 [3] 7 sample_box = (Inr [3], cursor_box 7)"
    "ack_messages_in sample_codec 5 [3] 7 (locked_box 6) = (Inr [3], cursor_box 6)"
    by (simp_all add: ack_messages_in_def locked_box_touch locked_box_read c locked_box_write)
      (simp_all add: cursor_default_def locked_box_write)
qed

lemma acked_box_eq: "acked_box = cursor_box 7"
  by (simp add: acked_box_def sample_ack)

lemma cursor_box_read: "read_cursor_file sample_codec 5 (cursor_box t) = Inr \<lparr>cu_acked_through = None, cu_exceptions = {3}\<rparr>"
  by (simp add: cursor_box_def read_cursor_file_def cursor_at_def sample_codec_def mail_consts numeral_3_eq_3)

lemma acked_box_load: "load_message_file sample_codec n ''/w'' acked_box = load_message_file sample_codec n ''/w'' sample_box"
  by (rule load_message_cong) (simp add: acked_box_eq cursor_box_def)

lemma sample_mail_list: "list_messages_in sample_codec ''/w'' sample_box = Inr [sample_env 1 Inbox, sample_env 3 Inbox]"
  by (simp add: list_messages_in_def sample_names sample_load) (simp add: sample_env_def)

lemma acked_box_unread: "\<exists>ms mb'. unread_snapshot sample_codec ''/w'' sample_who 9 acked_box = (Inr ms, mb')"
proof -
  have "read_cursor_file sample_codec 5 acked_box = Inr \<lparr>cu_acked_through = None, cu_exceptions = {3}\<rparr>"
    by (simp add: acked_box_eq cursor_box_read)
  moreover have "retained_message_ids sample_codec acked_box = Inr {1, 3}"
    using retained_cong [of acked_box sample_box sample_codec] sample_retained by (simp add: acked_box_eq cursor_box_def)
  ultimately have "read_cursor_locked sample_codec 5 9 acked_box =
      (Inr \<lparr>cu_acked_through = None, cu_exceptions = {3}\<rparr>, touch_lock 5 9 acked_box)"
    by (rule read_cursor_stable) (auto simp: compact_cursor_def)
  moreover have "list_messages_in sample_codec ''/w'' (touch_lock 5 9 acked_box) = Inr [sample_env 1 Inbox, sample_env 3 Inbox]"
    using list_cong [of "touch_lock 5 9 acked_box" sample_box] sample_mail_list by (simp add: acked_box_eq cursor_box_def)
  ultimately show ?thesis by (simp add: unread_snapshot_def sample_who_def identity_from_record_def sample_record_def)
qed

theorem unacked_mail_visible_witness:
  "\<exists>ms mb'. unread_snapshot sample_codec ''/w'' sample_who 9 acked_box = (Inr ms, mb') \<and> sample_env 1 Inbox \<in> set ms"
proof -
  obtain ms mb' where u: "unread_snapshot sample_codec ''/w'' sample_who 9 acked_box = (Inr ms, mb')"
    using acked_box_unread by blast
  have 1: "exact_cursor sample_codec (si_id sample_who) {} sample_box"
    by (simp add: exact_cursor_def cursor_at_def no_entry_def sample_box_def)
  have 2: "receives sample_who (sample_env 1 Inbox)"
    by (simp add: receives_def addressed_to_def sample_env_def sample_who_def identity_from_record_def sample_record_def anonymous_def)
  have 3: "me_id (sample_env 1 Inbox) \<notin> {} \<union> acked_by (si_id sample_who) [(MAck 5 [3], 7)]"
    by (simp add: sample_env_def)
  have 4: "load_message_file sample_codec ''a'' ''/w'' acked_box = Inr (sample_env 1 Inbox)"
    using acked_box_load sample_load(1) by simp
  from unacked_mail_visible [OF sample_codec_ok 1 acked_box_def u 4 2 3] u show ?thesis by blast
qed

lemma sample_receives: "receives sample_who (sample_env i d)"
  by (simp add: receives_def addressed_to_def sample_env_def sample_who_def identity_from_record_def sample_record_def anonymous_def)

lemma sample_unread:
  "unread_snapshot sample_codec ''/w'' sample_who 6 sample_box =
     (Inr [sample_env 1 Inbox, sample_env 3 Inbox], touch_lock 5 6 sample_box)"
proof -
  have "read_cursor_file sample_codec 5 sample_box = Inr cursor_default"
    by (simp add: read_cursor_file_def cursor_at_def no_entry_def sample_box_def)
  then have "read_cursor_locked sample_codec 5 6 sample_box = (Inr cursor_default, touch_lock 5 6 sample_box)"
    by (rule read_cursor_stable [OF _ sample_retained]) (simp add: compact_cursor_def cursor_default_def)
  moreover have "list_messages_in sample_codec ''/w'' (touch_lock 5 6 sample_box) = Inr [sample_env 1 Inbox, sample_env 3 Inbox]"
    using list_cong [of "touch_lock 5 6 sample_box" sample_box] sample_mail_list by simp
  moreover have "si_id sample_who = 5" by (simp add: sample_who_def identity_from_record_def sample_record_def)
  ultimately show ?thesis by (simp add: unread_snapshot_def sample_receives is_acked_def cursor_default_def)
qed

theorem ack_hides_exactly_witness:
  "fst (unread_snapshot sample_codec ''/w'' sample_who 9 (cursor_box 6)) = Inr [sample_env 1 Inbox]"
proof -
  have who: "si_id sample_who = 5" by (simp add: sample_who_def identity_from_record_def sample_record_def)
  have 1: "unread_snapshot sample_codec ''/w'' sample_who 6 sample_box = (Inr [sample_env 1 Inbox, sample_env 3 Inbox], locked_box 6)"
    using sample_unread locked_box_touch(1) by simp
  have 2: "ack_messages_in sample_codec (si_id sample_who) [3] 7 (locked_box 6) = (Inr [3], cursor_box 6)"
    by (simp only: who sample_ack)
  have 3: "read_cursor_file sample_codec (si_id sample_who) (cursor_box 6) = Inr \<lparr>cu_acked_through = None, cu_exceptions = {3}\<rparr>"
    by (simp only: who cursor_box_read)
  from ack_hides_exactly [OF sample_codec_ok 1 2 3, of 9] show ?thesis by (simp add: sample_env_def)
qed

section \<open>Sending and sweeping\<close>

definition three_box :: mailbox where
  "three_box = sample_box\<lparr>mb_msgs := mb_msgs sample_box @ [(''aa'', Regular [1, 1, 1, 10])]\<rparr>"

lemma three_names: "msg_names three_box = [''a'', ''aa'', ''aaa'']"
  by (simp add: msg_names_def three_box_def sample_box_def less_eq_char_def less_char_def)

lemma sample_send: "write_message_in sample_codec (sample_env 2 Inbox) 200 sample_box = (Inr (), three_box)"
proof -
  have u: "uu_text sample_codec 2 = ''aa''" by (simp add: sample_codec_def numeral_2_eq_2)
  have s: "serialized_envelope sample_codec (sample_env 2 Inbox) = Inr [1, 1, 1, 10]"
    by (simp add: serialized_envelope_def sample_codec_def sample_env_def mail_consts numeral_2_eq_2)
  have w: "atomic_write (put_msg ''aa'' [1, 1, 1, 10]) sample_box = (Inr (), three_box)"
    by (simp add: atomic_write_def next_io_def put_msg_def three_box_def sample_box_def)
  have e: "mailbox_entries sample_codec ''/w'' False three_box = Inr [\<lparr>en_name = ''a'', en_created_at = None, en_size = 3\<rparr>,
      \<lparr>en_name = ''aa'', en_created_at = None, en_size = 4\<rparr>, \<lparr>en_name = ''aaa'', en_created_at = None, en_size = 5\<rparr>]"
    unfolding mailbox_entries_def three_names
    by (simp add: open_message_file_def three_box_def sample_box_def mail_consts)
  have p: "prune_workspace_locked sample_codec ''/w'' (Some ''aa'') MAX_MESSAGES_PER_WORKSPACE MAX_WORKSPACE_BYTES False 200 three_box =
      (Inr \<lparr>gc_removed = 0, gc_remaining = 3\<rparr>, three_box)"
    by (simp add: prune_workspace_locked_def e quota_loop.simps mail_consts)
  have i: "me_id (sample_env 2 Inbox) = 2" "me_workspace (sample_env 2 Inbox) = ''/w''" by (simp_all add: sample_env_def)
  have n: "map_of (mb_msgs sample_box) ''aa'' = None" by (simp add: sample_box_def)
  show ?thesis
    unfolding write_message_in_def write_message_limited_def s sum.case i u n w prod.case p
    by (simp add: MAX_WORKSPACE_BYTES_def)
qed

theorem send_keeps_newest_witness:
  "\<exists>k. map_of (mb_msgs three_box) = (map_of (mb_msgs sample_box) |` set (drop k [''a'', ''aaa'']))(''aa'' \<mapsto> Regular [1, 1, 1, 10])"
proof -
  have d: "distinct (map fst (mb_msgs sample_box))" by (simp add: sample_box_def)
  have u: "uu_text sample_codec (me_id (sample_env 2 Inbox)) = ''aa''"
    by (simp add: sample_codec_def sample_env_def numeral_2_eq_2)
  have s: "serialized_envelope sample_codec (sample_env 2 Inbox) = Inr [1, 1, 1, 10]"
    by (simp add: serialized_envelope_def sample_codec_def sample_env_def mail_consts numeral_2_eq_2)
  from send_keeps_newest [OF sample_send d] show ?thesis unfolding u s sample_names by auto
qed

lemma sample_mail_sweep: "\<exists>mb'. gc_workspace_in sample_codec ''/w'' [] (\<lambda>_. False) 200 sample_box =
    (Inr \<lparr>gc_removed = 0, gc_remaining = 2\<rparr>, mb')"
proof -
  have e: "mailbox_entries sample_codec ''/w'' True sample_box = Inr [\<lparr>en_name = ''a'', en_created_at = Some 100, en_size = 3\<rparr>,
      \<lparr>en_name = ''aaa'', en_created_at = Some 100, en_size = 5\<rparr>]"
    unfolding mailbox_entries_def sample_names
    by (simp add: open_message_file_def load_open_message_file_def sample_box_def sample_codec_def sample_env_def mail_consts)
  have p: "prune_workspace_locked sample_codec ''/w'' None MAX_MESSAGES_PER_WORKSPACE MAX_WORKSPACE_BYTES True 200 sample_box =
      (Inr \<lparr>gc_removed = 0, gc_remaining = 2\<rparr>, sample_box)"
    by (simp add: prune_workspace_locked_def e quota_loop.simps mail_consts)
  have "cursor_ids sample_box = []" by (simp add: cursor_ids_def sample_box_def)
  then show ?thesis
    by (simp add: gc_workspace_in_def p maintain_workspace_cursors_locked_def sample_retained)
qed

theorem sweep_removes_expired_witness:
  "\<exists>k mb'. gc_workspace_in sample_codec ''/w'' [] (\<lambda>_. False) 200 sample_box = (Inr \<lparr>gc_removed = 0, gc_remaining = 2\<rparr>, mb') \<and>
     map_of (mb_msgs mb') = map_of (mb_msgs sample_box) |`
       set (drop k (filter (young sample_codec ''/w'' 200 sample_box) [''a'', ''aaa'']))"
proof -
  obtain mb' where g: "gc_workspace_in sample_codec ''/w'' [] (\<lambda>_. False) 200 sample_box =
      (Inr \<lparr>gc_removed = 0, gc_remaining = 2\<rparr>, mb')" using sample_mail_sweep by blast
  have "distinct (map fst (mb_msgs sample_box))" by (simp add: sample_box_def)
  from sweep_removes_expired [OF g this] g show ?thesis unfolding sample_names Let_def by blast
qed

end
