(* ===== verification/Rust_Std.thy ===== *)
theory Rust_Std
  imports Rust_Text "HOL-Library.List_Lexorder" "HOL-Library.Char_ord"
begin

text \<open>
  More of the standard library: \<open>trim\<close> and white space over UTF-8, the integer parsers and zero
  padding, lexical path operations, and \<open>BTreeMap\<close> as the list of its entries in key order.
\<close>

section \<open>White space\<close>

text \<open>\<open>str::trim\<close>: the UTF-8 encodings of the characters with the property White_Space.\<close>

definition white_space :: "string list" where
  "white_space = map (map char_of) ([[9], [10], [11], [12], [13], [32], [0xC2, 0x85], [0xC2, 0xA0], [0xE1, 0x9A, 0x80],
       [0xE2, 0x80, 0xA8], [0xE2, 0x80, 0xA9], [0xE2, 0x80, 0xAF], [0xE2, 0x81, 0x9F], [0xE3, 0x80, 0x80]] @
     map (\<lambda>k. [0xE2, 0x80, k]) [0x80..<0x8B :: nat])"

function trim_with :: "string list \<Rightarrow> string \<Rightarrow> string" where
  "trim_with ws s = (case find (\<lambda>w. w \<noteq> [] \<and> s \<noteq> [] \<and> starts_with w s) ws of
     None \<Rightarrow> s | Some w \<Rightarrow> trim_with ws (drop (length w) s))"
  by pat_completeness auto
termination
  by (relation "measure (\<lambda>(_, s). length s)") (auto simp: find_Some_iff)

declare trim_with.simps [simp del]

definition trim_utf8 :: "string \<Rightarrow> string" where
  "trim_utf8 s = rev (trim_with (map rev white_space) (rev (trim_with white_space s)))"

section \<open>Numbers\<close>

definition parse_u32 :: "string \<Rightarrow> nat option" where
  "parse_u32 s = (case parse_u64 s of Some n \<Rightarrow> if n \<le> U32_MAX then Some n else None | None \<Rightarrow> None)"

definition parse_i64 :: "string \<Rightarrow> int option" where
  "parse_i64 s =
     (if s \<noteq> [] \<and> hd s = CHR ''-'' then
        (let d = ascii (tl s) in
         if d \<noteq> [] \<and> list_all is_digit d \<and> dec_value d \<le> 9223372036854775808 then Some (- int (dec_value d)) else None)
      else (case parse_u64 s of
          Some n \<Rightarrow> if n \<le> 9223372036854775807 then Some (int n) else None
        | None \<Rightarrow> None))"

text \<open>\<open>{:0k}\<close>: zero padding to width \<open>k\<close>, after the sign.\<close>

definition pad :: "nat \<Rightarrow> nat \<Rightarrow> string" where
  "pad k n = replicate (k - length (dec_text n)) (CHR ''0'') @ dec_text n"

definition pad_int :: "nat \<Rightarrow> int \<Rightarrow> string" where
  "pad_int k x = (if x < 0 then CHR ''-'' # pad (k - 1) (nat (- x)) else pad k (nat x))"

text \<open>Nothing to trim.\<close>

lemma trim_with_id: "(\<And>w. w \<in> set ws \<Longrightarrow> w \<noteq> [] \<Longrightarrow> hd w \<noteq> hd s) \<Longrightarrow> trim_with ws s = s"
proof -
  assume a: "\<And>w. w \<in> set ws \<Longrightarrow> w \<noteq> [] \<Longrightarrow> hd w \<noteq> hd s"
  have "\<not> (w \<noteq> [] \<and> s \<noteq> [] \<and> starts_with w s)" if "w \<in> set ws" for w
    using a [OF that] by (cases w; cases s) (auto simp: starts_with_def)
  then have "find (\<lambda>w. w \<noteq> [] \<and> s \<noteq> [] \<and> starts_with w s) ws = None" by (auto simp: find_None_iff)
  then show ?thesis by (subst trim_with.simps) simp
qed

lemma white_space_hd:
  assumes "w \<in> set white_space"
  shows "w \<noteq> []" "\<not> is_ascii_graphic (hd w)" "\<not> is_ascii_graphic (last w)"
  using assms by (auto simp: white_space_def is_ascii_graphic_def upt_rec_numeral of_char_of Let_def)

lemma trim_graphic:
  assumes "s \<noteq> []" "is_ascii_graphic (hd s)" "is_ascii_graphic (last s)"
  shows "trim_utf8 s = s"
proof -
  have "trim_with white_space s = s" by (rule trim_with_id) (use white_space_hd assms in metis)
  moreover have "trim_with (map rev white_space) (rev s) = rev s"
  proof (rule trim_with_id)
    fix w assume "w \<in> set (map rev white_space)"
    then obtain v where "v \<in> set white_space" "w = rev v" by auto
    then show "hd w \<noteq> hd (rev s)" using white_space_hd [of v] assms by (metis hd_rev)
  qed
  ultimately show ?thesis by (simp add: trim_utf8_def)
qed

definition digit_text :: "string \<Rightarrow> bool" where
  "digit_text s \<longleftrightarrow> s \<noteq> [] \<and> (\<forall>c \<in> set s. is_digit (of_char c))"

lemma is_digit_zero [simp]: "is_digit 48"
  by (simp add: is_digit_def)

lemma not_digit_chars:
  assumes "is_digit (of_char c)"
  shows "c \<notin> {CHR ''-'', CHR ''+'', CHR '':'', CHR ''.'', CHR ''T'', CHR ''Z'', CHR ''z''}"
  using assms by (auto simp: is_digit_def)

lemma digit_text_free:
  assumes "digit_text s" "c \<in> {CHR ''-'', CHR ''+'', CHR '':'', CHR ''.'', CHR ''T'', CHR ''Z'', CHR ''z''}"
  shows "c \<notin> set s"
  using assms not_digit_chars unfolding digit_text_def by blast

lemma digit_text_pad [simp]: "digit_text (pad k n)"
  using dec_text_digits by (auto simp: digit_text_def pad_def)

lemma pad_nonempty [simp]: "pad k n \<noteq> []"
  by (simp add: pad_def)

lemma ascii_Nil [simp]: "ascii s = [] \<longleftrightarrow> s = []"
  by (simp add: ascii_def)

lemma dec_value_zeros: "dec_value (replicate k 48 @ bs) = dec_value bs"
proof -
  have "foldl f a (replicate k x) = a" if "f a x = a" for f :: "nat \<Rightarrow> byte \<Rightarrow> nat" and a x
    using that by (induction k) simp_all
  then show ?thesis by (simp add: dec_value_def)
qed

lemma dec_value_pad: "dec_value (ascii (pad k n)) = n"
proof -
  have "ascii (pad k n) = replicate (k - length (dec_text n)) 48 @ ascii (dec_text n)"
    by (simp add: ascii_def pad_def)
  then show ?thesis by (simp add: dec_value_zeros)
qed

lemma hd_pad:
  assumes "c \<in> {CHR ''-'', CHR ''+''}"
  shows "hd (pad k n) \<noteq> c"
  using digit_text_free [OF digit_text_pad, of c k n] hd_in_set [OF pad_nonempty, of k n] assms by (metis insert_iff)

lemma parse_u64_pad: "parse_u64 (pad k n) = (if n \<le> U64_MAX then Some n else None)"
proof -
  have d: "digit_text (pad k n)" by simp
  have "hd (pad k n) \<noteq> CHR ''+''" by (rule hd_pad) simp
  moreover have "list_all is_digit (ascii (pad k n))" using d by (simp add: digit_text_def ascii_def list_all_iff)
  ultimately show ?thesis by (simp add: parse_u64_def dec_value_pad)
qed

lemma parse_u32_pad: "n \<le> U32_MAX \<Longrightarrow> parse_u32 (pad k n) = Some n"
  by (simp add: parse_u32_def parse_u64_pad size_consts)

lemma parse_i64_pad: "n \<le> 9223372036854775807 \<Longrightarrow> parse_i64 (pad k n) = Some (int n)"
  using hd_pad [of "CHR ''-''" k n] by (simp add: parse_i64_def parse_u64_pad size_consts)

section \<open>Ordered maps\<close>

type_synonym ('k, 'v) btree = "('k \<times> 'v) list"

definition bt_get :: "'k \<Rightarrow> ('k, 'v) btree \<Rightarrow> 'v option" where
  "bt_get k m = map_of m k"

fun bt_insert :: "'k :: linorder \<Rightarrow> 'v \<Rightarrow> ('k, 'v) btree \<Rightarrow> ('k, 'v) btree" where
  "bt_insert k v [] = [(k, v)]"
| "bt_insert k v ((k', v') # m) =
     (if k < k' then (k, v) # (k', v') # m else if k = k' then (k, v) # m else (k', v') # bt_insert k v m)"

definition bt_remove :: "'k \<Rightarrow> ('k, 'v) btree \<Rightarrow> ('k, 'v) btree" where
  "bt_remove k m = filter (\<lambda>(k', _). k' \<noteq> k) m"

definition bt_retain :: "('k \<Rightarrow> bool) \<Rightarrow> ('k, 'v) btree \<Rightarrow> ('k, 'v) btree" where
  "bt_retain p m = filter (\<lambda>(k, _). p k) m"

definition bt_extend :: "('k :: linorder, 'v) btree \<Rightarrow> ('k, 'v) btree \<Rightarrow> ('k, 'v) btree" where
  "bt_extend m n = fold (\<lambda>(k, v). bt_insert k v) n m"

definition bt_ok :: "('k :: linorder, 'v) btree \<Rightarrow> bool" where
  "bt_ok m \<longleftrightarrow> sorted (map fst m) \<and> distinct (map fst m)"

lemma bt_get_Nil [simp]: "bt_get k [] = None"
  by (simp add: bt_get_def)

lemma bt_get_insert: "bt_get x (bt_insert k v m) = (if x = k then Some v else bt_get x m)"
  by (induction k v m rule: bt_insert.induct) (auto simp: bt_get_def)

lemma bt_get_remove: "bt_get x (bt_remove k m) = (if x = k then None else bt_get x m)"
  by (induction m) (auto simp: bt_get_def bt_remove_def)

lemma bt_get_retain: "bt_get x (bt_retain p m) = (if p x then bt_get x m else None)"
  by (induction m) (auto simp: bt_get_def bt_retain_def)

lemma bt_keys_insert: "set (map fst (bt_insert k v m)) = insert k (set (map fst m))"
  by (induction k v m rule: bt_insert.induct) auto

lemma bt_ok_insert: "bt_ok m \<Longrightarrow> bt_ok (bt_insert k v m)"
proof (induction k v m rule: bt_insert.induct)
  case (2 k v k' v' m)
  have "set (map fst (bt_insert k v m)) = insert k (set (map fst m))" by (rule bt_keys_insert)
  with 2 show ?case by (auto simp: bt_ok_def)
qed (simp add: bt_ok_def)

lemma bt_get_entries: "bt_ok m \<Longrightarrow> (k, v) \<in> set m \<longleftrightarrow> bt_get k m = Some v"
  by (auto simp: bt_ok_def bt_get_def map_of_eq_Some_iff)

text \<open>
  What a client relies on: a map with insertion, lookup and an invariant. \<open>extend\<close> is a fold of
  insertions, with the later entry winning.
\<close>

locale ordered_map =
  fixes get :: "'k \<Rightarrow> 'm \<Rightarrow> 'v option"
    and ins :: "'k \<Rightarrow> 'v \<Rightarrow> 'm \<Rightarrow> 'm"
    and ok :: "'m \<Rightarrow> bool"
  assumes get_ins: "get x (ins k v m) = (if x = k then Some v else get x m)"
    and ok_ins: "ok m \<Longrightarrow> ok (ins k v m)"
begin

lemma get_fold:
  "get x (fold (\<lambda>(k, v). ins k v) es m) = (case map_of (rev es) x of Some v \<Rightarrow> Some v | None \<Rightarrow> get x m)"
proof (induction es arbitrary: m)
  case (Cons e es)
  obtain k v where e: "e = (k, v)" by (cases e)
  show ?case unfolding e by (auto simp: Cons.IH get_ins map_add_def split: option.splits)
qed simp

lemma ok_fold: "ok m \<Longrightarrow> ok (fold (\<lambda>(k, v). ins k v) es m)"
  by (induction es arbitrary: m) (auto simp: ok_ins)

end

interpretation bt: ordered_map bt_get bt_insert bt_ok
  by unfold_locales (rule bt_get_insert, rule bt_ok_insert)

lemma map_of_rev: "distinct (map fst es) \<Longrightarrow> map_of (rev es) = map_of es"
  by (subst map_of_inject_set) (simp_all add: rev_map [symmetric])

lemma bt_get_extend:
  "bt_ok n \<Longrightarrow> bt_get x (bt_extend m n) = (case bt_get x n of Some v \<Rightarrow> Some v | None \<Rightarrow> bt_get x m)"
  unfolding bt_extend_def bt.get_fold by (simp add: map_of_rev bt_ok_def bt_get_def)

lemma bt_ok_extend: "bt_ok m \<Longrightarrow> bt_ok (bt_extend m n)"
  unfolding bt_extend_def by (rule bt.ok_fold)

lemma bt_ok_filters: "bt_ok m \<Longrightarrow> bt_ok (bt_remove k m)" "bt_ok m \<Longrightarrow> bt_ok (bt_retain p m)"
  by (auto simp: bt_ok_def bt_remove_def bt_retain_def distinct_map inj_on_def sorted_filter)

section \<open>Paths\<close>

definition path_join :: "string \<Rightarrow> string \<Rightarrow> string" where
  "path_join p q =
     (if q \<noteq> [] \<and> hd q = CHR ''/'' then q
      else if p = [] \<or> last p = CHR ''/'' then p @ q else p @ CHR ''/'' # q)"

text \<open>\<open>Path::file_name\<close> and \<open>Path::file_stem\<close>: the last component that is not empty or a dot.\<close>

definition file_name_of :: "string \<Rightarrow> string option" where
  "file_name_of p =
     (case rev (filter (\<lambda>c. c \<noteq> [] \<and> c \<noteq> ''.'') (split_on (CHR ''/'') p)) of
        [] \<Rightarrow> None
      | c # _ \<Rightarrow> if c = ''..'' then None else Some c)"

definition file_stem_of :: "string \<Rightarrow> string option" where
  "file_stem_of p = map_option (\<lambda>n. case rsplit_once (CHR ''.'') n of
       None \<Rightarrow> n
     | Some (a, b) \<Rightarrow> if a = [] then n else a) (file_name_of p)"

definition to_lower :: "string \<Rightarrow> string" where
  "to_lower = map (\<lambda>c. if 65 \<le> (of_char c :: nat) \<and> (of_char c :: nat) \<le> 90 then char_of (of_char c + 32 :: nat) else c)"

fun contains_text :: "string \<Rightarrow> string \<Rightarrow> bool" where
  "contains_text p [] \<longleftrightarrow> p = []"
| "contains_text p (c # cs) \<longleftrightarrow> starts_with p (c # cs) \<or> contains_text p cs"

end
