(* ===== verification/Launch_Config.thy ===== *)
theory Launch_Config
  imports Session_Record History_Format Rust_Std
begin

text \<open>
  \<open>src/config\<close> on Unix: the configuration schema, its validation, the built-in engines, profile
  discovery, the choice of the shell, the merge of the user's file, and the resolution of a launch
  into an argument vector and an environment (\<open>mod.rs\<close>, \<open>schema.rs\<close>, \<open>builtins.rs\<close>,
  \<open>discovery.rs\<close>, \<open>provider_env.rs\<close>, \<open>shell.rs\<close>, \<open>which_in\<close> of \<open>pathfix.rs\<close>), with the
  submission timing of \<open>enter_timing.rs\<close>. What the machine answers is a record of functions; the
  TOML parser is a parameter. Messages for people (\<open>notes\<close>, warnings) are left out.
\<close>

section \<open>Schema\<close>

type_synonym env = "(string, string) btree"

record engine_config =
  ec_command :: "string list"
  ec_env :: env
  ec_env_unset :: "string list"
  ec_skip_permissions_argv :: "string list"
  ec_task_argv :: "string list"
  ec_enter_delay_ms :: "nat option"
  ec_enter_settle :: "bool option"

record profile_config =
  pf_engine :: "string option"
  pf_executable :: "string option"
  pf_command :: "string list option"
  pf_args :: "string list"
  pf_env :: env
  pf_cwd :: "string option"
  pf_history_bytes :: "nat option"
  pf_limits :: limits

record discovery_config =
  dc_enabled :: bool
  dc_ignore_profiles :: "string list"

datatype shell_setting = Line string | Argv "string list"

datatype shell_source = FromEnv | FromConfigEngine | FromConfigKey | FromDefault

record shell_selection =
  ss_argv :: "string list"
  ss_env :: env
  ss_source :: shell_source

datatype config_error =
    UnknownDefaultEngine | UnknownDefaultProfile | EmptyEngineName | EmptyEngineCommand
  | EmptyEngineExecutable | EnterDelayTooLong | EmptyProfileName | UnknownProfileEngine
  | EmptyProfileExecutable | EmptyProfileCommand | EmptyProfileCommandExecutable
  | CommandAndExecutable | CommandAndArgs | HistoryTooLarge | BadConfigLimits
  | ReadFailed | ParseFailed | UnsupportedVersion
  | BadExecutionPolicy | ShellEmpty | ShellNotFound
  | UnknownProfile | UnknownEngine | NoCommand

record config =
  cf_version :: nat
  cf_default_engine :: "string option"
  cf_default_profile :: "string option"
  cf_engines :: "(string, engine_config) btree"
  cf_profiles :: "(string, profile_config) btree"
  cf_discovery :: discovery_config
  cf_keep_exited :: bool
  cf_shell :: "shell_setting option"
  cf_policy :: "string option"
  cf_shell_selection :: "shell_selection option"
  cf_shell_error :: "config_error option"

record resolved_launch =
  ln_engine :: string
  ln_profile :: "string option"
  ln_command :: "string list"
  ln_cwd :: string
  ln_env :: env
  ln_env_unset :: "string list"
  ln_skip_permissions_argv :: "string list"
  ln_limits :: limits
  ln_history_bytes :: nat

definition no_limits :: limits where
  "no_limits = \<lparr> memory_bytes = None, pids = None, cpu_quota_us = None, cpu_period_us = None \<rparr>"

definition default_profile_config :: profile_config where
  "default_profile_config = \<lparr> pf_engine = None, pf_executable = None, pf_command = None, pf_args = [],
     pf_env = [], pf_cwd = None, pf_history_bytes = None, pf_limits = no_limits \<rparr>"

definition default_discovery :: discovery_config where
  "default_discovery = \<lparr> dc_enabled = True, dc_ignore_profiles = [] \<rparr>"

definition trim_start_dots :: "string \<Rightarrow> string" where
  "trim_start_dots s = dropWhile (\<lambda>c. c = CHR ''.'') s"

definition allows :: "discovery_config \<Rightarrow> string \<Rightarrow> bool" where
  "allows d pid \<longleftrightarrow> dc_enabled d \<and> \<not> list_ex (\<lambda>i. trim_start_dots i = pid) (dc_ignore_profiles d)"

section \<open>Provider keys\<close>

definition PROVIDER_ENV_UNSET_VARS :: "string list" where
  "PROVIDER_ENV_UNSET_VARS = [
    ''AWS_ACCESS_KEY_ID'', ''AWS_SECRET_ACCESS_KEY'', ''AWS_SESSION_TOKEN'', ''AWS_PROFILE'', ''AWS_REGION'',
    ''AWS_BEARER_TOKEN_BEDROCK'', ''AWS_WEB_IDENTITY_TOKEN_FILE'', ''AWS_ROLE_ARN'', ''OPENAI_API_KEY'',
    ''OPENAI_BASE_URL'', ''OPENAI_ORG_ID'', ''OPENAI_PROJECT_ID'', ''ANTHROPIC_API_KEY'', ''ANTHROPIC_BASE_URL'',
    ''ANTHROPIC_AUTH_TOKEN'', ''GROQ_API_KEY'', ''GOOGLE_APPLICATION_CREDENTIALS'', ''GOOGLE_CLOUD_PROJECT'',
    ''GOOGLE_API_KEY'', ''VERTEX_LOCATION'', ''VERTEX_AI_PROJECT'', ''DEEPSEEK_API_KEY'', ''XAI_API_KEY'',
    ''FIREWORKS_API_KEY'', ''CEREBRAS_API_KEY'', ''OPENROUTER_API_KEY'', ''TOGETHER_API_KEY'', ''TOGETHER_AI_API_KEY'',
    ''AZURE_API_KEY'', ''AZURE_RESOURCE_NAME'', ''AZURE_COGNITIVE_SERVICES_RESOURCE_NAME'', ''AZURE_OPENAI_API_KEY'',
    ''AZURE_OPENAI_ENDPOINT'', ''CLOUDFLARE_API_TOKEN'', ''CLOUDFLARE_ACCOUNT_ID'', ''CLOUDFLARE_GATEWAY_ID'',
    ''CLOUDFLARE_API_KEY'', ''HUGGING_FACE_API_KEY'', ''HF_TOKEN'', ''HF_API_TOKEN'', ''MOONSHOT_API_KEY'',
    ''MOONSHOTAI_API_KEY'', ''MINIMAX_API_KEY'', ''NEBIUS_API_KEY'', ''DEEPINFRA_API_KEY'', ''BASETEN_API_KEY'',
    ''VENICE_API_KEY'', ''SCALEWAY_API_KEY'', ''OVH_API_KEY'', ''CORTECS_API_KEY'', ''IONET_API_KEY'', ''VERCEL_API_KEY'',
    ''ZENMUX_API_KEY'', ''ZAI_API_KEY'', ''HELICONE_API_KEY'', ''OPENCODE_API_KEY'', ''OPENCODE_ZEN_API_KEY'',
    ''GITLAB_TOKEN'', ''GITLAB_INSTANCE_URL'', ''GITLAB_AI_GATEWAY_URL'', ''GITLAB_OAUTH_CLIENT_ID'',
    ''AICORE_SERVICE_KEY'', ''AICORE_DEPLOYMENT_ID'', ''AICORE_RESOURCE_GROUP'', ''OPENAI_COMPATIBLE_API_KEY'',
    ''LMSTUDIO_API_KEY'', ''OLLAMA_API_KEY'', ''302AI_API_KEY'', ''FIRMWARE_API_KEY'', ''2AI_API_KEY'', ''GEMINI_API_KEY'']"

fun push_unique :: "string list \<Rightarrow> string list \<Rightarrow> string list" where
  "push_unique out [] = out"
| "push_unique out (name # names) =
     (let trimmed = trim_utf8 name in
      if trimmed \<noteq> [] \<and> trimmed \<notin> set out then push_unique (out @ [trimmed]) names
      else push_unique out names)"

definition ordered_unique_env_names :: "string list \<Rightarrow> string list \<Rightarrow> string list" where
  "ordered_unique_env_names prefix extra = push_unique [] (prefix @ extra)"

definition resolved_env_unset :: "engine_config \<Rightarrow> string \<Rightarrow> string list" where
  "resolved_env_unset engine engine_name =
     (if engine_name = ''shell'' then ordered_unique_env_names [] (ec_env_unset engine)
      else ordered_unique_env_names PROVIDER_ENV_UNSET_VARS (ec_env_unset engine))"

section \<open>Validation\<close>

definition MAX_ENTER_DELAY_MS :: nat where [size_consts]: "MAX_ENTER_DELAY_MS = 10000"
definition DEFAULT_HISTORY_BYTES :: nat where [size_consts]: "DEFAULT_HISTORY_BYTES = 4194304"

definition config_history :: "nat \<Rightarrow> config_error + nat" where
  "config_history v = (case validate_history_bytes v of Inr n \<Rightarrow> Inr n | Inl _ \<Rightarrow> Inl HistoryTooLarge)"

definition check :: "bool \<Rightarrow> config_error \<Rightarrow> config_error + unit" where
  "check bad e = (if bad then Inl e else Inr ())"

fun check_all :: "('a \<Rightarrow> config_error + unit) \<Rightarrow> 'a list \<Rightarrow> config_error + unit" where
  "check_all f [] = Inr ()"
| "check_all f (x # xs) = res_bind (f x) (\<lambda>_. check_all f xs)"

definition config_limits :: "limits \<Rightarrow> config_error + unit" where
  "config_limits l = (case validate_limits l of Inr _ \<Rightarrow> Inr () | Inl _ \<Rightarrow> Inl BadConfigLimits)"

definition validate_engine :: "string \<times> engine_config \<Rightarrow> config_error + unit" where
  "validate_engine = (\<lambda>(name, engine).
     res_bind (check (name = []) EmptyEngineName) (\<lambda>_.
     res_bind (check (ec_command engine = []) EmptyEngineCommand) (\<lambda>_.
     res_bind (check (hd (ec_command engine) = []) EmptyEngineExecutable) (\<lambda>_.
       check (case ec_enter_delay_ms engine of Some ms \<Rightarrow> MAX_ENTER_DELAY_MS < ms | None \<Rightarrow> False) EnterDelayTooLong))))"

definition validate_profile_command :: "profile_config \<Rightarrow> config_error + unit" where
  "validate_profile_command profile =
     (case pf_command profile of
        None \<Rightarrow> Inr ()
      | Some command \<Rightarrow>
          res_bind (check (command = []) EmptyProfileCommand) (\<lambda>_.
          res_bind (check (hd command = []) EmptyProfileCommandExecutable) (\<lambda>_.
          res_bind (check (pf_executable profile \<noteq> None) CommandAndExecutable) (\<lambda>_.
            check (pf_args profile \<noteq> []) CommandAndArgs))))"

definition validate_profile :: "(string, engine_config) btree \<Rightarrow> string \<times> profile_config \<Rightarrow> config_error + unit" where
  "validate_profile engines = (\<lambda>(name, profile).
     res_bind (check (name = []) EmptyProfileName) (\<lambda>_.
     res_bind (check (case pf_engine profile of Some e \<Rightarrow> bt_get e engines = None | None \<Rightarrow> False) UnknownProfileEngine) (\<lambda>_.
     res_bind (check (pf_executable profile = Some []) EmptyProfileExecutable) (\<lambda>_.
     res_bind (validate_profile_command profile) (\<lambda>_.
     res_bind (case pf_history_bytes profile of
                 None \<Rightarrow> Inr () | Some h \<Rightarrow> res_bind (config_history h) (\<lambda>_. Inr ())) (\<lambda>_.
       config_limits (pf_limits profile)))))))"

definition validate :: "config \<Rightarrow> config_error + unit" where
  "validate c =
     res_bind (check (case cf_default_engine c of Some n \<Rightarrow> bt_get n (cf_engines c) = None | None \<Rightarrow> False) UnknownDefaultEngine) (\<lambda>_.
     res_bind (check (case cf_default_profile c of Some n \<Rightarrow> bt_get n (cf_profiles c) = None | None \<Rightarrow> False) UnknownDefaultProfile) (\<lambda>_.
     res_bind (check_all validate_engine (cf_engines c)) (\<lambda>_.
       check_all (validate_profile (cf_engines c)) (cf_profiles c))))"

section \<open>Engine families and submission timing\<close>

definition engine_family :: "string \<Rightarrow> string" where
  "engine_family engine =
     (if engine \<in> {''zcodex'', ''codex-orin'', ''astra'', ''sol'', ''luna''} then ''codex''
      else if engine \<in> {''opus'', ''sonnet''} then ''claude''
      else if engine \<in> {''argon'', ''flash''} then ''antigravity''
      else engine)"

definition DEFAULT_ENTER_DELAY_MS :: nat where "DEFAULT_ENTER_DELAY_MS = 300"
definition SETTLE_STABLE_POLLS :: nat where "SETTLE_STABLE_POLLS = 3"

definition builtin_enter_delay_ms :: "string \<Rightarrow> nat" where
  "builtin_enter_delay_ms family =
     (if family = ''codex'' then 400 else if family = ''claude'' then 150 else DEFAULT_ENTER_DELAY_MS)"

definition builtin_enter_settle :: "string \<Rightarrow> bool" where
  "builtin_enter_settle family \<longleftrightarrow> family = ''codex''"

record timing =
  delay_ms :: nat
  settle :: bool

definition resolve_timing :: "string \<Rightarrow> nat option \<Rightarrow> bool option \<Rightarrow> timing" where
  "resolve_timing engine configured_delay_ms configured_settle =
     (let family = engine_family engine in
      \<lparr> delay_ms = (case configured_delay_ms of Some ms \<Rightarrow> ms | None \<Rightarrow> builtin_enter_delay_ms family),
        settle = (case configured_settle of Some s \<Rightarrow> s | None \<Rightarrow> builtin_enter_settle family) \<rparr>)"

definition submission_timing :: "config \<Rightarrow> string \<Rightarrow> timing" where
  "submission_timing c engine =
     (case bt_get engine (cf_engines c) of
        Some e \<Rightarrow> resolve_timing engine (ec_enter_delay_ms e) (ec_enter_settle e)
      | None \<Rightarrow> resolve_timing engine None None)"

section \<open>The machine\<close>

text \<open>
  What the code asks of the environment and the file system: \<open>$HOME\<close>, the names in it, whether a
  path is a directory or a file, whether it is an executable file, \<open>$PATH\<close>, \<open>$SHELL\<close> (unset when
  empty, as \<open>ShellContext::from_env\<close> has it) and \<open>APLEXER_SHELL\<close>.
\<close>

datatype file_read = FileText string | FileMissing | FileError

record host =
  hm_home :: "string option"
  hm_home_names :: "string list option"
  hm_is_dir :: "string \<Rightarrow> bool"
  hm_is_file :: "string \<Rightarrow> bool"
  hm_executable :: "string \<Rightarrow> bool"
  hm_path :: string
  hm_login_shell :: "string option"
  hm_aplexer_shell :: "string option"
  hm_config_file :: file_read

section \<open>The shell\<close>

definition which_in :: "(string \<Rightarrow> bool) \<Rightarrow> string \<Rightarrow> string \<Rightarrow> string option" where
  "which_in executable name path_var =
     (if CHR ''/'' \<in> set name then (if executable name then Some name else None)
      else find executable (map (\<lambda>dir. path_join dir name)
        (filter (\<lambda>dir. dir \<noteq> []) (split_on (CHR '':'') path_var))))"

datatype shell_kind = Bash | PosixShell | PowerShell | Cmd | OtherShell

definition kind_of :: "string \<Rightarrow> shell_kind" where
  "kind_of program =
     (let stem = (case file_stem_of program of Some st \<Rightarrow> to_lower st | None \<Rightarrow> []) in
      if stem = ''bash'' then Bash
      else if stem \<in> {''sh'', ''zsh'', ''fish'', ''dash'', ''ksh''} then PosixShell
      else if stem \<in> {''pwsh'', ''powershell''} then PowerShell
      else if stem = ''cmd'' then Cmd
      else OtherShell)"

text \<open>On Unix \<open>bash\<close> is looked up like every other name.\<close>

definition resolve_program :: "host \<Rightarrow> string \<Rightarrow> string option" where
  "resolve_program h name = which_in (hm_executable h) name (hm_path h)"

function tokenize_from :: "string list \<Rightarrow> string \<Rightarrow> bool \<Rightarrow> bool \<Rightarrow> string \<Rightarrow> string list" where
  "tokenize_from tokens current in_quotes started s =
     (case s of
        [] \<Rightarrow> if started then tokens @ [current] else tokens
      | c # rest \<Rightarrow>
          if c = CHR 0x22 then tokenize_from tokens current (\<not> in_quotes) True rest
          else case (if in_quotes then None else find (\<lambda>w. w \<noteq> [] \<and> starts_with w s) white_space) of
            Some w \<Rightarrow>
              if started then tokenize_from (tokens @ [current]) [] in_quotes False (drop (length w) s)
              else tokenize_from tokens current in_quotes started (drop (length w) s)
          | None \<Rightarrow> tokenize_from tokens (current @ [c]) in_quotes True rest)"
  by pat_completeness auto
termination
  by (relation "measure (\<lambda>(_, _, _, _, s). length s)") (auto simp: find_Some_iff split: if_splits)

declare tokenize_from.simps [simp del]

definition tokenize :: "string \<Rightarrow> string list" where
  "tokenize s = tokenize_from [] [] False False s"

definition default_args :: "shell_kind \<Rightarrow> string list" where
  "default_args kind = (if kind \<in> {Bash, PosixShell} then [''-l''] else [])"

definition build_shell :: "string \<Rightarrow> string list \<Rightarrow> shell_source \<Rightarrow> string option \<Rightarrow> shell_selection" where
  "build_shell program args source policy =
     (let extra = (case policy of
            Some p \<Rightarrow> if kind_of program = PowerShell \<and>
                 \<not> list_ex (\<lambda>a. to_lower a \<in> {''-executionpolicy'', ''-ep''}) args
               then [''-ExecutionPolicy'', p] else []
          | None \<Rightarrow> [])
      in \<lparr> ss_argv = program # extra @ args, ss_env = [], ss_source = source \<rparr>)"

definition trim_quotes :: "string \<Rightarrow> string" where
  "trim_quotes s = rev (dropWhile (\<lambda>c. c = CHR 0x22) (rev (dropWhile (\<lambda>c. c = CHR 0x22) s)))"

definition shell_tokens :: "host \<Rightarrow> shell_setting \<Rightarrow> string list \<times> bool" where
  "shell_tokens h setting =
     (case setting of
        Argv argv \<Rightarrow> (argv, True)
      | Line l \<Rightarrow>
          (let whole = trim_quotes (trim_utf8 l) in
           if whole \<noteq> [] \<and> (CHR 0x5C \<in> set whole \<or> CHR ''/'' \<in> set whole) \<and>
              which_in (hm_executable h) whole (hm_path h) \<noteq> None
           then ([whole], False) else (tokenize l, False)))"

definition explicit_shell :: "host \<Rightarrow> shell_setting \<Rightarrow> shell_source \<Rightarrow> string option \<Rightarrow> config_error + shell_selection" where
  "explicit_shell h setting source policy =
     (let (tokens, verbatim) = shell_tokens h setting in
      if tokens = [] \<or> hd tokens = [] then Inl ShellEmpty
      else case resolve_program h (hd tokens) of
        None \<Rightarrow> Inl ShellNotFound
      | Some program \<Rightarrow>
          Inr (build_shell program
            (if verbatim \<or> 1 < length tokens then tl tokens else default_args (kind_of program)) source policy))"

definition default_shell :: "host \<Rightarrow> shell_selection" where
  "default_shell h =
     \<lparr> ss_argv = [case hm_login_shell h of Some s \<Rightarrow> s | None \<Rightarrow> ''/bin/sh'', ''-l''], ss_env = [], ss_source = FromDefault \<rparr>"

definition validate_policy :: "string option \<Rightarrow> config_error + string option" where
  "validate_policy policy =
     (case policy of
        None \<Rightarrow> Inr None
      | Some v \<Rightarrow> if to_lower v \<in> {''bypass'', ''remotesigned'', ''unrestricted'', ''allsigned''}
          then Inr (Some v) else Inl BadExecutionPolicy)"

definition select_shell ::
    "host \<Rightarrow> string option \<Rightarrow> shell_setting option \<Rightarrow> string option \<Rightarrow> config_error + shell_selection" where
  "select_shell h env_override key policy =
     res_bind (validate_policy policy) (\<lambda>policy.
       case (if env_override = None \<or> trim_utf8 (the env_override) = [] then None else env_override) of
         Some v \<Rightarrow> explicit_shell h (Line v) FromEnv policy
       | None \<Rightarrow> (case key of
           Some setting \<Rightarrow> explicit_shell h setting FromConfigKey policy
         | None \<Rightarrow> Inr (default_shell h)))"

section \<open>Built-in engines and discovered profiles\<close>

definition builtin_engine :: "string list \<Rightarrow> string list \<Rightarrow> engine_config" where
  "builtin_engine command skip = \<lparr> ec_command = command, ec_env = [], ec_env_unset = [],
     ec_skip_permissions_argv = skip, ec_task_argv = [], ec_enter_delay_ms = None, ec_enter_settle = None \<rparr>"

definition default_shell_argv :: "host \<Rightarrow> string list" where
  "default_shell_argv h = (case select_shell h None None None of Inr sel \<Rightarrow> ss_argv sel | Inl _ \<Rightarrow> [''/bin/sh''])"

definition builtin_engines :: "host \<Rightarrow> (string, engine_config) btree" where
  "builtin_engines h = fold (\<lambda>(name, command, skip). bt_insert name (builtin_engine command skip))
     [(''shell'', default_shell_argv h, []),
      (''codex'', [''codex'', ''-c'', ''check_for_update_on_startup=false''], [''--dangerously-bypass-approvals-and-sandbox'']),
      (''claude'', [''claude''], [''--dangerously-skip-permissions'']),
      (''antigravity'', [''agy''], [''--dangerously-skip-permissions'']),
      (''grok'', [''grok''], [''--always-approve'']),
      (''opencode'', [''opencode''], [''--auto''])] []"

record discovery_rule =
  dr_engine :: string
  dr_env_var :: string
  dr_default_dirname :: string
  dr_markers :: "string list"
  dr_hints :: "string list"

definition PROFILE_DISCOVERY_RULES :: "discovery_rule list" where
  "PROFILE_DISCOVERY_RULES =
     [\<lparr> dr_engine = ''claude'', dr_env_var = ''CLAUDE_CONFIG_DIR'', dr_default_dirname = ''.claude'',
        dr_markers = [''.claude.json'', ''settings.json''], dr_hints = [''claude'', ''laude''] \<rparr>,
      \<lparr> dr_engine = ''codex'', dr_env_var = ''CODEX_HOME'', dr_default_dirname = ''.codex'',
        dr_markers = [''config.toml'', ''auth.json''], dr_hints = [''codex'', ''odex''] \<rparr>]"

definition has_marker :: "host \<Rightarrow> string \<Rightarrow> string list \<Rightarrow> bool" where
  "has_marker h dir markers \<longleftrightarrow> hm_is_dir h dir \<and> list_ex (\<lambda>m. hm_is_file h (path_join dir m)) markers"

definition discover_one ::
    "host \<Rightarrow> string \<Rightarrow> discovery_rule \<Rightarrow> string \<Rightarrow> (string, profile_config) btree \<Rightarrow> (string, profile_config) btree" where
  "discover_one h home rule stem out =
     (if \<not> starts_with ''.'' stem \<or> stem = dr_default_dirname rule then out
      else if \<not> list_ex (\<lambda>hint. contains_text hint (to_lower stem)) (dr_hints rule) then out
      else let dir = path_join home stem in
        if \<not> has_marker h dir (dr_markers rule) then out
        else let pid = trim_start_dots stem in
          if pid = [] \<or> bt_get pid out \<noteq> None then out
          else bt_insert pid (default_profile_config \<lparr> pf_engine := Some (dr_engine rule), pf_env := [(dr_env_var rule, dir)] \<rparr>) out)"

definition discover_profiles :: "host \<Rightarrow> (string, profile_config) btree" where
  "discover_profiles h =
     (case (hm_home h, hm_home_names h) of
        (Some home, Some names) \<Rightarrow>
          fold (\<lambda>rule. fold (discover_one h home rule) (sort names)) PROFILE_DISCOVERY_RULES []
      | _ \<Rightarrow> [])"

section \<open>Loading\<close>

text \<open>The TOML parser: the lenient header (version, \<open>keep_exited\<close>) and the strict schema.\<close>

record toml =
  tm_header :: "string \<Rightarrow> (nat \<times> bool) option"
  tm_config :: "string \<Rightarrow> config option"

definition parse_header :: "toml \<Rightarrow> string \<Rightarrow> config_error + bool" where
  "parse_header tm text =
     (case tm_header tm text of
        None \<Rightarrow> Inl ParseFailed
      | Some (v, keep) \<Rightarrow> if v \<noteq> 1 then Inl UnsupportedVersion else Inr keep)"

definition config_keep_exited :: "toml \<Rightarrow> host \<Rightarrow> bool" where
  "config_keep_exited tm h =
     (case hm_config_file h of
        FileText text \<Rightarrow> (case parse_header tm text of Inr keep \<Rightarrow> keep | Inl _ \<Rightarrow> False)
      | _ \<Rightarrow> False)"

definition rename_gemini :: "profile_config \<Rightarrow> profile_config" where
  "rename_gemini p = (if pf_engine p = Some ''gemini'' then p \<lparr> pf_engine := Some ''antigravity'' \<rparr> else p)"

definition merge_config :: "config \<Rightarrow> config \<Rightarrow> config" where
  "merge_config c user =
     c \<lparr> cf_default_engine := (case cf_default_engine user of
            Some e \<Rightarrow> Some (if e = ''gemini'' then ''antigravity'' else e) | None \<Rightarrow> cf_default_engine c),
         cf_default_profile := (case cf_default_profile user of Some p \<Rightarrow> Some p | None \<Rightarrow> cf_default_profile c),
         cf_engines := bt_extend (cf_engines c) (bt_remove ''gemini'' (cf_engines user)),
         cf_profiles := bt_extend (bt_retain (allows (cf_discovery user)) (cf_profiles c))
            (map (\<lambda>(k, p). (k, rename_gemini p)) (cf_profiles user)),
         cf_discovery := cf_discovery user,
         cf_shell := cf_shell user,
         cf_policy := cf_policy user,
         cf_keep_exited := cf_keep_exited user \<rparr>"

definition merge_user_file :: "toml \<Rightarrow> host \<Rightarrow> config \<Rightarrow> config_error + (config \<times> bool)" where
  "merge_user_file tm h c =
     (case hm_config_file h of
        FileMissing \<Rightarrow> Inr (c, False)
      | FileError \<Rightarrow> Inl ReadFailed
      | FileText text \<Rightarrow>
          res_bind (parse_header tm text) (\<lambda>_.
            case tm_config tm text of
              None \<Rightarrow> Inl ParseFailed
            | Some user \<Rightarrow> Inr (merge_config c user, bt_get ''shell'' (cf_engines user) \<noteq> None)))"

definition apply_shell :: "config \<Rightarrow> bool \<Rightarrow> host \<Rightarrow> string option \<Rightarrow> config" where
  "apply_shell c user_defined_engine h env_override =
     (let env_set = (case env_override of Some v \<Rightarrow> trim_utf8 v \<noteq> [] | None \<Rightarrow> False) in
      if user_defined_engine \<and> \<not> env_set then
        (case bt_get ''shell'' (cf_engines c) of
           Some e \<Rightarrow> c \<lparr> cf_shell_selection := Some \<lparr> ss_argv = ec_command e, ss_env = ec_env e, ss_source = FromConfigEngine \<rparr> \<rparr>
         | None \<Rightarrow> c)
      else case select_shell h env_override (cf_shell c) (cf_policy c) of
        Inr sel \<Rightarrow>
          (case bt_get ''shell'' (cf_engines c) of
             Some e \<Rightarrow> c \<lparr> cf_engines := bt_insert ''shell''
                  (e \<lparr> ec_command := ss_argv sel, ec_env := bt_extend (ec_env e) (ss_env sel) \<rparr>) (cf_engines c) \<rparr>
           | None \<Rightarrow> c) \<lparr> cf_shell_selection := Some sel \<rparr>
      | Inl e \<Rightarrow> c \<lparr> cf_shell_error := Some e \<rparr>)"

definition initial_config :: "host \<Rightarrow> config" where
  "initial_config h =
     \<lparr> cf_version = 1, cf_default_engine = Some ''shell'', cf_default_profile = None,
       cf_engines = builtin_engines h, cf_profiles = discover_profiles h, cf_discovery = default_discovery,
       cf_keep_exited = False, cf_shell = None, cf_policy = None, cf_shell_selection = None, cf_shell_error = None \<rparr>"

definition load_config :: "toml \<Rightarrow> host \<Rightarrow> config_error + config" where
  "load_config tm h =
     res_bind (merge_user_file tm h (initial_config h)) (\<lambda>(c, user_defined_shell).
     res_bind (validate c) (\<lambda>_.
       Inr (apply_shell c user_defined_shell h (hm_aplexer_shell h))))"

section \<open>Resolution\<close>

record shortcut =
  sc_canonical_engine :: string
  sc_default_profile :: "string option"
  sc_model_args :: "string list"

definition deprecated_shortcut_engine :: "string \<Rightarrow> shortcut option" where
  "deprecated_shortcut_engine name =
     map_of [
       (''gemini'', \<lparr> sc_canonical_engine = ''antigravity'', sc_default_profile = None, sc_model_args = [] \<rparr>),
       (''argon'', \<lparr> sc_canonical_engine = ''antigravity'', sc_default_profile = None, sc_model_args = [''--model'', ''gemini-4-argon-high''] \<rparr>),
       (''flash'', \<lparr> sc_canonical_engine = ''antigravity'', sc_default_profile = None, sc_model_args = [''--model'', ''gemini-3.8-flash-high''] \<rparr>),
       (''opus'', \<lparr> sc_canonical_engine = ''claude'', sc_default_profile = None, sc_model_args = [''--model'', ''opus''] \<rparr>),
       (''sonnet'', \<lparr> sc_canonical_engine = ''claude'', sc_default_profile = None, sc_model_args = [''--model'', ''sonnet''] \<rparr>),
       (''astra'', \<lparr> sc_canonical_engine = ''codex'', sc_default_profile = None, sc_model_args = [''-m'', ''gpt-6-astra''] \<rparr>),
       (''sol'', \<lparr> sc_canonical_engine = ''codex'', sc_default_profile = None, sc_model_args = [''-m'', ''gpt-6.1-sol''] \<rparr>),
       (''luna'', \<lparr> sc_canonical_engine = ''codex'', sc_default_profile = None,
          sc_model_args = [''-m'', ''gpt-6-luna'', ''-c'', ''model_reasoning_effort=max''] \<rparr>),
       (''codex-orin'', \<lparr> sc_canonical_engine = ''codex'', sc_default_profile = Some ''codex-orin'', sc_model_args = [] \<rparr>)] name"

definition build_argv :: "string list \<Rightarrow> engine_config \<Rightarrow> profile_config option \<Rightarrow> string list" where
  "build_argv direct engine profile =
     (if direct \<noteq> [] then direct
      else case profile of
        None \<Rightarrow> ec_command engine
      | Some p \<Rightarrow> (case pf_command p of
          Some command \<Rightarrow> command
        | None \<Rightarrow>
            (case (ec_command engine, pf_executable p) of
               (_ # rest, Some executable) \<Rightarrow> executable # rest
             | (argv, _) \<Rightarrow> argv) @ pf_args p))"

definition or_else :: "'a option \<Rightarrow> 'a option \<Rightarrow> 'a option" where
  "or_else a b = (case a of Some x \<Rightarrow> Some x | None \<Rightarrow> b)"

definition merge_limits :: "limits \<Rightarrow> limits \<Rightarrow> limits" where
  "merge_limits base overrides =
     \<lparr> memory_bytes = or_else (memory_bytes overrides) (memory_bytes base),
       pids = or_else (pids overrides) (pids base),
       cpu_quota_us = or_else (cpu_quota_us overrides) (cpu_quota_us base),
       cpu_period_us = or_else (cpu_period_us overrides) (cpu_period_us base) \<rparr>"

text \<open>The retired names: the canonical engine and the shortcut that was taken.\<close>

definition effective_engine :: "config \<Rightarrow> string option \<Rightarrow> string option \<times> shortcut option" where
  "effective_engine c engine_name =
     (case engine_name of
        Some name \<Rightarrow>
          if bt_get name (cf_engines c) = None then
            (case deprecated_shortcut_engine name of
               Some sc \<Rightarrow> (Some (sc_canonical_engine sc), Some sc)
             | None \<Rightarrow> (Some name, None))
          else (Some name, None)
      | None \<Rightarrow> (None, None))"

definition pick_profile :: "config \<Rightarrow> string option \<Rightarrow> shortcut option \<Rightarrow> string option" where
  "pick_profile c profile_name sc =
     or_else profile_name (or_else (Option.bind sc sc_default_profile) (cf_default_profile c))"

definition find_profile ::
    "config \<Rightarrow> string option \<Rightarrow> shortcut option \<Rightarrow> config_error + profile_config option" where
  "find_profile c profile_name sc =
     (case pick_profile c profile_name sc of
        None \<Rightarrow> Inr None
      | Some name \<Rightarrow>
          (case bt_get name (cf_profiles c) of
             Some p \<Rightarrow> Inr (Some p)
           | None \<Rightarrow>
               if profile_name = None \<and> Option.bind sc sc_default_profile = Some name then Inr None
               else Inl UnknownProfile))"

text \<open>\<open>CODEX_HOME\<close> for the two account profiles, when nothing set it.\<close>

definition set_codex_home :: "host \<Rightarrow> bool \<Rightarrow> string \<Rightarrow> env \<Rightarrow> env" where
  "set_codex_home h wanted dir e =
     (if wanted \<and> bt_get ''CODEX_HOME'' e = None then
        (case hm_home h of Some home \<Rightarrow> bt_insert ''CODEX_HOME'' (path_join home dir) e | None \<Rightarrow> e)
      else e)"

definition merged_env ::
    "host \<Rightarrow> string \<Rightarrow> string option \<Rightarrow> engine_config \<Rightarrow> profile_config option \<Rightarrow> env \<Rightarrow> env" where
  "merged_env h selected_engine selected_profile engine profile env_overrides =
     (let e = ec_env engine;
          e = (case profile of Some p \<Rightarrow> bt_extend e (pf_env p) | None \<Rightarrow> e);
          e = set_codex_home h (selected_engine = ''zcodex'' \<or> selected_profile = Some ''zcodex'') ''.zcodex'' e;
          e = set_codex_home h (selected_profile = Some ''codex-orin'') ''.codex-orin'' e
      in bt_extend e env_overrides)"

definition resolve_launch ::
    "host \<Rightarrow> config \<Rightarrow> string list \<Rightarrow> string option \<Rightarrow> string option \<Rightarrow> string \<Rightarrow> string option \<Rightarrow> env \<Rightarrow> limits \<Rightarrow>
     nat option \<Rightarrow> config_error + resolved_launch" where
  "resolve_launch h c direct engine_name profile_name workspace cwd env_overrides lims history_bytes =
     (let (effective, sc) = effective_engine c engine_name;
          selected_profile = pick_profile c profile_name sc in
      res_bind (find_profile c profile_name sc) (\<lambda>profile.
      let selected_engine = (case or_else effective (or_else (Option.bind profile pf_engine) (cf_default_engine c)) of
            Some e \<Rightarrow> e | None \<Rightarrow> ''shell'') in
      res_bind (case cf_shell_error c of
                  Some e \<Rightarrow> if selected_engine = ''shell'' then Inl e else Inr ()
                | None \<Rightarrow> Inr ()) (\<lambda>_.
      case bt_get selected_engine (cf_engines c) of
        None \<Rightarrow> Inl UnknownEngine
      | Some engine \<Rightarrow>
          let command = build_argv direct engine profile @
                (if direct = [] then (case sc of Some s \<Rightarrow> sc_model_args s | None \<Rightarrow> []) else []) in
          if command = [] then Inl NoCommand
          else
            let merged = merge_limits (case profile of Some p \<Rightarrow> pf_limits p | None \<Rightarrow> no_limits) lims in
            res_bind (config_limits merged) (\<lambda>_.
            res_bind (config_history (case or_else history_bytes (Option.bind profile pf_history_bytes) of
                        Some n \<Rightarrow> n | None \<Rightarrow> DEFAULT_HISTORY_BYTES)) (\<lambda>hist.
              Inr \<lparr> ln_engine = selected_engine, ln_profile = selected_profile, ln_command = command,
                ln_cwd = (case or_else cwd (Option.bind profile pf_cwd) of Some d \<Rightarrow> d | None \<Rightarrow> workspace),
                ln_env = merged_env h selected_engine selected_profile engine profile env_overrides,
                ln_env_unset = resolved_env_unset engine selected_engine,
                ln_skip_permissions_argv = ec_skip_permissions_argv engine,
                ln_limits = merged, ln_history_bytes = hist \<rparr>)))))"

end
