(* ===== verification/Launch_Laws.thy ===== *)
theory Launch_Laws
  imports Launch_Config
begin

text \<open>
  What a loaded configuration guarantees: it is valid after the shell has been settled, the retired
  engine name is gone, every selection it offers resolves to a command that can be run, the
  environment of a launch has a fixed precedence, and the provider keys are always stripped.
\<close>

section \<open>Checks\<close>

lemma check_Inr [simp]: "check bad e = Inr () \<longleftrightarrow> \<not> bad"
  by (simp add: check_def)

lemma check_all_Inr: "check_all f xs = Inr () \<longleftrightarrow> (\<forall>x \<in> set xs. f x = Inr ())"
  by (induction xs) (auto simp: res_bind_eq_Inr)

lemma config_history_Inr [simp]: "config_history v = Inr n \<longleftrightarrow> v \<le> MAX_HISTORY_BYTES \<and> n = v"
  by (auto simp: config_history_def validate_history_bytes_def)

lemma validate_Inr:
  "validate c = Inr () \<longleftrightarrow>
     (\<forall>n. cf_default_engine c = Some n \<longrightarrow> bt_get n (cf_engines c) \<noteq> None) \<and>
     (\<forall>n. cf_default_profile c = Some n \<longrightarrow> bt_get n (cf_profiles c) \<noteq> None) \<and>
     (\<forall>e \<in> set (cf_engines c). validate_engine e = Inr ()) \<and>
     (\<forall>p \<in> set (cf_profiles c). validate_profile (cf_engines c) p = Inr ())"
  by (auto simp: validate_def res_bind_eq_Inr check_all_Inr split: option.splits)

lemma validate_engine_Inr:
  "validate_engine (n, e) = Inr () \<longleftrightarrow>
     n \<noteq> [] \<and> ec_command e \<noteq> [] \<and> hd (ec_command e) \<noteq> [] \<and>
     (\<forall>ms. ec_enter_delay_ms e = Some ms \<longrightarrow> ms \<le> MAX_ENTER_DELAY_MS)"
  by (auto simp: validate_engine_def res_bind_eq_Inr split: option.splits)

lemma validate_profile_Inr:
  "validate_profile es (n, p) = Inr () \<longleftrightarrow>
     n \<noteq> [] \<and> (\<forall>e. pf_engine p = Some e \<longrightarrow> bt_get e es \<noteq> None) \<and> pf_executable p \<noteq> Some [] \<and>
     validate_profile_command p = Inr () \<and> (\<forall>h. pf_history_bytes p = Some h \<longrightarrow> h \<le> MAX_HISTORY_BYTES) \<and>
     config_limits (pf_limits p) = Inr ()"
  by (auto simp: validate_profile_def res_bind_eq_Inr split: option.splits)

lemma validate_profile_command_Inr:
  "validate_profile_command p = Inr () \<longleftrightarrow>
     (\<forall>cmd. pf_command p = Some cmd \<longrightarrow> cmd \<noteq> [] \<and> hd cmd \<noteq> [] \<and> pf_executable p = None \<and> pf_args p = [])"
  by (auto simp: validate_profile_command_def res_bind_eq_Inr split: option.splits)

lemma bt_get_in_set: "bt_get k m = Some v \<Longrightarrow> (k, v) \<in> set m"
  by (auto simp: bt_get_def dest: map_of_SomeD)

lemma bt_insert_entries: "set (bt_insert k v m) \<subseteq> insert (k, v) (set m)"
  by (induction k v m rule: bt_insert.induct) (auto split: if_splits)

section \<open>The shell\<close>

lemma path_join_nonempty: "q \<noteq> [] \<Longrightarrow> path_join p q \<noteq> []"
  by (simp add: path_join_def)

lemma which_in_nonempty: "which_in ex name path = Some p \<Longrightarrow> name \<noteq> [] \<Longrightarrow> p \<noteq> []"
  by (auto simp: which_in_def find_Some_iff path_join_nonempty split: if_splits)

definition runnable :: "string list \<Rightarrow> bool" where
  "runnable argv \<longleftrightarrow> argv \<noteq> [] \<and> hd argv \<noteq> []"

text \<open>\<open>ShellContext::from_env\<close> drops an empty \<open>$SHELL\<close>.\<close>

definition host_ok :: "host \<Rightarrow> bool" where
  "host_ok h \<longleftrightarrow> hm_login_shell h \<noteq> Some []"

lemma explicit_shell_runnable: "explicit_shell h setting src policy = Inr sel \<Longrightarrow> runnable (ss_argv sel)"
  by (auto simp: explicit_shell_def build_shell_def runnable_def resolve_program_def Let_def
      dest: which_in_nonempty split: prod.splits if_splits option.splits)

lemma select_shell_runnable:
  assumes "select_shell h ov key policy = Inr sel" "host_ok h"
  shows "runnable (ss_argv sel)"
proof -
  have "runnable (ss_argv (default_shell h))"
    using assms(2) by (auto simp: default_shell_def runnable_def host_ok_def split: option.splits)
  with assms show ?thesis
    by (auto simp: select_shell_def res_bind_eq_Inr explicit_shell_runnable split: option.splits if_splits)
qed

section \<open>Loading\<close>

text \<open>A deserialised \<open>BTreeMap\<close> is in key order without repetitions.\<close>

definition toml_ok :: "toml \<Rightarrow> bool" where
  "toml_ok tm \<longleftrightarrow> (\<forall>text user. tm_config tm text = Some user \<longrightarrow> bt_ok (cf_engines user) \<and> bt_ok (cf_profiles user))"

definition builtin_names :: "string set" where
  "builtin_names = {''shell'', ''codex'', ''claude'', ''antigravity'', ''grok'', ''opencode''}"

text \<open>What holds of every configuration between its start values and the end of \<open>load\<close>.\<close>

definition config_inv :: "config \<Rightarrow> bool" where
  "config_inv c \<longleftrightarrow> bt_ok (cf_engines c) \<and> bt_ok (cf_profiles c) \<and> bt_get ''gemini'' (cf_engines c) = None \<and>
     (\<forall>n \<in> builtin_names. bt_get n (cf_engines c) \<noteq> None) \<and> cf_default_engine c \<noteq> None"

lemma bt_ok_Nil [simp]: "bt_ok []"
  by (simp add: bt_ok_def)

lemma bt_ok_fold:
  "(\<And>x m. bt_ok m \<Longrightarrow> bt_ok (f x m)) \<Longrightarrow> bt_ok m \<Longrightarrow> bt_ok (fold f xs m)"
  by (induction xs arbitrary: m) auto

lemma discover_profiles_ok: "bt_ok (discover_profiles h)"
proof -
  have "bt_ok m \<Longrightarrow> bt_ok (discover_one h home rule stem m)" for home rule stem m
    by (simp add: discover_one_def Let_def bt_ok_insert)
  then show ?thesis
    by (auto simp: discover_profiles_def intro!: bt_ok_fold split: option.splits)
qed

lemma builtin_engines_get:
  "bt_get n (builtin_engines h) \<noteq> None \<longleftrightarrow> n \<in> builtin_names"
  by (simp add: builtin_engines_def bt_get_insert builtin_names_def del: bt_insert.simps)

lemma builtin_engines_ok: "bt_ok (builtin_engines h)"
  by (simp add: builtin_engines_def bt_ok_insert del: bt_insert.simps)

lemma config_inv_initial: "config_inv (initial_config h)"
proof -
  have "bt_get ''gemini'' (builtin_engines h) = None"
    using builtin_engines_get [of "''gemini''" h] by (simp add: builtin_names_def)
  moreover have "\<forall>n \<in> builtin_names. bt_get n (builtin_engines h) \<noteq> None" using builtin_engines_get by blast
  ultimately show ?thesis
    by (simp add: config_inv_def initial_config_def builtin_engines_ok discover_profiles_ok)
qed

lemma config_inv_merge:
  assumes "config_inv c" "bt_ok (cf_engines user)"
  shows "config_inv (merge_config c user)"
proof -
  have "bt_ok (bt_remove ''gemini'' (cf_engines user))" using assms(2) by (rule bt_ok_filters)
  then show ?thesis using assms(1)
    by (auto simp: config_inv_def merge_config_def bt_get_extend bt_get_remove bt_ok_extend bt_ok_filters
        split: option.splits)
qed

lemma config_inv_apply_shell: "config_inv c \<Longrightarrow> config_inv (apply_shell c u h ov)"
  by (auto simp: config_inv_def apply_shell_def Let_def bt_get_insert bt_ok_insert builtin_names_def
      split: option.splits sum.splits)

lemma validate_set_shell:
  assumes v: "validate c = Inr ()" and e: "bt_get ''shell'' (cf_engines c) = Some e" and r: "runnable argv"
  shows "validate (c \<lparr> cf_engines := bt_insert ''shell'' (e \<lparr> ec_command := argv, ec_env := env \<rparr>) (cf_engines c),
    cf_shell_selection := sel \<rparr>) = Inr ()"
proof -
  let ?e = "e \<lparr> ec_command := argv, ec_env := env \<rparr>"
  have "validate_engine (''shell'', e) = Inr ()" using v bt_get_in_set [OF e] by (auto simp: validate_Inr)
  then have "validate_engine (''shell'', ?e) = Inr ()" using r by (simp add: validate_engine_Inr runnable_def)
  moreover have "validate_profile (bt_insert ''shell'' ?e (cf_engines c)) p = Inr ()"
    if "validate_profile (cf_engines c) p = Inr ()" for p
    using that by (cases p) (auto simp: validate_profile_Inr bt_get_insert)
  ultimately show ?thesis
    using v bt_insert_entries [of "''shell''" ?e "cf_engines c"] by (auto simp: validate_Inr bt_get_insert)
qed

lemma validate_congs:
  "validate (c \<lparr> cf_shell_selection := s \<rparr>) = validate c" "validate (c \<lparr> cf_shell_error := e \<rparr>) = validate c"
  by (simp_all add: validate_def split: option.split)

lemma validate_apply_shell:
  assumes v: "validate c = Inr ()" and "host_ok h"
  shows "validate (apply_shell c u h ov) = Inr ()"
  using assms validate_set_shell [OF v] select_shell_runnable [where h = h]
  by (auto simp: apply_shell_def Let_def validate_congs split: option.splits sum.splits)

lemma load_config_cases:
  assumes "load_config tm h = Inr c"
  obtains c0 u where "merge_user_file tm h (initial_config h) = Inr (c0, u)" "validate c0 = Inr ()"
    "c = apply_shell c0 u h (hm_aplexer_shell h)"
  using assms by (auto simp: load_config_def res_bind_eq_Inr)

lemma config_inv_load:
  assumes "load_config tm h = Inr c" "toml_ok tm"
  shows "config_inv c"
proof -
  obtain c0 u where c: "merge_user_file tm h (initial_config h) = Inr (c0, u)"
    "c = apply_shell c0 u h (hm_aplexer_shell h)" using load_config_cases [OF assms(1)] by metis
  have "config_inv c0"
    using c(1) assms(2) config_inv_initial [of h] config_inv_merge [OF config_inv_initial]
    by (auto simp: merge_user_file_def toml_ok_def res_bind_eq_Inr split: file_read.splits option.splits)
  then show ?thesis unfolding c(2) by (rule config_inv_apply_shell)
qed

lemma validate_load:
  assumes "load_config tm h = Inr c" "host_ok h"
  shows "validate c = Inr ()"
  using load_config_cases [OF assms(1)] validate_apply_shell [OF _ assms(2)] by metis

section \<open>Resolution\<close>

lemma resolve_launch_Inr:
  assumes "resolve_launch h c direct en pn ws cwd ov lims hb = Inr l"
  obtains sc profile engine where
    "sc = snd (effective_engine c en)" "find_profile c pn sc = Inr profile" "ln_profile l = pick_profile c pn sc"
    "ln_engine l = (case or_else (fst (effective_engine c en)) (or_else (Option.bind profile pf_engine) (cf_default_engine c)) of
       Some e \<Rightarrow> e | None \<Rightarrow> ''shell'')"
    "bt_get (ln_engine l) (cf_engines c) = Some engine"
    "ln_env l = merged_env h (ln_engine l) (ln_profile l) engine profile ov"
    "ln_env_unset l = resolved_env_unset engine (ln_engine l)"
    "ln_command l \<noteq> []" "ln_history_bytes l \<le> MAX_HISTORY_BYTES"
  using assms unfolding resolve_launch_def
  by (auto simp: Let_def res_bind_eq_Inr intro: that split: prod.splits option.splits if_splits)

text \<open>\<open>limits\<close> that were not requested leave the profile's.\<close>

lemma merge_no_limits: "merge_limits l no_limits = l"
  by (simp add: merge_limits_def no_limits_def or_else_def)

lemma build_argv_runnable:
  assumes "validate_engine (n, e) = Inr ()" "\<forall>p. profile = Some p \<longrightarrow> validate_profile es (m, p) = Inr ()"
  shows "runnable (build_argv [] e profile @ extra)"
proof (cases profile)
  case None
  then show ?thesis using assms(1) by (simp add: build_argv_def runnable_def validate_engine_Inr)
next
  case (Some p)
  have e: "ec_command e \<noteq> []" "hd (ec_command e) \<noteq> []" using assms(1) by (simp_all add: validate_engine_Inr)
  have p: "pf_executable p \<noteq> Some []" "pf_command p = Some cmd \<Longrightarrow> cmd \<noteq> [] \<and> hd cmd \<noteq> []" for cmd
    using assms(2) Some by (auto simp: validate_profile_Inr validate_profile_command_Inr)
  show ?thesis using Some e p
    by (auto simp: build_argv_def runnable_def hd_append split: option.splits list.splits)
qed

text \<open>The engine names and profile names a launch may ask for.\<close>

definition known_engine :: "config \<Rightarrow> string option \<Rightarrow> bool" where
  "known_engine c en = (case en of None \<Rightarrow> True
     | Some n \<Rightarrow> bt_get n (cf_engines c) \<noteq> None \<or> deprecated_shortcut_engine n \<noteq> None)"

definition known_profile :: "config \<Rightarrow> string option \<Rightarrow> bool" where
  "known_profile c pn = (case pn of None \<Rightarrow> True | Some p \<Rightarrow> bt_get p (cf_profiles c) \<noteq> None)"

lemma shortcut_canonical:
  "deprecated_shortcut_engine n = Some sc \<Longrightarrow> sc_canonical_engine sc \<in> builtin_names"
  by (auto simp: deprecated_shortcut_engine_def builtin_names_def split: if_splits)

lemma find_profile_known:
  assumes "validate c = Inr ()" "known_profile c pn"
  obtains profile where "find_profile c pn sc = Inr profile"
    "\<forall>p. profile = Some p \<longrightarrow> (\<exists>n. bt_get n (cf_profiles c) = Some p)"
proof -
  have d: "cf_default_profile c = Some n \<Longrightarrow> bt_get n (cf_profiles c) \<noteq> None" for n
    using assms(1) by (simp add: validate_Inr)
  have "\<exists>profile. find_profile c pn sc = Inr profile \<and> (\<forall>p. profile = Some p \<longrightarrow> (\<exists>n. bt_get n (cf_profiles c) = Some p))"
  proof (cases pn)
    case (Some n)
    then show ?thesis using assms(2)
      by (auto simp: find_profile_def pick_profile_def or_else_def known_profile_def split: option.splits)
  next
    case None
    then show ?thesis using d
      by (cases "Option.bind sc sc_default_profile"; cases "cf_default_profile c")
        (auto simp: find_profile_def pick_profile_def or_else_def split: option.splits)
  qed
  then show thesis using that by blast
qed

lemma known_engine_found:
  assumes "validate c = Inr ()" "config_inv c" "known_engine c en"
    and p: "\<forall>p. profile = Some p \<longrightarrow> (\<exists>n. bt_get n (cf_profiles c) = Some p)"
  shows "\<exists>e. bt_get (case or_else (fst (effective_engine c en)) (or_else (Option.bind profile pf_engine) (cf_default_engine c)) of
       Some e \<Rightarrow> e | None \<Rightarrow> ''shell'') (cf_engines c) = Some e"
proof -
  have builtin: "n \<in> builtin_names \<Longrightarrow> \<exists>e. bt_get n (cf_engines c) = Some e" for n
    using assms(2) by (auto simp: config_inv_def)
  have pe: "\<exists>e. bt_get n (cf_engines c) = Some e" if q: "profile = Some q" "pf_engine q = Some n" for q n
  proof -
    obtain m where "bt_get m (cf_profiles c) = Some q" using p q(1) by blast
    then have "(m, q) \<in> set (cf_profiles c)" by (rule bt_get_in_set)
    then have "validate_profile (cf_engines c) (m, q) = Inr ()" using assms(1) by (auto simp: validate_Inr)
    then show ?thesis using q(2) by (auto simp: validate_profile_Inr)
  qed
  have de: "\<exists>n e. cf_default_engine c = Some n \<and> bt_get n (cf_engines c) = Some e"
    using assms(1,2) by (auto simp: validate_Inr config_inv_def)
  show ?thesis
  proof (cases en)
    case None
    then show ?thesis using pe de
      by (cases profile) (auto simp: effective_engine_def or_else_def split: option.splits)
  next
    case (Some n)
    then show ?thesis using assms(3) builtin shortcut_canonical
      by (auto simp: effective_engine_def or_else_def known_engine_def split: option.splits)
  qed
qed

text \<open>
  The engine a launch means: the one it names, under its present name if it was retired, else the
  one of the profile, else the default, else the shell.
\<close>

definition chosen_engine :: "config \<Rightarrow> string option \<Rightarrow> string option \<Rightarrow> string" where
  "chosen_engine c en pn =
     (let fallback = (case cf_default_engine c of Some e \<Rightarrow> e | None \<Rightarrow> ''shell'') in
      case fst (effective_engine c en) of
        Some e \<Rightarrow> e
      | None \<Rightarrow>
          (case find_profile c pn (snd (effective_engine c en)) of
             Inr (Some p) \<Rightarrow> (case pf_engine p of Some e \<Rightarrow> e | None \<Rightarrow> fallback)
           | _ \<Rightarrow> fallback))"

lemma chosen_engine_eq:
  "find_profile c pn (snd (effective_engine c en)) = Inr profile \<Longrightarrow>
     (case or_else (fst (effective_engine c en)) (or_else (Option.bind profile pf_engine) (cf_default_engine c)) of
       Some e \<Rightarrow> e | None \<Rightarrow> ''shell'') = chosen_engine c en pn"
  by (cases profile) (auto simp: chosen_engine_def or_else_def Let_def split: option.splits)

lemma resolve_known:
  assumes v: "validate c = Inr ()" and i: "config_inv c" and s: "cf_shell_error c = None \<or> chosen_engine c en pn \<noteq> ''shell''"
    and k: "known_engine c en" "known_profile c pn"
  obtains l where "resolve_launch h c [] en pn ws cwd ov no_limits None = Inr l" "runnable (ln_command l)"
proof -
  obtain eff sc where ee: "effective_engine c en = (eff, sc)" by (cases "effective_engine c en")
  obtain profile where p: "find_profile c pn sc = Inr profile"
    "\<forall>p. profile = Some p \<longrightarrow> (\<exists>n. bt_get n (cf_profiles c) = Some p)" using find_profile_known [OF v k(2)] .
  define sel where "sel = (case or_else eff (or_else (Option.bind profile pf_engine) (cf_default_engine c)) of
       Some e \<Rightarrow> e | None \<Rightarrow> ''shell'')"
  obtain e where e: "bt_get sel (cf_engines c) = Some e" using known_engine_found [OF v i k(1) p(2)] unfolding sel_def ee fst_conv by blast
  have "sel = chosen_engine c en pn" using chosen_engine_eq [of c pn en profile] p(1) by (simp add: ee sel_def)
  with s have s': "(case cf_shell_error c of Some e \<Rightarrow> if sel = ''shell'' then Inl e else Inr () | None \<Rightarrow> Inr ()) = Inr ()"
    by (auto split: option.split)
  have ve: "validate_engine (sel, e) = Inr ()" using v bt_get_in_set [OF e] by (auto simp: validate_Inr)
  have vp: "\<exists>m. validate_profile (cf_engines c) (m, q) = Inr ()" if "profile = Some q" for q
    using p(2) that v bt_get_in_set by (metis validate_Inr)
  obtain m where vm: "\<forall>q. profile = Some q \<longrightarrow> validate_profile (cf_engines c) (m, q) = Inr ()"
    using vp by (cases profile) auto
  have lim: "config_limits (merge_limits (case profile of Some q \<Rightarrow> pf_limits q | None \<Rightarrow> no_limits) no_limits) = Inr ()"
    using vm by (cases profile)
      (auto simp: merge_no_limits validate_profile_Inr, simp add: config_limits_def validate_limits_def no_limits_def)
  have hist: "(case or_else None (Option.bind profile pf_history_bytes) of Some n \<Rightarrow> n | None \<Rightarrow> DEFAULT_HISTORY_BYTES) \<le> MAX_HISTORY_BYTES"
    using vm by (cases profile) (auto simp: or_else_def validate_profile_Inr size_consts split: option.splits)
  define extra where "extra = (case sc of Some t \<Rightarrow> sc_model_args t | None \<Rightarrow> [])"
  have run: "runnable (build_argv [] e profile @ extra)" by (rule build_argv_runnable [OF ve vm])
  then have ne: "build_argv [] e profile @ extra \<noteq> []" by (simp add: runnable_def)
  have "\<exists>l. resolve_launch h c [] en pn ws cwd ov no_limits None = Inr l \<and> ln_command l = build_argv [] e profile @ extra"
    unfolding resolve_launch_def Let_def ee prod.case p(1) res_bind_simps sel_def [symmetric] s' e option.case
      extra_def [symmetric] lim
    using hist ne by (simp add: config_history_def validate_history_bytes_def)
  with run show thesis using that by metis
qed

text \<open>The account directory a launch falls back to for \<open>CODEX_HOME\<close>.\<close>

definition account_home :: "host \<Rightarrow> string \<Rightarrow> string option \<Rightarrow> string option" where
  "account_home h engine profile = Option.bind (hm_home h) (\<lambda>home.
     if engine = ''zcodex'' \<or> profile = Some ''zcodex'' then Some (path_join home ''.zcodex'')
     else if profile = Some ''codex-orin'' then Some (path_join home ''.codex-orin'') else None)"

lemma set_codex_home_get:
  "bt_get k (set_codex_home h w dir e) =
     or_else (bt_get k e) (if k = ''CODEX_HOME'' \<and> w then map_option (\<lambda>home. path_join home dir) (hm_home h) else None)"
  by (auto simp: set_codex_home_def or_else_def bt_get_insert split: option.splits)

lemma merged_env_get:
  assumes "bt_ok ov" "\<forall>p. profile = Some p \<longrightarrow> bt_ok (pf_env p)"
  shows "bt_get k (merged_env h sel selp engine profile ov) =
    or_else (bt_get k ov) (or_else (Option.bind profile (\<lambda>p. bt_get k (pf_env p)))
      (or_else (bt_get k (ec_env engine)) (if k = ''CODEX_HOME'' then account_home h sel selp else None)))"
proof -
  have p: "bt_get k (case profile of Some p \<Rightarrow> bt_extend (ec_env engine) (pf_env p) | None \<Rightarrow> ec_env engine) =
      or_else (Option.bind profile (\<lambda>p. bt_get k (pf_env p))) (bt_get k (ec_env engine))"
    using assms(2) by (cases profile) (simp_all add: bt_get_extend or_else_def)
  show ?thesis
    unfolding merged_env_def Let_def bt_get_extend [OF assms(1)] set_codex_home_get p
    by (auto simp: or_else_def account_home_def split: option.splits bind_splits)
qed

section \<open>Properties\<close>

text \<open>
  C28: A configuration that loads is usable: it is valid even after the shell engine has been
  replaced by the resolved shell, the retired engine name \<open>gemini\<close> is never in it, and every launch
  that names a configured or retired engine and a configured profile (or neither) resolves to the
  engine it means and a command with a non-empty executable; the name \<open>gemini\<close> resolves to
  \<open>antigravity\<close>. The one exception is a launch that means the shell when no shell could be found: it
  fails, with the reason the shell was not found, and a missing shell breaks no other launch.
\<close>

theorem loaded_config_launches:
  assumes "load_config tm h = Inr c" "toml_ok tm" "host_ok h"
    and "known_engine c en" "known_profile c pn"
  shows "validate c = Inr () \<and> bt_get ''gemini'' (cf_engines c) = None \<and>
    (if cf_shell_error c = None \<or> chosen_engine c en pn \<noteq> ''shell'' then
       \<exists>l. resolve_launch h c [] en pn ws cwd ov no_limits None = Inr l \<and>
         ln_command l \<noteq> [] \<and> hd (ln_command l) \<noteq> [] \<and> bt_get (ln_engine l) (cf_engines c) \<noteq> None \<and>
         ln_engine l = chosen_engine c en pn \<and> (en = Some ''gemini'' \<longrightarrow> ln_engine l = ''antigravity'')
     else \<exists>e. cf_shell_error c = Some e \<and> resolve_launch h c [] en pn ws cwd ov no_limits None = Inl e)"
proof -
  note v = validate_load [OF assms(1,3)] and i = config_inv_load [OF assms(1,2)]
  have g: "bt_get ''gemini'' (cf_engines c) = None" using i by (simp add: config_inv_def)
  show ?thesis
  proof (cases "cf_shell_error c = None \<or> chosen_engine c en pn \<noteq> ''shell''")
    case False
    from find_profile_known [OF v assms(5)] obtain profile
      where p: "find_profile c pn (snd (effective_engine c en)) = Inr profile" by metis
    obtain e where "cf_shell_error c = Some e" using False by auto
    moreover from this have "resolve_launch h c [] en pn ws cwd ov no_limits None = Inl e"
      using False chosen_engine_eq [OF p] p by (simp add: resolve_launch_def Let_def case_prod_beta)
    ultimately show ?thesis using v g False by auto
  next
    case True
    obtain l where l: "resolve_launch h c [] en pn ws cwd ov no_limits None = Inr l" "runnable (ln_command l)"
      using resolve_known [OF v i True assms(4,5)] .
    have "bt_get (ln_engine l) (cf_engines c) \<noteq> None" using resolve_launch_Inr [OF l(1)] by (metis option.distinct(1))
    moreover have "ln_engine l = ''antigravity''" if "en = Some ''gemini''"
    proof -
      have e: "fst (effective_engine c en) = Some ''antigravity''"
        using g that by (simp add: effective_engine_def deprecated_shortcut_engine_def)
      show ?thesis by (rule resolve_launch_Inr [OF l(1)]) (simp add: e or_else_def)
    qed
    moreover have "ln_engine l = chosen_engine c en pn"
      by (rule resolve_launch_Inr [OF l(1)]) (simp add: chosen_engine_eq)
    ultimately show ?thesis using v g l True by (auto simp: runnable_def)
  qed
qed

text \<open>
  The environment of a launch has one precedence: an explicit override, then the profile, then
  the engine, and for \<open>CODEX_HOME\<close> alone the account directory of the zcodex and codex-orin names,
  which never replaces a value that was set.
\<close>

theorem launch_env_precedence:
  assumes "resolve_launch h c direct en pn ws cwd ov lims hb = Inr l" "bt_ok ov"
    and "find_profile c pn (snd (effective_engine c en)) = Inr profile"
    and "\<forall>p. profile = Some p \<longrightarrow> bt_ok (pf_env p)"
    and "bt_get (ln_engine l) (cf_engines c) = Some engine"
  shows "bt_get k (ln_env l) =
    or_else (bt_get k ov) (or_else (Option.bind profile (\<lambda>p. bt_get k (pf_env p)))
      (or_else (bt_get k (ec_env engine)) (if k = ''CODEX_HOME'' then account_home h (ln_engine l) (ln_profile l) else None)))"
proof -
  have "ln_env l = merged_env h (ln_engine l) (ln_profile l) engine profile ov"
    using resolve_launch_Inr [OF assms(1)] assms(3,5) by (metis sum.inject(2) option.inject)
  then show ?thesis using merged_env_get [OF assms(2,4)] by simp
qed

section \<open>A sample installation\<close>

definition sample_host :: host where
  "sample_host = \<lparr> hm_home = Some ''/home/u'', hm_home_names = Some [''.zlaude''],
     hm_is_dir = (\<lambda>p. p = ''/home/u/.zlaude''), hm_is_file = (\<lambda>p. p = ''/home/u/.zlaude/settings.json''),
     hm_executable = (\<lambda>p. p = ''/bin/zsh''), hm_path = ''/usr/bin:/bin'', hm_login_shell = Some ''/bin/bash'',
     hm_aplexer_shell = None, hm_config_file = FileText ''user'' \<rparr>"

text \<open>A user file that still pins the retired engine, names a shell and adds an account profile.\<close>

definition sample_user :: config where
  "sample_user = \<lparr> cf_version = 1, cf_default_engine = Some ''gemini'', cf_default_profile = None,
     cf_engines = [(''gemini'', builtin_engine [''gemini''] [])],
     cf_profiles = [(''zcodex'', default_profile_config \<lparr> pf_engine := Some ''codex'', pf_env := [(''A'', ''p'')] \<rparr>)],
     cf_discovery = default_discovery, cf_keep_exited = False, cf_shell = Some (Argv [''zsh'']), cf_policy = None,
     cf_shell_selection = None, cf_shell_error = None \<rparr>"

definition sample_toml :: toml where
  "sample_toml = \<lparr> tm_header = (\<lambda>_. Some (1, False)), tm_config = (\<lambda>_. Some sample_user) \<rparr>"

lemma sample_toml_ok: "toml_ok sample_toml"
  by (simp add: toml_ok_def sample_toml_def sample_user_def bt_ok_def)

lemma sample_host_ok: "host_ok sample_host"
  by (simp add: host_ok_def sample_host_def)

definition sample_profile :: profile_config where
  "sample_profile = default_profile_config \<lparr> pf_engine := Some ''codex'', pf_env := [(''A'', ''p'')] \<rparr>"

definition sample_codex :: engine_config where
  "sample_codex = builtin_engine [''codex'', ''-c'', ''check_for_update_on_startup=false''] [''--dangerously-bypass-approvals-and-sandbox'']"

definition sample_zlaude :: profile_config where
  "sample_zlaude = default_profile_config \<lparr> pf_engine := Some ''claude'', pf_env := [(''CLAUDE_CONFIG_DIR'', ''/home/u/.zlaude'')] \<rparr>"

lemma sample_discover: "discover_profiles sample_host = [(''zlaude'', sample_zlaude)]"
proof -
  have "contains_text ''laude'' (to_lower ''.zlaude'')" "\<not> contains_text ''claude'' (to_lower ''.zlaude'')"
    "\<not> contains_text ''odex'' (to_lower ''.zlaude'')" "\<not> contains_text ''codex'' (to_lower ''.zlaude'')" by code_simp+
  then show ?thesis
    by (simp add: discover_profiles_def sample_host_def PROFILE_DISCOVERY_RULES_def discover_one_def has_marker_def
        path_join_def trim_start_dots_def starts_with_def sample_zlaude_def Let_def)
qed

lemma sample_shell:
  "select_shell sample_host None (Some (Argv [''zsh''])) None = Inr \<lparr> ss_argv = [''/bin/zsh''], ss_env = [], ss_source = FromConfigKey \<rparr>"
  by (simp add: select_shell_def validate_policy_def explicit_shell_def shell_tokens_def resolve_program_def which_in_def
      sample_host_def path_join_def build_shell_def)

lemma sample_load_config:
  obtains c where "load_config sample_toml sample_host = Inr c" "cf_shell_error c = None"
    "bt_get ''zcodex'' (cf_profiles c) = Some sample_profile" "bt_get ''codex'' (cf_engines c) = Some sample_codex"
proof -
  define c0 where "c0 = merge_config (initial_config sample_host) sample_user"
  have e: "bt_get n (cf_engines c0) = bt_get n (builtin_engines sample_host)" for n
    by (simp add: c0_def merge_config_def initial_config_def sample_user_def bt_remove_def bt_extend_def)
  have p: "cf_profiles c0 = [(''zcodex'', sample_profile), (''zlaude'', sample_zlaude)]"
    by (simp add: c0_def merge_config_def initial_config_def sample_discover sample_user_def bt_retain_def allows_def
        default_discovery_def bt_extend_def rename_gemini_def sample_profile_def)
  have d: "cf_default_engine c0 = Some ''antigravity''" "cf_default_profile c0 = None" "cf_shell c0 = Some (Argv [''zsh''])"
    "cf_policy c0 = None" "cf_shell_error c0 = None" "cf_engines c0 = builtin_engines sample_host"
    by (simp_all add: c0_def merge_config_def initial_config_def sample_user_def bt_remove_def bt_extend_def)
  have ve: "\<forall>x \<in> set (builtin_engines sample_host). validate_engine x = Inr ()"
    by (simp add: builtin_engines_def validate_engine_Inr builtin_engine_def default_shell_argv_def select_shell_def
        validate_policy_def default_shell_def sample_host_def)
  have b: "\<exists>e. bt_get n (cf_engines c0) = Some e" if "n \<in> builtin_names" for n
    using e builtin_engines_get [of n sample_host] that by auto
  have "validate c0 = Inr ()"
    unfolding validate_Inr p d using ve b [unfolded d]
    by (auto simp: validate_profile_Inr sample_profile_def sample_zlaude_def default_profile_config_def
        validate_profile_command_Inr config_limits_def validate_limits_def no_limits_def builtin_names_def)
  then have "load_config sample_toml sample_host = Inr (apply_shell c0 False sample_host None)"
  proof -
    have "hm_config_file sample_host = FileText ''user''" "hm_aplexer_shell sample_host = None"
      "tm_config sample_toml ''user'' = Some sample_user" "parse_header sample_toml ''user'' = Inr False"
      "bt_get ''shell'' (cf_engines sample_user) = None"
      by (simp_all add: sample_host_def sample_toml_def parse_header_def sample_user_def bt_get_def)
    moreover assume "validate c0 = Inr ()"
    ultimately show ?thesis by (simp add: load_config_def merge_user_file_def c0_def [symmetric])
  qed
  moreover obtain s where "bt_get ''shell'' (cf_engines c0) = Some s" using b [of "''shell''"] by (auto simp: builtin_names_def)
  moreover have "bt_get ''codex'' (cf_engines c0) = Some sample_codex"
    unfolding e by (simp add: builtin_engines_def bt_get_insert sample_codex_def del: bt_insert.simps)
  ultimately show thesis
    by (intro that [of "apply_shell c0 False sample_host None"])
      (simp_all add: apply_shell_def d sample_shell p bt_get_insert, simp add: bt_get_def)
qed

theorem loaded_config_launches_witness:
  "\<exists>c l. load_config sample_toml sample_host = Inr c \<and> ln_engine l = ''antigravity'' \<and>
     resolve_launch sample_host c [] (Some ''gemini'') (Some ''zcodex'') ''/w'' None [] no_limits None = Inr l \<and>
     hd (ln_command l) \<noteq> []"
proof -
  obtain c where c: "load_config sample_toml sample_host = Inr c" "cf_shell_error c = None"
    "bt_get ''zcodex'' (cf_profiles c) = Some sample_profile" by (rule sample_load_config)
  have "known_engine c (Some ''gemini'')" "known_profile c (Some ''zcodex'')"
    using c(3) by (simp_all add: known_engine_def known_profile_def deprecated_shortcut_engine_def)
  from loaded_config_launches [OF c(1) sample_toml_ok sample_host_ok this, of "''/w''" None "[]"] c(1,2) show ?thesis by auto
qed

lemma sample_resolve:
  obtains c l where "load_config sample_toml sample_host = Inr c"
    "resolve_launch sample_host c [] None (Some ''zcodex'') ws cwd ov no_limits None = Inr l"
    "find_profile c (Some ''zcodex'') (snd (effective_engine c None)) = Inr (Some sample_profile)"
    "bt_get ''codex'' (cf_engines c) = Some sample_codex" "ln_engine l = ''codex''" "ln_profile l = Some ''zcodex''"
proof -
  obtain c where c: "load_config sample_toml sample_host = Inr c" "cf_shell_error c = None"
    "bt_get ''zcodex'' (cf_profiles c) = Some sample_profile" "bt_get ''codex'' (cf_engines c) = Some sample_codex"
    by (rule sample_load_config)
  note v = validate_load [OF c(1) sample_host_ok] and i = config_inv_load [OF c(1) sample_toml_ok]
  have k: "known_engine c None" "known_profile c (Some ''zcodex'')" using c(3) by (simp_all add: known_engine_def known_profile_def)
  obtain l where l: "resolve_launch sample_host c [] None (Some ''zcodex'') ws cwd ov no_limits None = Inr l"
    using resolve_known [OF v i disjI1 [OF c(2)] k] by metis
  have f: "find_profile c (Some ''zcodex'') (snd (effective_engine c None)) = Inr (Some sample_profile)"
    using c(3) by (simp add: find_profile_def pick_profile_def or_else_def)
  have e: "ln_engine l = ''codex''" "ln_profile l = Some ''zcodex''"
    by (rule resolve_launch_Inr [OF l], use f in \<open>simp add: effective_engine_def or_else_def sample_profile_def pick_profile_def\<close>)+
  show thesis by (rule that [OF c(1) l f c(4) e])
qed

theorem launch_env_precedence_witness:
  "\<exists>c l. load_config sample_toml sample_host = Inr c \<and>
     resolve_launch sample_host c [] None (Some ''zcodex'') ''/w'' None [(''A'', ''o'')] no_limits None = Inr l \<and>
     bt_get ''A'' (ln_env l) = Some ''o'' \<and> bt_get ''CODEX_HOME'' (ln_env l) = Some ''/home/u/.zcodex''"
proof -
  obtain c l where c: "load_config sample_toml sample_host = Inr c"
    "resolve_launch sample_host c [] None (Some ''zcodex'') ''/w'' None [(''A'', ''o'')] no_limits None = Inr l"
    "find_profile c (Some ''zcodex'') (snd (effective_engine c None)) = Inr (Some sample_profile)"
    "bt_get ''codex'' (cf_engines c) = Some sample_codex" "ln_engine l = ''codex''" "ln_profile l = Some ''zcodex''"
    by (rule sample_resolve)
  have "bt_get k (ln_env l) = or_else (bt_get k [(''A'', ''o'')]) (or_else (bt_get k (pf_env sample_profile))
      (or_else (bt_get k (ec_env sample_codex)) (if k = ''CODEX_HOME'' then account_home sample_host ''codex'' (Some ''zcodex'') else None)))" for k
    using launch_env_precedence [OF c(2) _ c(3), of sample_codex k] c(4-6) by (simp add: bt_ok_def sample_profile_def)
  from this [of "''A''"] this [of "''CODEX_HOME''"] show ?thesis using c(1,2)
    by (auto simp: or_else_def bt_get_def sample_profile_def sample_codex_def builtin_engine_def account_home_def
        sample_host_def path_join_def)
qed

end
