(* ===== verification/Task_Time.thy ===== *)
theory Task_Time
  imports Rust_Std "HOL-Library.Signed_Division"
begin

text \<open>
  The clock of \<open>src/task.rs\<close>: the proleptic Gregorian calendar, the timestamps of task records
  and the cutoff that routes a launch to another engine. \<open>i64\<close> division truncates (\<open>sdiv\<close>);
  where a parsed year can take the arithmetic out of the range of \<open>i64\<close> it wraps, as in the
  release build.
\<close>

section \<open>The calendar\<close>

text \<open>Wrap-around of \<open>i64\<close>. It commutes with sums and products, so it is written where a value is
  compared or divided and at the end.\<close>

definition i64 :: "int \<Rightarrow> int" where
  "i64 x = signed_take_bit 63 x"

definition days_from_civil :: "int \<Rightarrow> int \<Rightarrow> int \<Rightarrow> int" where
  "days_from_civil y m d =
     (let y = (if m \<le> 2 then i64 (y - 1) else y);
          era = (if 0 \<le> y then y else i64 (y - 399)) sdiv 400;
          yoe = i64 (y - era * 400);
          mp = (m + 9) mod 12;
          doy = (153 * mp + 2) sdiv 5 + d - 1;
          doe = yoe * 365 + yoe sdiv 4 - yoe sdiv 100 + doy
      in i64 (era * 146097 + doe - 719468))"

definition civil_from_days :: "int \<Rightarrow> int \<times> int \<times> int" where
  "civil_from_days z =
     (let z = z + 719468;
          era = (if 0 \<le> z then z else z - 146096) sdiv 146097;
          doe = z - era * 146097;
          yoe = (doe - doe sdiv 1460 + doe sdiv 36524 - doe sdiv 146096) sdiv 365;
          y = yoe + era * 400;
          doy = doe - (365 * yoe + yoe sdiv 4 - yoe sdiv 100);
          mp = (5 * doy + 2) sdiv 153;
          d = doy - (153 * mp + 2) sdiv 5 + 1;
          m = (if mp < 10 then mp + 3 else mp - 9)
      in (if m \<le> 2 then y + 1 else y, m, d))"

section \<open>Timestamps\<close>

text \<open>A timestamp is rejected, or the parser stops on a slice that is not at a character boundary.\<close>

datatype time_error = BadTimestamp | Panic

definition parse_date :: "string \<Rightarrow> (int \<times> nat \<times> nat) option" where
  "parse_date date =
     (case split_on (CHR ''-'') date of
        [ys, ms, ds] \<Rightarrow>
          (case (parse_i64 ys, parse_u32 ms, parse_u32 ds) of
             (Some y, Some m, Some d) \<Rightarrow>
               if m < 1 \<or> 12 < m \<or> d < 1 \<or> 31 < d then None else Some (y, m, d)
           | _ \<Rightarrow> None)
      | _ \<Rightarrow> None)"

definition split_offset :: "string \<Rightarrow> (string \<times> string) option" where
  "split_offset rest =
     (if rest \<noteq> [] \<and> last rest \<in> {CHR ''Z'', CHR ''z''} then Some (butlast rest, ''Z'')
      else let body = takeWhile (\<lambda>c. c \<noteq> CHR ''+'' \<and> c \<noteq> CHR ''-'') (rev rest) in
        if length body = length rest then None
        else let index = length rest - length body - 1 in
          if index = 0 then None else Some (take index rest, drop index rest))"

definition parse_time :: "string \<Rightarrow> (nat \<times> nat \<times> nat) option" where
  "parse_time time =
     (let (clock, fraction) = (case split_once (CHR ''.'') time of
            Some (clock, fraction) \<Rightarrow> (clock, Some fraction) | None \<Rightarrow> (time, None)) in
      if (case fraction of Some f \<Rightarrow> f = [] \<or> \<not> list_all is_digit (ascii f) | None \<Rightarrow> False) then None
      else (case split_on (CHR '':'') clock of
          [hs, ms, ss] \<Rightarrow>
            (case (parse_u32 hs, parse_u32 ms, parse_u32 ss) of
               (Some hh, Some mm, Some s) \<Rightarrow>
                 if 23 < hh \<or> 59 < mm \<or> 60 < s then None else Some (hh, mm, s)
             | _ \<Rightarrow> None)
        | _ \<Rightarrow> None))"

text \<open>A byte that continues a character; \<open>body[..2]\<close> panics before one.\<close>

definition continuation :: "char \<Rightarrow> bool" where
  "continuation c \<longleftrightarrow> 128 \<le> (of_char c :: nat) \<and> (of_char c :: nat) < 192"

definition offset_fields :: "string \<Rightarrow> time_error + (string \<times> string)" where
  "offset_fields body =
     (case split_once (CHR '':'') body of
        Some (hh, mm) \<Rightarrow> Inr (hh, mm)
      | None \<Rightarrow> if length body = 4 then
                  if continuation (body ! 2) then Inl Panic else Inr (take 2 body, drop 2 body)
                else Inl BadTimestamp)"

definition offset_seconds :: "string \<Rightarrow> time_error + int" where
  "offset_seconds offset =
     (if offset = ''Z'' \<or> offset = ''z'' then Inr 0
      else case offset of
        [] \<Rightarrow> Inl Panic
      | s # body \<Rightarrow>
          if s \<noteq> CHR ''+'' \<and> s \<noteq> CHR ''-'' then Inl BadTimestamp
          else res_bind (offset_fields body) (\<lambda>(hs, ms).
            case (parse_i64 hs, parse_i64 ms) of
              (Some hh, Some mm) \<Rightarrow>
                if 23 < hh \<or> 59 < mm then Inl BadTimestamp
                else Inr (i64 ((if s = CHR ''+'' then 1 else - 1) * (hh * 3600 + mm * 60)))
            | _ \<Rightarrow> Inl BadTimestamp))"

definition ok_or_bad :: "'a option \<Rightarrow> time_error + 'a" where
  "ok_or_bad x = (case x of Some a \<Rightarrow> Inr a | None \<Rightarrow> Inl BadTimestamp)"

definition parse_offset_timestamp :: "string \<Rightarrow> time_error + nat" where
  "parse_offset_timestamp raw =
     (let raw = trim_utf8 raw in
      res_bind (ok_or_bad (case split_once (CHR ''T'') raw of Some p \<Rightarrow> Some p | None \<Rightarrow> split_once (CHR ''t'') raw))
        (\<lambda>(date, rest).
      res_bind (ok_or_bad (parse_date date)) (\<lambda>(y, m, d).
      res_bind (ok_or_bad (split_offset rest)) (\<lambda>(time, offset).
      res_bind (ok_or_bad (parse_time time)) (\<lambda>(hh, mm, ss).
      res_bind (offset_seconds offset) (\<lambda>offset_secs.
        let days = days_from_civil y (int m) (int d);
            secs = i64 (days * 86400 + int hh * 3600 + int mm * 60 + int ss - offset_secs)
        in if 0 \<le> secs then Inr (nat secs) else Inl BadTimestamp))))))"

definition rfc3339_utc :: "nat \<Rightarrow> string" where
  "rfc3339_utc ms =
     (let secs = ms div 1000;
          millis = ms mod 1000;
          days = secs div 86400;
          tod = secs mod 86400;
          (y, m, d) = civil_from_days (int days)
      in pad_int 4 y @ ''-'' @ pad_int 2 m @ ''-'' @ pad_int 2 d @ ''T'' @ pad 2 (tod div 3600) @ '':'' @
         pad 2 (tod mod 3600 div 60) @ '':'' @ pad 2 (tod mod 60) @ ''.'' @ pad 3 millis @ ''Z'')"

section \<open>Engine routing\<close>

datatype route_error = TimeError time_error | CutoffNeedsEngine | EngineNeedsCutoff

definition route_engine :: "string \<Rightarrow> string option \<Rightarrow> string option \<Rightarrow> nat \<Rightarrow> route_error + string" where
  "route_engine engine cutoff cutoff_engine now =
     (case (cutoff, cutoff_engine) of
        (None, None) \<Rightarrow> Inr engine
      | (Some c, Some ce) \<Rightarrow>
          (case parse_offset_timestamp c of
             Inl e \<Rightarrow> Inl (TimeError e)
           | Inr cutoff_secs \<Rightarrow> if cutoff_secs \<le> now div 1000 then Inr ce else Inr engine)
      | (Some _, None) \<Rightarrow> Inl CutoffNeedsEngine
      | (None, Some _) \<Rightarrow> Inl EngineNeedsCutoff)"

section \<open>The calendar is the Gregorian calendar\<close>

text \<open>The calendar as it is defined: the length of a month.\<close>

definition leap :: "int \<Rightarrow> bool" where
  "leap y \<longleftrightarrow> y mod 4 = 0 \<and> (y mod 100 \<noteq> 0 \<or> y mod 400 = 0)"

definition month_days :: "int \<Rightarrow> int \<Rightarrow> int" where
  "month_days y m = (if m = 2 then (if leap y then 29 else 28) else if m \<in> {4, 6, 9, 11} then 30 else 31)"

definition valid_date :: "int \<times> int \<times> int \<Rightarrow> bool" where
  "valid_date = (\<lambda>(y, m, d). 1 \<le> m \<and> m \<le> 12 \<and> 1 \<le> d \<and> d \<le> month_days y m)"

lemma sdiv_pos: "0 \<le> a \<Longrightarrow> 0 < b \<Longrightarrow> (a :: int) sdiv b = a div b"
  by (cases "a = 0") (simp_all add: signed_divide_int_def)

lemma sdiv_floor:
  assumes "0 < b"
  shows "(if 0 \<le> a then a else a - (b - 1)) sdiv b = (a :: int) div b"
proof (cases "0 \<le> a")
  case False
  then have "(a - (b - 1)) sdiv b = - ((b - 1 - a) div b)"
    using assms by (simp add: signed_divide_int_def abs_if sgn_if algebra_simps)
  also have "\<dots> = a div b"
  proof -
    have a: "a = b * (a div b) + a mod b" "0 \<le> a mod b" "a mod b < b" using assms by simp_all
    then have "b - 1 - a = b * (- (a div b)) + (b - 1 - a mod b)" "0 \<le> b - 1 - a mod b" "b - 1 - a mod b < b" by (simp_all add: algebra_simps)
    then have "(b - 1 - a) div b = - (a div b)" by (metis div_pos_pos_trivial add.commute assms div_mult_self2 add_0_right order_less_irrefl)
    then show ?thesis by simp
  qed
  finally show ?thesis using False by simp
qed (use assms in \<open>simp add: sdiv_pos\<close>)

lemma era_sdiv:
  fixes x :: int
  assumes "0 \<le> x" "x < b" "c = b - 1"
  shows "(if 0 \<le> x + e * b then x + e * b else x + e * b - c) sdiv b = e"
proof -
  have "0 < b" using assms by simp
  then show ?thesis unfolding assms(3) sdiv_floor [OF \<open>0 < b\<close>] using assms by simp
qed

lemma i64_id: "- 9223372036854775808 \<le> x \<Longrightarrow> x < 9223372036854775808 \<Longrightarrow> i64 x = x"
  unfolding i64_def by (rule signed_take_bit_int_eq_self) simp_all

lemma div_mod_add:
  fixes x :: int
  assumes "0 \<le> x" "x < k"
  shows "(x + c * k) div k = c" "(x + c * k) mod k = x"
  using assms by simp_all

text \<open>The first day of year \<open>n\<close> of a 400-year era, years starting in March.\<close>

definition year_start :: "int \<Rightarrow> int" where
  "year_start n = 365 * n + n div 4 - n div 100"

definition year_len :: "int \<Rightarrow> int" where
  "year_len n = (if (n + 1) mod 4 = 0 \<and> ((n + 1) mod 100 \<noteq> 0 \<or> n = 399) then 366 else 365)"

definition year_of_doe :: "int \<Rightarrow> int" where
  "year_of_doe doe = (doe - doe div 1460 + doe div 36524 - doe div 146096) div 365"

lemma year_split:
  fixes n :: int
  assumes "0 \<le> n" "n \<le> 399"
  obtains a b r where "n = 100 * b + 4 * a + r" "0 \<le> b" "b \<le> 3" "0 \<le> a" "a \<le> 24" "0 \<le> r" "r \<le> 3"
    "n div 4 = 25 * b + a" "n div 100 = b"
proof
  define m where "m = n mod 100"
  have n: "n = 100 * (n div 100) + m" "0 \<le> m" "m < 100" by (simp_all add: m_def)
  have m: "m = 4 * (m div 4) + m mod 4" by simp
  show "n = 100 * (n div 100) + 4 * (m div 4) + m mod 4" using n(1) m by simp
  show "0 \<le> n div 100" "n div 100 \<le> 3" using assms by simp_all
  show "0 \<le> m div 4" "m div 4 \<le> 24" "0 \<le> m mod 4" using n by simp_all
  show "m mod 4 \<le> 3" using pos_mod_bound [of 4 m] by simp
  have "n = m + (25 * (n div 100)) * 4" using n(1) by simp
  then have "n div 4 = m div 4 + 25 * (n div 100)" by (metis div_mult_self1 zero_neq_numeral add.commute)
  then show "n div 4 = 25 * (n div 100) + m div 4" by simp
qed simp

lemma year_of_doe_start:
  assumes n: "0 \<le> n" "n \<le> 399" and k: "0 \<le> k" "k < year_len n"
  shows "year_of_doe (year_start n + k) = n"
proof -
  obtain a b r where s: "n = 100 * b + 4 * a + r" "0 \<le> b" "b \<le> 3" "0 \<le> a" "a \<le> 24" "0 \<le> r" "r \<le> 3"
    "n div 4 = 25 * b + a" "n div 100 = b" using year_split [OF n] by blast
  let ?doe = "year_start n + k"
  have doe: "?doe = 36524 * b + 1461 * a + 365 * r + k" unfolding year_start_def s(8,9) using s(1) by simp
  have k365: "k \<le> 365 \<and> (k = 365 \<longrightarrow> r = 3 \<and> (a = 24 \<longrightarrow> b = 3))"
  proof -
    have "(n + 1) mod 4 = (r + 1) mod 4"
    proof -
      have "n + 1 = (r + 1) + (25 * b + a) * 4" using s(1) by simp
      then show ?thesis by (simp only: mod_mult_self1)
    qed
    then have "(n + 1) mod 4 = 0 \<Longrightarrow> r = 3" using s(6,7) by (cases "r = 3") (simp_all add: mod_pos_pos_trivial)
    moreover have "(n + 1) mod 100 \<noteq> 0 \<or> n = 399 \<Longrightarrow> r = 3 \<Longrightarrow> a = 24 \<Longrightarrow> b = 3"
    proof -
      assume n': "(n + 1) mod 100 \<noteq> 0 \<or> n = 399" and ra: "r = 3" "a = 24"
      then have "n + 1 = (b + 1) * 100" using s(1) by simp
      then have "(n + 1) mod 100 = 0" by (simp only: mod_mult_self2_is_0)
      with n' show "b = 3" using ra s(1) by simp
    qed
    ultimately show ?thesis using k(2) unfolding year_len_def by (auto split: if_splits)
  qed
  have 1: "?doe div 36524 - ?doe div 146096 = b"
  proof (cases "b = 3 \<and> a = 24 \<and> r = 3 \<and> k = 365")
    case True
    then show ?thesis unfolding doe by simp
  next
    case False
    have lo: "0 \<le> 1461 * a + 365 * r + k" using s k(1) by simp
    have "1461 * a + 365 * r + k < 36524 \<or> b = 3 \<and> a = 24 \<and> r = 3 \<and> k = 365"
      using s(5,7) k365 by (cases "k = 365") auto
    with False have hi: "1461 * a + 365 * r + k < 36524" by blast
    have "?doe = (1461 * a + 365 * r + k) + b * 36524" unfolding doe by simp
    then have "?doe div 36524 = b" using lo hi by simp
    moreover have "?doe div 146096 = 0" using lo hi s(2,3) unfolding doe by simp
    ultimately show ?thesis by simp
  qed
  let ?e = "24 * b + a + 365 * r + k"
  have 2: "?doe div 1460 = 25 * b + a + ?e div 1460"
  proof -
    have "?doe = 1460 * (25 * b + a) + ?e" unfolding doe by simp
    then show ?thesis by simp
  qed
  have "?doe - ?doe div 1460 + ?doe div 36524 - ?doe div 146096 = 365 * n + (k - ?e div 1460)"
    using 1 2 doe s(1) by simp
  moreover have "0 \<le> k - ?e div 1460" "k - ?e div 1460 < 365"
  proof -
    have lo: "0 \<le> ?e" "?e < 2920" using s(2-7) k(1) k365 by linarith+
    have "?e div 1460 = (if ?e < 1460 then 0 else 1)" using lo by (simp add: div_pos_geq)
    moreover have "1460 \<le> ?e" if "k = 365" using that k365 s(2,4) by simp
    moreover have "1 \<le> k" if "1460 \<le> ?e" using that s(3,5,7) by simp
    moreover have "k \<le> 365" using k365 by blast
    ultimately show "0 \<le> k - ?e div 1460" "k - ?e div 1460 < 365"
      using k(1) by (cases "?e < 1460"; cases "k = 365"; simp)+
  qed
  ultimately show ?thesis unfolding year_of_doe_def
    using div_mod_add(1) [of "k - ?e div 1460" 365 n] by (simp only: add.commute mult.commute)
qed

lemma year_start_Suc:
  assumes "0 \<le> n" "n < 399"
  shows "year_start (n + 1) = year_start n + year_len n"
proof -
  obtain a b r where s: "n = 100 * b + 4 * a + r" "0 \<le> b" "b \<le> 3" "0 \<le> a" "a \<le> 24" "0 \<le> r" "r \<le> 3"
    "n div 4 = 25 * b + a" "n div 100 = b" using year_split [of n] assms by (metis less_imp_le)
  consider "r < 3" | "r = 3" "a < 24" | "r = 3" "a = 24" using s by linarith
  then show ?thesis
  proof cases
    case 1
    have n4: "n + 1 = (r + 1) + (25 * b + a) * 4" and n100: "n + 1 = (4 * a + r + 1) + b * 100" using s(1) by simp_all
    have "(n + 1) div 4 = 25 * b + a" "(n + 1) mod 4 = r + 1" unfolding n4 by (rule div_mod_add; use 1 s(6) in simp)+
    moreover have "(n + 1) div 100 = b" unfolding n100 by (rule div_mod_add; use 1 s in simp)
    ultimately show ?thesis using 1 s by (simp add: year_start_def year_len_def)
  next
    case 2
    have n4: "n + 1 = (25 * b + a + 1) * 4" and n100: "n + 1 = (4 * a + 4) + b * 100" using s(1) 2 by simp_all
    have "(n + 1) div 4 = 25 * b + a + 1" "(n + 1) mod 4 = 0" unfolding n4 by simp_all
    moreover have "(n + 1) div 100 = b" "(n + 1) mod 100 = 4 * a + 4"
      unfolding n100 by (rule div_mod_add; use 2 s in simp)+
    ultimately show ?thesis using 2 s by (simp add: year_start_def year_len_def)
  next
    case 3
    have n100: "n + 1 = (b + 1) * 100" using s(1) 3 by simp
    have n4: "n + 1 = (25 * (b + 1)) * 4" using s(1) 3 by simp
    have "(n + 1) div 4 = 25 * (b + 1)" unfolding n4 by simp
    moreover have "(n + 1) div 100 = b + 1" "(n + 1) mod 100 = 0" unfolding n100 by simp_all
    ultimately show ?thesis using 3 s assms by (simp add: year_start_def year_len_def)
  qed
qed

lemma year_exists:
  assumes "0 \<le> doe" "doe < 146097"
  obtains n k where "0 \<le> n" "n \<le> 399" "0 \<le> k" "k < year_len n" "doe = year_start n + k"
proof -
  have "\<exists>n. 0 \<le> n \<and> n \<le> int m \<and> year_start n \<le> doe \<and> doe < year_start n + year_len n"
    if "m \<le> 399" "doe < year_start (int m) + year_len (int m)" for m
    using that
  proof (induction m)
    case 0
    then show ?case using assms by (intro exI [of _ 0]) (simp add: year_start_def)
  next
    case (Suc m)
    show ?case
    proof (cases "doe < year_start (int m) + year_len (int m)")
      case True
      with Suc.IH Suc.prems show ?thesis by force
    next
      case False
      with Suc.prems year_start_Suc [of "int m"] show ?thesis
        by (intro exI [of _ "int (Suc m)"]) (simp add: algebra_simps)
    qed
  qed
  moreover have "doe < year_start (int 399) + year_len (int 399)"
    using assms(2) by (simp add: year_start_def year_len_def)
  ultimately obtain n where "0 \<le> n" "n \<le> int 399" "year_start n \<le> doe" "doe < year_start n + year_len n" by blast
  then show thesis by (intro that [of n "doe - year_start n"]) simp_all
qed

lemma div_5_bounds: "5 * (x div 5) \<le> x \<and> x < 5 * (x div 5) + (5 :: int)"
  using pos_mod_sign [of 5 x] pos_mod_bound [of 5 x] mult_div_mod_eq [of 5 x] by linarith

lemma month_of_doy:
  fixes mp d :: int
  assumes "1 \<le> d" "(153 * mp + 2) div 5 + d \<le> (153 * (mp + 1) + 2) div 5"
  shows "(5 * ((153 * mp + 2) div 5 + d - 1) + 2) div 153 = mp"
proof -
  define q q' where "q = (153 * mp + 2) div 5" and "q' = (153 * (mp + 1) + 2) div 5"
  have q: "153 * mp - 2 \<le> 5 * q" "5 * q' \<le> 153 * mp + 155" 
    unfolding q_def q'_def using div_5_bounds [of "153 * mp + 2"] div_5_bounds [of "153 * (mp + 1) + 2"]
    by (simp_all add: algebra_simps)
  have d: "q + d \<le> q'" using assms(2) by (simp add: q_def q'_def)
  have "((5 * (q + d - 1) + 2 - mp * 153) + mp * 153) div 153 = mp"
    by (rule div_mod_add(1)) (use q d assms(1) in \<open>simp_all add: algebra_simps\<close>)
  then have "(5 * (q + d - 1) + 2) div 153 = mp" by (simp only: diff_add_cancel)
  then show ?thesis by (simp only: q_def)
qed

text \<open>The month and the day of a day of the year, counted from March.\<close>

lemma doy_month:
  fixes doy :: int
  assumes "0 \<le> doy" "doy \<le> 365"
  defines "mp \<equiv> (5 * doy + 2) div 153"
  shows "0 \<le> mp" "mp \<le> 11" "(153 * mp + 2) div 5 \<le> doy" "doy < (153 * (mp + 1) + 2) div 5"
proof -
  have m: "153 * mp \<le> 5 * doy + 2" "5 * doy + 2 < 153 * mp + 153"
    unfolding mp_def using pos_mod_sign [of 153 "5 * doy + 2"] pos_mod_bound [of 153 "5 * doy + 2"]
      mult_div_mod_eq [of 153 "5 * doy + 2"] by linarith+
  show "0 \<le> mp" "mp \<le> 11" using m assms(1,2) by linarith+
  show "(153 * mp + 2) div 5 \<le> doy" "doy < (153 * (mp + 1) + 2) div 5" 
    using m div_5_bounds [of "153 * mp + 2"] div_5_bounds [of "153 * (mp + 1) + 2"]
    by (simp_all add: algebra_simps)
qed

lemma doe_bounds:
  assumes "0 \<le> n" "n \<le> 399" "0 \<le> k" "k < year_len n"
  shows "0 \<le> year_start n + k" "year_start n + k < 146097"
proof -
  obtain a b r where s: "n = 100 * b + 4 * a + r" "0 \<le> b" "b \<le> 3" "0 \<le> a" "a \<le> 24" "0 \<le> r" "r \<le> 3"
    "n div 4 = 25 * b + a" "n div 100 = b" using year_split [OF assms(1,2)] by blast
  have "year_start n = 36524 * b + 1461 * a + 365 * r" unfolding year_start_def s(8,9) using s(1) by simp
  moreover have "k \<le> 365" using assms(4) by (simp add: year_len_def split: if_splits)
  ultimately show "0 \<le> year_start n + k" "year_start n + k < 146097" using s assms(3) by linarith+
qed

text \<open>Both functions in terms of the era, the year of the era, the month from March and the day.\<close>

lemma year_of_doe_sdiv:
  assumes "0 \<le> doe"
  shows "(doe - doe sdiv 1460 + doe sdiv 36524 - doe sdiv 146096) sdiv 365 = year_of_doe doe"
proof -
  have "doe div 1460 \<le> doe" using zdiv_mono2 [of doe 1 1460] assms by simp
  moreover have "doe div 146096 \<le> doe div 36524" using assms by (intro zdiv_mono2) simp_all
  ultimately have "0 \<le> doe - doe div 1460 + doe div 36524 - doe div 146096" by linarith
  with assms show ?thesis by (simp add: sdiv_pos year_of_doe_def)
qed

lemma civil_eq:
  fixes z :: int
  assumes z: "z + 719468 = era * 146097 + (year_start n + ((153 * mp + 2) div 5 + d - 1))"
    and n: "0 \<le> n" "n \<le> 399" and mp: "0 \<le> mp" "mp \<le> 11"
    and d: "1 \<le> d" "(153 * mp + 2) div 5 + d \<le> (153 * (mp + 1) + 2) div 5"
    and len: "(153 * mp + 2) div 5 + d - 1 < year_len n"
  shows "civil_from_days z =
    (n + era * 400 + (if 10 \<le> mp then 1 else 0), if mp < 10 then mp + 3 else mp - 9, d)"
proof -
  define q where "q = (153 * mp + 2) div 5"
  have q0: "0 \<le> q" using mp unfolding q_def by simp
  define doe where "doe = year_start n + (q + d - 1)"
  have doy0: "0 \<le> q + d - 1" using q0 d by simp
  note len' = len [folded q_def]
  have doe: "0 \<le> doe" "doe < 146097" using doe_bounds [OF n doy0 len'] unfolding doe_def by simp_all
  have era: "(if 0 \<le> z + 719468 then z + 719468 else z + 719468 - 146096) sdiv 146097 = era"
  proof -
    have "z + 719468 = doe + era * 146097" using z [folded q_def, folded doe_def] by simp
    then show ?thesis by (simp only:) (rule era_sdiv; use doe in simp)
  qed
  have z': "z + 719468 - era * 146097 = doe" using z [folded q_def, folded doe_def] by simp
  have yoe: "(doe - doe sdiv 1460 + doe sdiv 36524 - doe sdiv 146096) sdiv 365 = n"
    unfolding year_of_doe_sdiv [OF doe(1)] unfolding doe_def by (rule year_of_doe_start [OF n doy0 len'])
  have doy: "doe - (365 * n + n sdiv 4 - n sdiv 100) = q + d - 1"
    using n by (simp add: doe_def year_start_def sdiv_pos)
  have mpe: "(5 * (q + d - 1) + 2) sdiv 153 = mp"
    using month_of_doy [OF d] doy0 unfolding q_def by (simp add: sdiv_pos)
  have de: "(153 * mp + 2) sdiv 5 = q" using mp by (simp add: q_def sdiv_pos)
  show ?thesis
    unfolding civil_from_days_def Let_def era z' yoe doy mpe de using mp by auto
qed

lemma days_eq:
  assumes n: "0 \<le> n" "n \<le> 399" and mp: "0 \<le> mp" "mp \<le> 11"
    and era: "\<bar>era\<bar> \<le> 1000000000000" and d: "\<bar>d\<bar> \<le> 4294967296"
  shows "days_from_civil (n + era * 400 + (if 10 \<le> mp then 1 else 0)) (if mp < 10 then mp + 3 else mp - 9) d =
    era * 146097 + (year_start n + ((153 * mp + 2) div 5 + d - 1)) - 719468"
proof -
  let ?y = "n + era * 400" and ?m = "if mp < 10 then mp + 3 else mp - 9"
  let ?Y = "?y + (if 10 \<le> mp then 1 else 0)"
  have y: "(if ?m \<le> 2 then i64 (?Y - 1) else ?Y) = ?y"
    using mp n era by (simp add: i64_id)
  have "(if 0 \<le> ?y then ?y else i64 (?y - 399)) = (if 0 \<le> ?y then ?y else ?y - 399)"
    using n era by (simp add: i64_id)
  then have e: "(if 0 \<le> ?y then ?y else i64 (?y - 399)) sdiv 400 = era"
    using era_sdiv [of n 400 399 era] n by simp
  have yoe: "i64 (?y - era * 400) = n" using n by (simp add: i64_id)
  have m: "(?m + 9) mod 12 = mp" using mp by (auto simp: mod_pos_pos_trivial)
  have q: "(153 * mp + 2) sdiv 5 = (153 * mp + 2) div 5" using mp by (simp add: sdiv_pos)
  have "0 \<le> n div 4" "n div 4 \<le> 399" "0 \<le> n div 100" "n div 100 \<le> 399" "0 \<le> (153 * mp + 2) div 5" "(153 * mp + 2) div 5 \<le> 2000"
    using n mp zdiv_mono2 [of n 1 4] zdiv_mono2 [of n 1 100] zdiv_mono2 [of "153 * mp + 2" 1 5] by simp_all
  then have "i64 (era * 146097 + (year_start n + ((153 * mp + 2) div 5 + d - 1)) - 719468) =
      era * 146097 + (year_start n + ((153 * mp + 2) div 5 + d - 1)) - 719468"
    unfolding year_start_def by (intro i64_id) (use n era d in linarith)+
  then show ?thesis unfolding days_from_civil_def Let_def y e yoe m q
    using n by (simp add: year_start_def sdiv_pos algebra_simps)
qed

text \<open>Every day number has a date.\<close>

lemma day_cases:
  fixes z :: int
  obtains era n mp d where "z + 719468 = era * 146097 + (year_start n + ((153 * mp + 2) div 5 + d - 1))"
    "0 \<le> n" "n \<le> 399" "0 \<le> mp" "mp \<le> 11" "1 \<le> d" "(153 * mp + 2) div 5 + d \<le> (153 * (mp + 1) + 2) div 5"
    "(153 * mp + 2) div 5 + d - 1 < year_len n"
proof -
  define era doe where "era = (z + 719468) div 146097" and "doe = (z + 719468) mod 146097"
  have z: "z + 719468 = era * 146097 + doe" "0 \<le> doe" "doe < 146097" by (simp_all add: era_def doe_def)
  obtain n doy where n: "0 \<le> n" "n \<le> 399" "0 \<le> doy" "doy < year_len n" "doe = year_start n + doy"
    using year_exists [OF z(2,3)] .
  have "doy \<le> 365" using n(4) by (simp add: year_len_def split: if_splits)
  note m = doy_month [OF n(3) this]
  define mp where "mp = (5 * doy + 2) div 153"
  show thesis
    by (rule that [of era n mp "doy - (153 * mp + 2) div 5 + 1"])
      (use z n m [folded mp_def] in \<open>simp_all add: algebra_simps\<close>)
qed

lemma civil_roundtrip:
  assumes "\<bar>z\<bar> \<le> 1000000000000"
  shows "(case civil_from_days z of (y, m, d) \<Rightarrow> days_from_civil y m d) = z"
proof -
  obtain era n mp d where c: "z + 719468 = era * 146097 + (year_start n + ((153 * mp + 2) div 5 + d - 1))"
    "0 \<le> n" "n \<le> 399" "0 \<le> mp" "mp \<le> 11" "1 \<le> d" "(153 * mp + 2) div 5 + d \<le> (153 * (mp + 1) + 2) div 5"
    "(153 * mp + 2) div 5 + d - 1 < year_len n" using day_cases .
  have q: "0 \<le> (153 * mp + 2) div 5" "(153 * (mp + 1) + 2) div 5 \<le> 2000"
    using c(4,5) zdiv_mono2 [of "153 * (mp + 1) + 2" 1 5] by simp_all
  then have d: "\<bar>d\<bar> \<le> 4294967296" using c(6,7) by linarith
  have "0 \<le> (153 * mp + 2) div 5 + d - 1" using c(6) q by simp
  note b = doe_bounds [OF c(2,3) this c(8)]
  have "\<bar>era\<bar> \<le> 1000000000000" using b c(1) assms by linarith
  then show ?thesis
    unfolding civil_eq [OF c] prod.case using days_eq [OF c(2-5) _ d] c(1) by (simp only:)
qed

lemma leap_year_len:
  fixes n :: int
  assumes "0 \<le> n" "n \<le> 399"
  shows "leap (n + era * 400 + 1) \<longleftrightarrow> year_len n = 366"
proof -
  have e: "n + era * 400 + 1 = (n + 1) + (era * 100) * 4" "n + era * 400 + 1 = (n + 1) + (era * 4) * 100"
    "n + era * 400 + 1 = (n + 1) + era * 400" by simp_all
  have m4: "(n + era * 400 + 1) mod 4 = (n + 1) mod 4" unfolding e(1) by (simp only: mod_mult_self1)
  have m100: "(n + era * 400 + 1) mod 100 = (n + 1) mod 100" unfolding e(2) by (simp only: mod_mult_self1)
  have "(n + era * 400 + 1) mod 400 = (n + 1) mod 400" unfolding e(3) by (simp only: mod_mult_self1)
  moreover have "(n + 1) mod 400 = 0 \<longleftrightarrow> n = 399"
    using assms by (cases "n = 399") (simp_all add: mod_pos_pos_trivial)
  ultimately show ?thesis unfolding leap_def year_len_def m4 m100 by auto
qed

text \<open>The dates of a month are the days between its start and the next one's, inside the year.\<close>

lemma valid_date_form:
  fixes n :: int
  assumes n: "0 \<le> n" "n \<le> 399" and mp: "0 \<le> mp" "mp \<le> 11"
  shows "valid_date (n + era * 400 + (if 10 \<le> mp then 1 else 0), if mp < 10 then mp + 3 else mp - 9, d) \<longleftrightarrow>
    1 \<le> d \<and> (153 * mp + 2) div 5 + d \<le> (153 * (mp + 1) + 2) div 5 \<and> (153 * mp + 2) div 5 + d - 1 < year_len n"
proof -
  have l: "year_len n = (if leap (n + era * 400 + 1) then 366 else 365)"
    using leap_year_len [OF n] by (auto simp: year_len_def)
  have "mp \<in> {0..11}" using mp by simp
  also have "{0..11} = {0, 1, 2, 3, 4, 5, 6, 7, 8, 9, 10, 11 :: int}" by (simp add: simp_from_to)
  finally show ?thesis unfolding l by (elim insertE emptyE) (auto simp: valid_date_def month_days_def)
qed

lemma civil_from_days_valid: "valid_date (civil_from_days z)"
proof -
  obtain era n mp d where c: "z + 719468 = era * 146097 + (year_start n + ((153 * mp + 2) div 5 + d - 1))"
    "0 \<le> n" "n \<le> 399" "0 \<le> mp" "mp \<le> 11" "1 \<le> d" "(153 * mp + 2) div 5 + d \<le> (153 * (mp + 1) + 2) div 5"
    "(153 * mp + 2) div 5 + d - 1 < year_len n" using day_cases .
  show ?thesis unfolding civil_eq [OF c] valid_date_form [OF c(2-5)] using c by blast
qed

lemma civil_year_bound:
  assumes "0 \<le> z" "z \<le> 1000000000000"
  shows "0 \<le> fst (civil_from_days z)" "fst (civil_from_days z) \<le> 10000000000"
proof -
  obtain era n mp d where c: "z + 719468 = era * 146097 + (year_start n + ((153 * mp + 2) div 5 + d - 1))"
    "0 \<le> n" "n \<le> 399" "0 \<le> mp" "mp \<le> 11" "1 \<le> d" "(153 * mp + 2) div 5 + d \<le> (153 * (mp + 1) + 2) div 5"
    "(153 * mp + 2) div 5 + d - 1 < year_len n" using day_cases .
  have "0 \<le> (153 * mp + 2) div 5 + d - 1" using c(4,6) by simp
  note b = doe_bounds [OF c(2,3) this c(8)]
  have "0 \<le> era" "era \<le> 10000000" using b c(1) assms by linarith+
  then show "0 \<le> fst (civil_from_days z)" "fst (civil_from_days z) \<le> 10000000000"
    unfolding civil_eq [OF c] using c(2,3) by simp_all
qed

lemma month_form:
  fixes m :: int
  assumes "1 \<le> m" "m \<le> 12"
  defines "mp \<equiv> (m + 9) mod 12"
  shows "0 \<le> mp" "mp \<le> 11" "(if mp < 10 then mp + 3 else mp - 9) = m" "10 \<le> mp \<longleftrightarrow> m \<le> 2"
proof -
  have "mp = (if m \<le> 2 then m + 9 else m - 3)"
  proof (cases "m \<le> 2")
    case False
    then show ?thesis using assms(1,2) div_mod_add(2) [of "m - 3" 12 1] unfolding mp_def by (simp add: add.commute)
  qed (use assms in \<open>simp add: mod_pos_pos_trivial\<close>)
  then show "0 \<le> mp" "mp \<le> 11" "(if mp < 10 then mp + 3 else mp - 9) = m" "10 \<le> mp \<longleftrightarrow> m \<le> 2"
    using assms(1,2) by simp_all
qed

lemma date_parts:
  fixes y m :: int
  assumes m: "1 \<le> m" "m \<le> 12"
  obtains era n mp where "0 \<le> n" "n \<le> 399" "0 \<le> mp" "mp \<le> 11" "(if mp < 10 then mp + 3 else mp - 9) = m"
    "y = n + era * 400 + (if 10 \<le> mp then 1 else 0)"
proof -
  define mp where "mp = (m + 9) mod 12"
  note mp = month_form [OF m, folded mp_def]
  let ?y = "y - (if 10 \<le> mp then 1 else 0)"
  show thesis
  proof (rule that [of "?y mod 400" mp "?y div 400"])
    show "?y mod 400 \<le> 399" using pos_mod_bound [of 400 ?y] by simp
    show "y = ?y mod 400 + ?y div 400 * 400 + (if 10 \<le> mp then 1 else 0)" by (simp del: mod_add_self2)
  qed (use mp in simp_all)
qed

lemma days_from_civil_inverse:
  assumes v: "valid_date (y, m, d)" and y: "\<bar>y\<bar> \<le> 300000000000000"
  shows "civil_from_days (days_from_civil y m d) = (y, m, d)"
proof -
  have m: "1 \<le> m" "m \<le> 12" using v by (simp_all add: valid_date_def)
  obtain era n mp where p: "0 \<le> n" "n \<le> 399" "0 \<le> mp" "mp \<le> 11" "(if mp < 10 then mp + 3 else mp - 9) = m"
    "y = n + era * 400 + (if 10 \<le> mp then 1 else 0)" using date_parts [OF m] .
  have d: "1 \<le> d" "(153 * mp + 2) div 5 + d \<le> (153 * (mp + 1) + 2) div 5" "(153 * mp + 2) div 5 + d - 1 < year_len n"
    using v valid_date_form [OF p(1-4), of era d] unfolding p(5) p(6) [symmetric] by simp_all
  have e: "\<bar>era\<bar> \<le> 1000000000000" using p y by (simp split: if_splits)
  have "\<bar>d\<bar> \<le> 4294967296" using v by (simp add: valid_date_def month_days_def split: if_splits)
  note eq = days_eq [OF p(1-4) e this, folded p(6), unfolded p(5)]
  show ?thesis unfolding eq
    using civil_eq [OF _ p(1-4) d, of _ era, folded p(6), unfolded p(5)] by simp
qed

lemma days_from_civil_bound:
  assumes "1 \<le> m" "m \<le> 12" "1 \<le> d" "d \<le> 31" "0 \<le> y" "y \<le> 10000000000"
  shows "\<bar>days_from_civil y m d\<bar> \<le> 4000000000000"
proof -
  obtain era n mp where p: "0 \<le> n" "n \<le> 399" "0 \<le> mp" "mp \<le> 11" "(if mp < 10 then mp + 3 else mp - 9) = m"
    "y = n + era * 400 + (if 10 \<le> mp then 1 else 0)" using date_parts [OF assms(1,2)] .
  have e: "-1 \<le> era" "era \<le> 25000000" using p assms(5,6) by (simp_all split: if_splits)
  have b: "0 \<le> n div 4" "n div 4 \<le> 399" "0 \<le> n div 100" "n div 100 \<le> 399" "0 \<le> (153 * mp + 2) div 5" "(153 * mp + 2) div 5 \<le> 2000"
    using p zdiv_mono2 [of n 1 4] zdiv_mono2 [of n 1 100] zdiv_mono2 [of "153 * mp + 2" 1 5] by simp_all
  have "\<bar>era\<bar> \<le> 1000000000000" "\<bar>d\<bar> \<le> 4294967296" using e assms(3,4) by simp_all
  from days_eq [OF p(1-4) this, folded p(6), unfolded p(5)] show ?thesis
    using b e p(1,2) assms(3,4) unfolding year_start_def by linarith
qed

end
