(* ===== verification/Task_Stamp.thy ===== *)
theory Task_Stamp
  imports Task_Time
begin

text \<open>
  The timestamps of \<open>src/task.rs\<close>: what the parser makes of a written instant, that it reads back
  every timestamp the program prints, and the routing decision built on it.
\<close>

section \<open>Printing and parsing\<close>

lemma split_on_three:
  assumes "s \<notin> set a" "s \<notin> set b" "s \<notin> set c"
  shows "split_on s (a @ s # b @ s # c) = [a, b, c]"
  using assms by (simp add: split_on_sep split_on_no_sep)

lemma parse_date_pads:
  assumes "y \<le> 9223372036854775807" "1 \<le> m" "m \<le> 12" "1 \<le> d" "d \<le> 31"
  shows "parse_date (pad 4 y @ CHR ''-'' # pad 2 m @ CHR ''-'' # pad 2 d) = Some (int y, m, d)"
  using assms by (simp add: parse_date_def split_on_three digit_text_free parse_i64_pad parse_u32_pad size_consts)

lemma split_once_free: "s \<notin> set a \<Longrightarrow> split_once s (a @ s # b) = Some (a, b)"
  by (simp add: split_once_Some)

text \<open>A clock reading with an optional fraction.\<close>

definition fraction_text :: "string \<Rightarrow> bool" where
  "fraction_text f \<longleftrightarrow> f = [] \<or> (\<exists>ds. f = CHR ''.'' # ds \<and> digit_text ds)"

lemma parse_time_pads:
  assumes "hh \<le> 23" "mm \<le> 59" "ss \<le> 60" "fraction_text f"
  shows "parse_time ((pad 2 hh @ CHR '':'' # pad 2 mm @ CHR '':'' # pad 2 ss) @ f) = Some (hh, mm, ss)"
proof -
  let ?c = "pad 2 hh @ CHR '':'' # pad 2 mm @ CHR '':'' # pad 2 ss"
  have dot: "CHR ''.'' \<notin> set ?c" by (simp add: digit_text_free)
  have p: "split_on (CHR '':'') ?c = [pad 2 hh, pad 2 mm, pad 2 ss]"
    by (rule split_on_three) (simp_all add: digit_text_free)
  have n: "parse_u32 (pad 2 hh) = Some hh" "parse_u32 (pad 2 mm) = Some mm" "parse_u32 (pad 2 ss) = Some ss"
    using assms(1-3) by (simp_all add: parse_u32_pad size_consts)
  consider "f = []" | ds where "f = CHR ''.'' # ds" "digit_text ds" using assms(4) by (auto simp: fraction_text_def)
  then show ?thesis
  proof cases
    case 1
    have "split_once (CHR ''.'') ?c = None" using dot unfolding split_once_None .
    then show ?thesis using 1 assms(1-3) unfolding parse_time_def by (simp add: p n)
  next
    case 2
    have "list_all is_digit (ascii ds)" "ds \<noteq> []" using 2(2) by (simp_all add: digit_text_def ascii_def list_all_iff)
    moreover have "split_once (CHR ''.'') (?c @ f) = Some (?c, ds)"
      unfolding 2(1) using dot by (rule split_once_free)
    ultimately show ?thesis using assms(1-3) unfolding parse_time_def by (simp add: p n del: append_assoc)
  qed
qed

text \<open>The offset of a timestamp: \<open>Z\<close>, or a sign, hours and minutes.\<close>

datatype utc_offset = Zulu | Offset bool nat nat

fun offset_text :: "utc_offset \<Rightarrow> string" where
  "offset_text Zulu = ''Z''"
| "offset_text (Offset east oh om) = (if east then CHR ''+'' else CHR ''-'') # pad 2 oh @ CHR '':'' # pad 2 om"

fun offset_value :: "utc_offset \<Rightarrow> int" where
  "offset_value Zulu = 0"
| "offset_value (Offset east oh om) = (if east then 1 else - 1) * (int oh * 3600 + int om * 60)"

fun offset_ok :: "utc_offset \<Rightarrow> bool" where
  "offset_ok Zulu = True"
| "offset_ok (Offset east oh om) \<longleftrightarrow> oh \<le> 23 \<and> om \<le> 59"

lemma takeWhile_stop: "\<forall>x \<in> set xs. P x \<Longrightarrow> \<not> P y \<Longrightarrow> takeWhile P (xs @ y # ys) = xs"
  by (induction xs) simp_all

lemma split_offset_text:
  assumes "t \<noteq> []"
  shows "split_offset (t @ offset_text z) = Some (t, offset_text z)"
proof (cases z)
  case Zulu
  then show ?thesis by (simp add: split_offset_def)
next
  case (Offset east oh om)
  let ?b = "pad 2 oh @ CHR '':'' # pad 2 om" and ?s = "if east then CHR ''+'' else CHR ''-''"
  have l: "last (pad 2 om) \<in> set (pad 2 om)" by simp
  then have "last (pad 2 om) \<notin> {CHR ''Z'', CHR ''z''}" using digit_text_free [OF digit_text_pad] by (metis insert_iff)
  then have z: "last (t @ ?s # ?b) \<notin> {CHR ''Z'', CHR ''z''}" by simp
  have "\<forall>c \<in> set (rev ?b). c \<noteq> CHR ''+'' \<and> c \<noteq> CHR ''-''" by (auto simp: digit_text_free)
  then have "takeWhile (\<lambda>c. c \<noteq> CHR ''+'' \<and> c \<noteq> CHR ''-'') (rev ?b @ ?s # rev t) = rev ?b"
    by (rule takeWhile_stop) simp
  moreover have "rev (t @ ?s # ?b) = rev ?b @ ?s # rev t" by simp
  ultimately have "takeWhile (\<lambda>c. c \<noteq> CHR ''+'' \<and> c \<noteq> CHR ''-'') (rev (t @ ?s # ?b)) = rev ?b" by (simp only:)
  then show ?thesis using z assms unfolding Offset offset_text.simps split_offset_def by (simp only: Let_def) simp
qed

lemma offset_seconds_text:
  assumes "offset_ok z"
  shows "offset_seconds (offset_text z) = Inr (offset_value z)"
proof (cases z)
  case (Offset east oh om)
  have b: "oh \<le> 23" "om \<le> 59" using assms Offset by simp_all
  have f: "offset_fields (pad 2 oh @ CHR '':'' # pad 2 om) = Inr (pad 2 oh, pad 2 om)"
    unfolding offset_fields_def by (simp add: split_once_free digit_text_free)
  have n: "parse_i64 (pad 2 oh) = Some (int oh)" "parse_i64 (pad 2 om) = Some (int om)"
    using b by (simp_all add: parse_i64_pad)
  have w: "i64 ((if east then 1 else - 1) * (int oh * 3600 + int om * 60)) = (if east then 1 else - 1) * (int oh * 3600 + int om * 60)"
    using b by (intro i64_id) simp_all
  then show ?thesis using b Offset by (auto simp: offset_seconds_def f n)
qed (simp add: offset_seconds_def)

text \<open>The seconds since the epoch of a date, a clock reading and an offset.\<close>

definition instant :: "nat \<Rightarrow> nat \<Rightarrow> nat \<Rightarrow> nat \<Rightarrow> nat \<Rightarrow> nat \<Rightarrow> utc_offset \<Rightarrow> int" where
  "instant y m d hh mm ss z =
     days_from_civil (int y) (int m) (int d) * 86400 + int hh * 3600 + int mm * 60 + int ss - offset_value z"

definition stamp_text :: "nat \<Rightarrow> nat \<Rightarrow> nat \<Rightarrow> nat \<Rightarrow> nat \<Rightarrow> nat \<Rightarrow> string \<Rightarrow> utc_offset \<Rightarrow> string" where
  "stamp_text y m d hh mm ss f z =
     (pad 4 y @ CHR ''-'' # pad 2 m @ CHR ''-'' # pad 2 d) @ CHR ''T'' #
     ((pad 2 hh @ CHR '':'' # pad 2 mm @ CHR '':'' # pad 2 ss) @ f) @ offset_text z"

definition stamp_ok :: "nat \<Rightarrow> nat \<Rightarrow> nat \<Rightarrow> nat \<Rightarrow> nat \<Rightarrow> nat \<Rightarrow> string \<Rightarrow> utc_offset \<Rightarrow> bool" where
  "stamp_ok y m d hh mm ss f z \<longleftrightarrow> y \<le> 10000000000 \<and> 1 \<le> m \<and> m \<le> 12 \<and> 1 \<le> d \<and> d \<le> 31 \<and>
     hh \<le> 23 \<and> mm \<le> 59 \<and> ss \<le> 60 \<and> fraction_text f \<and> offset_ok z"

lemma graphic_digit: "is_digit (of_char c) \<Longrightarrow> is_ascii_graphic c"
proof -
  have n: "unat (of_char c :: byte) = (of_char c :: nat)"
  proof -
    have "unat (of_nat (of_char c :: nat) :: byte) = (of_char c :: nat) mod 256" by (simp add: unat_of_nat)
    also have "\<dots> = of_char c" using nat_of_char_less_256 [of c] by simp
    finally show ?thesis by (simp only: of_nat_of_char)
  qed
  show "is_digit (of_char c) \<Longrightarrow> is_ascii_graphic c"
    unfolding is_digit_def is_ascii_graphic_def Let_def word_le_nat_alt n by simp
qed

lemma graphic_ends:
  "is_ascii_graphic (hd (pad k n))" "is_ascii_graphic (last (pad k n))"
  using digit_text_pad [of k n] graphic_digit hd_in_set [OF pad_nonempty] last_in_set [OF pad_nonempty]
  unfolding digit_text_def by metis+

lemma stamp_trim: "trim_utf8 (stamp_text y m d hh mm ss f z) = stamp_text y m d hh mm ss f z"
proof (rule trim_graphic)
  show "is_ascii_graphic (hd (stamp_text y m d hh mm ss f z))" by (simp add: stamp_text_def graphic_ends)
  show "is_ascii_graphic (last (stamp_text y m d hh mm ss f z))"
    by (cases z) (simp_all add: stamp_text_def graphic_ends, simp add: is_ascii_graphic_def)
qed (simp add: stamp_text_def)

lemma parse_stamp:
  assumes "stamp_ok y m d hh mm ss f z"
  shows "parse_offset_timestamp (stamp_text y m d hh mm ss f z) =
    (if 0 \<le> instant y m d hh mm ss z then Inr (nat (instant y m d hh mm ss z)) else Inl BadTimestamp)"
proof -
  let ?date = "pad 4 y @ CHR ''-'' # pad 2 m @ CHR ''-'' # pad 2 d"
  let ?time = "(pad 2 hh @ CHR '':'' # pad 2 mm @ CHR '':'' # pad 2 ss) @ f"
  have a: "y \<le> 10000000000" "1 \<le> m" "m \<le> 12" "1 \<le> d" "d \<le> 31" "hh \<le> 23" "mm \<le> 59" "ss \<le> 60" "fraction_text f" "offset_ok z"
    using assms by (simp_all add: stamp_ok_def)
  have T: "CHR ''T'' \<notin> set ?date" by (simp add: digit_text_free)
  have s: "split_once (CHR ''T'') (stamp_text y m d hh mm ss f z) = Some (?date, ?time @ offset_text z)"
    unfolding stamp_text_def by (rule split_once_free [OF T])
  have dt: "parse_date ?date = Some (int y, m, d)" using a by (intro parse_date_pads) simp_all
  have o: "split_offset (?time @ offset_text z) = Some (?time, offset_text z)" by (rule split_offset_text) simp
  have tm: "parse_time ?time = Some (hh, mm, ss)" using a by (intro parse_time_pads)
  have "\<bar>days_from_civil (int y) (int m) (int d)\<bar> \<le> 4000000000000"
    using a by (intro days_from_civil_bound) simp_all
  moreover have "\<bar>offset_value z\<bar> \<le> 90000" using a(10) by (cases z) auto
  ultimately have i: "i64 (instant y m d hh mm ss z) = instant y m d hh mm ss z"
    unfolding instant_def by (intro i64_id) (use a(6-8) in linarith)+
  show ?thesis
    unfolding parse_offset_timestamp_def stamp_trim s Let_def
    by (simp only: option.case ok_or_bad_def res_bind_simps prod.case dt o tm offset_seconds_text [OF a(10)]
        instant_def [symmetric] i)
qed

lemma rfc3339_utc_stamp:
  assumes "ms \<le> U64_MAX"
  obtains y m d where "civil_from_days (int (ms div 1000 div 86400)) = (int y, int m, int d)"
    "rfc3339_utc ms = stamp_text y m d (ms div 1000 mod 86400 div 3600) (ms div 1000 mod 86400 mod 3600 div 60)
       (ms div 1000 mod 86400 mod 60) (CHR ''.'' # pad 3 (ms mod 1000)) Zulu"
    "stamp_ok y m d (ms div 1000 mod 86400 div 3600) (ms div 1000 mod 86400 mod 3600 div 60)
       (ms div 1000 mod 86400 mod 60) (CHR ''.'' # pad 3 (ms mod 1000)) Zulu"
proof -
  let ?z = "int (ms div 1000 div 86400)" and ?tod = "ms div 1000 mod 86400"
  obtain y m d where c: "civil_from_days ?z = (y, m, d)" by (metis prod_cases3)
  have "ms div 1000 \<le> U64_MAX div 1000" using assms by (rule div_le_mono)
  then have "ms div 1000 div 86400 \<le> U64_MAX div 1000 div 86400" by (rule div_le_mono)
  then have "ms div 1000 div 86400 \<le> 1000000000000" unfolding size_consts by simp
  then have "?z \<le> 1000000000000" unfolding of_nat_le_iff [where 'a = int, symmetric] of_nat_numeral .
  then have y: "0 \<le> y" "y \<le> 10000000000" using civil_year_bound [of ?z] unfolding c by simp_all
  have v: "1 \<le> m" "m \<le> 12" "1 \<le> d" "d \<le> 31"
    using civil_from_days_valid [of ?z] unfolding c by (auto simp: valid_date_def month_days_def split: if_splits)
  have t: "?tod div 3600 \<le> 23" "?tod mod 3600 div 60 \<le> 59" "?tod mod 60 \<le> 60"
  proof -
    have "?tod < 86400" by simp
    then show "?tod div 3600 \<le> 23" by simp
    have "?tod mod 3600 < 3600" by simp
    then show "?tod mod 3600 div 60 \<le> 59" by linarith
    show "?tod mod 60 \<le> 60" using mod_less_divisor [of 60 ?tod] by linarith
  qed
  show thesis
  proof (rule that [of "nat y" "nat m" "nat d"])
    show "civil_from_days ?z = (int (nat y), int (nat m), int (nat d))" using c y v by simp
    show "rfc3339_utc ms = stamp_text (nat y) (nat m) (nat d) (?tod div 3600) (?tod mod 3600 div 60) (?tod mod 60)
        (CHR ''.'' # pad 3 (ms mod 1000)) Zulu"
      unfolding rfc3339_utc_def Let_def c stamp_text_def using y v by (simp add: pad_int_def)
    show "stamp_ok (nat y) (nat m) (nat d) (?tod div 3600) (?tod mod 3600 div 60) (?tod mod 60)
        (CHR ''.'' # pad 3 (ms mod 1000)) Zulu"
    proof -
      have "1 \<le> nat m" "1 \<le> nat d" using v by linarith+
      then show ?thesis unfolding stamp_ok_def using y v t by (simp add: fraction_text_def nat_le_iff)
    qed
  qed
qed

lemma instant_utc:
  assumes "civil_from_days (int (t div 86400)) = (int y, int m, int d)" "t \<le> 86400 * 1000000000000"
  shows "instant y m d (t mod 86400 div 3600) (t mod 86400 mod 3600 div 60) (t mod 86400 mod 60) Zulu = int t"
proof -
  have "t div 86400 \<le> 1000000000000" using div_le_mono [OF assms(2), of 86400] by simp
  then have "\<bar>int (t div 86400)\<bar> \<le> 1000000000000" by linarith
  from civil_roundtrip [OF this] have d: "days_from_civil (int y) (int m) (int d) = int (t div 86400)"
    unfolding assms(1) by simp
  let ?r = "t mod 86400"
  have "?r = 3600 * (?r div 3600) + ?r mod 3600" "?r mod 3600 = 60 * (?r mod 3600 div 60) + ?r mod 3600 mod 60"
    "t = 86400 * (t div 86400) + ?r" by (simp_all only: mult_div_mod_eq)
  moreover have "?r mod 3600 mod 60 = ?r mod 60" by (rule mod_mod_cancel) simp
  ultimately have "t = t div 86400 * 86400 + ?r div 3600 * 3600 + ?r mod 3600 div 60 * 60 + ?r mod 60" by linarith
  then have "int t = int (t div 86400 * 86400 + ?r div 3600 * 3600 + ?r mod 3600 div 60 * 60 + ?r mod 60)" by simp
  then show ?thesis unfolding instant_def d by simp
qed

lemma parse_rfc3339_utc:
  assumes "ms \<le> U64_MAX"
  shows "parse_offset_timestamp (rfc3339_utc ms) = Inr (ms div 1000)"
proof -
  obtain y m d where s: "civil_from_days (int (ms div 1000 div 86400)) = (int y, int m, int d)"
    "rfc3339_utc ms = stamp_text y m d (ms div 1000 mod 86400 div 3600) (ms div 1000 mod 86400 mod 3600 div 60)
       (ms div 1000 mod 86400 mod 60) (CHR ''.'' # pad 3 (ms mod 1000)) Zulu"
    "stamp_ok y m d (ms div 1000 mod 86400 div 3600) (ms div 1000 mod 86400 mod 3600 div 60)
       (ms div 1000 mod 86400 mod 60) (CHR ''.'' # pad 3 (ms mod 1000)) Zulu"
    using rfc3339_utc_stamp [OF assms] .
  have "ms div 1000 \<le> 86400 * 1000000000000"
    using div_le_mono [OF assms, of 1000] unfolding size_consts by simp
  note i = instant_utc [OF s(1) this]
  show ?thesis unfolding s(2) parse_stamp [OF s(3)] i by simp
qed

section \<open>Properties\<close>

text \<open>
  C29: The calendar routines are exact: every day number is given a date that exists in the
  Gregorian calendar, converting that date back gives the day number, and every existing date
  survives the round trip. The bounds keep the arithmetic inside \<open>i64\<close>.
\<close>

theorem calendar_exact:
  assumes "\<bar>z\<bar> \<le> 1000000000000" "valid_date (y, m, d)" "\<bar>y\<bar> \<le> 300000000000000"
  shows "valid_date (civil_from_days z) \<and>
    (case civil_from_days z of (y, m, d) \<Rightarrow> days_from_civil y m d) = z \<and>
    civil_from_days (days_from_civil y m d) = (y, m, d)"
  using civil_from_days_valid civil_roundtrip [OF assms(1)] days_from_civil_inverse [OF assms(2,3)] by blast

theorem calendar_exact_witness:
  "valid_date (2024, 2, 29) \<and> days_from_civil 2024 2 29 = 19782 \<and> civil_from_days (- 1) = (1969, 12, 31) \<and>
   civil_from_days (days_from_civil 2024 2 29) = (2024, 2, 29)"
proof -
  have v: "valid_date (2024, 2, 29)" by (simp add: valid_date_def month_days_def leap_def)
  have "days_from_civil 2024 2 29 = 19782" by (simp add: days_from_civil_def i64_id sdiv_pos Let_def)
  moreover have "civil_from_days (- 1) = (1969, 12, 31)" by code_simp
  ultimately show ?thesis using v calendar_exact [of "- 1" 2024 2 29, OF _ v] by simp
qed

text \<open>
  C30: A timestamp the program prints is read back as the same second, for every \<open>u64\<close> number of
  milliseconds.
\<close>

theorem timestamp_roundtrip:
  assumes "ms \<le> U64_MAX"
  shows "parse_offset_timestamp (rfc3339_utc ms) = Inr (ms div 1000)"
  using assms by (rule parse_rfc3339_utc)

theorem timestamp_roundtrip_witness:
  "parse_offset_timestamp (rfc3339_utc 1791075600123) = Inr 1791075600"
  using timestamp_roundtrip [of 1791075600123] by (simp add: size_consts)

text \<open>
  Cutoff routing compares instants, not clock readings: with a well-formed cutoff, whatever its
  UTC offset and fraction, the launch goes to the cutoff engine exactly from the second of the cutoff
  on; a cutoff before 1970 is rejected; half a flag pair is an error.
\<close>

theorem cutoff_routes_by_instant:
  assumes "stamp_ok y m d hh mm ss f z"
  shows "route_engine engine (Some (stamp_text y m d hh mm ss f z)) (Some other) now =
      (if instant y m d hh mm ss z < 0 then Inl (TimeError BadTimestamp)
       else if instant y m d hh mm ss z \<le> int (now div 1000) then Inr other else Inr engine) \<and>
    route_engine engine None None now = Inr engine \<and>
    route_engine engine (Some c) None now = Inl CutoffNeedsEngine \<and>
    route_engine engine None (Some other) now = Inl EngineNeedsCutoff"
  by (simp add: route_engine_def parse_stamp [OF assms] nat_le_iff)

theorem cutoff_routes_by_instant_witness:
  "route_engine ''zcodex'' (Some ''2026-10-04T03:00:00+02:00'') (Some ''agy'') 1791075599999 = Inr ''zcodex'' \<and>
   route_engine ''zcodex'' (Some ''2026-10-04T03:00:00+02:00'') (Some ''agy'') 1791075600000 = Inr ''agy''"
proof -
  let ?z = "Offset True 2 0"
  have ok: "stamp_ok 2026 10 4 3 0 0 [] ?z" by (simp add: stamp_ok_def fraction_text_def)
  have t: "stamp_text 2026 10 4 3 0 0 [] ?z = ''2026-10-04T03:00:00+02:00''"
by code_simp
  have i: "instant 2026 10 4 3 0 0 ?z = 1791075600"
    by (simp add: instant_def days_from_civil_def i64_id sdiv_pos Let_def)
  show ?thesis using cutoff_routes_by_instant [OF ok, of "''zcodex''" "''agy''"] unfolding t i by simp
qed

text \<open>
  Two departures from the documented contract. The compact offset is cut at byte 2 without
  checking the character there, so a four-byte offset that holds a multi-byte character stops the
  program instead of being rejected; and any day up to 31 is taken in any month.
\<close>

lemma compact_offset_panics:
  "parse_offset_timestamp (''2026-10-04T03:00:00+1'' @ [CHR 0xE2, CHR 0x82, CHR 0xAC]) = Inl Panic"
proof -
  let ?e = "[CHR 0xE2, CHR 0x82, CHR 0xAC]"
  let ?s = "''2026-10-04T03:00:00+1'' @ ?e"
  have s: "trim_utf8 ?s = ?s" "split_once (CHR ''T'') ?s = Some (''2026-10-04'', ''03:00:00+1'' @ ?e)"
    "split_offset (''03:00:00+1'' @ ?e) = Some (''03:00:00'', ''+1'' @ ?e)" "offset_seconds (''+1'' @ ?e) = Inl Panic"
    by code_simp+
  have t: "pad 4 2026 @ CHR ''-'' # pad 2 10 @ CHR ''-'' # pad 2 4 = ''2026-10-04''"
    "(pad 2 3 @ CHR '':'' # pad 2 0 @ CHR '':'' # pad 2 0) @ [] = ''03:00:00''" by code_simp+
  have "parse_date ''2026-10-04'' = Some (2026, 10, 4)" "parse_time ''03:00:00'' = Some (3, 0, 0)"
    using parse_date_pads [of 2026 10 4] parse_time_pads [of 3 0 0 "[]"] unfolding t
    by (simp_all add: fraction_text_def)
  then show ?thesis unfolding parse_offset_timestamp_def s Let_def
    by (simp only: option.case ok_or_bad_def res_bind_simps prod.case s)
qed

lemma february_31_accepted:
  "parse_offset_timestamp ''2026-02-31T00:00:00Z'' = parse_offset_timestamp ''2026-03-03T00:00:00Z''"
proof -
  have t: "stamp_text 2026 2 31 0 0 0 [] Zulu = ''2026-02-31T00:00:00Z''"
      "stamp_text 2026 3 3 0 0 0 [] Zulu = ''2026-03-03T00:00:00Z''"
by code_simp+
  have ok: "stamp_ok 2026 2 31 0 0 0 [] Zulu" "stamp_ok 2026 3 3 0 0 0 [] Zulu"
    by (simp_all add: stamp_ok_def fraction_text_def)
  show ?thesis using parse_stamp [OF ok(1)] parse_stamp [OF ok(2)] unfolding t
    by (simp add: instant_def days_from_civil_def i64_id sdiv_pos Let_def)
qed

end
