(* ===== verification/Task_Run.thy ===== *)
theory Task_Run
  imports Launch_Laws Task_Stamp Mailbox
begin

text \<open>
  The delegated task of \<open>src/task.rs\<close> and \<open>src/bin/aplexer/task_commands.rs\<close> on Unix: the child's
  argument vector, the bounded wait with the kill of the child's own group, the START and RESULT
  records and the completion notice. What the operating system answers is scripted in a record;
  what the command does to it is a list of effects in order. The workspace trust prepared for the
  agent, whose failure is only a warning, is left out. SHA-256, \<open>canonical_workspace\<close>, the JSON
  encoding of the records and the texts of the errors are parameters; the notice goes into the
  mailbox of theory \<open>Mailbox\<close>.
\<close>

section \<open>Argument vectors\<close>

definition builtin_task_argv :: "string \<Rightarrow> string list option" where
  "builtin_task_argv engine =
     (let family = engine_family engine in
      if family = ''codex'' then Some [''exec'', ''--json'', ''--skip-git-repo-check'']
      else if family \<in> {''antigravity'', ''claude'', ''gemini''} then Some [''-p'']
      else if family = ''opencode'' then Some [''run'']
      else None)"

definition noninteractive_argv :: "string \<Rightarrow> string list option \<Rightarrow> string list option" where
  "noninteractive_argv engine configured =
     (case configured of Some argv \<Rightarrow> Some argv | None \<Rightarrow> builtin_task_argv engine)"

definition record_argv :: "string list \<Rightarrow> nat \<Rightarrow> string \<Rightarrow> string list" where
  "record_argv argv prompt_bytes prompt_sha256 =
     argv @ [''<prompt: '' @ dec_text prompt_bytes @ '' bytes, sha256='' @ prompt_sha256 @ ''>'']"

definition agy_command :: "string list \<Rightarrow> bool" where
  "agy_command command = (case command of [] \<Rightarrow> False | program # _ \<Rightarrow> file_stem_of program = Some ''agy'')"

definition is_agy_launch :: "resolved_launch \<Rightarrow> string \<Rightarrow> bool" where
  "is_agy_launch launch engine \<longleftrightarrow> agy_command (ln_command launch) \<or> engine_family engine = ''antigravity''"

definition task_argv_for :: "config \<Rightarrow> resolved_launch \<Rightarrow> string \<Rightarrow> string list option" where
  "task_argv_for c launch engine =
     (let task_engine = (if is_agy_launch launch engine then ''antigravity'' else engine) in
      case bt_get engine (cf_engines c) of
        Some e \<Rightarrow> noninteractive_argv task_engine (if ec_task_argv e = [] then None else Some (ec_task_argv e))
      | None \<Rightarrow> noninteractive_argv task_engine None)"

text \<open>The argument vector without the prompt. \<open>splice(1..1, \<dots>)\<close> inserts after the executable.\<close>

definition assemble_argv :: "resolved_launch \<Rightarrow> string \<Rightarrow> string list \<Rightarrow> bool \<Rightarrow> string list \<Rightarrow> string list" where
  "assemble_argv launch engine task_argv no_skip_permissions engine_args =
     (let is_agy = is_agy_launch launch engine;
          argv = ln_command launch;
          argv = (if \<not> is_agy \<and> engine_family engine = ''opencode'' then take 1 argv @ task_argv @ drop 1 argv
                  else if \<not> is_agy then argv @ task_argv else argv);
          argv = (if no_skip_permissions then argv else argv @ ln_skip_permissions_argv launch);
          argv = argv @ engine_args
      in if is_agy then argv @ task_argv else argv)"

section \<open>The child\<close>

record child_outcome =
  co_exit_code :: int
  co_exit_signal :: "int option"
  co_timed_out :: bool

record exit_status =
  xs_code :: "int option"
  xs_signal :: "int option"

datatype task_error =
    EmptyTaskArgv | OutputFileFailed | SpawnFailed | WaitFailed
  | WorkspaceFailed | ConfigFailed config_error | BadEnv | RouteFailed route_error
  | NoTaskArgv | PromptUnreadable | PromptNotUtf8 | ResultExists | OutputDirFailed | RecordWriteFailed

text \<open>The environment the child sees: inherited, then the settings, then the removals.\<close>

definition child_env :: "(string \<Rightarrow> string option) \<Rightarrow> env \<Rightarrow> string list \<Rightarrow> string \<Rightarrow> string option" where
  "child_env inherited env_set env_unset name =
     (if name \<in> set env_unset then None
      else case bt_get name env_set of Some v \<Rightarrow> Some v | None \<Rightarrow> inherited name)"

text \<open>
  What the system answers to one child: whether the output files can be created, the pid of the
  spawned child, the result of each \<open>try_wait\<close> with the clock read after it, and the final \<open>wait\<close>.
\<close>

record child_script =
  cs_stdout :: bool
  cs_stderr :: bool
  cs_pid :: "nat option"
  cs_polls :: "(unit + exit_status option) list"
  cs_clock :: "nat list"
  cs_wait :: "unit + exit_status"

datatype task_effect =
    CreateFile string
  | Spawn "string list" string "string \<Rightarrow> string option"
  | KillGroup int
  | WriteStart | WriteResult | SendNotice string mailbox | Exit int

definition kill_child_group :: "nat \<Rightarrow> task_effect list" where
  "kill_child_group pid = (if pid = 0 \<or> 2147483647 < pid then [] else [KillGroup (- int pid)])"

definition natural_exit :: "exit_status \<Rightarrow> child_outcome" where
  "natural_exit status =
     \<lparr> co_exit_code = (case xs_code status of Some c \<Rightarrow> c
         | None \<Rightarrow> (case xs_signal status of Some s \<Rightarrow> 128 + s | None \<Rightarrow> 1)),
       co_exit_signal = xs_signal status, co_timed_out = False \<rparr>"

text \<open>
  The wait loop over the polls; \<open>None\<close> is a loop that is still waiting when the script ends. The
  clock is read only when a poll found the child running and there is a deadline.
\<close>

fun wait_child ::
    "nat \<Rightarrow> nat option \<Rightarrow> (unit + exit_status) \<Rightarrow> (unit + exit_status option) list \<Rightarrow> nat list \<Rightarrow>
     (task_effect list \<times> (task_error + child_outcome)) option" where
  "wait_child pid deadline final [] clock = None"
| "wait_child pid deadline final (Inl _ # polls) clock = Some ([], Inl WaitFailed)"
| "wait_child pid deadline final (Inr (Some status) # polls) clock = Some ([], Inr (natural_exit status))"
| "wait_child pid deadline final (Inr None # polls) clock =
     (case deadline of
        None \<Rightarrow> wait_child pid deadline final polls clock
      | Some d \<Rightarrow>
          (case clock of
             [] \<Rightarrow> None
           | now # clock' \<Rightarrow>
               if d \<le> now then
                 Some (kill_child_group pid,
                   case final of
                     Inl _ \<Rightarrow> Inl WaitFailed
                   | Inr status \<Rightarrow> Inr \<lparr> co_exit_code = (case xs_code status of Some c \<Rightarrow> c | None \<Rightarrow> 124),
                       co_exit_signal = xs_signal status, co_timed_out = True \<rparr>)
               else wait_child pid deadline final polls clock'))"

definition run_task_child ::
    "(string \<Rightarrow> string option) \<Rightarrow> child_script \<Rightarrow> string list \<Rightarrow> string \<Rightarrow> env \<Rightarrow> string list \<Rightarrow> string \<Rightarrow> string \<Rightarrow> nat option \<Rightarrow>
     (task_effect list \<times> (task_error + child_outcome)) option" where
  "run_task_child inherited cs argv cwd env_set env_unset stdout_file stderr_file deadline =
     (if argv = [] then Some ([], Inl EmptyTaskArgv)
      else if \<not> cs_stdout cs then Some ([], Inl OutputFileFailed)
      else if \<not> cs_stderr cs then Some ([CreateFile stdout_file], Inl OutputFileFailed)
      else case cs_pid cs of
        None \<Rightarrow> Some ([CreateFile stdout_file, CreateFile stderr_file], Inl SpawnFailed)
      | Some pid \<Rightarrow>
          map_option (\<lambda>(effects, r).
              ([CreateFile stdout_file, CreateFile stderr_file, Spawn argv cwd (child_env inherited env_set env_unset)] @ effects, r))
            (wait_child pid deadline (cs_wait cs) (cs_polls cs) (cs_clock cs)))"

section \<open>Records\<close>

record parent_session =
  ps_id :: uuid
  ps_tag :: string
  ps_workspace :: string

record notice_record =
  nr_status :: string
  nr_message_id :: "uuid option"
  nr_detail :: "string option"

definition skipped :: "string \<Rightarrow> string \<Rightarrow> notice_record" where
  "skipped status detail = \<lparr> nr_status = status, nr_message_id = None, nr_detail = Some detail \<rparr>"

definition TASK_RECORD_SCHEMA_VERSION :: nat where "TASK_RECORD_SCHEMA_VERSION = 1"

record task_start_record =
  tr_schema_version :: nat
  tr_task_id :: uuid
  tr_engine :: string
  tr_profile :: "string option"
  tr_argv :: "string list"
  tr_prompt_path :: string
  tr_prompt_bytes :: nat
  tr_prompt_sha256 :: string
  tr_cwd :: string
  tr_output_dir :: string
  tr_parent :: "parent_session option"
  tr_started_at :: string
  tr_started_ms :: nat

record task_result_record = task_start_record +
  rr_stdout_log :: string
  rr_stderr_log :: string
  rr_ended_at :: string
  rr_ended_ms :: nat
  rr_exit_code :: int
  rr_exit_signal :: "int option"
  rr_timed_out :: bool
  rr_error :: "task_error option"
  rr_notice :: notice_record

definition result_path :: "string \<Rightarrow> string" where
  "result_path output_dir = path_join output_dir ''RESULT.json''"

definition start_record_path :: "string \<Rightarrow> string" where
  "start_record_path output_dir = path_join output_dir ''START.json''"

definition default_output_dir :: "(uuid \<Rightarrow> string) \<Rightarrow> string \<Rightarrow> string \<Rightarrow> nat \<Rightarrow> uuid \<Rightarrow> string" where
  "default_output_dir simple cwd engine started_ms task_id =
     (let compact = filter (\<lambda>c. is_digit (of_char c)) (rfc3339_utc started_ms)
      in path_join (path_join cwd ''.aplexer-tasks'') (compact @ ''-'' @ engine @ ''-'' @ take 8 (simple task_id)))"

definition int_text :: "int \<Rightarrow> string" where
  "int_text x = (if x < 0 then CHR ''-'' # dec_text (nat (- x)) else dec_text (nat x))"

definition notice_body :: "string \<Rightarrow> task_result_record \<Rightarrow> string" where
  "notice_body engine result =
     ''Task terminal: engine '' @ engine @ '', '' @
     (if rr_timed_out result then ''timeout'' else ''exit '' @ int_text (rr_exit_code result)) @
     ''. Evidence: '' @ tr_output_dir result @ '' (RESULT.json, stdout.log, stderr.log)''"

section \<open>The command\<close>

record task_run_args =
  ta_prompt_file :: string
  ta_engine :: "string option"
  ta_profile :: "string option"
  ta_cwd :: "string option"
  ta_output_dir :: "string option"
  ta_timeout_secs :: "nat option"
  ta_engine_args :: "string list"
  ta_env :: "string list"
  ta_no_skip_permissions :: bool
  ta_notify_to :: "string option"
  ta_notify_workspace :: "string option"
  ta_no_notify :: bool
  ta_cutoff :: "string option"
  ta_cutoff_engine :: "string option"
  ta_overwrite :: bool

fun parse_env_from :: "env \<Rightarrow> string list \<Rightarrow> env option" where
  "parse_env_from out [] = Some out"
| "parse_env_from out (v # vs) =
     (case split_once (CHR ''='') v of
        None \<Rightarrow> None
      | Some (key, val) \<Rightarrow>
          if key = [] \<or> CHR 0x00 \<in> set key \<or> CHR 0x00 \<in> set val then None
          else parse_env_from (bt_insert key val out) vs)"

definition parse_env :: "string list \<Rightarrow> env option" where
  "parse_env vs = parse_env_from [] vs"

text \<open>Everything the command learns from outside: its identity, clock, files and the child.\<close>

record task_world =
  tw_started_ms :: nat
  tw_ended_ms :: nat
  tw_task_id :: uuid
  tw_simple :: "uuid \<Rightarrow> string"
  tw_session :: "uuid option"
  tw_record :: "uuid \<Rightarrow> session_record option"
  tw_records :: "session_record list option"
  tw_canonical :: "string \<Rightarrow> string option"
  tw_config :: "config_error + config"
  tw_prompt :: "(bytes \<times> string option) option"
  tw_sha256 :: "bytes \<Rightarrow> string"
  tw_exists :: "string \<Rightarrow> bool"
  tw_mkdir :: bool
  tw_write_start :: bool
  tw_write_result :: bool
  tw_inherited :: "string \<Rightarrow> string option"
  tw_child :: child_script
  tw_spawn_instant :: nat
  tw_mailbox :: "string \<Rightarrow> mail_error + mailbox"
  tw_codec :: mail_codec
  tw_busy :: "uuid \<Rightarrow> bool"
  tw_message_id :: uuid
  tw_now_secs :: nat
  tw_data_text :: "task_result_record \<Rightarrow> string"
  tw_error_text :: "mail_error \<Rightarrow> string"

definition current_task_parent :: "task_world \<Rightarrow> parent_session option" where
  "current_task_parent w =
     (case tw_session w of
        None \<Rightarrow> None
      | Some sid \<Rightarrow> map_option (\<lambda>r. \<lparr> ps_id = sr_id r, ps_tag = sr_tag r, ps_workspace = sr_workspace r \<rparr>) (tw_record w sid))"

text \<open>
  The recipient of a message (\<open>src/bin/aplexer/message_routing.rs\<close>): exactly one of the three forms,
  and a tag that never existed in the workspace only when it is queued.
\<close>

definition build_recipient ::
    "session_record list \<Rightarrow> string \<Rightarrow> string option \<Rightarrow> bool \<Rightarrow> string option \<Rightarrow> bool \<Rightarrow> mail_error + recipient" where
  "build_recipient records workspace to all to_engine queue =
     (let chosen = length (filter (\<lambda>b. b) [to \<noteq> None, all, to_engine \<noteq> None]) in
      if chosen \<noteq> 1 then Inl ToNobody
      else case to of
        Some tag \<Rightarrow>
          (let existing = session_by_tag records workspace tag in
           if existing = None \<and> \<not> queue then Inl UnknownTag else Inr (ToTag tag (map_option sr_id existing)))
      | None \<Rightarrow> if all then Inr (ToBroadcast True) else Inr (ToEngine (the to_engine)))"

text \<open>
  The notice: the sender's record among the listed ones, the target workspace and recipient, then the
  envelope written into the mailbox (\<open>finish_send\<close> of \<open>src/bin/aplexer/message_delivery.rs\<close> for an
  inbox delivery, with its opportunistic collection). A problem becomes part of the record.
\<close>

definition notice_envelope :: "task_world \<Rightarrow> session_record \<Rightarrow> string \<Rightarrow> recipient \<Rightarrow> task_result_record \<Rightarrow> envelope" where
  "notice_envelope w r workspace to result =
     \<lparr> me_schema_version = MESSAGE_SCHEMA_VERSION, me_id = tw_message_id w, me_workspace = workspace,
       me_created_at = tw_now_secs w,
       me_from = \<lparr> mf_session_id = Some (sr_id r), mf_workspace = Some (sr_workspace r), mf_tag = Some (sr_tag r),
         mf_engine = Some (sr_engine r), mf_profile = sr_profile r, mf_external = False \<rparr>,
       me_to = to, me_kind = ''task-result'', me_reply_to = None,
       me_body = notice_body (tr_engine result) result, me_data = Some (tw_data_text w result), me_delivery = Inbox \<rparr>"

definition finish_send_inbox ::
    "mail_codec \<Rightarrow> session_record list \<Rightarrow> (uuid \<Rightarrow> bool) \<Rightarrow> nat \<Rightarrow> envelope \<Rightarrow> mailbox \<Rightarrow> (mail_error + uuid) \<times> mailbox" where
  "finish_send_inbox K records busy now e mb =
     (case write_message_in K e now mb of
        (Inl err, mb') \<Rightarrow> (Inl err, mb')
      | (Inr _, mb') \<Rightarrow> (Inr (me_id e), snd (maybe_gc_in K (me_workspace e) records busy now mb')))"

definition deliver_notice ::
    "task_world \<Rightarrow> task_run_args \<Rightarrow> session_record list \<Rightarrow> session_record \<Rightarrow> string \<Rightarrow> task_result_record \<Rightarrow>
     task_effect list \<times> notice_record" where
  "deliver_notice w args records r workspace result =
     (let failed = (\<lambda>e. skipped ''failed'' (tw_error_text w e));
          tag = (case ta_notify_to args of Some t \<Rightarrow> t | None \<Rightarrow> ''main'') in
      case build_recipient records workspace (Some tag) False None False of
        Inl e \<Rightarrow> ([], failed e)
      | Inr to \<Rightarrow>
          (let e = notice_envelope w r workspace to result in
           if MAX_BODY_BYTES < length (me_body e) then ([], failed BodyTooLarge)
           else case tw_mailbox w workspace of
             Inl err \<Rightarrow> ([], failed err)
           | Inr mb \<Rightarrow>
               (case finish_send_inbox (tw_codec w) records (tw_busy w) (tw_now_secs w) e mb of
                  (Inl err, mb') \<Rightarrow> ([SendNotice workspace mb'], failed err)
                | (Inr mid, mb') \<Rightarrow>
                    ([SendNotice workspace mb'], \<lparr> nr_status = ''sent'', nr_message_id = Some mid, nr_detail = None \<rparr>))))"

definition send_task_notice :: "task_world \<Rightarrow> task_run_args \<Rightarrow> task_result_record \<Rightarrow> task_effect list \<times> notice_record" where
  "send_task_notice w args result =
     (case tw_records w of
        None \<Rightarrow> ([], skipped ''failed'' ''list records'')
      | Some records \<Rightarrow>
          (case tw_session w of
             None \<Rightarrow> ([], skipped ''no-session-identity'' ''no APLEXER_SESSION_ID in this environment or its ancestors'')
           | Some sid \<Rightarrow>
               (case find (\<lambda>r. sr_id r = sid) records of
                  None \<Rightarrow> ([], skipped ''identity-unresolved'' ''no record in this state directory'')
                | Some r \<Rightarrow>
                    (case (case ta_notify_workspace args of None \<Rightarrow> Some (sr_workspace r) | Some d \<Rightarrow> tw_canonical w d) of
                       None \<Rightarrow> ([], skipped ''failed'' ''canonical workspace'')
                     | Some workspace \<Rightarrow> deliver_notice w args records r workspace result))))"

text \<open>The launch: resolve, route by the cutoff, and resolve again when the engine changed.\<close>

definition task_launch :: "host \<Rightarrow> task_world \<Rightarrow> task_run_args \<Rightarrow> config \<Rightarrow> string \<Rightarrow> env \<Rightarrow> task_error + (string \<times> resolved_launch)" where
  "task_launch h w args c cwd overrides =
     (let resolve = (\<lambda>engine. case resolve_launch h c [] engine (ta_profile args) cwd (ta_cwd args) overrides no_limits None of
            Inl e \<Rightarrow> Inl (ConfigFailed e) | Inr l \<Rightarrow> Inr l) in
      res_bind (resolve (ta_engine args)) (\<lambda>default_launch.
      res_bind (case route_engine (ln_engine default_launch) (ta_cutoff args) (ta_cutoff_engine args) (tw_started_ms w) of
                  Inl e \<Rightarrow> Inl (RouteFailed e) | Inr e \<Rightarrow> Inr e) (\<lambda>engine.
      if engine = ln_engine default_launch then Inr (engine, default_launch)
      else res_bind (resolve (Some engine)) (\<lambda>l. Inr (engine, l)))))"

text \<open>Everything decided before the output directory is touched.\<close>

record task_plan =
  tp_engine :: string
  tp_launch :: resolved_launch
  tp_argv :: "string list"
  tp_prompt :: string
  tp_start :: task_start_record

definition make_plan ::
    "task_world \<Rightarrow> task_run_args \<Rightarrow> string \<Rightarrow> resolved_launch \<Rightarrow> string list \<Rightarrow> bytes \<Rightarrow> string \<Rightarrow> task_plan" where
  "make_plan w args engine launch task_argv raw prompt =
     (let argv = assemble_argv launch engine task_argv (ta_no_skip_permissions args) (ta_engine_args args);
          output_dir = (case ta_output_dir args of Some d \<Rightarrow> d
            | None \<Rightarrow> default_output_dir (tw_simple w) (ln_cwd launch) engine (tw_started_ms w) (tw_task_id w))
      in \<lparr> tp_engine = engine, tp_launch = launch, tp_argv = argv, tp_prompt = prompt,
           tp_start = \<lparr> tr_schema_version = TASK_RECORD_SCHEMA_VERSION, tr_task_id = tw_task_id w,
             tr_engine = engine, tr_profile = ln_profile launch,
             tr_argv = record_argv argv (length raw) (tw_sha256 w raw),
             tr_prompt_path = ta_prompt_file args, tr_prompt_bytes = length raw, tr_prompt_sha256 = tw_sha256 w raw,
             tr_cwd = ln_cwd launch, tr_output_dir = output_dir, tr_parent = current_task_parent w,
             tr_started_at = rfc3339_utc (tw_started_ms w), tr_started_ms = tw_started_ms w \<rparr> \<rparr>)"

definition plan_launch :: "task_world \<Rightarrow> task_run_args \<Rightarrow> config \<Rightarrow> string \<Rightarrow> resolved_launch \<Rightarrow> task_error + task_plan" where
  "plan_launch w args c engine launch =
     (case task_argv_for c launch engine of
        None \<Rightarrow> Inl NoTaskArgv
      | Some task_argv \<Rightarrow>
          (case tw_prompt w of
             None \<Rightarrow> Inl PromptUnreadable
           | Some (_, None) \<Rightarrow> Inl PromptNotUtf8
           | Some (raw, Some prompt) \<Rightarrow> Inr (make_plan w args engine launch task_argv raw prompt)))"

definition plan_task :: "host \<Rightarrow> task_world \<Rightarrow> task_run_args \<Rightarrow> task_error + task_plan" where
  "plan_task h w args =
     (case tw_canonical w (case ta_cwd args of Some d \<Rightarrow> d | None \<Rightarrow> ''.'') of
        None \<Rightarrow> Inl WorkspaceFailed
      | Some cwd \<Rightarrow>
          (case tw_config w of
             Inl e \<Rightarrow> Inl (ConfigFailed e)
           | Inr c \<Rightarrow>
               (case parse_env (ta_env args) of
                  None \<Rightarrow> Inl BadEnv
                | Some overrides \<Rightarrow>
                    res_bind (task_launch h w args c cwd overrides) (\<lambda>(engine, launch). plan_launch w args c engine launch))))"

definition task_result :: "task_world \<Rightarrow> task_start_record \<Rightarrow> (task_error + child_outcome) \<Rightarrow> notice_record \<Rightarrow> task_result_record" where
  "task_result w st outcome notice =
     task_start_record.extend st \<lparr>
       rr_stdout_log = path_join (tr_output_dir st) ''stdout.log'', rr_stderr_log = path_join (tr_output_dir st) ''stderr.log'',
       rr_ended_at = rfc3339_utc (tw_ended_ms w), rr_ended_ms = tw_ended_ms w,
       rr_exit_code = (case outcome of Inl _ \<Rightarrow> 127 | Inr oc \<Rightarrow> co_exit_code oc),
       rr_exit_signal = (case outcome of Inl _ \<Rightarrow> None | Inr oc \<Rightarrow> co_exit_signal oc),
       rr_timed_out = (case outcome of Inl _ \<Rightarrow> False | Inr oc \<Rightarrow> co_timed_out oc),
       rr_error = (case outcome of Inl e \<Rightarrow> Some e | Inr _ \<Rightarrow> None),
       rr_notice = notice \<rparr>"

text \<open>The deadline, in milliseconds: \<open>--timeout-secs 0\<close> never times out.\<close>

definition task_deadline :: "task_world \<Rightarrow> task_run_args \<Rightarrow> nat option" where
  "task_deadline w args =
     (case ta_timeout_secs args of Some secs \<Rightarrow> if 0 < secs then Some (tw_spawn_instant w + 1000 * secs) else None | None \<Rightarrow> None)"

text \<open>
  The command: \<open>None\<close> is a command that is still waiting for the child, \<open>Inl\<close> an error that is
  returned, \<open>Inr\<close> the written result. The last effect of a run that wrote its result is the exit.
\<close>

definition settle_task ::
    "task_world \<Rightarrow> task_run_args \<Rightarrow> task_start_record \<Rightarrow> (task_error + child_outcome) \<Rightarrow>
     task_effect list \<times> (task_error + task_result_record)" where
  "settle_task w args st outcome =
     (case outcome of
        Inl e \<Rightarrow>
          (let result = task_result w st outcome (skipped ''failed'' ''task child never started'') in
           if tw_write_result w then ([WriteResult, Exit 127], Inr result) else ([], Inl RecordWriteFailed))
      | Inr oc \<Rightarrow>
          (let pending = task_result w st outcome (skipped ''pending'' []);
               (effects, notice) = (if ta_no_notify args then ([], skipped ''disabled'' ''--no-notify'')
                 else send_task_notice w args pending);
               result = pending \<lparr> rr_notice := notice \<rparr> in
           if tw_write_result w then (effects @ [WriteResult, Exit (rr_exit_code result)], Inr result)
           else (effects, Inl RecordWriteFailed)))"

definition cmd_task ::
    "host \<Rightarrow> task_world \<Rightarrow> task_run_args \<Rightarrow> (task_effect list \<times> (task_error + task_result_record)) option" where
  "cmd_task h w args =
     (case plan_task h w args of
        Inl e \<Rightarrow> Some ([], Inl e)
      | Inr plan \<Rightarrow>
          let st = tp_start plan; dir = tr_output_dir st in
          if tw_exists w dir \<and> \<not> ta_overwrite args \<and> tw_exists w (result_path dir) then Some ([], Inl ResultExists)
          else if \<not> tw_mkdir w then Some ([], Inl OutputDirFailed)
          else if \<not> tw_write_start w then Some ([], Inl RecordWriteFailed)
          else
            map_option (\<lambda>(effects, outcome).
                let (more, r) = settle_task w args st outcome in ([WriteStart] @ effects @ more, r))
              (run_task_child (tw_inherited w) (tw_child w) (tp_argv plan @ [tp_prompt plan]) (ln_cwd (tp_launch plan))
                (ln_env (tp_launch plan)) (ln_env_unset (tp_launch plan))
                (path_join dir ''stdout.log'') (path_join dir ''stderr.log'') (task_deadline w args)))"

end
