(* ===== verification/Task_Laws.thy ===== *)
theory Task_Laws
  imports Task_Run Mailbox_Samples
begin

text \<open>
  The contract of \<open>a task run\<close>: what the child sees, what is signalled, in which order the evidence is
  written, and which status the command ends with.
\<close>

section \<open>Stripped variables\<close>

lemma push_unique_keeps: "set out \<subseteq> set (push_unique out names)"
  by (induction names arbitrary: out) (auto simp: Let_def, force+)

lemma push_unique_adds: "n \<in> set names \<Longrightarrow> trim_utf8 n \<noteq> [] \<Longrightarrow> trim_utf8 n \<in> set (push_unique out names)"
proof (induction names arbitrary: out)
  case (Cons m names)
  have k: "set xs \<subseteq> set (push_unique xs names)" for xs by (rule push_unique_keeps)
  show ?case
  proof (cases "n = m")
    case True
    then show ?thesis using Cons.prems k [of "out @ [trim_utf8 m]"] k [of out] by (auto simp: Let_def)
  next
    case False
    then show ?thesis using Cons by (simp add: Let_def)
  qed
qed simp

lemma provider_names_graphic:
  "list_all (\<lambda>v. v \<noteq> [] \<and> is_ascii_graphic (hd v) \<and> is_ascii_graphic (last v)) PROVIDER_ENV_UNSET_VARS"
  by (simp add: PROVIDER_ENV_UNSET_VARS_def is_ascii_graphic_def)

lemma provider_unset:
  assumes "v \<in> set PROVIDER_ENV_UNSET_VARS" "name \<noteq> ''shell''"
  shows "v \<in> set (resolved_env_unset engine name)"
proof -
  have "v \<noteq> []" "is_ascii_graphic (hd v)" "is_ascii_graphic (last v)"
    using provider_names_graphic assms(1) by (auto simp: list_all_iff)
  then have "trim_utf8 v = v" by (rule trim_graphic)
  with \<open>v \<noteq> []\<close> show ?thesis
    using assms push_unique_adds [of v "PROVIDER_ENV_UNSET_VARS @ ec_env_unset engine" "[]"]
    by (simp add: resolved_env_unset_def ordered_unique_env_names_def)
qed

section \<open>The child\<close>

definition signals_only :: "nat \<Rightarrow> task_effect list \<Rightarrow> bool" where
  "signals_only pid effects \<longleftrightarrow> set effects \<subseteq> {KillGroup (- int pid)}"

lemma wait_child_effects:
  "wait_child pid deadline final polls clock = Some (effects, r) \<Longrightarrow> signals_only pid effects"
  by (induction pid deadline final polls clock rule: wait_child.induct)
    (auto simp: signals_only_def kill_child_group_def split: option.splits list.splits if_splits)

lemma run_task_child_effects:
  assumes "run_task_child inh cs argv cwd es eu out err dl = Some (effects, r)"
  shows "\<exists>created. set created \<subseteq> {CreateFile out, CreateFile err} \<and>
    (effects = created \<and> (\<exists>e. r = Inl e) \<or>
     (\<exists>pid kills. cs_pid cs = Some pid \<and> signals_only pid kills \<and>
        effects = created @ Spawn argv cwd (child_env inh es eu) # kills))"
  using assms wait_child_effects unfolding run_task_child_def
  by (auto split: if_splits option.splits intro: exI [of _ "[]"] exI [of _ "[CreateFile out]"]
      exI [of _ "[CreateFile out, CreateFile err]"])

lemma wait_child_returns:
  assumes "deadline = Some d" "k < length polls" "k < length clock" "d \<le> clock ! k"
  shows "wait_child pid deadline final polls clock \<noteq> None"
  using assms
proof (induction pid deadline final polls clock arbitrary: k rule: wait_child.induct)
  case (4 pid deadline final polls clock)
  then obtain now clock' where c: "clock = now # clock'" by (cases clock) auto
  show ?case
  proof (cases "d \<le> now")
    case False
    then obtain j where "k = Suc j" using 4 c by (cases k) auto
    with 4 c False show ?thesis by auto
  qed (use 4 c in simp)
qed auto

section \<open>The plan\<close>

lemma task_launch_resolved:
  assumes "task_launch h w args c cwd ov = Inr (engine, l)"
  obtains en where "resolve_launch h c [] en (ta_profile args) cwd (ta_cwd args) ov no_limits None = Inr l"
  using assms that unfolding task_launch_def
  by (auto simp: Let_def res_bind_eq_Inr split: sum.splits if_splits)

lemma plan_task_launch:
  assumes "plan_task h w args = Inr plan"
  obtains c cwd ov task_argv raw where "tw_config w = Inr c" "parse_env (ta_env args) = Some ov"
    "task_launch h w args c cwd ov = Inr (tp_engine plan, tp_launch plan)"
    "task_argv_for c (tp_launch plan) (tp_engine plan) = Some task_argv"
    "tp_argv plan = assemble_argv (tp_launch plan) (tp_engine plan) task_argv (ta_no_skip_permissions args) (ta_engine_args args)"
    "tw_prompt w = Some (raw, Some (tp_prompt plan))"
    "tr_argv (tp_start plan) = record_argv (tp_argv plan) (length raw) (tw_sha256 w raw)"
    "tr_engine (tp_start plan) = tp_engine plan"
proof -
  obtain c cwd ov engine launch where a: "tw_config w = Inr c" "parse_env (ta_env args) = Some ov"
    "task_launch h w args c cwd ov = Inr (engine, launch)" "plan_launch w args c engine launch = Inr plan"
    using assms unfolding plan_task_def by (auto simp: res_bind_eq_Inr split: option.splits sum.splits)
  obtain task_argv raw prompt where b: "task_argv_for c launch engine = Some task_argv" "tw_prompt w = Some (raw, Some prompt)"
    "plan = make_plan w args engine launch task_argv raw prompt"
    using a(4) unfolding plan_launch_def by (auto split: option.splits)
  show thesis by (rule that [of c ov cwd task_argv raw]) (use a b in \<open>simp_all add: make_plan_def Let_def\<close>)
qed

lemma plan_task_unset:
  assumes "plan_task h w args = Inr plan" "ln_engine (tp_launch plan) \<noteq> ''shell''" "v \<in> set PROVIDER_ENV_UNSET_VARS"
  shows "v \<in> set (ln_env_unset (tp_launch plan))"
proof -
  obtain c cwd ov where "task_launch h w args c cwd ov = Inr (tp_engine plan, tp_launch plan)"
    using plan_task_launch [OF assms(1)] by metis
  then obtain en where r: "resolve_launch h c [] en (ta_profile args) cwd (ta_cwd args) ov no_limits None = Inr (tp_launch plan)"
    by (rule task_launch_resolved)
  show ?thesis by (rule resolve_launch_Inr [OF r]) (use provider_unset [OF assms(3,2)] in simp)
qed

lemma cmd_task_cases:
  assumes "cmd_task h w args = Some (effects, r)"
  obtains (refused) e where "effects = []" "r = Inl e"
  | (ran) plan ran outcome rest where "plan_task h w args = Inr plan"
      "\<not> (tw_exists w (tr_output_dir (tp_start plan)) \<and> \<not> ta_overwrite args \<and> tw_exists w (result_path (tr_output_dir (tp_start plan))))"
      "run_task_child (tw_inherited w) (tw_child w) (tp_argv plan @ [tp_prompt plan]) (ln_cwd (tp_launch plan))
         (ln_env (tp_launch plan)) (ln_env_unset (tp_launch plan)) (path_join (tr_output_dir (tp_start plan)) ''stdout.log'')
         (path_join (tr_output_dir (tp_start plan)) ''stderr.log'') (task_deadline w args) = Some (ran, outcome)"
      "settle_task w args (tp_start plan) outcome = (rest, r)" "effects = WriteStart # ran @ rest"
proof (cases "plan_task h w args")
  case (Inl e)
  then show ?thesis using assms that(1) [of e] by (simp add: cmd_task_def)
next
  case (Inr plan)
  let ?dir = "tr_output_dir (tp_start plan)"
  let ?run = "run_task_child (tw_inherited w) (tw_child w) (tp_argv plan @ [tp_prompt plan]) (ln_cwd (tp_launch plan))
         (ln_env (tp_launch plan)) (ln_env_unset (tp_launch plan)) (path_join ?dir ''stdout.log'') (path_join ?dir ''stderr.log'')
         (task_deadline w args)"
  consider (early) e where "effects = []" "r = Inl e"
    | (child) x where "\<not> (tw_exists w ?dir \<and> \<not> ta_overwrite args \<and> tw_exists w (result_path ?dir))" "?run = Some x"
      "(effects, r) = (WriteStart # fst x @ fst (settle_task w args (tp_start plan) (snd x)), snd (settle_task w args (tp_start plan) (snd x)))"
    using assms unfolding cmd_task_def Inr
    by (auto simp: Let_def case_prod_beta split: if_splits)
  then show ?thesis
  proof cases
    case child
    then show ?thesis
      by (intro that(2) [of plan "fst x" "snd x" "fst (settle_task w args (tp_start plan) (snd x))"]) (use Inr in auto)
  qed (rule that(1))
qed

lemma send_task_notice_effects: "f \<in> set (fst (send_task_notice w args result)) \<Longrightarrow> \<exists>ws mb. f = SendNotice ws mb"
  by (auto simp: send_task_notice_def deliver_notice_def Let_def split: option.splits sum.splits if_splits prod.splits)

lemma settle_task_effects:
  assumes "settle_task w args st outcome = (rest, r)"
  shows "set rest \<subseteq> {WriteResult} \<union> range Exit \<union> {e. \<exists>ws mb. e = SendNotice ws mb}"
    and "r = Inr result \<Longrightarrow> \<exists>pre. rest = pre @ [WriteResult, Exit (rr_exit_code result)] \<and> (\<forall>f \<in> set pre. \<exists>ws mb. f = SendNotice ws mb)"
    and "r = Inr result \<Longrightarrow> rr_exit_code result = (case outcome of Inl _ \<Rightarrow> 127 | Inr oc \<Rightarrow> co_exit_code oc)"
    and "r = Inr result \<Longrightarrow> rr_timed_out result = (case outcome of Inl _ \<Rightarrow> False | Inr oc \<Rightarrow> co_timed_out oc)"
    and "r = Inr result \<Longrightarrow> tr_argv result = tr_argv st"
  using assms send_task_notice_effects [of _ w args]
  by (auto simp: settle_task_def task_result_def Let_def task_start_record.defs
      split: sum.splits if_splits prod.splits) (metis fst_conv)+

section \<open>Properties\<close>

text \<open>
  C31: The child of a task run with any engine but the literal \<open>shell\<close> is started without a single
  provider key, whatever the engine's own list of removals, the profile, the overrides and the
  inherited environment say. The \<open>shell\<close> engine is exempt by design: only the names its configuration
  lists are removed, so a task run with it keeps the keys that reach it.
\<close>

theorem task_child_has_no_provider_keys:
  assumes "cmd_task h w args = Some (effects, r)" "Spawn argv cwd e \<in> set effects"
    and "plan_task h w args = Inr plan" "ln_engine (tp_launch plan) \<noteq> ''shell''" "v \<in> set PROVIDER_ENV_UNSET_VARS"
  shows "e v = None"
  using assms(1)
proof (cases rule: cmd_task_cases)
  case refused
  then show ?thesis using assms(2) by simp
next
  case (ran plan' ran outcome rest)
  have plan: "plan' = plan" using ran(1) assms(3) by simp
  have "Spawn argv cwd e \<in> set ran"
    using assms(2) ran(5) settle_task_effects(1) [OF ran(4)] by auto
  then have "e = child_env (tw_inherited w) (ln_env (tp_launch plan)) (ln_env_unset (tp_launch plan))"
    using run_task_child_effects [OF ran(3)] unfolding plan by (auto simp: signals_only_def)
  then show ?thesis using plan_task_unset [OF assms(3-5)] by (simp add: child_env_def)
qed

text \<open>
  C32: The evidence and the status of a task. A run that ends with a result has written START before
  anything else, has started at most one child, whose last argument is the prompt, has signalled
  nothing but that child's own process group, has written RESULT once, and exits with the recorded
  code, which is the child's (127 when it could not be run); the recorded argument vector is the
  child's with the prompt replaced by its size and digest; a completed result is never run over
  without \<open>--overwrite\<close>.
\<close>

theorem task_run_contract:
  assumes "cmd_task h w args = Some (effects, Inr result)"
  shows "\<exists>plan created middle pre outcome raw.
    plan_task h w args = Inr plan \<and>
    effects = WriteStart # created @ middle @ pre @ [WriteResult, Exit (rr_exit_code result)] \<and>
    (\<forall>f \<in> set pre. \<exists>ws mb. f = SendNotice ws mb) \<and> (\<forall>f \<in> set created. \<exists>p. f = CreateFile p) \<and>
    (middle = [] \<and> rr_exit_code result = 127 \<or>
     (\<exists>pid kills cwd e. cs_pid (tw_child w) = Some pid \<and> set kills \<subseteq> {KillGroup (- int pid)} \<and>
        middle = Spawn (tp_argv plan @ [tp_prompt plan]) cwd e # kills)) \<and>
    rr_exit_code result = (case outcome of Inl _ \<Rightarrow> 127 | Inr oc \<Rightarrow> co_exit_code oc) \<and>
    (\<exists>ran. run_task_child (tw_inherited w) (tw_child w) (tp_argv plan @ [tp_prompt plan]) (ln_cwd (tp_launch plan))
       (ln_env (tp_launch plan)) (ln_env_unset (tp_launch plan)) (path_join (tr_output_dir (tp_start plan)) ''stdout.log'')
       (path_join (tr_output_dir (tp_start plan)) ''stderr.log'') (task_deadline w args) = Some (ran, outcome)) \<and>
    tr_argv result = record_argv (tp_argv plan) (length raw) (tw_sha256 w raw) \<and>
    tw_prompt w = Some (raw, Some (tp_prompt plan)) \<and>
    \<not> (tw_exists w (tr_output_dir (tp_start plan)) \<and> \<not> ta_overwrite args \<and> tw_exists w (result_path (tr_output_dir (tp_start plan))))"
  using assms
proof (cases rule: cmd_task_cases)
  case (ran plan ran outcome rest)
  obtain pre where pre: "rest = pre @ [WriteResult, Exit (rr_exit_code result)]" "(\<forall>f \<in> set pre. \<exists>ws mb. f = SendNotice ws mb)"
    using settle_task_effects(2) [OF ran(4)] by blast
  have code: "rr_exit_code result = (case outcome of Inl _ \<Rightarrow> 127 | Inr oc \<Rightarrow> co_exit_code oc)"
    using settle_task_effects(3) [OF ran(4)] by blast
  obtain raw where raw: "tw_prompt w = Some (raw, Some (tp_prompt plan))"
    "tr_argv (tp_start plan) = record_argv (tp_argv plan) (length raw) (tw_sha256 w raw)"
    using plan_task_launch [OF ran(1)] by metis
  have argv: "tr_argv result = record_argv (tp_argv plan) (length raw) (tw_sha256 w raw)"
    using settle_task_effects(5) [OF ran(4)] raw(2) by simp
  obtain created middle where c: "ran = created @ middle" "\<forall>f \<in> set created. \<exists>p. f = CreateFile p"
    "middle = [] \<and> rr_exit_code result = 127 \<or>
     (\<exists>pid kills cwd e. cs_pid (tw_child w) = Some pid \<and> set kills \<subseteq> {KillGroup (- int pid)} \<and>
        middle = Spawn (tp_argv plan @ [tp_prompt plan]) cwd e # kills)"
  proof -
    obtain created where cr: "set created \<subseteq> {CreateFile (path_join (tr_output_dir (tp_start plan)) ''stdout.log''),
        CreateFile (path_join (tr_output_dir (tp_start plan)) ''stderr.log'')}"
      and alt: "ran = created \<and> (\<exists>e. outcome = Inl e) \<or> (\<exists>pid kills. cs_pid (tw_child w) = Some pid \<and> signals_only pid kills \<and>
        ran = created @ Spawn (tp_argv plan @ [tp_prompt plan]) (ln_cwd (tp_launch plan))
          (child_env (tw_inherited w) (ln_env (tp_launch plan)) (ln_env_unset (tp_launch plan))) # kills)"
      using run_task_child_effects [OF ran(3)] by blast
    have files: "\<forall>f \<in> set created. \<exists>p. f = CreateFile p" using cr by blast
    from alt show thesis
    proof
      assume "ran = created \<and> (\<exists>e. outcome = Inl e)"
      then show thesis using that [of created "[]"] files code by auto
    next
      assume "\<exists>pid kills. cs_pid (tw_child w) = Some pid \<and> signals_only pid kills \<and>
        ran = created @ Spawn (tp_argv plan @ [tp_prompt plan]) (ln_cwd (tp_launch plan))
          (child_env (tw_inherited w) (ln_env (tp_launch plan)) (ln_env_unset (tp_launch plan))) # kills"
      then show thesis using that files unfolding signals_only_def by blast
    qed
  qed
  show ?thesis
    by (rule exI [of _ plan], rule exI [of _ created], rule exI [of _ middle], rule exI [of _ pre],
        rule exI [of _ outcome], rule exI [of _ raw])
      (use ran(1,2,3,5) pre code raw(1) argv c in auto)
qed simp

text \<open>
  A task with a timeout ends: as soon as one clock reading has reached the deadline the wait
  loop returns, whatever the child does, and reports 124 when the kill left no exit code.
\<close>

theorem task_timeout_ends_wait:
  assumes "deadline = Some d" "k < length polls" "k < length clock" "d \<le> clock ! k"
  shows "\<exists>effects r. wait_child pid deadline final polls clock = Some (effects, r) \<and>
    set effects \<subseteq> {KillGroup (- int pid)} \<and>
    (effects \<noteq> [] \<longrightarrow> r = (case final of Inl _ \<Rightarrow> Inl WaitFailed
       | Inr status \<Rightarrow> Inr \<lparr> co_exit_code = (case xs_code status of Some c \<Rightarrow> c | None \<Rightarrow> 124),
           co_exit_signal = xs_signal status, co_timed_out = True \<rparr>))"
proof -
  obtain effects r where e: "wait_child pid deadline final polls clock = Some (effects, r)"
    using wait_child_returns [OF assms] by fastforce
  moreover have "effects \<noteq> [] \<longrightarrow> r = (case final of Inl _ \<Rightarrow> Inl WaitFailed
       | Inr status \<Rightarrow> Inr \<lparr> co_exit_code = (case xs_code status of Some c \<Rightarrow> c | None \<Rightarrow> 124),
           co_exit_signal = xs_signal status, co_timed_out = True \<rparr>)"
    using e by (induction pid deadline final polls clock rule: wait_child.induct)
      (auto split: option.splits list.splits if_splits)
  ultimately show ?thesis using wait_child_effects [OF e] by (auto simp: signals_only_def)
qed

section \<open>A sample task\<close>

text \<open>A child that ignores its timeout of one second and is killed.\<close>

definition sample_child :: child_script where
  "sample_child = \<lparr> cs_stdout = True, cs_stderr = True, cs_pid = Some 4242, cs_polls = [Inr None], cs_clock = [5000],
     cs_wait = Inr \<lparr> xs_code = None, xs_signal = Some 9 \<rparr> \<rparr>"

definition sample_task_world :: task_world where
  "sample_task_world = \<lparr> tw_started_ms = 0, tw_ended_ms = 6000, tw_task_id = 1, tw_simple = (\<lambda>_. ''00000001''),
     tw_session = None, tw_record = (\<lambda>_. None), tw_records = Some [], tw_canonical = Some,
     tw_config = load_config sample_toml sample_host, tw_prompt = Some ([104, 105], Some ''hi''), tw_sha256 = (\<lambda>_. ''ab''),
     tw_exists = (\<lambda>_. False), tw_mkdir = True, tw_write_start = True, tw_write_result = True,
     tw_inherited = (\<lambda>_. Some ''secret''), tw_child = sample_child, tw_spawn_instant = 0, tw_mailbox = (\<lambda>_. Inl MailboxBusy),
     tw_codec = sample_codec, tw_busy = (\<lambda>_. False), tw_message_id = 7, tw_now_secs = 6, tw_data_text = (\<lambda>_. []),
     tw_error_text = (\<lambda>_. []) \<rparr>"

definition sample_task_args :: task_run_args where
  "sample_task_args = \<lparr> ta_prompt_file = ''p'', ta_engine = None, ta_profile = Some ''zcodex'', ta_cwd = None,
     ta_output_dir = Some ''/out'', ta_timeout_secs = Some 1, ta_engine_args = [], ta_env = [''OPENAI_API_KEY=k''],
     ta_no_skip_permissions = False, ta_notify_to = None, ta_notify_workspace = None, ta_no_notify = True,
     ta_cutoff = None, ta_cutoff_engine = None, ta_overwrite = False \<rparr>"

lemma sample_plan:
  obtains plan where "plan_task sample_host sample_task_world sample_task_args = Inr plan"
    "ln_engine (tp_launch plan) = ''codex''" "tr_output_dir (tp_start plan) = ''/out''"
proof -
  define ov :: env where "ov = [(''OPENAI_API_KEY'', ''k'')]"
  obtain c l where c: "load_config sample_toml sample_host = Inr c"
    "resolve_launch sample_host c [] None (Some ''zcodex'') ''.'' None ov no_limits None = Inr l"
    "bt_get ''codex'' (cf_engines c) = Some sample_codex" "ln_engine l = ''codex''"
    by (rule sample_resolve)
  have e: "parse_env (ta_env sample_task_args) = Some ov"
    by (simp add: parse_env_def sample_task_args_def ov_def)
  have t: "task_launch sample_host sample_task_world sample_task_args c ''.'' ov = Inr (''codex'', l)"
    using c(2,4) by (simp add: task_launch_def sample_task_args_def route_engine_def)
  have "\<exists>a. task_argv_for c l ''codex'' = Some a"
    using c(3) by (cases "is_agy_launch l ''codex''")
      (simp_all add: task_argv_for_def sample_codex_def builtin_engine_def noninteractive_argv_def
        builtin_task_argv_def engine_family_def)
  then obtain a where a: "task_argv_for c l ''codex'' = Some a" ..
  show thesis
  proof (rule that)
    show "plan_task sample_host sample_task_world sample_task_args =
        Inr (make_plan sample_task_world sample_task_args ''codex'' l a [104, 105] ''hi'')"
    proof -
      have f: "tw_canonical sample_task_world = Some" "tw_config sample_task_world = Inr c" "ta_cwd sample_task_args = None"
        "tw_prompt sample_task_world = Some ([104, 105], Some ''hi'')"
        using c(1) by (simp_all add: sample_task_world_def sample_task_args_def)
      show ?thesis unfolding plan_task_def e f by (simp add: t plan_launch_def a f)
    qed
  qed (use c(4) in \<open>simp_all add: make_plan_def Let_def sample_task_args_def\<close>)
qed

lemma sample_cmd_task:
  assumes "plan_task sample_host sample_task_world sample_task_args = Inr plan"
  shows "\<exists>e result. cmd_task sample_host sample_task_world sample_task_args =
    Some ([WriteStart, CreateFile (path_join (tr_output_dir (tp_start plan)) ''stdout.log''),
       CreateFile (path_join (tr_output_dir (tp_start plan)) ''stderr.log''),
       Spawn (tp_argv plan @ [tp_prompt plan]) (ln_cwd (tp_launch plan)) e, KillGroup (- 4242), WriteResult, Exit 124], Inr result) \<and>
     rr_exit_code result = 124 \<and> rr_timed_out result"
  unfolding cmd_task_def assms
  by (simp add: run_task_child_def settle_task_def task_deadline_def task_result_def kill_child_group_def task_start_record.defs
      sample_task_world_def sample_task_args_def sample_child_def Let_def)

theorem task_child_has_no_provider_keys_witness:
  "\<exists>argv cwd e effects r. cmd_task sample_host sample_task_world sample_task_args = Some (effects, r) \<and>
     Spawn argv cwd e \<in> set effects \<and> e ''OPENAI_API_KEY'' = None"
proof -
  obtain plan where p: "plan_task sample_host sample_task_world sample_task_args = Inr plan" "ln_engine (tp_launch plan) = ''codex''"
    by (rule sample_plan)
  obtain e result effects where c: "cmd_task sample_host sample_task_world sample_task_args = Some (effects, Inr result)"
    "Spawn (tp_argv plan @ [tp_prompt plan]) (ln_cwd (tp_launch plan)) e \<in> set effects"
    using sample_cmd_task [OF p(1)] by force
  have "''OPENAI_API_KEY'' \<in> set PROVIDER_ENV_UNSET_VARS" by (simp add: PROVIDER_ENV_UNSET_VARS_def)
  from task_child_has_no_provider_keys [OF c p(1) _ this] p(2) c show ?thesis by auto
qed

theorem task_run_contract_witness:
  "\<exists>effects result. cmd_task sample_host sample_task_world sample_task_args = Some (effects, Inr result) \<and>
     rr_exit_code result = 124 \<and> last effects = Exit 124 \<and> hd effects = WriteStart"
proof -
  obtain plan where p: "plan_task sample_host sample_task_world sample_task_args = Inr plan" by (rule sample_plan)
  obtain effects result where c: "cmd_task sample_host sample_task_world sample_task_args = Some (effects, Inr result)"
    "rr_exit_code result = 124" using sample_cmd_task [OF p] by force
  from task_run_contract [OF c(1)] c show ?thesis by force
qed

theorem task_timeout_ends_wait_witness:
  "wait_child 4242 (Some 1000) (Inr \<lparr> xs_code = None, xs_signal = Some 9 \<rparr>) [Inr None, Inr None] [500, 1500] =
     Some ([KillGroup (- 4242)], Inr \<lparr> co_exit_code = 124, co_exit_signal = Some 9, co_timed_out = True \<rparr>)"
  using task_timeout_ends_wait [of "Some 1000" 1000 1 "[Inr None, Inr None]" "[500, 1500]" 4242 "Inr \<lparr> xs_code = None, xs_signal = Some 9 \<rparr>"]
  by (simp add: kill_child_group_def)

text \<open>
  Two observations. A failed \<open>try_wait\<close> or \<open>wait\<close> after the child was started is recorded as a
  child that never started; and a profile with a whole command keeps it when the cutoff routes the
  launch to another engine, so the child is not that engine.
\<close>

lemma failed_wait_reported_as_never_started:
  assumes "cs_stdout cs" "cs_stderr cs" "cs_pid cs = Some pid" "cs_polls cs = Inl () # polls" "argv \<noteq> []" "tw_write_result w"
  shows "\<exists>effects r result. run_task_child inh cs argv cwd es eu out err dl = Some (effects, r) \<and>
    Spawn argv cwd (child_env inh es eu) \<in> set effects \<and>
    settle_task w args st r = ([WriteResult, Exit 127], Inr result) \<and>
    rr_notice result = skipped ''failed'' ''task child never started''"
  using assms by (simp add: run_task_child_def settle_task_def task_result_def task_start_record.defs)

lemma cutoff_keeps_profile_command:
  assumes "bt_get p (cf_profiles c) = Some profile" "pf_command profile = Some command"
    and "resolve_launch h c [] (Some engine) (Some p) ws cwd ov no_limits None = Inr l"
    and "bt_get engine (cf_engines c) = Some e"
  shows "ln_engine l = engine" "ln_command l = command"
  using assms
  by (auto simp: resolve_launch_def effective_engine_def find_profile_def pick_profile_def or_else_def build_argv_def Let_def
      res_bind_eq_Inr split: if_splits option.splits)

end
