(* ===== verification/Handoff.thy ===== *)
theory Handoff
  imports Task_Run
begin

text \<open>
  The handoff schedule of \<open>src/handoff_schedule.rs\<close> and its commands
  (\<open>src/bin/aplexer/handoff_schedule_commands.rs\<close>): one state file, one marker file for each fired slot,
  the decision whether a launch is due, and \<open>enable\<close>, \<open>disable\<close>, \<open>status\<close> and \<open>fire\<close>. The owned
  directory is a record; the time zone rules of libc (\<open>localtime_r\<close>, \<open>mktime\<close>) and the JSON
  encoding are parameters. Any number of timers may call \<open>fire\<close> at once: \<open>fire\<close> is also given as
  the sequence of its file system steps, which may interleave.
\<close>

section \<open>The schedule\<close>

record handoff_task_spec =
  hs_prompt_file :: string
  hs_engine :: "string option"
  hs_profile :: "string option"
  hs_cwd :: "string option"
  hs_timeout_secs :: "nat option"
  hs_engine_args :: "string list"
  hs_env :: "string list"
  hs_no_skip_permissions :: bool
  hs_notify_to :: "string option"
  hs_notify_workspace :: "string option"
  hs_no_notify :: bool
  hs_cutoff :: "string option"
  hs_cutoff_engine :: "string option"

record handoff_schedule =
  sd_schema_version :: nat
  sd_created_at :: string
  sd_at :: "string option"
  sd_task :: handoff_task_spec

definition HANDOFF_SCHEDULE_SCHEMA_VERSION :: nat where "HANDOFF_SCHEDULE_SCHEMA_VERSION = 1"

datatype handoff_error =
    PerLaunchOption | BadAt | CutoffPair | BadCutoff time_error | BadTaskEnv | PromptNotReadable
  | ScheduleIo | ScheduleParse | NewerSchema | ClockError | ClaimIo

text \<open>
  \<open><state>/task-handoff\<close>: whether the directory is there, the text of \<open>schedule.json\<close>, and the
  names in \<open>fired\<close> (\<open>None\<close> before that directory is first made).
\<close>

record handoff_files =
  hf_dir :: bool
  hf_schedule :: "string option"
  hf_fired :: "string list option"

record schedule_json =
  sj_encode :: "handoff_schedule \<Rightarrow> string"
  sj_decode :: "string \<Rightarrow> handoff_schedule option"

text \<open>\<open>read_ok\<close> is false when the read fails for another reason than that there is no file.\<close>

definition load_schedule :: "schedule_json \<Rightarrow> bool \<Rightarrow> handoff_files \<Rightarrow> handoff_error + handoff_schedule option" where
  "load_schedule js read_ok f =
     (if \<not> read_ok then Inl ScheduleIo
      else case hf_schedule f of
        None \<Rightarrow> Inr None
      | Some text \<Rightarrow>
          (case sj_decode js text of
             None \<Rightarrow> Inl ScheduleParse
           | Some s \<Rightarrow> if HANDOFF_SCHEDULE_SCHEMA_VERSION < sd_schema_version s then Inl NewerSchema else Inr (Some s)))"

definition save_schedule :: "schedule_json \<Rightarrow> handoff_schedule \<Rightarrow> handoff_files \<Rightarrow> handoff_files" where
  "save_schedule js s f = f \<lparr> hf_dir := True, hf_schedule := Some (sj_encode js s) \<rparr>"

definition slot_fired :: "handoff_files \<Rightarrow> string \<Rightarrow> bool" where
  "slot_fired f slot \<longleftrightarrow> (case hf_fired f of None \<Rightarrow> False | Some slots \<Rightarrow> slot \<in> set slots)"

text \<open>
  \<open>create_new\<close> either makes the marker or finds it. The answers of the system to a fire: the read of the
  schedule, the directory, the open, and the write of the body, which comes after the marker exists.
\<close>

record claim_io =
  ci_read :: bool
  ci_mkdir :: bool
  ci_open :: bool
  ci_write :: bool

definition claim_slot :: "claim_io \<Rightarrow> string \<Rightarrow> handoff_files \<Rightarrow> handoff_files \<times> (handoff_error + bool)" where
  "claim_slot io slot f =
     (if \<not> ci_mkdir io then (f, Inl ClaimIo)
      else let slots = (case hf_fired f of None \<Rightarrow> [] | Some slots \<Rightarrow> slots);
               f = f \<lparr> hf_dir := True, hf_fired := Some slots \<rparr> in
        if slot \<in> set slots then (f, Inr False)
        else if \<not> ci_open io then (f, Inl ClaimIo)
        else (f \<lparr> hf_fired := Some (slots @ [slot]) \<rparr>, if ci_write io then Inr True else Inl ClaimIo))"

definition fired_slots :: "handoff_files \<Rightarrow> string list" where
  "fired_slots f = (case hf_fired f of None \<Rightarrow> [] | Some slots \<Rightarrow> sort slots)"

text \<open>
  What a removal that fails half way has left: the schedule or not, and of the markers those that
  \<open>rm_markers\<close> says, with their directory or without.
\<close>

record removal_io =
  rm_ok :: bool
  rm_schedule :: bool
  rm_markers :: "(string \<Rightarrow> bool) option"

definition remove_handoff_state :: "removal_io \<Rightarrow> handoff_files \<Rightarrow> handoff_files \<times> (handoff_error + bool)" where
  "remove_handoff_state io f =
     (if \<not> hf_dir f then (f, Inr False)
      else if rm_ok io then (\<lparr> hf_dir = False, hf_schedule = None, hf_fired = None \<rparr>, Inr True)
      else (f \<lparr> hf_schedule := (if rm_schedule io then hf_schedule f else None),
              hf_fired := (case rm_markers io of None \<Rightarrow> None | Some keep \<Rightarrow> map_option (filter keep) (hf_fired f)) \<rparr>,
            Inl ScheduleIo))"

section \<open>The clock\<close>

record local_wall =
  lw_year :: int
  lw_month :: nat
  lw_day :: nat
  lw_hour :: nat
  lw_minute :: nat

definition date_key :: "local_wall \<Rightarrow> string" where
  "date_key wall = pad_int 4 (lw_year wall) @ ''-'' @ pad 2 (lw_month wall) @ ''-'' @ pad 2 (lw_day wall)"

text \<open>\<open>localtime_r\<close> and \<open>mktime\<close>; \<open>mktime\<close> answers a negative number on failure.\<close>

record time_zone =
  tz_local :: "int \<Rightarrow> local_wall option"
  tz_mktime :: "int \<Rightarrow> nat \<Rightarrow> nat \<Rightarrow> nat \<Rightarrow> nat \<Rightarrow> int"

definition local_epoch :: "time_zone \<Rightarrow> int \<Rightarrow> nat \<Rightarrow> nat \<Rightarrow> nat \<Rightarrow> nat \<Rightarrow> handoff_error + int" where
  "local_epoch tz year month day hour minute =
     (let epoch = tz_mktime tz year month day hour minute in if epoch < 0 then Inl ClockError else Inr epoch)"

definition local_wall_at :: "time_zone \<Rightarrow> int \<Rightarrow> handoff_error + local_wall" where
  "local_wall_at tz secs = (case tz_local tz secs of None \<Rightarrow> Inl ClockError | Some wall \<Rightarrow> Inr wall)"

definition parse_hhmm :: "string \<Rightarrow> handoff_error + nat \<times> nat" where
  "parse_hhmm raw =
     (case split_once (CHR '':'') raw of
        None \<Rightarrow> Inl BadAt
      | Some (hs, ms) \<Rightarrow>
          if length hs \<noteq> 2 \<or> length ms \<noteq> 2 then Inl BadAt
          else if \<not> list_all is_digit (ascii hs) \<or> \<not> list_all is_digit (ascii ms) then Inl BadAt
          else (case (parse_u32 hs, parse_u32 ms) of
              (Some hh, Some mm) \<Rightarrow> if 23 < hh \<or> 59 < mm then Inl BadAt else Inr (hh, mm)
            | _ \<Rightarrow> Inl BadAt))"

definition parse_at :: "string option \<Rightarrow> handoff_error + (nat \<times> nat) option" where
  "parse_at at = (case at of None \<Rightarrow> Inr None | Some raw \<Rightarrow> res_bind (parse_hhmm raw) (\<lambda>t. Inr (Some t)))"

datatype fire_decision = NotDue int | AlreadyFired string | Due string

definition evaluate ::
    "time_zone \<Rightarrow> local_wall \<Rightarrow> (nat \<times> nat) option \<Rightarrow> nat \<Rightarrow> (string \<Rightarrow> bool) \<Rightarrow> handoff_error + fire_decision" where
  "evaluate tz wall at now_ms fired =
     (case at of
        None \<Rightarrow>
          (let slot = date_key wall @ ''T'' @ pad 2 (lw_hour wall) @ pad 2 (lw_minute wall)
           in Inr (if fired slot then AlreadyFired slot else Due slot))
      | Some (hh, mm) \<Rightarrow>
          res_bind (local_epoch tz (lw_year wall) (lw_month wall) (lw_day wall) hh mm) (\<lambda>due.
            if int (now_ms div 1000) < due then Inr (NotDue due)
            else let slot = date_key wall in Inr (if fired slot then AlreadyFired slot else Due slot)))"

definition next_due :: "time_zone \<Rightarrow> (nat \<times> nat) option \<Rightarrow> nat \<Rightarrow> handoff_error + int" where
  "next_due tz at now_ms =
     (case at of
        None \<Rightarrow> Inr (int (now_ms div 1000))
      | Some (hh, mm) \<Rightarrow>
          res_bind (local_wall_at tz (int (now_ms div 1000))) (\<lambda>wall.
          res_bind (local_epoch tz (lw_year wall) (lw_month wall) (lw_day wall) hh mm) (\<lambda>due_today.
            if int (now_ms div 1000) < due_today then Inr due_today
            else res_bind (local_wall_at tz (due_today + 86400)) (\<lambda>tomorrow.
              local_epoch tz (lw_year tomorrow) (lw_month tomorrow) (lw_day tomorrow) hh mm))))"

section \<open>Commands\<close>

definition task_args_to_spec :: "task_run_args \<Rightarrow> handoff_task_spec" where
  "task_args_to_spec a = \<lparr> hs_prompt_file = ta_prompt_file a, hs_engine = ta_engine a, hs_profile = ta_profile a,
     hs_cwd = ta_cwd a, hs_timeout_secs = ta_timeout_secs a, hs_engine_args = ta_engine_args a, hs_env = ta_env a,
     hs_no_skip_permissions = ta_no_skip_permissions a, hs_notify_to = ta_notify_to a,
     hs_notify_workspace = ta_notify_workspace a, hs_no_notify = ta_no_notify a, hs_cutoff = ta_cutoff a,
     hs_cutoff_engine = ta_cutoff_engine a \<rparr>"

definition spec_to_task_args :: "handoff_task_spec \<Rightarrow> task_run_args" where
  "spec_to_task_args s = \<lparr> ta_prompt_file = hs_prompt_file s, ta_engine = hs_engine s, ta_profile = hs_profile s,
     ta_cwd = hs_cwd s, ta_output_dir = None, ta_timeout_secs = hs_timeout_secs s, ta_engine_args = hs_engine_args s,
     ta_env = hs_env s, ta_no_skip_permissions = hs_no_skip_permissions s, ta_notify_to = hs_notify_to s,
     ta_notify_workspace = hs_notify_workspace s, ta_no_notify = hs_no_notify s, ta_cutoff = hs_cutoff s,
     ta_cutoff_engine = hs_cutoff_engine s, ta_overwrite = False \<rparr>"

definition enabled_schedule :: "nat \<Rightarrow> string option \<Rightarrow> task_run_args \<Rightarrow> handoff_schedule" where
  "enabled_schedule now_ms at args = \<lparr> sd_schema_version = HANDOFF_SCHEDULE_SCHEMA_VERSION,
     sd_created_at = rfc3339_utc now_ms, sd_at = at, sd_task = task_args_to_spec args \<rparr>"

text \<open>\<open>readable\<close> is whether the prompt file can be opened; saving may fail as a whole.\<close>

definition enable_handoff ::
    "schedule_json \<Rightarrow> bool \<Rightarrow> bool \<Rightarrow> nat \<Rightarrow> string option \<Rightarrow> task_run_args \<Rightarrow> handoff_files \<Rightarrow> handoff_error + handoff_files" where
  "enable_handoff js readable writable now_ms at args f =
     (if ta_output_dir args \<noteq> None \<or> ta_overwrite args then Inl PerLaunchOption
      else res_bind (parse_at at) (\<lambda>_.
        if (ta_cutoff args \<noteq> None) \<noteq> (ta_cutoff_engine args \<noteq> None) then Inl CutoffPair
        else res_bind (case ta_cutoff args of None \<Rightarrow> Inr () | Some c \<Rightarrow>
            (case parse_offset_timestamp c of Inl e \<Rightarrow> Inl (BadCutoff e) | Inr _ \<Rightarrow> Inr ())) (\<lambda>_.
          if parse_env (ta_env args) = None then Inl BadTaskEnv
          else if \<not> readable then Inl PromptNotReadable
          else if \<not> writable then Inl ScheduleIo
          else Inr (save_schedule js (enabled_schedule now_ms at args) f))))"

definition disable_handoff :: "removal_io \<Rightarrow> handoff_files \<Rightarrow> handoff_files \<times> (handoff_error + bool)" where
  "disable_handoff io f = remove_handoff_state io f"

record handoff_status =
  hz_schedule :: "handoff_schedule option"
  hz_fired :: "string list"
  hz_next_due :: "int option"

definition status_handoff :: "schedule_json \<Rightarrow> time_zone \<Rightarrow> bool \<Rightarrow> nat \<Rightarrow> handoff_files \<Rightarrow> handoff_error + handoff_status" where
  "status_handoff js tz read_ok now_ms f =
     res_bind (load_schedule js read_ok f) (\<lambda>schedule.
     res_bind (parse_at (Option.bind schedule sd_at)) (\<lambda>at.
     res_bind (case (schedule, at) of
                 (Some _, Some t) \<Rightarrow> res_bind (next_due tz (Some t) now_ms) (\<lambda>d. Inr (Some d))
               | _ \<Rightarrow> Inr None) (\<lambda>due.
       Inr \<lparr> hz_schedule = schedule, hz_fired = fired_slots f, hz_next_due = due \<rparr>)))"

datatype fire_outcome =
    FireDisabled | FireNotDue int | FireAlready string | FireLost string | FireLaunched string task_run_args
  | FireFailed handoff_error

definition decide_fire :: "time_zone \<Rightarrow> nat \<Rightarrow> handoff_schedule \<Rightarrow> handoff_files \<Rightarrow> handoff_error + fire_decision" where
  "decide_fire tz now_ms s f =
     res_bind (parse_at (sd_at s)) (\<lambda>at.
     res_bind (local_wall_at tz (int (now_ms div 1000))) (\<lambda>wall.
       evaluate tz wall at now_ms (slot_fired f)))"

definition fire_handoff :: "schedule_json \<Rightarrow> time_zone \<Rightarrow> claim_io \<Rightarrow> nat \<Rightarrow> handoff_files \<Rightarrow> handoff_files \<times> fire_outcome" where
  "fire_handoff js tz io now_ms f =
     (case load_schedule js (ci_read io) f of
        Inl e \<Rightarrow> (f, FireFailed e)
      | Inr None \<Rightarrow> (f, FireDisabled)
      | Inr (Some s) \<Rightarrow>
          (case decide_fire tz now_ms s f of
             Inl e \<Rightarrow> (f, FireFailed e)
           | Inr (NotDue due) \<Rightarrow> (f, FireNotDue due)
           | Inr (AlreadyFired slot) \<Rightarrow> (f, FireAlready slot)
           | Inr (Due slot) \<Rightarrow>
               (case claim_slot io slot f of
                  (f', Inl e) \<Rightarrow> (f', FireFailed e)
                | (f', Inr False) \<Rightarrow> (f', FireLost slot)
                | (f', Inr True) \<Rightarrow> (f', FireLaunched slot (spec_to_task_args (sd_task s))))))"

section \<open>Fires that interleave\<close>

text \<open>
  The file system accesses of \<open>fire\<close> one at a time: read the schedule, look for the marker, create
  the marker, launch.
\<close>

datatype fire_pc =
    FireStart | FireLoaded handoff_schedule | FireDeciding handoff_schedule string
  | FireClaimed handoff_schedule string | FireDone fire_outcome

definition fire_step ::
    "schedule_json \<Rightarrow> time_zone \<Rightarrow> claim_io \<Rightarrow> nat \<Rightarrow> handoff_files \<Rightarrow> fire_pc \<Rightarrow> handoff_files \<times> fire_pc" where
  "fire_step js tz io now_ms f pc =
     (case pc of
        FireStart \<Rightarrow>
          (f, case load_schedule js (ci_read io) f of
                Inl e \<Rightarrow> FireDone (FireFailed e)
              | Inr None \<Rightarrow> FireDone FireDisabled
              | Inr (Some s) \<Rightarrow> FireLoaded s)
      | FireLoaded s \<Rightarrow>
          (f, case decide_fire tz now_ms s f of
                Inl e \<Rightarrow> FireDone (FireFailed e)
              | Inr (NotDue due) \<Rightarrow> FireDone (FireNotDue due)
              | Inr (AlreadyFired slot) \<Rightarrow> FireDone (FireAlready slot)
              | Inr (Due slot) \<Rightarrow> FireDeciding s slot)
      | FireDeciding s slot \<Rightarrow>
          (case claim_slot io slot f of
             (f', Inl e) \<Rightarrow> (f', FireDone (FireFailed e))
           | (f', Inr False) \<Rightarrow> (f', FireDone (FireLost slot))
           | (f', Inr True) \<Rightarrow> (f', FireClaimed s slot))
      | FireClaimed s slot \<Rightarrow> (f, FireDone (FireLaunched slot (spec_to_task_args (sd_task s))))
      | FireDone r \<Rightarrow> (f, FireDone r))"

record handoff_sys =
  hy_files :: handoff_files
  hy_procs :: "nat \<Rightarrow> fire_pc"
  hy_launched :: "string list"

text \<open>One step of the system: a fire advances, or a schedule is enabled.\<close>

inductive handoff_step :: "schedule_json \<Rightarrow> time_zone \<Rightarrow> handoff_sys \<Rightarrow> handoff_sys \<Rightarrow> bool" for js tz where
  fire: "fire_step js tz io now_ms (hy_files s) (hy_procs s i) = (f, pc) \<Longrightarrow>
    handoff_step js tz s (s \<lparr> hy_files := f, hy_procs := (hy_procs s)(i := pc),
      hy_launched := hy_launched s @ (case hy_procs s i of FireClaimed _ slot \<Rightarrow> [slot] | _ \<Rightarrow> []) \<rparr>)"
| enable: "enable_handoff js readable writable now_ms at args (hy_files s) = Inr f \<Longrightarrow>
    handoff_step js tz s (s \<lparr> hy_files := f \<rparr>)"

inductive_cases handoff_stepE: "handoff_step js tz s t"

definition handoff_start :: "handoff_files \<Rightarrow> handoff_sys" where
  "handoff_start f = \<lparr> hy_files = f, hy_procs = (\<lambda>_. FireStart), hy_launched = [] \<rparr>"

end
