(* ===== verification/Handoff_Laws.thy ===== *)
theory Handoff_Laws
  imports Handoff
begin

text \<open>
  The guarantees of the handoff schedule: at most one launch for each slot whatever the interleaving
  of the fires, the launch that was scheduled and no other, nothing after \<open>disable\<close>.
\<close>

definition markers :: "handoff_files \<Rightarrow> string set" where
  "markers f = (case hf_fired f of None \<Rightarrow> {} | Some slots \<Rightarrow> set slots)"

lemma slot_fired_markers: "slot_fired f slot \<longleftrightarrow> slot \<in> markers f"
  by (simp add: slot_fired_def markers_def split: option.splits)

lemma claim_slot_True:
  assumes "claim_slot io slot f = (f', Inr True)"
  shows "slot \<notin> markers f" "markers f' = insert slot (markers f)"
  using assms by (auto simp: claim_slot_def markers_def Let_def split: if_splits option.splits)

lemma claim_slot_mono: "claim_slot io slot f = (f', r) \<Longrightarrow> markers f \<subseteq> markers f'"
  by (auto simp: claim_slot_def markers_def Let_def split: if_splits option.splits)

lemma enable_markers: "enable_handoff js readable writable now_ms at args f = Inr f' \<Longrightarrow> markers f' = markers f"
  by (auto simp: enable_handoff_def save_schedule_def markers_def res_bind_eq_Inr split: if_splits)

section \<open>The invariant of the interleaved fires\<close>

text \<open>
  The claim of a slot is an exclusive resource. What a fire system has to promise for that, and what
  follows from it, without reference to how claims are stored.
\<close>

locale exclusive_claims =
  fixes step :: "'s \<Rightarrow> 's \<Rightarrow> bool"
    and taken :: "'s \<Rightarrow> 'k set"
    and holder :: "'s \<Rightarrow> nat \<Rightarrow> 'k option"
    and used :: "'s \<Rightarrow> 'k list"
  assumes step_cases: "step s t \<Longrightarrow>
      (holder t = holder s \<and> used t = used s \<and> taken s \<subseteq> taken t) \<or>
      (\<exists>i k. holder s i = None \<and> k \<notin> taken s \<and> holder t = (holder s)(i := Some k) \<and> used t = used s \<and> insert k (taken s) \<subseteq> taken t) \<or>
      (\<exists>i k. holder s i = Some k \<and> holder t = (holder s)(i := None) \<and> used t = used s @ [k] \<and> taken s \<subseteq> taken t)"
begin

definition exclusive :: "'s \<Rightarrow> bool" where
  "exclusive s \<longleftrightarrow> distinct (used s) \<and> set (used s) \<subseteq> taken s \<and>
     (\<forall>i k. holder s i = Some k \<longrightarrow> k \<in> taken s \<and> k \<notin> set (used s) \<and> (\<forall>j. holder s j = Some k \<longrightarrow> j = i))"

lemma exclusive_step:
  assumes "exclusive s" "step s t"
  shows "exclusive t \<and> taken s \<subseteq> taken t"
  using step_cases [OF assms(2)]
proof (elim disjE exE conjE)
  assume "holder t = holder s" "used t = used s" "taken s \<subseteq> taken t"
  then show ?thesis using assms(1) unfolding exclusive_def by auto
next
  fix i k
  assume a: "holder s i = None" "k \<notin> taken s" "holder t = (holder s)(i := Some k)" "used t = used s" "insert k (taken s) \<subseteq> taken t"
  then show ?thesis using assms(1) unfolding exclusive_def by (auto split: if_splits)
next
  fix i k
  assume a: "holder s i = Some k" "holder t = (holder s)(i := None)" "used t = used s @ [k]" "taken s \<subseteq> taken t"
  then show ?thesis using assms(1) unfolding exclusive_def by (auto split: if_splits)
qed

lemma exclusive_run:
  assumes "step\<^sup>*\<^sup>* s t" "exclusive s"
  shows "exclusive t \<and> taken s \<subseteq> taken t"
  using assms
proof (induction rule: rtranclp_induct)
  case (step t u)
  then show ?case using exclusive_step by blast
qed simp

end

definition claim_held :: "handoff_sys \<Rightarrow> nat \<Rightarrow> string option" where
  "claim_held s i = (case hy_procs s i of FireClaimed _ slot \<Rightarrow> Some slot | _ \<Rightarrow> None)"

definition hy_markers :: "handoff_sys \<Rightarrow> string set" where
  "hy_markers s = markers (hy_files s)"

lemma fire_step_held:
  assumes "fire_step js tz io now_ms f pc = (f', pc')"
  shows "(\<exists>s slot. pc = FireDeciding s slot \<and> pc' = FireClaimed s slot \<and> slot \<notin> markers f \<and> markers f' = insert slot (markers f)) \<or>
    (\<exists>s slot. pc = FireClaimed s slot \<and> (\<forall>s slot. pc' \<noteq> FireClaimed s slot) \<and> f' = f) \<or>
    ((\<forall>s slot. pc \<noteq> FireClaimed s slot) \<and> (\<forall>s slot. pc' \<noteq> FireClaimed s slot) \<and> markers f \<subseteq> markers f')"
proof (cases pc)
  case (FireDeciding s slot)
  obtain f'' r where c: "claim_slot io slot f = (f'', r)" by (cases "claim_slot io slot f")
  show ?thesis
  proof (cases "r = Inr True")
    case True
    then show ?thesis using assms FireDeciding c claim_slot_True by (auto simp: fire_step_def)
  next
    case False
    then show ?thesis using assms FireDeciding c claim_slot_mono [OF c]
      by (auto simp: fire_step_def split: sum.splits bool.splits)
  qed
qed (use assms in \<open>auto simp: fire_step_def split: sum.splits option.splits fire_decision.splits\<close>)

lemma handoff_step_claims:
  assumes "handoff_step js tz s t"
  shows "(claim_held t = claim_held s \<and> hy_launched t = hy_launched s \<and> hy_markers s \<subseteq> hy_markers t) \<or>
      (\<exists>i k. claim_held s i = None \<and> k \<notin> hy_markers s \<and> claim_held t = (claim_held s)(i := Some k) \<and>
         hy_launched t = hy_launched s \<and> insert k (hy_markers s) \<subseteq> hy_markers t) \<or>
      (\<exists>i k. claim_held s i = Some k \<and> claim_held t = (claim_held s)(i := None) \<and>
         hy_launched t = hy_launched s @ [k] \<and> hy_markers s \<subseteq> hy_markers t)"
  using assms
proof cases
  case (fire io now_ms i f pc)
  have h: "claim_held t = (claim_held s)(i := (case pc of FireClaimed _ slot \<Rightarrow> Some slot | _ \<Rightarrow> None))"
    unfolding fire(1) by (auto simp: claim_held_def)
  consider (claim) q slot where "hy_procs s i = FireDeciding q slot" "pc = FireClaimed q slot"
      "slot \<notin> markers (hy_files s)" "markers f = insert slot (markers (hy_files s))"
    | (launch) q slot where "hy_procs s i = FireClaimed q slot" "\<forall>q slot. pc \<noteq> FireClaimed q slot" "f = hy_files s"
    | (other) "\<forall>q slot. hy_procs s i \<noteq> FireClaimed q slot" "\<forall>q slot. pc \<noteq> FireClaimed q slot" "markers (hy_files s) \<subseteq> markers f"
    using fire_step_held [OF fire(2)] by blast
  then show ?thesis
  proof cases
    case claim
    then have "claim_held s i = None" "claim_held t = (claim_held s)(i := Some slot)" "hy_launched t = hy_launched s"
      "slot \<notin> hy_markers s" "insert slot (hy_markers s) \<subseteq> hy_markers t"
      using h by (simp_all add: claim_held_def hy_markers_def fire(1))
    then show ?thesis by blast
  next
    case launch
    then have "claim_held s i = Some slot" "claim_held t = (claim_held s)(i := None)" "hy_launched t = hy_launched s @ [slot]"
      "hy_markers s \<subseteq> hy_markers t"
      using h by (auto simp: claim_held_def hy_markers_def fire(1) split: fire_pc.splits)
    then show ?thesis by blast
  next
    case other
    then have "claim_held t = claim_held s" "hy_launched t = hy_launched s" "hy_markers s \<subseteq> hy_markers t"
      using h by (auto simp: claim_held_def hy_markers_def fire(1) fun_eq_iff split: fire_pc.splits)
    then show ?thesis by blast
  qed
next
  case (enable readable writable now_ms at args f)
  then show ?thesis using enable_markers by (simp add: claim_held_def hy_markers_def fun_eq_iff)
qed

interpretation handoff: exclusive_claims "handoff_step js tz" hy_markers claim_held hy_launched for js tz
  by unfold_locales (rule handoff_step_claims)

section \<open>One command after the other\<close>

lemma fire_handoff_steps:
  assumes "(fs = (\<lambda>(f, pc). fire_step js tz io now_ms f pc))"
  shows "(fs ^^ 4) (f, FireStart) = (case fire_handoff js tz io now_ms f of (f', r) \<Rightarrow> (f', FireDone r))"
proof -
  have l: "(fs ^^ 4) x = fs (fs (fs (fs x)))" for x by (simp add: numeral_eq_Suc)
  show ?thesis unfolding l
    by (simp add: assms fire_step_def fire_handoff_def split: sum.splits option.splits fire_decision.splits prod.splits bool.splits)
qed

lemma spec_roundtrip:
  "ta_output_dir a = None \<Longrightarrow> \<not> ta_overwrite a \<Longrightarrow> spec_to_task_args (task_args_to_spec a) = a"
  by (cases a) (simp add: spec_to_task_args_def task_args_to_spec_def)

lemma evaluate_decisions:
  "evaluate tz wall t now_ms p = Inr (AlreadyFired slot) \<Longrightarrow> p slot"
  "evaluate tz wall t now_ms p = Inr (Due slot) \<Longrightarrow> \<not> p slot"
  "evaluate tz wall t now_ms p = Inr (Due slot) \<Longrightarrow> q slot \<Longrightarrow> evaluate tz wall t now_ms q = Inr (AlreadyFired slot)"
  by (cases t; auto simp: evaluate_def Let_def res_bind_eq_Inr split: if_splits)+

text \<open>The JSON codec reads back the schedule it wrote.\<close>

definition json_ok :: "schedule_json \<Rightarrow> handoff_schedule \<Rightarrow> bool" where
  "json_ok js s \<longleftrightarrow> sj_decode js (sj_encode js s) = Some s"

lemma enable_then_load:
  assumes "enable_handoff js readable writable now_ms at args f = Inr f'" "json_ok js (enabled_schedule now_ms at args)"
  shows "\<exists>s. load_schedule js True f' = Inr (Some s) \<and> sd_at s = at \<and> spec_to_task_args (sd_task s) = args"
    and "hf_fired f' = hf_fired f" "\<exists>t. parse_at at = Inr t"
  using assms spec_roundtrip [of args]
  by (auto simp: enable_handoff_def save_schedule_def load_schedule_def json_ok_def enabled_schedule_def res_bind_eq_Inr split: if_splits)

section \<open>Properties\<close>

text \<open>
  C33: However the file accesses of any number of concurrent fires and of \<open>enable\<close> interleave, no slot
  is launched twice, a slot that had a marker is not launched again, and every launch has left its
  marker.
\<close>

theorem handoff_at_most_once:
  assumes "(handoff_step js tz)\<^sup>*\<^sup>* (handoff_start f) s"
  shows "distinct (hy_launched s) \<and> set (hy_launched s) \<inter> markers f = {} \<and> set (hy_launched s) \<subseteq> markers (hy_files s)"
proof -
  have start: "handoff.exclusive (handoff_start f)"
    by (simp add: handoff.exclusive_def handoff_start_def claim_held_def)
  have fresh: "set (hy_launched t) \<inter> markers f = {} \<and> (\<forall>i k. claim_held t i = Some k \<longrightarrow> k \<notin> markers f) \<and> markers f \<subseteq> hy_markers t"
    if "(handoff_step js tz)\<^sup>*\<^sup>* (handoff_start f) t" for t
    using that
  proof (induction rule: rtranclp_induct)
    case base
    then show ?case by (simp add: handoff_start_def claim_held_def hy_markers_def)
  next
    case (step t u)
    then show ?case using handoff_step_claims [OF step(2)] by (auto split: if_splits)
  qed
  from handoff.exclusive_run [OF assms start] fresh [OF assms] show ?thesis
    by (simp add: handoff.exclusive_def hy_markers_def)
qed

text \<open>
  What was enabled is what fires. After a successful \<open>enable\<close>, a fire whose clock can be read and
  whose marker can be written reports that it is too early, that the slot is taken, or launches
  exactly the enabled arguments and takes the slot, so that firing again at the same time launches
  nothing; after a \<open>disable\<close> that could remove everything a fire does nothing, and disabling again
  changes nothing.
\<close>

theorem fire_launches_enabled_task:
  assumes "enable_handoff js readable writable created at args f = Inr f'" "json_ok js (enabled_schedule created at args)"
    and "parse_at at = Inr t" "tz_local tz (int (now_ms div 1000)) = Some wall"
    and "evaluate tz wall t now_ms (slot_fired f') = Inr decision"
    and "ci_mkdir io" "ci_open io" "ci_write io" "ci_read io" "rm_ok rm"
  shows "(case decision of
       NotDue due \<Rightarrow> fire_handoff js tz io now_ms f' = (f', FireNotDue due)
     | AlreadyFired slot \<Rightarrow> slot \<in> markers f \<and> fire_handoff js tz io now_ms f' = (f', FireAlready slot)
     | Due slot \<Rightarrow> slot \<notin> markers f \<and>
         (\<exists>g. fire_handoff js tz io now_ms f' = (g, FireLaunched slot args) \<and> markers g = insert slot (markers f) \<and>
            fire_handoff js tz io now_ms g = (g, FireAlready slot))) \<and>
    snd (disable_handoff rm f') = Inr True \<and>
    fire_handoff js tz io now_ms (fst (disable_handoff rm f')) = (fst (disable_handoff rm f'), FireDisabled) \<and>
    disable_handoff rm' (fst (disable_handoff rm f')) = (fst (disable_handoff rm f'), Inr False)"
proof -
  obtain s where s: "load_schedule js True f' = Inr (Some s)" "sd_at s = at" "spec_to_task_args (sd_task s) = args"
    using enable_then_load(1) [OF assms(1,2)] by blast
  have m: "markers f' = markers f" by (rule enable_markers [OF assms(1)])
  have d: "decide_fire tz now_ms s g = evaluate tz wall t now_ms (slot_fired g)" for g
    using assms(3,4) s(2) by (simp add: decide_fire_def local_wall_at_def)
  have "hf_dir f'" using assms(1) by (auto simp: enable_handoff_def save_schedule_def res_bind_eq_Inr split: if_splits)
  then have off: "snd (disable_handoff rm f') = Inr True"
    "fire_handoff js tz io now_ms (fst (disable_handoff rm f')) = (fst (disable_handoff rm f'), FireDisabled)"
    "disable_handoff rm' (fst (disable_handoff rm f')) = (fst (disable_handoff rm f'), Inr False)"
    using assms(9,10) by (simp_all add: disable_handoff_def remove_handoff_state_def fire_handoff_def load_schedule_def)
  show ?thesis
  proof (cases decision)
    case (NotDue due)
    then show ?thesis using off s(1) d [of f'] assms(5,9) by (simp add: fire_handoff_def)
  next
    case (AlreadyFired slot)
    have "slot_fired f' slot" using assms(5) AlreadyFired by (simp add: evaluate_decisions(1))
    then show ?thesis using AlreadyFired off s(1) d [of f'] assms(5,9) m by (simp add: fire_handoff_def slot_fired_markers)
  next
    case (Due slot)
    have free: "\<not> slot_fired f' slot" using assms(5) Due by (simp add: evaluate_decisions(2))
    define g where "g = f' \<lparr> hf_dir := True, hf_fired := Some ((case hf_fired f' of None \<Rightarrow> [] | Some slots \<Rightarrow> slots) @ [slot]) \<rparr>"
    have c: "claim_slot io slot f' = (g, Inr True)"
      using free assms(6-8) by (auto simp: claim_slot_def g_def slot_fired_def Let_def split: option.splits)
    have g: "load_schedule js True g = Inr (Some s)" using s(1) by (simp add: load_schedule_def g_def split: option.splits)
    have mg: "markers g = insert slot (markers f)" using claim_slot_True(2) [OF c] m by simp
    have "evaluate tz wall t now_ms (slot_fired g) = Inr (AlreadyFired slot)"
      by (rule evaluate_decisions(3) [OF assms(5) [unfolded Due]]) (simp add: slot_fired_markers mg)
    then have again: "fire_handoff js tz io now_ms g = (g, FireAlready slot)" using g d [of g] assms(9) by (simp add: fire_handoff_def)
    have first: "fire_handoff js tz io now_ms f' = (g, FireLaunched slot args)"
      using s d [of f'] assms(5,9) Due c by (simp add: fire_handoff_def)
    have "slot \<notin> markers f" using free m by (simp add: slot_fired_markers)
    then show ?thesis unfolding Due fire_decision.case using off mg again first by blast
  qed
qed

section \<open>Sample schedules\<close>

definition advance :: "schedule_json \<Rightarrow> time_zone \<Rightarrow> claim_io \<Rightarrow> nat \<Rightarrow> nat \<Rightarrow> handoff_sys \<Rightarrow> handoff_sys" where
  "advance js tz io now_ms i s =
     (case fire_step js tz io now_ms (hy_files s) (hy_procs s i) of (f, pc) \<Rightarrow>
        s \<lparr> hy_files := f, hy_procs := (hy_procs s)(i := pc),
          hy_launched := hy_launched s @ (case hy_procs s i of FireClaimed _ slot \<Rightarrow> [slot] | _ \<Rightarrow> []) \<rparr>)"

lemma advance_run: "(handoff_step js tz)\<^sup>*\<^sup>* s (fold (advance js tz io now_ms) is s)"
proof (induction "is" arbitrary: s)
  case (Cons i "is")
  obtain f pc where e: "fire_step js tz io now_ms (hy_files s) (hy_procs s i) = (f, pc)"
    by (cases "fire_step js tz io now_ms (hy_files s) (hy_procs s i)")
  have "handoff_step js tz s (advance js tz io now_ms i s)"
    using handoff_step.fire [OF e] by (simp add: advance_def e)
  then show ?case using Cons by (auto intro: converse_rtranclp_into_rtranclp)
qed simp

definition sample_at_args :: task_run_args where
  "sample_at_args = \<lparr> ta_prompt_file = ''p'', ta_engine = None, ta_profile = None, ta_cwd = None, ta_output_dir = None,
     ta_timeout_secs = None, ta_engine_args = [], ta_env = [], ta_no_skip_permissions = False, ta_notify_to = None,
     ta_notify_workspace = None, ta_no_notify = True, ta_cutoff = None, ta_cutoff_engine = None, ta_overwrite = False \<rparr>"

definition sample_json :: schedule_json where
  "sample_json = \<lparr> sj_encode = (\<lambda>_. ''s''), sj_decode = (\<lambda>_. Some (enabled_schedule 0 None sample_at_args)) \<rparr>"

definition sample_wall :: local_wall where
  "sample_wall = \<lparr> lw_year = 2026, lw_month = 10, lw_day = 4, lw_hour = 3, lw_minute = 7 \<rparr>"

definition sample_tz :: time_zone where
  "sample_tz = \<lparr> tz_local = (\<lambda>_. Some sample_wall), tz_mktime = (\<lambda>_ _ _ _ _. 0) \<rparr>"

definition claims_ok :: claim_io where
  "claims_ok = \<lparr> ci_read = True, ci_mkdir = True, ci_open = True, ci_write = True \<rparr>"

definition no_handoff :: handoff_files where
  "no_handoff = \<lparr> hf_dir = False, hf_schedule = None, hf_fired = None \<rparr>"

definition enabled_files :: handoff_files where
  "enabled_files = no_handoff \<lparr> hf_dir := True, hf_schedule := Some ''s'' \<rparr>"

lemma sample_decide:
  "decide_fire sample_tz 0 (enabled_schedule 0 None sample_at_args) f =
     (let slot = ''2026-10-04T0307'' in Inr (if slot_fired f slot then AlreadyFired slot else Due slot))"
proof -
  have "date_key sample_wall @ ''T'' @ pad 2 (lw_hour sample_wall) @ pad 2 (lw_minute sample_wall) = ''2026-10-04T0307''"
    by code_simp
  then show ?thesis
    by (simp add: decide_fire_def enabled_schedule_def parse_at_def local_wall_at_def sample_tz_def evaluate_def Let_def)
qed

text \<open>Two timers fire in the same minute, each step of one followed by a step of the other.\<close>

theorem handoff_at_most_once_witness:
  "\<exists>s. (handoff_step sample_json sample_tz)\<^sup>*\<^sup>* (handoff_start enabled_files) s \<and>
     hy_launched s = [''2026-10-04T0307''] \<and> hy_procs s 0 = FireDone (FireLaunched ''2026-10-04T0307'' sample_at_args) \<and>
     hy_procs s 1 = FireDone (FireLost ''2026-10-04T0307'') \<and> distinct (hy_launched s)"
proof -
  let ?s = "fold (advance sample_json sample_tz claims_ok 0) [0, 1, 0, 1, 0, 1, 0] (handoff_start enabled_files)"
  have r: "(handoff_step sample_json sample_tz)\<^sup>*\<^sup>* (handoff_start enabled_files) ?s" by (rule advance_run)
  have l: "load_schedule sample_json True (enabled_files \<lparr> hf_dir := y, hf_fired := x \<rparr>) = Inr (Some (enabled_schedule 0 None sample_at_args))"
      "load_schedule sample_json True enabled_files = Inr (Some (enabled_schedule 0 None sample_at_args))" "ci_read claims_ok" for x y
    by (simp_all add: load_schedule_def enabled_files_def sample_json_def enabled_schedule_def claims_ok_def)
  have t: "spec_to_task_args (sd_task (enabled_schedule 0 None sample_at_args)) = sample_at_args"
    by (simp add: enabled_schedule_def spec_roundtrip sample_at_args_def)
  have "hy_launched ?s = [''2026-10-04T0307''] \<and> hy_procs ?s 0 = FireDone (FireLaunched ''2026-10-04T0307'' sample_at_args) \<and>
     hy_procs ?s 1 = FireDone (FireLost ''2026-10-04T0307'')"
    by (simp add: advance_def handoff_start_def fire_step_def l sample_decide Let_def t)
      (simp add: claim_slot_def claims_ok_def slot_fired_def enabled_files_def no_handoff_def Let_def t)
  with r handoff_at_most_once [OF r] show ?thesis by blast
qed

theorem fire_launches_enabled_task_witness:
  "\<exists>f' g. enable_handoff sample_json True True 0 None sample_at_args no_handoff = Inr f' \<and>
     fire_handoff sample_json sample_tz claims_ok 0 f' = (g, FireLaunched ''2026-10-04T0307'' sample_at_args) \<and>
     fire_handoff sample_json sample_tz claims_ok 0 g = (g, FireAlready ''2026-10-04T0307'')"
proof -
  have e: "enable_handoff sample_json True True 0 None sample_at_args no_handoff = Inr enabled_files"
    by (simp add: enable_handoff_def sample_at_args_def parse_at_def parse_env_def save_schedule_def sample_json_def
        enabled_files_def)
  have j: "json_ok sample_json (enabled_schedule 0 None sample_at_args)" by (simp add: json_ok_def sample_json_def)
  have d: "evaluate sample_tz sample_wall None 0 (slot_fired enabled_files) = Inr (Due ''2026-10-04T0307'')"
    using sample_decide [of enabled_files]
    by (simp add: decide_fire_def enabled_schedule_def parse_at_def local_wall_at_def sample_tz_def slot_fired_def
        enabled_files_def no_handoff_def Let_def)
  from fire_launches_enabled_task [OF e j _ _ d, of claims_ok "\<lparr> rm_ok = True, rm_schedule = True, rm_markers = None \<rparr>"]
  have "\<exists>g. fire_handoff sample_json sample_tz claims_ok 0 enabled_files = (g, FireLaunched ''2026-10-04T0307'' sample_at_args) \<and>
      fire_handoff sample_json sample_tz claims_ok 0 g = (g, FireAlready ''2026-10-04T0307'')"
    by (auto simp: parse_at_def sample_tz_def claims_ok_def)
  with e show ?thesis by blast
qed

section \<open>The day the clocks go back\<close>

text \<open>
  \<open>next_due\<close> looks for tomorrow 24 hours after today's due instant. On a day of 25 hours that
  instant is still today when the daily time is before one o'clock, so the reported next launch
  lies in the past.
\<close>

definition berlin_2026 :: time_zone where
  "berlin_2026 =
     \<lparr> tz_local = (\<lambda>t. let u = t + (if t < 1792890000 then 7200 else 3600); (y, m, d) = civil_from_days (u div 86400);
          r = u mod 86400 in Some \<lparr> lw_year = y, lw_month = nat m, lw_day = nat d, lw_hour = nat (r div 3600), lw_minute = nat (r mod 3600 div 60) \<rparr>),
       tz_mktime = (\<lambda>y m d hh mm. let u = days_from_civil y (int m) (int d) * 86400 + int hh * 3600 + int mm * 60 in
          if u - 7200 < 1792890000 then u - 7200 else u - 3600) \<rparr>"

lemma next_due_in_the_past:
  "next_due berlin_2026 (Some (0, 30)) 1792900000000 = Inr 1792881000"
proof -
  have d: "civil_from_days 20751 = (2026, 10, 25)" "days_from_civil 2026 10 25 = 20751" by code_simp+
  have "local_wall_at berlin_2026 1792900000 = Inr \<lparr> lw_year = 2026, lw_month = 10, lw_day = 25, lw_hour = 4, lw_minute = 46 \<rparr>"
    "local_epoch berlin_2026 2026 10 25 0 30 = Inr 1792881000"
    "local_wall_at berlin_2026 1792967400 = Inr \<lparr> lw_year = 2026, lw_month = 10, lw_day = 25, lw_hour = 23, lw_minute = 30 \<rparr>"
    by (simp_all add: local_wall_at_def local_epoch_def berlin_2026_def d)
  then show ?thesis by (simp add: next_due_def)
qed

end
