(* ===== verification/Session_Switch.thy ===== *)
theory Session_Switch
  imports Registry Rust_Std "HOL-Library.Product_Lexorder"
begin

text \<open>
  How a client chooses the session it switches to: the check before an attach
  (\<open>src/bin/aplexer/diagnostics.rs\<close>), the workspace groups of \<open>a list\<close> with their remembered order
  (\<open>src/bin/aplexer/list_helpers.rs\<close>), and the targets of the switch keys
  (\<open>src/bin/aplexer/switch_targets.rs\<close>). What a probe of one session answers is fixed during one
  choice. Workspaces are canonical paths; their order is that of \<open>Path\<close>, component by component.
\<close>

section \<open>Attachable sessions\<close>

record switch_world =
  sw_machine :: machine
  sw_socket_exists :: "string \<Rightarrow> bool"
  sw_now_ms :: nat

datatype attach_refusal = AlreadyExited | StillStarting | WorkerNotRunning string | SocketGone

definition check_attachable :: "switch_world \<Rightarrow> session_record \<Rightarrow> attach_refusal + unit" where
  "check_attachable W r =
     (if sr_phase r \<in> {Exited, Failed} then Inl AlreadyExited
      else
        let alive = worker_alive (sw_machine W) r;
            state = observed_state (sr_phase r) alive (sr_created_at_ms r) (sw_now_ms W);
            socket_missing = (\<not> sw_socket_exists W (sr_socket_path r));
            still_starting = within_startup_window (sr_phase r) (sr_created_at_ms r) (sw_now_ms W)
        in if still_starting \<and> (\<not> alive \<or> socket_missing) then Inl StillStarting
           else if \<not> alive then Inl (WorkerNotRunning state)
           else if socket_missing then Inl SocketGone
           else Inr ())"

definition is_attachable :: "switch_world \<Rightarrow> session_record \<Rightarrow> bool" where
  "is_attachable W r \<longleftrightarrow> check_attachable W r = Inr ()"

section \<open>The groups of the list\<close>

datatype list_sort = SortName | SortCreated | SortAccessed | SortActivity

definition list_sort_text :: "list_sort \<Rightarrow> string" where
  "list_sort_text s =
     (case s of SortName \<Rightarrow> ''name'' | SortCreated \<Rightarrow> ''created'' | SortAccessed \<Rightarrow> ''accessed'' | SortActivity \<Rightarrow> ''activity'')"

definition parse_list_sort :: "string \<Rightarrow> list_sort option" where
  "parse_list_sort raw =
     (if raw = ''name'' then Some SortName
      else if raw = ''created'' then Some SortCreated
      else if raw = ''accessed'' then Some SortAccessed
      else if raw = ''activity'' then Some SortActivity
      else None)"

text \<open>The file \<open>list-sort\<close>: its text, or \<open>None\<close> when it cannot be read.\<close>

definition load_list_sort :: "string option \<Rightarrow> list_sort" where
  "load_list_sort file_text =
     (case Option.bind file_text (parse_list_sort \<circ> trim_utf8) of Some s \<Rightarrow> s | None \<Rightarrow> SortName)"

definition save_list_sort :: "list_sort \<Rightarrow> string" where
  "save_list_sort s = list_sort_text s @ [CHR 0x0A]"

definition resolve_list_sort :: "bool \<Rightarrow> list_sort option \<Rightarrow> string option \<Rightarrow> (unit + list_sort) \<times> string option" where
  "resolve_list_sort writable request file_text =
     (case request of
        Some s \<Rightarrow> if writable then (Inr s, Some (save_list_sort s)) else (Inl (), file_text)
      | None \<Rightarrow> (Inr (load_list_sort file_text), file_text))"

definition max_ms :: "nat list \<Rightarrow> nat" where
  "max_ms xs = foldr max xs 0"

definition workspace_created_ms :: "session_record list \<Rightarrow> nat" where
  "workspace_created_ms g = max_ms (map sr_created_at_ms g)"

definition workspace_accessed_ms :: "session_record list \<Rightarrow> nat" where
  "workspace_accessed_ms g =
     max_ms (map (\<lambda>s. case sr_last_accessed_ms s of Some a \<Rightarrow> a | None \<Rightarrow> sr_created_at_ms s) g)"

definition last_agent_activity_ms :: "session_record \<Rightarrow> nat option" where
  "last_agent_activity_ms r =
     (case (sr_last_activity_ms r, sr_reported_state_at_ms r) of
        (Some a, Some b) \<Rightarrow> Some (max a b)
      | (Some a, None) \<Rightarrow> Some a
      | (None, b) \<Rightarrow> b)"

definition workspace_activity_ms :: "session_record list \<Rightarrow> nat" where
  "workspace_activity_ms g = max_ms (List.map_filter last_agent_activity_ms g)"

type_synonym group = "string \<times> session_record list"

text \<open>
  The order of two groups as a key: the newest time first where the order is by time, then the path.
  \<open>sort_by\<close> is stable, as is \<open>sort_key\<close>.
\<close>

definition path_key :: "string \<Rightarrow> string list" where
  "path_key ws = split_on CHR 0x2F ws"

definition workspace_rank :: "list_sort \<Rightarrow> group \<Rightarrow> int \<times> string list" where
  "workspace_rank s grp =
     (case s of
        SortName \<Rightarrow> 0
      | SortCreated \<Rightarrow> - int (workspace_created_ms (snd grp))
      | SortAccessed \<Rightarrow> - int (workspace_accessed_ms (snd grp))
      | SortActivity \<Rightarrow> - int (workspace_activity_ms (snd grp)), path_key (fst grp))"

fun push_group :: "session_record \<Rightarrow> group list \<Rightarrow> group list" where
  "push_group r [] = [(sr_workspace r, [r])]"
| "push_group r ((ws, g) # groups) =
     (if ws = sr_workspace r then (ws, g @ [r]) # groups else (ws, g) # push_group r groups)"

definition group_by_workspace :: "session_record list \<Rightarrow> list_sort \<Rightarrow> group list" where
  "group_by_workspace records s = sort_key (workspace_rank s) (fold push_group records [])"

definition list_workspace_groups :: "reg_paths \<Rightarrow> registry \<Rightarrow> string option \<Rightarrow> reg_error + group list" where
  "list_workspace_groups P reg sort_file =
     res_bind (list_records P reg) (\<lambda>records. Inr (group_by_workspace records (load_list_sort sort_file)))"

section \<open>The targets\<close>

datatype switch_target =
    Next | Prev | NextWorkspace | PrevWorkspace | NextGlobal | PrevGlobal | Last
  | Index nat | Workspace nat | New

definition ring_walk :: "nat \<Rightarrow> nat \<Rightarrow> bool \<Rightarrow> nat list" where
  "ring_walk start len backwards =
     map (\<lambda>step. if backwards then (start + len - step) mod len else (start + step) mod len) [1..<len + 1]"

fun position :: "('a \<Rightarrow> bool) \<Rightarrow> 'a list \<Rightarrow> nat option" where
  "position p [] = None"
| "position p (x # xs) = (if p x then Some 0 else map_option Suc (position p xs))"

definition position_or_0 :: "('a \<Rightarrow> bool) \<Rightarrow> 'a list \<Rightarrow> nat" where
  "position_or_0 p xs = (case position p xs of Some i \<Rightarrow> i | None \<Rightarrow> 0)"

definition walk_group :: "switch_world \<Rightarrow> session_record list \<Rightarrow> uuid \<Rightarrow> bool \<Rightarrow> session_record option" where
  "walk_group W g current_id prev =
     (let start = position_or_0 (\<lambda>r. sr_id r = current_id) g in
      find (\<lambda>r. sr_id r \<noteq> current_id \<and> is_attachable W r) (map ((!) g) (ring_walk start (length g) prev)))"

definition accessed :: "session_record \<Rightarrow> nat" where
  "accessed r = (case sr_last_accessed_ms r of Some a \<Rightarrow> a | None \<Rightarrow> 0)"

definition workspace_entry_session :: "switch_world \<Rightarrow> session_record list \<Rightarrow> session_record option" where
  "workspace_entry_session W g =
     fold (\<lambda>candidate best.
         case best of
           Some current \<Rightarrow> if accessed current < accessed candidate then Some candidate else best
         | None \<Rightarrow> Some candidate)
       (filter (is_attachable W) g) None"

datatype switch_error =
    NoCurrentGroup | NoOtherHere | NoSessions | NoOtherWorkspace | NoOtherAnywhere | NoSuchIndex nat
  | NoSuchWorkspace nat | NothingRunningThere string | NotSelected | NoPrevious | PreviousGone

definition current_group :: "group list \<Rightarrow> string \<Rightarrow> switch_error + session_record list" where
  "current_group groups ws =
     (case find (\<lambda>(w, _). w = ws) groups of Some (_, g) \<Rightarrow> Inr g | None \<Rightarrow> Inl NoCurrentGroup)"

fun first_entry :: "switch_world \<Rightarrow> string \<Rightarrow> group list \<Rightarrow> session_record option" where
  "first_entry W ws [] = None"
| "first_entry W ws ((w, g) # groups) =
     (if w = ws then first_entry W ws groups
      else case workspace_entry_session W g of Some r \<Rightarrow> Some r | None \<Rightarrow> first_entry W ws groups)"

definition or_error :: "'e \<Rightarrow> 'a option \<Rightarrow> 'e + 'a" where
  "or_error e x = (case x of Some y \<Rightarrow> Inr y | None \<Rightarrow> Inl e)"

definition pick_switch_target ::
    "switch_world \<Rightarrow> group list \<Rightarrow> string \<Rightarrow> uuid \<Rightarrow> switch_target \<Rightarrow> uuid option \<Rightarrow> switch_error + session_record" where
  "pick_switch_target W groups ws current_id target last_id =
     (let cycle = (\<lambda>prev. res_bind (current_group groups ws) (\<lambda>g. or_error NoOtherHere (walk_group W g current_id prev)));
          workspaces = (\<lambda>backwards.
            if groups = [] then Inl NoSessions
            else or_error NoOtherWorkspace (first_entry W ws
              (map ((!) groups) (ring_walk (position_or_0 (\<lambda>(w, _). w = ws) groups) (length groups) backwards))));
          global = (\<lambda>prev. or_error NoOtherAnywhere (walk_group W (concat (map snd groups)) current_id prev))
      in case target of
        Next \<Rightarrow> cycle False
      | Prev \<Rightarrow> cycle True
      | NextWorkspace \<Rightarrow> workspaces False
      | PrevWorkspace \<Rightarrow> workspaces True
      | NextGlobal \<Rightarrow> global False
      | PrevGlobal \<Rightarrow> global True
      | Index n \<Rightarrow> res_bind (current_group groups ws) (\<lambda>g.
          if n < 1 \<or> length g < n then Inl (NoSuchIndex n) else Inr (g ! (n - 1)))
      | Workspace n \<Rightarrow>
          if n < 1 \<or> length groups < n then Inl (NoSuchWorkspace n)
          else or_error (NothingRunningThere (fst (groups ! (n - 1)))) (workspace_entry_session W (snd (groups ! (n - 1))))
      | New \<Rightarrow> Inl NotSelected
      | Last \<Rightarrow>
          (case last_id of
             None \<Rightarrow> Inl NoPrevious
           | Some lid \<Rightarrow> or_error PreviousGone (find (\<lambda>r. sr_id r = lid) (concat (map snd groups)))))"

end
