(* ===== verification/Switch_Laws.thy ===== *)
theory Switch_Laws
  imports Session_Switch
begin

text \<open>
  What the switch keys promise: the list is split into its workspaces without loss, the cycling keys
  go round the attachable sessions one by one in both directions, and a key answers with a session
  whenever there is one it could mean.
\<close>

section \<open>Walking a ring\<close>

lemma position_split: "\<not> (\<exists>a \<in> set A. p a) \<Longrightarrow> p x \<Longrightarrow> position_or_0 p (A @ x # B) = length A"
proof -
  assume "\<not> (\<exists>a \<in> set A. p a)" "p x"
  then have "position p (A @ x # B) = Some (length A)" by (induction A) auto
  then show ?thesis by (simp add: position_or_0_def)
qed

lemma position_bound: "g \<noteq> [] \<Longrightarrow> position_or_0 p g < length g"
proof -
  assume "g \<noteq> []"
  have "position p g = Some i \<Longrightarrow> i < length g" for i
    by (induction g arbitrary: i) (auto split: if_splits)
  with \<open>g \<noteq> []\<close> show ?thesis by (auto simp: position_or_0_def split: option.split)
qed

lemma length_ring_walk [simp]: "length (ring_walk s n b) = n"
  by (simp add: ring_walk_def del: upt_Suc)

lemma ring_forward: "map ((!) (A @ x # B)) (ring_walk (length A) (length (A @ x # B)) False) = B @ A @ [x]"
proof (rule nth_equalityI)
  fix i
  assume "i < length (map ((!) (A @ x # B)) (ring_walk (length A) (length (A @ x # B)) False))"
  then have i: "i < Suc (length A + length B)" by simp
  let ?n = "Suc (length A + length B)"
  have e: "map ((!) (A @ x # B)) (ring_walk (length A) (length (A @ x # B)) False) ! i = (A @ x # B) ! ((length A + Suc i) mod ?n)"
    using i by (simp add: ring_walk_def del: upt_Suc)
  show "map ((!) (A @ x # B)) (ring_walk (length A) (length (A @ x # B)) False) ! i = (B @ A @ [x]) ! i"
  proof (cases "i < length B")
    case True
    then show ?thesis unfolding e by (simp add: nth_append)
  next
    case False
    then have "(length A + Suc i) mod ?n = i - length B" using i by (subst le_mod_geq) simp_all
    then show ?thesis unfolding e using False i by (auto simp: nth_append nth_Cons')
  qed
qed simp

lemma ring_backward: "map ((!) (A @ x # B)) (ring_walk (length A) (length (A @ x # B)) True) = rev A @ rev B @ [x]"
proof (rule nth_equalityI)
  fix i
  assume "i < length (map ((!) (A @ x # B)) (ring_walk (length A) (length (A @ x # B)) True))"
  then have i: "i < Suc (length A + length B)" by simp
  let ?n = "Suc (length A + length B)"
  have e: "map ((!) (A @ x # B)) (ring_walk (length A) (length (A @ x # B)) True) ! i = (A @ x # B) ! ((length A + ?n - Suc i) mod ?n)"
    using i by (simp add: ring_walk_def del: upt_Suc)
  show "map ((!) (A @ x # B)) (ring_walk (length A) (length (A @ x # B)) True) ! i = (rev A @ rev B @ [x]) ! i"
  proof (cases "i < length A")
    case True
    then have "(length A + ?n - Suc i) mod ?n = length A - Suc i" by (subst le_mod_geq) simp_all
    moreover have "length A - Suc i < length A" using True by simp
    ultimately show ?thesis unfolding e using True by (simp add: nth_append rev_nth)
  next
    case False
    then have "(length A + ?n - Suc i) mod ?n = length A + ?n - Suc i" using i by simp
    then show ?thesis unfolding e using False i
      by (auto simp: nth_append rev_nth nth_Cons' intro!: arg_cong [where f = "(!) B"])
  qed
qed simp

lemma ring_covers: "s < length g \<Longrightarrow> set (map ((!) g) (ring_walk s (length g) b)) = set g"
proof -
  assume s: "s < length g"
  have g: "g = take s g @ g ! s # drop (Suc s) g" "length (take s g) = s" using s by (simp_all add: id_take_nth_drop)
  have "set (map ((!) g) (ring_walk s (length g) b)) =
      set (map ((!) (take s g @ g ! s # drop (Suc s) g)) (ring_walk (length (take s g)) (length (take s g @ g ! s # drop (Suc s) g)) b))"
    using g by simp
  also have "\<dots> = set (take s g @ g ! s # drop (Suc s) g)"
    by (cases b) (auto simp only: ring_forward ring_backward set_append set_rev list.set)
  finally show ?thesis using g(1) by simp
qed

lemma find_filter: "find P xs = (case filter P xs of [] \<Rightarrow> None | y # _ \<Rightarrow> Some y)"
  by (induction xs) auto

lemma find_Some_iff_ex: "find P xs = None \<longleftrightarrow> \<not> (\<exists>x \<in> set xs. P x)"
  by (auto simp: find_None_iff)

lemma find_member: "find P xs = Some x \<Longrightarrow> x \<in> set xs \<and> P x"
  by (auto simp: find_Some_iff)

section \<open>Cycling\<close>

lemma walk_group_split:
  assumes "distinct (map sr_id (A @ x # B))"
  shows "walk_group W (A @ x # B) (sr_id x) False = find (is_attachable W) (B @ A)"
    and "walk_group W (A @ x # B) (sr_id x) True = find (is_attachable W) (rev A @ rev B)"
proof -
  have p: "position_or_0 (\<lambda>r. sr_id r = sr_id x) (A @ x # B) = length A"
    by (rule position_split) (use assms in \<open>auto simp: image_iff\<close>)
  have f: "filter (\<lambda>r. sr_id r \<noteq> sr_id x \<and> is_attachable W r) L = filter (is_attachable W) L" if "set L \<subseteq> set (A @ B)" for L
    by (intro filter_cong refl) (use assms that in \<open>auto simp: image_iff dest!: subsetD\<close>)
  show "walk_group W (A @ x # B) (sr_id x) False = find (is_attachable W) (B @ A)"
    unfolding walk_group_def Let_def p ring_forward find_filter using f [of A] f [of B] by simp
  show "walk_group W (A @ x # B) (sr_id x) True = find (is_attachable W) (rev A @ rev B)"
    unfolding walk_group_def Let_def p ring_backward find_filter using f [of "rev A"] f [of "rev B"] by simp
qed

lemma filter_nth_split:
  assumes "i < length (filter P g)"
  obtains A x B where "g = A @ x # B" "P x" "filter P g ! i = x" "length (filter P A) = i"
proof -
  have "\<exists>A x B. g = A @ x # B \<and> P x \<and> filter P g ! i = x \<and> length (filter P A) = i"
    using assms
  proof (induction g arbitrary: i)
    case (Cons y g)
    show ?case
    proof (cases "P y \<and> i = 0")
      case True
      then show ?thesis by (intro exI [of _ "[]"] exI [of _ y] exI [of _ g]) simp
    next
      case False
      then obtain j where j: "j < length (filter P g)" "i = (if P y then Suc j else j)"
        using Cons.prems by (cases i) (auto split: if_splits)
      from Cons.IH [OF j(1)] obtain A x B where "g = A @ x # B" "P x" "filter P g ! j = x" "length (filter P A) = j" by blast
      then show ?thesis using j(2) by (intro exI [of _ "y # A"] exI [of _ x] exI [of _ B]) (auto split: if_splits)
    qed
  qed simp
  then show thesis using that by blast
qed

text \<open>
  C34: The cycling keys go round the attachable sessions of a group in list order. From the i-th of
  them, forwards leads to the next and backwards to the previous one, cyclically and whatever dead
  sessions lie between; so either key undoes the other and repeating one visits every attachable
  session.
\<close>

theorem switch_cycles:
  assumes "distinct (map sr_id g)" and "live = filter (is_attachable W) g" and "i < length live" and "2 \<le> length live"
  shows "walk_group W g (sr_id (live ! i)) False = Some (live ! (Suc i mod length live)) \<and>
    walk_group W g (sr_id (live ! i)) True = Some (live ! ((i + length live - 1) mod length live))"
proof -
  obtain A x B where s: "g = A @ x # B" "is_attachable W x" "live ! i = x" "length (filter (is_attachable W) A) = i"
    using filter_nth_split assms(2,3) by metis
  define a b where "a = filter (is_attachable W) A" and "b = filter (is_attachable W) B"
  have live: "live = a @ x # b" "length a = i" using s assms(2) by (simp_all add: a_def b_def)
  have "walk_group W g (sr_id x) False = (case b @ a of [] \<Rightarrow> None | y # _ \<Rightarrow> Some y)"
    using walk_group_split(1) [of A x B W] assms(1) unfolding s(1) find_filter by (simp add: a_def b_def)
  moreover have "walk_group W g (sr_id x) True = (case rev a @ rev b of [] \<Rightarrow> None | y # _ \<Rightarrow> Some y)"
    using walk_group_split(2) [of A x B W] assms(1) unfolding s(1) find_filter by (simp add: a_def b_def rev_filter)
  moreover have "(case b @ a of [] \<Rightarrow> None | y # _ \<Rightarrow> Some y) = Some (live ! (Suc i mod length live))"
    using live assms(4) by (cases b; cases a) (auto simp: nth_append)
  moreover have "(case rev a @ rev b of [] \<Rightarrow> None | y # _ \<Rightarrow> Some y) = Some (live ! ((i + length live - 1) mod length live))"
  proof (cases a rule: rev_cases)
    case Nil
    then have "(i + length live - 1) mod length live = length b" using live by simp
    then show ?thesis using live assms(4) Nil by (cases b rule: rev_cases) (auto simp: nth_append)
  next
    case (snoc a' y)
    then have "(i + length live - 1) mod length live = length a'"
      using live by (auto simp: mod_if)
    then show ?thesis using live snoc by (simp add: nth_append)
  qed
  ultimately show ?thesis using s(3) by simp
qed

section \<open>Groups\<close>

definition in_workspace :: "string \<Rightarrow> session_record list \<Rightarrow> session_record list" where
  "in_workspace ws records = filter (\<lambda>r. sr_workspace r = ws) records"

lemma push_group_lookup:
  "map_of (push_group r gs) ws =
     (if ws = sr_workspace r then Some ((case map_of gs ws of Some g \<Rightarrow> g | None \<Rightarrow> []) @ [r]) else map_of gs ws)"
  by (induction gs rule: push_group.induct) auto

lemma push_group_keys: "set (map fst (push_group r gs)) = insert (sr_workspace r) (set (map fst gs))"
  by (induction r gs rule: push_group.induct) auto

lemma push_group_distinct: "distinct (map fst gs) \<Longrightarrow> distinct (map fst (push_group r gs))"
  by (induction r gs rule: push_group.induct) (auto simp: push_group_keys simp flip: set_map)

lemma fold_push_group:
  "distinct (map fst (fold push_group records [])) \<and>
   map_of (fold push_group records []) ws = (if in_workspace ws records = [] then None else Some (in_workspace ws records))"
proof (induction records rule: rev_induct)
  case (snoc r records)
  then show ?case by (auto simp: push_group_lookup push_group_distinct in_workspace_def)
qed (simp add: in_workspace_def)

lemma group_members:
  "(ws, g) \<in> set (group_by_workspace records s) \<longleftrightarrow> g = in_workspace ws records \<and> g \<noteq> []"
proof -
  let ?gs = "fold push_group records []"
  have "(ws, g) \<in> set ?gs \<longleftrightarrow> map_of ?gs ws = Some g"
    using fold_push_group by (metis map_of_eq_Some_iff)
  then show ?thesis using fold_push_group [of records ws] by (auto simp: group_by_workspace_def split: if_splits)
qed

lemma group_workspace: "(ws, g) \<in> set (group_by_workspace records s) \<Longrightarrow> r \<in> set g \<Longrightarrow> sr_workspace r = ws"
  by (auto simp: group_members in_workspace_def)

lemma groups_flat: "set (concat (map snd (group_by_workspace records s))) = set records"
proof -
  have "r \<in> set records \<Longrightarrow> \<exists>x \<in> set (group_by_workspace records s). r \<in> set (snd x)" for r
    by (rule bexI [of _ "(sr_workspace r, in_workspace (sr_workspace r) records)"])
      (auto simp: group_members in_workspace_def filter_empty_conv)
  then show ?thesis by (fastforce simp: group_members in_workspace_def)
qed

text \<open>
  C0: The groups of the list. Every workspace with a session is there exactly once, with all its
  sessions in the order of the registry listing and no others, and the groups are in the order of the
  remembered sort; so a number means the same in the list, in the pickers and for the keys.
\<close>

theorem list_groups_exact:
  "distinct (map fst (group_by_workspace records s)) \<and>
   sorted (map (workspace_rank s) (group_by_workspace records s)) \<and>
   (\<forall>ws g. (ws, g) \<in> set (group_by_workspace records s) \<longleftrightarrow> g = in_workspace ws records \<and> g \<noteq> [])"
proof -
  have "distinct (map fst (sort_key (workspace_rank s) (fold push_group records [])))"
    using fold_push_group [of records] by (simp add: distinct_map inj_on_def)
  then show ?thesis by (simp add: group_members) (simp add: group_by_workspace_def)
qed

section \<open>Targets\<close>

text \<open>The sessions a cycling key could mean.\<close>

fun could_mean :: "switch_target \<Rightarrow> string \<Rightarrow> uuid \<Rightarrow> session_record \<Rightarrow> bool" where
  "could_mean Next ws cur r \<longleftrightarrow> sr_workspace r = ws \<and> sr_id r \<noteq> cur"
| "could_mean Prev ws cur r \<longleftrightarrow> sr_workspace r = ws \<and> sr_id r \<noteq> cur"
| "could_mean NextWorkspace ws cur r \<longleftrightarrow> sr_workspace r \<noteq> ws"
| "could_mean PrevWorkspace ws cur r \<longleftrightarrow> sr_workspace r \<noteq> ws"
| "could_mean NextGlobal ws cur r \<longleftrightarrow> sr_id r \<noteq> cur"
| "could_mean PrevGlobal ws cur r \<longleftrightarrow> sr_id r \<noteq> cur"
| "could_mean _ ws cur r \<longleftrightarrow> False"

definition cycling :: "switch_target \<Rightarrow> bool" where
  "cycling t \<longleftrightarrow> t \<in> {Next, Prev, NextWorkspace, PrevWorkspace, NextGlobal, PrevGlobal}"

lemma walk_group_answers:
  "walk_group W g cur b = Some r \<Longrightarrow> r \<in> set g \<and> sr_id r \<noteq> cur \<and> is_attachable W r"
  "walk_group W g cur b = None \<longleftrightarrow> \<not> (\<exists>r \<in> set g. sr_id r \<noteq> cur \<and> is_attachable W r)"
proof -
  have c: "set (map ((!) g) (ring_walk (position_or_0 (\<lambda>r. sr_id r = cur) g) (length g) b)) = set g"
  proof (cases "g = []")
    case False
    then show ?thesis by (rule ring_covers [OF position_bound])
  qed (simp add: ring_walk_def)
  show "walk_group W g cur b = Some r \<Longrightarrow> r \<in> set g \<and> sr_id r \<noteq> cur \<and> is_attachable W r"
    unfolding walk_group_def Let_def by (drule find_member, unfold c) assumption
  show "walk_group W g cur b = None \<longleftrightarrow> \<not> (\<exists>r \<in> set g. sr_id r \<noteq> cur \<and> is_attachable W r)"
    unfolding walk_group_def Let_def find_Some_iff_ex c ..
qed

definition newer :: "session_record \<Rightarrow> session_record option \<Rightarrow> session_record option" where
  "newer candidate best =
     (case best of
        Some current \<Rightarrow> if accessed current < accessed candidate then Some candidate else best
      | None \<Rightarrow> Some candidate)"

lemma entry_fold:
  "fold newer xs best = Some r \<Longrightarrow>
     (best = Some r \<or> r \<in> set xs) \<and> (\<forall>x \<in> set xs. accessed x \<le> accessed r) \<and> (\<forall>b. best = Some b \<longrightarrow> accessed b \<le> accessed r)"
  "fold newer xs best = None \<longleftrightarrow> xs = [] \<and> best = None"
proof (induction xs arbitrary: best)
  case (Cons x xs)
  {
    case 1
    then show ?case using Cons(1) [of "newer x best"] by (cases best) (auto simp: newer_def split: if_splits)
  next
    case 2
    then show ?case using Cons(2) [of "newer x best"] by (auto simp: newer_def split: option.splits)
  }
qed auto

lemma workspace_entry_newest:
  "workspace_entry_session W g = Some r \<Longrightarrow>
     r \<in> set g \<and> is_attachable W r \<and> (\<forall>x \<in> set g. is_attachable W x \<longrightarrow> accessed x \<le> accessed r)"
  "workspace_entry_session W g = None \<longleftrightarrow> \<not> (\<exists>r \<in> set g. is_attachable W r)"
proof -
  have e: "workspace_entry_session W g = fold newer (filter (is_attachable W) g) None"
    by (simp add: workspace_entry_session_def newer_def [abs_def])
  show "workspace_entry_session W g = Some r \<Longrightarrow>
     r \<in> set g \<and> is_attachable W r \<and> (\<forall>x \<in> set g. is_attachable W x \<longrightarrow> accessed x \<le> accessed r)"
    using entry_fold(1) [of "filter (is_attachable W) g" None r] by (auto simp: e)
  show "workspace_entry_session W g = None \<longleftrightarrow> \<not> (\<exists>r \<in> set g. is_attachable W r)"
    by (auto simp: e entry_fold(2) filter_empty_conv)
qed

lemma first_entry_answers:
  "first_entry W ws gs = Some r \<Longrightarrow> \<exists>w g. (w, g) \<in> set gs \<and> w \<noteq> ws \<and> workspace_entry_session W g = Some r"
  "first_entry W ws gs = None \<longleftrightarrow> (\<forall>(w, g) \<in> set gs. w \<noteq> ws \<longrightarrow> workspace_entry_session W g = None)"
  by (induction W ws gs rule: first_entry.induct) (auto split: if_splits option.splits)

lemma current_group_answers:
  assumes "groups = group_by_workspace records s"
  shows "current_group groups ws = Inr g \<Longrightarrow> g = in_workspace ws records"
    "current_group groups ws = Inl e \<Longrightarrow> in_workspace ws records = []"
proof -
  show "current_group groups ws = Inr g \<Longrightarrow> g = in_workspace ws records"
    using assms by (auto simp: current_group_def group_members split: option.splits dest!: find_member)
  show "in_workspace ws records = []" if "current_group groups ws = Inl e"
  proof (rule ccontr)
    assume "in_workspace ws records \<noteq> []"
    then have "(ws, in_workspace ws records) \<in> set groups" using assms by (simp add: group_members)
    then show False using that by (auto simp: current_group_def find_None_iff split: option.splits)
  qed
qed

text \<open>What it means that a choice among the records is sound and finds something when there is something.\<close>

definition chooses :: "session_record list \<Rightarrow> (session_record \<Rightarrow> bool) \<Rightarrow> 'e + session_record \<Rightarrow> bool" where
  "chooses records P x \<longleftrightarrow>
     (\<forall>r. x = Inr r \<longrightarrow> r \<in> set records \<and> P r) \<and> ((\<exists>r. x = Inr r) \<longleftrightarrow> (\<exists>r \<in> set records. P r))"

lemma or_error_simps [simp]: "or_error e x = Inr y \<longleftrightarrow> x = Some y" "or_error e None = Inl e" "or_error e (Some z) = Inr z"
  by (auto simp: or_error_def split: option.splits)

lemma chooses_cong: "set xs = set ys \<Longrightarrow> chooses xs P x \<longleftrightarrow> chooses ys P x"
  by (simp add: chooses_def)

lemma walk_chooses: "chooses g (\<lambda>r. sr_id r \<noteq> cur \<and> is_attachable W r) (or_error e (walk_group W g cur b))"
  using walk_group_answers(1) [of W g cur b] walk_group_answers(2) [of W g cur b]
  by (cases "walk_group W g cur b") (auto simp: chooses_def)

lemma cycle_chooses:
  assumes "groups = group_by_workspace records s"
  shows "chooses records (\<lambda>r. sr_workspace r = ws \<and> sr_id r \<noteq> cur \<and> is_attachable W r)
    (res_bind (current_group groups ws) (\<lambda>g. or_error e (walk_group W g cur b)))"
proof (cases "current_group groups ws")
  case (Inl x)
  then show ?thesis using current_group_answers(2) [OF assms Inl] by (auto simp: chooses_def in_workspace_def filter_empty_conv)
next
  case (Inr g)
  then have "set g = {r \<in> set records. sr_workspace r = ws}"
    using current_group_answers(1) [OF assms Inr] by (auto simp: in_workspace_def)
  then show ?thesis using walk_chooses [of g cur W e b] unfolding chooses_def Inr res_bind_simps by blast
qed

lemma entry_chooses:
  assumes "groups = group_by_workspace records s" "groups \<noteq> []" "set gs = set groups"
  shows "chooses records (\<lambda>r. sr_workspace r \<noteq> ws \<and> is_attachable W r) (or_error e (first_entry W ws gs))"
    and "first_entry W ws gs = Some r \<Longrightarrow> x \<in> set records \<Longrightarrow> sr_workspace x = sr_workspace r \<Longrightarrow> is_attachable W x \<Longrightarrow> accessed x \<le> accessed r"
proof -
  have found: "\<exists>w. w \<noteq> ws \<and> workspace_entry_session W (in_workspace w records) = Some r" if "first_entry W ws gs = Some r" for r
    using first_entry_answers(1) [OF that] assms(1,3) by (auto simp: group_members)
  have none: "\<not> (\<exists>r \<in> set records. sr_workspace r \<noteq> ws \<and> is_attachable W r)" if "first_entry W ws gs = None"
  proof
    assume "\<exists>r \<in> set records. sr_workspace r \<noteq> ws \<and> is_attachable W r"
    then obtain r where r: "r \<in> set records" "sr_workspace r \<noteq> ws" "is_attachable W r" by blast
    then have m: "r \<in> set (in_workspace (sr_workspace r) records)" by (simp add: in_workspace_def)
    then have "(sr_workspace r, in_workspace (sr_workspace r) records) \<in> set gs"
      using assms(1,3) by (auto simp: group_members)
    then have "workspace_entry_session W (in_workspace (sr_workspace r) records) = None"
      using that r(2) by (auto simp: first_entry_answers(2))
    then show False using m r(3) by (auto simp: workspace_entry_newest(2))
  qed
  show "chooses records (\<lambda>r. sr_workspace r \<noteq> ws \<and> is_attachable W r) (or_error e (first_entry W ws gs))"
  proof (cases "first_entry W ws gs")
    case None
    then show ?thesis using none by (simp add: chooses_def)
  next
    case (Some r)
    then have "r \<in> set records \<and> sr_workspace r \<noteq> ws \<and> is_attachable W r"
      using found workspace_entry_newest(1) by (fastforce simp: in_workspace_def)
    then show ?thesis using Some by (auto simp: chooses_def)
  qed
  show "accessed x \<le> accessed r" if "first_entry W ws gs = Some r" "x \<in> set records" "sr_workspace x = sr_workspace r" "is_attachable W x"
    using found [OF that(1)] workspace_entry_newest(1) that(2-4) by (fastforce simp: in_workspace_def)
qed

text \<open>
  C35: The answers of the cycling keys. The chosen session exists, can be attached and is not the
  current one (nor in the current workspace, for a workspace key, which enters at the most recently
  accessed session); and there is an answer exactly when some session could be meant.
\<close>

theorem switch_target_complete:
  assumes "groups = group_by_workspace records s" and "cycling t"
  shows "(\<forall>r. pick_switch_target W groups ws cur t last_id = Inr r \<longrightarrow>
      r \<in> set records \<and> could_mean t ws cur r \<and> is_attachable W r \<and>
      (t \<in> {NextWorkspace, PrevWorkspace} \<longrightarrow> (\<forall>x \<in> set records. sr_workspace x = sr_workspace r \<and> is_attachable W x \<longrightarrow> accessed x \<le> accessed r))) \<and>
    ((\<exists>r. pick_switch_target W groups ws cur t last_id = Inr r) \<longleftrightarrow> (\<exists>r \<in> set records. could_mean t ws cur r \<and> is_attachable W r))"
proof -
  let ?pick = "\<lambda>t. pick_switch_target W groups ws cur t last_id"
  let ?ring = "\<lambda>b. map ((!) groups) (ring_walk (position_or_0 (\<lambda>(w, _). w = ws) groups) (length groups) b)"
  have flat: "set (concat (map snd groups)) = set records" unfolding assms(1) by (rule groups_flat)
  have here: "chooses records (\<lambda>r. could_mean t ws cur r \<and> is_attachable W r) (?pick t)" if "t \<in> {Next, Prev}" for t
    using cycle_chooses [OF assms(1)] that by (auto simp: pick_switch_target_def)
  have global: "chooses records (\<lambda>r. could_mean t ws cur r \<and> is_attachable W r) (?pick t)" if "t \<in> {NextGlobal, PrevGlobal}" for t
    using walk_chooses [of "concat (map snd groups)" cur W] that unfolding chooses_cong [OF flat]
    by (auto simp: pick_switch_target_def)
  have empty: "records = []" if "groups = []" using flat that by simp
  have ring: "set (?ring b) = set groups" if "groups \<noteq> []" for b using ring_covers [OF position_bound] that by blast
  have there: "chooses records (\<lambda>r. could_mean t ws cur r \<and> is_attachable W r) (?pick t) \<and>
      (\<forall>r. ?pick t = Inr r \<longrightarrow> (\<forall>x \<in> set records. sr_workspace x = sr_workspace r \<and> is_attachable W x \<longrightarrow> accessed x \<le> accessed r))"
    if "t \<in> {NextWorkspace, PrevWorkspace}" for t
  proof (cases "groups = []")
    case True
    then show ?thesis using that empty by (auto simp: pick_switch_target_def chooses_def)
  next
    case False
    then show ?thesis
      using that entry_chooses [OF assms(1) False ring [OF False]] by (auto simp: pick_switch_target_def simp del: set_map)
  qed
  show ?thesis using assms(2) here [of t] global [of t] there [of t] unfolding cycling_def chooses_def by blast
qed

section \<open>A sample list\<close>

text \<open>Two live sessions of one workspace with a dead one between them, and one of another workspace.\<close>

definition sample_switch_world :: switch_world where
  "sample_switch_world = \<lparr> sw_machine = sample_machine, sw_socket_exists = (\<lambda>_. True), sw_now_ms = 0 \<rparr>"

definition second_record :: session_record where
  "second_record = sample_record \<lparr> sr_id := 9 \<rparr>"

definition other_record :: session_record where
  "other_record = sample_record \<lparr> sr_id := 10, sr_workspace := ''/v'' \<rparr>"

lemma sample_attachable:
  "is_attachable sample_switch_world sample_record" "is_attachable sample_switch_world second_record"
  "is_attachable sample_switch_world other_record" "\<not> is_attachable sample_switch_world dead_record"
proof -
  have alive: "worker_alive sample_machine r" if "r \<in> {sample_record, second_record, other_record}" for r
    by (rule same_worker_alive [of _ 42])
      (use that in \<open>auto simp: sample_record_def second_record_def other_record_def sample_machine_def runs_def same_worker_def sample_probes\<close>)
  then show "is_attachable sample_switch_world sample_record" "is_attachable sample_switch_world second_record"
    "is_attachable sample_switch_world other_record"
    by (simp_all add: is_attachable_def check_attachable_def sample_switch_world_def Let_def)
      (simp_all add: sample_record_def second_record_def other_record_def)
  have "\<not> process_alive (m_os sample_machine) 43"
    by (simp add: process_alive_def sample_machine_def sample_os_def ESRCH_def EPERM_def)
  then have "\<not> worker_alive sample_machine dead_record"
    using host_proves_absence by (simp add: worker_alive_def dead_record_def)
  then show "\<not> is_attachable sample_switch_world dead_record"
    by (simp add: is_attachable_def check_attachable_def sample_switch_world_def Let_def)
qed

theorem switch_cycles_witness:
  "walk_group sample_switch_world [sample_record, dead_record, second_record] (sr_id sample_record) False = Some second_record \<and>
   walk_group sample_switch_world [sample_record, dead_record, second_record] (sr_id second_record) False = Some sample_record"
proof -
  let ?g = "[sample_record, dead_record, second_record]"
  have d: "distinct (map sr_id ?g)" by (simp add: sample_record_def dead_record_def second_record_def)
  have l: "[sample_record, second_record] = filter (is_attachable sample_switch_world) ?g" by (simp add: sample_attachable)
  show ?thesis using switch_cycles [OF d l, of 0] switch_cycles [OF d l, of 1] by simp
qed

theorem switch_target_complete_witness:
  "\<exists>r. pick_switch_target sample_switch_world (group_by_workspace [sample_record, dead_record, other_record] SortName) ''/w'' 5
     NextWorkspace None = Inr r \<and> sr_workspace r \<noteq> ''/w''"
proof -
  have "sr_workspace other_record \<noteq> ''/w''" by (simp add: other_record_def)
  then show ?thesis
    using switch_target_complete [of _ "[sample_record, dead_record, other_record]" SortName NextWorkspace sample_switch_world "''/w''" 5 None]
    by (auto simp: sample_attachable cycling_def)
qed

end
