(* ===== verification/Input_Scanner.thy ===== *)
theory Input_Scanner
  imports Session_Switch
begin

text \<open>
  \<open>src/bin/aplexer/input_scanner.rs\<close>: the state machine over the bytes a user types while attached.
  It forwards them, and recognizes the keys that follow the prefix Ctrl-b, however the reads cut the
  input.
\<close>

section \<open>The scanner\<close>

datatype input_action =
    Forward bytes | Detach | Switch switch_target | Help | Redraw | Rename | Sessions | Workspaces | Scroll

record input_scanner =
  pending_ctrl_b :: bool
  pending_escape :: bytes

definition new_scanner :: input_scanner where
  "new_scanner = \<lparr> pending_ctrl_b = False, pending_escape = [] \<rparr>"

definition awaiting_escape :: "input_scanner \<Rightarrow> bool" where
  "awaiting_escape s \<longleftrightarrow> pending_escape s \<noteq> []"

definition awaiting_key :: "input_scanner \<Rightarrow> bool" where
  "awaiting_key s \<longleftrightarrow> pending_ctrl_b s \<and> pending_escape s = []"

definition settled :: "input_scanner \<Rightarrow> bool" where
  "settled s \<longleftrightarrow> \<not> pending_ctrl_b s \<and> pending_escape s = []"

definition flush_pending :: "input_scanner \<Rightarrow> input_scanner \<times> input_action list" where
  "flush_pending s =
     (if pending_escape s = [] then (s, [])
      else (s \<lparr> pending_escape := [] \<rparr>, [Forward (2 # pending_escape s)]))"

definition arrow :: "byte \<Rightarrow> switch_target option" where
  "arrow b =
     (if b = 0x41 then Some PrevWorkspace else if b = 0x42 then Some NextWorkspace
      else if b = 0x43 then Some Next else if b = 0x44 then Some Prev else None)"

definition chord :: "byte \<Rightarrow> input_action option" where
  "chord b =
     (if b = 0x3F then Some Help
      else if b = 0x72 then Some Redraw
      else if b = 0x52 then Some Rename
      else if b = 0x5B then Some Scroll
      else if b = 0x6E then Some (Switch New)
      else if b = 0x73 then Some Sessions
      else if b = 0x77 then Some Workspaces
      else if b = 0x4E then Some (Switch NextGlobal)
      else if b = 0x50 then Some (Switch PrevGlobal)
      else if b = 0x6C then Some (Switch Last)
      else if 0x31 \<le> b \<and> b \<le> 0x39 then Some (Switch (Index (unat (b - 0x30))))
      else None)"

definition forward :: "bytes \<Rightarrow> input_action list" where
  "forward out = (if out = [] then [] else [Forward out])"

text \<open>
  The loop of \<open>scan\<close>: the state, the rest of the buffer, the actions so far and the bytes to be
  forwarded. A byte that turns out not to complete a chord is looked at again.
\<close>

function scan_loop ::
    "input_scanner \<Rightarrow> bytes \<Rightarrow> input_action list \<Rightarrow> bytes \<Rightarrow> input_scanner \<times> input_action list" where
  "scan_loop s [] actions out = (s, actions @ forward out)"
| "scan_loop s (b # bs) actions out =
     (if pending_escape s \<noteq> [] then
        if length (pending_escape s) = 1 \<and> (b = 0x5B \<or> b = 0x4F) then
          scan_loop (s \<lparr> pending_escape := pending_escape s @ [b] \<rparr>) bs actions out
        else
          (case (if length (pending_escape s) = 2 then arrow b else None) of
             Some target \<Rightarrow>
               scan_loop (s \<lparr> pending_escape := [] \<rparr>) bs (actions @ forward out @ [Switch target]) []
           | None \<Rightarrow>
               scan_loop (s \<lparr> pending_escape := [] \<rparr>) (b # bs) actions (out @ 2 # pending_escape s))
      else if pending_ctrl_b s then
        if b = 0x1B then scan_loop (s \<lparr> pending_ctrl_b := False, pending_escape := [b] \<rparr>) bs actions out
        else if b = 0x64 then (s \<lparr> pending_ctrl_b := False \<rparr>, actions @ forward out @ [Detach])
        else
          (case chord b of
             Some a \<Rightarrow> scan_loop (s \<lparr> pending_ctrl_b := False \<rparr>) bs (actions @ forward out @ [a]) []
           | None \<Rightarrow>
               if b = 2 then scan_loop (s \<lparr> pending_ctrl_b := False \<rparr>) bs actions (out @ [2])
               else scan_loop (s \<lparr> pending_ctrl_b := False \<rparr>) (b # bs) actions (out @ [2]))
      else if b = 2 then scan_loop (s \<lparr> pending_ctrl_b := True \<rparr>) bs actions out
      else scan_loop s bs actions (out @ [b]))"
  by pat_completeness auto

termination
  by (relation "measure (\<lambda>(s, bs, _). 3 * length bs + (if pending_ctrl_b s then 1 else 0) +
      (if pending_escape s \<noteq> [] then 1 else 0))") auto

definition scan :: "input_scanner \<Rightarrow> bytes \<Rightarrow> input_scanner \<times> input_action list" where
  "scan s buffer = scan_loop s buffer [] []"

section \<open>The input thread\<close>

text \<open>
  What the input thread of an attachment meets on the terminal, in order: bytes that one \<open>read\<close>
  returns, a read that a signal interrupts, a silence longer than the wait for the rest of an
  arrow chord (with whether the key overlay is up when it is over), and the end of the input or
  an error.
\<close>

datatype stdin_event = Typed bytes | Interrupted | Quiet bool | Ended

definition is_modal :: "input_action \<Rightarrow> bool" where
  "is_modal a \<longleftrightarrow> a = Rename \<or> a = Sessions \<or> a = Workspaces"

definition is_forward :: "input_action \<Rightarrow> bool" where
  "is_forward a = (case a of Forward _ \<Rightarrow> True | _ \<Rightarrow> False)"

text \<open>
  The actions of one buffer, handled in order. The rename prompt and the two pickers own the
  terminal's input while they are open: \<open>modal\<close> says how many of the coming events one of them takes
  and whether it was left with Ctrl-b, which arms the prefix again. \<open>gone\<close> says whether a send finds
  the connection closed. The result says whether the loop goes on.
\<close>

fun handle_input_actions ::
    "(input_action list \<Rightarrow> bool) \<Rightarrow> (input_action \<Rightarrow> stdin_event list \<Rightarrow> bool \<times> nat) \<Rightarrow> input_action list \<Rightarrow>
     input_scanner \<Rightarrow> stdin_event list \<Rightarrow> input_action list \<Rightarrow> bool \<times> input_scanner \<times> stdin_event list \<times> input_action list" where
  "handle_input_actions gone modal [] s evs log = (True, s, evs, log)"
| "handle_input_actions gone modal (a # acts) s evs log =
     (if a = Detach then (False, s, evs, log @ [a])
      else if is_forward a \<and> gone log then (False, s, evs, log @ [a])
      else if is_modal a then
        (let (rearm, taken) = modal a evs in
         handle_input_actions gone modal acts (if rearm then s \<lparr> pending_ctrl_b := True \<rparr> else s) (drop taken evs) (log @ [a]))
      else handle_input_actions gone modal acts s evs (log @ [a]))"

text \<open>
  One turn of the loop up to the actions it hands on: a chord whose time is over is flushed, or
  dropped when the silence took down the overlay; a buffer is scanned, unless the input is no
  terminal or there is no status bar, when it is sent as it is.
\<close>

definition read_input_actions :: "bool \<Rightarrow> stdin_event \<Rightarrow> input_scanner \<Rightarrow> (input_scanner \<times> input_action list) option" where
  "read_input_actions chords e s =
     (case e of
        Ended \<Rightarrow> None
      | Interrupted \<Rightarrow> Some (s, [])
      | Quiet overlay_up \<Rightarrow>
          if awaiting_escape s then (let (s', flushed) = flush_pending s in Some (s', if overlay_up then [] else flushed))
          else Some (s, [])
      | Typed bs \<Rightarrow> if chords then Some (scan s bs) else Some (s, [Forward bs]))"

lemma handle_input_actions_events:
  "handle_input_actions gone modal acts s evs log = (go, s', evs', log') \<Longrightarrow> length evs' \<le> length evs"
proof (induction acts arbitrary: s evs log)
  case (Cons a acts)
  obtain rearm taken where "modal a evs = (rearm, taken)" by force
  with Cons.prems show ?case by (auto split: if_splits dest!: Cons.IH)
qed simp

function run_input_loop ::
    "(input_action list \<Rightarrow> bool) \<Rightarrow> (input_action \<Rightarrow> stdin_event list \<Rightarrow> bool \<times> nat) \<Rightarrow> bool \<Rightarrow> input_scanner \<Rightarrow>
     stdin_event list \<Rightarrow> input_action list \<Rightarrow> input_scanner \<times> input_action list" where
  "run_input_loop gone modal chords s [] log = (s, log)"
| "run_input_loop gone modal chords s (e # evs) log =
     (case read_input_actions chords e s of
        None \<Rightarrow> (s, log)
      | Some (s', acts) \<Rightarrow>
          (case handle_input_actions gone modal acts s' evs log of
             (go, s'', evs', log') \<Rightarrow> if go then run_input_loop gone modal chords s'' evs' log' else (s'', log')))"
  by pat_completeness auto

termination
  by (relation "measure (\<lambda>(_, _, _, _, evs, _). length evs)")
    (auto dest!: handle_input_actions_events [OF sym])

section \<open>The reference grammar\<close>

text \<open>
  What a whole input means: keys for the workload and actions for the client. An unfinished chord at
  the end is held back.
\<close>

datatype key_event = Key byte | Act input_action

fun is_intro :: "byte \<Rightarrow> bool" where
  "is_intro b \<longleftrightarrow> b = 0x5B \<or> b = 0x4F"

fun read_keys :: "bytes \<Rightarrow> key_event list \<times> bytes" where
  "read_keys [] = ([], [])"
| "read_keys (b # bs) =
     (if b \<noteq> 2 then apfst ((#) (Key b)) (read_keys bs)
      else case bs of
        [] \<Rightarrow> ([], [2])
      | k # rest \<Rightarrow>
          if k = 2 then apfst ((#) (Key 2)) (read_keys rest)
          else if k = 0x64 then ([Act Detach], [])
          else if k = 0x1B then
            (case rest of
               [] \<Rightarrow> ([], [2, 0x1B])
             | x # rest' \<Rightarrow>
                 if is_intro x then
                   (case rest' of
                      [] \<Rightarrow> ([], [2, 0x1B, x])
                    | y # rest'' \<Rightarrow>
                        (case arrow y of
                           Some t \<Rightarrow> apfst ((#) (Act (Switch t))) (read_keys rest'')
                         | None \<Rightarrow> apfst (\<lambda>es. Key 2 # Key 0x1B # Key x # es) (read_keys rest')))
                 else apfst (\<lambda>es. Key 2 # Key 0x1B # es) (read_keys rest))
          else
            (case chord k of
               Some a \<Rightarrow> apfst ((#) (Act a)) (read_keys rest)
             | None \<Rightarrow> apfst ((#) (Key 2)) (read_keys bs)))"

definition flat :: "input_action list \<Rightarrow> key_event list" where
  "flat acts = concat (map (\<lambda>a. case a of Forward bs \<Rightarrow> map Key bs | _ \<Rightarrow> [Act a]) acts)"

definition withheld :: "input_scanner \<Rightarrow> bytes" where
  "withheld s = (if pending_escape s \<noteq> [] then 2 # pending_escape s else if pending_ctrl_b s then [2] else [])"

definition scanner_ok :: "input_scanner \<Rightarrow> bool" where
  "scanner_ok s \<longleftrightarrow> pending_escape s \<in> {[], [0x1B], [0x1B, 0x5B], [0x1B, 0x4F]} \<and>
     (pending_escape s \<noteq> [] \<longrightarrow> \<not> pending_ctrl_b s)"

lemma flat_simps [simp]:
  "flat [] = []" "flat (xs @ ys) = flat xs @ flat ys" "flat (forward out) = map Key out"
  "flat [Switch t] = [Act (Switch t)]" "flat [Detach] = [Act Detach]" "flat [Forward bs] = map Key bs"
  by (simp_all add: flat_def forward_def)

lemma flat_chord: "chord b = Some a \<Longrightarrow> flat [a] = [Act a] \<and> a \<noteq> Detach"
  by (auto simp: chord_def flat_def split: if_splits)

lemma detach_flat: "Act Detach \<in> set (flat acts) \<longleftrightarrow> Detach \<in> set acts"
proof (induction acts)
  case (Cons a acts)
  moreover have "flat (a # acts) = flat [a] @ flat acts" by (simp add: flat_def)
  moreover have "Act Detach \<in> set (flat [a]) \<longleftrightarrow> a = Detach" by (cases a) (auto simp: flat_def)
  ultimately show ?case by auto
qed simp

section \<open>The scanner follows the grammar\<close>

lemma read_keys_shapes:
  "b \<noteq> 2 \<Longrightarrow> read_keys (b # bs) = apfst ((#) (Key b)) (read_keys bs)"
  "read_keys [2] = ([], [2])"
  "read_keys (2 # 2 # bs) = apfst ((#) (Key 2)) (read_keys bs)"
  "read_keys (2 # 0x64 # bs) = ([Act Detach], [])"
  "read_keys [2, 0x1B] = ([], [2, 0x1B])"
  "\<not> is_intro x \<Longrightarrow> read_keys (2 # 0x1B # x # bs) = apfst (\<lambda>es. Key 2 # Key 0x1B # es) (read_keys (x # bs))"
  "is_intro x \<Longrightarrow> read_keys [2, 0x1B, x] = ([], [2, 0x1B, x])"
  "is_intro x \<Longrightarrow> arrow y = Some t \<Longrightarrow> read_keys (2 # 0x1B # x # y # bs) = apfst ((#) (Act (Switch t))) (read_keys bs)"
  "is_intro x \<Longrightarrow> arrow y = None \<Longrightarrow>
     read_keys (2 # 0x1B # x # y # bs) = apfst (\<lambda>es. Key 2 # Key 0x1B # Key x # es) (read_keys (y # bs))"
  "k \<notin> {2, 0x64, 0x1B} \<Longrightarrow> chord k = Some a \<Longrightarrow> read_keys (2 # k # bs) = apfst ((#) (Act a)) (read_keys bs)"
  "k \<notin> {2, 0x64, 0x1B} \<Longrightarrow> chord k = None \<Longrightarrow> read_keys (2 # k # bs) = apfst ((#) (Key 2)) (read_keys (k # bs))"
  by (subst read_keys.simps(2), simp del: read_keys.simps(2) is_intro.simps)+

declare scan_loop.simps(2) [simp del] read_keys.simps(2) [simp del]

lemma scan_loop_reads:
  assumes "scanner_ok s" "scan_loop s bs actions out = (s', acts)"
  shows "flat acts = flat actions @ map Key out @ fst (read_keys (withheld s @ bs)) \<and>
    withheld s' = snd (read_keys (withheld s @ bs)) \<and> scanner_ok s'"
  using assms
proof (induction s bs actions out rule: scan_loop.induct)
  case (1 s actions out)
  then show ?case by (auto simp: withheld_def scanner_ok_def read_keys_shapes)
next
  case (2 s b bs actions out)
  note run = 2(11) [unfolded scan_loop.simps(2) [of s b]]
  consider (intro) "pending_escape s = [0x1B]" "is_intro b"
    | (arrow) x t where "pending_escape s = [0x1B, x]" "is_intro x" "arrow b = Some t"
    | (alone) "pending_escape s = [0x1B]" "\<not> is_intro b"
    | (broken) x where "pending_escape s = [0x1B, x]" "is_intro x" "arrow b = None"
    | (ctrl) "pending_escape s = []" "pending_ctrl_b s"
    | (plain) "pending_escape s = []" "\<not> pending_ctrl_b s"
    using 2(10) by (cases "arrow b") (auto simp: scanner_ok_def)
  then show ?case
  proof cases
    case intro
    then show ?thesis using 2(1) run 2(10) by (auto simp: withheld_def scanner_ok_def)
  next
    case arrow
    then show ?thesis using 2(2,3) run 2(10) by (auto simp: withheld_def scanner_ok_def read_keys_shapes)
  next
    case alone
    then show ?thesis using 2(2,3) run 2(10) by (auto simp: withheld_def scanner_ok_def read_keys_shapes)
  next
    case broken
    then show ?thesis using 2(2,3) run 2(10) by (auto simp: withheld_def scanner_ok_def read_keys_shapes)
  next
    case ctrl
    consider "b = 0x1B" | "b = 0x64" | "b = 2" | (key) "b \<notin> {2, 0x64, 0x1B}" by blast
    then show ?thesis
    proof cases
      case key
      show ?thesis
      proof (cases "chord b")
        case None
        then show ?thesis using ctrl key 2(6) run 2(10) by (auto simp: withheld_def scanner_ok_def read_keys_shapes)
      next
        case (Some a)
        then show ?thesis using ctrl key 2(7) run 2(10) flat_chord [OF Some]
          by (auto simp: withheld_def scanner_ok_def read_keys_shapes)
      qed
    qed (use ctrl 2(4,5) run 2(10) in \<open>auto simp: withheld_def scanner_ok_def read_keys_shapes chord_def\<close>)
  next
    case plain
    then show ?thesis using 2(8,9) run 2(10) by (auto simp: withheld_def scanner_ok_def read_keys_shapes split: if_splits)
  qed
qed

text \<open>
  Reading on from where a chunk ended: the keys of the first part, then those of what it held back and
  the rest. A detach ends it.
\<close>

definition reads_on :: "bytes \<Rightarrow> bytes \<Rightarrow> bool" where
  "reads_on a b \<longleftrightarrow> read_keys (a @ b) =
     (if Act Detach \<in> set (fst (read_keys a)) then read_keys a
      else apfst ((@) (fst (read_keys a))) (read_keys (snd (read_keys a) @ b)))"

lemma reads_on_step:
  assumes "read_keys a = apfst ((@) es) (read_keys a')" "read_keys (a @ b) = apfst ((@) es) (read_keys (a' @ b))" "reads_on a' b"
    "Act Detach \<notin> set es"
  shows "reads_on a b"
  using assms by (simp add: reads_on_def prod_eq_iff)

lemma reads_on_held: "read_keys a = ([], a) \<Longrightarrow> reads_on a b"
  by (simp add: reads_on_def prod_eq_iff)

lemma apfst_Cons: "apfst ((#) x) = apfst ((@) [x])" "apfst (\<lambda>es. x # y # es) = apfst ((@) [x, y])"
    "apfst (\<lambda>es. x # y # z # es) = apfst ((@) [x, y, z])"
  by (simp_all add: fun_eq_iff prod_eq_iff)

lemma reads_on_escape:
  assumes "\<And>bs. length bs < length r \<Longrightarrow> reads_on bs b" "reads_on r b"
  shows "reads_on (2 # 0x1B # r) b"
proof (cases r)
  case Nil
  then show ?thesis by (intro reads_on_held) (simp add: read_keys_shapes)
next
  case (Cons x q)
  show ?thesis
  proof (cases "is_intro x")
    case False
    show ?thesis
          by (rule reads_on_step [of _ "[Key 2, Key 0x1B]" r]) (use False Cons assms(2) in \<open>simp_all add: read_keys_shapes apfst_Cons\<close>)
  next
    case True
    show ?thesis
    proof (cases q)
      case Nil
      then show ?thesis using Cons True by (intro reads_on_held) (simp add: read_keys_shapes)
    next
      case (Cons y q')
      have sh: "reads_on q b" "reads_on q' b" using assms(1) \<open>r = x # q\<close> Cons by simp_all
      show ?thesis
      proof (cases "arrow y")
        case None
        show ?thesis
          by (rule reads_on_step [of _ "[Key 2, Key 0x1B, Key x]" q]) (use None \<open>r = x # q\<close> Cons True sh in \<open>simp_all add: read_keys_shapes apfst_Cons\<close>)
      next
        case (Some t)
        show ?thesis
          by (rule reads_on_step [of _ "[Act (Switch t)]" q']) (use Some \<open>r = x # q\<close> Cons True sh in \<open>simp_all add: read_keys_shapes apfst_Cons\<close>)
      qed
    qed
  qed
qed

lemma read_keys_append: "reads_on a b"
proof (induction a rule: length_induct)
  case (1 a)
  then have IH: "length bs < length a \<Longrightarrow> reads_on bs b" for bs by blast
  show ?case
  proof (cases a)
    case Nil
    then show ?thesis by (simp add: reads_on_def prod_eq_iff)
  next
    case (Cons k bs)
    show ?thesis
    proof (cases "k = 2")
      case False
      show ?thesis
          by (rule reads_on_step [of _ "[Key k]" bs]) (use False Cons IH in \<open>simp_all add: read_keys_shapes apfst_Cons\<close>)
    next
      case True
      show ?thesis
      proof (cases bs)
        case Nil
        then show ?thesis using Cons True by (intro reads_on_held) (simp add: read_keys_shapes)
      next
        case (Cons c r)
        have a: "a = 2 # c # r" using \<open>a = k # bs\<close> Cons True by simp
        have sh: "reads_on r b" "reads_on (c # r) b" using IH a by simp_all
        consider "c = 2" | "c = 0x64" | "c = 0x1B" | (key) "c \<notin> {2, 0x64, 0x1B}" by blast
        then show ?thesis
        proof cases
          case 1
          show ?thesis
          by (rule reads_on_step [of _ "[Key 2]" r]) (use \<open>c = 2\<close> a sh in \<open>simp_all add: read_keys_shapes apfst_Cons\<close>)
        next
          case 2
          then show ?thesis using a by (simp add: reads_on_def read_keys_shapes)
        next
          case 3
          then show ?thesis unfolding a using IH a sh by (auto intro: reads_on_escape)
        next
          case key
          show ?thesis
          proof (cases "chord c")
            case None
            show ?thesis
              by (rule reads_on_step [of _ "[Key 2]" "c # r"]) (use None key a sh in \<open>simp_all add: read_keys_shapes apfst_Cons\<close>)
          next
            case (Some x)
            show ?thesis
              by (rule reads_on_step [of _ "[Act x]" r])
                (use Some key a sh flat_chord [OF Some] in \<open>auto simp: read_keys_shapes apfst_Cons\<close>)
          qed
        qed
      qed
    qed
  qed
qed

section \<open>The thread follows the grammar\<close>

text \<open>
  What the user typed, whatever the reads: the bytes up to the next silence are read by the
  grammar, behind what is still held; a silence ends an unfinished arrow chord, whose bytes go to
  the workload unless the silence only took down the overlay, and leaves a lone prefix waiting.
\<close>

fun typed :: "stdin_event list \<Rightarrow> bytes" where
  "typed (Typed bs # evs) = bs @ typed evs"
| "typed (Interrupted # evs) = typed evs"
| "typed evs = []"

fun pause :: "stdin_event list \<Rightarrow> (bool \<times> stdin_event list) option" where
  "pause (Typed bs # evs) = pause evs"
| "pause (Interrupted # evs) = pause evs"
| "pause (Quiet up # evs) = Some (up, evs)"
| "pause evs = None"

lemma pause_shorter: "pause evs = Some (up, rest) \<Longrightarrow> length rest < length evs"
  by (induction evs rule: pause.induct) auto

function meaning :: "bytes \<Rightarrow> stdin_event list \<Rightarrow> key_event list \<times> bytes" where
  "meaning held evs =
     (let (es, held') = read_keys (held @ typed evs) in
      if Act Detach \<in> set es then (es, held')
      else case pause evs of
        None \<Rightarrow> (es, held')
      | Some (up, rest) \<Rightarrow>
          if length held' < 2 then apfst ((@) es) (meaning held' rest)
          else apfst ((@) (es @ (if up then [] else map Key held'))) (meaning [] rest))"
  by pat_completeness auto

termination
  by (relation "measure (\<lambda>(_, evs). length evs)") (auto dest: pause_shorter)

declare meaning.simps [simp del]

lemma meaning_Typed:
  "meaning held (Typed bs # evs) =
     (if Act Detach \<in> set (fst (read_keys (held @ bs))) then read_keys (held @ bs)
      else apfst ((@) (fst (read_keys (held @ bs)))) (meaning (snd (read_keys (held @ bs))) evs))"
  using read_keys_append [of "held @ bs" "typed evs"]
  by (auto simp: meaning.simps [of held] meaning.simps [of "snd (read_keys (held @ bs))"] reads_on_def
      case_prod_beta Let_def apfst_compose comp_def prod_eq_iff split: option.splits)

lemma apfst_Nil: "apfst ((@) []) p = p"
  by (simp add: prod_eq_iff)

lemma meaning_Quiet:
  assumes "read_keys held = ([], held)"
  shows "meaning held (Quiet up # evs) =
     (if length held < 2 then meaning held evs else apfst ((@) (if up then [] else map Key held)) (meaning [] evs))"
  using assms by (simp add: meaning.simps [of held "Quiet up # evs"] apfst_Nil)

lemma meaning_rest:
  "meaning held (Interrupted # evs) = meaning held evs"
  "read_keys held = ([], held) \<Longrightarrow> meaning held [] = ([], held)"
  "read_keys held = ([], held) \<Longrightarrow> meaning held (Ended # evs) = ([], held)"
  by (simp_all add: meaning.simps [of held] case_prod_beta)

definition plain :: "key_event \<Rightarrow> bool" where
  "plain e = (case e of Key _ \<Rightarrow> True | Act a \<Rightarrow> \<not> is_modal a)"

abbreviation still :: "input_action list \<Rightarrow> bool" where "still \<equiv> \<lambda>_. False"

lemma flat_Cons: "flat (a # acts) = flat [a] @ flat acts"
  by (simp add: flat_def)

lemma flat_modal: "is_modal a \<Longrightarrow> flat [a] = [Act a] \<and> \<not> plain (Act a)"
  by (auto simp: is_modal_def flat_def plain_def)

lemma flat_plain: "\<not> is_modal a \<Longrightarrow> list_all plain (flat [a])"
  by (cases a) (auto simp: is_modal_def flat_def plain_def list_all_iff)

text \<open>The log only grows, and without a modal action a buffer's actions are simply appended.\<close>

lemma handle_log: "handle_input_actions gone modal acts s evs log = (go, s', evs', log') \<Longrightarrow> \<exists>more. log' = log @ more"
proof (induction acts arbitrary: s evs log)
  case (Cons a acts)
  obtain rearm taken where "modal a evs = (rearm, taken)" by force
  with Cons.prems show ?case by (auto split: if_splits dest!: Cons.IH)
qed simp

lemma loop_log: "\<exists>more. snd (run_input_loop gone modal chords s evs log) = log @ more"
proof (induction gone modal chords s evs log rule: run_input_loop.induct)
  case (2 gone modal chords s e evs log)
  show ?case
  proof (cases "read_input_actions chords e s")
    case (Some st)
    obtain s' acts where st: "st = (s', acts)" by force
    obtain go s'' evs' log' where h: "handle_input_actions gone modal acts s' evs log = (go, s'', evs', log')"
      by (metis prod_cases4)
    obtain more where "log' = log @ more" using handle_log [OF h] by blast
    moreover have "go \<Longrightarrow> \<exists>more. snd (run_input_loop gone modal chords s'' evs' log') = log' @ more"
      using "2.IH" [OF Some st [symmetric] h [symmetric] refl refl] by blast
    ultimately show ?thesis by (cases go) (auto simp: Some st h)
  qed simp
qed simp

lemma handle_plain:
  "list_all (\<lambda>a. \<not> is_modal a) acts \<Longrightarrow> Detach \<notin> set (butlast acts) \<Longrightarrow>
     handle_input_actions still modal acts s evs log = (Detach \<notin> set acts, s, evs, log @ acts)"
  by (induction acts arbitrary: log) (auto split: if_splits)

lemma handle_modal:
  "list_all (\<lambda>a. \<not> is_modal a) pre \<Longrightarrow> Detach \<notin> set pre \<Longrightarrow> is_modal a \<Longrightarrow>
     handle_input_actions still modal (pre @ a # post) s evs log = (go, s', evs', log') \<Longrightarrow>
     \<exists>more. log' = log @ pre @ a # more"
proof (induction pre arbitrary: log)
  case Nil
  then have "a \<noteq> Detach" "\<not> is_forward a" by (auto simp: is_modal_def is_forward_def)
  with Nil show ?case by (auto simp: Let_def split: prod.splits dest!: handle_log)
next
  case (Cons b pre)
  from Cons.IH [of "log @ [b]"] Cons.prems show ?case by (simp split: if_splits)
qed

lemma scan_detach_last: "scan_loop s bs actions out = (s', acts) \<Longrightarrow> Detach \<notin> set actions \<Longrightarrow> Detach \<notin> set (butlast acts)"
proof (induction s bs actions out rule: scan_loop.induct)
  case (1 s actions out)
  then show ?case by (auto simp: forward_def butlast_append split: if_splits dest: in_set_butlastD)
next
  case (2 s b bs actions out)
  have "chord b \<noteq> Some Detach" using flat_chord by blast
  with 2 show ?case
    by (auto simp: scan_loop.simps(2) [of s b] forward_def butlast_append dest: in_set_butlastD
        split: if_splits option.splits)
qed

text \<open>
  One turn in the two worlds: the actions are those of the grammar, and so is what is held.
\<close>

lemma held_reads: "scanner_ok s \<Longrightarrow> read_keys (withheld s) = ([], withheld s)"
  by (auto simp: scanner_ok_def withheld_def read_keys_shapes)

lemma turn_follows:
  assumes "scanner_ok s" "read_input_actions True e s = Some (s', acts)"
  shows "scanner_ok s' \<and> Detach \<notin> set (butlast acts) \<and>
     meaning (withheld s) (e # evs) =
       (if Detach \<in> set acts then (flat acts, withheld s') else apfst ((@) (flat acts)) (meaning (withheld s') evs))"
proof (cases e)
  case (Typed bs)
  with assms(2) have sc: "scan_loop s bs [] [] = (s', acts)" by (simp add: read_input_actions_def scan_def)
  from scan_loop_reads [OF assms(1) sc] scan_detach_last [OF sc] show ?thesis
    unfolding Typed meaning_Typed detach_flat [symmetric] by (auto simp: prod_eq_iff)
next
  case Interrupted
  with assms show ?thesis by (auto simp: read_input_actions_def meaning_rest prod_eq_iff)
next
  case (Quiet up)
  show ?thesis
  proof (cases "awaiting_escape s")
    case False
    with assms Quiet have "s' = s" "acts = []" "length (withheld s) < 2"
      by (auto simp: read_input_actions_def awaiting_escape_def withheld_def)
    with assms Quiet show ?thesis by (simp add: meaning_Quiet [OF held_reads [OF assms(1)]] prod_eq_iff)
  next
    case True
    with assms Quiet have "s' = s \<lparr> pending_escape := [] \<rparr>" "acts = (if up then [] else [Forward (withheld s)])"
        "\<not> length (withheld s) < 2" "withheld s' = []" "scanner_ok s'"
      by (auto simp: read_input_actions_def awaiting_escape_def withheld_def flush_pending_def scanner_ok_def)
    with Quiet show ?thesis by (auto simp: meaning_Quiet [OF held_reads [OF assms(1)]])
  qed
qed (use assms in \<open>simp add: read_input_actions_def\<close>)

lemma loop_follows:
  assumes "scanner_ok s"
  shows "(takeWhile plain (flat (snd (run_input_loop still modal True s evs log))) =
      takeWhile plain (flat log @ fst (meaning (withheld s) evs))) \<and>
    (list_all plain (flat log @ fst (meaning (withheld s) evs)) \<longrightarrow>
      flat (snd (run_input_loop still modal True s evs log)) = flat log @ fst (meaning (withheld s) evs) \<and>
      withheld (fst (run_input_loop still modal True s evs log)) = snd (meaning (withheld s) evs))"
  using assms
proof (induction evs arbitrary: s log)
  case Nil
  then show ?case by (simp add: meaning_rest held_reads)
next
  case (Cons e evs)
  show ?case
  proof (cases "read_input_actions True e s")
    case None
    then have "e = Ended" by (auto simp: read_input_actions_def Let_def split: stdin_event.splits if_splits prod.splits)
    with None Cons.prems show ?thesis by (simp add: meaning_rest held_reads)
  next
    case (Some st)
    obtain s' acts where st: "st = (s', acts)" by force
    note turn = turn_follows [OF Cons.prems Some [unfolded st], of evs]
    show ?thesis
    proof (cases "list_all (\<lambda>a. \<not> is_modal a) acts")
      case True
      have h: "handle_input_actions still modal acts s' evs log = (Detach \<notin> set acts, s', evs, log @ acts)"
        using handle_plain [OF True] turn by blast
      show ?thesis
        using Cons.IH [of s' "log @ acts"] turn by (auto simp: Some st h)
    next
      case False
      then obtain pre a post where sp: "acts = pre @ a # post" "list_all (\<lambda>a. \<not> is_modal a) pre" "is_modal a"
        using split_list_first_prop [of acts is_modal] by (auto simp: list_all_iff list_ex_iff)
      have nd: "Detach \<notin> set pre" using turn sp(1) by (auto simp: butlast_append)
      obtain go s'' evs' log' where h: "handle_input_actions still modal acts s' evs log = (go, s'', evs', log')"
        by (metis prod_cases4)
      obtain more where more: "log' = log @ pre @ a # more"
        using handle_modal [OF sp(2) nd sp(3) h [unfolded sp(1)]] by blast
      obtain more' where fin: "snd (run_input_loop still modal True s (e # evs) log) = log @ pre @ a # more'"
        using loop_log [of still modal True s'' evs' log'] by (cases go) (auto simp: Some st h more)
      have stop: "takeWhile plain (xs @ flat (a # ys)) = takeWhile plain xs" for xs ys
        unfolding flat_Cons [of a ys] using flat_modal [OF sp(3)]
        by (simp add: takeWhile_append) (metis takeWhile_eq_all_conv)
      have "fst (meaning (withheld s) (e # evs)) = flat pre @ flat (a # post) @ (if Detach \<in> set acts then [] else
          fst (meaning (withheld s') evs))"
        using turn sp(1) by simp
      moreover have "\<exists>zs. flat (a # post) @ ys = flat (a # []) @ zs" for ys by (simp add: flat_Cons [of a post])
      ultimately obtain zs where m: "fst (meaning (withheld s) (e # evs)) = flat pre @ flat [a] @ zs" by metis
      have "takeWhile plain (flat log @ fst (meaning (withheld s) (e # evs))) =
          takeWhile plain ((flat log @ flat pre) @ flat [a])" 
        using flat_modal [OF sp(3)] by (simp add: m takeWhile_append)
      moreover have "\<not> list_all plain (flat log @ fst (meaning (withheld s) (e # evs)))"
        using flat_modal [OF sp(3)] by (simp add: m)
      ultimately show ?thesis
        using stop [of "flat log @ flat pre" more'] stop [of "flat log @ flat pre" "[]"]
        by (simp add: fin del: run_input_loop.simps) blast
    qed
  qed
qed

text \<open>
  C36: What a user types means the same however the reads cut it. As long as the connection holds,
  the actions the input thread carries out are, up to the grouping of forwarded bytes, those the
  grammar reads from the bytes typed between two silences, up to the first one that hands the
  keyboard to the rename prompt or to a picker; when there is none, what the scanner still holds
  at the end is the unfinished chord. A silence forwards an unfinished arrow chord, unless all it
  did was to take down the key overlay. What is forwarded goes to the workload, or to the pager while
  that is up.
\<close>

theorem input_loop_grammar:
  "takeWhile plain (flat (snd (run_input_loop still modal True new_scanner evs []))) =
     takeWhile plain (fst (meaning [] evs)) \<and>
   (list_all plain (fst (meaning [] evs)) \<longrightarrow>
     flat (snd (run_input_loop still modal True new_scanner evs [])) = fst (meaning [] evs) \<and>
     withheld (fst (run_input_loop still modal True new_scanner evs [])) = snd (meaning [] evs))"
proof -
  have "scanner_ok new_scanner" "withheld new_scanner = []" by (simp_all add: new_scanner_def scanner_ok_def withheld_def)
  with loop_follows [of new_scanner modal evs "[]"] show ?thesis by simp
qed

text \<open>Two reads, a silence and a third read: a split switch, a lone escape, and a detach.\<close>

theorem input_loop_grammar_witness:
  "flat (snd (run_input_loop still (\<lambda>_ _. (False, 0)) True new_scanner
     [Typed [0x61, 2], Typed [0x1B, 0x5B], Interrupted, Typed [0x43, 2, 0x1B], Quiet False, Typed [2, 0x64, 0x62]] [])) =
     [Key 0x61, Act (Switch Next), Key 2, Key 0x1B, Act Detach]"
proof -
  let ?evs = "[Typed [0x61, 2], Typed [0x1B, 0x5B], Interrupted, Typed [0x43, 2, 0x1B], Quiet False, Typed [2, 0x64, 0x62]]"
  have "read_keys [0x61, 2, 0x1B, 0x5B, 0x43, 2, 0x1B] = ([Key 0x61, Act (Switch Next)], [2, 0x1B])"
    by (simp add: read_keys_shapes arrow_def)
  then have "fst (meaning [] ?evs) = [Key 0x61, Act (Switch Next), Key 2, Key 0x1B, Act Detach]"
    by (simp add: meaning.simps read_keys_shapes)
  with input_loop_grammar [of "\<lambda>_ _. (False, 0)" ?evs] show ?thesis
    by (simp add: plain_def is_modal_def)
qed

end
