(* ===== verification/Watch_Stream.thy ===== *)
theory Watch_Stream
  imports Session_Record Task_Stamp
begin

text \<open>
  \<open>a watch\<close>: \<open>src/watch.rs\<close>, \<open>src/watch/state.rs\<close> and \<open>src/watch/events.rs\<close>, and the state word of the
  terminal interface in \<open>src/bin/aplexer/list_helpers.rs\<close>. The command polls the registry and prints one
  event for each change it sees. A poll is given the records it lists and the clock; \<open>clock n\<close> is the
  clock when the event with number \<open>n\<close> is made. A failed listing or a failed write ends the command, so
  a consumer of a stream that ended has a prefix of what is modelled here.
\<close>

section \<open>The state of an agent\<close>

definition ACTIVITY_THRESHOLD_MS :: nat where "ACTIVITY_THRESHOLD_MS = 3000"
definition REPORTED_STATE_STALE_MS :: nat where "REPORTED_STATE_STALE_MS = 8000"
definition IDLE_ACTIVITY_GRACE_MS :: nat where "IDLE_ACTIVITY_GRACE_MS = 2000"

definition idle_was_contradicted :: "session_record \<Rightarrow> nat \<Rightarrow> bool" where
  "idle_was_contradicted r at \<longleftrightarrow>
     (if sr_engine r = ''antigravity'' then False
      else case sr_last_activity_ms r of
        Some activity \<Rightarrow> sat_add U64_MAX at IDLE_ACTIVITY_GRACE_MS < activity
      | None \<Rightarrow> False)"

datatype rejection =
    MissingState | MissingTimestamp | IdleContradicted | WaitingExpired | WorkingExpired | UnsupportedState

definition reported_state_rejection :: "session_record \<Rightarrow> nat \<Rightarrow> rejection option" where
  "reported_state_rejection r now =
     (case sr_reported_state r of
        None \<Rightarrow> Some MissingState
      | Some state \<Rightarrow>
          (case sr_reported_state_at_ms r of
             None \<Rightarrow> Some MissingTimestamp
           | Some at \<Rightarrow>
               let expired = REPORTED_STATE_STALE_MS < now - at in
               if state = ''idle'' \<and> idle_was_contradicted r at then Some IdleContradicted
               else if state = ''waiting'' \<and> expired then Some WaitingExpired
               else if state = ''working'' \<and> expired then Some WorkingExpired
               else if state \<in> {''idle'', ''waiting'', ''working''} then None
               else Some UnsupportedState))"

definition fresh_reported_state :: "session_record \<Rightarrow> nat \<Rightarrow> string option" where
  "fresh_reported_state r now =
     (if reported_state_rejection r now \<noteq> None then None
      else case sr_reported_state r of
        None \<Rightarrow> None
      | Some state \<Rightarrow>
          if state = ''idle'' then Some ''idle''
          else if state = ''waiting'' then Some ''waiting''
          else if state = ''working'' then Some ''running''
          else None)"

definition exit_oom :: "session_record \<Rightarrow> bool" where
  "exit_oom r = (case sr_exit r of Some e \<Rightarrow> oom_killed e | None \<Rightarrow> False)"

definition derive_agent_state_with_source :: "session_record \<Rightarrow> nat \<Rightarrow> string \<times> string" where
  "derive_agent_state_with_source r now =
     (case sr_phase r of
        Starting \<Rightarrow> (''starting'', ''heuristic'')
      | Exited \<Rightarrow> (if exit_oom r then ''oom'' else ''exited'', ''heuristic'')
      | Failed \<Rightarrow> (''error'', ''heuristic'')
      | _ \<Rightarrow>
          (case fresh_reported_state r now of
             Some state \<Rightarrow> (state, ''reported'')
           | None \<Rightarrow>
               (case sr_last_activity_ms r of
                  Some ts \<Rightarrow> if now - ts < ACTIVITY_THRESHOLD_MS then ''running'' else ''waiting''
                | None \<Rightarrow> ''running'', ''heuristic'')))"

definition derive_agent_state :: "session_record \<Rightarrow> nat \<Rightarrow> string" where
  "derive_agent_state r now = fst (derive_agent_state_with_source r now)"

definition session_ui_state :: "machine \<Rightarrow> session_record \<Rightarrow> nat \<Rightarrow> string \<times> string" where
  "session_ui_state M r now =
     (if observed_state (sr_phase r) (worker_alive M r) (sr_created_at_ms r) now = ''broken'' then (''broken'', ''lifecycle'')
      else case sr_phase r of
        Starting \<Rightarrow> (''starting'', ''lifecycle'')
      | Exiting \<Rightarrow> (''exiting'', ''lifecycle'')
      | Exited \<Rightarrow> if exit_oom r then (''failed'', ''lifecycle'') else (''exited'', ''lifecycle'')
      | Failed \<Rightarrow> (''failed'', ''lifecycle'')
      | Running \<Rightarrow>
          (let (state, source) = derive_agent_state_with_source r now in
           if source = ''reported'' then (state, ''reported'')
           else if sr_engine r = ''shell'' \<and> sr_reported_state r = None then (''running'', ''lifecycle'')
           else (if state = ''waiting'' then ''idle'' else state, ''activity'')))"

definition ui_state_is_active :: "string \<Rightarrow> bool" where
  "ui_state_is_active state \<longleftrightarrow> state \<in> {''running'', ''idle'', ''waiting'', ''starting'', ''exiting''}"

section \<open>Timestamps\<close>

text \<open>The second copy of the calendar routine, with Euclidean division throughout.\<close>

definition event_civil_from_days :: "int \<Rightarrow> int \<times> int \<times> int" where
  "event_civil_from_days z =
     (let z = z + 719468;
          era = z div 146097;
          doe = z - era * 146097;
          yoe = (doe - doe div 1460 + doe div 36524 - doe div 146096) div 365;
          y = yoe + era * 400;
          doy = doe - (365 * yoe + yoe div 4 - yoe div 100);
          mp = (5 * doy + 2) div 153;
          d = doy - (153 * mp + 2) div 5 + 1;
          m = (if mp < 10 then mp + 3 else mp - 9)
      in (if m \<le> 2 then y + 1 else y, m, d))"

definition iso8601_utc :: "nat \<Rightarrow> string" where
  "iso8601_utc epoch_ms =
     (let secs = epoch_ms div 1000;
          days = secs div 86400;
          rem = secs mod 86400;
          (year, month, day) = event_civil_from_days (int days)
      in pad_int 4 year @ ''-'' @ pad_int 2 month @ ''-'' @ pad_int 2 day @ ''T'' @ pad 2 (rem div 3600) @ '':'' @
         pad 2 (rem mod 3600 div 60) @ '':'' @ pad 2 (rem mod 60) @ ''+00:00'')"

section \<open>Events\<close>

datatype meta_value = MetaText string | MetaId uuid | MetaNat nat | MetaInt int

datatype raw_event =
    RawCreated uuid | RawOom uuid | RawExited uuid "exit_info option" | RawDeleted uuid | RawState uuid string

record unified_event =
  ev_kind :: string
  ev_engine :: string
  ev_sequence :: nat
  ev_timestamp :: string
  ev_content :: string
  ev_error :: "string option"
  ev_raw :: raw_event
  ev_metadata :: "(string, meta_value) btree"

definition session_kind :: "session_record \<Rightarrow> string" where
  "session_kind r = (if sr_engine r = ''shell'' then ''shell'' else ''agent'')"

definition exit_reason :: "exit_info option \<Rightarrow> string" where
  "exit_reason e =
     (case e of
        Some i \<Rightarrow> if oom_killed i then ''killed'' else if ei_signal i \<noteq> None then ''signal'' else ''exit''
      | None \<Rightarrow> ''killed'')"

definition session_metadata :: "session_record \<Rightarrow> (string, meta_value) btree" where
  "session_metadata r =
     bt_insert ''tag'' (MetaText (sr_tag r)) (bt_insert ''workspace'' (MetaText (sr_workspace r))
       (bt_insert ''session_id'' (MetaId (sr_id r)) []))"

definition common_metadata :: "session_record \<Rightarrow> nat \<Rightarrow> (string, meta_value) btree" where
  "common_metadata r generation = bt_insert ''generation'' (MetaNat generation) (session_metadata r)"

definition make_created_event :: "session_record \<Rightarrow> nat \<Rightarrow> nat \<Rightarrow> unified_event" where
  "make_created_event r generation sequence =
     (let metadata = bt_insert ''session_kind'' (MetaText (session_kind r))
            (bt_insert ''event'' (MetaText ''session.created'') (common_metadata r generation));
          metadata = (case sr_profile r of Some p \<Rightarrow> bt_insert ''profile'' (MetaText p) metadata | None \<Rightarrow> metadata);
          engine_profile = (case sr_profile r of Some p \<Rightarrow> sr_engine r @ ''/'' @ p | None \<Rightarrow> sr_engine r)
      in \<lparr> ev_kind = ''status'', ev_engine = sr_engine r, ev_sequence = sequence,
           ev_timestamp = iso8601_utc (sr_created_at_ms r),
           ev_content = ''created '' @ sr_workspace r @ '':'' @ sr_tag r @ '' ('' @ engine_profile @ '')'',
           ev_error = None, ev_raw = RawCreated (sr_id r), ev_metadata = metadata \<rparr>)"

definition make_oom_event :: "session_record \<Rightarrow> exit_info \<Rightarrow> nat \<Rightarrow> nat \<Rightarrow> unified_event" where
  "make_oom_event r e generation sequence =
     \<lparr> ev_kind = ''error'', ev_engine = sr_engine r, ev_sequence = sequence, ev_timestamp = iso8601_utc (exited_at_ms e),
       ev_content = [], ev_error = Some ''workload killed: cgroup memory limit'', ev_raw = RawOom (sr_id r),
       ev_metadata = bt_insert ''resource'' (MetaText ''memory'')
         (bt_insert ''event'' (MetaText ''session.oom'') (common_metadata r generation)) \<rparr>"

definition make_exited_event :: "(nat \<Rightarrow> nat) \<Rightarrow> session_record \<Rightarrow> nat \<Rightarrow> nat \<Rightarrow> unified_event" where
  "make_exited_event clock r generation sequence =
     (let reason = exit_reason (sr_exit r);
          metadata = bt_insert ''reason'' (MetaText reason)
            (bt_insert ''event'' (MetaText ''session.exited'') (common_metadata r generation));
          metadata = (case Option.bind (sr_exit r) ei_code of
            Some code \<Rightarrow> bt_insert ''exit_code'' (MetaInt code) metadata | None \<Rightarrow> metadata)
      in \<lparr> ev_kind = ''status'', ev_engine = sr_engine r, ev_sequence = sequence,
           ev_timestamp = iso8601_utc (case sr_exit r of Some e \<Rightarrow> exited_at_ms e | None \<Rightarrow> clock sequence),
           ev_content = ''exited ('' @ reason @ '')'', ev_error = None, ev_raw = RawExited (sr_id r) (sr_exit r),
           ev_metadata = metadata \<rparr>)"

definition make_deleted_event :: "(nat \<Rightarrow> nat) \<Rightarrow> session_record \<Rightarrow> nat \<Rightarrow> nat \<Rightarrow> unified_event" where
  "make_deleted_event clock r generation sequence =
     \<lparr> ev_kind = ''status'', ev_engine = sr_engine r, ev_sequence = sequence, ev_timestamp = iso8601_utc (clock sequence),
       ev_content = ''deleted '' @ sr_workspace r @ '':'' @ sr_tag r, ev_error = None, ev_raw = RawDeleted (sr_id r),
       ev_metadata = bt_insert ''event'' (MetaText ''session.deleted'') (common_metadata r generation) \<rparr>"

definition make_agent_state_event :: "(nat \<Rightarrow> nat) \<Rightarrow> session_record \<Rightarrow> string \<Rightarrow> string \<Rightarrow> nat \<Rightarrow> nat \<Rightarrow> unified_event" where
  "make_agent_state_event clock r state source generation sequence =
     \<lparr> ev_kind = ''status'', ev_engine = sr_engine r, ev_sequence = sequence, ev_timestamp = iso8601_utc (clock sequence),
       ev_content = state, ev_error = None, ev_raw = RawState (sr_id r) state,
       ev_metadata = bt_insert ''state_source'' (MetaText source) (bt_insert ''state'' (MetaText state)
         (bt_insert ''event'' (MetaText ''agent.state'') (common_metadata r generation))) \<rparr>"

section \<open>The poll loop\<close>

record known_session =
  ks_record :: session_record
  ks_derived_state :: string
  ks_exit_emitted :: bool

definition ended :: "session_record \<Rightarrow> bool" where
  "ended r \<longleftrightarrow> sr_phase r \<in> {Exited, Failed}"

definition matches_filter :: "bool \<Rightarrow> string option \<Rightarrow> session_record \<Rightarrow> bool" where
  "matches_filter all workspace r \<longleftrightarrow>
     \<not> (\<not> all \<and> sr_engine r = ''shell'') \<and> (case workspace of Some ws \<Rightarrow> sr_workspace r = ws | None \<Rightarrow> True)"

text \<open>The events of one session, numbered from \<open>sequence\<close>, and what is known of it afterwards.\<close>

definition transition_events ::
    "(nat \<Rightarrow> nat) \<Rightarrow> known_session \<Rightarrow> session_record \<Rightarrow> nat \<Rightarrow> nat \<Rightarrow> nat \<Rightarrow> bool \<Rightarrow> unified_event list \<times> known_session" where
  "transition_events clock ks current now generation sequence is_new =
     (let exiting = (\<not> ks_exit_emitted ks \<and> ended current);
          oom = (case sr_exit current of
            Some e \<Rightarrow> if exiting \<and> oom_killed e then [make_oom_event current e generation sequence] else []
          | None \<Rightarrow> []);
          exited = (if exiting then [make_exited_event clock current generation (sequence + length oom)] else []);
          (new_state, source) = derive_agent_state_with_source current now;
          changed = (if \<not> is_new \<and> new_state \<noteq> ks_derived_state ks
            then [make_agent_state_event clock current new_state source generation (sequence + length oom + length exited)]
            else [])
      in (oom @ exited @ changed,
          ks \<lparr> ks_derived_state := new_state, ks_exit_emitted := ks_exit_emitted ks \<or> exiting \<rparr>))"

record watch_state =
  wa_known :: "(uuid, known_session) btree"
  wa_sequence :: nat
  wa_generation :: nat

definition seed_session :: "nat \<Rightarrow> session_record \<Rightarrow> known_session" where
  "seed_session now r = \<lparr> ks_record = r, ks_derived_state = derive_agent_state r now, ks_exit_emitted = ended r \<rparr>"

definition watch_start :: "(session_record \<Rightarrow> bool) \<Rightarrow> nat \<Rightarrow> session_record list \<Rightarrow> watch_state" where
  "watch_start keep now records =
     \<lparr> wa_known = fold (\<lambda>r. bt_insert (sr_id r) (seed_session now r)) (filter keep records) [],
       wa_sequence = 0, wa_generation = 0 \<rparr>"

definition emit_all :: "unified_event list \<Rightarrow> watch_state \<times> unified_event list \<Rightarrow> watch_state \<times> unified_event list" where
  "emit_all es st = ((fst st) \<lparr> wa_sequence := wa_sequence (fst st) + length es \<rparr>, snd st @ es)"

definition drop_known :: "(nat \<Rightarrow> nat) \<Rightarrow> uuid \<Rightarrow> watch_state \<times> unified_event list \<Rightarrow> watch_state \<times> unified_event list" where
  "drop_known clock sid st =
     (case bt_get sid (wa_known (fst st)) of
        None \<Rightarrow> st
      | Some ks \<Rightarrow>
          emit_all [make_deleted_event clock (ks_record ks) (wa_generation (fst st)) (wa_sequence (fst st))]
            ((fst st) \<lparr> wa_known := bt_remove sid (wa_known (fst st)) \<rparr>, snd st))"

definition see_record ::
    "(nat \<Rightarrow> nat) \<Rightarrow> nat \<Rightarrow> session_record \<Rightarrow> watch_state \<times> unified_event list \<Rightarrow> watch_state \<times> unified_event list" where
  "see_record clock now r st =
     (let w = fst st in
      case bt_get (sr_id r) (wa_known w) of
        None \<Rightarrow>
          (let created = make_created_event r (wa_generation w) (wa_sequence w);
               ks = \<lparr> ks_record = r, ks_derived_state = ''starting'', ks_exit_emitted = False \<rparr>;
               (events, ks') = transition_events clock ks r now (wa_generation w) (wa_sequence w + 1) True
           in emit_all (created # events) (w \<lparr> wa_known := bt_insert (sr_id r) ks' (wa_known w) \<rparr>, snd st))
      | Some ks \<Rightarrow>
          (let (events, ks') = transition_events clock ks r now (wa_generation w) (wa_sequence w) False
           in emit_all events (w \<lparr> wa_known := bt_insert (sr_id r) (ks' \<lparr> ks_record := r \<rparr>) (wa_known w) \<rparr>, snd st)))"

definition watch_poll ::
    "(session_record \<Rightarrow> bool) \<Rightarrow> (nat \<Rightarrow> nat) \<Rightarrow> nat \<Rightarrow> session_record list \<Rightarrow> watch_state \<Rightarrow> watch_state \<times> unified_event list" where
  "watch_poll keep clock now records w =
     (let w = w \<lparr> wa_generation := wa_generation w + 1 \<rparr>;
          current = filter keep records;
          deleted_ids = filter (\<lambda>sid. sid \<notin> sr_id ` set current) (map fst (wa_known w))
      in fold (see_record clock now) current (fold (drop_known clock) deleted_ids (w, [])))"

text \<open>The loop over the polls, each with its time and the records listed then.\<close>

fun watch_polls ::
    "(session_record \<Rightarrow> bool) \<Rightarrow> (nat \<Rightarrow> nat) \<Rightarrow> (nat \<times> session_record list) list \<Rightarrow> watch_state \<Rightarrow>
     watch_state \<times> unified_event list" where
  "watch_polls keep clock [] w = (w, [])"
| "watch_polls keep clock ((now, records) # polls) w =
     (let (w', es) = watch_poll keep clock now records w;
          (w'', es') = watch_polls keep clock polls w'
      in (w'', es @ es'))"

definition watch_run ::
    "(nat \<Rightarrow> nat) \<Rightarrow> bool \<Rightarrow> string option \<Rightarrow> nat \<Rightarrow> session_record list \<Rightarrow> (nat \<times> session_record list) list \<Rightarrow>
     watch_state \<times> unified_event list" where
  "watch_run clock all workspace now records polls =
     watch_polls (matches_filter all workspace) clock polls (watch_start (matches_filter all workspace) now records)"

end
