(* ===== verification/Watch_Laws.thy ===== *)
theory Watch_Laws
  imports Watch_Stream
begin

text \<open>
  What a consumer of \<open>a watch\<close> can rely on: the stream layered on a listing taken at its start follows
  the registry, with a lifecycle for each session and no gap in the numbers; and its timestamps are
  instants the program reads back.
\<close>

section \<open>A consumer\<close>

record seen =
  sn_state :: "string option"
  sn_exited :: bool

record consumer =
  cv_next :: nat
  cv_view :: "uuid \<Rightarrow> seen option"

text \<open>
  A strict consumer: it refuses a number that is not the next, a second creation, anything about a
  session it does not know, a second exit, and a state change that changes nothing.
\<close>

definition follow :: "(uuid \<Rightarrow> seen option) \<Rightarrow> raw_event \<Rightarrow> (uuid \<Rightarrow> seen option) option" where
  "follow v e =
     (case e of
        RawCreated i \<Rightarrow> if v i = None then Some (v(i \<mapsto> \<lparr> sn_state = None, sn_exited = False \<rparr>)) else None
      | RawOom i \<Rightarrow> (case v i of Some s \<Rightarrow> if sn_exited s then None else Some v | None \<Rightarrow> None)
      | RawExited i _ \<Rightarrow>
          (case v i of Some s \<Rightarrow> if sn_exited s then None else Some (v(i \<mapsto> s \<lparr> sn_exited := True \<rparr>)) | None \<Rightarrow> None)
      | RawDeleted i \<Rightarrow> if v i = None then None else Some (v(i := None))
      | RawState i st \<Rightarrow>
          (case v i of Some s \<Rightarrow> if sn_state s = Some st then None else Some (v(i \<mapsto> s \<lparr> sn_state := Some st \<rparr>)) | None \<Rightarrow> None))"

definition consume :: "consumer \<Rightarrow> unified_event \<Rightarrow> consumer option" where
  "consume c e =
     (if ev_sequence e = cv_next c
      then map_option (\<lambda>v. \<lparr> cv_next = Suc (cv_next c), cv_view = v \<rparr>) (follow (cv_view c) (ev_raw e))
      else None)"

fun replay :: "consumer \<Rightarrow> unified_event list \<Rightarrow> consumer option" where
  "replay c [] = Some c"
| "replay c (e # es) = Option.bind (consume c e) (\<lambda>c'. replay c' es)"

lemma replay_append: "replay c (xs @ ys) = Option.bind (replay c xs) (\<lambda>c'. replay c' ys)"
  by (induction xs arbitrary: c) (auto simp: bind_eq_Some_conv split: bind_splits)

definition baseline :: "(session_record \<Rightarrow> bool) \<Rightarrow> nat \<Rightarrow> session_record list \<Rightarrow> consumer" where
  "baseline keep now records =
     \<lparr> cv_next = 0,
       cv_view = (\<lambda>i. map_option (\<lambda>r. \<lparr> sn_state = Some (derive_agent_state r now), sn_exited = ended r \<rparr>)
         (find (\<lambda>r. sr_id r = i) (filter keep records))) \<rparr>"

section \<open>The simulation\<close>

definition agrees :: "seen \<Rightarrow> known_session \<Rightarrow> bool" where
  "agrees s ks \<longleftrightarrow> sn_exited s = ks_exit_emitted ks \<and> sn_state s \<in> {None, Some (ks_derived_state ks)}"

definition follows :: "consumer \<Rightarrow> watch_state \<Rightarrow> bool" where
  "follows c w \<longleftrightarrow> cv_next c = wa_sequence w \<and> bt_ok (wa_known w) \<and>
     (\<forall>i. case bt_get i (wa_known w) of
        None \<Rightarrow> cv_view c i = None
      | Some ks \<Rightarrow> sr_id (ks_record ks) = i \<and> (\<exists>s. cv_view c i = Some s \<and> agrees s ks))"

definition up_to_date :: "nat \<Rightarrow> session_record \<Rightarrow> known_session \<Rightarrow> bool" where
  "up_to_date now r ks \<longleftrightarrow> ks_record ks = r \<and> ks_derived_state ks = derive_agent_state r now \<and> (ended r \<longrightarrow> ks_exit_emitted ks)"

text \<open>The stream so far leads a consumer from \<open>c\<close> to the state of the watcher.\<close>

definition led :: "consumer \<Rightarrow> watch_state \<times> unified_event list \<Rightarrow> bool" where
  "led c st \<longleftrightarrow> (\<exists>c'. replay c (snd st) = Some c' \<and> follows c' (fst st))"

lemma consume_next:
  "ev_sequence e = cv_next c \<Longrightarrow> follow (cv_view c) (ev_raw e) = Some v \<Longrightarrow>
   consume c e = Some \<lparr> cv_next = Suc (cv_next c), cv_view = v \<rparr>"
  by (simp add: consume_def)

lemmas event_defs = make_created_event_def make_oom_event_def make_exited_event_def make_deleted_event_def
  make_agent_state_event_def Let_def

lemma event_fields [simp]:
  "ev_sequence (make_created_event r g n) = n" "ev_raw (make_created_event r g n) = RawCreated (sr_id r)"
  "ev_sequence (make_oom_event r e g n) = n" "ev_raw (make_oom_event r e g n) = RawOom (sr_id r)"
  "ev_sequence (make_exited_event k r g n) = n" "ev_raw (make_exited_event k r g n) = RawExited (sr_id r) (sr_exit r)"
  "ev_sequence (make_deleted_event k r g n) = n" "ev_raw (make_deleted_event k r g n) = RawDeleted (sr_id r)"
  "ev_sequence (make_agent_state_event k r st src g n) = n" "ev_raw (make_agent_state_event k r st src g n) = RawState (sr_id r) st"
  by (simp_all add: event_defs)

text \<open>The three groups of events a transition is made of.\<close>

lemma replay_exit:
  assumes "cv_view c (sr_id r) = Some s" "exiting \<longrightarrow> \<not> sn_exited s"
    and "oom = (case sr_exit r of Some e \<Rightarrow> if exiting \<and> oom_killed e then [make_oom_event r e g (cv_next c)] else [] | None \<Rightarrow> [])"
    and "exited = (if exiting then [make_exited_event clock r g (cv_next c + length oom)] else [])"
  shows "replay c (oom @ exited) = Some \<lparr> cv_next = cv_next c + length oom + length exited,
    cv_view = (cv_view c)(sr_id r \<mapsto> s \<lparr> sn_exited := sn_exited s \<or> exiting \<rparr>) \<rparr>"
proof -
  have u: "(cv_view c)(sr_id r \<mapsto> s \<lparr> sn_exited := sn_exited s \<rparr>) = cv_view c" using assms(1) by (simp add: fun_upd_idem)
  show ?thesis
  proof (cases exiting)
    case False
    then show ?thesis using assms u by (cases "sr_exit r") simp_all
  next
    case True
    then show ?thesis using assms
      by (cases "sr_exit r") (auto simp: consume_def follow_def)
  qed
qed

lemma replay_change:
  assumes "cv_view c (sr_id r) = Some s" "sn_state s \<in> {None, Some old}" "is_new \<longrightarrow> sn_state s = None"
    and "changed = (if \<not> is_new \<and> new \<noteq> old then [make_agent_state_event clock r new src g (cv_next c)] else [])"
  shows "\<exists>s'. replay c changed = Some \<lparr> cv_next = cv_next c + length changed, cv_view = (cv_view c)(sr_id r \<mapsto> s') \<rparr> \<and>
    sn_exited s' = sn_exited s \<and> sn_state s' \<in> {None, Some new}"
proof (cases "\<not> is_new \<and> new \<noteq> old")
  case True
  then show ?thesis using assms by (intro exI [of _ "s \<lparr> sn_state := Some new \<rparr>"]) (auto simp: consume_def follow_def)
next
  case False
  have "(cv_view c)(sr_id r \<mapsto> s) = cv_view c" using assms(1) by (simp add: fun_upd_idem)
  with False show ?thesis using assms by (intro exI [of _ s]) auto
qed

lemma transition_followed:
  assumes "transition_events clock ks r now g (cv_next c) is_new = (events, ks')"
    and "cv_view c (sr_id r) = Some s" "agrees s ks" "is_new \<longrightarrow> sn_state s = None"
  shows "\<exists>s'. replay c events = Some \<lparr> cv_next = cv_next c + length events, cv_view = (cv_view c)(sr_id r \<mapsto> s') \<rparr> \<and>
    agrees s' ks' \<and> ks_derived_state ks' = derive_agent_state r now \<and> (ended r \<longrightarrow> ks_exit_emitted ks') \<and> ks_record ks' = ks_record ks"
proof -
  define exiting where "exiting = (\<not> ks_exit_emitted ks \<and> ended r)"
  define oom where "oom = (case sr_exit r of Some e \<Rightarrow> if exiting \<and> oom_killed e then [make_oom_event r e g (cv_next c)] else [] | None \<Rightarrow> [])"
  define exited where "exited = (if exiting then [make_exited_event clock r g (cv_next c + length oom)] else [])"
  obtain new src where n: "derive_agent_state_with_source r now = (new, src)" by fastforce
  define changed where "changed = (if \<not> is_new \<and> new \<noteq> ks_derived_state ks
    then [make_agent_state_event clock r new src g (cv_next c + length oom + length exited)] else [])"
  have ev: "events = (oom @ exited) @ changed" "ks' = ks \<lparr> ks_derived_state := new, ks_exit_emitted := ks_exit_emitted ks \<or> exiting \<rparr>"
    using assms(1) n unfolding transition_events_def Let_def oom_def exited_def changed_def exiting_def by auto
  define c1 where "c1 = \<lparr> cv_next = cv_next c + length oom + length exited,
    cv_view = (cv_view c)(sr_id r \<mapsto> s \<lparr> sn_exited := sn_exited s \<or> exiting \<rparr>) \<rparr>"
  have "exiting \<longrightarrow> \<not> sn_exited s" using assms(3) by (simp add: exiting_def agrees_def)
  from replay_exit [where clock = clock, OF assms(2) this oom_def exited_def]
  have one: "replay c (oom @ exited) = Some c1" by (simp add: c1_def)
  have "changed = (if \<not> is_new \<and> new \<noteq> ks_derived_state ks then [make_agent_state_event clock r new src g (cv_next c1)] else [])"
    by (simp add: changed_def c1_def)
  from replay_change [OF _ _ _ this, of "s \<lparr> sn_exited := sn_exited s \<or> exiting \<rparr>"]
  obtain s' where two: "replay c1 changed = Some \<lparr> cv_next = cv_next c1 + length changed, cv_view = (cv_view c1)(sr_id r \<mapsto> s') \<rparr>"
    "sn_exited s' = (sn_exited s \<or> exiting)" "sn_state s' \<in> {None, Some new}"
    using assms(3,4) by (auto simp: c1_def agrees_def)
  have "replay c events = Some \<lparr> cv_next = cv_next c + length events, cv_view = (cv_view c)(sr_id r \<mapsto> s') \<rparr>"
    unfolding ev(1) replay_append [of c "oom @ exited"] one using two(1) by (simp add: c1_def)
  moreover have "agrees s' ks'" using two assms(3) by (auto simp: ev(2) agrees_def)
  ultimately show ?thesis using n by (auto simp: ev(2) derive_agent_state_def exiting_def)
qed

lemma follows_lookup:
  assumes "follows c w"
  shows "bt_get i (wa_known w) = None \<Longrightarrow> cv_view c i = None"
    and "bt_get i (wa_known w) = Some ks \<Longrightarrow> sr_id (ks_record ks) = i \<and> (\<exists>s. cv_view c i = Some s \<and> agrees s ks)"
proof -
  have "case bt_get i (wa_known w) of None \<Rightarrow> cv_view c i = None
      | Some ks \<Rightarrow> sr_id (ks_record ks) = i \<and> (\<exists>s. cv_view c i = Some s \<and> agrees s ks)"
    using assms by (simp add: follows_def)
  then show "bt_get i (wa_known w) = None \<Longrightarrow> cv_view c i = None"
    and "bt_get i (wa_known w) = Some ks \<Longrightarrow> sr_id (ks_record ks) = i \<and> (\<exists>s. cv_view c i = Some s \<and> agrees s ks)"
    by simp_all
qed

lemma follows_insert:
  assumes "follows c w" "agrees s ks" "sr_id (ks_record ks) = i"
  shows "follows \<lparr> cv_next = n, cv_view = (cv_view c)(i \<mapsto> s) \<rparr>
    (w \<lparr> wa_known := bt_insert i ks (wa_known w), wa_sequence := n \<rparr>)"
  using assms follows_lookup [OF assms(1)]
  by (auto simp: follows_def bt_get_insert bt_ok_insert split: option.split)

lemma see_record_led:
  assumes "led c (w, out)" and "see_record clock now r (w, out) = (w', out')"
  shows "led c (w', out') \<and> (\<exists>ks. bt_get (sr_id r) (wa_known w') = Some ks \<and> up_to_date now r ks) \<and>
    (\<forall>i. i \<noteq> sr_id r \<longrightarrow> bt_get i (wa_known w') = bt_get i (wa_known w))"
proof -
  obtain c1 where c1: "replay c out = Some c1" "follows c1 w" using assms(1) by (auto simp: led_def)
  have seq: "cv_next c1 = wa_sequence w" and ok: "bt_ok (wa_known w)" using c1(2) by (simp_all add: follows_def)
  show ?thesis
  proof (cases "bt_get (sr_id r) (wa_known w)")
    case None
    then have unseen: "cv_view c1 (sr_id r) = None" using follows_lookup(1) [OF c1(2)] by blast
    define ks where "ks = \<lparr> ks_record = r, ks_derived_state = ''starting'', ks_exit_emitted = False \<rparr>"
    define s where "s = \<lparr> sn_state = None, sn_exited = False \<rparr>"
    define c2 where "c2 = \<lparr> cv_next = Suc (cv_next c1), cv_view = (cv_view c1)(sr_id r \<mapsto> s) \<rparr>"
    obtain events ks' where t: "transition_events clock ks r now (wa_generation w) (cv_next c2) True = (events, ks')" by fastforce
    obtain s' where f: "replay c2 events = Some \<lparr> cv_next = cv_next c2 + length events, cv_view = (cv_view c2)(sr_id r \<mapsto> s') \<rparr>"
      "agrees s' ks'" "ks_derived_state ks' = derive_agent_state r now" "ended r \<longrightarrow> ks_exit_emitted ks'" "ks_record ks' = r"
      using transition_followed [OF t, of s] by (auto simp: c2_def s_def ks_def agrees_def)
    have created: "consume c1 (make_created_event r (wa_generation w) (wa_sequence w)) = Some c2"
      using unseen seq by (simp add: consume_def follow_def c2_def s_def)
    have st: "w' = w \<lparr> wa_known := bt_insert (sr_id r) ks' (wa_known w), wa_sequence := wa_sequence w + Suc (length events) \<rparr>"
      "out' = out @ make_created_event r (wa_generation w) (wa_sequence w) # events"
      using assms(2) None t seq by (simp_all add: see_record_def Let_def ks_def c2_def emit_all_def)
    have "led c (w', out')"
      unfolding led_def st using c1(1) created f(1) seq follows_insert [OF c1(2) f(2), of "sr_id r"] f(5)
      by (simp add: replay_append c2_def)
    then show ?thesis using f(3-5) by (auto simp: st bt_get_insert up_to_date_def)
  next
    case (Some ks)
    then obtain s where s: "cv_view c1 (sr_id r) = Some s" "agrees s ks"
      using follows_lookup(2) [OF c1(2)] by blast
    obtain events ks' where t: "transition_events clock ks r now (wa_generation w) (cv_next c1) False = (events, ks')" by fastforce
    obtain s' where f: "replay c1 events = Some \<lparr> cv_next = cv_next c1 + length events, cv_view = (cv_view c1)(sr_id r \<mapsto> s') \<rparr>"
      "agrees s' ks'" "ks_derived_state ks' = derive_agent_state r now" "ended r \<longrightarrow> ks_exit_emitted ks'"
      using transition_followed [OF t s] by auto
    have st: "w' = w \<lparr> wa_known := bt_insert (sr_id r) (ks' \<lparr> ks_record := r \<rparr>) (wa_known w), wa_sequence := wa_sequence w + length events \<rparr>"
      "out' = out @ events"
      using assms(2) Some t seq by (simp_all add: see_record_def Let_def emit_all_def)
    have "led c (w', out')"
      unfolding led_def st using c1(1) f(1) seq follows_insert [OF c1(2), of s' "ks' \<lparr> ks_record := r \<rparr>" "sr_id r"] f(2)
      by (simp add: replay_append agrees_def)
    then show ?thesis using f(3,4) by (auto simp: st bt_get_insert up_to_date_def)
  qed
qed

lemma drop_known_led:
  assumes "led c (w, out)" and "drop_known clock i (w, out) = (w', out')"
  shows "led c (w', out') \<and> bt_get i (wa_known w') = None \<and> (\<forall>j. j \<noteq> i \<longrightarrow> bt_get j (wa_known w') = bt_get j (wa_known w))"
proof -
  obtain c1 where c1: "replay c out = Some c1" "follows c1 w" using assms(1) by (auto simp: led_def)
  show ?thesis
  proof (cases "bt_get i (wa_known w)")
    case None
    then show ?thesis using assms by (simp add: drop_known_def)
  next
    case (Some ks)
    then obtain s where s: "sr_id (ks_record ks) = i" "cv_view c1 i = Some s" using follows_lookup(2) [OF c1(2)] by blast
    have st: "w' = w \<lparr> wa_known := bt_remove i (wa_known w), wa_sequence := Suc (wa_sequence w) \<rparr>"
      "out' = out @ [make_deleted_event clock (ks_record ks) (wa_generation w) (wa_sequence w)]"
      using assms(2) Some by (simp_all add: drop_known_def emit_all_def)
    have "consume c1 (make_deleted_event clock (ks_record ks) (wa_generation w) (wa_sequence w)) =
        Some \<lparr> cv_next = Suc (wa_sequence w), cv_view = (cv_view c1)(i := None) \<rparr>"
      using c1(2) s by (simp add: consume_def follow_def follows_def)
    moreover have "follows \<lparr> cv_next = Suc (wa_sequence w), cv_view = (cv_view c1)(i := None) \<rparr> w'"
      using c1(2) follows_lookup [OF c1(2)] unfolding st
      by (auto simp: follows_def bt_get_remove bt_ok_filters split: option.split)
    ultimately have "led c (w', out')" using c1(1) by (simp add: led_def st replay_append)
    then show ?thesis by (simp add: st bt_get_remove)
  qed
qed

section \<open>Polls\<close>

lemma drop_all_led:
  assumes "led c st"
  shows "led c (fold (drop_known clock) ids st) \<and>
    (\<forall>i. bt_get i (wa_known (fst (fold (drop_known clock) ids st))) = (if i \<in> set ids then None else bt_get i (wa_known (fst st))))"
  using assms
proof (induction ids arbitrary: st)
  case (Cons i ids)
  obtain w out w' out' where st: "st = (w, out)" "drop_known clock i st = (w', out')" by (metis surj_pair)
  from drop_known_led [of c w out clock i w' out'] Cons.prems st
  have d: "led c (w', out')" "bt_get i (wa_known w') = None" "\<forall>j. j \<noteq> i \<longrightarrow> bt_get j (wa_known w') = bt_get j (wa_known w)" by auto
  show ?case using Cons.IH [OF d(1)] d(2,3) st by auto
qed simp

lemma see_all_led:
  assumes "led c st" "distinct (map sr_id rs)"
  shows "led c (fold (see_record clock now) rs st) \<and>
    (\<forall>r \<in> set rs. \<exists>ks. bt_get (sr_id r) (wa_known (fst (fold (see_record clock now) rs st))) = Some ks \<and> up_to_date now r ks) \<and>
    (\<forall>i. i \<notin> sr_id ` set rs \<longrightarrow> bt_get i (wa_known (fst (fold (see_record clock now) rs st))) = bt_get i (wa_known (fst st)))"
  using assms
proof (induction rs arbitrary: st)
  case (Cons r rs)
  obtain w out w' out' where st: "st = (w, out)" "see_record clock now r st = (w', out')" by (metis surj_pair)
  from see_record_led [of c w out clock now r w' out'] Cons.prems st
  have d: "led c (w', out')" "\<exists>ks. bt_get (sr_id r) (wa_known w') = Some ks \<and> up_to_date now r ks"
    "\<forall>i. i \<noteq> sr_id r \<longrightarrow> bt_get i (wa_known w') = bt_get i (wa_known w)" by auto
  have "sr_id r \<notin> sr_id ` set rs" "distinct (map sr_id rs)" using Cons.prems(2) by simp_all
  then show ?case using Cons.IH [OF d(1)] d(2,3) st by auto
qed simp

text \<open>The watcher is at the records listed at a time.\<close>

definition at_listing :: "nat \<Rightarrow> session_record list \<Rightarrow> watch_state \<Rightarrow> bool" where
  "at_listing now rs w \<longleftrightarrow> (\<forall>i. bt_get i (wa_known w) \<noteq> None \<longrightarrow> i \<in> sr_id ` set rs) \<and>
     (\<forall>r \<in> set rs. \<exists>ks. bt_get (sr_id r) (wa_known w) = Some ks \<and> up_to_date now r ks)"

lemma watch_poll_led:
  assumes "follows c w" "distinct (map sr_id records)"
  shows "led c (watch_poll keep clock now records w) \<and> at_listing now (filter keep records) (fst (watch_poll keep clock now records w))"
proof -
  define w1 where "w1 = w \<lparr> wa_generation := wa_generation w + 1 \<rparr>"
  define rs where "rs = filter keep records"
  define ids where "ids = filter (\<lambda>sid. sid \<notin> sr_id ` set rs) (map fst (wa_known w1))"
  have p: "watch_poll keep clock now records w = fold (see_record clock now) rs (fold (drop_known clock) ids (w1, []))"
    by (simp add: watch_poll_def Let_def w1_def rs_def ids_def)
  have "led c (w1, [])" using assms(1) by (simp add: led_def follows_def w1_def)
  note d = drop_all_led [OF this, of clock ids]
  have "distinct (map sr_id rs)" using assms(2) by (simp add: rs_def distinct_map inj_on_def)
  note e = see_all_led [OF conjunct1 [OF d] this, of clock now]
  have "bt_get i (wa_known (fst (fold (drop_known clock) ids (w1, [])))) = None" if "i \<notin> sr_id ` set rs" for i
    using d that by (auto simp: ids_def bt_get_def map_of_eq_None_iff)
  then show ?thesis using e unfolding p at_listing_def rs_def [symmetric] by auto
qed

lemma watch_polls_led:
  assumes "follows c w" "\<forall>(now, records) \<in> set polls. distinct (map sr_id records)" "at_listing now0 (filter keep records0) w"
  shows "led c (watch_polls keep clock polls w) \<and>
    (case last ((now0, records0) # polls) of (now, records) \<Rightarrow> at_listing now (filter keep records) (fst (watch_polls keep clock polls w)))"
  using assms
proof (induction polls arbitrary: c w now0 records0)
  case Nil
  then show ?case by (simp add: led_def)
next
  case (Cons p polls)
  obtain now records where p: "p = (now, records)" by (cases p)
  obtain w1 es where w1: "watch_poll keep clock now records w = (w1, es)" by fastforce
  obtain w2 es' where w2: "watch_polls keep clock polls w1 = (w2, es')" by fastforce
  have d: "distinct (map sr_id records)" using Cons.prems(2) p by simp
  from watch_poll_led [OF Cons.prems(1) d, of keep clock now] w1
  obtain c1 where c1: "replay c es = Some c1" "follows c1 w1" "at_listing now (filter keep records) w1" by (auto simp: led_def)
  from Cons.IH [OF c1(2) _ c1(3)] Cons.prems(2) w2
  have "led c1 (w2, es')" "case last ((now, records) # polls) of (now, records) \<Rightarrow> at_listing now (filter keep records) w2" by auto
  then show ?case using c1(1) w1 w2 p by (auto simp: led_def replay_append)
qed

lemma find_by_id:
  assumes "distinct (map sr_id rs)"
  shows "find (\<lambda>r. sr_id r = i) rs = Some r \<longleftrightarrow> r \<in> set rs \<and> sr_id r = i"
    and "find (\<lambda>r. sr_id r = i) rs = None \<longleftrightarrow> i \<notin> sr_id ` set rs"
proof -
  show "find (\<lambda>r. sr_id r = i) rs = Some r \<longleftrightarrow> r \<in> set rs \<and> sr_id r = i"
    using assms by (induction rs) (auto simp: image_iff)
  show "find (\<lambda>r. sr_id r = i) rs = None \<longleftrightarrow> i \<notin> sr_id ` set rs"
    by (auto simp: find_None_iff)
qed

lemma seed_known:
  assumes "bt_ok m" "distinct (map sr_id rs)"
  shows "bt_ok (fold (\<lambda>r. bt_insert (sr_id r) (seed_session now r)) rs m) \<and>
    bt_get i (fold (\<lambda>r. bt_insert (sr_id r) (seed_session now r)) rs m) =
      (case find (\<lambda>r. sr_id r = i) rs of Some r \<Rightarrow> Some (seed_session now r) | None \<Rightarrow> bt_get i m)"
  using assms
proof (induction rs arbitrary: m)
  case (Cons r rs)
  then have "find (\<lambda>x. sr_id x = sr_id r) rs = None" by (subst find_by_id(2)) auto
  then show ?case using Cons by (auto simp: bt_ok_insert bt_get_insert split: option.splits)
qed simp

lemma watch_start_baseline:
  assumes "distinct (map sr_id records)"
  shows "follows (baseline keep now records) (watch_start keep now records)"
    and "at_listing now (filter keep records) (watch_start keep now records)"
proof -
  let ?rs = "filter keep records"
  have d: "distinct (map sr_id ?rs)" using assms by (simp add: distinct_map inj_on_def)
  have "bt_ok (wa_known (watch_start keep now records)) \<and>
    bt_get i (wa_known (watch_start keep now records)) = map_option (seed_session now) (find (\<lambda>r. sr_id r = i) ?rs)" for i
    using seed_known [of "[]" ?rs now i] d
    by (cases "find (\<lambda>r. sr_id r = i) ?rs") (simp_all add: watch_start_def bt_ok_def)
  then have k: "bt_ok (wa_known (watch_start keep now records))"
    "bt_get i (wa_known (watch_start keep now records)) = map_option (seed_session now) (find (\<lambda>r. sr_id r = i) ?rs)" for i by auto
  show "follows (baseline keep now records) (watch_start keep now records)"
    unfolding follows_def k(2) using k(1) find_by_id(1) [OF d]
    by (auto simp: baseline_def watch_start_def agrees_def seed_session_def split: option.split)
  show "at_listing now ?rs (watch_start keep now records)"
    unfolding at_listing_def k(2) using find_by_id [OF d]
    by (auto simp: up_to_date_def seed_session_def)
qed

section \<open>Every event has its cause\<close>

text \<open>
  What a listing has to hold for an event to be right: the session is listed for its creation and
  its state, has ended, with the exit the event carries, for its exit, and is not listed for its
  deletion.
\<close>

definition backed :: "nat \<Rightarrow> session_record list \<Rightarrow> unified_event \<Rightarrow> bool" where
  "backed now rs e =
     (case ev_raw e of
        RawCreated i \<Rightarrow> i \<in> sr_id ` set rs
      | RawOom i \<Rightarrow> (\<exists>r \<in> set rs. sr_id r = i \<and> ended r \<and> (\<exists>x. sr_exit r = Some x \<and> oom_killed x))
      | RawExited i x \<Rightarrow> (\<exists>r \<in> set rs. sr_id r = i \<and> ended r \<and> sr_exit r = x)
      | RawState i st \<Rightarrow> (\<exists>r \<in> set rs. sr_id r = i \<and> st = derive_agent_state r now)
      | RawDeleted i \<Rightarrow> i \<notin> sr_id ` set rs)"

lemma transition_backed:
  assumes "transition_events clock ks r now g n is_new = (events, ks')" "r \<in> set rs"
  shows "list_all (backed now rs) events"
proof -
  have "backed now rs (make_oom_event r x g m)" if "ended r" "sr_exit r = Some x" "oom_killed x" for x m
    using that assms(2) by (auto simp: backed_def)
  moreover have "backed now rs (make_exited_event clock r g m)" if "ended r" for m
    using that assms(2) by (auto simp: backed_def)
  moreover have "backed now rs (make_agent_state_event clock r (derive_agent_state r now) src g m)" for src m
    using assms(2) by (auto simp: backed_def)
  moreover obtain new src where "derive_agent_state_with_source r now = (new, src)" "derive_agent_state r now = new"
    by (simp add: derive_agent_state_def prod_eq_iff)
  ultimately show ?thesis
    using assms(1) by (auto simp: transition_events_def Let_def split: option.splits if_splits)
qed

lemma see_all_backed:
  assumes "list_all (backed now rs) (snd st)" "set qs \<subseteq> set rs"
  shows "list_all (backed now rs) (snd (fold (see_record clock now) qs st))"
  using assms
proof (induction qs arbitrary: st)
  case (Cons r qs)
  then have r: "r \<in> set rs" by simp
  have "backed now rs (make_created_event r g n)" for g n using r by (simp add: backed_def)
  moreover have "list_all (backed now rs) (fst (transition_events clock ks r now g n b))" for ks g n b
    by (rule transition_backed [OF prod.collapse [symmetric] r])
  ultimately have "list_all (backed now rs) (snd (see_record clock now r st))"
    using Cons.prems(1) by (auto simp: see_record_def Let_def emit_all_def case_prod_beta split: option.splits)
  with Cons show ?case by simp
qed simp

lemma drop_all_backed:
  assumes "led c st" "list_all (backed now rs) (snd st)" "set ids \<inter> sr_id ` set rs = {}"
  shows "list_all (backed now rs) (snd (fold (drop_known clock) ids st))"
  using assms
proof (induction ids arbitrary: st)
  case (Cons i ids)
  obtain w out where st: "st = (w, out)" by force
  obtain w' out' where d: "drop_known clock i st = (w', out')" by force
  have l: "led c (w', out')" using drop_known_led [OF Cons.prems(1) [unfolded st] d [unfolded st]] by blast
  obtain c' where c': "follows c' w" using Cons.prems(1) st by (auto simp: led_def)
  have del: "backed now rs (make_deleted_event clock (ks_record ks) g n)" if "sr_id (ks_record ks) = i" for ks g n
    using that Cons.prems(3) by (simp add: backed_def)
  have "list_all (backed now rs) out'"
  proof (cases "bt_get i (wa_known w)")
    case None
    then show ?thesis using d Cons.prems(2) st by (simp add: drop_known_def)
  next
    case (Some ks)
    then have "sr_id (ks_record ks) = i" using follows_lookup(2) [OF c'] by blast
    from del [OF this] show ?thesis using d Cons.prems(2) st Some by (auto simp: drop_known_def emit_all_def)
  qed
  then show ?case using Cons.IH [OF l] Cons.prems(3) d by auto
qed simp

lemma watch_poll_backed:
  assumes "follows c w"
  shows "list_all (backed now (filter keep records)) (snd (watch_poll keep clock now records w))"
proof -
  have "led c (w \<lparr> wa_generation := wa_generation w + 1 \<rparr>, [])" using assms by (simp add: led_def follows_def)
  then show ?thesis
    unfolding watch_poll_def Let_def by (intro see_all_backed drop_all_backed) auto
qed

lemma watch_polls_backed:
  assumes "follows c w" "\<forall>(now, records) \<in> set polls. distinct (map sr_id records)"
  shows "list_all (\<lambda>e. \<exists>(now, records) \<in> set polls. backed now (filter keep records) e) (snd (watch_polls keep clock polls w))"
  using assms
proof (induction polls arbitrary: c w)
  case (Cons p polls)
  obtain now records where p: "p = (now, records)" by (cases p)
  obtain w1 es where w1: "watch_poll keep clock now records w = (w1, es)" by fastforce
  have "distinct (map sr_id records)" using Cons.prems(2) p by simp
  from watch_poll_led [OF Cons.prems(1) this, of keep clock now] w1 obtain c1 where c1: "follows c1 w1"
    by (auto simp: led_def)
  have "list_all (backed now (filter keep records)) es"
    using watch_poll_backed [OF Cons.prems(1), of now keep records clock] w1 by simp
  moreover have "\<forall>(now, records) \<in> set polls. distinct (map sr_id records)" using Cons.prems(2) by simp
  note Cons.IH [OF c1 this]
  ultimately show ?case using w1 p by (auto simp: list_all_iff split: prod.splits)
qed simp

text \<open>An exit the consumer has seen was in its first listing or was announced.\<close>

lemma exit_seen:
  "replay c es = Some c' \<Longrightarrow> cv_view c' i = Some s \<Longrightarrow> sn_exited s \<Longrightarrow>
     (\<exists>s0. cv_view c i = Some s0 \<and> sn_exited s0) \<or> (\<exists>e \<in> set es. \<exists>x. ev_raw e = RawExited i x)"
proof (induction es arbitrary: c)
  case (Cons e es)
  then obtain c1 where c1: "consume c e = Some c1" "replay c1 es = Some c'" by (auto simp: bind_eq_Some_conv)
  have "(\<exists>s0. cv_view c i = Some s0 \<and> sn_exited s0) \<or> (\<exists>x. ev_raw e = RawExited i x)"
    if "cv_view c1 i = Some s1" "sn_exited s1" for s1
    using c1(1) that
    by (auto simp: consume_def follow_def split: if_splits raw_event.splits option.splits)
  with Cons.IH [OF c1(2) Cons.prems(2,3)] show ?case by auto
qed simp

section \<open>Properties\<close>

text \<open>
  C37: The event stream refines the registry. A consumer that takes a listing when the watch starts and
  then applies the events never meets a gap in the numbers, a second creation or exit of a session, an
  event about a session it does not know or a change that changes nothing; and after the events of every
  poll it knows exactly the watched sessions then listed, has the current state of each whose state it
  was ever told, and has seen the exit of every session that has ended. No event is without its cause:
  one of the polls listed what it tells, so an exit or an out-of-memory kill is announced only of a
  session listed as ended, with the exit recorded there, and the consumer has seen the exit only of
  sessions that were listed as ended at the start or at a poll.
\<close>

theorem watch_stream_follows_registry:
  assumes "distinct (map sr_id records0)" and "\<forall>(now, records) \<in> set polls. distinct (map sr_id records)"
    and "watch_run clock all workspace now0 records0 polls = (w, events)"
    and "last ((now0, records0) # polls) = (now, records)" and "keep = matches_filter all workspace"
  shows "\<exists>c. replay (baseline keep now0 records0) events = Some c \<and>
    (\<forall>i. cv_view c i \<noteq> None \<longleftrightarrow> i \<in> sr_id ` set (filter keep records)) \<and>
    (\<forall>r \<in> set (filter keep records). \<exists>s. cv_view c (sr_id r) = Some s \<and>
       sn_state s \<in> {None, Some (derive_agent_state r now)} \<and> (ended r \<longrightarrow> sn_exited s) \<and>
       (sn_exited s \<longrightarrow> (\<exists>(t, rs) \<in> set ((now0, records0) # polls). \<exists>q \<in> set (filter keep rs). sr_id q = sr_id r \<and> ended q))) \<and>
    list_all (\<lambda>e. \<exists>(t, rs) \<in> set polls. backed t (filter keep rs) e) events"
proof -
  have caused: "list_all (\<lambda>e. \<exists>(t, rs) \<in> set polls. backed t (filter keep rs) e) events"
    using watch_polls_backed [OF watch_start_baseline(1) [OF assms(1), of keep now0] assms(2), of keep clock] assms(3,5)
    by (simp add: watch_run_def)
  have "led (baseline keep now0 records0) (w, events) \<and> at_listing now (filter keep records) w"
    using watch_polls_led [OF watch_start_baseline(1) [OF assms(1), of keep now0] assms(2) watch_start_baseline(2) [OF assms(1)], of clock]
      assms(3-5) by (simp add: watch_run_def)
  then obtain c where c: "replay (baseline keep now0 records0) events = Some c" "follows c w" "at_listing now (filter keep records) w"
    by (auto simp: led_def)
  have told: "\<exists>s. cv_view c (sr_id r) = Some s \<and> sn_state s \<in> {None, Some (derive_agent_state r now)} \<and> (ended r \<longrightarrow> sn_exited s)"
    if "r \<in> set (filter keep records)" for r
  proof -
    obtain ks where ks: "bt_get (sr_id r) (wa_known w) = Some ks" "up_to_date now r ks"
      using c(3) \<open>r \<in> _\<close> unfolding at_listing_def by blast
    then show ?thesis using follows_lookup(2) [OF c(2) ks(1)] by (auto simp: agrees_def up_to_date_def)
  qed
  have "cv_view c i = None" if "i \<notin> sr_id ` set (filter keep records)" for i
    using c(3) follows_lookup(1) [OF c(2), of i] that unfolding at_listing_def by blast
  then have exact: "cv_view c i \<noteq> None \<longleftrightarrow> i \<in> sr_id ` set (filter keep records)" for i
    using told by (cases "i \<in> sr_id ` set (filter keep records)") auto
  have was_ended: "\<exists>(t, rs) \<in> set ((now0, records0) # polls). \<exists>q \<in> set (filter keep rs). sr_id q = i \<and> ended q"
    if seen: "cv_view c i = Some s" "sn_exited s" for i s
    using exit_seen [OF c(1) seen]
  proof (elim disjE exE bexE conjE)
    fix s0 assume "cv_view (baseline keep now0 records0) i = Some s0" "sn_exited s0"
    then obtain q where "find (\<lambda>r. sr_id r = i) (filter keep records0) = Some q" "ended q" by (auto simp: baseline_def)
    then have "q \<in> set (filter keep records0)" "sr_id q = i" "ended q"
      by (fastforce simp: find_Some_iff simp del: set_filter intro: nth_mem)+
    then show ?thesis by auto
  next
    fix e x assume "e \<in> set events" "ev_raw e = RawExited i x"
    moreover from this caused obtain t rs where "(t, rs) \<in> set polls" "backed t (filter keep rs) e"
      by (auto simp: list_all_iff)
    ultimately show ?thesis by (auto simp: backed_def)
  qed
  have "\<exists>s. cv_view c (sr_id r) = Some s \<and> sn_state s \<in> {None, Some (derive_agent_state r now)} \<and> (ended r \<longrightarrow> sn_exited s) \<and>
      (sn_exited s \<longrightarrow> (\<exists>(t, rs) \<in> set ((now0, records0) # polls). \<exists>q \<in> set (filter keep rs). sr_id q = sr_id r \<and> ended q))"
    if r: "r \<in> set (filter keep records)" for r
  proof -
    from told [OF r] obtain s where s: "cv_view c (sr_id r) = Some s" "sn_state s \<in> {None, Some (derive_agent_state r now)}"
        "ended r \<longrightarrow> sn_exited s" by blast
    show ?thesis by (rule exI [of _ s], intro conjI impI, fact s(1), fact s(2), erule mp [OF s(3)], erule was_ended [OF s(1)])
  qed
  with c(1) exact caused show ?thesis by (intro exI [of _ c]) simp
qed

section \<open>A sample stream\<close>

text \<open>A session is created while the watch runs, exits, and is deleted.\<close>

definition codex_record :: session_record where
  "codex_record = sample_record \<lparr> sr_engine := ''codex'', sr_phase := Starting \<rparr>"

definition failed_record :: session_record where
  "failed_record = codex_record \<lparr> sr_phase := Failed, sr_exit := None \<rparr>"

theorem watch_stream_follows_registry_witness:
  "\<exists>events c s. watch_run (\<lambda>_. 0) False None 0 [] [(1, [codex_record]), (2, [failed_record])] =
       (fst (watch_run (\<lambda>_. 0) False None 0 [] [(1, [codex_record]), (2, [failed_record])]), events) \<and>
     replay (baseline (matches_filter False None) 0 []) events = Some c \<and>
     cv_view c (sr_id failed_record) = Some s \<and> sn_exited s"
proof -
  obtain w events where run: "watch_run (\<lambda>_. 0) False None 0 [] [(1, [codex_record]), (2, [failed_record])] = (w, events)" by fastforce
  have "failed_record \<in> set (filter (matches_filter False None) [failed_record])" "ended failed_record"
    by (simp_all add: failed_record_def codex_record_def matches_filter_def ended_def)
  then show ?thesis
    using watch_stream_follows_registry [OF _ _ run _ refl, of 2 "[failed_record]"] run by auto
qed

section \<open>Timestamps of events\<close>

lemma event_civil_eq: "event_civil_from_days z = civil_from_days z"
proof -
  obtain era n mp d where c: "z + 719468 = era * 146097 + (year_start n + ((153 * mp + 2) div 5 + d - 1))"
    "0 \<le> n" "n \<le> 399" "0 \<le> mp" "mp \<le> 11" "1 \<le> d" "(153 * mp + 2) div 5 + d \<le> (153 * (mp + 1) + 2) div 5"
    "(153 * mp + 2) div 5 + d - 1 < year_len n" using day_cases .
  define k where "k = (153 * mp + 2) div 5 + d - 1"
  have k: "0 \<le> k" "k < year_len n" using c(4,6,8) by (simp_all add: k_def)
  note b = doe_bounds [OF c(2,3) k]
  have era: "(z + 719468) div 146097 = era" unfolding c(1) k_def [symmetric] using b by simp
  have doe: "z + 719468 - era * 146097 = year_start n + k" using c(1) by (simp add: k_def)
  have yoe: "((year_start n + k) - (year_start n + k) div 1460 + (year_start n + k) div 36524 - (year_start n + k) div 146096) div 365 = n"
    using year_of_doe_start [OF c(2,3) k] by (simp add: year_of_doe_def)
  have doy: "year_start n + k - (365 * n + n div 4 - n div 100) = k" by (simp add: year_start_def)
  have mpe: "(5 * k + 2) div 153 = mp" using month_of_doy [OF c(6,7)] by (simp add: k_def)
  show ?thesis unfolding civil_eq [OF c] event_civil_from_days_def Let_def era doe yoe doy mpe using c(4,5) by (auto simp: k_def)
qed

lemma parse_iso8601_utc:
  assumes "ms \<le> U64_MAX"
  shows "parse_offset_timestamp (iso8601_utc ms) = Inr (ms div 1000)"
proof -
  let ?t = "ms div 1000" and ?z = "Offset True 0 0"
  obtain y m d where s: "civil_from_days (int (?t div 86400)) = (int y, int m, int d)"
    "stamp_ok y m d (?t mod 86400 div 3600) (?t mod 86400 mod 3600 div 60) (?t mod 86400 mod 60) (CHR ''.'' # pad 3 (ms mod 1000)) Zulu"
    by (rule rfc3339_utc_stamp [OF assms])
  have ok: "stamp_ok y m d (?t mod 86400 div 3600) (?t mod 86400 mod 3600 div 60) (?t mod 86400 mod 60) [] ?z"
    using s(2) by (simp add: stamp_ok_def fraction_text_def)
  have zero: "pad 2 0 = ''00''" by code_simp
  have printed: "iso8601_utc ms = stamp_text y m d (?t mod 86400 div 3600) (?t mod 86400 mod 3600 div 60) (?t mod 86400 mod 60) [] ?z"
    unfolding iso8601_utc_def Let_def event_civil_eq s(1) by (simp add: stamp_text_def pad_int_def zero)
  have "?t \<le> 86400 * 1000000000000" using div_le_mono [OF assms, of 1000] unfolding size_consts by simp
  from instant_utc [OF s(1) this]
  have "instant y m d (?t mod 86400 div 3600) (?t mod 86400 mod 3600 div 60) (?t mod 86400 mod 60) ?z = int ?t"
    by (simp add: instant_def)
  then show ?thesis unfolding printed parse_stamp [OF ok] by simp
qed

section \<open>The words of the terminal interface\<close>

text \<open>
  Every state shown is one of eight words. \<open>waiting\<close> is shown only while a report of the agent that is at
  most eight seconds old says so, never because the terminal went quiet, and \<open>broken\<close> only for a session
  that claims to live while its worker does not.
\<close>

theorem ui_state_words:
  assumes "session_ui_state M r now = (state, source)"
  shows "state \<in> {''starting'', ''running'', ''idle'', ''waiting'', ''exiting'', ''exited'', ''failed'', ''broken''}"
    and "state = ''waiting'' \<Longrightarrow> source = ''reported'' \<and> sr_reported_state r = Some ''waiting'' \<and>
      (\<exists>at. sr_reported_state_at_ms r = Some at \<and> now - at \<le> REPORTED_STATE_STALE_MS)"
    and "state = ''broken'' \<Longrightarrow> sr_phase r \<in> {Starting, Running, Exiting} \<and> \<not> worker_alive M r"
proof -
  have fresh: "fresh_reported_state r now = Some st \<Longrightarrow> st \<in> {''idle'', ''waiting'', ''running''} \<and>
      (st = ''waiting'' \<longrightarrow> sr_reported_state r = Some ''waiting'' \<and>
        (\<exists>at. sr_reported_state_at_ms r = Some at \<and> now - at \<le> REPORTED_STATE_STALE_MS))" for st
    by (auto simp: fresh_reported_state_def reported_state_rejection_def Let_def split: option.splits if_splits)
  have running: "derive_agent_state_with_source r now = (st, src) \<Longrightarrow> sr_phase r = Running \<Longrightarrow>
      (src = ''reported'' \<and> fresh_reported_state r now = Some st) \<or> (src = ''heuristic'' \<and> st \<in> {''running'', ''waiting''})" for st src
    by (auto simp: derive_agent_state_with_source_def split: option.splits if_splits)
  obtain st src where d: "derive_agent_state_with_source r now = (st, src)" by fastforce
  note cases = assms [unfolded session_ui_state_def d] fresh [of st] running [OF d]
  show "state \<in> {''starting'', ''running'', ''idle'', ''waiting'', ''exiting'', ''exited'', ''failed'', ''broken''}"
    using cases by (cases "sr_phase r") (auto split: if_splits)
  show "state = ''waiting'' \<Longrightarrow> source = ''reported'' \<and> sr_reported_state r = Some ''waiting'' \<and>
      (\<exists>at. sr_reported_state_at_ms r = Some at \<and> now - at \<le> REPORTED_STATE_STALE_MS)"
    using cases by (cases "sr_phase r") (auto split: if_splits)
  show "state = ''broken'' \<Longrightarrow> sr_phase r \<in> {Starting, Running, Exiting} \<and> \<not> worker_alive M r"
    using cases by (cases "sr_phase r") (auto simp: observed_state_def split: if_splits)
qed

end
