(* ===== verification/Retired.thy ===== *)
theory Retired
  imports Output_Hub Session_Record Rust_Std
begin

text \<open>
  \<open>src/retired.rs\<close>: the tombstones left under \<open>retired-sessions\<close> when the record of a session is
  removed. The directory is a list of entries in the order \<open>read_dir\<close> returns them; an entry may hold a
  superseded session's archive, a tombstone that parses, or both. Whether the directory can be made
  and whether the write succeeds are arguments.
\<close>

datatype tombstone_cause = CauseFinished | CauseForgotten | CausePruned | CauseStartupTimeout | CauseStartupFailure

record finished_tombstone =
  ft_id :: uuid
  ft_workspace :: string
  ft_tag :: string
  ft_finished_at_ms :: nat
  ft_cause :: tombstone_cause
  ft_exit :: "exit_info option"
  ft_deadline_ms :: "nat option"
  ft_deadline_exceeded :: "bool option"
  ft_error :: "string option"
  ft_created_at_ms :: "nat option"
  ft_containment_empty :: "bool option"
  ft_output :: "retired_output option"

record retired_dir =
  rd_archive :: bool
  rd_tombstone :: "finished_tombstone option"

type_synonym retired_dirs = "(uuid \<times> retired_dir) list"

definition TOMBSTONE_TTL_MS :: nat where "TOMBSTONE_TTL_MS = 30 * 24 * 3600 * 1000"

definition retired_at :: "uuid \<Rightarrow> retired_dirs \<Rightarrow> retired_dir" where
  "retired_at sid dirs = (case map_of dirs sid of Some d \<Rightarrow> d | None \<Rightarrow> \<lparr> rd_archive = False, rd_tombstone = None \<rparr>)"

text \<open>Replaces the entry where it is, or adds one.\<close>

fun put_retired :: "uuid \<Rightarrow> retired_dir \<Rightarrow> retired_dirs \<Rightarrow> retired_dirs" where
  "put_retired sid d [] = [(sid, d)]"
| "put_retired sid d ((i, e) # dirs) = (if i = sid then (i, d) # dirs else (i, e) # put_retired sid d dirs)"

definition read_finished_tombstone :: "uuid \<Rightarrow> retired_dirs \<Rightarrow> finished_tombstone option" where
  "read_finished_tombstone sid dirs =
     (case rd_tombstone (retired_at sid dirs) of
        Some t \<Rightarrow> if ft_id t = sid then Some t else None
      | None \<Rightarrow> None)"

definition has_receipt :: "finished_tombstone \<Rightarrow> bool" where
  "has_receipt t \<longleftrightarrow> ft_output t \<noteq> None \<or> ft_deadline_ms t \<noteq> None"

definition plain_tombstone ::
    "nat \<Rightarrow> uuid \<Rightarrow> string \<Rightarrow> string \<Rightarrow> tombstone_cause \<Rightarrow> exit_info option \<Rightarrow> string option \<Rightarrow> finished_tombstone" where
  "plain_tombstone now sid workspace tag cause e err =
     \<lparr> ft_id = sid, ft_workspace = workspace, ft_tag = tag, ft_finished_at_ms = now, ft_cause = cause, ft_exit = e,
       ft_deadline_ms = None, ft_deadline_exceeded = None, ft_error = err, ft_created_at_ms = None,
       ft_containment_empty = None, ft_output = None \<rparr>"

definition write_finished_tombstone_checked ::
    "bool \<Rightarrow> nat \<Rightarrow> uuid \<Rightarrow> string \<Rightarrow> string \<Rightarrow> tombstone_cause \<Rightarrow> exit_info option \<Rightarrow> string option \<Rightarrow> retired_dirs \<Rightarrow>
     (unit + unit) \<times> retired_dirs" where
  "write_finished_tombstone_checked ok now sid workspace tag cause e err dirs =
     (let d = retired_at sid dirs in
      if rd_archive d then (Inr (), dirs)
      else if (case read_finished_tombstone sid dirs of Some t \<Rightarrow> has_receipt t | None \<Rightarrow> False) then (Inr (), dirs)
      else if ok then (Inr (), put_retired sid (d \<lparr> rd_tombstone := Some (plain_tombstone now sid workspace tag cause e err) \<rparr>) dirs)
      else (Inl (), dirs))"

definition worker_receipt :: "nat \<Rightarrow> session_record \<Rightarrow> exit_info \<Rightarrow> retired_output option \<Rightarrow> finished_tombstone" where
  "worker_receipt now r e output =
     \<lparr> ft_id = sr_id r, ft_workspace = sr_workspace r, ft_tag = sr_tag r, ft_finished_at_ms = now, ft_cause = CauseFinished,
       ft_exit = Some e, ft_deadline_ms = sr_deadline_ms r,
       ft_deadline_exceeded = (if (case sr_deadline_ms r of Some d \<Rightarrow> d \<le> exited_at_ms e | None \<Rightarrow> False) then Some True
         else sr_deadline_exceeded r),
       ft_error = None, ft_created_at_ms = Some (sr_created_at_ms r), ft_containment_empty = Some True, ft_output = output \<rparr>"

definition write_worker_receipt ::
    "bool \<Rightarrow> nat \<Rightarrow> session_record \<Rightarrow> exit_info \<Rightarrow> retired_output option \<Rightarrow> retired_dirs \<Rightarrow> (unit + unit) \<times> retired_dirs" where
  "write_worker_receipt ok now r e output dirs =
     (if ok then (Inr (), put_retired (sr_id r) ((retired_at (sr_id r) dirs) \<lparr> rd_tombstone := Some (worker_receipt now r e output) \<rparr>) dirs)
      else (Inl (), dirs))"

definition read_tombstones :: "retired_dirs \<Rightarrow> finished_tombstone list" where
  "read_tombstones dirs = List.map_filter (rd_tombstone \<circ> snd) dirs"

definition is_hexdigit :: "char \<Rightarrow> bool" where
  "is_hexdigit c \<longleftrightarrow> (let n = of_char c :: nat in 48 \<le> n \<and> n \<le> 57 \<or> 97 \<le> n \<and> n \<le> 102 \<or> 65 \<le> n \<and> n \<le> 70)"

definition looks_like_uuid_prefix :: "string \<Rightarrow> bool" where
  "looks_like_uuid_prefix sel \<longleftrightarrow>
     (let digits = filter (\<lambda>c. c \<noteq> CHR ''-'') sel in
      list_all is_hexdigit digits \<and> 8 \<le> length digits \<and> length digits \<le> 32)"

text \<open>A query names an id prefix, or a workspace and a tag.\<close>

datatype tombstone_query = ById string | ByPair "string option" string

definition canonical_or :: "(string \<Rightarrow> string option) \<Rightarrow> string \<Rightarrow> string" where
  "canonical_or canonical ws = (case canonical ws of Some c \<Rightarrow> c | None \<Rightarrow> ws)"

definition tombstone_queries ::
    "(string \<Rightarrow> string option) \<Rightarrow> string option \<Rightarrow> string option \<Rightarrow> string option \<Rightarrow> string option \<Rightarrow> tombstone_query list" where
  "tombstone_queries canonical sel workspace tag cwd_workspace =
     (case tag of
        None \<Rightarrow> []
      | Some t \<Rightarrow> [ByPair (case workspace of Some ws \<Rightarrow> Some (canonical_or canonical ws) | None \<Rightarrow> cwd_workspace) t]) @
     (case sel of
        None \<Rightarrow> []
      | Some s \<Rightarrow>
          (case rsplit_once (CHR '':'') s of
             Some (ws_text, t) \<Rightarrow> [ByPair (Some (canonical_or canonical ws_text)) t]
           | None \<Rightarrow>
               if looks_like_uuid_prefix s then [ById (to_lower s)]
               else (case cwd_workspace of Some ws \<Rightarrow> [ByPair (Some ws) s] | None \<Rightarrow> [])))"

definition query_matches ::
    "(uuid \<Rightarrow> string) \<Rightarrow> (string \<Rightarrow> string option) \<Rightarrow> uuid \<Rightarrow> string \<Rightarrow> string \<Rightarrow> tombstone_query \<Rightarrow> bool" where
  "query_matches uuid_text canonical sid workspace tag q \<longleftrightarrow>
     (case q of
        ById needle \<Rightarrow> starts_with needle (uuid_text sid)
      | ByPair ws t \<Rightarrow> tag = t \<and> (case ws of Some w \<Rightarrow> workspace = w \<or> canonical workspace = Some w | None \<Rightarrow> False))"

definition tombstone_matches :: "(uuid \<Rightarrow> string) \<Rightarrow> (string \<Rightarrow> string option) \<Rightarrow> tombstone_query list \<Rightarrow> finished_tombstone \<Rightarrow> bool" where
  "tombstone_matches uuid_text canonical queries t \<longleftrightarrow>
     list_ex (query_matches uuid_text canonical (ft_id t) (ft_workspace t) (ft_tag t)) queries"

definition lookup_finished_tombstone ::
    "(uuid \<Rightarrow> string) \<Rightarrow> (string \<Rightarrow> string option) \<Rightarrow> retired_dirs \<Rightarrow> string option \<Rightarrow> string option \<Rightarrow> string option \<Rightarrow> string option \<Rightarrow>
     finished_tombstone option" where
  "lookup_finished_tombstone uuid_text canonical dirs sel workspace tag cwd_workspace =
     (let queries = tombstone_queries canonical sel workspace tag cwd_workspace;
          found = filter (tombstone_matches uuid_text canonical queries) (read_tombstones dirs)
      in case sort_key (\<lambda>t. - int (ft_finished_at_ms t)) found of t # _ \<Rightarrow> Some t | [] \<Rightarrow> None)"

text \<open>\<open>removable\<close> is whether the directory of an entry can be removed.\<close>

definition tombstone_expired :: "nat \<Rightarrow> retired_dir \<Rightarrow> bool" where
  "tombstone_expired now d \<longleftrightarrow>
     (case rd_tombstone d of Some t \<Rightarrow> TOMBSTONE_TTL_MS \<le> now - ft_finished_at_ms t | None \<Rightarrow> False)"

definition prune_expired_tombstones :: "(uuid \<Rightarrow> bool) \<Rightarrow> nat \<Rightarrow> retired_dirs \<Rightarrow> uuid list \<times> retired_dirs" where
  "prune_expired_tombstones removable now dirs =
     (let gone = (\<lambda>(i, d). tombstone_expired now d \<and> removable i) in
      (List.map_filter (\<lambda>(i, d). if gone (i, d) then map_option ft_id (rd_tombstone d) else None) dirs,
       filter (\<lambda>x. \<not> gone x) dirs))"

section \<open>Receipts are kept\<close>

lemma map_of_put_retired: "map_of (put_retired sid d dirs) i = (if i = sid then Some d else map_of dirs i)"
  by (induction sid d dirs rule: put_retired.induct) auto

lemma retired_at_put: "retired_at i (put_retired sid d dirs) = (if i = sid then d else retired_at i dirs)"
  by (simp add: retired_at_def map_of_put_retired)

text \<open>A generic removal marker never replaces the archive of a superseded session or a worker's receipt.\<close>

lemma tombstone_keeps_evidence:
  assumes "rd_archive (retired_at i dirs) \<or> (\<exists>t. read_finished_tombstone i dirs = Some t \<and> has_receipt t)"
  shows "retired_at i (snd (write_finished_tombstone_checked ok now sid ws tag cause e err dirs)) = retired_at i dirs"
  using assms by (auto simp: write_finished_tombstone_checked_def Let_def retired_at_put split: option.splits)

lemma receipt_readable:
  assumes "write_worker_receipt ok now r e output dirs = (Inr (), dirs')"
  shows "read_finished_tombstone (sr_id r) dirs' = Some (worker_receipt now r e output)"
  using assms by (auto simp: write_worker_receipt_def read_finished_tombstone_def retired_at_put worker_receipt_def split: if_splits)

lemma prune_keeps_young:
  assumes "(i, d) \<in> set dirs" "\<not> tombstone_expired now d"
  shows "(i, d) \<in> set (snd (prune_expired_tombstones removable now dirs))"
  using assms by (simp add: prune_expired_tombstones_def)

end
