(* ===== verification/Warnings.thy ===== *)
theory Warnings
  imports Retired Registry Worker_Runtime
begin

text \<open>
  \<open>src/warnings.rs\<close>: the crash warnings that outlive a session's record, with the classification of control
  groups it reads from \<open>src/placement.rs\<close>, and \<open>cmd_ack\<close> of \<open>src/bin/aplexer/commands.rs\<close>. The warnings
  directory is a list of files in the order \<open>read_dir\<close> returns them, a file that does not parse being
  \<open>None\<close>. What the processes, the clock and the service manager say at each look is a \<open>probe\<close>. Only the
  rewriting of a finished record takes a lock; everything else is a sequence of single accesses to the
  directory, with what other processes do in between as an argument.
\<close>

section \<open>Where a worker runs\<close>

datatype cgroup_placement = InitOwned | LoginSession | UserManager | SystemSlice | Container | UnknownPlacement

definition ends_with :: "string \<Rightarrow> string \<Rightarrow> bool" where
  "ends_with tail s \<longleftrightarrow> starts_with (rev tail) (rev s)"

definition strip_prefix :: "string \<Rightarrow> string \<Rightarrow> string option" where
  "strip_prefix p s = (if starts_with p s then Some (drop (length p) s) else None)"

definition strip_suffix :: "string \<Rightarrow> string \<Rightarrow> string option" where
  "strip_suffix p s = (if ends_with p s then Some (take (length s - length p) s) else None)"

fun find_map :: "('a \<Rightarrow> 'b option) \<Rightarrow> 'a list \<Rightarrow> 'b option" where
  "find_map f [] = None"
| "find_map f (x # xs) = (case f x of Some y \<Rightarrow> Some y | None \<Rightarrow> find_map f xs)"

definition user_manager_uid_from_cgroup :: "string \<Rightarrow> nat option" where
  "user_manager_uid_from_cgroup cgroup =
     find_map (\<lambda>c. Option.bind (strip_prefix ''user-'' c) (\<lambda>c. Option.bind (strip_suffix ''.slice'' c) parse_u32))
       (split_on (CHR ''/'') cgroup)"

definition classify_cgroup_path :: "string \<Rightarrow> cgroup_placement" where
  "classify_cgroup_path path =
     (let path = trim_utf8 path; components = split_on (CHR ''/'') path in
      if path = ''/'' then InitOwned
      else if path = ''/init.scope'' then InitOwned
      else if length (filter (\<lambda>c. c \<noteq> []) components) = 1 \<and> (ends_with ''.scope'' path \<or> ends_with ''.service'' path)
      then SystemSlice
      else if path = ''/user.slice'' \<or> path = ''/system.slice'' then UnknownPlacement
      else if starts_with ''/system.slice/'' path then SystemSlice
      else if list_ex (\<lambda>container. starts_with container path)
        [''/docker/'', ''/lxc/'', ''/machine.slice/'', ''/kubepods'', ''/crio-containers'', ''/systemd-container/'']
      then Container
      else if starts_with ''/user.slice/'' path then
        (if list_ex (\<lambda>c. starts_with ''user@'' c \<and> ends_with ''.service'' c) components then UserManager
         else if list_ex (\<lambda>c. starts_with ''session-'' c \<and> ends_with ''.scope'' c) components then LoginSession
         else UnknownPlacement)
      else UnknownPlacement)"

section \<open>What counts as a crash\<close>

datatype warning_kind = WarnOom | WarnCrash

definition WARNINGS_SCHEMA_VERSION :: nat where "WARNINGS_SCHEMA_VERSION = 1"

record session_warning =
  sw_schema_version :: nat
  sw_session :: uuid
  sw_workspace :: string
  sw_tag :: string
  sw_engine :: string
  sw_kind :: warning_kind
  sw_detail :: string
  sw_created_at_ms :: nat

record probe =
  pr_machine :: machine
  pr_now :: nat
  pr_boot :: "nat \<Rightarrow> nat option"

definition manager_boot_for :: "probe \<Rightarrow> session_record \<Rightarrow> nat option" where
  "manager_boot_for pr r = Option.bind (Option.bind (sr_worker_cgroup r) user_manager_uid_from_cgroup) (pr_boot pr)"

definition format_duration_gap :: "nat \<Rightarrow> string" where
  "format_duration_gap ms =
     (let secs = ms div 1000; mins = secs div 60; hours = mins div 60 in
      if secs < 60 then dec_text secs @ ''s''
      else if mins < 60 then dec_text mins @ ''m''
      else if hours < 48 then dec_text hours @ ''h''
      else dec_text (hours div 24) @ ''d'')"

definition MANAGER_BOOT_SKEW_MS :: nat where "MANAGER_BOOT_SKEW_MS = 5000"

definition attribute_manager_teardown :: "session_record \<Rightarrow> string \<Rightarrow> nat option \<Rightarrow> string" where
  "attribute_manager_teardown r base manager_started_ms =
     (case manager_started_ms of
        None \<Rightarrow> base
      | Some boot_ms \<Rightarrow>
          if boot_ms = 0 then base
          else if map_option classify_cgroup_path (sr_worker_cgroup r) \<noteq> Some UserManager then base
          else if boot_ms \<le> sat_add U64_MAX (sr_created_at_ms r) MANAGER_BOOT_SKEW_MS then base
          else (case Option.bind (sr_worker_cgroup r) user_manager_uid_from_cgroup of
              None \<Rightarrow> base
            | Some uid \<Rightarrow> base @ ''; the per-user systemd manager user@'' @ dec_text uid @ ''.service started ~'' @
                format_duration_gap (boot_ms - sr_created_at_ms r) @
                '' after this session started, tearing down every session beneath it together''))"

definition is_finished_exiting_corpse :: "machine \<Rightarrow> session_record \<Rightarrow> bool" where
  "is_finished_exiting_corpse M r \<longleftrightarrow>
     sr_phase r = Exiting \<and> sr_exit r = None \<and> \<not> worker_alive M r \<and> \<not> workload_leader_alive M r"

text \<open>\<open>{:?}\<close> of an \<open>Option<i32>\<close>.\<close>

definition debug_option :: "int option \<Rightarrow> string" where
  "debug_option x = (case x of None \<Rightarrow> ''None'' | Some n \<Rightarrow> ''Some('' @ pad_int 0 n @ '')'')"

definition warning_for_record_at :: "machine \<Rightarrow> session_record \<Rightarrow> nat \<Rightarrow> nat option \<Rightarrow> (warning_kind \<times> string) option" where
  "warning_for_record_at M r now manager_started_ms =
     (if (case sr_exit r of Some e \<Rightarrow> oom_killed e | None \<Rightarrow> False) then
        Some (WarnOom, ''workload was killed by the kernel OOM killer (code '' @ debug_option (ei_code (the (sr_exit r))) @
          '', signal '' @ debug_option (ei_signal (the (sr_exit r))) @ '')'')
      else if is_finished_exiting_corpse M r then None
      else if observed_state_at M r now = ''broken'' then
        (let base = (case sr_error r of
            Some e \<Rightarrow> ''worker died unexpectedly while '' @ phase_name (sr_phase r) @ '' (no exit recorded): '' @ e
          | None \<Rightarrow> ''worker died unexpectedly while '' @ phase_name (sr_phase r) @
              '' (no exit recorded; termination signal and kill source are unknown)'')
         in Some (WarnCrash, attribute_manager_teardown r base manager_started_ms))
      else if sr_phase r = Failed then
        Some (WarnCrash, case sr_error r of Some e \<Rightarrow> ''worker failed: '' @ e | None \<Rightarrow> ''worker failed'')
      else None)"

definition warning_for_record :: "probe \<Rightarrow> session_record \<Rightarrow> (warning_kind \<times> string) option" where
  "warning_for_record pr r = warning_for_record_at (pr_machine pr) r (pr_now pr) (manager_boot_for pr r)"

definition diagnostic_error_for_record :: "probe \<Rightarrow> session_record \<Rightarrow> string option" where
  "diagnostic_error_for_record pr r =
     (case warning_for_record pr r of
        Some (_, detail) \<Rightarrow> Some detail
      | None \<Rightarrow>
          if (case sr_exit r of Some e \<Rightarrow> ei_code e = None \<and> ei_signal e = None \<and> \<not> oom_killed e | None \<Rightarrow> False) then
            Some ''worker exit was observed, but no exit code or termination signal was recorded; the kill source is unknown''
          else if is_finished_exiting_corpse (pr_machine pr) r then
            Some ''worker and workload disappeared after a stop/kill request; no worker exit record or signal was captured''
          else sr_error r)"

section \<open>The warnings\<close>

record warning_dir =
  wd_files :: "(uuid \<times> session_warning option) list"
  wd_acked :: "uuid list"

definition load_warnings :: "warning_dir \<Rightarrow> session_warning list" where
  "load_warnings d = sort_key (\<lambda>w. - int (sw_created_at_ms w)) (List.map_filter snd (wd_files d))"

definition load_warning_for :: "uuid \<Rightarrow> warning_dir \<Rightarrow> session_warning option" where
  "load_warning_for sid d = (case map_of (wd_files d) sid of Some w \<Rightarrow> w | None \<Rightarrow> None)"

text \<open>
  The write every recording ends with takes no lock. It is three accesses to the directory, and
  other processes run between them: is there a warning of the session, is there an
  acknowledgement, and the write, which replaces whatever is there by then.
\<close>

datatype recorder =
    LookFile session_warning | LookAcked session_warning | Publish session_warning | Done "unit + bool"

text \<open>A rename over the file: it is replaced where it is, or added.\<close>

fun put_file :: "uuid \<Rightarrow> 'v \<Rightarrow> (uuid \<times> 'v) list \<Rightarrow> (uuid \<times> 'v) list" where
  "put_file sid v [] = [(sid, v)]"
| "put_file sid v ((i, x) # xs) = (if i = sid then (i, v) # xs else (i, x) # put_file sid v xs)"

definition put_warning :: "session_warning \<Rightarrow> warning_dir \<Rightarrow> warning_dir" where
  "put_warning w d = d\<lparr>wd_files := put_file (sw_session w) (Some w) (wd_files d)\<rparr>"

definition recorder_step :: "persist_outcome \<Rightarrow> recorder \<Rightarrow> warning_dir \<Rightarrow> recorder \<times> warning_dir" where
  "recorder_step po c d =
     (case c of
        LookFile w \<Rightarrow> (if map_of (wd_files d) (sw_session w) \<noteq> None then Done (Inr False) else LookAcked w, d)
      | LookAcked w \<Rightarrow> (if sw_session w \<in> set (wd_acked d) then Done (Inr False) else Publish w, d)
      | Publish w \<Rightarrow>
          (case po of
             PersistOk \<Rightarrow> (Done (Inr True), put_warning w d)
           | PersistFailedBefore \<Rightarrow> (Done (Inl ()), d)
           | PersistFailedAfter \<Rightarrow> (Done (Inl ()), put_warning w d))
      | Done r \<Rightarrow> (Done r, d))"

text \<open>\<open>gap c\<close> is what the others do between the access that leaves the recorder at \<open>c\<close> and the next one.\<close>

definition write_warning ::
    "(recorder \<Rightarrow> warning_dir \<Rightarrow> warning_dir) \<Rightarrow> persist_outcome \<Rightarrow> session_warning \<Rightarrow> warning_dir \<Rightarrow>
     (unit + bool) \<times> warning_dir" where
  "write_warning gap po w d =
     (let (c1, d1) = recorder_step po (LookFile w) d;
          (c2, d2) = recorder_step po c1 (gap c1 d1);
          (c3, d3) = recorder_step po c2 (gap c2 d2)
      in (case c3 of Done r \<Rightarrow> r | _ \<Rightarrow> Inr False, d3))"

section \<open>The registry's side\<close>

definition read_record :: "uuid \<Rightarrow> registry \<Rightarrow> session_record option" where
  "read_record sid reg = (case dir_of sid (rg_entries reg) of Some (Record r) \<Rightarrow> if sr_schema_version r = SCHEMA_VERSION then Some r else None | _ \<Rightarrow> None)"

text \<open>
  The answers one record of the sweep meets: the lock, the processes at each look, the clock, the
  writes; and what other processes do meanwhile to the registry (until the lock, until the record
  is read back, until the warning's own re-read) and to the warnings directory.
\<close>

record sweep_answer =
  sa_before :: machine
  sa_until_lock :: "registry \<Rightarrow> registry"
  sa_lock :: bool
  sa_after :: machine
  sa_exited :: nat
  sa_updated :: nat
  sa_write :: persist_outcome
  sa_until_reread :: "registry \<Rightarrow> registry"
  sa_until_confirm :: "registry \<Rightarrow> registry"
  sa_probe :: probe
  sa_again :: probe
  sa_now :: nat
  sa_until_check :: "warning_dir \<Rightarrow> warning_dir"
  sa_gap :: "recorder \<Rightarrow> warning_dir \<Rightarrow> warning_dir"
  sa_warn :: persist_outcome

definition finished_corpse :: "sweep_answer \<Rightarrow> session_record \<Rightarrow> session_record" where
  "finished_corpse a r =
     r\<lparr>sr_phase := Exited, sr_containment_empty := (if sr_containment_empty r \<noteq> Some True then Some False else sr_containment_empty r),
       sr_exit := Some \<lparr>ei_code = None, ei_signal = None, oom_killed = False, exited_at_ms = sa_exited a\<rparr>,
       sr_updated_at_ms := sa_updated a\<rparr>"

definition finalize_exiting_corpse :: "sweep_answer \<Rightarrow> session_record \<Rightarrow> registry \<Rightarrow> (unit + bool) \<times> registry" where
  "finalize_exiting_corpse a r reg =
     (if \<not> is_finished_exiting_corpse (sa_before a) r then (Inr False, reg)
      else if \<not> sa_lock a then (Inl (), reg)
      else case read_record (sr_id r) reg of
        None \<Rightarrow> (Inr False, reg)
      | Some current \<Rightarrow>
          if sr_created_at_ms current \<noteq> sr_created_at_ms r \<or> \<not> is_finished_exiting_corpse (sa_after a) current then (Inr False, reg)
          else (if sa_write a = PersistOk then Inr True else Inl (),
            if sa_write a = PersistFailedBefore then reg
            else reg\<lparr>rg_entries := put_dir (sr_id r) (Record (finished_corpse a current)) (rg_entries reg)\<rparr>))"

section \<open>Recording\<close>

definition record_warning ::
    "reg_paths \<Rightarrow> registry \<Rightarrow> probe \<Rightarrow> probe \<Rightarrow> nat \<Rightarrow> (recorder \<Rightarrow> warning_dir \<Rightarrow> warning_dir) \<Rightarrow> persist_outcome \<Rightarrow>
     session_record \<Rightarrow> warning_dir \<Rightarrow> (unit + bool) \<times> warning_dir" where
  "record_warning P reg pr again now gap po r d =
     (case warning_for_record pr r of
        None \<Rightarrow> (Inr False, d)
      | Some (kind, detail) \<Rightarrow>
          (case (if kind = WarnCrash \<and> worker_phase_active r then
                   (case read_session_record P (sr_id r) reg of Inl _ \<Rightarrow> None | Inr current \<Rightarrow> warning_for_record again current)
                 else Some (kind, detail)) of
             None \<Rightarrow> (Inr False, d)
           | Some (kind, detail) \<Rightarrow>
               write_warning gap po \<lparr>sw_schema_version = WARNINGS_SCHEMA_VERSION, sw_session = sr_id r, sw_workspace = sr_workspace r, sw_tag = sr_tag r, sw_engine = sr_engine r,
                 sw_kind = kind, sw_detail = detail, sw_created_at_ms = now\<rparr> d))"

definition record_startup_warning ::
    "uuid \<Rightarrow> string \<Rightarrow> string \<Rightarrow> string \<Rightarrow> string \<Rightarrow> nat \<Rightarrow> (recorder \<Rightarrow> warning_dir \<Rightarrow> warning_dir) \<Rightarrow> persist_outcome \<Rightarrow>
     warning_dir \<Rightarrow> (unit + bool) \<times> warning_dir" where
  "record_startup_warning sid workspace tag engine detail now gap po d =
     write_warning gap po \<lparr>sw_schema_version = WARNINGS_SCHEMA_VERSION, sw_session = sid, sw_workspace = workspace, sw_tag = tag, sw_engine = engine, sw_kind = WarnCrash,
       sw_detail = detail, sw_created_at_ms = now\<rparr> d"

fun sweep_records ::
    "reg_paths \<Rightarrow> (nat \<Rightarrow> sweep_answer) \<Rightarrow> nat \<Rightarrow> session_record list \<Rightarrow> nat \<times> registry \<times> warning_dir \<Rightarrow> nat \<times> registry \<times> warning_dir" where
  "sweep_records P ans n [] s = s"
| "sweep_records P ans n (r # rs) (created, reg, d) =
     (let a = ans n;
          (written, reg) = finalize_exiting_corpse a r (sa_until_lock a reg);
          reg = sa_until_reread a reg;
          r = (if written = Inr True then (case read_record (sr_id r) reg of Some updated \<Rightarrow> updated | None \<Rightarrow> r) else r);
          reg = sa_until_confirm a reg;
          (new, d) = record_warning P reg (sa_probe a) (sa_again a) (sa_now a) (sa_gap a) (sa_warn a) r (sa_until_check a d)
      in sweep_records P ans (Suc n) rs (if new = Inr True then created + 1 else created, reg, d))"

definition sweep_warnings :: "reg_paths \<Rightarrow> (nat \<Rightarrow> sweep_answer) \<Rightarrow> registry \<Rightarrow> warning_dir \<Rightarrow> nat \<times> registry \<times> warning_dir" where
  "sweep_warnings P ans reg d =
     sweep_records P ans 0 (case list_records P reg of Inr rs \<Rightarrow> rs | Inl _ \<Rightarrow> []) (0, reg, d)"

section \<open>Acknowledging\<close>

text \<open>
  One acknowledgement is one rename, which moves the file or finds none. \<open>rename_ok\<close> is whether the
  file of an id can be moved, \<open>others\<close> what the other processes do before its rename.
\<close>

definition ack_rename :: "uuid \<Rightarrow> bool \<Rightarrow> warning_dir \<Rightarrow> (unit + bool) \<times> warning_dir" where
  "ack_rename sid ok d =
     (if map_of (wd_files d) sid = None then (Inr False, d)
      else if ok then
        (Inr True, d\<lparr>wd_files := filter (\<lambda>(i, _). i \<noteq> sid) (wd_files d), wd_acked := sid # wd_acked d\<rparr>)
      else (Inl (), d))"

fun acknowledge_ids ::
    "(uuid \<Rightarrow> warning_dir \<Rightarrow> warning_dir) \<Rightarrow> (uuid \<Rightarrow> bool) \<Rightarrow> uuid list \<Rightarrow> warning_dir \<Rightarrow> (unit + uuid list) \<times> warning_dir" where
  "acknowledge_ids others rename_ok [] d = (Inr [], d)"
| "acknowledge_ids others rename_ok (sid # ids) d =
     (case ack_rename sid (rename_ok sid) (others sid d) of
        (Inl e, d) \<Rightarrow> (Inl e, d)
      | (Inr moved, d) \<Rightarrow>
          (case acknowledge_ids others rename_ok ids d of
             (Inr got, d) \<Rightarrow> (Inr (if moved then sid # got else got), d)
           | (Inl e, d) \<Rightarrow> (Inl e, d)))"

definition acknowledge_warnings ::
    "(uuid \<Rightarrow> warning_dir \<Rightarrow> warning_dir) \<Rightarrow> bool \<Rightarrow> (uuid \<Rightarrow> bool) \<Rightarrow> uuid list \<Rightarrow> warning_dir \<Rightarrow>
     (unit + uuid list) \<times> warning_dir" where
  "acknowledge_warnings others dir_ok rename_ok ids d =
     (if dir_ok then acknowledge_ids others rename_ok ids d else (Inl (), d))"

text \<open>The queries are built as \<open>lookup_finished_tombstone\<close> builds them.\<close>

definition select_warnings ::
    "(uuid \<Rightarrow> string) \<Rightarrow> (string \<Rightarrow> string option) \<Rightarrow> string option \<Rightarrow> string option \<Rightarrow> string option \<Rightarrow> string option \<Rightarrow>
     warning_dir \<Rightarrow> session_warning list" where
  "select_warnings uuid_text canonical sel workspace tag cwd_workspace d =
     (let queries = tombstone_queries canonical sel workspace tag cwd_workspace in
      if queries = [] then load_warnings d
      else filter (\<lambda>w. list_ex (query_matches uuid_text canonical (sw_session w) (sw_workspace w) (sw_tag w)) queries) (load_warnings d))"

datatype ack_error = NoMatchingWarning | AckFailed

definition cmd_ack ::
    "(uuid \<Rightarrow> string) \<Rightarrow> (string \<Rightarrow> string option) \<Rightarrow> (uuid \<Rightarrow> warning_dir \<Rightarrow> warning_dir) \<Rightarrow> bool \<Rightarrow> (uuid \<Rightarrow> bool) \<Rightarrow>
     string option \<Rightarrow> string option \<Rightarrow> string option \<Rightarrow> string option \<Rightarrow> warning_dir \<Rightarrow> (ack_error + session_warning list) \<times> warning_dir" where
  "cmd_ack uuid_text canonical others dir_ok rename_ok sel workspace tag cwd d =
     (let selected = select_warnings uuid_text canonical sel workspace tag cwd d;
          targeted = (sel \<noteq> None \<or> workspace \<noteq> None \<or> tag \<noteq> None)
      in if selected = [] then ((if targeted then Inl NoMatchingWarning else Inr []), d)
         else case acknowledge_warnings others dir_ok rename_ok (map sw_session selected) d of
           (Inl _, d) \<Rightarrow> (Inl AckFailed, d)
         | (Inr _, d) \<Rightarrow> (Inr selected, d))"

end
