(* ===== verification/Lifecycle.thy ===== *)
theory Lifecycle
  imports Worker_Runtime Retired
begin

text \<open>
  \<open>src/worker/lifecycle.rs\<close>: the thread that decides what the death of a session means. It folds the
  events of the reader and of the child's waiter into a state until the containment is seen empty, kills
  what is left when it cannot be, writes or removes the record, ends the clients, and exits. Every answer
  of the machine is in a script; a loop whose part of the script has run out is still running, which is
  the value \<open>None\<close>. The killing of a cgroup and the walk over the descendants are answers; a poisoned lock
  and what other threads do to the runtime in between are not modelled, and messages leave out the file
  names and error texts the code puts in.
\<close>

section \<open>Emptying the containment\<close>

text \<open>One pass: errors of the kill and of the reaping, whether anything is left, whether the deadline has passed.\<close>

record kill_pass =
  kp_kill :: "string option"
  kp_reap :: "string option"
  kp_populated :: "string + bool"
  kp_late :: bool

fun kill_until_empty :: "kill_pass list \<Rightarrow> (string + unit) option" where
  "kill_until_empty [] = None"
| "kill_until_empty (p # ps) =
     (case kp_kill p of
        Some e \<Rightarrow> Some (Inl e)
      | None \<Rightarrow>
          (case kp_reap p of
             Some e \<Rightarrow> Some (Inl e)
           | None \<Rightarrow>
               (case kp_populated p of
                  Inl e \<Rightarrow> Some (Inl e)
                | Inr populated \<Rightarrow>
                    if \<not> populated then Some (Inr ())
                    else if kp_late p then Some (Inl ''timed out proving containment empty'')
                    else kill_until_empty ps)))"

section \<open>Events\<close>

datatype lifecycle_event =
    LifePtyEof | LifePtyError string | LifeWaiterError string | LifeChildExit "int option" "int option"

datatype recv_answer = RecvEvent lifecycle_event | RecvTimeout | RecvDisconnected

datatype lifecycle_wake = WakeEvent lifecycle_event | CleanupPoll | RuntimeDirPoll | Disconnected

definition wait_for_lifecycle_wake :: "recv_answer \<Rightarrow> bool \<Rightarrow> lifecycle_wake" where
  "wait_for_lifecycle_wake a cleanup_polling =
     (case a of
        RecvEvent e \<Rightarrow> WakeEvent e
      | RecvTimeout \<Rightarrow> if cleanup_polling then CleanupPoll else RuntimeDirPoll
      | RecvDisconnected \<Rightarrow> if cleanup_polling then CleanupPoll else Disconnected)"

record loop_state =
  ls_pty_eof :: bool
  ls_child_exit :: "(int option \<times> int option) option"
  ls_fatal :: "string option"
  ls_containment_empty :: bool

definition loop_new :: loop_state where
  "loop_new = \<lparr> ls_pty_eof = False, ls_child_exit = None, ls_fatal = None, ls_containment_empty = False \<rparr>"

definition add_fatal :: "string \<Rightarrow> loop_state \<Rightarrow> loop_state" where
  "add_fatal message s =
     s \<lparr> ls_fatal := Some (case ls_fatal s of Some existing \<Rightarrow> existing @ ''; '' @ message | None \<Rightarrow> message) \<rparr>"

definition first_fatal :: "string \<Rightarrow> loop_state \<Rightarrow> loop_state" where
  "first_fatal message s = (if ls_fatal s = None then s \<lparr> ls_fatal := Some message \<rparr> else s)"

definition rt_fail :: "string \<Rightarrow> 'p runtime \<Rightarrow> 'p runtime" where
  "rt_fail message rt = rt \<lparr> rt_hub := fail_subscribers message (rt_hub rt) \<rparr>"

text \<open>What one turn of the loop is told: the channel, the clock and the outcome of a record write, the file system, the descendants.\<close>

record wake_answer =
  wk_recv :: recv_answer
  wk_now :: nat
  wk_persist :: persist_outcome
  wk_vanished :: bool
  wk_reap :: "string option"
  wk_populated :: "string + bool"

definition handle_life_event ::
    "nat \<Rightarrow> persist_outcome \<Rightarrow> lifecycle_event \<Rightarrow> loop_state \<Rightarrow> 'p runtime \<Rightarrow> bool \<times> loop_state \<times> 'p runtime" where
  "handle_life_event now po e s rt =
     (case e of
        LifePtyEof \<Rightarrow> (False, s \<lparr> ls_pty_eof := True \<rparr>, rt \<lparr> rt_pty := None \<rparr>)
      | LifePtyError m \<Rightarrow> (False, s \<lparr> ls_pty_eof := True, ls_fatal := Some m \<rparr>, rt_fail m (rt \<lparr> rt_pty := None \<rparr>))
      | LifeWaiterError m \<Rightarrow> (True, s \<lparr> ls_fatal := Some m \<rparr>, rt_fail m (rt \<lparr> rt_pty := None \<rparr>))
      | LifeChildExit code signal \<Rightarrow>
          (False, s \<lparr> ls_child_exit := Some (code, signal) \<rparr>, snd (update_record (\<lambda>r. r \<lparr> sr_phase := Exiting \<rparr>) now po rt)))"

definition poll_post_exit_descendants ::
    "string option \<Rightarrow> string + bool \<Rightarrow> loop_state \<Rightarrow> 'p runtime \<Rightarrow> bool \<times> loop_state \<times> 'p runtime" where
  "poll_post_exit_descendants reap populated s rt =
     (if ls_child_exit s = None then (False, s, rt)
      else
        let s = (case reap of Some e \<Rightarrow> first_fatal (''reap descendants: '' @ e) s | None \<Rightarrow> s) in
        case populated of
          Inr p \<Rightarrow> (ls_pty_eof s \<and> \<not> p, s, rt \<lparr> rt_running := p \<rparr>)
        | Inl e \<Rightarrow> (False, first_fatal (''inspect descendants: '' @ e) s, rt))"

fun observe_lifecycle :: "wake_answer list \<Rightarrow> loop_state \<Rightarrow> 'p runtime \<Rightarrow> (loop_state \<times> 'p runtime) option" where
  "observe_lifecycle [] s rt = None"
| "observe_lifecycle (a # answers) s rt =
     (let after = (\<lambda>s rt.
            let (clear, s, rt) = poll_post_exit_descendants (wk_reap a) (wk_populated a) s rt in
            if clear then Some (s \<lparr> ls_containment_empty := True \<rparr>, rt) else observe_lifecycle answers s rt)
      in case wait_for_lifecycle_wake (wk_recv a) (ls_child_exit s \<noteq> None \<and> ls_pty_eof s) of
        WakeEvent e \<Rightarrow>
          (let (stop, s, rt) = handle_life_event (wk_now a) (wk_persist a) e s rt in
           if stop then Some (s, rt) else after s rt)
      | CleanupPoll \<Rightarrow> after s rt
      | RuntimeDirPoll \<Rightarrow>
          if wk_vanished a then Some (s \<lparr> ls_fatal := Some ''session dir vanished'' \<rparr>, rt) else after s rt
      | Disconnected \<Rightarrow> Some (s \<lparr> ls_fatal := Some ''workload lifecycle channel disconnected'' \<rparr>, rt))"

section \<open>Finalization\<close>

datatype life_effect = CleanedCgroup | RemovedState | UnlinkedSocket | RemovedRuntimeDir | ExitedProcess

text \<open>
  \<open>li_cgroup\<close> is the held cgroup with its out-of-memory flag, \<open>li_state_dir\<close> whether this worker has not
  removed the session's directory, \<open>li_trace\<close> what it did to the outside, in order.
\<close>

record 'p life =
  li_rt :: "'p runtime"
  li_cgroup :: "bool option"
  li_state_dir :: bool
  li_retired :: retired_dirs
  li_warned :: "session_record list"
  li_trace :: "life_effect list"

definition did :: "life_effect \<Rightarrow> 'p life \<Rightarrow> 'p life" where
  "did e li = li \<lparr> li_trace := li_trace li @ [e] \<rparr>"

record life_script =
  sc_wakes :: "wake_answer list"
  sc_kill :: "kill_pass list"
  sc_now :: nat
  sc_codec :: hist_codec
  sc_fresh :: uuid
  sc_keep_exited :: bool
  sc_flush :: "nat \<times> nat"
  sc_final :: "(bool \<times> nat \<times> persist_outcome) list"
  sc_late :: "((string + bool) \<times> bool \<times> nat \<times> persist_outcome) list"
  sc_txt_ok :: bool
  sc_receipts :: "(bool \<times> nat \<times> bool) list"
  sc_remove_ok :: bool

definition recover_unproven_containment :: "kill_pass list \<Rightarrow> loop_state \<Rightarrow> 'p life \<Rightarrow> (loop_state \<times> 'p life) option" where
  "recover_unproven_containment passes s li =
     (case kill_until_empty passes of
        None \<Rightarrow> None
      | Some (Inr _) \<Rightarrow> Some (s \<lparr> ls_containment_empty := True \<rparr>, li \<lparr> li_rt := (li_rt li) \<lparr> rt_running := False \<rparr> \<rparr>)
      | Some (Inl e) \<Rightarrow> Some (add_fatal (''containment cleanup unproven: '' @ e) s, li))"

definition retains_output :: "session_record \<Rightarrow> bool" where
  "retains_output r \<longleftrightarrow> map_of (sr_env r) ''APLEXER_RETAIN_RETIRED_OUTPUT'' = Some ''1''"

text \<open>The receipt loop: \<open>False\<close> when the record has gone meanwhile.\<close>

fun retire_state :: "exit_info \<Rightarrow> (bool \<times> nat \<times> bool) list \<Rightarrow> 'p life \<Rightarrow> (bool \<times> 'p life) option" where
  "retire_state e [] li = None"
| "retire_state e ((vanished, now, ok) # answers) li =
     (if vanished then Some (False, li)
      else
        let r = rt_record (li_rt li) in
        if \<not> retains_output r \<and> sr_deadline_ms r = None then
          Some (True, li \<lparr> li_retired := snd (write_finished_tombstone_checked ok now (sr_id r) (sr_workspace r) (sr_tag r)
            CauseFinished (Some e) None (li_retired li)) \<rparr>)
        else
          case write_worker_receipt ok now r e
              (if retains_output r then Some (retirement_output (rt_hub (li_rt li))) else None) (li_retired li) of
            (Inr _, dirs) \<Rightarrow> Some (True, li \<lparr> li_retired := dirs \<rparr>)
          | (Inl _, dirs) \<Rightarrow> retire_state e answers li)"

definition remove_finished_state :: "life_script \<Rightarrow> exit_info \<Rightarrow> 'p life \<Rightarrow> 'p life option" where
  "remove_finished_state sc e li =
     (case retire_state e (sc_receipts sc) (li \<lparr> li_rt := rt_mark_finalized (li_rt li) \<rparr>) of
        None \<Rightarrow> None
      | Some (proceed, li) \<Rightarrow>
          Some (if proceed \<and> sc_remove_ok sc then did RemovedState (li \<lparr> li_state_dir := False \<rparr>) else li))"

definition final_update :: "loop_state \<Rightarrow> string option \<Rightarrow> exit_info \<Rightarrow> session_record \<Rightarrow> session_record" where
  "final_update s err e r =
     r \<lparr> sr_phase := (if err \<noteq> None then Failed else Exited), sr_containment_empty := Some (ls_containment_empty s),
         sr_exit := Some e,
         sr_deadline_exceeded := (if (case sr_deadline_ms r of Some d \<Rightarrow> d \<le> exited_at_ms e | None \<Rightarrow> False) then Some True
           else sr_deadline_exceeded r),
         sr_error := err \<rparr>"

fun persist_final ::
    "(session_record \<Rightarrow> session_record) \<Rightarrow> (bool \<times> nat \<times> persist_outcome) list \<Rightarrow> 'p runtime \<Rightarrow> (bool \<times> 'p runtime) option" where
  "persist_final f [] rt = None"
| "persist_final f ((vanished, now, po) # answers) rt =
     (if vanished then Some (False, rt)
      else case update_record f now po rt of
        (Inr _, rt') \<Rightarrow> Some (True, rt')
      | (Inl _, rt') \<Rightarrow> persist_final f answers rt')"

definition record_final_state ::
    "life_script \<Rightarrow> exit_info \<Rightarrow> loop_state \<Rightarrow> 'p life \<Rightarrow> (bool \<times> loop_state \<times> 'p life) option" where
  "record_final_state sc e s li =
     (let (flushed, h) = flush_history (sc_codec sc) (sc_fresh sc) True (fst (sc_flush sc)) (snd (sc_flush sc)) (rt_hub (li_rt li));
          s = (case flushed of Inl _ \<Rightarrow> add_fatal ''persist final history'' s | Inr _ \<Rightarrow> s);
          rt = (li_rt li) \<lparr> rt_hub := h \<rparr>
      in map_option (\<lambda>(written, rt). (written, s, li \<lparr> li_rt := rt \<rparr>))
           (persist_final (final_update s (ls_fatal s) e) (sc_final sc) rt))"

text \<open>The worker stays as the boundary of the session until the containment is seen empty and that is recorded.\<close>

fun late_proof :: "((string + bool) \<times> bool \<times> nat \<times> persist_outcome) list \<Rightarrow> 'p runtime \<Rightarrow> (bool \<times> 'p runtime) option" where
  "late_proof [] rt = None"
| "late_proof ((populated, vanished, now, po) # answers) rt =
     (if populated = Inr False then
        if vanished then Some (False, rt)
        else case update_record (\<lambda>r. r \<lparr> sr_containment_empty := Some True \<rparr>) now po rt of
          (Inr _, rt') \<Rightarrow> Some (True, rt')
        | (Inl _, rt') \<Rightarrow> late_proof answers rt'
      else late_proof answers rt)"

definition await_late_containment_proof :: "life_script \<Rightarrow> loop_state \<Rightarrow> 'p life \<Rightarrow> (bool \<times> 'p life) option" where
  "await_late_containment_proof sc s li =
     map_option (\<lambda>(written, rt). (written, li \<lparr> li_rt := rt \<rparr>))
       (late_proof (sc_late sc)
         (rt_fail (case ls_fatal s of Some m \<Rightarrow> m | None \<Rightarrow> ''containment cleanup was not proven'') (li_rt li)))"

definition release_cgroup :: "bool option \<Rightarrow> 'p life \<Rightarrow> 'p life" where
  "release_cgroup cg li = (if cg = None then li else did CleanedCgroup li)"

definition exit_of :: "life_script \<Rightarrow> loop_state \<Rightarrow> 'p life \<Rightarrow> exit_info" where
  "exit_of sc s li =
     (let (code, signal) = (case ls_child_exit s of Some x \<Rightarrow> x | None \<Rightarrow> (None, None)) in
      \<lparr> ei_code = code, ei_signal = signal, oom_killed = (li_cgroup li = Some True), exited_at_ms = sc_now sc \<rparr>)"

definition will_remove :: "life_script \<Rightarrow> loop_state \<Rightarrow> 'p life \<Rightarrow> bool" where
  "will_remove sc s li \<longleftrightarrow>
     ls_fatal s = None \<and> ls_containment_empty s \<and> \<not> oom_killed (exit_of sc s li) \<and> \<not> sc_keep_exited sc"

definition finalize_session :: "'p vt100 \<Rightarrow> life_script \<Rightarrow> loop_state \<Rightarrow> 'p life \<Rightarrow> 'p life option" where
  "finalize_session V sc s li =
     (let e = exit_of sc s li;
          oom = oom_killed e;
          cg = (if ls_containment_empty s then li_cgroup li else None);
          taken = (if ls_containment_empty s then li \<lparr> li_cgroup := None \<rparr> else li)
      in if will_remove sc s li then
           remove_finished_state sc e (release_cgroup cg (taken \<lparr> li_rt := (li_rt taken) \<lparr> rt_hub := finish_killed e (rt_hub (li_rt taken)) \<rparr> \<rparr>))
         else
           case record_final_state sc e s taken of
             None \<Rightarrow> None
           | Some (_, s, li) \<Rightarrow>
               (let li = (if oom \<or> ls_fatal s \<noteq> None then li \<lparr> li_warned := li_warned li @ [rt_record (li_rt li)] \<rparr> else li) in
                case (if ls_containment_empty s then Some (cg, li)
                      else map_option (\<lambda>(_, li). (li_cgroup li, li \<lparr> li_cgroup := None \<rparr>)) (await_late_containment_proof sc s li)) of
                  None \<Rightarrow> None
                | Some (cg, li) \<Rightarrow>
                    (let li = release_cgroup cg (li \<lparr> li_rt := (li_rt li) \<lparr> rt_hub :=
                           finish V (sc_codec sc) (sc_fresh sc) (sc_txt_ok sc) e (rt_hub (li_rt li)) \<rparr> \<rparr>) in
                     if ls_fatal s = None \<and> \<not> oom \<and> \<not> sc_keep_exited sc then remove_finished_state sc e li else Some li)))"

definition shutdown_worker :: "'p life \<Rightarrow> 'p life" where
  "shutdown_worker li = did ExitedProcess (did RemovedRuntimeDir (did UnlinkedSocket li))"

definition run_lifecycle :: "'p vt100 \<Rightarrow> life_script \<Rightarrow> 'p life \<Rightarrow> 'p life option" where
  "run_lifecycle V sc li =
     (case observe_lifecycle (sc_wakes sc) loop_new (li_rt li) of
        None \<Rightarrow> None
      | Some (s, rt) \<Rightarrow>
          (let li = li \<lparr> li_rt := rt \<rparr> in
           case (if \<not> ls_containment_empty s \<and> ls_fatal s \<noteq> None then recover_unproven_containment (sc_kill sc) s li else Some (s, li)) of
             None \<Rightarrow> None
           | Some (s, li) \<Rightarrow> map_option shutdown_worker (finalize_session V sc s li)))"

end
