(* ===== verification/Lifecycle_Laws.thy ===== *)
theory Lifecycle_Laws
  imports Lifecycle Report_Laws
begin

text \<open>
  What the lifecycle thread guarantees when it ends the worker: the containment was seen empty, the
  outside is undone in order, every client has an outcome, and the record is gone or final according to
  how the session ended.
\<close>

section \<open>Emptiness is observed\<close>

lemma kill_until_empty_seen: "kill_until_empty ps = Some (Inr u) \<Longrightarrow> \<exists>p \<in> set ps. kp_populated p = Inr False"
  by (induction ps) (auto split: option.splits sum.splits if_splits)

lemma late_proof_seen: "late_proof as rt = Some x \<Longrightarrow> \<exists>a \<in> set as. fst a = Inr False"
  by (induction as rt rule: late_proof.induct) (auto split: if_splits prod.splits sum.splits)

text \<open>What the loop leaves alone: whether the hub is fenced, and the fields of the record a removal reads.\<close>

definition kept_fields :: "'p runtime \<Rightarrow> bool \<times> uuid \<times> string \<times> string \<times> (string \<times> string) list \<times> nat option" where
  "kept_fields rt = (let r = rt_record rt in
     (finalized (rt_hub rt), sr_id r, sr_workspace r, sr_tag r, sr_env r, sr_deadline_ms r))"

lemma kept_fields_simps [simp]:
  "kept_fields (rt\<lparr>rt_pty := p\<rparr>) = kept_fields rt" "kept_fields (rt\<lparr>rt_running := b\<rparr>) = kept_fields rt"
  "kept_fields (rt_fail m rt) = kept_fields rt"
  by (simp_all add: kept_fields_def rt_fail_def fail_subscribers_def terminate_all_def Let_def)

lemma terminal_fields [simp]:
  "finalized (fail_subscribers m h) = finalized h" "finalized (finish_killed e h) = finalized h"
  "subscribers (finish_killed e h) = []" "hb_terminal (finish_killed e h) \<noteq> None"
  "subscribers (finish V K fresh ok e h) = []" "hb_terminal (finish V K fresh ok e h) \<noteq> None"
  by (auto simp: fail_subscribers_def finish_killed_def finish_def terminate_all_def finish_persist_fields Let_def)

lemma finalized_flush [simp]: "finalized (snd (flush_history K fresh force now later h)) = finalized h"
  by (auto simp: flush_history_def record_history_persistence_error_def Let_def case_prod_beta split: sum.splits)

lemma finalized_broadcast [simp]: "finalized (broadcast_record r h) = finalized h"
  by (auto simp: broadcast_record_def retain_subscribers_def Let_def split: prod.splits)

lemma finalized_update [simp]: "finalized (rt_hub (snd (update_record f now po rt))) = finalized (rt_hub rt)"
  by (simp add: update_record_def Let_def split: persist_outcome.split)

lemma kept_phase: "kept_fields (snd (update_record (\<lambda>r. r\<lparr>sr_phase := ph\<rparr>) now po rt)) = kept_fields rt"
  unfolding kept_fields_def Let_def finalized_update
  by (simp add: update_record_def Let_def split: persist_outcome.split)

lemma handle_life_event_keeps:
  "handle_life_event now po e s rt = (stop, s', rt') \<Longrightarrow>
     kept_fields rt' = kept_fields rt \<and> ls_containment_empty s' = ls_containment_empty s \<and> (stop \<longrightarrow> ls_fatal s' \<noteq> None) \<and>
     (ls_child_exit s' = ls_child_exit s \<or> (\<exists>c g. e = LifeChildExit c g \<and> ls_child_exit s' = Some (c, g)))"
  by (auto simp: handle_life_event_def kept_phase split: lifecycle_event.splits)

lemma poll_keeps:
  "poll_post_exit_descendants reap populated s rt = (clear, s', rt') \<Longrightarrow>
     kept_fields rt' = kept_fields rt \<and> ls_containment_empty s' = ls_containment_empty s \<and> ls_child_exit s' = ls_child_exit s \<and>
     (clear \<longrightarrow> populated = Inr False \<and> ls_child_exit s \<noteq> None)"
  by (auto simp: poll_post_exit_descendants_def first_fatal_def Let_def split: if_splits sum.splits option.splits)

text \<open>The exit status is one the child's waiter reported.\<close>

definition exit_reported :: "wake_answer list \<Rightarrow> (int option \<times> int option) option \<Rightarrow> bool" where
  "exit_reported as x \<longleftrightarrow> (\<exists>a \<in> set as. \<exists>c g. wk_recv a = RecvEvent (LifeChildExit c g) \<and> x = Some (c, g))"

lemma exit_reported_Cons [simp]:
  "exit_reported (a # as) x \<longleftrightarrow> (\<exists>c g. wk_recv a = RecvEvent (LifeChildExit c g) \<and> x = Some (c, g)) \<or> exit_reported as x"
  by (simp add: exit_reported_def)

definition ended_as :: "wake_answer list \<Rightarrow> loop_state \<Rightarrow> 'p runtime \<Rightarrow> loop_state \<Rightarrow> 'p runtime \<Rightarrow> bool" where
  "ended_as as s rt s' rt' \<longleftrightarrow> kept_fields rt' = kept_fields rt \<and>
     (ls_child_exit s' = ls_child_exit s \<or> exit_reported as (ls_child_exit s')) \<and>
     (if ls_containment_empty s' then ls_child_exit s' \<noteq> None \<and> (\<exists>a \<in> set as. wk_populated a = Inr False) else ls_fatal s' \<noteq> None)"

lemma observe_ends:
  "observe_lifecycle as s rt = Some (s', rt') \<Longrightarrow> \<not> ls_containment_empty s \<Longrightarrow>
     ended_as as s rt s' rt'"
proof (induction as arbitrary: s rt)
  case (Cons a as)
  have polled: "ended_as (a # as) s1 r1 s' rt'"
    if e: "(case poll_post_exit_descendants (wk_reap a) (wk_populated a) s1 r1 of (clear, s, rt) \<Rightarrow>
      if clear then Some (s\<lparr>ls_containment_empty := True\<rparr>, rt) else observe_lifecycle as s rt) = Some (s', rt')"
      and n: "\<not> ls_containment_empty s1" for s1 and r1 :: "'a runtime"
  proof -
    obtain clear s2 r2 where p: "poll_post_exit_descendants (wk_reap a) (wk_populated a) s1 r1 = (clear, s2, r2)"
      using prod_cases3 by blast
    from poll_keeps [OF p] e n p Cons.IH [of s2 r2] show ?thesis by (auto simp: ended_as_def split: if_splits)
  qed
  show ?case
  proof (cases "wait_for_lifecycle_wake (wk_recv a) (ls_child_exit s \<noteq> None \<and> ls_pty_eof s)")
    case (WakeEvent e)
    obtain stop s1 r1 where h: "handle_life_event (wk_now a) (wk_persist a) e s rt = (stop, s1, r1)"
      using prod_cases3 by blast
    have "wk_recv a = RecvEvent e"
      using WakeEvent by (auto simp: wait_for_lifecycle_wake_def split: recv_answer.splits if_splits)
    then have k: "kept_fields r1 = kept_fields rt" "ls_containment_empty s1 = ls_containment_empty s" "stop \<Longrightarrow> ls_fatal s1 \<noteq> None"
      "ls_child_exit s1 = ls_child_exit s \<or> (\<exists>c g. wk_recv a = RecvEvent (LifeChildExit c g) \<and> ls_child_exit s1 = Some (c, g))"
      using handle_life_event_keeps [OF h] by auto
    show ?thesis
    proof (cases stop)
      case True
      with Cons.prems WakeEvent h have "s' = s1" "rt' = r1" by (simp_all add: Let_def)
      with k True Cons.prems show ?thesis by (auto simp: ended_as_def)
    next
      case False
      with Cons.prems WakeEvent h polled [of s1 r1] k show ?thesis
        by (auto simp: Let_def ended_as_def split: if_splits)
    qed
  next
    case CleanupPoll
    with Cons.prems polled [of s rt] show ?thesis by (auto simp: Let_def split: if_splits)
  next
    case RuntimeDirPoll
    with Cons.prems polled [of s rt] show ?thesis by (cases "wk_vanished a") (auto simp: Let_def ended_as_def)
  next
    case Disconnected
    with Cons.prems show ?thesis by (auto simp: ended_as_def)
  qed
qed simp

section \<open>Finalization\<close>

lemma update_record_written:
  assumes "update_record f now po rt = (Inr rec, rt')"
  shows "rt_disk rt' = rt_record rt'" "rt_record rt' = (f (rt_record rt))\<lparr>sr_updated_at_ms := now\<rparr>"
  using update_record_Inr [OF assms] by auto

lemma persist_final_written:
  assumes "persist_final f as rt = Some (w, rt')" "\<forall>a \<in> set as. \<not> fst a"
  shows "\<exists>now. rt_disk rt' = (f (rt_record rt))\<lparr>sr_updated_at_ms := now\<rparr> \<and> rt_record rt' = rt_disk rt'"
  using assms
proof (induction as arbitrary: rt)
  case (Cons a as)
  obtain now po where a: "a = (False, now, po)" using Cons.prems(2) by (cases a) auto
  obtain r rt1 where u: "update_record f now po rt = (r, rt1)" by force
  show ?case
  proof (cases r)
    case (Inl e)
    with u a Cons.prems have "persist_final f as rt1 = Some (w, rt')" "rt_record rt1 = rt_record rt"
      by (simp_all add: update_record_Inl)
    with Cons.IH Cons.prems(2) show ?thesis by fastforce
  next
    case (Inr rec)
    with u a Cons.prems(1) have "rt' = rt1" by simp
    with update_record_written [OF u [unfolded Inr]] show ?thesis by auto
  qed
qed simp

lemma late_proof_written:
  assumes "late_proof as rt = Some (w, rt')" "\<forall>a \<in> set as. \<not> fst (snd a)"
  shows "\<exists>now. rt_disk rt' = (rt_record rt)\<lparr>sr_containment_empty := Some True, sr_updated_at_ms := now\<rparr>"
  using assms
proof (induction as arbitrary: rt)
  case (Cons a as)
  obtain populated now po where a: "a = (populated, False, now, po)" using Cons.prems(2) by (cases a) auto
  obtain r rt1 where u: "update_record (\<lambda>r. r\<lparr>sr_containment_empty := Some True\<rparr>) now po rt = (r, rt1)" by force
  show ?case
  proof (cases "populated = Inr False")
    case False
    with a Cons show ?thesis by auto
  next
    case True
    show ?thesis
    proof (cases r)
      case (Inl e)
      with u a True Cons.prems have "late_proof as rt1 = Some (w, rt')" "rt_record rt1 = rt_record rt"
        by (simp_all add: update_record_Inl)
      with Cons.IH Cons.prems(2) show ?thesis by fastforce
    next
      case (Inr rec)
      with u a True Cons.prems(1) have "rt' = rt1" by simp
      with update_record_written [OF u [unfolded Inr]] show ?thesis by auto
    qed
  qed
qed simp

lemma retire_state_outside:
  "retire_state e as li = Some (b, li') \<Longrightarrow> li' = li\<lparr>li_retired := li_retired li'\<rparr>"
  by (induction e as li rule: retire_state.induct) (auto simp: Let_def split: if_splits prod.splits sum.splits)

text \<open>A session that keeps its output or has a deadline leaves a receipt with its exit.\<close>

lemma retire_state_receipt:
  assumes "retire_state e as li = Some (b, li')" "\<forall>a \<in> set as. \<not> fst a"
    and "r = rt_record (li_rt li)"
  shows "b" "retains_output r \<or> sr_deadline_ms r \<noteq> None \<Longrightarrow>
    \<exists>t. read_finished_tombstone (sr_id r) (li_retired li') = Some t \<and> ft_exit t = Some e \<and>
      ft_output t = (if retains_output r then Some (retirement_output (rt_hub (li_rt li))) else None)"
proof -
  have "b \<and> (retains_output r \<or> sr_deadline_ms r \<noteq> None \<longrightarrow>
      (\<exists>now. read_finished_tombstone (sr_id r) (li_retired li') = Some (worker_receipt now r e
        (if retains_output r then Some (retirement_output (rt_hub (li_rt li))) else None))))"
    (is "b \<and> (?kept \<longrightarrow> ?Q (li_retired li'))")
    using assms(1,2)
  proof (induction as)
    case (Cons a as)
    obtain now ok where a: "a = (False, now, ok)" using Cons.prems(2) by (cases a) auto
    let ?o = "if retains_output r then Some (retirement_output (rt_hub (li_rt li))) else None"
    let ?w = "write_worker_receipt ok now r e ?o (li_retired li)"
    show ?case
    proof (cases "?kept \<and> ok")
      case True
      then have w: "?w = (Inr (), snd ?w)" by (simp add: write_worker_receipt_def)
      with True a Cons.prems(1) assms(3) have "b" "li_retired li' = snd ?w"
        by (auto simp: Let_def write_worker_receipt_def split: if_splits)
      with receipt_readable [OF w] show ?thesis by auto
    next
      case False
      with a Cons assms(3) show ?thesis by (auto simp: Let_def write_worker_receipt_def split: if_splits)
    qed
  qed simp
  then show "b" "?kept \<Longrightarrow> \<exists>t. read_finished_tombstone (sr_id r) (li_retired li') = Some t \<and> ft_exit t = Some e \<and>
      ft_output t = (if retains_output r then Some (retirement_output (rt_hub (li_rt li))) else None)"
    by (auto simp: worker_receipt_def)
qed

lemma record_final_state_cases:
  assumes "record_final_state sc e s li = Some (w, s', li')"
  obtains rt where "li' = li\<lparr>li_rt := rt\<rparr>" "ls_containment_empty s' = ls_containment_empty s"
    "ls_fatal s \<noteq> None \<Longrightarrow> ls_fatal s' \<noteq> None"
    "\<forall>a \<in> set (sc_final sc). \<not> fst a \<Longrightarrow>
       \<exists>now. rt_disk rt = (final_update s' (ls_fatal s') e (rt_record (li_rt li)))\<lparr>sr_updated_at_ms := now\<rparr> \<and> rt_record rt = rt_disk rt"
proof -
  obtain flushed h where f: "flush_history (sc_codec sc) (sc_fresh sc) True (fst (sc_flush sc)) (snd (sc_flush sc))
      (rt_hub (li_rt li)) = (flushed, h)" by force
  let ?s = "case flushed of Inl _ \<Rightarrow> add_fatal ''persist final history'' s | Inr _ \<Rightarrow> s"
  from assms obtain rt where rt: "persist_final (final_update ?s (ls_fatal ?s) e) (sc_final sc) ((li_rt li)\<lparr>rt_hub := h\<rparr>) = Some (w, rt)"
    "s' = ?s" "li' = li\<lparr>li_rt := rt\<rparr>"
    by (auto simp: record_final_state_def f Let_def)
  have "ls_containment_empty s' = ls_containment_empty s" "ls_fatal s \<noteq> None \<Longrightarrow> ls_fatal s' \<noteq> None"
    by (auto simp: rt(2) add_fatal_def split: sum.split)
  with rt(3) show ?thesis using persist_final_written [OF rt(1)] by (intro that [of rt]) (simp_all add: rt(2))
qed

lemma warned_cgroup: "li\<lparr>li_warned := ws, li_cgroup := cg\<rparr> = li\<lparr>li_cgroup := cg, li_warned := ws\<rparr>"
  by simp

text \<open>
  A session that is not removed at once: its final record is written, an unproven containment is waited
  for, and there is a reason to keep the record, so that the removal after the wait is never reached.
\<close>

lemma finalize_kept:
  assumes "finalize_session V sc s li = Some li'" "\<not> will_remove sc s li" "ls_containment_empty s \<or> ls_fatal s \<noteq> None"
    and "e = exit_of sc s li"
  obtains s' rt1 rt2 warned m where
    "ls_containment_empty s' = ls_containment_empty s" "ls_fatal s' \<noteq> None \<or> oom_killed e \<or> sc_keep_exited sc"
    "\<forall>a \<in> set (sc_final sc). \<not> fst a \<Longrightarrow>
       \<exists>now. rt_disk rt1 = (final_update s' (ls_fatal s') e (rt_record (li_rt li)))\<lparr>sr_updated_at_ms := now\<rparr> \<and> rt_record rt1 = rt_disk rt1"
    "if ls_containment_empty s then rt2 = rt1 else \<exists>w. late_proof (sc_late sc) (rt_fail m rt1) = Some (w, rt2)"
    "li' = release_cgroup (li_cgroup li) (li\<lparr>li_cgroup := None, li_warned := warned,
       li_rt := rt2\<lparr>rt_hub := finish V (sc_codec sc) (sc_fresh sc) (sc_txt_ok sc) e (rt_hub rt2)\<rparr>\<rparr>)"
proof -
  let ?taken = "if ls_containment_empty s then li\<lparr>li_cgroup := None\<rparr> else li"
  obtain w s' li1 where r: "record_final_state sc e s ?taken = Some (w, s', li1)"
    using assms by (auto simp: finalize_session_def Let_def split: option.splits prod.splits)
  obtain rt1 where rt1: "li1 = ?taken\<lparr>li_rt := rt1\<rparr>" "ls_containment_empty s' = ls_containment_empty s"
    "ls_fatal s \<noteq> None \<Longrightarrow> ls_fatal s' \<noteq> None"
    "\<forall>a \<in> set (sc_final sc). \<not> fst a \<Longrightarrow>
       \<exists>now. rt_disk rt1 = (final_update s' (ls_fatal s') e (rt_record (li_rt li)))\<lparr>sr_updated_at_ms := now\<rparr> \<and> rt_record rt1 = rt_disk rt1"
    by (rule record_final_state_cases [OF r]) (auto split: if_splits)
  have reason: "ls_fatal s' \<noteq> None \<or> oom_killed e \<or> sc_keep_exited sc"
    using assms(2-4) rt1(3) by (auto simp: will_remove_def)
  let ?warned = "if oom_killed e \<or> ls_fatal s' \<noteq> None then li_warned li @ [rt_record rt1] else li_warned li"
  show ?thesis
  proof (cases "ls_containment_empty s")
    case True
    show ?thesis
      by (rule that [OF rt1(2) reason rt1(4), of rt1 _ ?warned])
        (use True assms(1,2,4) r rt1(1,2) reason in \<open>auto simp: finalize_session_def Let_def\<close>)
  next
    case False
    let ?m = "case ls_fatal s' of Some m \<Rightarrow> m | None \<Rightarrow> ''containment cleanup was not proven''"
    obtain w rt2 where l: "late_proof (sc_late sc) (rt_fail ?m rt1) = Some (w, rt2)"
      using False assms(1,2,4) r rt1(1,2)
      by (auto simp: finalize_session_def Let_def await_late_containment_proof_def split: option.splits if_splits)
    show ?thesis
      by (rule that [OF rt1(2) reason rt1(4), of rt2 ?m ?warned])
        (use False assms(1,2,4) r rt1(1,2) reason l in \<open>auto simp: finalize_session_def Let_def await_late_containment_proof_def warned_cgroup\<close>)
  qed
qed

lemma finalize_removed:
  assumes "finalize_session V sc s li = Some li'" "will_remove sc s li" and "e = exit_of sc s li"
  shows "remove_finished_state sc e (release_cgroup (li_cgroup li) (li\<lparr>li_cgroup := None,
    li_rt := (li_rt li)\<lparr>rt_hub := finish_killed e (rt_hub (li_rt li))\<rparr>\<rparr>)) = Some li'"
  using assms by (auto simp: finalize_session_def will_remove_def Let_def)

lemma run_lifecycle_cases:
  assumes "run_lifecycle V sc li = Some li'"
  obtains s rt lf where "finalize_session V sc s (li\<lparr>li_rt := rt\<rparr>) = Some lf" "li' = shutdown_worker lf"
    "kept_fields rt = kept_fields (li_rt li)" "ls_containment_empty s \<or> ls_fatal s \<noteq> None"
    "ls_containment_empty s \<Longrightarrow> (\<exists>a \<in> set (sc_wakes sc). wk_populated a = Inr False) \<or> (\<exists>p \<in> set (sc_kill sc). kp_populated p = Inr False)"
    "ls_child_exit s = None \<or> exit_reported (sc_wakes sc) (ls_child_exit s)"
    "ls_fatal s = None \<Longrightarrow> ls_child_exit s \<noteq> None"
proof -
  obtain s0 rt0 where o: "observe_lifecycle (sc_wakes sc) loop_new (li_rt li) = Some (s0, rt0)"
    using assms by (auto simp: run_lifecycle_def split: option.splits)
  from observe_ends [OF o] have k: "kept_fields rt0 = kept_fields (li_rt li)"
    "if ls_containment_empty s0 then \<exists>a \<in> set (sc_wakes sc). wk_populated a = Inr False else ls_fatal s0 \<noteq> None"
    "ls_child_exit s0 = None \<or> exit_reported (sc_wakes sc) (ls_child_exit s0)" "ls_fatal s0 = None \<Longrightarrow> ls_child_exit s0 \<noteq> None"
    by (auto simp: loop_new_def ended_as_def split: if_splits)
  show ?thesis
  proof (cases "ls_containment_empty s0")
    case True
    with o assms obtain lf where "finalize_session V sc s0 (li\<lparr>li_rt := rt0\<rparr>) = Some lf" "li' = shutdown_worker lf"
      by (auto simp: run_lifecycle_def)
    with True k show ?thesis by (intro that [of s0 rt0 lf]) auto
  next
    case False
    with o k(2) assms obtain r where r: "kill_until_empty (sc_kill sc) = Some r"
      by (cases "kill_until_empty (sc_kill sc)") (auto simp: run_lifecycle_def recover_unproven_containment_def)
    show ?thesis
    proof (cases r)
      case (Inl e)
      let ?s = "add_fatal (''containment cleanup unproven: '' @ e) s0"
      from Inl False o k(2) assms r obtain lf where "finalize_session V sc ?s (li\<lparr>li_rt := rt0\<rparr>) = Some lf" "li' = shutdown_worker lf"
        by (auto simp: run_lifecycle_def recover_unproven_containment_def)
      with False k show ?thesis by (intro that [of ?s rt0 lf]) (auto simp: add_fatal_def)
    next
      case (Inr u)
      let ?s = "s0\<lparr>ls_containment_empty := True\<rparr>"
      from Inr False o k(2) assms r obtain lf where
        "finalize_session V sc ?s (li\<lparr>li_rt := rt0\<lparr>rt_running := False\<rparr>\<rparr>) = Some lf" "li' = shutdown_worker lf"
        by (auto simp: run_lifecycle_def recover_unproven_containment_def)
      with k(1,3,4) kill_until_empty_seen [of "sc_kill sc" u] r Inr show ?thesis
        by (intro that [of ?s "rt0\<lparr>rt_running := False\<rparr>" lf]) auto
    qed
  qed
qed

section \<open>The end of a worker\<close>

definition exit_trace :: "'p life \<Rightarrow> 'p life \<Rightarrow> life_effect list" where
  "exit_trace li li' = (if li_cgroup li = None then [] else [CleanedCgroup]) @
     (if li_state_dir li' then [] else [RemovedState])"

definition clients_ended :: "'p life \<Rightarrow> bool" where
  "clients_ended li \<longleftrightarrow> subscribers (rt_hub (li_rt li)) = [] \<and> hb_terminal (rt_hub (li_rt li)) \<noteq> None"

lemma release_cgroup_simps [simp]:
  "li_rt (release_cgroup cg li) = li_rt li" "li_state_dir (release_cgroup cg li) = li_state_dir li"
  "li_retired (release_cgroup cg li) = li_retired li"
  "li_trace (release_cgroup cg li) = li_trace li @ (if cg = None then [] else [CleanedCgroup])"
  by (simp_all add: release_cgroup_def did_def)

lemma remove_finished_state_cases:
  assumes "remove_finished_state sc e li = Some li'"
  obtains b lr where "retire_state e (sc_receipts sc) (li\<lparr>li_rt := rt_mark_finalized (li_rt li)\<rparr>) = Some (b, lr)"
    "li_rt li' = rt_mark_finalized (li_rt li)" "li_retired li' = li_retired lr"
    "li_state_dir li' = (li_state_dir li \<and> \<not> (b \<and> sc_remove_ok sc))"
    "li_trace li' = li_trace li @ (if b \<and> sc_remove_ok sc then [RemovedState] else [])"
proof -
  from assms obtain b lr where r: "retire_state e (sc_receipts sc) (li\<lparr>li_rt := rt_mark_finalized (li_rt li)\<rparr>) = Some (b, lr)"
    and l: "li' = (if b \<and> sc_remove_ok sc then did RemovedState (lr\<lparr>li_state_dir := False\<rparr>) else lr)"
    by (auto simp: remove_finished_state_def split: option.splits)
  from retire_state_outside [OF r] obtain dirs where "lr = li\<lparr>li_rt := rt_mark_finalized (li_rt li), li_retired := dirs\<rparr>" by simp
  with l show ?thesis by (intro that [OF r]) (auto simp: did_def)
qed

lemma finalize_ends:
  assumes "finalize_session V sc s li = Some li'" "ls_containment_empty s \<or> ls_fatal s \<noteq> None" "li_state_dir li"
  shows "li_trace li' = li_trace li @ exit_trace li li'" "clients_ended li'"
    "ls_containment_empty s \<or> (\<exists>a \<in> set (sc_late sc). fst a = Inr False)"
proof -
  have "li_trace li' = li_trace li @ exit_trace li li' \<and> clients_ended li' \<and>
    (ls_containment_empty s \<or> (\<exists>a \<in> set (sc_late sc). fst a = Inr False))"
  proof (cases "will_remove sc s li")
    case True
    show ?thesis
      by (rule remove_finished_state_cases [OF finalize_removed [OF assms(1) True refl]])
        (use assms(3) True in \<open>auto simp: exit_trace_def clients_ended_def will_remove_def rt_mark_finalized_def
          mark_finalized_def\<close>)
  next
    case False
    show ?thesis
      by (rule finalize_kept [OF assms(1) False assms(2) refl])
        (use assms(3) in \<open>auto simp: exit_trace_def clients_ended_def dest: late_proof_seen split: if_splits\<close>)
  qed
  then show "li_trace li' = li_trace li @ exit_trace li li'" "clients_ended li'"
    "ls_containment_empty s \<or> (\<exists>a \<in> set (sc_late sc). fst a = Inr False)" by auto
qed

text \<open>
  C15: a worker exits only after its session's containment was seen empty: while its own loop was watching,
  by the killing of what was left, or while it waited after that failed. By then every client has the
  outcome of the session. What it does to the outside comes in one order: the cgroup is released, then the
  session's directory goes if it goes at all, then the socket, the runtime directory and the process.
\<close>

theorem exit_after_proof:
  assumes "run_lifecycle V sc li = Some li'" "li_state_dir li"
  shows "((\<exists>a \<in> set (sc_wakes sc). wk_populated a = Inr False) \<or> (\<exists>p \<in> set (sc_kill sc). kp_populated p = Inr False) \<or>
      (\<exists>a \<in> set (sc_late sc). fst a = Inr False)) \<and>
    li_trace li' = li_trace li @ exit_trace li li' @ [UnlinkedSocket, RemovedRuntimeDir, ExitedProcess] \<and>
    clients_ended li'"
proof (rule run_lifecycle_cases [OF assms(1)])
  fix s rt lf
  assume f: "finalize_session V sc s (li\<lparr>li_rt := rt\<rparr>) = Some lf" "li' = shutdown_worker lf"
    and p: "ls_containment_empty s \<or> ls_fatal s \<noteq> None"
    and seen: "ls_containment_empty s \<Longrightarrow> (\<exists>a \<in> set (sc_wakes sc). wk_populated a = Inr False) \<or> (\<exists>p \<in> set (sc_kill sc). kp_populated p = Inr False)"
  have d: "li_state_dir (li\<lparr>li_rt := rt\<rparr>)" using assms(2) by simp
  from finalize_ends [OF f(1) p d] seen show ?thesis
    by (auto simp: f(2) shutdown_worker_def did_def exit_trace_def clients_ended_def)
qed

text \<open>What the record on disk says of a finished session.\<close>

definition terminal_record :: "exit_info \<Rightarrow> session_record \<Rightarrow> bool" where
  "terminal_record e r \<longleftrightarrow> sr_phase r = (if sr_error r = None then Exited else Failed) \<and> sr_exit r = Some e \<and>
     sr_containment_empty r = Some True"

lemma finalize_kept_record:
  assumes "finalize_session V sc s li = Some li'" "\<not> will_remove sc s li" "ls_containment_empty s \<or> ls_fatal s \<noteq> None"
    and "e = exit_of sc s li" "\<forall>a \<in> set (sc_final sc). \<not> fst a" "\<forall>a \<in> set (sc_late sc). \<not> fst (snd a)"
  shows "li_state_dir li' = li_state_dir li" "terminal_record e (rt_disk (li_rt li'))"
    "sr_error (rt_disk (li_rt li')) \<noteq> None \<or> oom_killed e \<or> sc_keep_exited sc"
proof -
  obtain s' rt1 rt2 warned m where k:
    "ls_containment_empty s' = ls_containment_empty s" "ls_fatal s' \<noteq> None \<or> oom_killed e \<or> sc_keep_exited sc"
    "\<exists>now. rt_disk rt1 = (final_update s' (ls_fatal s') e (rt_record (li_rt li)))\<lparr>sr_updated_at_ms := now\<rparr> \<and> rt_record rt1 = rt_disk rt1"
    "if ls_containment_empty s then rt2 = rt1 else \<exists>w. late_proof (sc_late sc) (rt_fail m rt1) = Some (w, rt2)"
    "li' = release_cgroup (li_cgroup li) (li\<lparr>li_cgroup := None, li_warned := warned,
       li_rt := rt2\<lparr>rt_hub := finish V (sc_codec sc) (sc_fresh sc) (sc_txt_ok sc) e (rt_hub rt2)\<rparr>\<rparr>)"
    by (rule finalize_kept [OF assms(1-4)]) (use assms(5) in blast)
  have d: "rt_disk (li_rt li') = rt_disk rt2" by (simp add: k(5))
  have "terminal_record e (rt_disk rt2) \<and> sr_error (rt_disk rt2) = ls_fatal s'"
  proof (cases "ls_containment_empty s")
    case True
    with k(1,3,4) show ?thesis by (auto simp: terminal_record_def final_update_def)
  next
    case False
    with k(4) obtain w where "late_proof (sc_late sc) (rt_fail m rt1) = Some (w, rt2)" by auto
    from late_proof_written [OF this assms(6)] k(3) show ?thesis
      by (auto simp: terminal_record_def final_update_def rt_fail_def)
  qed
  with d k(2) show "terminal_record e (rt_disk (li_rt li'))"
    "sr_error (rt_disk (li_rt li')) \<noteq> None \<or> oom_killed e \<or> sc_keep_exited sc" by simp_all
  show "li_state_dir li' = li_state_dir li" by (simp add: k(5))
qed

lemma finalize_removed_receipt:
  assumes "finalize_session V sc s li = Some li'" "will_remove sc s li" "e = exit_of sc s li" "sc_remove_ok sc"
    and "\<forall>a \<in> set (sc_receipts sc). \<not> fst a" and "r = rt_record (li_rt li)"
  shows "\<not> li_state_dir li'" "retains_output r \<or> sr_deadline_ms r \<noteq> None \<Longrightarrow>
    \<exists>t. read_finished_tombstone (sr_id r) (li_retired li') = Some t \<and> ft_exit t = Some e \<and>
      ft_output t = (if retains_output r then Some (retirement_output (rt_hub (li_rt li'))) else None)"
proof -
  let ?li = "release_cgroup (li_cgroup li) (li\<lparr>li_cgroup := None,
    li_rt := (li_rt li)\<lparr>rt_hub := finish_killed e (rt_hub (li_rt li))\<rparr>\<rparr>)"
  obtain b lr where r: "retire_state e (sc_receipts sc) (?li\<lparr>li_rt := rt_mark_finalized (li_rt ?li)\<rparr>) = Some (b, lr)"
    "li_rt li' = rt_mark_finalized (li_rt ?li)" "li_retired li' = li_retired lr"
    "li_state_dir li' = (li_state_dir ?li \<and> \<not> (b \<and> sc_remove_ok sc))"
    by (rule remove_finished_state_cases [OF finalize_removed [OF assms(1-3)]]) blast
  have "r = rt_record (li_rt (?li\<lparr>li_rt := rt_mark_finalized (li_rt ?li)\<rparr>))"
    using assms(6) by (simp add: rt_mark_finalized_def)
  note receipt = retire_state_receipt [OF r(1) assms(5) this]
  show "\<not> li_state_dir li'" using receipt(1) r(4) assms(4) by simp
  show "\<exists>t. read_finished_tombstone (sr_id r) (li_retired li') = Some t \<and> ft_exit t = Some e \<and>
      ft_output t = (if retains_output r then Some (retirement_output (rt_hub (li_rt li'))) else None)"
    if "retains_output r \<or> sr_deadline_ms r \<noteq> None"
    using receipt(2) [OF that] by (auto simp: r(2,3))
qed

lemma kept_record_fields:
  assumes "kept_fields rt = kept_fields rt'"
  shows "sr_id (rt_record rt) = sr_id (rt_record rt')" "retains_output (rt_record rt) = retains_output (rt_record rt')"
    "sr_deadline_ms (rt_record rt) = sr_deadline_ms (rt_record rt')"
  using assms by (simp_all add: kept_fields_def Let_def retains_output_def)

text \<open>
  C16: a session that is over is gone or explained. Unless its record vanishes meanwhile, a worker that has
  exited either removed the session's directory, which it does only for a session that ended without an
  error, was not killed for memory and is not to be kept, with an exit status the waiter reported, and
  then a session that has a deadline or keeps its output has left a receipt with exactly that exit (and
  the output); or the record on disk is final: \<open>Exited\<close>, or \<open>Failed\<close> with an error, with the exit, the
  containment proven empty, and one of these reasons.
\<close>

theorem session_gone_or_explained:
  assumes "run_lifecycle V sc li = Some li'" "li_state_dir li" "sc_remove_ok sc" and "r = rt_record (li_rt li)"
    and "\<forall>a \<in> set (sc_receipts sc). \<not> fst a" "\<forall>a \<in> set (sc_final sc). \<not> fst a" "\<forall>a \<in> set (sc_late sc). \<not> fst (snd a)"
  shows "\<exists>e. exited_at_ms e = sc_now sc \<and> (oom_killed e \<longleftrightarrow> li_cgroup li = Some True) \<and>
    (if li_state_dir li' then terminal_record e (rt_disk (li_rt li')) \<and>
       (sr_error (rt_disk (li_rt li')) \<noteq> None \<or> oom_killed e \<or> sc_keep_exited sc)
     else \<not> oom_killed e \<and> \<not> sc_keep_exited sc \<and> exit_reported (sc_wakes sc) (Some (ei_code e, ei_signal e)) \<and>
       (retains_output r \<or> sr_deadline_ms r \<noteq> None \<longrightarrow>
         (\<exists>t. read_finished_tombstone (sr_id r) (li_retired li') = Some t \<and> ft_exit t = Some e \<and>
            ft_output t = (if retains_output r then Some (retirement_output (rt_hub (li_rt li'))) else None))))"
proof (rule run_lifecycle_cases [OF assms(1)])
  fix s rt lf
  assume f: "finalize_session V sc s (li\<lparr>li_rt := rt\<rparr>) = Some lf" "li' = shutdown_worker lf"
    and k: "kept_fields rt = kept_fields (li_rt li)" and p: "ls_containment_empty s \<or> ls_fatal s \<noteq> None"
    and x: "ls_child_exit s = None \<or> exit_reported (sc_wakes sc) (ls_child_exit s)" "ls_fatal s = None \<Longrightarrow> ls_child_exit s \<noteq> None"
  define e where "e = exit_of sc s (li\<lparr>li_rt := rt\<rparr>)"
  have e: "exited_at_ms e = sc_now sc" "oom_killed e \<longleftrightarrow> li_cgroup li = Some True"
    "ls_child_exit s \<noteq> None \<Longrightarrow> ls_child_exit s = Some (ei_code e, ei_signal e)"
    by (auto simp: e_def exit_of_def Let_def split: prod.split)
  have same: "li_rt li' = li_rt lf" "li_retired li' = li_retired lf" "li_state_dir li' = li_state_dir lf"
    by (simp_all add: f(2) shutdown_worker_def did_def)
  note rec = kept_record_fields [OF k, folded assms(4)]
  show ?thesis
  proof (cases "will_remove sc s (li\<lparr>li_rt := rt\<rparr>)")
    case True
    then have w: "ls_fatal s = None" "\<not> oom_killed e" "\<not> sc_keep_exited sc" by (simp_all add: will_remove_def e_def)
    have "exit_reported (sc_wakes sc) (Some (ei_code e, ei_signal e))" using x w(1) e(3) by auto
    with finalize_removed_receipt [OF f(1) True e_def assms(3,5) refl] w(2,3) e(1,2) rec show ?thesis
      unfolding same by (intro exI [of _ e]) auto
  next
    case False
    from finalize_kept_record [OF f(1) False p e_def assms(6,7)] assms(2) e(1,2) show ?thesis
      unfolding same by (intro exI [of _ e]) simp
  qed
qed

section \<open>A clean exit\<close>

definition woken :: "recv_answer \<Rightarrow> bool \<Rightarrow> wake_answer" where
  "woken a populated = \<lparr>wk_recv = a, wk_now = 7, wk_persist = PersistOk, wk_vanished = False, wk_reap = None,
     wk_populated = Inr populated\<rparr>"

text \<open>The shell exits with 3, its last output is read, and the second look finds nothing left.\<close>

definition clean_script :: life_script where
  "clean_script = \<lparr>sc_wakes = [woken RecvTimeout True, woken (RecvEvent (LifeChildExit (Some 3) None)) True,
       woken (RecvEvent LifePtyEof) True, woken RecvTimeout False],
     sc_kill = [], sc_now = 9, sc_codec = plain_codec, sc_fresh = 1, sc_keep_exited = False, sc_flush = (9, 9),
     sc_final = [], sc_late = [], sc_txt_ok = True, sc_receipts = [(False, 9, False), (False, 10, True)], sc_remove_ok = True\<rparr>"

text \<open>The same with a disk that refuses the first write of everything.\<close>

definition stubborn_script :: life_script where
  "stubborn_script = clean_script\<lparr>
     sc_kill := [\<lparr>kp_kill = None, kp_reap = None, kp_populated = Inr True, kp_late = True\<rparr>],
     sc_final := [(False, 9, PersistFailedBefore), (False, 10, PersistOk)],
     sc_late := [(Inr True, False, 11, PersistOk), (Inr False, False, 12, PersistFailedAfter), (Inr False, False, 13, PersistOk)]\<rparr>"

definition deadline_life :: "bytes life" where
  "deadline_life = \<lparr>li_rt = sample_rt\<lparr>rt_record := sample_record\<lparr>sr_deadline_ms := Some 8\<rparr>\<rparr>, li_cgroup = Some False,
     li_state_dir = True, li_retired = [], li_warned = [], li_trace = []\<rparr>"

definition ended_life :: "bytes life" where
  "ended_life = the (run_lifecycle vt_log clean_script deadline_life)"

lemma clean_run: "run_lifecycle vt_log clean_script deadline_life = Some ended_life" "\<not> li_state_dir ended_life"
  by (simp_all add: ended_life_def run_lifecycle_def clean_script_def woken_def deadline_life_def
      wait_for_lifecycle_wake_def loop_new_def handle_life_event_def poll_post_exit_descendants_def
      finalize_session_def will_remove_def exit_of_def remove_finished_state_def retains_output_def
      write_worker_receipt_def sample_rt_def update_record_def broadcast_record_def release_cgroup_def rt_mark_finalized_def
      shutdown_worker_def did_def sample_record_def Let_def)

lemma deadline_life_fields: "li_state_dir deadline_life" "li_cgroup deadline_life = Some False" "li_trace deadline_life = []"
    "sr_id (rt_record (li_rt deadline_life)) = 5" "sr_deadline_ms (rt_record (li_rt deadline_life)) = Some 8"
  by (simp_all add: deadline_life_def sample_rt_def sample_record_def)

theorem exit_after_proof_witness:
  "li_trace ended_life = [CleanedCgroup, RemovedState, UnlinkedSocket, RemovedRuntimeDir, ExitedProcess] \<and> clients_ended ended_life"
  using exit_after_proof [OF clean_run(1) deadline_life_fields(1)] clean_run(2)
  by (simp add: exit_trace_def deadline_life_fields)

theorem session_gone_or_explained_witness:
  "\<exists>t e. read_finished_tombstone 5 (li_retired ended_life) = Some t \<and> ft_exit t = Some e \<and> ei_code e = Some 3 \<and> exited_at_ms e = 9"
proof -
  have "\<forall>a \<in> set (sc_receipts clean_script). \<not> fst a" "\<forall>a \<in> set (sc_final clean_script). \<not> fst a"
    "\<forall>a \<in> set (sc_late clean_script). \<not> fst (snd a)" "sc_remove_ok clean_script"
    by (simp_all add: clean_script_def)
  from session_gone_or_explained [OF clean_run(1) deadline_life_fields(1) this(4) refl this(1-3)] clean_run(2)
  obtain e t where "exited_at_ms e = sc_now clean_script" "exit_reported (sc_wakes clean_script) (Some (ei_code e, ei_signal e))"
    "read_finished_tombstone 5 (li_retired ended_life) = Some t" "ft_exit t = Some e"
    by (auto simp: deadline_life_fields)
  then show ?thesis by (auto simp: clean_script_def woken_def exit_reported_def)
qed

section \<open>Two remarks on the code\<close>

text \<open>
  The last statement of \<open>finalize_session\<close> removes the session of a clean finish whose proof came late. It is never
  reached with its condition true: an unproven containment always comes with a fatal error.
\<close>

lemma late_removal_unreachable:
  assumes "finalize_session V sc s li = Some li'" "\<not> will_remove sc s li" "ls_containment_empty s \<or> ls_fatal s \<noteq> None"
  shows "li_state_dir li' = li_state_dir li"
  by (rule finalize_kept [OF assms refl]) simp

text \<open>The error of a waiter replaces the error the loop already had, which is documented to be the first one.\<close>

lemma fatal_error_replaced:
  "map_option (\<lambda>(s, _). ls_fatal s) (observe_lifecycle [woken (RecvEvent (LifePtyError ''read'')) True,
     woken (RecvEvent (LifeWaiterError ''wait'')) True] loop_new sample_rt) = Some (Some ''wait'')"
  by (simp add: woken_def loop_new_def wait_for_lifecycle_wake_def handle_life_event_def poll_post_exit_descendants_def Let_def)

section \<open>The worker exits\<close>

text \<open>The answers that let the loop end: the exit of the child, the end of the output, and then an empty containment.\<close>

definition settles :: "wake_answer list \<Rightarrow> loop_state \<Rightarrow> bool" where
  "settles as s \<longleftrightarrow> (\<exists>xs a ys. as = xs @ a # ys \<and> wk_populated a = Inr False \<and>
     (ls_child_exit s \<noteq> None \<or> (\<exists>b \<in> set (xs @ [a]). \<exists>c g. wk_recv b = RecvEvent (LifeChildExit c g))) \<and>
     (ls_pty_eof s \<or> (\<exists>b \<in> set (xs @ [a]). wk_recv b = RecvEvent LifePtyEof)))"

lemma settles_step:
  assumes "settles (a # as) s"
    and "ls_child_exit s \<noteq> None \<or> (\<exists>c g. wk_recv a = RecvEvent (LifeChildExit c g)) \<Longrightarrow> ls_child_exit s' \<noteq> None"
    and "ls_pty_eof s \<or> wk_recv a = RecvEvent LifePtyEof \<Longrightarrow> ls_pty_eof s'"
    and "\<not> (ls_child_exit s' \<noteq> None \<and> ls_pty_eof s' \<and> wk_populated a = Inr False)"
  shows "settles as s'"
proof -
  from assms(1) obtain xs b ys where s: "a # as = xs @ b # ys" "wk_populated b = Inr False"
    "ls_child_exit s \<noteq> None \<or> (\<exists>b \<in> set (xs @ [b]). \<exists>c g. wk_recv b = RecvEvent (LifeChildExit c g))"
    "ls_pty_eof s \<or> (\<exists>b \<in> set (xs @ [b]). wk_recv b = RecvEvent LifePtyEof)"
    unfolding settles_def by blast
  show ?thesis
  proof (cases xs)
    case Nil
    with s assms(2-4) show ?thesis by auto
  next
    case (Cons x xs')
    with s assms(2,3) have "as = xs' @ b # ys"
      "ls_child_exit s' \<noteq> None \<or> (\<exists>b \<in> set (xs' @ [b]). \<exists>c g. wk_recv b = RecvEvent (LifeChildExit c g))"
      "ls_pty_eof s' \<or> (\<exists>b \<in> set (xs' @ [b]). wk_recv b = RecvEvent LifePtyEof)"
      by auto
    with s(2) show ?thesis unfolding settles_def by blast
  qed
qed

lemma poll_moves:
  assumes "poll_post_exit_descendants reap populated s rt = (clear, s', rt')"
  shows "ls_child_exit s' = ls_child_exit s" "ls_pty_eof s' = ls_pty_eof s"
    "clear \<longleftrightarrow> ls_child_exit s \<noteq> None \<and> ls_pty_eof s \<and> populated = Inr False"
  using assms by (auto simp: poll_post_exit_descendants_def first_fatal_def Let_def split: if_splits sum.splits option.splits)

lemma observe_returns: "settles as s \<Longrightarrow> observe_lifecycle as s rt \<noteq> None"
proof (induction as arbitrary: s rt)
  case Nil
  then show ?case by (simp add: settles_def)
next
  case (Cons a as)
  have polled: "(case poll_post_exit_descendants (wk_reap a) (wk_populated a) s1 r1 of (clear, s, rt) \<Rightarrow>
      if clear then Some (s\<lparr>ls_containment_empty := True\<rparr>, rt) else observe_lifecycle as s rt) \<noteq> None"
    if m: "ls_child_exit s \<noteq> None \<or> (\<exists>c g. wk_recv a = RecvEvent (LifeChildExit c g)) \<Longrightarrow> ls_child_exit s1 \<noteq> None"
      "ls_pty_eof s \<or> wk_recv a = RecvEvent LifePtyEof \<Longrightarrow> ls_pty_eof s1" for s1 and r1 :: "'a runtime"
  proof -
    obtain clear s2 r2 where p: "poll_post_exit_descendants (wk_reap a) (wk_populated a) s1 r1 = (clear, s2, r2)"
      using prod_cases3 by blast
    note q = poll_moves [OF p]
    show ?thesis
    proof (cases clear)
      case False
      have "settles as s2" by (rule settles_step [OF Cons.prems]) (use False q m in auto)
      with False p Cons.IH show ?thesis by simp
    qed (simp add: p)
  qed
  show ?case
  proof (cases "wait_for_lifecycle_wake (wk_recv a) (ls_child_exit s \<noteq> None \<and> ls_pty_eof s)")
    case (WakeEvent e)
    obtain stop s1 r1 where h: "handle_life_event (wk_now a) (wk_persist a) e s rt = (stop, s1, r1)"
      using prod_cases3 by blast
    have a: "wk_recv a = RecvEvent e"
      using WakeEvent by (auto simp: wait_for_lifecycle_wake_def split: recv_answer.splits if_splits)
    have "ls_child_exit s \<noteq> None \<or> (\<exists>c g. wk_recv a = RecvEvent (LifeChildExit c g)) \<Longrightarrow> ls_child_exit s1 \<noteq> None"
      "ls_pty_eof s \<or> wk_recv a = RecvEvent LifePtyEof \<Longrightarrow> ls_pty_eof s1"
      using h by (auto simp: a handle_life_event_def split: lifecycle_event.splits)
    from polled [OF this] WakeEvent h show ?thesis by (simp add: Let_def)
  next
    case CleanupPoll
    then have "\<forall>e. wk_recv a \<noteq> RecvEvent e" by (auto simp: wait_for_lifecycle_wake_def)
    with CleanupPoll polled [of s rt] show ?thesis by (simp add: Let_def)
  next
    case RuntimeDirPoll
    then have "\<forall>e. wk_recv a \<noteq> RecvEvent e" by (auto simp: wait_for_lifecycle_wake_def)
    with RuntimeDirPoll polled [of s rt] show ?thesis by (simp add: Let_def)
  qed simp
qed

lemma kill_returns: "p \<in> set ps \<Longrightarrow> kp_late p \<Longrightarrow> kill_until_empty ps \<noteq> None"
  by (induction ps) (auto split: option.split sum.split)

lemma persist_final_returns:
  assumes "(vanished, now, po) \<in> set as" "vanished \<or> po = PersistOk" "\<not> finalized (rt_hub rt)"
  shows "persist_final f as rt \<noteq> None"
  using assms
proof (induction as arbitrary: rt)
  case (Cons a as)
  obtain v n p where a: "a = (v, n, p)" using prod_cases3 by blast
  obtain r rt1 where u: "update_record f n p rt = (r, rt1)" by force
  have "\<not> finalized (rt_hub rt1)" using finalized_update [of f n p rt] u Cons.prems(3) by simp
  moreover have "p = PersistOk \<Longrightarrow> \<exists>rec. r = Inr rec" using u Cons.prems(3) by (auto simp: update_record_def Let_def)
  ultimately show ?case using Cons a u by (cases r) auto
qed simp

lemma late_proof_returns:
  assumes "(Inr False, vanished, now, po) \<in> set as" "vanished \<or> po = PersistOk" "\<not> finalized (rt_hub rt)"
  shows "late_proof as rt \<noteq> None"
  using assms
proof (induction as arbitrary: rt)
  case (Cons a as)
  obtain w v n p where a: "a = (w, v, n, p)" using prod_cases4 by blast
  obtain r rt1 where u: "update_record (\<lambda>r. r\<lparr>sr_containment_empty := Some True\<rparr>) n p rt = (r, rt1)" by force
  have "\<not> finalized (rt_hub rt1)"
    using finalized_update [of "\<lambda>r. r\<lparr>sr_containment_empty := Some True\<rparr>" n p rt] u Cons.prems(3) by simp
  moreover have "p = PersistOk \<Longrightarrow> \<exists>rec. r = Inr rec" using u Cons.prems(3) by (auto simp: update_record_def Let_def)
  ultimately show ?case using Cons a u by (cases r) auto
qed simp

lemma retire_state_returns: "(vanished, now, ok) \<in> set as \<Longrightarrow> vanished \<or> ok \<Longrightarrow> retire_state e as li \<noteq> None"
  by (induction as) (auto simp: Let_def write_worker_receipt_def)

lemma persist_final_fence: "persist_final f as rt = Some (w, rt') \<Longrightarrow> finalized (rt_hub rt') = finalized (rt_hub rt)"
proof (induction as arbitrary: rt)
  case (Cons a as)
  obtain v n p where a: "a = (v, n, p)" using prod_cases3 by blast
  obtain r rt1 where u: "update_record f n p rt = (r, rt1)" by force
  with finalized_update [of f n p rt] Cons a show ?case by (cases r) (auto split: if_splits)
qed simp

text \<open>
  The answers that let the rest of the way end: the killing has a deadline, and a write of the final
  record, an empty containment with a write, and a receipt succeed at some time (or the record has gone).
\<close>

definition machine_answers :: "life_script \<Rightarrow> bool" where
  "machine_answers sc \<longleftrightarrow> (\<exists>p \<in> set (sc_kill sc). kp_late p) \<and>
     (\<exists>(vanished, _, po) \<in> set (sc_final sc). vanished \<or> po = PersistOk) \<and>
     (\<exists>(populated, vanished, _, po) \<in> set (sc_late sc). populated = Inr False \<and> (vanished \<or> po = PersistOk)) \<and>
     (\<exists>(vanished, _, ok) \<in> set (sc_receipts sc). vanished \<or> ok)"

lemma machine_answers_return:
  assumes "machine_answers sc"
  shows "kill_until_empty (sc_kill sc) \<noteq> None" "retire_state e (sc_receipts sc) li \<noteq> None"
    "\<not> finalized (rt_hub rt) \<Longrightarrow> persist_final f (sc_final sc) rt \<noteq> None"
    "\<not> finalized (rt_hub rt) \<Longrightarrow> late_proof (sc_late sc) rt \<noteq> None"
  using assms kill_returns retire_state_returns persist_final_returns late_proof_returns
  unfolding machine_answers_def by fast+

lemma finalize_returns:
  assumes "machine_answers sc" "\<not> finalized (rt_hub (li_rt li))"
  shows "finalize_session V sc s li \<noteq> None"
proof -
  note ret = machine_answers_return [OF assms(1)]
  have removes: "remove_finished_state sc e l \<noteq> None" for e and l :: "'a life"
    using ret(2) by (auto simp: remove_finished_state_def split: option.splits)
  let ?taken = "if ls_containment_empty s then li\<lparr>li_cgroup := None\<rparr> else li"
  let ?e = "exit_of sc s li"
  obtain flushed h where f: "flush_history (sc_codec sc) (sc_fresh sc) True (fst (sc_flush sc)) (snd (sc_flush sc))
      (rt_hub (li_rt ?taken)) = (flushed, h)" by force
  have h: "\<not> finalized (rt_hub ((li_rt ?taken)\<lparr>rt_hub := h\<rparr>))"
    using f assms(2) finalized_flush [of "sc_codec sc" "sc_fresh sc" True "fst (sc_flush sc)" "snd (sc_flush sc)" "rt_hub (li_rt ?taken)"]
    by auto
  let ?s = "case flushed of Inl _ \<Rightarrow> add_fatal ''persist final history'' s | Inr _ \<Rightarrow> s"
  from ret(3) [OF h] obtain w rt where p: "persist_final (final_update ?s (ls_fatal ?s) ?e) (sc_final sc) ((li_rt ?taken)\<lparr>rt_hub := h\<rparr>) = Some (w, rt)"
    by fast
  have r: "record_final_state sc ?e s ?taken = Some (w, ?s, ?taken\<lparr>li_rt := rt\<rparr>)"
    using p by (simp add: record_final_state_def f del: if_split)
  have "\<not> finalized (rt_hub (rt_fail m rt))" for m
    using persist_final_fence [OF p] h by (simp add: rt_fail_def)
  from ret(4) [OF this] have l: "await_late_containment_proof sc s' y \<noteq> None" if "li_rt y = rt" for s' and y :: "'a life"
    using that by (simp add: await_late_containment_proof_def)
  show ?thesis
  proof (cases "will_remove sc s li")
    case True
    with removes show ?thesis by (simp add: finalize_session_def Let_def del: not_None_eq)
  next
    case False
    define s1 where "s1 = ?s"
    have same: "ls_containment_empty s1 = ls_containment_empty s" by (simp add: s1_def add_fatal_def split: sum.split)
    obtain w1 l1 where l1: "await_late_containment_proof sc s1 (li\<lparr>li_rt := rt\<rparr>) = Some (w1, l1)"
      using l [of "li\<lparr>li_rt := rt\<rparr>" s1] by auto
    obtain w2 l2 where l2: "await_late_containment_proof sc s1 (li\<lparr>li_rt := rt, li_warned := li_warned li @ [rt_record rt]\<rparr>) = Some (w2, l2)"
      using l [of "li\<lparr>li_rt := rt, li_warned := li_warned li @ [rt_record rt]\<rparr>" s1] by auto
    show ?thesis
      using False r [folded s1_def] removes l1 l2
      by (cases "ls_containment_empty s"; cases "oom_killed ?e \<or> ls_fatal s1 \<noteq> None")
        (simp_all add: finalize_session_def Let_def same del: not_None_eq)
  qed
qed

text \<open>
  C17: a worker does not outlive its session. When the child has exited, its output has ended and the
  containment is then seen empty, the worker exits: whatever else the loop is told before that, and
  however often the disk refuses the final record, the proof or the receipt before it takes them.
\<close>

theorem worker_exits:
  assumes "settles (sc_wakes sc) loop_new" "machine_answers sc" "\<not> finalized (rt_hub (li_rt li))"
  shows "\<exists>li'. run_lifecycle V sc li = Some li'"
proof -
  obtain s rt where o: "observe_lifecycle (sc_wakes sc) loop_new (li_rt li) = Some (s, rt)"
    using observe_returns [OF assms(1)] by fast
  have n: "\<not> finalized (rt_hub rt)"
    using observe_ends [OF o] assms(3) by (simp add: loop_new_def ended_as_def kept_fields_def Let_def)
  obtain r where k: "kill_until_empty (sc_kill sc) = Some r" using machine_answers_return(1) [OF assms(2)] by fast
  have f: "\<exists>lf. finalize_session V sc s1 (li\<lparr>li_rt := r1\<rparr>) = Some lf" if "\<not> finalized (rt_hub r1)" for s1 r1
    using finalize_returns [OF assms(2), of "li\<lparr>li_rt := r1\<rparr>"] that by auto
  show ?thesis
    using f [OF n, of s] f [of "rt\<lparr>rt_running := False\<rparr>" "s\<lparr>ls_containment_empty := True\<rparr>"] n
      f [OF n, of "add_fatal (''containment cleanup unproven: '' @ projl r) s"]
    by (cases r) (auto simp: run_lifecycle_def recover_unproven_containment_def o k Let_def)
qed

theorem worker_exits_witness: "\<exists>li'. run_lifecycle vt_log stubborn_script deadline_life = Some li'"
proof (rule worker_exits)
  show "settles (sc_wakes stubborn_script) loop_new"
    unfolding settles_def stubborn_script_def clean_script_def
    by (rule exI [of _ "[woken RecvTimeout True, woken (RecvEvent (LifeChildExit (Some 3) None)) True,
       woken (RecvEvent LifePtyEof) True]"], rule exI [of _ "woken RecvTimeout False"], rule exI [of _ "[]"])
      (simp add: woken_def)
  show "machine_answers stubborn_script" by (simp add: machine_answers_def stubborn_script_def clean_script_def)
  show "\<not> finalized (rt_hub (li_rt deadline_life))" by (simp add: deadline_life_def sample_rt_def)
qed

end
