(* ===== verification/Warnings_Laws.thy ===== *)
theory Warnings_Laws
  imports Warnings Lifecycle_Laws
begin

text \<open>
  A warning is shown from its first detection until somebody acknowledges it and not after, up to the
  recorders that are between their checks and their write; a crash is reported only of a record that is
  still on disk; what the lifecycle thread leaves on a crash is one.
\<close>

section \<open>The directory over time\<close>

definition wd_ok :: "warning_dir \<Rightarrow> bool" where
  "wd_ok d \<longleftrightarrow> distinct (map fst (wd_files d)) \<and> (\<forall>i v. (i, Some v) \<in> set (wd_files d) \<longrightarrow> sw_session v = i)"

lemma map_of_put_file: "map_of (put_file sid v xs) i = (if i = sid then Some v else map_of xs i)"
  by (induction sid v xs rule: put_file.induct) auto

lemma keys_put_file: "fst ` set (put_file sid v xs) = insert sid (fst ` set xs)"
  by (induction sid v xs rule: put_file.induct) auto

lemma set_put_file: "set (put_file sid v xs) \<subseteq> insert (sid, v) (set xs)"
  by (induction sid v xs rule: put_file.induct) auto

lemma distinct_put_file: "distinct (map fst xs) \<Longrightarrow> distinct (map fst (put_file sid v xs))"
  by (induction sid v xs rule: put_file.induct) (auto simp: keys_put_file)

lemma put_warning_simps:
  "map_of (wd_files (put_warning w d)) i = (if i = sw_session w then Some (Some w) else map_of (wd_files d) i)"
  "wd_acked (put_warning w d) = wd_acked d" "wd_ok d \<Longrightarrow> wd_ok (put_warning w d)"
  using set_put_file [of "sw_session w" "Some w" "wd_files d"]
  by (auto simp: put_warning_def map_of_put_file wd_ok_def distinct_put_file)

lemma map_of_without: "map_of (filter (\<lambda>(i, _). i \<noteq> k) xs) j = (if j = k then None else map_of xs j)"
  by (induction xs) auto

lemma ack_rename_cases:
  "snd (ack_rename sid ok d) = d \<or>
   map_of (wd_files d) sid \<noteq> None \<and> ok \<and>
     snd (ack_rename sid ok d) = d\<lparr>wd_files := filter (\<lambda>(i, _). i \<noteq> sid) (wd_files d), wd_acked := sid # wd_acked d\<rparr>"
  by (simp add: ack_rename_def)

lemma ack_rename_keeps:
  "wd_ok d \<Longrightarrow> wd_ok (snd (ack_rename sid ok d))"
  "set (wd_acked d) \<subseteq> set (wd_acked (snd (ack_rename sid ok d)))"
  "i \<noteq> sid \<Longrightarrow> map_of (wd_files (snd (ack_rename sid ok d))) i = map_of (wd_files d) i"
  "map_of (wd_files (snd (ack_rename sid ok d))) i = Some v \<Longrightarrow> map_of (wd_files d) i = Some v"
  using ack_rename_cases [of sid ok d]
  by (auto simp: wd_ok_def distinct_map_filter map_of_without split: if_splits)

section \<open>Processes at work\<close>

text \<open>
  Any number of processes record and acknowledge at the same time. A process that records (the
  worker, a start that rolls back, the sweep of any command) starts on some warning and then makes
  the accesses of \<open>recorder_step\<close>, one at a time; a process that acknowledges makes one rename per
  session. A run is the sequence of the accesses of all of them, in the order in which the file
  system serves them.
\<close>

record warning_sys =
  ws_dir :: warning_dir
  ws_recorder :: "nat \<Rightarrow> recorder"

datatype warning_access = Start nat session_warning | Step nat persist_outcome | AckRename uuid bool

fun make_access :: "warning_access \<Rightarrow> warning_sys \<Rightarrow> warning_sys" where
  "make_access (Start p w) s =
     (case ws_recorder s p of Done _ \<Rightarrow> s\<lparr>ws_recorder := (ws_recorder s)(p := LookFile w)\<rparr> | _ \<Rightarrow> s)"
| "make_access (Step p po) s =
     (let (c, d) = recorder_step po (ws_recorder s p) (ws_dir s)
      in s\<lparr>ws_dir := d, ws_recorder := (ws_recorder s)(p := c)\<rparr>)"
| "make_access (AckRename sid ok) s = s\<lparr>ws_dir := snd (ack_rename sid ok (ws_dir s))\<rparr>"

abbreviation accesses :: "warning_access list \<Rightarrow> warning_sys \<Rightarrow> warning_sys" where
  "accesses \<equiv> fold make_access"

fun acks :: "uuid \<Rightarrow> warning_access \<Rightarrow> bool" where
  "acks i (AckRename sid _) \<longleftrightarrow> i = sid"
| "acks i _ \<longleftrightarrow> False"

fun access_of :: "nat \<Rightarrow> warning_access \<Rightarrow> bool" where
  "access_of p (Start q _) \<longleftrightarrow> p = q"
| "access_of p (Step q _) \<longleftrightarrow> p = q"
| "access_of p (AckRename _ _) \<longleftrightarrow> False"

text \<open>The recording function is the three accesses of one process, with those of the others in its gaps.\<close>

lemma others_keep_recorder: "list_all (\<lambda>a. \<not> access_of p a) as \<Longrightarrow> ws_recorder (accesses as s) p = ws_recorder s p"
proof (induction as arbitrary: s)
  case (Cons a as)
  then show ?case by (cases a) (auto simp: Let_def split: recorder.splits prod.splits)
qed simp

lemma step_split:
  "make_access (Step p po) s = s\<lparr>ws_dir := snd (recorder_step po (ws_recorder s p) (ws_dir s)),
     ws_recorder := (ws_recorder s)(p := fst (recorder_step po (ws_recorder s p) (ws_dir s)))\<rparr>"
  by (simp add: case_prod_beta)

lemma write_warning_run:
  assumes "ws_recorder s p = LookFile w" and "list_all (\<lambda>a. \<not> access_of p a) xs" "list_all (\<lambda>a. \<not> access_of p a) ys"
    and "s1 = make_access (Step p po) s" "s2 = make_access (Step p po) (accesses xs s1)"
    and "s3 = make_access (Step p po) (accesses ys s2)"
    and "gap (ws_recorder s1 p) (ws_dir s1) = ws_dir (accesses xs s1)"
    and "gap (ws_recorder s2 p) (ws_dir s2) = ws_dir (accesses ys s2)"
  shows "write_warning gap po w (ws_dir s) = (case ws_recorder s3 p of Done r \<Rightarrow> r | _ \<Rightarrow> Inr False, ws_dir s3)"
proof -
  have r: "ws_recorder (accesses xs s1) p = ws_recorder s1 p" "ws_recorder (accesses ys s2) p = ws_recorder s2 p"
    using others_keep_recorder assms(2,3) by blast+
  have s1: "recorder_step po (LookFile w) (ws_dir s) = (ws_recorder s1 p, ws_dir s1)"
    by (simp add: assms(4) step_split assms(1) del: make_access.simps)
  have s2: "recorder_step po (ws_recorder s1 p) (ws_dir (accesses xs s1)) = (ws_recorder s2 p, ws_dir s2)"
    by (simp add: assms(5) step_split r(1) del: make_access.simps)
  have s3: "recorder_step po (ws_recorder s2 p) (ws_dir (accesses ys s2)) = (ws_recorder s3 p, ws_dir s3)"
    by (simp add: assms(6) step_split r(2) del: make_access.simps)
  show ?thesis unfolding write_warning_def Let_def s1 prod.case assms(7) s2 assms(8) s3 ..
qed

text \<open>
  The warnings that recorders may still write over a listed one (they have seen no file), and those
  that they will write whatever happens (they have seen no acknowledgement either).
\<close>

definition pending :: "warning_sys \<Rightarrow> session_warning set" where
  "pending s = {w. \<exists>p. ws_recorder s p = LookAcked w \<or> ws_recorder s p = Publish w}"

definition cleared :: "warning_sys \<Rightarrow> session_warning set" where
  "cleared s = {w. \<exists>p. ws_recorder s p = Publish w}"

lemma recorder_step_dir:
  "snd (recorder_step po c d) = d \<or> (\<exists>w. c = Publish w \<and> snd (recorder_step po c d) = put_warning w d)"
  by (auto simp: recorder_step_def split: recorder.split persist_outcome.split)

lemma recorder_step_next:
  "fst (recorder_step po c d) = LookAcked v \<Longrightarrow> c = LookFile v \<and> map_of (wd_files d) (sw_session v) = None"
  "fst (recorder_step po c d) = Publish v \<Longrightarrow> c = LookAcked v \<and> sw_session v \<notin> set (wd_acked d)"
  by (auto simp: recorder_step_def split: recorder.splits persist_outcome.splits if_splits)

lemma moved_on:
  "v \<in> pending (s\<lparr>ws_dir := d, ws_recorder := (ws_recorder s)(p := c)\<rparr>) \<Longrightarrow> v \<in> pending s \<or> c = LookAcked v \<or> c = Publish v"
  "v \<in> cleared (s\<lparr>ws_dir := d, ws_recorder := (ws_recorder s)(p := c)\<rparr>) \<Longrightarrow> v \<in> cleared s \<or> c = Publish v"
  "pending (s\<lparr>ws_dir := d\<rparr>) = pending s" "cleared (s\<lparr>ws_dir := d\<rparr>) = cleared s"
  by (auto simp: pending_def cleared_def split: if_splits)

lemma start_keeps:
  "ws_dir (make_access (Start p w) s) = ws_dir s"
  "v \<in> pending (make_access (Start p w) s) \<Longrightarrow> v \<in> pending s" "v \<in> cleared (make_access (Start p w) s) \<Longrightarrow> v \<in> cleared s"
  by (auto simp: pending_def cleared_def split: recorder.splits if_splits)

lemma access_ok: "wd_ok (ws_dir s) \<Longrightarrow> wd_ok (ws_dir (make_access a s))"
proof (cases a)
  case (Step p po)
  then show "wd_ok (ws_dir s) \<Longrightarrow> ?thesis"
    using recorder_step_dir [of po "ws_recorder s p" "ws_dir s"] put_warning_simps(3)
    by (auto simp: step_split simp del: make_access.simps)
qed (simp_all add: start_keeps ack_rename_keeps del: make_access.simps(1))

lemma accesses_ok: "wd_ok (ws_dir s) \<Longrightarrow> wd_ok (ws_dir (accesses as s))"
  by (induction as arbitrary: s) (simp_all add: access_ok del: make_access.simps)

definition shown :: "uuid \<Rightarrow> session_warning set \<Rightarrow> warning_sys \<Rightarrow> bool" where
  "shown i V s \<longleftrightarrow> (\<exists>v \<in> V. map_of (wd_files (ws_dir s)) i = Some (Some v)) \<and> (\<forall>v \<in> pending s. sw_session v = i \<longrightarrow> v \<in> V)"

lemma shown_access:
  assumes "shown i V s" "\<not> acks i a"
  shows "shown i V (make_access a s)"
proof (cases a)
  case (Start p w)
  with assms(1) start_keeps show ?thesis unfolding shown_def by metis
next
  case (AckRename sid ok)
  with assms show ?thesis by (simp add: shown_def moved_on(3) ack_rename_keeps(3))
next
  case (Step p po)
  let ?c = "ws_recorder s p" and ?d = "ws_dir s"
  obtain v where v: "v \<in> V" "map_of (wd_files ?d) i = Some (Some v)" using assms(1) by (auto simp: shown_def)
  have old: "u \<in> V" if "u \<in> pending s" "sw_session u = i" for u using assms(1) that by (simp add: shown_def)
  have "\<exists>v \<in> V. map_of (wd_files (snd (recorder_step po ?c ?d))) i = Some (Some v)"
    using recorder_step_dir [of po ?c ?d]
  proof (elim disjE exE conjE)
    fix w assume w: "?c = Publish w" "snd (recorder_step po ?c ?d) = put_warning w ?d"
    then have "w \<in> pending s" by (auto simp: pending_def)
    with w(2) v old show ?thesis by (cases "sw_session w = i") (auto simp: put_warning_simps)
  qed (use v in auto)
  moreover have "u \<in> V" if u: "u \<in> pending (make_access a s)" "sw_session u = i" for u
    using moved_on(1) [OF u(1) [unfolded Step step_split]]
  proof (elim disjE)
    assume "fst (recorder_step po ?c ?d) = LookAcked u"
    from recorder_step_next(1) [OF this] v u(2) show ?thesis by simp
  next
    assume "fst (recorder_step po ?c ?d) = Publish u"
    from recorder_step_next(2) [OF this] have "u \<in> pending s" by (auto simp: pending_def)
    with old u(2) show ?thesis by blast
  qed (use old u(2) in blast)
  ultimately show ?thesis unfolding shown_def by (simp add: Step step_split del: make_access.simps)
qed

lemma shown_accesses: "list_all (\<lambda>a. \<not> acks i a) as \<Longrightarrow> shown i V s \<Longrightarrow> shown i V (accesses as s)"
  by (induction as arbitrary: s) (simp_all add: shown_access del: make_access.simps)

definition silenced :: "uuid \<Rightarrow> session_warning set \<Rightarrow> warning_sys \<Rightarrow> bool" where
  "silenced i V s \<longleftrightarrow> i \<in> set (wd_acked (ws_dir s)) \<and> (\<forall>v. map_of (wd_files (ws_dir s)) i = Some (Some v) \<longrightarrow> v \<in> V) \<and>
     (\<forall>v \<in> cleared s. sw_session v = i \<longrightarrow> v \<in> V)"

lemma silenced_access:
  assumes "silenced i V s"
  shows "silenced i V (make_access a s)"
proof (cases a)
  case (Start p w)
  with assms start_keeps show ?thesis unfolding silenced_def by metis
next
  case (AckRename sid ok)
  with assms ack_rename_keeps(2) [of "ws_dir s" sid ok] show ?thesis
    by (auto simp: silenced_def moved_on(4) dest: ack_rename_keeps(4))
next
  case (Step p po)
  let ?c = "ws_recorder s p" and ?d = "ws_dir s"
  have acked: "i \<in> set (wd_acked ?d)" and listed: "\<And>v. map_of (wd_files ?d) i = Some (Some v) \<Longrightarrow> v \<in> V"
    and old: "\<And>v. v \<in> cleared s \<Longrightarrow> sw_session v = i \<Longrightarrow> v \<in> V"
    using assms by (auto simp: silenced_def)
  have "i \<in> set (wd_acked (snd (recorder_step po ?c ?d)))" "map_of (wd_files (snd (recorder_step po ?c ?d))) i = Some (Some v) \<longrightarrow> v \<in> V" for v
    using recorder_step_dir [of po ?c ?d]
  proof (atomize (full), elim disjE exE conjE)
    fix w assume w: "?c = Publish w" "snd (recorder_step po ?c ?d) = put_warning w ?d"
    then have "w \<in> cleared s" by (auto simp: cleared_def)
    with w(2) acked listed old show "i \<in> set (wd_acked (snd (recorder_step po ?c ?d))) \<and>
        (map_of (wd_files (snd (recorder_step po ?c ?d))) i = Some (Some v) \<longrightarrow> v \<in> V)"
      by (auto simp: put_warning_simps)
  qed (use acked listed in auto)
  moreover have "u \<in> V" if u: "u \<in> cleared (make_access a s)" "sw_session u = i" for u
    using moved_on(2) [OF u(1) [unfolded Step step_split]] recorder_step_next(2) [of po ?c ?d u] old u(2) acked by blast
  ultimately show ?thesis unfolding silenced_def by (simp add: Step step_split del: make_access.simps)
qed

lemma silenced_accesses: "silenced i V s \<Longrightarrow> silenced i V (accesses as s)"
  by (induction as arbitrary: s) (simp_all add: silenced_access del: make_access.simps)

lemma loaded_iff: "w \<in> set (load_warnings d) \<longleftrightarrow> (\<exists>i. (i, Some w) \<in> set (wd_files d))"
  by (force simp: load_warnings_def List.map_filter_def)

lemma loaded_file:
  assumes "wd_ok d"
  shows "w \<in> set (load_warnings d) \<longleftrightarrow> map_of (wd_files d) (sw_session w) = Some (Some w)"
proof -
  have "(i, Some w) \<in> set (wd_files d) \<Longrightarrow> sw_session w = i" for i using assms by (auto simp: wd_ok_def)
  moreover have "distinct (map fst (wd_files d))" using assms by (simp add: wd_ok_def)
  ultimately show ?thesis unfolding loaded_iff by (auto dest: map_of_SomeD intro: map_of_is_SomeI)
qed

text \<open>
  C38: a crash warning is shown until it is acknowledged, and not after, whatever accesses any number of
  processes make and in whatever order. As long as no acknowledgement of its session is made, a session
  that is listed stays listed, with the same warning and the same detection time unless a recorder that
  looked before the warning was there writes its own over it. And once an acknowledgement has moved a
  session's warning away, nothing that starts to record later, and no recorder that has not yet looked for
  the acknowledgement, lists the session again: the only warning of it that can still appear is one
  whose recorder had made both its checks before.
\<close>

theorem warning_shown_until_acked:
  assumes "wd_ok (ws_dir s)"
  shows "(w \<in> set (load_warnings (ws_dir s)) \<and> list_all (\<lambda>a. \<not> acks (sw_session w) a) as \<longrightarrow>
      (\<exists>v \<in> set (load_warnings (ws_dir (accesses as s))). sw_session v = sw_session w \<and> (v = w \<or> v \<in> pending s))) \<and>
    (ack_rename i ok (ws_dir s) = (Inr True, d') \<longrightarrow>
      (\<forall>v \<in> set (load_warnings (ws_dir (accesses (AckRename i ok # as) s))). sw_session v = i \<longrightarrow> v \<in> cleared s))"
proof (intro conjI impI, goal_cases)
  case 1
  let ?i = "sw_session w"
  have "shown ?i {v. v = w \<or> v \<in> pending s} s" using 1 assms by (auto simp: shown_def loaded_file)
  from shown_accesses [OF _ this, of as] 1 obtain v
    where v: "v = w \<or> v \<in> pending s" "map_of (wd_files (ws_dir (accesses as s))) ?i = Some (Some v)"
    by (auto simp: shown_def)
  note ok = accesses_ok [OF assms, of as]
  have "sw_session v = ?i" using ok map_of_SomeD [OF v(2)] by (auto simp: wd_ok_def)
  with v show ?case by (intro bexI [of _ v]) (simp_all add: loaded_file [OF ok])
next
  case 2
  let ?s = "make_access (AckRename i ok) s"
  have "silenced i (cleared s) ?s"
    using 2 by (auto simp: silenced_def cleared_def ack_rename_def map_of_without split: if_splits)
  from silenced_accesses [OF this, of as]
  have "\<forall>v. map_of (wd_files (ws_dir (accesses (AckRename i ok # as) s))) i = Some (Some v) \<longrightarrow> v \<in> cleared s"
    by (simp add: silenced_def del: make_access.simps)
  with loaded_file [OF accesses_ok [OF assms, of "AckRename i ok # as"]] show ?case by auto
qed

section \<open>Crashes are confirmed\<close>

lemma written_warning:
  "write_warning gap po w d = (Inr True, d') \<Longrightarrow> load_warning_for (sw_session w) d' = Some w"
  by (auto simp: write_warning_def recorder_step_def Let_def load_warning_for_def put_warning_simps
      split: if_splits persist_outcome.splits)

text \<open>
  C39: no false crash of a session that ended normally. When a record read earlier still says its worker
  runs, a warning is written only if the record that is on disk now, after the worker was seen dead, is
  itself that of an out-of-memory kill, of a worker that died without an exit, or of a failed one, and the
  warning says what that record says: one that was finished meanwhile, or removed, gives none.
\<close>

theorem crash_warning_confirmed:
  assumes "record_warning P reg pr again now gap po r d = (Inr True, d')" "worker_phase_active r" "sr_exit r = None"
  shows "\<exists>current w. read_session_record P (sr_id r) reg = Inr current \<and> load_warning_for (sr_id r) d' = Some w \<and>
    warning_for_record again current = Some (sw_kind w, sw_detail w) \<and> sw_created_at_ms w = now \<and>
    ((\<exists>e. sr_exit current = Some e \<and> oom_killed e) \<or> sr_phase current = Failed \<or>
     worker_phase_active current \<and> \<not> worker_alive (pr_machine again) current)"
proof -
  obtain kind detail where "warning_for_record pr r = Some (kind, detail)"
    using assms(1) by (auto simp: record_warning_def split: option.splits)
  moreover from this have "kind = WarnCrash"
    using assms(3) by (auto simp: warning_for_record_def warning_for_record_at_def Let_def split: if_splits)
  ultimately obtain current kind' detail' where c: "read_session_record P (sr_id r) reg = Inr current"
      "warning_for_record again current = Some (kind', detail')"
    and w: "write_warning gap po \<lparr>sw_schema_version = WARNINGS_SCHEMA_VERSION, sw_session = sr_id r, sw_workspace = sr_workspace r, sw_tag = sr_tag r, sw_engine = sr_engine r,
        sw_kind = kind', sw_detail = detail', sw_created_at_ms = now\<rparr> d = (Inr True, d')"
    using assms(1,2) by (auto simp: record_warning_def split: option.splits sum.splits)
  from written_warning [OF w] have "load_warning_for (sr_id r) d' = Some \<lparr>sw_schema_version = WARNINGS_SCHEMA_VERSION, sw_session = sr_id r, sw_workspace = sr_workspace r, sw_tag = sr_tag r,
      sw_engine = sr_engine r, sw_kind = kind', sw_detail = detail', sw_created_at_ms = now\<rparr>"
    by simp
  moreover have "(\<exists>e. sr_exit current = Some e \<and> oom_killed e) \<or> sr_phase current = Failed \<or>
     worker_phase_active current \<and> \<not> worker_alive (pr_machine again) current"
    using c(2) by (cases "sr_phase current") (auto simp: warning_for_record_def warning_for_record_at_def Let_def observed_state_at_def
      observed_state_def worker_phase_active_def split: if_splits option.splits)
  ultimately show ?thesis using c by auto
qed

text \<open>The final record of a session that failed or was killed for memory warrants a warning wherever it is looked at.\<close>

lemma terminal_record_warns:
  assumes "terminal_record e r" "oom_killed e \<or> sr_error r \<noteq> None"
  shows "warning_for_record pr r \<noteq> None"
  using assms by (auto simp: terminal_record_def warning_for_record_def warning_for_record_at_def
      is_finished_exiting_corpse_def Let_def split: if_splits)

section \<open>Finding what is gone\<close>

lemma to_lower_map: "to_lower = map lower_char"
  by (simp add: to_lower_def lower_char_def Let_def fun_eq_iff)

text \<open>The shape of an id as text: 36 characters, 32 of them lower-case hexadecimal, the first 8 of these first.\<close>

definition uuid_char :: "char \<Rightarrow> bool" where
  "uuid_char c \<longleftrightarrow> (let n = of_char c :: nat in 48 \<le> n \<and> n \<le> 57 \<or> 97 \<le> n \<and> n \<le> 102 \<or> n = 45)"

definition uuid_shape :: "(uuid \<Rightarrow> string) \<Rightarrow> bool" where
  "uuid_shape uuid_text \<longleftrightarrow> (\<forall>i. list_all uuid_char (uuid_text i) \<and>
     length (filter (\<lambda>c. c \<noteq> CHR ''-'') (uuid_text i)) = 32 \<and> 8 \<le> length (uuid_text i) \<and>
     list_all (\<lambda>c. c \<noteq> CHR ''-'') (take 8 (uuid_text i)))"

lemma lower_code: "of_char (lower_char c) = (let n = of_char c :: nat in if 65 \<le> n \<and> n \<le> 90 then n + 32 else n)"
  by (simp add: lower_char_def Let_def)

lemma dash_code: "c = CHR ''-'' \<longleftrightarrow> (of_char c :: nat) = 45"
proof
  assume "(of_char c :: nat) = 45"
  then have "char_of (of_char c :: nat) = (char_of (45 :: nat) :: char)" by simp
  moreover have "char_of (45 :: nat) = CHR ''-''" by code_simp
  ultimately show "c = CHR ''-''" by simp
qed simp

lemma lower_dash: "lower_char c = CHR ''-'' \<longleftrightarrow> c = CHR ''-''"
  by (simp add: dash_code lower_code Let_def)

lemma lower_hex: "uuid_char (lower_char c) \<Longrightarrow> c = CHR ''-'' \<or> is_hexdigit c"
  by (auto simp: dash_code uuid_char_def is_hexdigit_def lower_code Let_def split: if_splits)

lemma filter_lower: "length (filter (\<lambda>c. c \<noteq> CHR ''-'') (map lower_char s)) = length (filter (\<lambda>c. c \<noteq> CHR ''-'') s)"
  by (induction s) (simp_all add: lower_dash)

text \<open>A prefix of an id, in any case, reads as one.\<close>

lemma uuid_prefix_recognized:
  assumes "uuid_shape uuid_text" "starts_with (to_lower s) (uuid_text i)" "8 \<le> length s"
  shows "looks_like_uuid_prefix s"
proof -
  let ?t = "uuid_text i" and ?n = "to_lower s"
  note u = assms(1) [unfolded uuid_shape_def, rule_format, of i]
  have n: "take (length s) ?t = map lower_char s" using assms(2) by (simp add: starts_with_def to_lower_map)
  have "uuid_char (lower_char c)" if "c \<in> set s" for c
  proof -
    have "lower_char c \<in> set (take (length s) ?t)" using that by (simp add: n)
    with u show ?thesis by (auto simp: list_all_iff dest!: in_set_takeD)
  qed
  then have hex: "list_all is_hexdigit (filter (\<lambda>c. c \<noteq> CHR ''-'') s)"
    using lower_hex by (auto simp: list_all_iff)
  have "length (filter (\<lambda>c. c \<noteq> CHR ''-'') s) = length (filter (\<lambda>c. c \<noteq> CHR ''-'') (take (length s) ?t))"
    by (simp only: n filter_lower)
  moreover have "length (filter (\<lambda>c. c \<noteq> CHR ''-'') (take (length s) ?t)) \<le> length (filter (\<lambda>c. c \<noteq> CHR ''-'') ?t)"
    by (metis append_take_drop_id filter_append length_append le_add1)
  moreover have "8 \<le> length (filter (\<lambda>c. c \<noteq> CHR ''-'') (take (length s) ?t))"
  proof -
    have "take (length s) ?t = take 8 ?t @ take (length s - 8) (drop 8 ?t)"
      using assms(3) by (metis le_add_diff_inverse take_add)
    moreover have "filter (\<lambda>c. c \<noteq> CHR ''-'') (take 8 ?t) = take 8 ?t" using u by (simp add: list_all_iff filter_id_conv)
    ultimately show ?thesis using u by simp
  qed
  ultimately show ?thesis using hex u by (simp add: looks_like_uuid_prefix_def Let_def)
qed

lemma no_colon: "uuid_shape uuid_text \<Longrightarrow> CHR '':'' \<in> set s \<Longrightarrow> \<not> starts_with (to_lower s) (uuid_text i)"
proof
  assume u: "uuid_shape uuid_text" and c: "CHR '':'' \<in> set s" and p: "starts_with (to_lower s) (uuid_text i)"
  have "lower_char (CHR '':'') = CHR '':''" by code_simp
  with c have "CHR '':'' \<in> set (to_lower s)" by (force simp: to_lower_map)
  with p have "CHR '':'' \<in> set (uuid_text i)" unfolding starts_with_def by (metis in_set_takeD)
  with u have "uuid_char (CHR '':'')" by (simp add: uuid_shape_def list_all_iff)
  moreover have "\<not> uuid_char (CHR '':'')" by code_simp
  ultimately show False by simp
qed

lemma rsplit_once_None: "rsplit_once c s = None \<longleftrightarrow> c \<notin> set s"
  by (simp add: rsplit_once_def split_once_None)

text \<open>A selector that names a record also names what is left of it.\<close>

lemma selector_names_remains:
  assumes "uuid_shape uuid_text" "r \<in> set (selector_matches uuid_text canonical sel records)"
  shows "list_ex (query_matches uuid_text canonical (sr_id r) (sr_workspace r) (sr_tag r))
    (tombstone_queries canonical (Some sel) None None cwd)"
proof (cases "rsplit_once (CHR '':'') sel")
  case None
  with assms(2) have m: "uuid_text (sr_id r) = to_lower sel \<or> 8 \<le> length sel \<and> starts_with (to_lower sel) (uuid_text (sr_id r))"
    by (auto simp: selector_matches_def Let_def to_lower_map split: if_splits)
  moreover have "8 \<le> length (uuid_text (sr_id r))" using assms(1) by (simp add: uuid_shape_def)
  ultimately have p: "8 \<le> length sel" "starts_with (to_lower sel) (uuid_text (sr_id r))"
    by (auto simp: to_lower_map starts_with_def)
  with uuid_prefix_recognized [OF assms(1) p(2,1)] None show ?thesis
    by (simp add: tombstone_queries_def query_matches_def)
next
  case (Some p)
  obtain ws tag where p: "p = (ws, tag)" by force
  with Some have "CHR '':'' \<in> set sel" by (metis rsplit_once_None option.discI)
  from no_colon [OF assms(1) this] have n: "\<not> starts_with (to_lower sel) (uuid_text i)" "uuid_text i \<noteq> to_lower sel" for i
    by (metis, metis order.refl starts_with_def take_all)
  from assms(2) Some p n have "holds_pair ws tag r \<or> (\<exists>c. canonical ws = Some c \<and> holds_pair c tag r)"
    by (auto simp: selector_matches_def Let_def to_lower_map split: if_splits option.splits)
  with Some p show ?thesis
    by (auto simp: tombstone_queries_def query_matches_def holds_pair_def canonical_or_def split: option.splits)
qed

lemma lookup_newest:
  assumes "t \<in> set (read_tombstones dirs)" "tombstone_matches uuid_text canonical (tombstone_queries canonical sel ws tag cwd) t"
  shows "\<exists>t'. lookup_finished_tombstone uuid_text canonical dirs sel ws tag cwd = Some t' \<and> t' \<in> set (read_tombstones dirs) \<and>
    tombstone_matches uuid_text canonical (tombstone_queries canonical sel ws tag cwd) t' \<and> ft_finished_at_ms t \<le> ft_finished_at_ms t'"
proof -
  let ?key = "\<lambda>t. - int (ft_finished_at_ms t)"
  let ?found = "filter (tombstone_matches uuid_text canonical (tombstone_queries canonical sel ws tag cwd)) (read_tombstones dirs)"
  have t: "t \<in> set (sort_key ?key ?found)" using assms by simp
  then obtain t' ts where s: "sort_key ?key ?found = t' # ts" by (cases "sort_key ?key ?found") auto
  have "sorted (map ?key (t' # ts))" using sorted_sort_key [of ?key ?found] by (simp only: s)
  moreover have "t \<in> set (t' # ts)" using t s by simp
  moreover have "t' \<in> set ?found" using s by (metis list.set_intros(1) set_sort)
  ultimately show ?thesis using s by (auto simp: lookup_finished_tombstone_def Let_def)
qed

text \<open>
  What it is for the remains of a session to have the name a selector spells: with a colon, the tag
  behind the last one and the workspace before it, as written or as the file system resolves it;
  otherwise an id that starts with it, in any case; otherwise its tag in the current workspace.
\<close>

definition answers_to ::
    "(uuid \<Rightarrow> string) \<Rightarrow> (string \<Rightarrow> string option) \<Rightarrow> string option \<Rightarrow> string \<Rightarrow> uuid \<Rightarrow> string \<Rightarrow> string \<Rightarrow> bool" where
  "answers_to uuid_text canonical cwd sel sid ws tag \<longleftrightarrow>
     (if CHR '':'' \<in> set sel then
        (\<exists>w. sel = w @ CHR '':'' # tag \<and> CHR '':'' \<notin> set tag \<and>
           (\<exists>c. (canonical w = Some c \<or> canonical w = None \<and> c = w) \<and> (ws = c \<or> canonical ws = Some c)))
      else if looks_like_uuid_prefix sel then starts_with (map lower_char sel) (uuid_text sid)
      else tag = sel \<and> (\<exists>c. cwd = Some c \<and> (ws = c \<or> canonical ws = Some c)))"

lemma queries_answer:
  "list_ex (query_matches uuid_text canonical sid ws tag) (tombstone_queries canonical (Some sel) None None cwd) \<longleftrightarrow>
     answers_to uuid_text canonical cwd sel sid ws tag"
proof (cases "rsplit_once (CHR '':'') sel")
  case None
  then have "CHR '':'' \<notin> set sel" by (simp add: rsplit_once_None)
  with None show ?thesis
    by (auto simp: answers_to_def tombstone_queries_def query_matches_def to_lower_map split: option.splits)
next
  case (Some p)
  obtain w t where p: "p = (w, t)" by force
  have colon: "CHR '':'' \<in> set sel" using Some rsplit_once_None [of "CHR '':''" sel] by simp
  have split: "sel = w' @ CHR '':'' # t' \<and> CHR '':'' \<notin> set t' \<longleftrightarrow> w' = w \<and> t' = t" for w' t'
    unfolding rsplit_once_Some [symmetric] Some p by auto
  have "answers_to uuid_text canonical cwd sel sid ws tag \<longleftrightarrow>
      (\<exists>w'. (sel = w' @ CHR '':'' # tag \<and> CHR '':'' \<notin> set tag) \<and>
         (\<exists>c. (canonical w' = Some c \<or> canonical w' = None \<and> c = w') \<and> (ws = c \<or> canonical ws = Some c)))"
    unfolding answers_to_def using colon by simp
  then have named: "answers_to uuid_text canonical cwd sel sid ws tag \<longleftrightarrow>
      tag = t \<and> (ws = canonical_or canonical w \<or> canonical ws = Some (canonical_or canonical w))"
    unfolding split by (auto simp: canonical_or_def split: option.splits)
  from Some p show ?thesis unfolding named by (auto simp: tombstone_queries_def query_matches_def)
qed

text \<open>
  C40: what is left of a session answers to its names, and nothing else does. A selector that would have
  found the session's record (a prefix of its id of eight characters or more, or its workspace and tag)
  finds its tombstone once the record is gone, or a newer one of the same name: the newest of those that
  answer to the selector, so a late \<open>a kill\<close> learns that it is finished. And it selects exactly the
  warnings that answer to it, the session's own among them, so \<open>a ack\<close> reaches that and no other.
\<close>

theorem remains_answer_to_names:
  assumes "uuid_shape uuid_text" "r \<in> set (selector_matches uuid_text canonical sel records)"
  shows "(t \<in> set (read_tombstones dirs) \<and> ft_id t = sr_id r \<and> ft_workspace t = sr_workspace r \<and> ft_tag t = sr_tag r \<longrightarrow>
      (\<exists>t'. lookup_finished_tombstone uuid_text canonical dirs (Some sel) None None cwd = Some t' \<and>
         t' \<in> set (read_tombstones dirs) \<and> ft_finished_at_ms t \<le> ft_finished_at_ms t' \<and>
         answers_to uuid_text canonical cwd sel (ft_id t') (ft_workspace t') (ft_tag t') \<and>
         (\<forall>u \<in> set (read_tombstones dirs). answers_to uuid_text canonical cwd sel (ft_id u) (ft_workspace u) (ft_tag u) \<longrightarrow>
            ft_finished_at_ms u \<le> ft_finished_at_ms t'))) \<and>
    (\<forall>v. v \<in> set (select_warnings uuid_text canonical (Some sel) None None cwd d) \<longleftrightarrow>
       v \<in> set (load_warnings d) \<and> answers_to uuid_text canonical cwd sel (sw_session v) (sw_workspace v) (sw_tag v)) \<and>
    (w \<in> set (load_warnings d) \<and> sw_session w = sr_id r \<and> sw_workspace w = sr_workspace r \<and> sw_tag w = sr_tag r \<longrightarrow>
      w \<in> set (select_warnings uuid_text canonical (Some sel) None None cwd d))"
proof -
  note own = selector_names_remains [OF assms, of cwd]
  then have some_query: "tombstone_queries canonical (Some sel) None None cwd \<noteq> []" by auto
  have found: "\<exists>t'. lookup_finished_tombstone uuid_text canonical dirs (Some sel) None None cwd = Some t' \<and>
      t' \<in> set (read_tombstones dirs) \<and> answers_to uuid_text canonical cwd sel (ft_id t') (ft_workspace t') (ft_tag t') \<and>
      ft_finished_at_ms u \<le> ft_finished_at_ms t'"
    if "u \<in> set (read_tombstones dirs)" "answers_to uuid_text canonical cwd sel (ft_id u) (ft_workspace u) (ft_tag u)" for u
    using lookup_newest [OF that(1), of uuid_text canonical "Some sel" None None cwd] that(2)
    by (simp add: tombstone_matches_def queries_answer)
  have warned: "v \<in> set (select_warnings uuid_text canonical (Some sel) None None cwd d) \<longleftrightarrow>
      v \<in> set (load_warnings d) \<and> answers_to uuid_text canonical cwd sel (sw_session v) (sw_workspace v) (sw_tag v)" for v
    using some_query by (auto simp: select_warnings_def Let_def queries_answer)
  have "\<exists>t'. lookup_finished_tombstone uuid_text canonical dirs (Some sel) None None cwd = Some t' \<and>
      t' \<in> set (read_tombstones dirs) \<and> ft_finished_at_ms t \<le> ft_finished_at_ms t' \<and>
      answers_to uuid_text canonical cwd sel (ft_id t') (ft_workspace t') (ft_tag t') \<and>
      (\<forall>u \<in> set (read_tombstones dirs). answers_to uuid_text canonical cwd sel (ft_id u) (ft_workspace u) (ft_tag u) \<longrightarrow>
         ft_finished_at_ms u \<le> ft_finished_at_ms t')"
    if "t \<in> set (read_tombstones dirs)" "ft_id t = sr_id r" "ft_workspace t = sr_workspace r" "ft_tag t = sr_tag r"
    using found [of t] found that own by (fastforce simp: queries_answer)
  with warned own show ?thesis by (simp add: queries_answer)
qed

text \<open>
  A workspace without a tag is no query, and neither is a plain word when the current workspace is unknown:
  \<open>a ack\<close> then acknowledges every warning there is.
\<close>

lemma ack_workspace_selects_all: "select_warnings uuid_text canonical None (Some ws) None cwd d = load_warnings d"
  by (simp add: select_warnings_def tombstone_queries_def)

text \<open>The converse of the answer above fails: a plain word finds a tombstone, and never a record.\<close>

lemma plain_word_finds_tombstone:
  "selector_matches uuid_text canonical ''main'' [sample_record] = [] \<longleftrightarrow> uuid_text 5 \<noteq> ''main''"
  "tombstone_queries canonical (Some ''main'') None None (Some ''/w'') = [ByPair (Some ''/w'') ''main'']"
proof -
  have l: "map lower_char ''main'' = ''main''" "rsplit_once (CHR '':'') ''main'' = None" "\<not> looks_like_uuid_prefix ''main''"
    by code_simp+
  then show "selector_matches uuid_text canonical ''main'' [sample_record] = [] \<longleftrightarrow> uuid_text 5 \<noteq> ''main''"
    by (simp add: selector_matches_def Let_def sample_record_def del: list.map)
  show "tombstone_queries canonical (Some ''main'') None None (Some ''/w'') = [ByPair (Some ''/w'') ''main'']"
    using l by (simp add: tombstone_queries_def)
qed

section \<open>Witnesses\<close>

definition hex_digits :: string where "hex_digits = ''0123456789abcdef''"

definition hex_text :: "nat \<Rightarrow> nat \<Rightarrow> string" where
  "hex_text k n = map (\<lambda>j. hex_digits ! (n div 16 ^ j mod 16)) (rev [0..<k])"

definition sample_uuid_text :: "uuid \<Rightarrow> string" where
  "sample_uuid_text i = hex_text 8 (i div 16 ^ 24) @ ''-'' @ hex_text 4 (i div 16 ^ 20) @ ''-'' @ hex_text 4 (i div 16 ^ 16) @ ''-'' @
     hex_text 4 (i div 16 ^ 12) @ ''-'' @ hex_text 12 i"

lemma hex_text_chars: "list_all (\<lambda>c. uuid_char c \<and> c \<noteq> CHR ''-'') (hex_text k n)"
proof -
  have "list_all (\<lambda>c. uuid_char c \<and> c \<noteq> CHR ''-'') hex_digits" "length hex_digits = 16" by code_simp+
  then have "uuid_char (hex_digits ! m) \<and> hex_digits ! m \<noteq> CHR ''-''" if "m < 16" for m
    using that by (simp add: list_all_length)
  then show ?thesis by (simp add: hex_text_def list_all_iff)
qed

lemma hex_text_filter: "filter (\<lambda>c. c \<noteq> CHR ''-'') (hex_text k n) = hex_text k n"
  using hex_text_chars [of k n] by (simp add: list_all_iff filter_id_conv)

lemma length_hex_text: "length (hex_text k n) = k"
  by (simp add: hex_text_def)

lemma sample_uuid_shape: "uuid_shape sample_uuid_text"
proof -
  have "uuid_char (CHR ''-'')" by code_simp
  with hex_text_chars show ?thesis
    by (auto simp: uuid_shape_def sample_uuid_text_def hex_text_filter length_hex_text list_all_iff)
qed

definition sample_tombstone :: finished_tombstone where
  "sample_tombstone = plain_tombstone 9 5 ''/w'' ''main'' CauseFinished None None"

definition sample_warning :: session_warning where
  "sample_warning = \<lparr>sw_schema_version = WARNINGS_SCHEMA_VERSION, sw_session = 5, sw_workspace = ''/w'', sw_tag = ''main'', sw_engine = ''shell'', sw_kind = WarnOom,
     sw_detail = ''oom'', sw_created_at_ms = 9\<rparr>"

definition sample_warnings :: warning_dir where
  "sample_warnings = \<lparr>wd_files = [(5, Some sample_warning), (6, None)], wd_acked = []\<rparr>"

lemma sample_pair: "sample_record \<in> set (selector_matches sample_uuid_text Some ''/w:main'' [sample_record])"
proof -
  have "rsplit_once (CHR '':'') ''/w:main'' = Some (''/w'', ''main'')" by code_simp
  then show ?thesis by (simp add: selector_matches_def Let_def holds_pair_def sample_record_def del: list.map)
qed

theorem remains_answer_to_names_witness:
  "(\<exists>t'. lookup_finished_tombstone sample_uuid_text Some [(5, \<lparr>rd_archive = False, rd_tombstone = Some sample_tombstone\<rparr>)]
      (Some ''/w:main'') None None None = Some t' \<and> 9 \<le> ft_finished_at_ms t') \<and>
   sample_warning \<in> set (select_warnings sample_uuid_text Some (Some ''/w:main'') None None None sample_warnings)"
  using remains_answer_to_names [OF sample_uuid_shape sample_pair, of sample_tombstone
      "[(5, \<lparr>rd_archive = False, rd_tombstone = Some sample_tombstone\<rparr>)]" None sample_warnings sample_warning]
  by (simp add: read_tombstones_def List.map_filter_simps sample_tombstone_def plain_tombstone_def sample_record_def
      loaded_iff sample_warnings_def sample_warning_def)

text \<open>
  Session 5 is listed and a sweep has found no file of session 6. While session 6 gets its warning,
  session 5 keeps its own; when it is acknowledged, a recorder that comes later finds that out.
\<close>

definition sample_sys :: warning_sys where
  "sample_sys = \<lparr>ws_dir = sample_warnings, ws_recorder = (\<lambda>_. Done (Inr False))\<rparr>"

definition later_warning :: session_warning where
  "later_warning = sample_warning\<lparr>sw_created_at_ms := 11\<rparr>"

theorem warning_shown_until_acked_witness:
  "sample_warning \<in> set (load_warnings (ws_dir (accesses
     [Start 1 later_warning, Step 1 PersistOk, Step 1 PersistOk, Step 1 PersistOk, AckRename 6 True] sample_sys))) \<and>
   5 \<notin> sw_session ` set (load_warnings (ws_dir (accesses
     [AckRename 5 True, Start 1 later_warning, Step 1 PersistOk, Step 1 PersistOk, Step 1 PersistOk] sample_sys)))"
proof -
  have ok: "wd_ok (ws_dir sample_sys)" by (simp add: wd_ok_def sample_sys_def sample_warnings_def sample_warning_def)
  have none: "pending sample_sys = {}" "cleared sample_sys = {}" by (simp_all add: pending_def cleared_def sample_sys_def)
  have listed: "sample_warning \<in> set (load_warnings (ws_dir sample_sys))" "sw_session sample_warning = 5"
    by (simp_all add: loaded_iff sample_sys_def sample_warnings_def sample_warning_def)
  have "\<exists>d'. ack_rename 5 True (ws_dir sample_sys) = (Inr True, d')"
    by (simp add: ack_rename_def sample_sys_def sample_warnings_def)
  then show ?thesis
    using warning_shown_until_acked [OF ok, of sample_warning
        "[Start 1 later_warning, Step 1 PersistOk, Step 1 PersistOk, Step 1 PersistOk, AckRename 6 True]" 5 True]
      warning_shown_until_acked [OF ok, of sample_warning
        "[Start 1 later_warning, Step 1 PersistOk, Step 1 PersistOk, Step 1 PersistOk]" 5 True]
    unfolding none listed(2) using listed(1) by (auto simp del: make_access.simps)
qed

text \<open>
  The exceptions happen. Two sweeps that both found no warning of a session write theirs in turn, so
  the second detection replaces the first; and one that made its checks before an acknowledgement
  lists the session again after it. The module's comment says that concurrent processes cannot
  re-date a warning.
\<close>

lemma concurrent_sweeps_redate:
  "load_warnings (ws_dir (accesses
     [Start 1 later_warning, Step 1 PersistOk, Step 1 PersistOk, Start 2 sample_warning, Step 2 PersistOk, Step 2 PersistOk,
      Step 2 PersistOk, Step 1 PersistOk] \<lparr>ws_dir = \<lparr>wd_files = [], wd_acked = []\<rparr>, ws_recorder = (\<lambda>_. Done (Inr False))\<rparr>)) =
     [later_warning]"
  "load_warnings (ws_dir (accesses
     [Start 1 later_warning, Step 1 PersistOk, Step 1 PersistOk, Start 2 sample_warning, Step 2 PersistOk, Step 2 PersistOk,
      Step 2 PersistOk, AckRename 5 True, Step 1 PersistOk]
      \<lparr>ws_dir = \<lparr>wd_files = [], wd_acked = []\<rparr>, ws_recorder = (\<lambda>_. Done (Inr False))\<rparr>)) = [later_warning]"
  by (simp_all add: recorder_step_def later_warning_def sample_warning_def put_warning_def ack_rename_def load_warnings_def
      List.map_filter_simps)

text \<open>A worker is gone without a word, and its record still says that it runs.\<close>

definition sample_probe :: probe where
  "sample_probe = \<lparr>pr_machine = sample_machine, pr_now = 20, pr_boot = (\<lambda>_. None)\<rparr>"

lemma dead_record_broken:
  "warning_for_record sample_probe dead_record = Some (WarnCrash,
     ''worker died unexpectedly while running (no exit recorded; termination signal and kill source are unknown)'')"
proof -
  have "\<not> process_alive (m_os sample_machine) 43"
    by (simp add: process_alive_def sample_machine_def sample_os_def ESRCH_def EPERM_def)
  then have "\<not> worker_alive sample_machine dead_record"
    using host_proves_absence by (simp add: worker_alive_def dead_record_def)
  then show ?thesis
    by (simp add: warning_for_record_def warning_for_record_at_def sample_probe_def is_finished_exiting_corpse_def
        observed_state_at_def observed_state_def within_startup_window_def manager_boot_for_def attribute_manager_teardown_def
        dead_record_def sample_record_def)
qed

theorem crash_warning_confirmed_witness:
  "\<exists>w. load_warning_for 6 (snd (record_warning sample_paths sample_registry sample_probe sample_probe 30 (\<lambda>_. id) PersistOk dead_record
      \<lparr>wd_files = [], wd_acked = []\<rparr>)) = Some w \<and> sw_kind w = WarnCrash"
proof -
  let ?d = "\<lparr>wd_files = [], wd_acked = []\<rparr>"
  have f: "sr_id dead_record = 6" "worker_phase_active dead_record" "sr_exit dead_record = None"
    by (simp_all add: dead_record_def sample_record_def worker_phase_active_def)
  have c: "read_session_record sample_paths 6 sample_registry = Inr dead_record"
    using sample_checks(2) by (simp add: read_session_record_def sample_registry_def)
  have "fst (record_warning sample_paths sample_registry sample_probe sample_probe 30 (\<lambda>_. id) PersistOk dead_record ?d) = Inr True"
    by (simp add: record_warning_def dead_record_broken f c write_warning_def recorder_step_def)
  then have "record_warning sample_paths sample_registry sample_probe sample_probe 30 (\<lambda>_. id) PersistOk dead_record ?d =
      (Inr True, snd (record_warning sample_paths sample_registry sample_probe sample_probe 30 (\<lambda>_. id) PersistOk dead_record ?d))"
    by (simp add: prod_eq_iff)
  from crash_warning_confirmed [OF this f(2,3)] show ?thesis by (auto simp: f(1) c dead_record_broken)
qed

end
