(* ===== verification/Spec2Isabelle.thy ===== *)
theory Spec2Isabelle
  imports Wire_Protocol History_Recovery Client_Screen Hub_Streams Pair_Claim Runtime_Laws Mailbox_Samples
    Launch_Laws Task_Stamp Task_Laws Handoff_Laws
    Switch_Laws Input_Scanner Watch_Laws Warnings_Laws
begin

text \<open>
  A verification development for aplexer, a multiplexer that keeps coding agents running in
  detached sessions. All paths below are under \<open>src/src/\<close>.

  \<^bold>\<open>The program.\<close> One worker process per session owns a pseudo-terminal and its workload. Clients
  (the command \<open>a\<close>, or another program) talk to the worker over a Unix socket with length-prefixed
  frames. The worker reads the terminal, keeps the last bytes of the output in a durable ring on disk,
  keeps a screen model, and fans the output out to the attached clients; a client mirrors the screen,
  filters what it relays to its own terminal, and sends input and its size back. Sessions are records
  in a registry directory that any command lists, claims, renames, prunes or archives under locks.
  Sessions write each other mail through a mailbox per workspace. A configuration file chooses the
  engine and the environment of a launch; \<open>a task run\<close> launches an engine once without a session, and
  a handoff schedule makes that a daily launch.

  \<^bold>\<open>How the theories follow the code.\<close> A theory holds the definitions of one source file or of a
  group of files that work on one state, in the order of the code; a theory named \<open>_Laws\<close>,
  \<open>_Streams\<close>, \<open>_Durability\<close>, \<open>_Recovery\<close> or \<open>_Store\<close> beside it holds what is proved of them. Structs
  are records, enums datatypes, \<open>anyhow::Result\<close> is a sum with an error type per component, so every
  \<open>bail!\<close> and every \<open>?\<close> is a branch. Locks do not appear as such: an operation that runs under a lock
  is one step, operations that release it in between are several, an operation that takes none is one
  step per access of the shared files, and interleavings are lists of operations, \<open>inductive\<close> step
  relations, or functions for what others do between two steps.

  \<^item> \<open>Prelude\<close>, \<open>Rust_Text\<close>, \<open>Rust_Std\<close>: bytes, endian encodings, saturating and checked arithmetic,
    the locale \<open>byte_machine\<close> of recognizers that work byte by byte (whatever the chunking of their
    input), strings with the methods of \<open>str\<close> the sources use, paths, and the ordered map
    (\<open>BTreeMap\<close>, locale \<open>ordered_map\<close>).
  \<^item> \<open>Wire_Protocol\<close> (\<open>protocol.rs\<close>): the frame codec over a reader that may be interrupted and cut
    anywhere, and the request and response types. What is written is read back, and only that.
  \<^item> \<open>History_Format\<close>, \<open>History_Store\<close>, \<open>History_Durability\<close>, \<open>History_Recovery\<close> (\<open>history.rs\<close>,
    \<open>history/\<close>, \<open>persist.rs\<close>): the ring, the two bank files with their commit records, the flush as a
    sequence of file operations any of which may fail or be the last before a crash, recovery, and the
    raw view for older readers. The flush refines the assignment of the ring to the disk; an
    interrupted one leaves the old or the new history; it can be retried.
  \<^item> \<open>Stream_Boundary\<close>, \<open>Margin_Tracker\<close>, \<open>Host_Alt\<close>, \<open>Screen_Tracker\<close>, \<open>Client_Screen\<close> (\<open>screen/\<close>): the
    recognizer of escape boundaries, the scroll region, the filter that keeps the workload from
    switching modes the client owns, the tracked screen and its history seed, and the client's relay
    with its insertions.
  \<^item> \<open>Subscriber_Queue\<close>, \<open>Output_Hub\<close>, \<open>Hub_Streams\<close> (\<open>worker/hub.rs\<close>, \<open>worker/hub/\<close>): the
    bounded queue of a client, the fan-out, and what a client is sent over time: bytes without a gap
    for a raw client, a snapshot and everything since for a screen client, the outcome once for all.
  \<^item> \<open>Process_Probe\<close>, \<open>Session_Record\<close>, \<open>Registry\<close>, \<open>Pair_Claim\<close> (\<open>process.rs\<close>, \<open>pidfd.rs\<close>,
    \<open>record.rs\<close>, \<open>record/\<close>, \<open>registry.rs\<close>, \<open>api.rs\<close>, \<open>api/start/\<close>): liveness and identity of
    processes, the verdict that a record may be destroyed, listing, pruning, forgetting and archiving,
    the claim of a pair of workspace and tag, rename. A record is destroyed only on evidence that
    was read. A sweep takes the lock record by record and others act in between: each of its steps
    removes at most one session, on the record re-read under the lock; a removal may fail half way. A
    rename writes the record the worker holds in memory.
  \<^item> \<open>Attach_Writer\<close>, \<open>Worker_Runtime\<close>, \<open>Runtime_Laws\<close>, \<open>Report_Laws\<close> (\<open>worker/attach.rs\<close>,
    \<open>worker/runtime.rs\<close>, \<open>worker/spawn.rs\<close>): the output pump with its stall
    guard, input, the shared size, the clients, and the state reports of the agents' hooks.
  \<^item> \<open>Lifecycle\<close>, \<open>Lifecycle_Laws\<close>, \<open>Retired\<close> (\<open>worker/lifecycle.rs\<close>, \<open>retired.rs\<close>): the thread that ends a
    session on the runtime and the hub: it exits only after the containment was seen empty, it does
    exit once the machine lets it, and the session is then gone with its receipt or has a final record
    with a reason. The tombstones that are left.
  \<^item> \<open>Warnings\<close>, \<open>Warnings_Laws\<close> (\<open>warnings.rs\<close>, \<open>placement.rs\<close>): what counts as a crash, the sweep and the
    acknowledgements, which take no lock and so interleave access by access: shown until acknowledged,
    not after (but for a recorder that had looked before), and only of a crash the disk confirms; the
    names by which tombstones and warnings are found, and no others.
  \<^item> \<open>Mailbox\<close>, \<open>Mailbox_Store\<close>, \<open>Mailbox_Laws\<close>, \<open>Mailbox_Samples\<close> (\<open>messaging/\<close>): the message
    files, cursors, expiry and quota, and the submission of a message into a pane. Invariants over
    runs of operations of any processes in which any write may fail are carried by one locale
    (\<open>cursor_invariant\<close>, extended to \<open>mailbox_invariant\<close>), interpreted once for each invariant.
  \<^item> \<open>Launch_Config\<close>, \<open>Launch_Laws\<close> (\<open>config/\<close>, \<open>enter_timing.rs\<close>): the schema, validation, shell
    choice, discovery, loading and the resolution of a launch.
  \<^item> \<open>Task_Time\<close>, \<open>Task_Stamp\<close>, \<open>Task_Run\<close>, \<open>Task_Laws\<close> (\<open>task.rs\<close>,
    \<open>bin/aplexer/task_commands.rs\<close>): calendar and timestamps, cutoff routing, the child with its
    timeout, the evidence files and the notice put into the mailbox.
  \<^item> \<open>Handoff\<close>, \<open>Handoff_Laws\<close> (\<open>handoff_schedule.rs\<close>, \<open>bin/aplexer/handoff_schedule_commands.rs\<close>):
    the schedule, its claim markers, and fires that interleave access by access (locale
    \<open>exclusive_claims\<close>).
  \<^item> \<open>Session_Switch\<close>, \<open>Switch_Laws\<close>, \<open>Input_Scanner\<close> (\<open>bin/aplexer/switch_targets.rs\<close>,
    \<open>list_helpers.rs\<close>, \<open>diagnostics.rs\<close>, \<open>input_scanner.rs\<close>, \<open>attach_input.rs\<close>): which session a
    key means, and which bytes are keys. The input thread follows a grammar over the bytes typed
    between two silences, however the reads cut them, until a prompt or a picker takes the keyboard;
    those (\<open>rename_prompt.rs\<close> and the pickers) are a parameter.
  \<^item> \<open>Watch_Stream\<close>, \<open>Watch_Laws\<close> (\<open>watch.rs\<close>, \<open>watch/\<close>): the state words and the event stream, which
    replayed over a listing refines the registry; no event is without a listing that shows it.

  \<^bold>\<open>Parameters and their hypotheses.\<close> Code the repository only calls is an argument. The history
  codec and the mail codec stand for serde and checksums (\<open>codec_ok\<close>, \<open>mail_codec_ok\<close>: what is encoded
  decodes, ids have distinct names); the terminal emulator vt100 is a record of functions
  (\<open>vt_streams\<close>: processing a concatenation is processing the parts); TOML and the schedule's JSON are
  decoders; the time zone of the C library, SHA-256 and the texts of errors are
  functions. What the operating system answers (probes, renames, syncs, writes, polls, clocks) is a
  script or a field of a world record, so every answer is covered. Each theorem with such a
  hypothesis has a witness with a concrete instance.

  \<^bold>\<open>Bounds and termination.\<close> Loops of the code that end are recursive functions with their measure;
  the wait for a child, the stall guard, the lifecycle of a worker and the reader loops, which end only when the world lets
  them, consume a script of answers, and a loop whose script has run out is the value \<open>None\<close> or a
  still running state. That they end is proved from what ends them (a clock that reaches the deadline, a
  terminal outcome, an empty containment and a disk that takes a write). No fuel bounds a result.
  Natural numbers stand for unsigned integers where the code checks or saturates; the wrap and the caps
  are written out where they matter (lengths, stream positions, geometry, quotas).

  \<^bold>\<open>Not modelled.\<close> Threads and sockets as such (\<open>worker/connection.rs\<close>, \<open>worker/startup.rs\<close>), process
  creation and containment (cgroups, systemd, Windows jobs: \<open>cgroup/\<close>, \<open>sys/\<close>, the launch side of \<open>placement.rs\<close>), the kill
  escalation of \<open>worker/termination.rs\<close>, the heuristics that read a composer off a screen
  (\<open>delivery_ack.rs\<close>, \<open>shell_prompt.rs\<close>), the readers of third-party transcripts and hook files
  (\<open>agent_kind\<close>, \<open>agent_events\<close>, \<open>hooks\<close>), rendering and argument parsing of the command line, the
  Python bindings, and everything specific to Windows and macOS: their behaviour is that of the
  operating system or of file formats the repository does not define.
\<close>

end
